(* ===== verification/Prelude.thy ===== *)
theory Prelude
  imports Main "HOL-Library.Word" "HOL-Library.Monad_Syntax" "HOL-Library.Sublist"
begin

unbundle bit_operations_syntax

text \<open>
  Shared vocabulary of the development: the C integer types, C integer division, the two loop
  combinators the translated code uses, and the proof interface \<open>evolution\<close> with which a fact
  about single operations is lifted to the loops and sequences the code builds from them.

  A C function that can kill the process (a failed \<open>ASSERT\<close>, an \<open>ABORT()\<close>, or an access outside
  an array, which C leaves undefined) returns an \<open>option\<close>, and \<open>None\<close> is the death of the
  process. Everything else the code does is a state update.
\<close>

section \<open>Integer types\<close>

type_synonym u8 = "8 word"
type_synonym u32 = "32 word"
type_synonym u64 = "64 word"

text \<open>A conversion to a 32-bit \<open>int\<close>: the low 32 bits read as two's complement.\<close>

definition int32 :: "int \<Rightarrow> int" where
  "int32 x = signed_take_bit 31 x"

text \<open>C division truncates towards zero.\<close>

definition cdiv :: "int \<Rightarrow> int \<Rightarrow> int" where
  "cdiv a b = sgn a * sgn b * (\<bar>a\<bar> div \<bar>b\<bar>)"

lemma cdiv_nonneg [simp]: "0 \<le> a \<Longrightarrow> 0 < b \<Longrightarrow> cdiv a b = a div b"
  by (cases "a = 0") (simp_all add: cdiv_def)

lemma int32_id: "- (2 ^ 31) \<le> x \<Longrightarrow> x < 2 ^ 31 \<Longrightarrow> int32 x = x"
  by (simp add: int32_def signed_take_bit_int_eq_self)

lemma int32_bounds: "- (2 ^ 31) \<le> int32 x \<and> int32 x < 2 ^ 31"
  using signed_take_bit_int_greater_eq_minus_exp [of 31 x] signed_take_bit_int_less_exp [of 31 x]
  by (simp add: int32_def)

section \<open>Small distances on the 32-bit circle\<close>

text \<open>
  The sequence numbers of the code live on the circle of 32-bit words, and are compared by the
  sign of their difference. A page holds ten of them, so the proofs compare two numbers that are
  a small distance apart from a common base.
\<close>

lemma unat_of_nat_small [simp]: "n < 2 ^ 32 \<Longrightarrow> unat (of_nat n :: u32) = n"
  by (simp add: unat_of_nat)

lemma unat_lt_u8: "unat (x :: u8) < 256"
  using unsigned_less [of x, where 'a = nat] by simp

lemma unat_lt_u32: "unat (x :: u32) < 2 ^ 32"
  using unsigned_less [of x, where 'a = nat] by simp

lemma unat_lt_u64: "unat (x :: u64) < 2 ^ 64"
  using unsigned_less [of x, where 'a = nat] by simp

lemma sint_word_of_int_32: "sint (word_of_int x :: u32) = signed_take_bit 31 x"
  by (simp add: sint_sbintrunc')

lemma sint_of_nat_diff:
  assumes "a < 2 ^ 30" and "b < 2 ^ 30"
  shows "sint (of_nat a - of_nat b :: u32) = int a - int b"
proof -
  have "(of_nat a - of_nat b :: u32) = word_of_int (int a - int b)" by simp
  then have "sint (of_nat a - of_nat b :: u32) = signed_take_bit 31 (int a - int b)"
    by (simp only: sint_word_of_int_32)
  also have "\<dots> = int a - int b"
    using assms by (intro signed_take_bit_int_eq_self) simp_all
  finally show ?thesis .
qed

lemma sint_offset_diff:
  assumes "a < 2 ^ 30" and "b < 2 ^ 30"
  shows "sint ((x + of_nat a) - (x + of_nat b) :: u32) = int a - int b"
  using sint_of_nat_diff [OF assms] by simp

lemma of_nat_u32_inject:
  "a < 2 ^ 30 \<Longrightarrow> b < 2 ^ 30 \<Longrightarrow> (of_nat a :: u32) = of_nat b \<longleftrightarrow> a = b"
  using sint_of_nat_diff [of a b] by fastforce

section \<open>Loops\<close>

text \<open>
  A \<open>for\<close> loop whose body may kill the process. A loop whose body cannot is \<open>fold\<close> over the
  indices.
\<close>

fun for_each :: "('i \<Rightarrow> 's \<Rightarrow> 's option) \<Rightarrow> 'i list \<Rightarrow> 's \<Rightarrow> 's option" where
  "for_each f [] s = Some s"
| "for_each f (i # is) s = do { s' \<leftarrow> f i s; for_each f is s' }"

lemma for_each_append:
  "for_each f (xs @ ys) s = do { s' \<leftarrow> for_each f xs s; for_each f ys s' }"
  by (induction xs arbitrary: s) (auto split: bind_splits)

lemma for_each_invariant:
  assumes "for_each f is s = Some s'" and "P s"
    and "\<And>i s s'. i \<in> set is \<Longrightarrow> P s \<Longrightarrow> f i s = Some s' \<Longrightarrow> P s'"
  shows "P s'"
  using assms
proof (induction "is" arbitrary: s)
  case Nil
  then show ?case by simp
next
  case (Cons i "is")
  from Cons.prems(1) obtain t where t: "f i s = Some t" "for_each f is t = Some s'"
    by (auto simp: bind_eq_Some_conv)
  have "P t" using Cons.prems(2,3) t(1) by auto
  then show ?case using Cons.IH [OF t(2)] Cons.prems(3) by auto
qed

lemma for_each_total:
  assumes "\<And>i s. i \<in> set is \<Longrightarrow> P s \<Longrightarrow> \<exists>s'. f i s = Some s' \<and> P s'" and "P s"
  shows "\<exists>s'. for_each f is s = Some s' \<and> P s'"
  using assms
proof (induction "is" arbitrary: s)
  case (Cons i "is")
  then obtain t where "f i s = Some t" "P t" by (meson list.set_intros(1))
  with Cons show ?case by auto
qed simp

lemma fold_invariant_set:
  assumes "P s" and "\<And>i s. i \<in> set is \<Longrightarrow> P s \<Longrightarrow> P (f i s)"
  shows "P (fold f is s)"
  using assms by (induction "is" arbitrary: s) auto

section \<open>Evolution of a state\<close>

text \<open>
  An \<open>evolution\<close> is a reflexive and transitive relation between the state before and the state
  after. Whatever every operation of a component does to the state within such a relation, the
  loops and the handlers built from the operations do as well.
\<close>

locale evolution =
  fixes ev :: "'s \<Rightarrow> 's \<Rightarrow> bool"
  assumes refl: "ev s s"
    and trans: "ev s t \<Longrightarrow> ev t u \<Longrightarrow> ev s u"
begin

lemma fold_ev: "(\<And>i s. i \<in> set is \<Longrightarrow> ev s (f i s)) \<Longrightarrow> ev s (fold f is s)"
  by (induction "is" arbitrary: s) (auto intro: refl trans)

lemma for_each_ev:
  "(\<And>i s s'. i \<in> set is \<Longrightarrow> f i s = Some s' \<Longrightarrow> ev s s') \<Longrightarrow>
    for_each f is s = Some s' \<Longrightarrow> ev s s'"
proof (induction "is" arbitrary: s)
  case Nil
  then show ?case by (simp add: refl)
next
  case (Cons i "is")
  from Cons.prems(2) obtain t where t: "f i s = Some t" "for_each f is t = Some s'"
    by (auto simp: bind_eq_Some_conv)
  have "ev s t" using Cons.prems(1) t(1) by auto
  moreover have "ev t s'" using Cons.IH [OF _ t(2)] Cons.prems(1) by auto
  ultimately show ?case by (rule trans)
qed

lemma bind_ev:
  "f s = Some t \<Longrightarrow> g t = Some u \<Longrightarrow> (f s = Some t \<Longrightarrow> ev s t) \<Longrightarrow> (g t = Some u \<Longrightarrow> ev t u) \<Longrightarrow> ev s u"
  by (blast intro: trans)

end

section \<open>Lists\<close>

lemma map_upt_shift: "map f [a..<a + n] = map (\<lambda>i. f (a + i)) [0..<n]"
  by (rule nth_equalityI) simp_all

lemma filter_last_snoc: "filter P (xs @ [x]) = filter P xs @ (if P x then [x] else [])"
  by simp

end
