(* ===== verification/Gadget_Base.thy ===== *)
theory Gadget_Base
  imports Prelude
begin

text \<open>
  The macros and inline functions of \<^verbatim>\<open>NWGadget/h/NWGadget.h\<close> that the Paxos library is built
  on: comparison on the sequence circle, time stamps, wait queues and send channels.

  Time is kept in unbounded integers (the code's \<open>time_t\<close> and \<open>long\<close> have 64 bits); the places
  where the code narrows a time to 32 bits are written out with \<open>int32\<close>.
\<close>

section \<open>Sequence numbers\<close>

text \<open>\<open>CMP( x, y )\<close>: the signed 32-bit difference.\<close>

definition CMP :: "u32 \<Rightarrow> u32 \<Rightarrow> int" where
  "CMP x y = sint (x - y)"

text \<open>\<open>SEQ_INC( x )\<close> skips 0, which means "no sequence number yet".\<close>

definition SEQ_INC :: "u32 \<Rightarrow> u32" where
  "SEQ_INC x = (if x + 1 = 0 then x + 1 + 1 else x + 1)"

definition SEQ_CMP :: "u32 \<Rightarrow> u32 \<Rightarrow> int" where
  "SEQ_CMP x y =
     (if x = 0 then (if y = 0 then 0 else -1)
      else (if y = 0 then 1 else sint (x - y)))"

lemma CMP_self [simp]: "CMP x x = 0"
  by (simp add: CMP_def signed_eq_0_iff)

lemma CMP_eq_0 [simp]: "CMP x y = 0 \<longleftrightarrow> x = y"
  by (simp add: CMP_def signed_eq_0_iff)

lemma CMP_offset:
  "a < 2 ^ 30 \<Longrightarrow> b < 2 ^ 30 \<Longrightarrow> CMP (x + of_nat a) (x + of_nat b) = int a - int b"
  unfolding CMP_def by (rule sint_offset_diff)

lemma SEQ_INC_nonzero: "SEQ_INC x \<noteq> 0"
  by (auto simp: SEQ_INC_def)

lemma SEQ_CMP_self [simp]: "SEQ_CMP x x = 0"
  by (simp add: SEQ_CMP_def)

lemma SEQ_CMP_eq_0 [simp]: "SEQ_CMP x y = 0 \<longleftrightarrow> x = y"
  by (auto simp: SEQ_CMP_def signed_eq_0_iff)

text \<open>The successor is strictly later than the number it follows, over the wrap too.\<close>

lemma SEQ_CMP_INC: "0 < SEQ_CMP (SEQ_INC x) x"
proof (cases "x + 1 = 0")
  case True
  then have x: "x = -1" by (simp add: add_eq_0_iff2)
  show ?thesis by (simp add: SEQ_CMP_def SEQ_INC_def x)
next
  case False
  then show ?thesis by (simp add: SEQ_CMP_def SEQ_INC_def)
qed

section \<open>Time stamps\<close>

record timespec =
  tv_sec :: int
  tv_nsec :: int

abbreviation timespec_zero :: timespec where
  "timespec_zero \<equiv> \<lparr>tv_sec = 0, tv_nsec = 0\<rparr>"

definition TIMESPECCOMPARE :: "timespec \<Rightarrow> timespec \<Rightarrow> int" where
  "TIMESPECCOMPARE A B =
     (if tv_sec A = tv_sec B
      then (if tv_nsec A = tv_nsec B then 0 else tv_nsec A - tv_nsec B)
      else tv_sec A - tv_sec B)"

definition IsTimespecZero :: "timespec \<Rightarrow> bool" where
  "IsTimespecZero A \<longleftrightarrow> tv_sec A = 0 \<and> tv_nsec A = 0"

definition TimespecAddUsec :: "timespec \<Rightarrow> int \<Rightarrow> timespec" where
  "TimespecAddUsec A usec =
     (let w = usec * 1000 + tv_nsec A;
          c = int32 (cdiv w 1000000000)
      in \<lparr>tv_sec = tv_sec A + c, tv_nsec = w - c * 1000000000\<rparr>)"

definition TimespecSubUsec :: "timespec \<Rightarrow> int \<Rightarrow> timespec" where
  "TimespecSubUsec A usec =
     (let c = tv_sec A * 1000000000 + tv_nsec A - usec * 1000;
          w = cdiv c 1000000000
      in \<lparr>tv_sec = w, tv_nsec = c - w * 1000000000\<rparr>)"

definition TIMEOUT :: "timespec \<Rightarrow> int \<Rightarrow> timespec" where
  "TIMEOUT Now ms =
     (let w = tv_sec Now * 1000000000 + tv_nsec Now + ms * 1000000;
          sec = cdiv w 1000000000
      in \<lparr>tv_sec = sec, tv_nsec = w - sec * 1000000000\<rparr>)"

text \<open>The instant a time stamp denotes, in nanoseconds, and the stamps a clock returns.\<close>

definition nanos :: "timespec \<Rightarrow> int" where
  "nanos A = tv_sec A * 1000000000 + tv_nsec A"

definition normal_time :: "timespec \<Rightarrow> bool" where
  "normal_time A \<longleftrightarrow> 0 \<le> tv_sec A \<and> 0 \<le> tv_nsec A \<and> tv_nsec A < 1000000000"

lemma IsTimespecZero_zero [simp]: "IsTimespecZero timespec_zero"
  by (simp add: IsTimespecZero_def)

lemma IsTimespecZero_iff: "IsTimespecZero A \<longleftrightarrow> A = timespec_zero"
  by (cases A) (simp add: IsTimespecZero_def)

lemma nanos_AddUsec: "nanos (TimespecAddUsec A u) = nanos A + u * 1000"
  by (simp add: nanos_def TimespecAddUsec_def Let_def algebra_simps)

lemma nanos_TIMEOUT: "nanos (TIMEOUT A ms) = nanos A + ms * 1000000"
  by (simp add: nanos_def TIMEOUT_def Let_def algebra_simps)

lemma nanos_SubUsec: "nanos (TimespecSubUsec A u) = nanos A - u * 1000"
  by (simp add: nanos_def TimespecSubUsec_def Let_def algebra_simps)

lemma normal_AddUsec:
  assumes A: "normal_time A" and u: "0 \<le> u" "u < 2 ^ 40"
  shows "normal_time (TimespecAddUsec A u)"
proof -
  let ?w = "u * 1000 + tv_nsec A"
  have w: "0 \<le> ?w" "?w < 2 ^ 31 * 1000000000"
    using A u by (simp_all add: normal_time_def)
  then have "?w div 1000000000 < 2 ^ 31" by (simp add: div_less_iff_less_mult)
  moreover have "0 \<le> ?w div 1000000000" using w by (simp add: pos_imp_zdiv_nonneg_iff)
  ultimately have c: "int32 (cdiv ?w 1000000000) = ?w div 1000000000"
    using w by (simp add: int32_id)
  have "?w - ?w div 1000000000 * 1000000000 = ?w mod 1000000000"
    by (simp add: minus_div_mult_eq_mod)
  then show ?thesis
    using A w c by (simp add: normal_time_def TimespecAddUsec_def Let_def pos_imp_zdiv_nonneg_iff)
qed

text \<open>The comparison orders normal stamps by the instant they denote.\<close>

lemma TIMESPECCOMPARE_sign:
  assumes "normal_time A" and "normal_time B"
  shows "TIMESPECCOMPARE A B < 0 \<longleftrightarrow> nanos A < nanos B"
    and "TIMESPECCOMPARE A B = 0 \<longleftrightarrow> nanos A = nanos B"
  using assms by (auto simp: TIMESPECCOMPARE_def nanos_def normal_time_def)

section \<open>Wait queues\<close>

text \<open>
  A \<open>Queue_t\<close>: the linked entries in arrival order, the count the code keeps beside them, the
  abort code, the suspend flag, the bound (0 for none), the number of refused posts and the
  number of threads inside \<open>QueueTimedWait\<close>. Every function holds \<open>q_mtx\<close>, so each is one step.
\<close>

record 'a Queue =
  q_entry :: "'a list"
  q_cnt :: int
  q_abrt :: int
  q_flg :: bool
  q_max :: int
  q_omitted :: int
  q_waiter :: int

definition QueueInit :: "'a Queue" where
  "QueueInit = \<lparr>q_entry = [], q_cnt = 0, q_abrt = 0, q_flg = False, q_max = 0,
     q_omitted = 0, q_waiter = 0\<rparr>"

definition QueuePost :: "'a Queue \<Rightarrow> 'a \<Rightarrow> int \<times> 'a Queue" where
  "QueuePost ep x =
     (if q_max ep \<noteq> 0 \<and> q_max ep \<le> q_cnt ep
      then (-1, ep\<lparr>q_omitted := q_omitted ep + 1\<rparr>)
      else (0, ep\<lparr>q_entry := q_entry ep @ [x], q_cnt := q_cnt ep + 1\<rparr>))"

text \<open>
  A thread that waits releases the mutex, and later either gets an error from the wait (a
  timeout) or finds the queue as the other threads left it. \<open>QueueTimedWait\<close> takes the sequence of
  these wake-ups; \<open>None\<close> is a thread that is still waiting after all of them.
\<close>

datatype 's wakeup = WaitErr int | Woken 's

fun QueueWaitLoop :: "'a Queue \<Rightarrow> 'a Queue wakeup list \<Rightarrow> (int \<times> 'a option \<times> 'a Queue) option" where
  "QueueWaitLoop ep ws =
     (if q_flg ep \<or> q_entry ep = [] then
        (if q_abrt ep \<noteq> 0 then Some (q_abrt ep, None, ep\<lparr>q_waiter := q_waiter ep - 1\<rparr>)
         else (case ws of
             [] \<Rightarrow> None
           | WaitErr err # ws' \<Rightarrow> Some (err, None, ep\<lparr>q_waiter := q_waiter ep - 1\<rparr>)
           | Woken ep' # ws' \<Rightarrow> QueueWaitLoop ep' ws'))
      else Some (0, Some (hd (q_entry ep)),
             ep\<lparr>q_entry := tl (q_entry ep), q_cnt := q_cnt ep - 1, q_waiter := q_waiter ep - 1\<rparr>))"

declare QueueWaitLoop.simps [simp del]

definition QueueTimedWait :: "'a Queue \<Rightarrow> 'a Queue wakeup list \<Rightarrow> (int \<times> 'a option \<times> 'a Queue) option" where
  "QueueTimedWait ep ws = QueueWaitLoop (ep\<lparr>q_waiter := q_waiter ep + 1\<rparr>) ws"

text \<open>The library's timeout code is reserved for the waits themselves (\<open>ETIMEDOUT\<close> is 110).\<close>

definition QueueAbort :: "'a Queue \<Rightarrow> int \<Rightarrow> int \<times> 'a Queue" where
  "QueueAbort ep abrt = (if abrt = 110 then (-1, ep) else (0, ep\<lparr>q_abrt := abrt\<rparr>))"

definition QueueSuspend :: "'a Queue \<Rightarrow> 'a Queue" where
  "QueueSuspend ep = ep\<lparr>q_flg := True\<rparr>"

definition QueueResume :: "'a Queue \<Rightarrow> 'a Queue" where
  "QueueResume ep = ep\<lparr>q_flg := False\<rparr>"

definition QueueMax :: "'a Queue \<Rightarrow> int \<Rightarrow> 'a Queue" where
  "QueueMax ep m = ep\<lparr>q_max := m\<rparr>"

definition queue_ok :: "'a Queue \<Rightarrow> bool" where
  "queue_ok ep \<longleftrightarrow> q_cnt ep = int (length (q_entry ep)) \<and> 0 \<le> q_max ep"

lemma queue_ok_Init [simp]: "queue_ok QueueInit"
  by (simp add: queue_ok_def QueueInit_def)

lemma queue_ok_Post: "queue_ok ep \<Longrightarrow> queue_ok (snd (QueuePost ep x))"
  by (simp add: queue_ok_def QueuePost_def)

lemma QueuePost_unbounded:
  "q_max ep = 0 \<Longrightarrow> QueuePost ep x = (0, ep\<lparr>q_entry := q_entry ep @ [x], q_cnt := q_cnt ep + 1\<rparr>)"
  by (simp add: QueuePost_def)

section \<open>Send channels\<close>

record sockaddr_in =
  sin_addr :: u32
  sin_port :: "16 word"

record ChSend_t =
  c_PeerAddr :: sockaddr_in
  c_Status :: u32

abbreviation (input) CHSEND_STOP :: u32 where "CHSEND_STOP \<equiv> 1"
abbreviation (input) CHSEND_DOWN :: u32 where "CHSEND_DOWN \<equiv> 2"

definition ChSendInit :: "sockaddr_in \<Rightarrow> ChSend_t" where
  "ChSendInit peer = \<lparr>c_PeerAddr = peer, c_Status = 0\<rparr>"

text \<open>
  The test in \<open>ChSend\<close> is \<^verbatim>\<open>!(pC)->c_Status & CHSEND_STOP\<close>, which C reads as
  \<^verbatim>\<open>(!c_Status) & CHSEND_STOP\<close>.
\<close>

definition ChSend_passes :: "ChSend_t \<Rightarrow> bool" where
  "ChSend_passes c \<longleftrightarrow> (of_bool (c_Status c = 0) :: u32) AND CHSEND_STOP \<noteq> 0"

definition ChOutboundStop :: "ChSend_t \<Rightarrow> ChSend_t" where
  "ChOutboundStop c = c\<lparr>c_Status := c_Status c OR CHSEND_STOP\<rparr>"

definition ChOutboundRestart :: "ChSend_t \<Rightarrow> ChSend_t" where
  "ChOutboundRestart c = c\<lparr>c_Status := c_Status c AND NOT CHSEND_STOP\<rparr>"

definition ChOutboundDown :: "ChSend_t \<Rightarrow> ChSend_t" where
  "ChOutboundDown c = c\<lparr>c_Status := c_Status c OR CHSEND_DOWN\<rparr>"

lemma ChSend_passes_iff: "ChSend_passes c \<longleftrightarrow> c_Status c = 0"
  by (simp add: ChSend_passes_def)

end
