(* ===== verification/Gadget_Hash.thy ===== *)
theory Gadget_Hash
  imports Prelude
begin

text \<open>
  The chained hash table of \<^verbatim>\<open>NWGadget/src/NWGadget.c\<close>. An item is a key and a value; a pointer to
  an item is its chain and its position in the chain. Keys may be stored more than once: a lookup
  finds the oldest item of the key. The code takes a table's hash code and comparison from one of
  four built-in kinds; each kind is a pair of functions here, and a table carries its pair.
\<close>

section \<open>The table\<close>

record ('k, 'v) Hash =
  h_N :: u32
  h_Count :: int
  h_CurIndex :: int
  h_pCurItem :: nat
  h_fHashCode :: "u32 \<Rightarrow> 'k \<Rightarrow> u32"
  h_fCompare :: "'k \<Rightarrow> 'k \<Rightarrow> int"
  h_aHeads :: "('k \<times> 'v) list list"

text \<open>\<open>HashCode\<close> and \<open>HashCompare\<close>, one definition for each kind of key.\<close>

definition HashCode_INT :: "u32 \<Rightarrow> u64 \<Rightarrow> u32" where
  "HashCode_INT n pKey = (let key = ucast pKey :: u32 in key - (key div n) * n)"

definition HashCode_U64 :: "u32 \<Rightarrow> u64 \<Rightarrow> u32" where
  "HashCode_U64 n k = ucast (k - (k div ucast n) * ucast n)"

text \<open>
  A string is hashed by the sum of its bytes taken four at a time as little-endian words, the
  last word padded with zeros.
\<close>

fun le_word :: "u8 list \<Rightarrow> u32" where
  "le_word [] = 0"
| "le_word (b # bs) = ucast b + push_bit 8 (le_word bs)"

fun str_sum :: "u8 list \<Rightarrow> u32" where
  "str_sum (a # b # c # d # bs) = le_word [a, b, c, d] + str_sum bs"
| "str_sum bs = le_word bs"

definition HashCode_STR :: "u32 \<Rightarrow> u8 list \<Rightarrow> u32" where
  "HashCode_STR n pKey = (let s = str_sum pKey; index = s div n in s - n * index)"

definition HashCompare_INT :: "u64 \<Rightarrow> u64 \<Rightarrow> int" where
  "HashCompare_INT a b = sint (ucast (a - b) :: u32)"

definition HashCompare_PNT :: "u64 \<Rightarrow> u64 \<Rightarrow> int" where
  "HashCompare_PNT a b = of_bool (a \<noteq> b)"

definition HashInit ::
  "u32 \<Rightarrow> (u32 \<Rightarrow> 'k \<Rightarrow> u32) \<Rightarrow> ('k \<Rightarrow> 'k \<Rightarrow> int) \<Rightarrow> ('k, 'v) Hash" where
  "HashInit n fHashCode fCompare =
     \<lparr>h_N = n, h_Count = 0, h_CurIndex = -1, h_pCurItem = 0,
      h_fHashCode = fHashCode, h_fCompare = fCompare, h_aHeads = replicate (unat n) []\<rparr>"

definition HashCode :: "('k, 'v) Hash \<Rightarrow> 'k \<Rightarrow> nat" where
  "HashCode h key = unat (h_fHashCode h (h_N h) key)"

text \<open>The first position at or after the start whose item has the key.\<close>

fun scan_chain :: "('k \<Rightarrow> bool) \<Rightarrow> nat \<Rightarrow> ('k \<times> 'v) list \<Rightarrow> nat option" where
  "scan_chain P p [] = None"
| "scan_chain P p (it # items) = (if P (fst it) then Some p else scan_chain P (Suc p) items)"

definition HashGetItem :: "('k, 'v) Hash \<Rightarrow> 'k \<Rightarrow> (nat \<times> nat) option \<times> ('k, 'v) Hash" where
  "HashGetItem h key =
     (let index = HashCode h key in
      case scan_chain (\<lambda>k. h_fCompare h k key = 0) 0 (h_aHeads h ! index) of
        Some p \<Rightarrow> (Some (index, p), h\<lparr>h_CurIndex := int index, h_pCurItem := p\<rparr>)
      | None \<Rightarrow> (None, h\<lparr>h_CurIndex := -1\<rparr>))"

definition HashNextItem :: "('k, 'v) Hash \<Rightarrow> 'k \<Rightarrow> (nat \<times> nat) option \<times> ('k, 'v) Hash" where
  "HashNextItem h key =
     (if h_CurIndex h < 0 then (None, h)
      else let index = nat (h_CurIndex h); p = h_pCurItem h in
        case scan_chain (\<lambda>k. h_fCompare h k key = 0) (Suc p) (drop (Suc p) (h_aHeads h ! index)) of
          Some q \<Rightarrow> (Some (index, q), h\<lparr>h_pCurItem := q\<rparr>)
        | None \<Rightarrow> (None, h\<lparr>h_CurIndex := -1\<rparr>))"

definition HASH_VALUE :: "('k, 'v) Hash \<Rightarrow> nat \<times> nat \<Rightarrow> 'v" where
  "HASH_VALUE h it = snd (h_aHeads h ! fst it ! snd it)"

definition HashGet :: "('k, 'v) Hash \<Rightarrow> 'k \<Rightarrow> 'v option \<times> ('k, 'v) Hash" where
  "HashGet h key =
     (case HashGetItem h key of (r, h') \<Rightarrow> (map_option (HASH_VALUE h') r, h'))"

definition HashNext :: "('k, 'v) Hash \<Rightarrow> 'k \<Rightarrow> 'v option \<times> ('k, 'v) Hash" where
  "HashNext h key =
     (case HashNextItem h key of (r, h') \<Rightarrow> (map_option (HASH_VALUE h') r, h'))"

definition HashPut :: "('k, 'v) Hash \<Rightarrow> 'k \<Rightarrow> 'v \<Rightarrow> ('k, 'v) Hash" where
  "HashPut h key val =
     (let index = HashCode h key in
      h\<lparr>h_aHeads := (h_aHeads h)[index := h_aHeads h ! index @ [(key, val)]],
        h_Count := h_Count h + 1\<rparr>)"

definition drop_nth :: "nat \<Rightarrow> 'a list \<Rightarrow> 'a list" where
  "drop_nth p xs = take p xs @ drop (Suc p) xs"

definition HashRemoveItem :: "('k, 'v) Hash \<Rightarrow> (nat \<times> nat) option \<Rightarrow> int \<times> ('k, 'v) Hash" where
  "HashRemoveItem h pItem =
     (case pItem of
        Some (index, p) \<Rightarrow>
          (0, h\<lparr>h_aHeads := (h_aHeads h)[index := drop_nth p (h_aHeads h ! index)],
                h_Count := h_Count h - 1\<rparr>)
      | None \<Rightarrow> (-1, h))"

definition HashRemove :: "('k, 'v) Hash \<Rightarrow> 'k \<Rightarrow> 'v option \<times> ('k, 'v) Hash" where
  "HashRemove h key =
     (case HashGetItem h key of
        (None, h') \<Rightarrow> (None, h')
      | (Some it, h') \<Rightarrow> (Some (HASH_VALUE h' it), snd (HashRemoveItem h' (Some it))))"

text \<open>\<open>HashIsExist\<close> finds the first item of the first chain that is not empty.\<close>

fun HashIsExist_from :: "nat \<Rightarrow> ('k \<times> 'v) list list \<Rightarrow> (nat \<times> nat) option" where
  "HashIsExist_from i [] = None"
| "HashIsExist_from i (c # cs) = (if c \<noteq> [] then Some (i, 0) else HashIsExist_from (Suc i) cs)"

definition HashIsExist :: "('k, 'v) Hash \<Rightarrow> (nat \<times> nat) option" where
  "HashIsExist h = HashIsExist_from 0 (h_aHeads h)"

definition HashCount :: "('k, 'v) Hash \<Rightarrow> int" where
  "HashCount h = h_Count h"

text \<open>
  \<open>HashClear\<close> frees every item and hands each value to the destructor; the result is the values in
  the order they are destroyed, and the table. The code leaves \<open>h_Count\<close> as it was.
\<close>

definition HashClear :: "('k, 'v) Hash \<Rightarrow> 'v list \<times> ('k, 'v) Hash" where
  "HashClear h =
     (map snd (concat (h_aHeads h)), h\<lparr>h_aHeads := map (\<lambda>_. []) (h_aHeads h)\<rparr>)"

section \<open>The interface of a store with repeated keys\<close>

text \<open>
  What a client of the table relies on: the values stored under a key form a queue, an insert
  appends to the queue of its key, a lookup reads the oldest value, a removal takes it away, and
  the other keys are not touched.
\<close>

locale key_queues =
  fixes ok :: "'t \<Rightarrow> bool"
    and queue :: "'t \<Rightarrow> 'k \<Rightarrow> 'v list"
    and put :: "'t \<Rightarrow> 'k \<Rightarrow> 'v \<Rightarrow> 't"
    and get :: "'t \<Rightarrow> 'k \<Rightarrow> 'v option \<times> 't"
    and remove :: "'t \<Rightarrow> 'k \<Rightarrow> 'v option \<times> 't"
  assumes put_ok: "ok t \<Longrightarrow> ok (put t k v)"
    and put_queue: "ok t \<Longrightarrow> queue (put t k v) = (queue t)(k := queue t k @ [v])"
    and get_ok: "ok t \<Longrightarrow> ok (snd (get t k))"
    and get_queue: "ok t \<Longrightarrow> queue (snd (get t k)) = queue t"
    and get_value: "ok t \<Longrightarrow> fst (get t k) = (case queue t k of [] \<Rightarrow> None | v # vs \<Rightarrow> Some v)"
    and remove_ok: "ok t \<Longrightarrow> ok (snd (remove t k))"
    and remove_queue: "ok t \<Longrightarrow> queue (snd (remove t k)) = (queue t)(k := tl (queue t k))"
    and remove_value: "ok t \<Longrightarrow> fst (remove t k) = (case queue t k of [] \<Rightarrow> None | v # vs \<Rightarrow> Some v)"
begin

lemma get_put_fresh: "ok t \<Longrightarrow> queue t k = [] \<Longrightarrow> fst (get (put t k v) k') = (if k' = k then Some v else fst (get t k'))"
  by (simp add: get_value put_ok put_queue)

lemma get_put_held: "ok t \<Longrightarrow> queue t k \<noteq> [] \<Longrightarrow> fst (get (put t k v) k') = fst (get t k')"
  by (cases "queue t k") (simp_all add: get_value put_ok put_queue)

lemma remove_put_fresh: "ok t \<Longrightarrow> queue t k = [] \<Longrightarrow> queue (snd (remove (put t k v) k)) = queue t"
  by (simp add: put_ok put_queue remove_queue fun_upd_idem)

fun put_all :: "'t \<Rightarrow> ('k \<times> 'v) list \<Rightarrow> 't" where
  "put_all t [] = t"
| "put_all t (kv # kvs) = put_all (put t (fst kv) (snd kv)) kvs"

lemma put_all_queue:
  "ok t \<Longrightarrow> ok (put_all t kvs) \<and>
     queue (put_all t kvs) k = queue t k @ map snd (filter (\<lambda>kv. fst kv = k) kvs)"
  by (induction kvs arbitrary: t) (simp_all add: put_ok put_queue)

end

section \<open>Tables keyed by 32-bit numbers\<close>

text \<open>\<open>UINT32_PNT( u )\<close>: the number as a pointer-sized key.\<close>

definition UINT32_PNT :: "u32 \<Rightarrow> u64" where
  "UINT32_PNT u = ucast u"

definition hash_queue :: "('k, 'v) Hash \<Rightarrow> 'k \<Rightarrow> 'v list" where
  "hash_queue h key =
     map snd (filter (\<lambda>kv. h_fCompare h (fst kv) key = 0) (h_aHeads h ! HashCode h key))"

definition hash_size :: "('k, 'v) Hash \<Rightarrow> nat" where
  "hash_size h = sum_list (map length (h_aHeads h))"

text \<open>
  A table as \<open>HashInit\<close> makes it for integer keys: its count is the number of its items, and each
  item is in the chain of its key.
\<close>

definition chained :: "('k, 'v) Hash \<Rightarrow> bool" where
  "chained h \<longleftrightarrow> (\<forall>i < length (h_aHeads h). \<forall>kv \<in> set (h_aHeads h ! i). HashCode h (fst kv) = i)"

definition int_table :: "(u64, 'v) Hash \<Rightarrow> bool" where
  "int_table h \<longleftrightarrow> h_fHashCode h = HashCode_INT \<and> h_fCompare h = HashCompare_INT \<and>
     h_N h \<noteq> 0 \<and> length (h_aHeads h) = unat (h_N h) \<and> h_Count h = int (hash_size h) \<and> chained h"

lemma HashCode_INT_mod: "HashCode_INT n k = ucast k mod n"
  by (simp add: HashCode_INT_def Let_def minus_div_mult_eq_mod)

lemma HashCode_U64_mod: "HashCode_U64 n k = ucast (k mod ucast n)"
  by (simp add: HashCode_U64_def minus_div_mult_eq_mod)

lemma HashCode_STR_mod: "HashCode_STR n k = str_sum k mod n"
  by (simp add: HashCode_STR_def Let_def minus_mult_div_eq_mod)

lemma HashCode_bound: "int_table h \<Longrightarrow> HashCode h k < length (h_aHeads h)"
  by (simp add: int_table_def HashCode_def HashCode_INT_mod unat_mod unat_gt_0)

lemma ucast_UINT32_PNT [simp]: "(ucast (UINT32_PNT u) :: u32) = u"
  unfolding UINT32_PNT_def by transfer (simp add: min_def)

lemma ucast_minus_low: "(ucast (a - b :: u64) :: u32) = ucast a - ucast b"
proof (transfer, goal_cases)
  case (1 a b)
  show ?case
    using take_bit_diff [of 32 "take_bit 64 a" "take_bit 64 b"] take_bit_diff [of 32 a b] by simp
qed

lemma HashCompare_INT_zero: "HashCompare_INT a b = 0 \<longleftrightarrow> (ucast a :: u32) = ucast b"
proof -
  have "(ucast (a - b) :: u32) = ucast a - ucast b"
    by (rule ucast_minus_low)
  then show ?thesis by (simp add: HashCompare_INT_def signed_eq_0_iff)
qed

lemma HashCompare_INT_UINT32 [simp]:
  "HashCompare_INT (UINT32_PNT a) (UINT32_PNT b) = 0 \<longleftrightarrow> a = b"
  by (simp add: HashCompare_INT_zero)

lemma scan_chain_None: "scan_chain P p xs = None \<longleftrightarrow> filter (\<lambda>kv. P (fst kv)) xs = []"
  by (induction xs arbitrary: p) auto

lemma scan_chain_Some:
  "scan_chain P p xs = Some q \<Longrightarrow>
     p \<le> q \<and> q - p < length xs \<and> P (fst (xs ! (q - p))) \<and>
     filter (\<lambda>kv. P (fst kv)) xs = xs ! (q - p) # filter (\<lambda>kv. P (fst kv)) (drop_nth (q - p) xs)"
proof (induction xs arbitrary: p)
  case (Cons x xs)
  show ?case
  proof (cases "P (fst x)")
    case True
    with Cons.prems show ?thesis by (simp add: drop_nth_def)
  next
    case False
    with Cons.prems have "scan_chain P (Suc p) xs = Some q" by simp
    note IH = Cons.IH [OF this]
    then have "q - p = Suc (q - Suc p)" by linarith
    with IH False show ?thesis by (simp add: drop_nth_def)
  qed
qed simp

lemma filter_drop_nth: "p < length xs \<Longrightarrow> \<not> Q (xs ! p) \<Longrightarrow> filter Q (drop_nth p xs) = filter Q xs"
  by (subst (2) id_take_nth_drop [of p xs]) (simp_all add: drop_nth_def)

lemma length_drop_nth [simp]: "p < length xs \<Longrightarrow> length (drop_nth p xs) = length xs - 1"
  by (simp add: drop_nth_def)

lemma sum_list_map_update:
  "i < length xs \<Longrightarrow> sum_list (map f (xs[i := y])) + f (xs ! i) = sum_list (map f xs) + (f y :: nat)"
  by (induction xs arbitrary: i) (auto simp: nth_Cons split: nat.splits)

text \<open>What one lookup finds.\<close>

lemma HashGetItem_queue:
  "hash_queue (snd (HashGetItem h k)) = hash_queue h"
  by (rule ext) (simp add: HashGetItem_def hash_queue_def HashCode_def Let_def split: option.splits)

lemma HashCode_cong: "h_fHashCode h' = h_fHashCode h \<Longrightarrow> h_N h' = h_N h \<Longrightarrow> HashCode h' = HashCode h"
  by (simp add: HashCode_def fun_eq_iff)

lemma chained_fields [simp]:
  "chained (h\<lparr>h_CurIndex := a\<rparr>) = chained h" "chained (h\<lparr>h_CurIndex := a, h_pCurItem := b\<rparr>) = chained h"
  by (simp_all add: chained_def HashCode_def)

lemma int_table_GetItem: "int_table h \<Longrightarrow> int_table (snd (HashGetItem h k))"
  by (simp add: HashGetItem_def int_table_def hash_size_def Let_def split: option.splits)

lemma HashGetItem_None: "fst (HashGetItem h k) = None \<longleftrightarrow> hash_queue h k = []"
  using scan_chain_None [of "\<lambda>ka. h_fCompare h ka k = 0" 0 "h_aHeads h ! HashCode h k"]
  by (auto simp: HashGetItem_def hash_queue_def Let_def split: option.splits)

lemma HashGetItem_Some:
  assumes "HashGetItem h k = (Some it, h')"
  shows "\<exists>p. it = (HashCode h k, p) \<and> p < length (h_aHeads h ! HashCode h k) \<and>
    h_fCompare h (fst (h_aHeads h ! HashCode h k ! p)) k = 0 \<and>
    h_aHeads h' = h_aHeads h \<and>
    hash_queue h k = HASH_VALUE h' it #
      map snd (filter (\<lambda>kv. h_fCompare h (fst kv) k = 0) (drop_nth p (h_aHeads h ! HashCode h k)))"
proof -
  from assms obtain p where p: "scan_chain (\<lambda>ka. h_fCompare h ka k = 0) 0 (h_aHeads h ! HashCode h k) = Some p"
    and it: "it = (HashCode h k, p)" and h': "h_aHeads h' = h_aHeads h"
    by (auto simp: HashGetItem_def Let_def split: option.splits)
  from scan_chain_Some [OF p] it h' show ?thesis
    by (auto simp: hash_queue_def HASH_VALUE_def)
qed

lemma HashGet_value:
  "fst (HashGet h k) = (case hash_queue h k of [] \<Rightarrow> None | v # vs \<Rightarrow> Some v)"
proof (cases "HashGetItem h k")
  case (Pair r h')
  show ?thesis
  proof (cases r)
    case None
    with Pair HashGetItem_None [of h k] show ?thesis by (simp add: HashGet_def)
  next
    case (Some it)
    with Pair HashGetItem_Some [of h k it h'] show ?thesis by (auto simp: HashGet_def)
  qed
qed

lemma HashGet_snd: "snd (HashGet h k) = snd (HashGetItem h k)"
  by (simp add: HashGet_def split: prod.splits)

lemma chained_update:
  "chained h \<Longrightarrow> HashCode h' = HashCode h \<Longrightarrow> h_aHeads h' = (h_aHeads h)[i := items] \<Longrightarrow>
     (\<And>kv. kv \<in> set items \<Longrightarrow> i < length (h_aHeads h) \<Longrightarrow> HashCode h (fst kv) = i) \<Longrightarrow> chained h'"
  unfolding chained_def
proof (intro allI impI ballI)
  fix j kv
  assume c: "\<forall>i < length (h_aHeads h). \<forall>kv \<in> set (h_aHeads h ! i). HashCode h (fst kv) = i"
    and e: "HashCode h' = HashCode h" "h_aHeads h' = (h_aHeads h)[i := items]"
    and n: "\<And>kv. kv \<in> set items \<Longrightarrow> i < length (h_aHeads h) \<Longrightarrow> HashCode h (fst kv) = i"
    and j: "j < length (h_aHeads h')" "kv \<in> set (h_aHeads h' ! j)"
  show "HashCode h' (fst kv) = j"
    using c n [of kv] j by (cases "j = i") (simp_all add: e nth_list_update)
qed

lemma chained_Put: "chained h \<Longrightarrow> chained (HashPut h k v)"
  by (rule chained_update [of h _ "HashCode h k" "h_aHeads h ! HashCode h k @ [(k, v)]"])
    (auto simp: HashPut_def Let_def chained_def intro: HashCode_cong)

lemma int_table_Put:
  assumes "int_table h"
  shows "int_table (HashPut h k v)"
  using assms HashCode_bound [OF assms, of k]
    sum_list_map_update [of "HashCode h k" "h_aHeads h" length "h_aHeads h ! HashCode h k @ [(k, v)]"]
    chained_Put [of h k v]
  by (simp add: int_table_def HashPut_def Let_def hash_size_def)

lemma hash_size_Put: "int_table h \<Longrightarrow> hash_size (HashPut h k v) = Suc (hash_size h)"
  using int_table_Put [of h k v] by (simp add: int_table_def HashPut_def Let_def)

lemma hash_queue_Put:
  assumes "int_table h"
  shows "hash_queue (HashPut h (UINT32_PNT k) v) (UINT32_PNT k') =
    (if k' = k then hash_queue h (UINT32_PNT k') @ [v] else hash_queue h (UINT32_PNT k'))"
proof -
  let ?k = "UINT32_PNT k" and ?h = "HashPut h (UINT32_PNT k) v"
  have code: "HashCode ?h = HashCode h"
    by (rule ext) (simp add: HashCode_def HashPut_def Let_def)
  have heads: "h_aHeads ?h = (h_aHeads h)[HashCode h ?k := h_aHeads h ! HashCode h ?k @ [(?k, v)]]"
    by (simp add: HashPut_def Let_def)
  have cmp: "h_fCompare h = HashCompare_INT" "h_fCompare ?h = HashCompare_INT"
    using assms by (simp_all add: int_table_def HashPut_def Let_def)
  have "h_aHeads ?h ! HashCode h (UINT32_PNT k') = h_aHeads h ! HashCode h (UINT32_PNT k') @
      (if HashCode h (UINT32_PNT k') = HashCode h ?k then [(?k, v)] else [])"
    using HashCode_bound [OF assms, of ?k] by (simp add: heads nth_list_update)
  then show ?thesis by (simp add: hash_queue_def code cmp)
qed

text \<open>What the removal of a found item leaves.\<close>

lemma removed_item:
  assumes h: "int_table h" and g: "HashGetItem h k = (Some it, h')"
  shows "int_table (snd (HashRemoveItem h' (Some it)))"
    and "hash_size (snd (HashRemoveItem h' (Some it))) < hash_size h"
proof -
  from HashGetItem_Some [OF g] obtain p where
    it: "it = (HashCode h k, p)" and p: "p < length (h_aHeads h ! HashCode h k)"
    and eq: "h_aHeads h' = h_aHeads h" by blast
  have h': "int_table h'" using int_table_GetItem [OF h, of k] g by simp
  have i: "HashCode h k < length (h_aHeads h)" by (rule HashCode_bound [OF h])
  have sz: "hash_size (snd (HashRemoveItem h' (Some it))) + 1 = hash_size h"
    using sum_list_map_update [OF i, of length "drop_nth p (h_aHeads h ! HashCode h k)"] p
    by (simp add: HashRemoveItem_def it eq hash_size_def)
  then show "hash_size (snd (HashRemoveItem h' (Some it))) < hash_size h" by simp
  have "chained (snd (HashRemoveItem h' (Some it)))"
  proof (rule chained_update [of h' _ "HashCode h k" "drop_nth p (h_aHeads h' ! HashCode h k)"])
    show c: "chained h'" using h' by (simp add: int_table_def)
    show "HashCode (snd (HashRemoveItem h' (Some it))) = HashCode h'"
      by (rule HashCode_cong) (simp_all add: HashRemoveItem_def it)
    show "h_aHeads (snd (HashRemoveItem h' (Some it))) = (h_aHeads h')[HashCode h k := drop_nth p (h_aHeads h' ! HashCode h k)]"
      by (simp add: HashRemoveItem_def it)
    fix kv assume "kv \<in> set (drop_nth p (h_aHeads h' ! HashCode h k))" "HashCode h k < length (h_aHeads h')"
    then show "HashCode h' (fst kv) = HashCode h k"
      using c by (auto simp: chained_def drop_nth_def dest: in_set_takeD in_set_dropD)
  qed
  then show "int_table (snd (HashRemoveItem h' (Some it)))"
    using h' sz by (simp add: int_table_def HashRemoveItem_def it hash_size_def eq)
qed

lemma hash_queue_removed:
  assumes h: "int_table h" and g: "HashGetItem h (UINT32_PNT k) = (Some it, h')"
  shows "hash_queue (snd (HashRemoveItem h' (Some it))) (UINT32_PNT k') =
    (if k' = k then tl (hash_queue h (UINT32_PNT k')) else hash_queue h (UINT32_PNT k'))"
proof -
  let ?c = "HashCode h (UINT32_PNT k)"
  from HashGetItem_Some [OF g] obtain p where
    it: "it = (?c, p)" and p: "p < length (h_aHeads h ! ?c)"
    and key: "h_fCompare h (fst (h_aHeads h ! ?c ! p)) (UINT32_PNT k) = 0"
    and eq: "h_aHeads h' = h_aHeads h"
    and q: "hash_queue h (UINT32_PNT k) = HASH_VALUE h' it #
      map snd (filter (\<lambda>kv. h_fCompare h (fst kv) (UINT32_PNT k) = 0) (drop_nth p (h_aHeads h ! ?c)))"
    by blast
  have fns: "h_fHashCode h' = h_fHashCode h" "h_fCompare h' = h_fCompare h" "h_N h' = h_N h"
    using g by (auto simp: HashGetItem_def Let_def split: option.splits)
  let ?r = "snd (HashRemoveItem h' (Some it))"
  have code: "HashCode ?r = HashCode h"
    by (rule ext) (simp add: HashCode_def HashRemoveItem_def it fns)
  have heads: "h_aHeads ?r = (h_aHeads h)[?c := drop_nth p (h_aHeads h ! ?c)]"
    by (simp add: HashRemoveItem_def it eq)
  have cmp: "h_fCompare h = HashCompare_INT" "h_fCompare ?r = HashCompare_INT"
    using h fns by (simp_all add: int_table_def HashRemoveItem_def it)
  have i: "?c < length (h_aHeads h)" by (rule HashCode_bound [OF h])
  show ?thesis
  proof (cases "k' = k")
    case True
    with q i show ?thesis by (simp add: hash_queue_def code heads cmp)
  next
    case False
    have "HashCompare_INT (fst (h_aHeads h ! ?c ! p)) (UINT32_PNT k') \<noteq> 0"
      using key False by (simp add: cmp HashCompare_INT_zero)
    with False i p show ?thesis
      by (cases "?c = HashCode h (UINT32_PNT k')")
        (simp_all add: hash_queue_def code heads cmp filter_drop_nth)
  qed
qed

lemma HashRemove_cases:
  "HashRemove h k = (case HashGetItem h k of
     (None, h') \<Rightarrow> (None, h')
   | (Some it, h') \<Rightarrow> (fst (HashGet h k), snd (HashRemoveItem h' (Some it))))"
  by (simp add: HashRemove_def HashGet_def split: prod.splits option.splits)

lemma hash_remove_laws:
  assumes h: "int_table h"
  shows "int_table (snd (HashRemove h (UINT32_PNT k)))"
    and "hash_queue (snd (HashRemove h (UINT32_PNT k))) (UINT32_PNT k') =
      (if k' = k then tl (hash_queue h (UINT32_PNT k')) else hash_queue h (UINT32_PNT k'))"
    and "fst (HashRemove h (UINT32_PNT k)) = fst (HashGet h (UINT32_PNT k))"
proof -
  obtain r h' where g: "HashGetItem h (UINT32_PNT k) = (r, h')" by (cases "HashGetItem h (UINT32_PNT k)")
  have h': "int_table h'" "hash_queue h' = hash_queue h"
    using int_table_GetItem [OF h, of "UINT32_PNT k"] HashGetItem_queue [of h "UINT32_PNT k"] g by simp_all
  note none = HashGetItem_None [of h "UINT32_PNT k"]
  show "int_table (snd (HashRemove h (UINT32_PNT k)))"
    using removed_item(1) [OF h] g h' by (cases r) (simp_all add: HashRemove_cases)
  show "hash_queue (snd (HashRemove h (UINT32_PNT k))) (UINT32_PNT k') =
      (if k' = k then tl (hash_queue h (UINT32_PNT k')) else hash_queue h (UINT32_PNT k'))"
    using hash_queue_removed [OF h] g h' none by (cases r) (auto simp: HashRemove_cases)
  show "fst (HashRemove h (UINT32_PNT k)) = fst (HashGet h (UINT32_PNT k))"
    using g none by (cases r) (auto simp: HashRemove_cases HashGet_value)
qed

interpretation u32_table: key_queues
  int_table
  "\<lambda>h k. hash_queue h (UINT32_PNT k)"
  "\<lambda>h k. HashPut h (UINT32_PNT k)"
  "\<lambda>h k. HashGet h (UINT32_PNT k)"
  "\<lambda>h k. HashRemove h (UINT32_PNT k)"
proof unfold_locales
  fix t :: "(u64, 'a) Hash" and k v
  assume t: "int_table t"
  show "int_table (HashPut t (UINT32_PNT k) v)" by (rule int_table_Put [OF t])
  show "(\<lambda>k'. hash_queue (HashPut t (UINT32_PNT k) v) (UINT32_PNT k')) =
      (\<lambda>k'. hash_queue t (UINT32_PNT k'))(k := hash_queue t (UINT32_PNT k) @ [v])"
    by (rule ext) (simp add: hash_queue_Put [OF t])
  show "int_table (snd (HashGet t (UINT32_PNT k)))"
    by (simp add: HashGet_snd int_table_GetItem [OF t])
  show "(\<lambda>k'. hash_queue (snd (HashGet t (UINT32_PNT k))) (UINT32_PNT k')) =
      (\<lambda>k'. hash_queue t (UINT32_PNT k'))"
    by (simp add: HashGet_snd HashGetItem_queue)
  show "fst (HashGet t (UINT32_PNT k)) =
      (case hash_queue t (UINT32_PNT k) of [] \<Rightarrow> None | v # vs \<Rightarrow> Some v)"
    by (rule HashGet_value)
  show "int_table (snd (HashRemove t (UINT32_PNT k)))" by (rule hash_remove_laws(1) [OF t])
  show "(\<lambda>k'. hash_queue (snd (HashRemove t (UINT32_PNT k))) (UINT32_PNT k')) =
      (\<lambda>k'. hash_queue t (UINT32_PNT k'))(k := tl (hash_queue t (UINT32_PNT k)))"
    by (rule ext) (simp add: hash_remove_laws(2) [OF t])
  show "fst (HashRemove t (UINT32_PNT k)) =
      (case hash_queue t (UINT32_PNT k) of [] \<Rightarrow> None | v # vs \<Rightarrow> Some v)"
    by (simp add: hash_remove_laws(3) [OF t] HashGet_value)
qed

lemma int_table_Init: "n \<noteq> 0 \<Longrightarrow> int_table (HashInit n HashCode_INT HashCompare_INT)"
  by (simp add: int_table_def HashInit_def hash_size_def sum_list_replicate chained_def)

lemma hash_queue_Init:
  "n \<noteq> 0 \<Longrightarrow> hash_queue (HashInit n HashCode_INT HashCompare_INT) k = []"
  by (simp add: hash_queue_def HashInit_def HashCode_def HashCode_INT_mod unat_mod unat_gt_0)

text \<open>The queues of all keys, read off the chains in the order \<open>PaxosMarshal\<close> visits them.\<close>

lemma filter_concat_single:
  assumes "\<And>j. j < length xss \<Longrightarrow> j \<noteq> i \<Longrightarrow> filter P (xss ! j) = []" and "i < length xss"
  shows "filter P (concat xss) = filter P (xss ! i)"
  using assms
proof (induction xss arbitrary: i)
  case Nil
  then show ?case by simp
next
  case (Cons xs xss)
  show ?case
  proof (cases i)
    case 0
    have "\<forall>x \<in> set ys. \<not> P x" if "ys \<in> set xss" for ys
    proof -
      obtain j where "j < length xss" "ys = xss ! j" using \<open>ys \<in> set xss\<close> by (auto simp: in_set_conv_nth)
      then show ?thesis using Cons.prems(1) [of "Suc j"] 0 by (simp add: filter_empty_conv)
    qed
    then have "filter P (concat xss) = []" by (auto simp: filter_empty_conv)
    then show ?thesis using 0 by simp
  next
    case (Suc j)
    have "filter P (concat xss) = filter P (xss ! j)"
    proof (rule Cons.IH)
      show "filter P (xss ! l) = []" if "l < length xss" "l \<noteq> j" for l
        using Cons.prems(1) [of "Suc l"] Suc that by simp
      show "j < length xss" using Cons.prems(2) Suc by simp
    qed
    moreover have "filter P xs = []" using Cons.prems(1) [of 0] Suc by simp
    ultimately show ?thesis using Suc by simp
  qed
qed

lemma hash_queue_concat:
  assumes h: "int_table h"
  shows "hash_queue h (UINT32_PNT u) = map snd (filter (\<lambda>kv. ucast (fst kv) = u) (concat (h_aHeads h)))"
proof -
  let ?P = "\<lambda>kv. (ucast (fst kv) :: u32) = u" and ?i = "HashCode h (UINT32_PNT u)"
  have i: "?i < length (h_aHeads h)" by (rule HashCode_bound [OF h])
  have code: "HashCode h k = ?i" if "(ucast k :: u32) = u" for k
    using h that by (simp only: int_table_def HashCode_def HashCode_INT_mod ucast_UINT32_PNT)
  have "filter ?P (h_aHeads h ! j) = []" if j: "j < length (h_aHeads h)" "j \<noteq> ?i" for j
  proof -
    have "HashCode h (fst kv) = j" if "kv \<in> set (h_aHeads h ! j)" for kv
      using h j that by (simp add: int_table_def chained_def)
    then have "\<not> ?P kv" if "kv \<in> set (h_aHeads h ! j)" for kv using code [of "fst kv"] j(2) that by metis
    then show ?thesis by (simp add: filter_empty_conv)
  qed
  then have "filter ?P (concat (h_aHeads h)) = filter ?P (h_aHeads h ! ?i)"
    using i by (intro filter_concat_single) auto
  moreover have "HashCompare_INT (fst kv) (UINT32_PNT u) = 0 \<longleftrightarrow> ?P kv" for kv :: "u64 \<times> 'a"
    by (simp add: HashCompare_INT_zero)
  ultimately show ?thesis using h by (simp add: hash_queue_def int_table_def)
qed

end
