(* ===== verification/Gadget_Cksum.thy ===== *)
theory Gadget_Cksum
  imports Prelude
begin

text \<open>
  The 64-bit one's complement checksum of \<^verbatim>\<open>NWGadget/src/NWGadget.c\<close>, with which \<open>PaxosSend\<close> can
  seal a datagram, its incremental update, and the checksum of a scattered message
  (\<open>MsgCksum64\<close>). A buffer is its list of bytes; words are read little-endian, as the code's loads
  are on the machines it is built for.
\<close>

section \<open>Summation\<close>

fun le64 :: "u8 list \<Rightarrow> u64" where
  "le64 [] = 0"
| "le64 (b # bs) = ucast b + 256 * le64 bs"

text \<open>\<open>sum64 += w64; carry = ( w64 > sum64 ); sum64 += carry\<close>\<close>

definition add_carry :: "u64 \<Rightarrow> u64 \<Rightarrow> u64" where
  "add_carry sum64 w64 = (let s = sum64 + w64; carry = of_bool (s < w64) in s + carry)"

text \<open>The loop over the buffer: eight bytes at a time, the last word padded with zeros.\<close>

function sum64_loop :: "u64 \<Rightarrow> u8 list \<Rightarrow> u64" where
  "sum64_loop sum64 pw =
     (if pw = [] then sum64
      else sum64_loop (add_carry sum64 (le64 (take 8 pw))) (drop 8 pw))"
  by pat_completeness auto
termination
  by (relation "measure (\<lambda>(s, pw). length pw)") auto

declare sum64_loop.simps [simp del]

text \<open>
  The buffer starts at offset \<open>r\<close> of a word; the first, partial word is put in place before the
  loop. An offset that is not below 8 fails the \<open>ASSERT\<close>.
\<close>

definition in_sum64 :: "u8 list \<Rightarrow> nat \<Rightarrow> u64 option" where
  "in_sum64 pAddr r =
     (if r < 8 then
        (if r \<noteq> 0 then
           let r1 = min (8 - r) (length pAddr);
               c64 = le64 (replicate r 0 @ take r1 pAddr)
           in Some (sum64_loop c64 (drop r1 pAddr))
         else Some (sum64_loop 0 pAddr))
      else None)"

definition in_cksum64 :: "u8 list \<Rightarrow> nat \<Rightarrow> u64 option" where
  "in_cksum64 pAddr r = map_option (\<lambda>sum64. NOT sum64) (in_sum64 pAddr r)"

definition in_cksum64_sub_add :: "u64 \<Rightarrow> u64 \<Rightarrow> u64 \<Rightarrow> u64" where
  "in_cksum64_sub_add cksum sub add =
     (let sum = NOT cksum;
          sum = add_carry sum sub;
          sum = add_carry sum (NOT add)
      in NOT sum)"

definition in_cksum64_update ::
  "u64 \<Rightarrow> u8 list \<Rightarrow> nat \<Rightarrow> u8 list \<Rightarrow> nat \<Rightarrow> u64 option" where
  "in_cksum64_update cksum op ofs np nfs =
     do {
       s1 \<leftarrow> (if op \<noteq> [] then do { osum \<leftarrow> in_sum64 op ofs; Some (add_carry (NOT cksum) (NOT osum)) }
             else Some (NOT cksum));
       s2 \<leftarrow> (if np \<noteq> [] then do { nsum \<leftarrow> in_sum64 np nfs; Some (add_carry s1 nsum) } else Some s1);
       Some (NOT s2)
     }"

section \<open>Messages in pieces\<close>

text \<open>
  A \<open>Msg_t\<close> is a vector of pieces, each with its bytes and flags; a disabled piece is skipped.
  \<open>MsgCksum64\<close> sums the pieces from \<open>Start\<close>, each at the word offset where the one before it
  ended, and returns the checksum and the offset after the last piece.
\<close>

record MsgVec_t =
  v_Disabled :: bool
  v_Data :: "u8 list"

fun MsgCksum64_loop :: "MsgVec_t list \<Rightarrow> u64 \<Rightarrow> nat \<Rightarrow> (u64 \<times> nat) option" where
  "MsgCksum64_loop [] sum64 r = Some (sum64, r)"
| "MsgCksum64_loop (pVec # vs) sum64 r =
     (if v_Disabled pVec then MsgCksum64_loop vs sum64 r
      else do {
        w64 \<leftarrow> in_sum64 (v_Data pVec) r;
        MsgCksum64_loop vs (add_carry sum64 w64) ((length (v_Data pVec) + r) mod 8)
      })"

definition MsgCksum64 :: "MsgVec_t list \<Rightarrow> nat \<Rightarrow> int \<Rightarrow> nat \<Rightarrow> (u64 \<times> nat) option" where
  "MsgCksum64 aVec Start N r =
     (let n = (if N \<le> 0 then length aVec else nat N);
          End = min (Start + n) (length aVec)
      in map_option (\<lambda>(sum64, r'). (NOT sum64, r'))
           (MsgCksum64_loop (take (End - Start) (drop Start aVec)) 0 r))"

definition MsgTotalLen :: "MsgVec_t list \<Rightarrow> nat" where
  "MsgTotalLen aVec = sum_list (map (\<lambda>v. length (v_Data v)) (filter (\<lambda>v. \<not> v_Disabled v) aVec))"

fun MsgCopyToBuf :: "MsgVec_t list \<Rightarrow> nat \<Rightarrow> u8 list" where
  "MsgCopyToBuf [] n = []"
| "MsgCopyToBuf (pVec # vs) n =
     (if n = 0 then []
      else if v_Disabled pVec then MsgCopyToBuf vs n
      else let l = min n (length (v_Data pVec))
           in take l (v_Data pVec) @ MsgCopyToBuf vs (n - l))"

section \<open>One's complement addition\<close>

text \<open>
  One's complement addition is addition modulo \<open>2^64 - 1\<close>, except that there are two
  representations of zero; the sum is the all-zero one only if nothing but zeros was added.
\<close>

lemma unat_add_carry:
  "unat (add_carry a b) =
     (if unat a + unat b < 2 ^ 64 then unat a + unat b else unat a + unat b - (2 ^ 64 - 1))"
proof (cases "unat a + unat b < 2 ^ 64")
  case True
  then have s: "unat (a + b) = unat a + unat b" by (simp add: unat_word_ariths)
  then have "\<not> a + b < b" by (simp add: word_less_nat_alt)
  with s True show ?thesis by (simp add: add_carry_def Let_def)
next
  case False
  have a: "unat a < 2 ^ 64" and b: "unat b < 2 ^ 64"
    using unat_lt_u64 [of a] unat_lt_u64 [of b] by simp_all
  then have s: "unat (a + b) = unat a + unat b - 2 ^ 64"
    using False by (simp add: unat_word_ariths mod_if)
  have "unat a + unat b - 2 ^ 64 < unat b" using a False by arith
  then have "a + b < b" by (simp add: word_less_nat_alt s)
  moreover have "unat (a + b) + 1 < 2 ^ 64" using s a b False by arith
  ultimately have "unat (add_carry a b) = unat (a + b) + 1"
    by (simp add: add_carry_def Let_def unat_word_ariths)
  with s False show ?thesis by simp
qed

lemma add_carry_mod: "unat (add_carry a b) mod (2 ^ 64 - 1) = (unat a + unat b) mod (2 ^ 64 - 1)"
  by (simp add: unat_add_carry mod_if)

lemma add_carry_0 [simp]: "add_carry 0 b = b" "add_carry a 0 = a"
  by (simp_all add: add_carry_def)

lemma add_carry_eq_0: "add_carry a b = 0 \<longleftrightarrow> a = 0 \<and> b = 0"
proof -
  have "add_carry a b = 0 \<longleftrightarrow> unat (add_carry a b) = 0" by (simp add: unat_eq_zero)
  also have "\<dots> \<longleftrightarrow> unat a = 0 \<and> unat b = 0" by (auto simp: unat_add_carry)
  finally show ?thesis by (simp add: unat_eq_zero)
qed

text \<open>A word is determined by its residue and by whether it is zero.\<close>

lemma residue_unique:
  assumes "unat (x :: u64) mod (2 ^ 64 - 1) = unat y mod (2 ^ 64 - 1)" and "x = 0 \<longleftrightarrow> y = 0"
  shows "x = y"
proof (cases "x = 0")
  case False
  then have xy: "x \<noteq> 0" "y \<noteq> 0" using assms(2) by simp_all
  have r: "unat z mod (2 ^ 64 - 1) = (if unat z = 2 ^ 64 - 1 then 0 else unat z)" for z :: u64
    using unat_lt_u64 [of z] by (cases "unat z = 2 ^ 64 - 1") (simp_all add: mod_less)
  have "unat x \<noteq> 0" "unat y \<noteq> 0" using xy by (simp_all add: unat_eq_zero)
  with assms(1) have "unat x = unat y" unfolding r by (auto split: if_splits)
  then show ?thesis by (rule unsigned_word_eqI)
qed (use assms(2) in simp)

lemma unat_not64: "unat (NOT x :: u64) = 2 ^ 64 - 1 - unat x"
proof -
  have n: "NOT x = - 1 - x" by (simp add: not_eq_complement)
  have m: "unat (- 1 :: u64) = 2 ^ 64 - 1" by (simp add: unsigned_minus_1_eq_mask mask_eq_exp_minus_1)
  have "unat (- 1 - x) = unat (- 1 :: u64) - unat x"
    by (rule unat_sub) (simp add: word_order.extremum)
  then show ?thesis by (simp only: n m)
qed

section \<open>The value of a buffer\<close>

text \<open>
  \<open>byte_weight r i\<close> is the place value of byte \<open>i\<close> of a buffer that starts at offset \<open>r\<close> of a
  word, and \<open>buffer_value\<close> the sum of its bytes at their places: what the checksum computes
  modulo \<open>2^64 - 1\<close>.
\<close>

fun buffer_value :: "nat \<Rightarrow> u8 list \<Rightarrow> nat" where
  "buffer_value r [] = 0"
| "buffer_value r (b # bs) = unat b * 256 ^ r + buffer_value (Suc r mod 8) bs"

lemma buffer_value_append:
  "r < 8 \<Longrightarrow> buffer_value r (xs @ ys) = buffer_value r xs + buffer_value ((r + length xs) mod 8) ys"
proof (induction xs arbitrary: r)
  case (Cons x xs)
  have "(Suc r mod 8 + length xs) mod 8 = Suc (r + length xs) mod 8" by (simp add: mod_simps)
  with Cons show ?case by simp
qed simp

lemma buffer_value_eq_0: "buffer_value r bs = 0 \<longleftrightarrow> (\<forall>b \<in> set bs. b = 0)"
  by (induction bs arbitrary: r) (auto simp: unat_eq_zero)

lemma unat_le64:
  "r + length bs \<le> 8 \<Longrightarrow> unat (le64 bs) < 256 ^ length bs \<and> buffer_value r bs = unat (le64 bs) * 256 ^ r"
proof (induction bs arbitrary: r)
  case (Cons b bs)
  then have len: "Suc (length bs) \<le> 8" by simp
  have bnd: "unat (le64 bs) < 256 ^ length bs" using Cons.IH [of 0] Cons.prems by simp
  have b: "unat b \<le> 255" using unat_lt_u8 [of b] by simp
  have "unat (le64 bs) + 1 \<le> 256 ^ length bs" using bnd by simp
  then have "256 * (unat (le64 bs) + 1) \<le> 256 ^ Suc (length bs)" by simp
  moreover have "(256 :: nat) ^ Suc (length bs) \<le> 256 ^ 8" using len by (rule power_increasing) simp
  ultimately have lt: "unat b + 256 * unat (le64 bs) < 256 ^ Suc (length bs)"
    and lt64: "unat b + 256 * unat (le64 bs) < 2 ^ 64"
    using b by simp_all
  have ub: "unat (ucast b :: u64) = unat b"
    using unat_lt_u8 [of b] by (simp add: unsigned_ucast_eq take_bit_nat_eq_self)
  have "unat (le64 (b # bs)) = unat b + 256 * unat (le64 bs)"
    using lt64 by (simp add: unat_word_ariths ub)
  moreover have "buffer_value r (b # bs) = (unat b + 256 * unat (le64 bs)) * 256 ^ r"
  proof (cases "bs = []")
    case False
    then have r: "Suc r + length bs \<le> 8" "Suc r mod 8 = Suc r"
      using Cons.prems by (cases bs; simp)+
    then show ?thesis using Cons.IH [of "Suc r"] by (simp add: algebra_simps)
  qed simp
  ultimately show ?case using lt by simp
qed simp


definition all_zero :: "u8 list \<Rightarrow> bool" where
  "all_zero bs \<longleftrightarrow> list_all (\<lambda>b. b = 0) bs"

lemma all_zero_simps [simp]:
  "all_zero []" "all_zero (b # bs) \<longleftrightarrow> b = 0 \<and> all_zero bs"
  "all_zero (xs @ ys) \<longleftrightarrow> all_zero xs \<and> all_zero ys"
  by (simp_all add: all_zero_def)

text \<open>
  \<open>sums_to w r bs\<close>: the word \<open>w\<close> is the one's complement sum of the buffer \<open>bs\<close> at offset \<open>r\<close>.
  It is a function of the buffer, by \<open>residue_unique\<close>.
\<close>

definition sums_to :: "u64 \<Rightarrow> nat \<Rightarrow> u8 list \<Rightarrow> bool" where
  "sums_to w r bs \<longleftrightarrow>
     unat w mod (2 ^ 64 - 1) = buffer_value r bs mod (2 ^ 64 - 1) \<and> (w = 0 \<longleftrightarrow> all_zero bs)"

lemma sums_to_unique: "sums_to v r bs \<Longrightarrow> sums_to w r bs \<Longrightarrow> v = w"
  by (rule residue_unique) (simp_all add: sums_to_def)

lemma all_zero_value: "all_zero bs \<longleftrightarrow> buffer_value r bs = 0"
  by (simp add: all_zero_def list_all_iff buffer_value_eq_0)

lemma sums_to_le64: "length bs \<le> 8 \<Longrightarrow> sums_to (le64 bs) 0 bs"
  using unat_le64 [of 0 bs] all_zero_value [of bs 0] by (simp add: sums_to_def unat_eq_zero flip: unat_eq_zero)

lemma add_carry_mod_cong:
  assumes "unat a mod (2 ^ 64 - 1) = x mod (2 ^ 64 - 1)" and "unat b mod (2 ^ 64 - 1) = y mod (2 ^ 64 - 1)"
  shows "unat (add_carry a b) mod (2 ^ 64 - 1) = (x + y) mod (2 ^ 64 - 1)"
  unfolding add_carry_mod using assms by (rule mod_add_cong)

lemma sums_to_append:
  "r < 8 \<Longrightarrow> sums_to v r xs \<Longrightarrow> sums_to w ((r + length xs) mod 8) ys \<Longrightarrow>
     sums_to (add_carry v w) r (xs @ ys)"
  unfolding sums_to_def
  by (intro conjI) (simp only: buffer_value_append add_carry_mod_cong, simp add: add_carry_eq_0)

lemma sums_to_Nil [simp]: "sums_to w r [] \<longleftrightarrow> w = 0"
  by (auto simp: sums_to_def)

lemma sum64_loop_sums:
  "sums_to s 0 xs \<Longrightarrow> length xs mod 8 = 0 \<Longrightarrow> sums_to (sum64_loop s bs) 0 (xs @ bs)"
proof (induction s bs arbitrary: xs rule: sum64_loop.induct)
  case (1 s bs)
  show ?case
  proof (cases "bs = []")
    case True
    with 1 show ?thesis by (simp add: sum64_loop.simps)
  next
    case False
    let ?c = "take 8 bs"
    have s: "sums_to (add_carry s (le64 ?c)) 0 (xs @ ?c)"
      using sums_to_append [of 0 s xs "le64 ?c" ?c] sums_to_le64 [of ?c] "1.prems" by simp
    show ?thesis
    proof (cases "length bs < 8")
      case True
      with s show ?thesis using False by (simp add: sum64_loop.simps [of s] sum64_loop.simps [of _ "[]"])
    next
      case f: False
      then have "length (xs @ ?c) mod 8 = 0" using "1.prems"(2) by (simp add: min_def mod_simps)
      from "1.IH" [OF False s this] show ?thesis
        using False by (simp add: sum64_loop.simps [of s])
    qed
  qed
qed

lemma buffer_value_pad:
  assumes "r < 8"
  shows "buffer_value 0 (replicate r 0 @ bs) = buffer_value r bs"
proof -
  have "buffer_value 0 (replicate r 0) = 0" by (simp add: buffer_value_eq_0)
  then show ?thesis using assms by (simp add: buffer_value_append)
qed

lemma all_zero_replicate [simp]: "all_zero (replicate n 0)"
  by (simp add: all_zero_def list_all_iff)

lemma sums_to_pad: "r < 8 \<Longrightarrow> sums_to w 0 (replicate r 0 @ bs) \<longleftrightarrow> sums_to w r bs"
  by (simp add: sums_to_def buffer_value_pad)

lemma in_sum64_sums: "in_sum64 bs r = Some w \<longleftrightarrow> r < 8 \<and> sums_to w r bs"
proof -
  have "sums_to (the (in_sum64 bs r)) r bs \<and> in_sum64 bs r \<noteq> None" if r: "r < 8"
  proof (cases "r = 0")
    case True
    then show ?thesis using sum64_loop_sums [of 0 "[]" bs] by (simp add: in_sum64_def)
  next
    case False
    let ?r1 = "min (8 - r) (length bs)" and ?w = "replicate r 0 @ take (min (8 - r) (length bs)) bs"
    have l: "length ?w \<le> 8" using r by auto
    have s: "sums_to (le64 ?w) 0 ?w" by (rule sums_to_le64 [OF l])
    have "sums_to (sum64_loop (le64 ?w) (drop ?r1 bs)) 0 (?w @ drop ?r1 bs)"
    proof (cases "length bs < 8 - r")
      case True
      with s show ?thesis by (simp add: sum64_loop.simps)
    next
      case f: False
      then have "length ?w mod 8 = 0" using r by (simp add: min_def)
      from sum64_loop_sums [OF s this] show ?thesis .
    qed
    then have "sums_to (sum64_loop (le64 ?w) (drop ?r1 bs)) r bs"
      using r by (simp add: sums_to_pad)
    then show ?thesis using r False by (simp add: in_sum64_def Let_def)
  qed
  moreover have "in_sum64 bs r = None" if "\<not> r < 8" using that by (simp add: in_sum64_def)
  ultimately show ?thesis
    using sums_to_unique by (cases "r < 8"; cases "in_sum64 bs r") auto
qed


text \<open>
  The laws of a checksum, as a client relies on them: every buffer at an offset within a word has
  a sum, sums of adjacent pieces combine by one's complement addition, and two sums of the same
  buffer are equal.
\<close>

locale checksum =
  fixes sums :: "u64 \<Rightarrow> nat \<Rightarrow> u8 list \<Rightarrow> bool"
    and sum_of :: "u8 list \<Rightarrow> nat \<Rightarrow> u64 option"
  assumes sum_of_iff: "sum_of bs r = Some w \<longleftrightarrow> r < 8 \<and> sums w r bs"
    and sum_defined: "r < 8 \<Longrightarrow> \<exists>w. sums w r bs"
    and unique: "sums v r bs \<Longrightarrow> sums w r bs \<Longrightarrow> v = w"
    and append: "r < 8 \<Longrightarrow> sums v r xs \<Longrightarrow> sums w ((r + length xs) mod 8) ys \<Longrightarrow>
      sums (add_carry v w) r (xs @ ys)"
    and empty: "sums 0 r []"
begin

lemma sum_of_append:
  assumes "sum_of xs r = Some v" and "sum_of ys ((r + length xs) mod 8) = Some w"
  shows "sum_of (xs @ ys) r = Some (add_carry v w)"
  using assms append by (simp add: sum_of_iff)

lemma sum_of_total: "r < 8 \<Longrightarrow> \<exists>w. sum_of bs r = Some w"
  using sum_defined by (simp add: sum_of_iff)

text \<open>The pieces of a message sum to the sum of its bytes.\<close>

fun pieces :: "u8 list list \<Rightarrow> u64 \<Rightarrow> nat \<Rightarrow> (u64 \<times> nat) option" where
  "pieces [] s r = Some (s, r)"
| "pieces (b # bs) s r = do {
     w \<leftarrow> sum_of b r;
     pieces bs (add_carry s w) ((length b + r) mod 8)
   }"

lemma pieces_sum:
  "r < 8 \<Longrightarrow> sums s r xs \<Longrightarrow>
     \<exists>w. pieces bs s ((r + length xs) mod 8) =
           Some (w, (r + length xs + length (concat bs)) mod 8) \<and> sums w r (xs @ concat bs)"
proof (induction bs arbitrary: s xs)
  case (Cons b bs)
  let ?q = "(r + length xs) mod 8"
  obtain w where w: "sum_of b ?q = Some w" using sum_of_total by fastforce
  then have "sums (add_carry s w) r (xs @ b)" using append Cons.prems by (simp add: sum_of_iff)
  from Cons.IH [OF Cons.prems(1) this] w show ?case by (simp add: mod_simps ac_simps)
qed simp

end

interpretation cksum64: checksum sums_to in_sum64
proof unfold_locales
  fix bs r w show "in_sum64 bs r = Some w \<longleftrightarrow> r < 8 \<and> sums_to w r bs" by (rule in_sum64_sums)
next
  fix bs :: "u8 list" and r :: nat
  assume r: "r < 8"
  then obtain w where "in_sum64 bs r = Some w" by (cases "r = 0") (simp_all add: in_sum64_def Let_def)
  then show "\<exists>w. sums_to w r bs" by (auto simp: in_sum64_sums)
next
  fix v w :: u64 and bs and r :: nat
  assume "sums_to v r bs" "sums_to w r bs" then show "v = w" by (rule sums_to_unique)
next
  fix v w :: u64 and xs ys and r :: nat
  assume "r < 8" "sums_to v r xs" "sums_to w ((r + length xs) mod 8) ys"
  then show "sums_to (add_carry v w) r (xs @ ys)" by (rule sums_to_append)
next
  fix r :: nat show "sums_to 0 r []" by simp
qed


section \<open>The properties of the checksum\<close>

lemma in_sum64_total: "r < 8 \<Longrightarrow> \<exists>w. in_sum64 bs r = Some w"
  by (rule cksum64.sum_of_total)

lemma sums_to_in_sum64: "r < 8 \<Longrightarrow> sums_to (the (in_sum64 bs r)) r bs"
  using in_sum64_total [of r bs] in_sum64_sums [of bs r] by (cases "in_sum64 bs r") auto

lemma MsgCksum64_loop_pieces:
  "MsgCksum64_loop vs s r = cksum64.pieces (map v_Data (filter (\<lambda>v. \<not> v_Disabled v) vs)) s r"
  by (induction vs arbitrary: s r) simp_all

text \<open>The bytes of a message are those of its pieces in use.\<close>

definition msg_bytes :: "MsgVec_t list \<Rightarrow> u8 list" where
  "msg_bytes aVec = concat (map v_Data (filter (\<lambda>v. \<not> v_Disabled v) aVec))"

lemma MsgCopyToBuf_bytes: "MsgCopyToBuf aVec n = take n (msg_bytes aVec)"
proof (induction aVec n rule: MsgCopyToBuf.induct)
  case (2 v vs n)
  then show ?case by (auto simp: msg_bytes_def Let_def min_def)
qed (simp add: msg_bytes_def)

lemma MsgTotalLen_bytes: "MsgTotalLen aVec = length (msg_bytes aVec)"
  by (simp add: MsgTotalLen_def msg_bytes_def length_concat comp_def)

text \<open>
  The checksum of a message in pieces is the checksum of the one buffer the pieces make.
\<close>

lemma MsgCksum64_flat:
  assumes "r < 8"
  shows "MsgCksum64 aVec 0 0 r =
    map_option (\<lambda>c. (c, (r + MsgTotalLen aVec) mod 8)) (in_cksum64 (MsgCopyToBuf aVec (MsgTotalLen aVec)) r)"
proof -
  obtain w where "MsgCksum64_loop aVec 0 r = Some (w, (r + length (msg_bytes aVec)) mod 8)"
    and "sums_to w r (msg_bytes aVec)"
    using cksum64.pieces_sum [of r 0 "[]" "map v_Data (filter (\<lambda>v. \<not> v_Disabled v) aVec)"] assms
    by (auto simp: MsgCksum64_loop_pieces msg_bytes_def)
  moreover from this assms have "in_sum64 (msg_bytes aVec) r = Some w" by (simp add: in_sum64_sums)
  ultimately show ?thesis
    by (simp add: MsgCksum64_def in_cksum64_def MsgCopyToBuf_bytes MsgTotalLen_bytes)
qed

lemma not64_eq_0: "NOT (x :: u64) = 0 \<longleftrightarrow> unat x = 2 ^ 64 - 1"
proof -
  have "NOT x = 0 \<longleftrightarrow> unat (NOT x) = 0" by (rule unat_eq_zero [symmetric])
  then show ?thesis using unat_lt_u64 [of x] by (simp add: unat_not64) linarith
qed

text \<open>
  Sealing: the checksum of a buffer with a zero field of eight bytes at a word boundary, stored
  into that field, makes the checksum of the buffer zero, which is what the receiver tests.
\<close>

lemma cksum64_sealed:
  assumes c: "in_cksum64 (xs @ replicate 8 0 @ ys) 0 = Some c"
    and f: "length field = 8" "le64 field = c" and a: "length xs mod 8 = 0"
  shows "in_cksum64 (xs @ field @ ys) 0 = Some 0"
proof -
  let ?x = "the (in_sum64 xs 0)" and ?y = "the (in_sum64 ys 0)"
  have x: "sums_to ?x 0 xs" and y: "sums_to ?y 0 ys" by (simp_all add: sums_to_in_sum64)
  have all: "sums_to (add_carry ?x (add_carry w ?y)) 0 (xs @ fs @ ys)"
    if "sums_to w 0 fs" "length fs = 8" for w fs
    using sums_to_append [of 0 ?x xs "add_carry w ?y" "fs @ ys"] sums_to_append [of 0 w fs ?y ys] x y that a
    by simp
  define t where "t = add_carry ?x (add_carry c ?y)"
  have "sums_to 0 0 (replicate 8 0)" using all_zero_value [of "replicate 8 0" 0] by (simp add: sums_to_def)
  then have s: "sums_to (add_carry ?x (add_carry 0 ?y)) 0 (xs @ replicate 8 0 @ ys)" by (rule all) simp
  then have c': "c = NOT (add_carry ?x (add_carry 0 ?y))"
    using c by (auto simp: in_cksum64_def in_sum64_sums dest: sums_to_unique)
  have "sums_to c 0 field" using sums_to_le64 [of field] f by simp
  then have t: "sums_to t 0 (xs @ field @ ys)" unfolding t_def by (rule all) (rule f(1))
  have "t \<noteq> 0"
    using c' by (auto simp: t_def add_carry_eq_0 not64_eq_0)
  moreover have "unat t mod (2 ^ 64 - 1) = 0"
  proof -
    let ?u = "add_carry ?x (add_carry 0 ?y)"
    have "unat t mod (2 ^ 64 - 1) = (unat ?x + (unat c + unat ?y)) mod (2 ^ 64 - 1)"
      unfolding t_def by (intro add_carry_mod_cong refl)
    also have "\<dots> = (unat c + (unat ?x + (0 + unat ?y))) mod (2 ^ 64 - 1)" by (simp add: ac_simps)
    also have "\<dots> = (unat c + unat ?u) mod (2 ^ 64 - 1)"
      by (intro mod_add_cong refl add_carry_mod_cong [symmetric]) simp
    also have "unat c + unat ?u = 2 ^ 64 - 1"
      using unat_lt_u64 [of ?u] by (simp add: c' unat_not64)
    finally show ?thesis by simp
  qed
  ultimately have "unat t = 2 ^ 64 - 1"
    using unat_lt_u64 [of t] unat_eq_zero [of t] by (auto simp: mod_if split: if_splits)
  then have "NOT t = 0" by (simp add: not64_eq_0)
  moreover have "in_sum64 (xs @ field @ ys) 0 = Some t" using t by (simp add: in_sum64_sums)
  ultimately show ?thesis by (simp add: in_cksum64_def)
qed


text \<open>
  The incremental update replaces a part of a buffer: the result is the checksum of the new buffer
  unless that is all zeros, where the two representations of zero may differ.
\<close>

lemma cksum64_update_new:
  assumes c: "in_cksum64 (xs @ op @ ys) r = Some c" and r: "r < 8"
    and len: "length np mod 8 = length op mod 8" and nz: "\<not> all_zero (xs @ np @ ys)"
  shows "in_cksum64_update c op ((r + length xs) mod 8) np ((r + length xs) mod 8) =
    in_cksum64 (xs @ np @ ys) r"
proof -
  let ?q = "(r + length xs) mod 8" and ?M = "2 ^ 64 - 1 :: nat"
  let ?x = "the (in_sum64 xs r)" and ?y = "the (in_sum64 ys ((?q + length op) mod 8))"
  have q: "?q < 8" by simp
  obtain so sn where in_o: "in_sum64 op ?q = Some so" and in_n: "in_sum64 np ?q = Some sn"
    using in_sum64_total [OF q] by meson
  then have o: "sums_to so ?q op" and n: "sums_to sn ?q np" by (simp_all add: in_sum64_sums)
  have x: "sums_to ?x r xs" and y: "sums_to ?y ((?q + length op) mod 8) ys"
    using r by (simp_all add: sums_to_in_sum64)
  have "(?q + length np) mod 8 = (?q + length op) mod 8" using len by (metis mod_add_right_eq)
  with y have y': "sums_to ?y ((?q + length np) mod 8) ys" by simp
  have all: "sums_to (add_carry ?x (add_carry w ?y)) r (xs @ zs @ ys)"
    if "sums_to w ?q zs" "sums_to ?y ((?q + length zs) mod 8) ys" for w zs
    by (rule sums_to_append [OF r x sums_to_append [OF q that]])
  note all_o = all [OF o y] and all_n = all [OF n y']
  have nc: "NOT c = add_carry ?x (add_carry so ?y)"
    using c all_o by (auto simp: in_cksum64_def in_sum64_sums dest: sums_to_unique)
  define s1 where "s1 = (if op \<noteq> [] then add_carry (NOT c) (NOT so) else NOT c)"
  define s2 where "s2 = (if np \<noteq> [] then add_carry s1 sn else s1)"
  have upd: "in_cksum64_update c op ?q np ?q = Some (NOT s2)"
    by (simp add: in_cksum64_update_def s1_def s2_def in_o in_n)
  have xo: "unat (NOT c) mod ?M = (unat ?x + (unat so + unat ?y)) mod ?M"
    unfolding nc by (intro add_carry_mod_cong refl)
  have m1: "unat s1 mod ?M = (unat ?x + unat ?y) mod ?M"
  proof (cases "op = []")
    case True
    with o have "so = 0" by simp
    with xo True show ?thesis by (simp add: s1_def)
  next
    case False
    have "unat s1 mod ?M = ((unat ?x + (unat so + unat ?y)) + unat (NOT so)) mod ?M"
      unfolding s1_def using False xo by (simp only: if_True simp_thms) (intro add_carry_mod_cong refl)
    also have "\<dots> = ((unat ?x + unat ?y) + (unat so + unat (NOT so))) mod ?M" by (simp add: ac_simps)
    also have "unat so + unat (NOT so) = ?M" using unat_lt_u64 [of so] by (simp add: unat_not64)
    finally show ?thesis by simp
  qed
  have "unat s2 mod ?M = (unat ?x + unat ?y + unat sn) mod ?M"
  proof (cases "np = []")
    case True
    with n have "sn = 0" by simp
    with m1 True show ?thesis by (simp only: s2_def) simp
  next
    case False
    then show ?thesis unfolding s2_def by (simp only: if_True simp_thms) (intro add_carry_mod_cong m1 refl)
  qed
  also have "\<dots> = (unat ?x + (unat sn + unat ?y)) mod ?M" by (simp add: ac_simps)
  also have "\<dots> = unat (add_carry ?x (add_carry sn ?y)) mod ?M"
    by (intro add_carry_mod_cong [symmetric] add_carry_mod_cong refl)
  finally have m2: "unat s2 mod ?M = unat (add_carry ?x (add_carry sn ?y)) mod ?M" .
  have z1: "s1 = 0 \<Longrightarrow> all_zero (xs @ ys)"
    using nc o x y by (auto simp: s1_def add_carry_eq_0 sums_to_def split: if_splits)
  have "s2 \<noteq> 0"
    using z1 nz n by (auto simp: s2_def add_carry_eq_0 sums_to_def split: if_splits)
  moreover have "add_carry ?x (add_carry sn ?y) \<noteq> 0" using all_n nz by (simp add: sums_to_def)
  ultimately have "s2 = add_carry ?x (add_carry sn ?y)" using m2 by (intro residue_unique) simp_all
  with all_n r have "in_sum64 (xs @ np @ ys) r = Some s2" by (simp add: in_sum64_sums)
  then show ?thesis by (simp add: upd in_cksum64_def)
qed

end
