(* ===== verification/Paxos_Types.thy ===== *)
theory Paxos_Types
  imports Gadget_Base Gadget_Hash Gadget_Cksum
begin

text \<open>
  The data of \<^verbatim>\<open>paxos/h/Paxos.h\<close>: rounds, values, quorums, instances, pages, servers, messages and
  the state \<open>Paxos_t\<close>, and the primitives every part uses: message construction and \<open>PaxosSend\<close>,
  sequence numbers of instances, the time units, and the out-of-band validation.

  An array of the code is a function from the index; the definitions check the indices a message
  carries with \<open>srv_index\<close> and \<open>k_index\<close> where the code uses them unchecked, so that an access
  outside an array is \<open>None\<close>.
\<close>

section \<open>Constants\<close>

abbreviation (input) PAXOS_MAX :: nat where "PAXOS_MAX \<equiv> 10"
abbreviation (input) PAXOS_FIRE_MAX :: int where "PAXOS_FIRE_MAX \<equiv> 20"
abbreviation (input) PAXOS_PAGE_MAX_LEN :: int where "PAXOS_PAGE_MAX_LEN \<equiv> 1000"
abbreviation (input) PAXOS_COMMAND_SIZE :: int where "PAXOS_COMMAND_SIZE \<equiv> 1300"
abbreviation (input) DT_AUTONOMIC_SEC :: int where "DT_AUTONOMIC_SEC \<equiv> 30"
abbreviation (input) DT_UNIT_MIN :: int where "DT_UNIT_MIN \<equiv> 20 * 1000"

datatype PaxosNotify = PAXOS_OK | PAXOS_NOOP | PAXOS_NOT_ACTIVE | PAXOS_Im_NOT_MASTER
  | PAXOS_Im_MASTER | PAXOS_MASTER_ELECTED | PAXOS_MASTER_CANCELED | PAXOS_REJECTED
  | PAXOS_ACCEPTED | PAXOS_NOT_GET_PAGE | PAXOS_RECOVER | PAXOS_VALIDATE

datatype PaxosMode = PAXOS_MODE_NORMAL | PAXOS_MODE_REQUEST | PAXOS_MODE_BEGIN
  | PAXOS_MODE_REDIRECT | PAXOS_MODE_ACCEPT | PAXOS_MODE_SUCCESS | PAXOS_MODE_RECOVER
  | PAXOS_MODE_CATCHUP

datatype PaxosStepMode = MODE_NONE | MODE_COLLECT | MODE_GATHERLAST | MODE_WAIT | MODE_BEGINCAST
  | MODE_GATHERACCEPT | MODE_DECIDED

datatype msg_paxos_mode = MODE_MSG_NONE | MODE_MSG_DECIDED | MODE_MSG_PROPOSED

datatype PaxosStartMode = PAXOS_WAIT | PAXOS_NO_SEQ | PAXOS_SEQ

datatype Con_t = DIS_DIS | DIS_CON | CON_CON | CON_DIS

section \<open>Quorums\<close>

record Quorum_t =
  q_total :: int
  q_count :: int
  q_member :: u32

definition quorum_init :: "int \<Rightarrow> Quorum_t" where
  "quorum_init n = \<lparr>q_total = n, q_count = 0, q_member = 0\<rparr>"

definition quorum_exist :: "Quorum_t \<Rightarrow> nat \<Rightarrow> bool" where
  "quorum_exist pq j \<longleftrightarrow> q_member pq AND push_bit j 1 \<noteq> 0"

definition quorum_add :: "Quorum_t \<Rightarrow> nat \<Rightarrow> bool \<times> Quorum_t" where
  "quorum_add pq j =
     (if quorum_exist pq j then (False, pq)
      else (True, pq\<lparr>q_member := q_member pq OR push_bit j 1, q_count := q_count pq + 1\<rparr>))"

definition quorum_del :: "Quorum_t \<Rightarrow> nat \<Rightarrow> bool \<times> Quorum_t" where
  "quorum_del pq j =
     (if \<not> quorum_exist pq j then (False, pq)
      else (True, pq\<lparr>q_member := q_member pq AND NOT (push_bit j 1), q_count := q_count pq - 1\<rparr>))"

definition quorum_majority :: "Quorum_t \<Rightarrow> bool" where
  "quorum_majority pq \<longleftrightarrow> cdiv (q_total pq) 2 + 1 \<le> q_count pq"

section \<open>Rounds and values\<close>

record Round_t =
  r_id :: u32
  r_seq :: u32

abbreviation round_zero :: Round_t where
  "round_zero \<equiv> \<lparr>r_id = 0, r_seq = 0\<rparr>"

definition CMP_ROUND :: "Round_t \<Rightarrow> Round_t \<Rightarrow> int" where
  "CMP_ROUND px py =
     (let ret = SEQ_CMP (r_seq px) (r_seq py) in
      if ret = 0 then
        (if r_seq px \<noteq> 0
         then (if r_id px < r_id py then 1 else if r_id px > r_id py then -1 else ret)
         else ret)
      else ret)"

abbreviation (input) VALUE_DEFINED :: u32 where "VALUE_DEFINED \<equiv> 0x1"
abbreviation (input) VALUE_NOOP :: u32 where "VALUE_NOOP \<equiv> 0x2"
abbreviation (input) VALUE_NORMAL :: u32 where "VALUE_NORMAL \<equiv> 0x4"
abbreviation (input) VALUE_RECOVER :: u32 where "VALUE_RECOVER \<equiv> 0x8"
abbreviation (input) VALUE_CATCHUP :: u32 where "VALUE_CATCHUP \<equiv> 0x10"
abbreviation (input) VALUE_VALIDATE :: u32 where "VALUE_VALIDATE \<equiv> 0x20"

record value_t =
  v_Flags :: u32
  v_Server :: int
  v_Epoch :: u32
  v_From :: int

abbreviation value_zero :: value_t where
  "value_zero \<equiv> \<lparr>v_Flags = 0, v_Server = 0, v_Epoch = 0, v_From = 0\<rparr>"

definition isDefined :: "value_t \<Rightarrow> bool" where
  "isDefined pV \<longleftrightarrow> v_Flags pV AND VALUE_DEFINED \<noteq> 0"

definition isSameValue :: "value_t \<Rightarrow> value_t \<Rightarrow> bool" where
  "isSameValue pA pB \<longleftrightarrow>
     (if v_Flags pA AND VALUE_DEFINED \<noteq> 0 \<and> v_Flags pB AND VALUE_DEFINED \<noteq> 0
      then v_Server pA = v_Server pB else False)"

definition PAXOS_MODE :: "value_t \<Rightarrow> PaxosMode" where
  "PAXOS_MODE pV = (if v_Flags pV AND VALUE_CATCHUP \<noteq> 0 then PAXOS_MODE_CATCHUP else PAXOS_MODE_NORMAL)"

record MetaCmd_t =
  c_len :: u32
  c_opaque :: "u8 list"

abbreviation metacmd_zero :: MetaCmd_t where
  "metacmd_zero \<equiv> \<lparr>c_len = 0, c_opaque = []\<rparr>"

definition isEmpty :: "MetaCmd_t \<Rightarrow> bool" where
  "isEmpty pC \<longleftrightarrow> c_len pC = 0"

section \<open>Instances and pages\<close>

record PaxosInstance_t =
  p_Deadline :: timespec
  p_Mode :: PaxosStepMode
  p_InitValue :: value_t
  p_RndValue :: value_t
  p_RndBallot :: Round_t
  p_RndAccQuo :: Quorum_t
  p_Suppressed :: bool

text \<open>All bits zero, as \<open>memset\<close> leaves an instance.\<close>

definition instance_zero :: PaxosInstance_t where
  "instance_zero = \<lparr>p_Deadline = timespec_zero, p_Mode = MODE_NONE, p_InitValue = value_zero,
     p_RndValue = value_zero, p_RndBallot = round_zero, p_RndAccQuo = quorum_init 0,
     p_Suppressed = False\<rparr>"

record MetaCmds =
  c_MetaCmdInit :: MetaCmd_t
  c_MetaCmdRnd :: MetaCmd_t

definition metacmds_zero :: MetaCmds where
  "metacmds_zero = \<lparr>c_MetaCmdInit = metacmd_zero, c_MetaCmdRnd = metacmd_zero\<rparr>"

record PaxosMulti_t =
  p_Page :: u32
  p_NextK :: nat
  p_SuccessCount :: nat
  m_aPaxos :: "nat \<Rightarrow> PaxosInstance_t"
  m_aMetaCmd :: "nat \<Rightarrow> MetaCmds"
  l_Mode :: PaxosStepMode
  l_CurRnd :: Round_t
  l_RndInfQuo :: Quorum_t

definition TO_SEQ :: "u32 \<Rightarrow> nat \<Rightarrow> u32" where
  "TO_SEQ page k = page * 10 + of_nat k"

definition TO_PAGE :: "u32 \<Rightarrow> u32" where
  "TO_PAGE seq = seq div 10"

definition TO_K :: "u32 \<Rightarrow> nat" where
  "TO_K seq = unat (seq mod 10)"

section \<open>Servers\<close>

abbreviation (input) PAXOS_SERVER_ACTIVE :: u32 where "PAXOS_SERVER_ACTIVE \<equiv> 0x1"
abbreviation (input) PAXOS_SERVER_CONNECTED :: u32 where "PAXOS_SERVER_CONNECTED \<equiv> 0x2"

record Server_t =
  s_status :: u32
  s_ID :: int
  s_leader :: int
  s_epoch :: u32
  s_Election :: timespec
  s_ChSend :: ChSend_t
  s_YourTime :: timespec
  s_Token :: timespec
  s_Alive :: timespec
  s_IssuedSeq :: u32
  s_IssuedTime :: timespec
  s_BackPage :: u32
  s_NextDecide :: u32
  s_AutonomicLast :: int
  s_Load :: int

definition is_active :: "Server_t \<Rightarrow> bool" where
  "is_active pserver \<longleftrightarrow> s_status pserver AND PAXOS_SERVER_ACTIVE \<noteq> 0"

definition is_connected :: "Server_t \<Rightarrow> bool" where
  "is_connected pserver \<longleftrightarrow> s_status pserver AND PAXOS_SERVER_CONNECTED \<noteq> 0"

abbreviation addr_zero :: sockaddr_in where "addr_zero \<equiv> \<lparr>sin_addr = 0, sin_port = 0\<rparr>"

definition server_zero :: Server_t where
  "server_zero = \<lparr>s_status = 0, s_ID = 0, s_leader = 0, s_epoch = 0, s_Election = timespec_zero,
     s_ChSend = \<lparr>c_PeerAddr = addr_zero, c_Status = 0\<rparr>, s_YourTime = timespec_zero,
     s_Token = timespec_zero, s_Alive = timespec_zero, s_IssuedSeq = 0, s_IssuedTime = timespec_zero,
     s_BackPage = 0, s_NextDecide = 0, s_AutonomicLast = 0, s_Load = 0\<rparr>"

section \<open>Messages\<close>

text \<open>
  A message is its header and a body; the constructor of the body is the code's \<open>m_cmd\<close>. Commands
  whose message is the bare header have no payload. A message can reach a server in any form the
  network gives it, so indices are integers.
\<close>

record msg_paxos_t =
  mp_mode :: msg_paxos_mode
  mp_round :: Round_t
  mp_value :: value_t

abbreviation msg_paxos_zero :: msg_paxos_t where
  "msg_paxos_zero \<equiv> \<lparr>mp_mode = MODE_MSG_NONE, mp_round = round_zero, mp_value = value_zero\<rparr>"

record msg_alive_t =
  a_fr :: int
  a_to :: int
  a_Election :: timespec
  a_leader :: int
  a_epoch :: u32
  a_YourTime :: timespec
  a_MyTime :: timespec
  a_Catchup :: bool
  a_BackPage :: u32
  a_NextDecide :: u32
  a_Load :: int

record msg_collect_t =
  c_CurRnd :: Round_t
  c_NextDecide :: u32
  c_BackPage :: u32
  c_Page :: u32
  c_NextK :: nat
  c_paxos :: "nat \<Rightarrow> msg_paxos_t"

record msg_last_t =
  l_round :: Round_t
  l_NextDecide :: u32
  l_Page :: u32
  l_paxos :: "nat \<Rightarrow> msg_paxos_t"

record msg_oldround_t =
  o_round :: Round_t
  o_commit :: Round_t

record msg_begin_t =
  b_To :: int
  b_NextDecide :: u32
  b_BackPage :: u32
  b_Page :: u32
  b_NextK :: nat
  b_k :: int
  b_CurRnd :: Round_t
  b_Value :: value_t
  b_MetaCmd :: MetaCmd_t

record msg_accept_t =
  a_Page :: u32
  a_k :: int
  a_round :: Round_t
  a_Value :: value_t
  a_MetaCmd :: MetaCmd_t

record msg_success_t =
  sc_BackPage :: u32
  sc_NextDecide :: u32
  sc_Page :: u32
  sc_NextK :: nat
  sc_k :: int
  sc_Value :: value_t
  sc_MetaCmd :: MetaCmd_t

record msg_catchup_req_t =
  c_SeqFrom :: u32
  c_SeqTo :: u32
  c_RecvLastDT :: int

record msg_catchup_rpl_t =
  c_True :: bool
  c_MyNextDecide :: u32
  c_Seq :: u32
  c_PaxosI :: PaxosInstance_t
  c_MetaCmd :: MetaCmd_t

record PaxosActive_t =
  ac_Target :: int
  ac_Max :: int
  ac_Maximum :: int
  ac_Leader :: int
  ac_Epoch :: u32
  ac_Load :: int
  ac_NextDecide :: u32
  ac_BackPage :: u32

datatype msg_body =
    MSG_DUMP u64 int
  | MSG_CONTROL_START
  | MSG_CONTROL_STOP
  | MSG_OUTBOUND_STOP int
  | MSG_OUTBOUND_RESTART int
  | MSG_DOWN
  | MSG_ALIVE msg_alive_t
  | MSG_CATCHUP_REQ msg_catchup_req_t
  | MSG_CATCHUP_RPL msg_catchup_rpl_t
  | MSG_COLLECT msg_collect_t
  | MSG_LAST msg_last_t
  | MSG_OLDROUND msg_oldround_t
  | MSG_BEGIN msg_begin_t
  | MSG_ACCEPT msg_accept_t
  | MSG_SUCCESS msg_success_t
  | MSG_RECV_STOP bool int
  | MSG_BEGIN_REDIRECT msg_begin_t
  | MSG_BIRTH
  | MSG_CATCHUP_END
  | MSG_TEST_COMMAND int MetaCmd_t bool
  | MSG_TEST_NEWROUND
  | MSG_TEST_BEGINCAST int
  | MSG_TEST_SUPPRESS int
  | MSG_TEST_CATCHUP bool
  | MSG_TEST_REMOVE_PAGE
  | MSG_RAS
  | MSG_HIGH_WATER
  | MSG_HIGH_WATER_ACK
  | MSG_LOW_WATER
  | MSG_LOW_WATER_ACK
  | MSG_IS_ACTIVE "PaxosActive_t option"
  | MSG_LOCK
  | MSG_UNLOCK
  | MSG_LOG_DUMP

abbreviation (input) MSG_MAX :: nat where "MSG_MAX \<equiv> 34"

fun m_cmd :: "msg_body \<Rightarrow> nat" where
  "m_cmd (MSG_DUMP _ _) = 0"
| "m_cmd MSG_CONTROL_START = 1"
| "m_cmd MSG_CONTROL_STOP = 2"
| "m_cmd (MSG_OUTBOUND_STOP _) = 3"
| "m_cmd (MSG_OUTBOUND_RESTART _) = 4"
| "m_cmd MSG_DOWN = 5"
| "m_cmd (MSG_ALIVE _) = 6"
| "m_cmd (MSG_CATCHUP_REQ _) = 7"
| "m_cmd (MSG_CATCHUP_RPL _) = 8"
| "m_cmd (MSG_COLLECT _) = 9"
| "m_cmd (MSG_LAST _) = 10"
| "m_cmd (MSG_OLDROUND _) = 11"
| "m_cmd (MSG_BEGIN _) = 12"
| "m_cmd (MSG_ACCEPT _) = 13"
| "m_cmd (MSG_SUCCESS _) = 14"
| "m_cmd (MSG_RECV_STOP _ _) = 15"
| "m_cmd (MSG_BEGIN_REDIRECT _) = 16"
| "m_cmd MSG_BIRTH = 17"
| "m_cmd MSG_CATCHUP_END = 18"
| "m_cmd (MSG_TEST_COMMAND _ _ _) = 19"
| "m_cmd MSG_TEST_NEWROUND = 20"
| "m_cmd (MSG_TEST_BEGINCAST _) = 21"
| "m_cmd (MSG_TEST_SUPPRESS _) = 22"
| "m_cmd (MSG_TEST_CATCHUP _) = 23"
| "m_cmd MSG_TEST_REMOVE_PAGE = 24"
| "m_cmd MSG_RAS = 25"
| "m_cmd MSG_HIGH_WATER = 26"
| "m_cmd MSG_HIGH_WATER_ACK = 27"
| "m_cmd MSG_LOW_WATER = 28"
| "m_cmd MSG_LOW_WATER_ACK = 29"
| "m_cmd (MSG_IS_ACTIVE _) = 30"
| "m_cmd MSG_LOCK = 31"
| "m_cmd MSG_UNLOCK = 32"
| "m_cmd MSG_LOG_DUMP = 33"

record msg_t =
  m_fr :: int
  m_to :: int
  m_From :: sockaddr_in
  m_cksum64 :: u64
  m_body :: msg_body

section \<open>What leaves the library\<close>

text \<open>
  The entry \<open>Execute\<close> posts for the application: the execution header and the command. \<open>p_Fx\<close> of
  the state is the trace of the calls by which the library acts on its surroundings: datagrams
  through a channel and to an address, the two callbacks, the entries posted for the application,
  the wake-up of the waiting requests and the signal of \<open>server_receive_down\<close>.
\<close>

record PaxosExecute_t =
  e_Seq :: u32
  e_Validate :: bool
  e_BackSeq :: u32
  e_Notify :: PaxosNotify
  e_Cmd :: "u8 list"

datatype fx =
    FxSend nat sockaddr_in msg_t
  | FxSendTo sockaddr_in msg_body
  | FxNotify PaxosMode PaxosNotify u32 int u32 MetaCmd_t int
  | FxPost PaxosExecute_t
  | FxElection PaxosNotify int u32 int
  | FxBroadcast
  | FxKill

section \<open>The state\<close>

record Election_t =
  e_IamMaster :: bool
  e_NewRndStart :: bool
  e_Birth :: timespec
  e_Epoch :: u32
  e_Elected :: int
  e_Leader :: int
  e_Reader :: int

record Gap_t =
  g_Seq :: u32
  g_Decision :: value_t
  g_MetaCmd :: MetaCmd_t

record Paxos_t =
  p_bSuppressAccept :: bool
  p_Active :: bool
  p_MyId :: nat
  p_Election :: Election_t
  p_Max :: nat
  p_Maximum :: nat
  p_aServer :: "nat \<Rightarrow> Server_t"
  p_BackPage :: u32
  p_MultiLnk :: "PaxosMulti_t list"
  p_Multi :: PaxosMulti_t
  p_QueuePaxos :: "msg_t Queue"
  p_QueueHeartbeat :: "msg_t Queue"
  p_UnitUsec :: int
  p_Outbound :: "PaxosExecute_t Queue"
  p_NextDecide :: u32
  p_Gaps :: "(u64, Gap_t) Hash"
  p_NewRoundLast :: int
  p_CatchupNextDecide :: u32
  p_pCatchupServer :: "nat option"
  p_CatchupPageLast :: int
  p_CatchupRecvLast :: timespec
  p_CatchupRecvServer :: int
  p_IssuedLast :: int
  p_IssuedSeq :: u32
  p_RecvStop :: "nat \<Rightarrow> bool"
  p_CatchupStop :: bool
  p_bFreeze :: bool
  p_bCksum :: bool
  p_bPageSuppress :: bool
  p_Fx :: "fx list"

text \<open>
  What a step finds outside the state: the clock (read as one value during a step), the
  application's answer to a validation, its load function if it gave one, whether \<open>MtxTrylock\<close>
  gets the lock, the value a variable has that was not initialised, and the bytes of a message as
  the machine lays them out.
\<close>

record env =
  e_now :: timespec
  e_validate :: "PaxosMode \<Rightarrow> u32 \<Rightarrow> value_t \<Rightarrow> MetaCmd_t \<Rightarrow> int"
  e_fLoad :: "int option"
  e_trylock :: bool
  e_uninit :: bool
  e_image :: "msg_t \<Rightarrow> u8 list"

abbreviation time0 :: "env \<Rightarrow> int" where "time0 E \<equiv> tv_sec (e_now E)"

abbreviation Load_of :: "env \<Rightarrow> int" where
  "Load_of E \<equiv> (case e_fLoad E of Some l \<Rightarrow> l | None \<Rightarrow> -1)"

section \<open>The access macros\<close>

abbreviation MyId :: "Paxos_t \<Rightarrow> nat" where "MyId \<equiv> p_MyId"
abbreviation NextDecide :: "Paxos_t \<Rightarrow> u32" where "NextDecide \<equiv> p_NextDecide"
abbreviation BackPage :: "Paxos_t \<Rightarrow> u32" where "BackPage \<equiv> p_BackPage"
abbreviation IamMaster :: "Paxos_t \<Rightarrow> bool" where "IamMaster s \<equiv> e_IamMaster (p_Election s)"
abbreviation NewRndStart :: "Paxos_t \<Rightarrow> bool" where "NewRndStart s \<equiv> e_NewRndStart (p_Election s)"
abbreviation EBirth :: "Paxos_t \<Rightarrow> timespec" where "EBirth s \<equiv> e_Birth (p_Election s)"
abbreviation Epoch :: "Paxos_t \<Rightarrow> u32" where "Epoch s \<equiv> e_Epoch (p_Election s)"
abbreviation Elected :: "Paxos_t \<Rightarrow> int" where "Elected s \<equiv> e_Elected (p_Election s)"
abbreviation ELeader :: "Paxos_t \<Rightarrow> int" where "ELeader s \<equiv> e_Leader (p_Election s)"
abbreviation EReader :: "Paxos_t \<Rightarrow> int" where "EReader s \<equiv> e_Reader (p_Election s)"
abbreviation CurRnd :: "Paxos_t \<Rightarrow> Round_t" where "CurRnd s \<equiv> l_CurRnd (p_Multi s)"
abbreviation AMode :: "Paxos_t \<Rightarrow> PaxosStepMode" where "AMode s \<equiv> l_Mode (p_Multi s)"
abbreviation RndInfQuo :: "Paxos_t \<Rightarrow> Quorum_t" where "RndInfQuo s \<equiv> l_RndInfQuo (p_Multi s)"
abbreviation Page :: "Paxos_t \<Rightarrow> u32" where "Page s \<equiv> p_Page (p_Multi s)"
abbreviation NextK :: "Paxos_t \<Rightarrow> nat" where "NextK s \<equiv> p_NextK (p_Multi s)"
abbreviation SuccessCount :: "Paxos_t \<Rightarrow> nat" where "SuccessCount s \<equiv> p_SuccessCount (p_Multi s)"
abbreviation PAXOS :: "Paxos_t \<Rightarrow> nat \<Rightarrow> PaxosInstance_t" where "PAXOS s \<equiv> m_aPaxos (p_Multi s)"
abbreviation METACMD :: "Paxos_t \<Rightarrow> nat \<Rightarrow> MetaCmds" where "METACMD s \<equiv> m_aMetaCmd (p_Multi s)"
abbreviation Deadline :: "Paxos_t \<Rightarrow> nat \<Rightarrow> timespec" where "Deadline s k \<equiv> p_Deadline (PAXOS s k)"
abbreviation PMode :: "Paxos_t \<Rightarrow> nat \<Rightarrow> PaxosStepMode" where "PMode s k \<equiv> p_Mode (PAXOS s k)"
abbreviation InitValue :: "Paxos_t \<Rightarrow> nat \<Rightarrow> value_t" where "InitValue s k \<equiv> p_InitValue (PAXOS s k)"
abbreviation RndValue :: "Paxos_t \<Rightarrow> nat \<Rightarrow> value_t" where "RndValue s k \<equiv> p_RndValue (PAXOS s k)"
abbreviation RndBallot :: "Paxos_t \<Rightarrow> nat \<Rightarrow> Round_t" where "RndBallot s k \<equiv> p_RndBallot (PAXOS s k)"
abbreviation RndAccQuo :: "Paxos_t \<Rightarrow> nat \<Rightarrow> Quorum_t" where "RndAccQuo s k \<equiv> p_RndAccQuo (PAXOS s k)"
abbreviation Suppressed :: "Paxos_t \<Rightarrow> nat \<Rightarrow> bool" where "Suppressed s k \<equiv> p_Suppressed (PAXOS s k)"
abbreviation MetaCmdInit :: "Paxos_t \<Rightarrow> nat \<Rightarrow> MetaCmd_t" where "MetaCmdInit s k \<equiv> c_MetaCmdInit (METACMD s k)"
abbreviation MetaCmdRnd :: "Paxos_t \<Rightarrow> nat \<Rightarrow> MetaCmd_t" where "MetaCmdRnd s k \<equiv> c_MetaCmdRnd (METACMD s k)"
abbreviation server :: "Paxos_t \<Rightarrow> nat \<Rightarrow> Server_t" where "server s \<equiv> p_aServer s"
abbreviation Seq :: "Paxos_t \<Rightarrow> nat \<Rightarrow> u32" where "Seq s k \<equiv> TO_SEQ (Page s) k"

definition isMyRnd :: "Paxos_t \<Rightarrow> bool" where
  "isMyRnd s \<longleftrightarrow> AMode s = MODE_BEGINCAST \<and> r_id (CurRnd s) = of_nat (MyId s)"

section \<open>Assignments\<close>

named_theorems assign

definition set_inst :: "nat \<Rightarrow> (PaxosInstance_t \<Rightarrow> PaxosInstance_t) \<Rightarrow> Paxos_t \<Rightarrow> Paxos_t" where
  [assign]: "set_inst k f s = s\<lparr>p_Multi := (p_Multi s)\<lparr>m_aPaxos := (PAXOS s)(k := f (PAXOS s k))\<rparr>\<rparr>"

definition set_cmds :: "nat \<Rightarrow> (MetaCmds \<Rightarrow> MetaCmds) \<Rightarrow> Paxos_t \<Rightarrow> Paxos_t" where
  [assign]: "set_cmds k f s = s\<lparr>p_Multi := (p_Multi s)\<lparr>m_aMetaCmd := (METACMD s)(k := f (METACMD s k))\<rparr>\<rparr>"

definition set_multi :: "(PaxosMulti_t \<Rightarrow> PaxosMulti_t) \<Rightarrow> Paxos_t \<Rightarrow> Paxos_t" where
  [assign]: "set_multi f s = s\<lparr>p_Multi := f (p_Multi s)\<rparr>"

definition set_election :: "(Election_t \<Rightarrow> Election_t) \<Rightarrow> Paxos_t \<Rightarrow> Paxos_t" where
  [assign]: "set_election f s = s\<lparr>p_Election := f (p_Election s)\<rparr>"

definition set_srv :: "nat \<Rightarrow> (Server_t \<Rightarrow> Server_t) \<Rightarrow> Paxos_t \<Rightarrow> Paxos_t" where
  [assign]: "set_srv j f s = s\<lparr>p_aServer := (p_aServer s)(j := f (p_aServer s j))\<rparr>"

definition emit :: "fx \<Rightarrow> Paxos_t \<Rightarrow> Paxos_t" where
  [assign]: "emit x s = s\<lparr>p_Fx := p_Fx s @ [x]\<rparr>"

text \<open>The element of \<open>p_aServer\<close>, respectively of a page, that an index of a message names.\<close>

definition srv_index :: "Paxos_t \<Rightarrow> int \<Rightarrow> nat option" where
  "srv_index s j = (if 0 \<le> j \<and> j < int (p_Maximum s) then Some (nat j) else None)"

definition k_index :: "int \<Rightarrow> nat option" where
  "k_index k = (if 0 \<le> k \<and> k < int PAXOS_MAX then Some (nat k) else None)"

definition ASSERT :: "bool \<Rightarrow> unit option" where
  "ASSERT b = (if b then Some () else None)"

section \<open>Time units\<close>

definition DT_L :: "Paxos_t \<Rightarrow> int" where "DT_L s = 10 * p_UnitUsec s"
definition DT_D :: "Paxos_t \<Rightarrow> int" where "DT_D s = p_UnitUsec s"
definition DT_C :: "Paxos_t \<Rightarrow> int" where "DT_C s = p_UnitUsec s"
definition DT_Z :: "Paxos_t \<Rightarrow> int" where "DT_Z s = p_UnitUsec s"

definition DT_CON :: "Paxos_t \<Rightarrow> int" where
  "DT_CON s = 2 * DT_D s + 2 * DT_Z s"

definition DT_LEADER :: "Paxos_t \<Rightarrow> int" where
  "DT_LEADER s = 3 * DT_Z s + 3 * DT_D s"

definition DT_NEWROUND :: "Paxos_t \<Rightarrow> int" where
  "DT_NEWROUND s = 2 * DT_D s + 2 * int (p_Max s) * DT_L s + DT_L s"

definition DT_SUCCESS :: "Paxos_t \<Rightarrow> int" where
  "DT_SUCCESS s = 3 * DT_L s + 2 * int (p_Max s) * DT_L s + 2 * DT_D s"

definition DT_DECIDE :: "Paxos_t \<Rightarrow> int" where
  "DT_DECIDE s = DT_LEADER s + 2 * DT_SUCCESS s + DT_L s + DT_SUCCESS s
     + int (p_Max s) * DT_L s + DT_D s + DT_L s"

section \<open>Sending\<close>

definition msg_alloc :: "Paxos_t \<Rightarrow> int \<Rightarrow> msg_body \<Rightarrow> msg_t" where
  "msg_alloc s to cmd =
     \<lparr>m_fr = int (MyId s), m_to = to, m_From = addr_zero, m_cksum64 = 0, m_body = cmd\<rparr>"

text \<open>The seal of a message: its checksum with the checksum field zero, if the cell uses them.\<close>

definition seal :: "env \<Rightarrow> Paxos_t \<Rightarrow> msg_t \<Rightarrow> msg_t" where
  "seal E s pm =
     (let pm = pm\<lparr>m_cksum64 := 0\<rparr> in
      if p_bCksum s then pm\<lparr>m_cksum64 := the (in_cksum64 (e_image E pm) 0)\<rparr> else pm)"

definition PaxosSend :: "env \<Rightarrow> nat \<Rightarrow> msg_t \<Rightarrow> Paxos_t \<Rightarrow> Paxos_t" where
  "PaxosSend E j pm s =
     (if \<not> is_active (server s j) then s
      else if ChSend_passes (s_ChSend (server s j))
        then emit (FxSend j (c_PeerAddr (s_ChSend (server s j))) (seal E s pm)) s
      else s)"

text \<open>The pair of calls the code makes for every message: \<open>msg_alloc\<close> to a server, and the send.\<close>

definition send :: "env \<Rightarrow> nat \<Rightarrow> msg_body \<Rightarrow> Paxos_t \<Rightarrow> Paxos_t" where
  "send E j cmd s = PaxosSend E j (msg_alloc s (s_ID (server s j)) cmd) s"

section \<open>Out-of-band validation\<close>

definition PaxosValidate ::
  "env \<Rightarrow> PaxosMode \<Rightarrow> u32 \<Rightarrow> value_t \<Rightarrow> MetaCmd_t \<Rightarrow> Paxos_t \<Rightarrow> int \<times> Paxos_t" where
  "PaxosValidate E mode seq pValue pC s =
     (if v_Flags pValue AND VALUE_VALIDATE = 0 then (0, s)
      else if v_From pValue = int (MyId s) \<and> mode \<noteq> PAXOS_MODE_RECOVER \<and> mode \<noteq> PAXOS_MODE_REQUEST
        then (0, s)
      else (e_validate E mode seq pValue pC,
            emit (FxNotify mode PAXOS_VALIDATE seq (v_Server pValue) (v_Epoch pValue) pC (v_From pValue)) s))"

end
