(* ===== verification/Paxos_Exec.thy ===== *)
theory Paxos_Exec
  imports Paxos_Types
begin

text \<open>
  Execution of decided commands and the pages of instances, from \<^verbatim>\<open>paxos/src/Paxos.c\<close>: a decided
  instance is executed when its sequence number is the next one, and is kept in the table of gaps
  until then; a page whose instances have all succeeded is archived and the next one begins.
\<close>

section \<open>Pages\<close>

text \<open>
  The first loop of \<open>PutPage\<close>: a server whose autonomic grace period is over loses it, and the
  first one that still has it keeps every page.
\<close>

fun autonomic_over :: "env \<Rightarrow> nat list \<Rightarrow> Paxos_t \<Rightarrow> bool \<times> Paxos_t" where
  "autonomic_over E [] s = (True, s)"
| "autonomic_over E (j # js) s =
     (if j = MyId s then autonomic_over E js s
      else if s_AutonomicLast (server s j) < time0 E
        then autonomic_over E js (set_srv j (\<lambda>p. p\<lparr>s_AutonomicLast := 0\<rparr>) s)
        else (False, s))"

text \<open>The oldest \<open>NextDecide\<close> among this server and the connected ones.\<close>

definition oldest_NextDecide :: "Paxos_t \<Rightarrow> u32" where
  "oldest_NextDecide s =
     fold (\<lambda>j nextDecide.
         if j = MyId s \<or> \<not> is_connected (server s j) then nextDecide
         else if CMP nextDecide (s_NextDecide (server s j)) > 0 then s_NextDecide (server s j)
         else nextDecide)
       [0..<p_Maximum s] (NextDecide s)"

text \<open>The pages are linked newest first; removal starts at the last one.\<close>

definition remove_pages :: "u32 \<Rightarrow> PaxosMulti_t list \<Rightarrow> PaxosMulti_t list" where
  "remove_pages backPage ms = rev (dropWhile (\<lambda>m. CMP backPage (p_Page m) > 0) (rev ms))"

definition PutPage :: "env \<Rightarrow> Paxos_t \<Rightarrow> Paxos_t" where
  "PutPage E s =
     (let s = s\<lparr>p_MultiLnk := p_Multi s # p_MultiLnk s\<rparr>;
          (bRemove, s) = autonomic_over E [0..<p_Maximum s] s;
          s = (if bRemove then
                 let backPage = TO_PAGE (oldest_NextDecide s);
                     s = (if CMP (Page s) backPage \<ge> PAXOS_PAGE_MAX_LEN
                          then s\<lparr>p_bPageSuppress := True\<rparr> else s);
                     s = s\<lparr>p_MultiLnk := remove_pages backPage (p_MultiLnk s)\<rparr>
                 in (if p_MultiLnk s \<noteq> [] then s\<lparr>p_BackPage := p_Page (last (p_MultiLnk s))\<rparr>
                     else s\<lparr>p_BackPage := Page s\<rparr>)
               else s)
      in set_multi (\<lambda>m. m\<lparr>m_aPaxos := (\<lambda>_. instance_zero), m_aMetaCmd := (\<lambda>_. metacmds_zero)\<rparr>) s)"

definition GetPage :: "u32 \<Rightarrow> Paxos_t \<Rightarrow> PaxosMulti_t option" where
  "GetPage page s = (if page = Page s then Some (p_Multi s)
                     else List.find (\<lambda>m. p_Page m = page) (p_MultiLnk s))"

definition UpdatePage :: "env \<Rightarrow> Paxos_t \<Rightarrow> Paxos_t" where
  "UpdatePage E s =
     (if SuccessCount s < PAXOS_MAX then s
      else
        let s = PutPage E s;
            s = fold (\<lambda>k. set_inst k (\<lambda>p. p\<lparr>p_RndAccQuo := quorum_init (int (p_Max s))\<rparr>)) [0..<PAXOS_MAX] s;
            s = set_multi (\<lambda>m. m\<lparr>p_Page := p_Page m + 1, p_NextK := 0, p_SuccessCount := 0\<rparr>) s
        in emit FxBroadcast s)"

section \<open>Execution\<close>

text \<open>
  \<open>Execute\<close> posts the command for the application, or tells it of a no-op. The command is copied by
  its length, and a length above the size of the command's array reads outside it.
\<close>

definition Execute :: "u32 \<Rightarrow> value_t \<Rightarrow> MetaCmd_t \<Rightarrow> Paxos_t \<Rightarrow> Paxos_t option" where
  "Execute seq pD pC s =
     (if v_Flags pD AND VALUE_NOOP \<noteq> 0 then
        Some (emit (FxNotify (PAXOS_MODE pD) PAXOS_NOOP seq (v_Server pD) (v_Epoch pD) pC (int (MyId s))) s)
      else if PAXOS_COMMAND_SIZE < uint (c_len pC) then None
      else
        let pH = \<lparr>e_Seq = seq, e_Validate = (v_Flags pD AND VALUE_VALIDATE \<noteq> 0),
                  e_BackSeq = TO_SEQ (BackPage s) 0, e_Notify = PAXOS_ACCEPTED,
                  e_Cmd = take (unat (c_len pC)) (c_opaque pC)\<rparr>
        in Some (emit (FxPost pH) (s\<lparr>p_Outbound := snd (QueuePost (p_Outbound s) pH)\<rparr>)))"

text \<open>
  The loop that executes the gaps that follow. Every turn takes an item out of the table, so the
  number of its items and one more turn that finds nothing bound the turns.
\<close>

fun drain_gaps :: "nat \<Rightarrow> Paxos_t \<Rightarrow> Paxos_t option" where
  "drain_gaps 0 s = None"
| "drain_gaps (Suc fuel) s =
     (case HashGetItem (p_Gaps s) (UINT32_PNT (NextDecide s)) of
        (None, h) \<Rightarrow> Some (s\<lparr>p_Gaps := h\<rparr>)
      | (Some pItem, h) \<Rightarrow>
          do {
            s \<leftarrow> Execute (NextDecide s) (g_Decision (HASH_VALUE h pItem)) (g_MetaCmd (HASH_VALUE h pItem))
                  (s\<lparr>p_Gaps := h\<rparr>);
            drain_gaps fuel (s\<lparr>p_NextDecide := NextDecide s + 1,
                               p_Gaps := snd (HashRemoveItem (p_Gaps s) (Some pItem))\<rparr>)
          })"

definition ExecUp :: "nat \<Rightarrow> Paxos_t \<Rightarrow> (bool \<times> Paxos_t) option" where
  "ExecUp k s =
     (let s = (if NextK s < k + 1 then set_multi (\<lambda>m. m\<lparr>p_NextK := k + 1\<rparr>) s else s) in
      if CMP (Seq s k) (NextDecide s) < 0 then Some (False, s)
      else
        let s = (if isDefined (InitValue s k) \<and> v_Server (InitValue s k) \<noteq> v_Server (RndValue s k)
                 then emit (FxNotify (PAXOS_MODE (InitValue s k)) PAXOS_REJECTED (Seq s k)
                        (v_Server (InitValue s k)) (v_Epoch (InitValue s k)) (MetaCmdInit s k)
                        (int (MyId s))) s
                 else s)
        in do {
          s \<leftarrow> (if CMP (Seq s k) (NextDecide s) = 0 then
                 let s = s\<lparr>p_NextDecide := NextDecide s + 1\<rparr>;
                     s = (if p_bSuppressAccept s then s\<lparr>p_bSuppressAccept := False\<rparr> else s)
                 in do {
                   s \<leftarrow> Execute (Seq s k) (RndValue s k) (MetaCmdRnd s k) s;
                   drain_gaps (Suc (hash_size (p_Gaps s))) s
                 }
               else
                 Some (s\<lparr>p_Gaps := HashPut (p_Gaps s) (UINT32_PNT (Seq s k))
                   \<lparr>g_Seq = Seq s k, g_Decision = RndValue s k, g_MetaCmd = MetaCmdRnd s k\<rparr>\<rparr>));
          Some (True, set_multi (\<lambda>m. m\<lparr>p_SuccessCount := p_SuccessCount m + 1\<rparr>) s)
        })"

definition Exec :: "env \<Rightarrow> nat \<Rightarrow> Paxos_t \<Rightarrow> Paxos_t option" where
  "Exec E k s =
     do {
       ASSERT (\<not> isEmpty (MetaCmdRnd s k));
       let s = (if p_IssuedLast s \<noteq> 0 \<and> CMP (TO_SEQ (Page s) (NextK s)) (p_CatchupNextDecide s) \<ge> 0
                then s\<lparr>p_IssuedLast := 0, p_CatchupNextDecide := p_IssuedSeq s + 1\<rparr> else s);
       (up, s) \<leftarrow> ExecUp k s;
       Some (if up \<and> PAXOS_MAX \<le> SuccessCount s then UpdatePage E s else s)
     }"

end
