(* ===== verification/Paxos_Catchup.thy ===== *)
theory Paxos_Catchup
  imports Paxos_Exec
begin

text \<open>
  Catch-up, from \<^verbatim>\<open>paxos/src/Paxos.c\<close>: a server that learns of a later decision asks for the
  instances it misses, in windows of at most \<open>PAXOS_FIRE_MAX\<close>; the server that answers holds back
  its accepts until the requester is done.
\<close>

section \<open>The requester\<close>

definition CatchupFire :: "env \<Rightarrow> Paxos_t \<Rightarrow> Paxos_t option" where
  "CatchupFire E s =
     (let seq = (if p_IssuedLast s \<noteq> 0 then p_IssuedSeq s + 1 else NextDecide s) in
      if CMP seq (p_CatchupNextDecide s) \<ge> 0 then Some (s\<lparr>p_IssuedLast := 0\<rparr>)
      else
        let s = (if p_IssuedLast s = 0
                 then s\<lparr>p_IssuedLast := time0 E + cdiv (2 * DT_D s) 1000000\<rparr> else s)
        in if CMP seq (p_CatchupNextDecide s) < 0 then
             let cnt = sint (p_CatchupNextDecide s - seq);
                 cnt = (if cnt > PAXOS_FIRE_MAX then PAXOS_FIRE_MAX else cnt);
                 SeqTo = seq + of_int cnt - 1
             in do {
               j \<leftarrow> p_pCatchupServer s;
               let s = set_srv j (\<lambda>p. p\<lparr>s_IssuedSeq := SeqTo, s_IssuedTime := e_now E\<rparr>) s;
               let s = s\<lparr>p_IssuedLast := p_IssuedLast s + cdiv (DT_L s * cnt) 1000000,
                         p_IssuedSeq := SeqTo\<rparr>;
               Some (send E j (MSG_CATCHUP_REQ
                 \<lparr>c_SeqFrom = seq, c_SeqTo = SeqTo, c_RecvLastDT = DT_D s + DT_L s + DT_L s * cnt\<rparr>) s)
             }
           else Some s)"

definition CatchupRequest :: "env \<Rightarrow> nat \<Rightarrow> u32 \<Rightarrow> Paxos_t \<Rightarrow> Paxos_t option" where
  "CatchupRequest E j nextDecide s =
     (if p_CatchupStop s then Some s
      else if \<not> is_connected (server s j) then Some s
      else if p_IssuedLast s \<noteq> 0 then
        (if p_IssuedLast s < time0 E then
           CatchupFire E (s\<lparr>p_IssuedLast := 0, p_pCatchupServer := Some j,
                           p_CatchupNextDecide := nextDecide\<rparr>)
         else if CMP nextDecide (p_CatchupNextDecide s) > 0 then
           let s = s\<lparr>p_pCatchupServer := Some j, p_CatchupNextDecide := nextDecide\<rparr>
           in if IsTimespecZero (s_IssuedTime (server s j)) then CatchupFire E s else Some s
         else Some s)
      else
        CatchupFire E (s\<lparr>p_pCatchupServer := Some j, p_CatchupNextDecide := nextDecide\<rparr>))"

section \<open>The server that answers\<close>

definition CatchupInstanceRpl ::
  "env \<Rightarrow> nat \<Rightarrow> PaxosMulti_t option \<Rightarrow> u32 \<Rightarrow> Paxos_t \<Rightarrow> int \<times> Paxos_t" where
  "CatchupInstanceRpl E j pMulti seq s =
     (case pMulti of
        Some m \<Rightarrow>
          let k = TO_K seq in
          if p_Mode (m_aPaxos m k) \<noteq> MODE_DECIDED then (-1, s)
          else if isEmpty (c_MetaCmdRnd (m_aMetaCmd m k)) then (-1, s)
          else (0, send E j (MSG_CATCHUP_RPL
                 \<lparr>c_True = True, c_MyNextDecide = NextDecide s, c_Seq = seq,
                  c_PaxosI = m_aPaxos m k, c_MetaCmd = c_MetaCmdRnd (m_aMetaCmd m k)\<rparr>) s)
      | None \<Rightarrow>
          (0, send E j (MSG_CATCHUP_RPL
                 \<lparr>c_True = False, c_MyNextDecide = 0, c_Seq = seq,
                  c_PaxosI = instance_zero, c_MetaCmd = metacmd_zero\<rparr>) s))"

text \<open>One turn of the loop of \<open>server_receive_catchup_req\<close>, and the loop.\<close>

definition catchup_answer :: "env \<Rightarrow> nat \<Rightarrow> u32 \<Rightarrow> bool \<times> Paxos_t \<Rightarrow> bool \<times> Paxos_t" where
  "catchup_answer E j seq fs =
     (case fs of (found, s) \<Rightarrow>
        (case GetPage (TO_PAGE seq) s of
           Some m \<Rightarrow>
             (case CatchupInstanceRpl E j (Some m) seq s of (Ret, s) \<Rightarrow>
                if Ret \<ge> 0 then (True, s)
                else (found, snd (CatchupInstanceRpl E j None seq s)))
         | None \<Rightarrow> (found, snd (CatchupInstanceRpl E j None seq s))))"

lemma sint_lt_32: "- (2 ^ 31) \<le> sint (x :: u32) \<and> sint x < 2 ^ 31"
  using sint_greater_eq [of x] sint_less [of x] by simp

lemma sint_Suc: "sint (x :: u32) \<le> 0 \<Longrightarrow> sint (x + 1) = sint x + 1"
proof -
  assume "sint x \<le> 0"
  then have "- (2 ^ 31) \<le> sint x + 1 \<and> sint x + 1 < 2 ^ 31" using sint_lt_32 [of x] by simp
  then have "signed_take_bit 31 (sint x + 1) = sint x + 1" by (simp add: signed_take_bit_int_eq_self)
  moreover have "x + 1 = word_of_int (sint x + 1)" by simp
  ultimately show ?thesis by (simp only: sint_word_of_int_32)
qed

function catchup_req_loop :: "env \<Rightarrow> nat \<Rightarrow> u32 \<Rightarrow> u32 \<Rightarrow> bool \<times> Paxos_t \<Rightarrow> bool \<times> Paxos_t" where
  "catchup_req_loop E j SeqTo seq fs =
     (let fs = catchup_answer E j seq fs in
      if CMP (seq + 1) SeqTo \<le> 0 then catchup_req_loop E j SeqTo (seq + 1) fs else fs)"
  by pat_completeness auto
termination
proof (relation "measure (\<lambda>(E, j, SeqTo, seq, fs).
    if CMP seq SeqTo \<le> 0 then nat (- CMP seq SeqTo) else 2 ^ 31 + 1)", goal_cases)
  case (2 E j SeqTo seq fs x)
  show ?case
  proof (cases "CMP seq SeqTo \<le> 0")
    case True
    then have "CMP (seq + 1) SeqTo = CMP seq SeqTo + 1"
      unfolding CMP_def using sint_Suc [of "seq - SeqTo"] by (simp add: algebra_simps)
    with 2 True show ?thesis by simp
  next
    case False
    with 2 sint_lt_32 [of "seq + 1 - SeqTo"] show ?thesis by (simp add: CMP_def)
  qed
qed simp

declare catchup_req_loop.simps [simp del]

definition server_receive_catchup_req :: "env \<Rightarrow> int \<Rightarrow> msg_catchup_req_t \<Rightarrow> Paxos_t \<Rightarrow> Paxos_t option" where
  "server_receive_catchup_req E fr pReq s =
     do {
       j \<leftarrow> srv_index s fr;
       let (found, s) = catchup_req_loop E j (c_SeqTo pReq) (c_SeqFrom pReq) (False, s);
       Some (if found then
               let s = s\<lparr>p_CatchupRecvServer := fr\<rparr>;
                   Last = TimespecAddUsec (e_now E) (c_RecvLastDT pReq)
               in if TIMESPECCOMPARE Last (p_CatchupRecvLast s) > 0
                  then s\<lparr>p_CatchupRecvLast := Last\<rparr> else s
             else s)
     }"

text \<open>
  The accepts held back: each instance that is not decided and was suppressed gets its accept sent
  to the proposer of its ballot.
\<close>

definition accept_of :: "Paxos_t \<Rightarrow> nat \<Rightarrow> msg_accept_t" where
  "accept_of s k = \<lparr>a_Page = Page s, a_k = int k, a_round = RndBallot s k,
     a_Value = RndValue s k, a_MetaCmd = MetaCmdRnd s k\<rparr>"

definition release_one :: "env \<Rightarrow> nat \<Rightarrow> Paxos_t \<Rightarrow> Paxos_t option" where
  "release_one E k s =
     (if PMode s k \<noteq> MODE_DECIDED \<and> Suppressed s k then do {
        j \<leftarrow> srv_index s (uint (r_id (RndBallot s k)));
        let pm = MSG_ACCEPT (accept_of s k);
        Some (send E j pm (set_inst k (\<lambda>p. p\<lparr>p_Suppressed := False\<rparr>) s))
      } else Some s)"

definition release_suppressed_accept :: "env \<Rightarrow> Paxos_t \<Rightarrow> Paxos_t option" where
  "release_suppressed_accept E s =
     for_each (release_one E) [0..<PAXOS_MAX] (s\<lparr>p_CatchupRecvLast := timespec_zero\<rparr>)"

definition server_receive_catchup_end :: "env \<Rightarrow> int \<Rightarrow> Paxos_t \<Rightarrow> Paxos_t option" where
  "server_receive_catchup_end E fr s =
     (if fr = p_CatchupRecvServer s then release_suppressed_accept E s else Some s)"

section \<open>The answers\<close>

text \<open>
  A negative answer kills the process when the instance is still needed and no other server has
  been asked; otherwise the code goes on with the (zero) instance of the answer.
\<close>

definition catchup_asked_other :: "int \<Rightarrow> Paxos_t \<Rightarrow> bool" where
  "catchup_asked_other fr s =
     list_ex (\<lambda>j. int j \<noteq> fr \<and> \<not> IsTimespecZero (s_IssuedTime (server s j))) [0..<p_Maximum s]"

definition catchup_finish :: "env \<Rightarrow> nat \<Rightarrow> Paxos_t \<Rightarrow> Paxos_t" where
  "catchup_finish E j s =
     (if IsTimespecZero (s_IssuedTime (server s j)) then s
      else let s = set_srv j (\<lambda>p. p\<lparr>s_IssuedTime := timespec_zero\<rparr>) s
           in PaxosSend E j (msg_alloc s (int j) MSG_CATCHUP_END) s)"

text \<open>The instance of an answer is installed as decided and executed.\<close>

definition catchup_install :: "env \<Rightarrow> nat \<Rightarrow> value_t \<Rightarrow> MetaCmd_t \<Rightarrow> Paxos_t \<Rightarrow> Paxos_t option" where
  "catchup_install E k pRndValue pC s =
     (let s = set_inst k (\<lambda>p. p\<lparr>p_Mode := MODE_DECIDED,
            p_RndValue := pRndValue\<lparr>v_From := int (MyId s),
              v_Flags := v_Flags pRndValue OR VALUE_CATCHUP\<rparr>\<rparr>) s;
          s = set_cmds k (\<lambda>c. c\<lparr>c_MetaCmdRnd := pC\<rparr>) s
      in Exec E k s)"

definition server_receive_catchup_rpl :: "env \<Rightarrow> int \<Rightarrow> msg_catchup_rpl_t \<Rightarrow> Paxos_t \<Rightarrow> Paxos_t option" where
  "server_receive_catchup_rpl E fr pRpl s =
     (if \<not> c_True pRpl \<and> catchup_asked_other fr s then Some s
      else if \<not> c_True pRpl \<and> CMP (NextDecide s) (c_Seq pRpl) \<le> 0 then None
      else
        let page = TO_PAGE (c_Seq pRpl); k = TO_K (c_Seq pRpl);
            pRndValue = p_RndValue (c_PaxosI pRpl); pC = c_MetaCmd pRpl
        in do {
          (go, s) \<leftarrow>
            (if Page s = page then
               let s = s\<lparr>p_CatchupPageLast := 0\<rparr> in
               if PMode s k \<noteq> MODE_DECIDED then
                 (case PaxosValidate E PAXOS_MODE_CATCHUP (Seq s k) pRndValue pC s of (Ret, s) \<Rightarrow>
                    if Ret \<noteq> 0 then Some (False, s)
                    else do { s \<leftarrow> catchup_install E k pRndValue pC s; Some (True, s) })
               else Some (True, s)
             else Some (True, s));
          if \<not> go then Some s
          else if CMP (c_Seq pRpl) (p_CatchupNextDecide s - 1) \<ge> 0 then
            Some (fold (catchup_finish E) [0..<p_Max s] (s\<lparr>p_IssuedLast := 0\<rparr>))
          else if p_IssuedLast s \<noteq> 0 \<and> CMP (c_Seq pRpl) (p_IssuedSeq s) = 0 then CatchupFire E s
          else Some s
        })"

definition PaxosAutonomic :: "env \<Rightarrow> nat \<Rightarrow> Paxos_t \<Rightarrow> Paxos_t" where
  "PaxosAutonomic E j s = set_srv j (\<lambda>p. p\<lparr>s_AutonomicLast := time0 E + DT_AUTONOMIC_SEC\<rparr>) s"

end
