(* ===== verification/Paxos_Round.thy ===== *)
theory Paxos_Round
  imports Paxos_Catchup
begin

text \<open>
  The rounds, from \<^verbatim>\<open>paxos/src/Paxos.c\<close>. The leader collects the state of a majority in a new
  round (\<open>NewRound\<close>, \<open>GatherLast\<close>), proposes the strongest value of every instance (\<open>BeginCast\<close>)
  and decides when a majority that includes itself has accepted (\<open>GatherAccept\<close>); the agents
  answer (\<open>RecvCollect\<close>, \<open>RecvBegin\<close>) and learn decisions (\<open>RecvSuccess\<close>).
\<close>

text \<open>\<open>quorum_add\<close> shifts by the number a message carries; the shift is defined below 32.\<close>

definition bit_index :: "int \<Rightarrow> nat option" where
  "bit_index j = (if 0 \<le> j \<and> j < 32 then Some (nat j) else None)"

section \<open>The leader\<close>

definition Continue :: "nat \<Rightarrow> Paxos_t \<Rightarrow> (bool \<times> Paxos_t) option" where
  "Continue k s =
     (if \<not> isMyRnd s \<or> PMode s k \<noteq> MODE_NONE then Some (False, s)
      else do {
        ASSERT (\<not> isEmpty (MetaCmdInit s k));
        let s = set_inst k (\<lambda>p. p\<lparr>p_RndValue := (p_InitValue p)\<lparr>v_Epoch := Epoch s\<rparr>\<rparr>) s;
        let s = set_cmds k (\<lambda>c. c\<lparr>c_MetaCmdRnd := c_MetaCmdInit c\<rparr>) s;
        Some (True, set_inst k (\<lambda>p. p\<lparr>p_Mode := MODE_BEGINCAST\<rparr>) s)
      })"

text \<open>The first loop of \<open>NewRound\<close>: an initial proposal enters with the weakest ballot.\<close>

definition newround_propose :: "nat \<Rightarrow> Paxos_t \<Rightarrow> Paxos_t option" where
  "newround_propose k s =
     (if PMode s k = MODE_NONE \<and> isDefined (InitValue s k) then do {
        ASSERT (\<not> isEmpty (MetaCmdInit s k));
        let s = set_inst k (\<lambda>p. p\<lparr>p_Mode := MODE_WAIT,
              p_RndValue := (p_InitValue p)\<lparr>v_Epoch := Epoch s\<rparr>,
              p_RndBallot := \<lparr>r_id = of_nat (MyId s), r_seq = 0\<rparr>\<rparr>) s;
        Some (set_cmds k (\<lambda>c. c\<lparr>c_MetaCmdRnd := c_MetaCmdInit c\<rparr>) s)
      } else Some s)"

definition collect_entry :: "Paxos_t \<Rightarrow> nat \<Rightarrow> msg_paxos_t" where
  "collect_entry s k =
     (if PMode s k = MODE_DECIDED
      then msg_paxos_zero\<lparr>mp_mode := MODE_MSG_DECIDED, mp_value := RndValue s k\<rparr>
      else if PMode s k \<noteq> MODE_NONE
      then \<lparr>mp_mode = MODE_MSG_PROPOSED, mp_round = RndBallot s k, mp_value = RndValue s k\<rparr>
      else msg_paxos_zero)"

definition newround_collect :: "env \<Rightarrow> nat \<Rightarrow> Paxos_t \<Rightarrow> Paxos_t" where
  "newround_collect E j s =
     (if j = MyId s then
        let s = set_multi (\<lambda>m. m\<lparr>l_RndInfQuo := snd (quorum_add (l_RndInfQuo m) (MyId s))\<rparr>) s
        in (if p_Max s = 1 then set_multi (\<lambda>m. m\<lparr>l_Mode := MODE_BEGINCAST\<rparr>) s else s)
      else send E j (MSG_COLLECT
        \<lparr>c_CurRnd = CurRnd s, c_NextDecide = NextDecide s, c_BackPage = BackPage s,
         c_Page = Page s, c_NextK = NextK s, c_paxos = collect_entry s\<rparr>) s)"

definition NewRound :: "env \<Rightarrow> Paxos_t \<Rightarrow> Paxos_t option" where
  "NewRound E s =
     (if AMode s \<noteq> MODE_NONE then Some s
      else do {
        let s = set_multi (\<lambda>m. m\<lparr>l_CurRnd :=
              \<lparr>r_id = of_nat (MyId s), r_seq = SEQ_INC (r_seq (l_CurRnd m))\<rparr>\<rparr>) s;
        s \<leftarrow> for_each newround_propose [0..<PAXOS_MAX] s;
        let s = set_multi (\<lambda>m. m\<lparr>l_Mode := MODE_GATHERLAST\<rparr>) s;
        let s = s\<lparr>p_NewRoundLast := time0 E + DT_NEWROUND s\<rparr>;
        let s = set_multi (\<lambda>m. m\<lparr>l_RndInfQuo := quorum_init (int (p_Max s))\<rparr>) s;
        Some (fold (newround_collect E) [0..<p_Max s] s)
      })"

definition begin_self :: "nat \<Rightarrow> nat \<Rightarrow> Round_t \<Rightarrow> Paxos_t \<Rightarrow> Paxos_t" where
  "begin_self k j pCurRnd s = set_inst k (\<lambda>p. p\<lparr>p_RndBallot := pCurRnd,
     p_RndAccQuo := snd (quorum_add (p_RndAccQuo p) j)\<rparr>) s"

definition SendBeginCast_to :: "env \<Rightarrow> nat \<Rightarrow> int \<Rightarrow> Round_t \<Rightarrow> nat \<Rightarrow> Paxos_t \<Rightarrow> Paxos_t" where
  "SendBeginCast_to E k To pCurRnd j s =
     (if int (MyId s) = To \<and> j = MyId s \<and> \<not> p_bPageSuppress s \<and> IsTimespecZero (p_CatchupRecvLast s)
      then begin_self k (MyId s) pCurRnd s
      else send E j (MSG_BEGIN
        \<lparr>b_To = To, b_NextDecide = NextDecide s, b_BackPage = BackPage s, b_Page = Page s,
         b_NextK = NextK s, b_k = int k, b_CurRnd = pCurRnd,
         b_Value = (RndValue s k)\<lparr>v_From := int (MyId s)\<rparr>, b_MetaCmd = MetaCmdRnd s k\<rparr>) s)"

definition SendBeginCast :: "env \<Rightarrow> nat \<Rightarrow> int \<Rightarrow> Round_t \<Rightarrow> Paxos_t \<Rightarrow> Paxos_t option" where
  "SendBeginCast E k To pCurRnd s =
     do {
       ASSERT (\<not> isEmpty (MetaCmdRnd s k));
       Some (fold (SendBeginCast_to E k To pCurRnd) [0..<p_Max s] s)
     }"

text \<open>\<open>value_normal\<close>: \<open>RndValue( k ).v_Flags |= VALUE_NORMAL\<close>.\<close>

definition value_normal :: "value_t \<Rightarrow> value_t" where
  "value_normal v = v\<lparr>v_Flags := v_Flags v OR VALUE_NORMAL\<rparr>"

definition BeginCast :: "env \<Rightarrow> nat \<Rightarrow> Paxos_t \<Rightarrow> Paxos_t option" where
  "BeginCast E k s =
     (if PMode s k \<noteq> MODE_BEGINCAST then Some s
      else do {
        s \<leftarrow> (if v_From (RndValue s k) \<noteq> int (MyId s) then do {
                j \<leftarrow> srv_index s (v_From (RndValue s k));
                Some (send E j (MSG_BEGIN_REDIRECT
                  \<lparr>b_To = int (MyId s), b_NextDecide = 0, b_BackPage = 0, b_Page = Page s, b_NextK = 0,
                   b_k = int k, b_CurRnd = CurRnd s, b_Value = RndValue s k, b_MetaCmd = metacmd_zero\<rparr>) s)
              } else SendBeginCast E k (int (MyId s)) (CurRnd s) s);
        let s = set_inst k (\<lambda>p. p\<lparr>p_Mode := MODE_GATHERACCEPT,
              p_Deadline := TimespecAddUsec (e_now E) (DT_SUCCESS s)\<rparr>) s;
        if p_Max s = 1 then
          Exec E k (set_inst k (\<lambda>p. p\<lparr>p_Mode := MODE_DECIDED, p_RndValue := value_normal (p_RndValue p)\<rparr>) s)
        else Some s
      })"

definition BeginCastRedirect :: "env \<Rightarrow> msg_begin_t \<Rightarrow> Paxos_t \<Rightarrow> Paxos_t option" where
  "BeginCastRedirect E pb s =
     do {
       ASSERT (Page s = b_Page pb);
       k \<leftarrow> k_index (b_k pb);
       let (Ret, s) = PaxosValidate E PAXOS_MODE_REDIRECT (Seq s k) (RndValue s k) (MetaCmdRnd s k) s;
       ASSERT (Ret = 0);
       SendBeginCast E k (b_To pb) (b_CurRnd pb) s
     }"

text \<open>What one entry of a \<open>MSG_LAST\<close> does: ask for a decision, or keep the strongest proposal.\<close>

definition adopt :: "msg_paxos_t \<Rightarrow> PaxosInstance_t \<Rightarrow> PaxosInstance_t" where
  "adopt lp p =
     (if CMP_ROUND (p_RndBallot p) (mp_round lp) \<le> 0 \<and> isDefined (mp_value lp) then
        p\<lparr>p_RndValue := (if p_Mode p = MODE_NONE \<or> v_Server (p_RndValue p) \<noteq> v_Server (mp_value lp)
                         then mp_value lp else p_RndValue p),
          p_RndBallot := mp_round lp,
          p_Mode := MODE_WAIT\<rparr>
      else p)"

definition gather_entry :: "env \<Rightarrow> nat \<Rightarrow> msg_last_t \<Rightarrow> nat \<Rightarrow> Paxos_t \<Rightarrow> Paxos_t option" where
  "gather_entry E j pml k s =
     do {
       s \<leftarrow> (if mp_mode (l_paxos pml k) = MODE_MSG_DECIDED \<and> PMode s k \<noteq> MODE_DECIDED
             then CatchupRequest E j (l_NextDecide pml) s else Some s);
       Some (if mp_mode (l_paxos pml k) = MODE_MSG_PROPOSED \<and> PMode s k \<noteq> MODE_DECIDED
             then set_inst k (adopt (l_paxos pml k)) s else s)
     }"

definition gather_ready :: "nat \<Rightarrow> Paxos_t \<Rightarrow> Paxos_t" where
  "gather_ready k s =
     (if PMode s k \<noteq> MODE_NONE then
        let s = set_multi (\<lambda>m. m\<lparr>p_NextK := k + 1\<rparr>) s
        in (if PMode s k \<noteq> MODE_DECIDED then set_inst k (\<lambda>p. p\<lparr>p_Mode := MODE_BEGINCAST\<rparr>) s else s)
      else s)"

definition GatherLast :: "env \<Rightarrow> int \<Rightarrow> msg_last_t \<Rightarrow> Paxos_t \<Rightarrow> Paxos_t option" where
  "GatherLast E fr pml s =
     (if AMode s \<noteq> MODE_GATHERLAST then Some s
      else if CMP_ROUND (l_round pml) (CurRnd s) \<noteq> 0 then Some s
      else do {
        j \<leftarrow> srv_index s fr;
        j \<leftarrow> bit_index (int j);
        let s = set_multi (\<lambda>m. m\<lparr>l_RndInfQuo := snd (quorum_add (l_RndInfQuo m) j)\<rparr>) s;
        s \<leftarrow> (if CMP (l_Page pml) (Page s) = 0
              then for_each (gather_entry E j pml) [0..<PAXOS_MAX] s else Some s);
        if quorum_majority (RndInfQuo s) then do {
          let s = set_election (\<lambda>e. e\<lparr>e_NewRndStart := False\<rparr>) s;
          let s = fold gather_ready [0..<PAXOS_MAX] s;
          let s = set_multi (\<lambda>m. m\<lparr>l_Mode := MODE_BEGINCAST\<rparr>) s;
          s \<leftarrow> for_each (BeginCast E) [0..<PAXOS_MAX] s;
          Some (emit FxBroadcast s)
        } else Some s
      })"

definition SendSuccess :: "env \<Rightarrow> nat \<Rightarrow> Paxos_t \<Rightarrow> Paxos_t option" where
  "SendSuccess E k s =
     (if PMode s k \<noteq> MODE_DECIDED then Some s
      else do {
        ASSERT (\<not> isEmpty (MetaCmdRnd s k));
        Some (fold (\<lambda>j s. if j = MyId s then s else send E j (MSG_SUCCESS
            \<lparr>sc_BackPage = BackPage s, sc_NextDecide = NextDecide s, sc_Page = Page s,
             sc_NextK = NextK s, sc_k = int k, sc_Value = RndValue s k, sc_MetaCmd = MetaCmdRnd s k\<rparr>) s)
          [0..<p_Maximum s] s)
      })"

text \<open>
  A leader that has the proposal but not its command takes the command of the accept; then the
  accept is counted.
\<close>

definition accept_command :: "env \<Rightarrow> msg_accept_t \<Rightarrow> nat \<Rightarrow> Paxos_t \<Rightarrow> bool \<times> Paxos_t" where
  "accept_command E pm k s =
     (if isEmpty (MetaCmdRnd s k) then
        (case PaxosValidate E PAXOS_MODE_ACCEPT (Seq s k) (a_Value pm) (a_MetaCmd pm) s of (Ret, s) \<Rightarrow>
           if Ret \<noteq> 0 then (False, s)
           else (True, set_inst k (\<lambda>p. p\<lparr>p_RndValue := (p_RndValue p)\<lparr>v_From := int (MyId s)\<rparr>\<rparr>)
                  (set_cmds k (\<lambda>c. c\<lparr>c_MetaCmdRnd := a_MetaCmd pm\<rparr>) s)))
      else (True, s))"

definition accept_count :: "env \<Rightarrow> int \<Rightarrow> nat \<Rightarrow> Paxos_t \<Rightarrow> Paxos_t option" where
  "accept_count E fr k s =
     do {
       j \<leftarrow> bit_index fr;
       let s = set_inst k (\<lambda>p. p\<lparr>p_RndAccQuo := snd (quorum_add (p_RndAccQuo p) j)\<rparr>) s;
       if quorum_exist (RndAccQuo s k) (MyId s) \<and> quorum_majority (RndAccQuo s k) then do {
         let s = set_inst k (\<lambda>p. p\<lparr>p_Mode := MODE_DECIDED\<rparr>) s;
         ASSERT (v_From (RndValue s k) = int (MyId s));
         s \<leftarrow> SendSuccess E k s;
         Exec E k (set_inst k (\<lambda>p. p\<lparr>p_RndValue := value_normal (p_RndValue p)\<rparr>) s)
       } else Some s
     }"

definition GatherAccept :: "env \<Rightarrow> int \<Rightarrow> msg_accept_t \<Rightarrow> Paxos_t \<Rightarrow> Paxos_t option" where
  "GatherAccept E fr pm s =
     (if CMP_ROUND (CurRnd s) (a_round pm) \<noteq> 0 \<or> CMP (Page s) (a_Page pm) \<noteq> 0 then Some s
      else do {
        k \<leftarrow> k_index (a_k pm);
        if PMode s k \<noteq> MODE_GATHERACCEPT then Some s
        else (case accept_command E pm k s of (go, s) \<Rightarrow>
          if \<not> go then Some s else accept_count E fr k s)
      })"

definition GatherOldRound :: "msg_oldround_t \<Rightarrow> Paxos_t \<Rightarrow> Paxos_t" where
  "GatherOldRound pm s =
     (if CMP_ROUND (CurRnd s) (o_commit pm) \<ge> 0 then s
      else set_multi (\<lambda>m. m\<lparr>l_CurRnd := o_commit pm, l_Mode := MODE_NONE\<rparr>) s)"

definition CheckRndSuccessAndNewRound :: "env \<Rightarrow> Paxos_t \<Rightarrow> Paxos_t option" where
  "CheckRndSuccessAndNewRound E s =
     (if \<not> IamMaster s then Some s
      else
        let again = NewRound E (set_multi (\<lambda>m. m\<lparr>l_Mode := MODE_NONE\<rparr>) s) in
        if isMyRnd s then
          (if list_ex (\<lambda>k. \<not> IsTimespecZero (Deadline s k)
                 \<and> TIMESPECCOMPARE (e_now E) (Deadline s k) > 0
                 \<and> PMode s k \<noteq> MODE_DECIDED) [0..<PAXOS_MAX]
           then again else Some s)
        else if AMode s \<noteq> MODE_GATHERLAST \<or> p_NewRoundLast s < time0 E then again else Some s)"

end
