(* ===== verification/Paxos_Agent.thy ===== *)
theory Paxos_Agent
  imports Paxos_Round
begin

text \<open>
  The agent of \<^verbatim>\<open>paxos/src/Paxos.c\<close>: the answers to a collect, a begin and a success. A reply
  under construction is carried beside the state, as the code fills its message in the loop.
\<close>

section \<open>Collect\<close>

text \<open>The leader is behind: it gets the decisions of the page it asks for.\<close>

definition collect_old :: "env \<Rightarrow> nat \<Rightarrow> PaxosMulti_t \<Rightarrow> nat
    \<Rightarrow> (nat \<Rightarrow> msg_paxos_t) \<times> Paxos_t \<Rightarrow> ((nat \<Rightarrow> msg_paxos_t) \<times> Paxos_t) option" where
  "collect_old E j m k ls =
     (case ls of (lp, s) \<Rightarrow> do {
        ASSERT (p_Mode (m_aPaxos m k) = MODE_DECIDED);
        Some (lp(k := (lp k)\<lparr>mp_mode := MODE_MSG_DECIDED, mp_value := p_RndValue (m_aPaxos m k)\<rparr>),
              snd (CatchupInstanceRpl E j (Some m) (TO_SEQ (p_Page m) k) s))
      })"

text \<open>The agent has a proposal of its own for the instance and answers with the stronger one.\<close>

definition last_proposal :: "Paxos_t \<Rightarrow> nat \<Rightarrow> msg_paxos_t \<Rightarrow> msg_paxos_t" where
  "last_proposal s k cp =
     (if PMode s k \<noteq> MODE_NONE \<and>
         (mp_mode cp = MODE_MSG_NONE \<or>
          (mp_mode cp = MODE_MSG_PROPOSED \<and> CMP_ROUND (mp_round cp) (RndBallot s k) \<le> 0))
      then \<lparr>mp_mode = MODE_MSG_PROPOSED, mp_round = RndBallot s k,
            mp_value = (if \<not> isEmpty (MetaCmdRnd s k)
                        then (RndValue s k)\<lparr>v_From := int (MyId s)\<rparr> else RndValue s k)\<rparr>
      else cp)"

definition collect_same :: "env \<Rightarrow> nat \<Rightarrow> msg_collect_t \<Rightarrow> nat
    \<Rightarrow> (nat \<Rightarrow> msg_paxos_t) \<times> Paxos_t \<Rightarrow> ((nat \<Rightarrow> msg_paxos_t) \<times> Paxos_t) option" where
  "collect_same E j pmc k ls =
     (case ls of (lp, s) \<Rightarrow>
        if mp_mode (c_paxos pmc k) = MODE_MSG_DECIDED then
          (if PMode s k \<noteq> MODE_DECIDED
           then do { s \<leftarrow> CatchupRequest E j (c_NextDecide pmc) s; Some (lp, s) }
           else Some (lp, s))
        else if PMode s k = MODE_DECIDED then do {
          ASSERT (\<not> isEmpty (MetaCmdRnd s k));
          Some (lp(k := (lp k)\<lparr>mp_mode := MODE_MSG_DECIDED, mp_value := RndValue s k\<rparr>),
                snd (CatchupInstanceRpl E j (Some (p_Multi s)) (TO_SEQ (Page s) k) s))
        }
        else Some (lp(k := last_proposal s k (c_paxos pmc k)), s))"

definition RecvCollect :: "env \<Rightarrow> int \<Rightarrow> msg_collect_t \<Rightarrow> Paxos_t \<Rightarrow> Paxos_t option" where
  "RecvCollect E fr pmc s =
     do {
       j \<leftarrow> srv_index s fr;
       let r = c_CurRnd pmc;
       if CMP_ROUND (CurRnd s) r \<le> 0 then do {
         let s = set_multi (\<lambda>m. m\<lparr>l_CurRnd := r\<rparr>) s;
         let last = (\<lambda>page lp. MSG_LAST
               \<lparr>l_round = r, l_NextDecide = NextDecide s, l_Page = page, l_paxos = lp\<rparr>);
         let lp = (\<lambda>_. msg_paxos_zero);
         if CMP (c_Page pmc) (Page s) < 0 then
           (case GetPage (c_Page pmc) s of
              None \<Rightarrow> Some s
            | Some m \<Rightarrow> do {
                (lp, s) \<leftarrow> for_each (collect_old E j m) [0..<PAXOS_MAX] (lp, s);
                Some (send E j (last (p_Page m) lp) s)
              })
         else if CMP (c_Page pmc) (Page s) > 0 then do {
           s \<leftarrow> (if CMP (c_BackPage pmc) (Page s) \<le> 0
                 then CatchupRequest E j (c_NextDecide pmc) (s\<lparr>p_IssuedLast := 0\<rparr>) else Some s);
           Some (send E j (last (Page s) lp) s)
         }
         else do {
           (lp, s) \<leftarrow> for_each (collect_same E j pmc) [0..<PAXOS_MAX] (lp, s);
           Some (send E j (last (Page s) lp) s)
         }
       }
       else Some (send E j (MSG_OLDROUND \<lparr>o_round = r, o_commit = CurRnd s\<rparr>) s)
     }"

section \<open>Begin\<close>

definition accept_held :: "env \<Rightarrow> Paxos_t \<Rightarrow> bool" where
  "accept_held E s \<longleftrightarrow>
     p_bPageSuppress s \<or>
     (\<not> IsTimespecZero (p_CatchupRecvLast s) \<and> TIMESPECCOMPARE (e_now E) (p_CatchupRecvLast s) < 0)"

definition RecvBegin :: "env \<Rightarrow> int \<Rightarrow> msg_begin_t \<Rightarrow> Paxos_t \<Rightarrow> Paxos_t option" where
  "RecvBegin E fr pmb s =
     (if p_bSuppressAccept s then Some s
      else do {
        j \<leftarrow> srv_index s fr;
        ja \<leftarrow> srv_index s (b_To pmb);
        if CMP_ROUND (b_CurRnd pmb) (CurRnd s) \<ge> 0 then
          (if CMP (Page s) (b_Page pmb) < 0 then
             (if CMP (b_BackPage pmb) (Page s) \<le> 0
              then CatchupRequest E j (b_NextDecide pmb) s else Some s)
           else if CMP (Page s) (b_Page pmb) > 0 then Some s
           else do {
             k \<leftarrow> k_index (b_k pmb);
             if PMode s k = MODE_DECIDED then Some s
             else do {
               ASSERT (\<not> isEmpty (b_MetaCmd pmb));
               let (Ret, s) = PaxosValidate E PAXOS_MODE_BEGIN (Seq s k) (b_Value pmb) (b_MetaCmd pmb) s;
               if Ret \<noteq> 0 then Some (send E ja MSG_TEST_NEWROUND s)
               else do {
                 let s = set_inst k (\<lambda>p. p\<lparr>
                       p_Mode := (if p_Mode p = MODE_NONE then MODE_WAIT else p_Mode p),
                       p_RndBallot := b_CurRnd pmb,
                       p_RndValue := (b_Value pmb)\<lparr>v_From := int (MyId s)\<rparr>\<rparr>) s;
                 let s = set_cmds k (\<lambda>c. c\<lparr>c_MetaCmdRnd := b_MetaCmd pmb\<rparr>) s;
                 if accept_held E s
                 then Some (set_inst k (\<lambda>p. p\<lparr>p_Suppressed := True\<rparr>) s)
                 else Some (send E ja (MSG_ACCEPT (accept_of s k)) s)
               }
             }
           })
        else Some (send E ja (MSG_OLDROUND \<lparr>o_round = b_CurRnd pmb, o_commit = CurRnd s\<rparr>) s)
      })"

section \<open>Success\<close>

text \<open>The value and the command of a success are installed as decided and executed.\<close>

definition success_install :: "env \<Rightarrow> nat \<Rightarrow> msg_success_t \<Rightarrow> Paxos_t \<Rightarrow> Paxos_t option" where
  "success_install E k pS s =
     (let s = set_inst k (\<lambda>p. p\<lparr>p_Mode := MODE_DECIDED,
            p_RndValue := value_normal ((sc_Value pS)\<lparr>v_From := int (MyId s)\<rparr>)\<rparr>) s;
          s = set_cmds k (\<lambda>c. c\<lparr>c_MetaCmdRnd := sc_MetaCmd pS\<rparr>) s
      in Exec E k s)"

definition RecvSuccess :: "env \<Rightarrow> int \<Rightarrow> msg_success_t \<Rightarrow> Paxos_t \<Rightarrow> Paxos_t option" where
  "RecvSuccess E fr pS s =
     do {
       j \<leftarrow> srv_index s fr;
       ASSERT (\<not> isEmpty (sc_MetaCmd pS));
       if CMP (Page s) (sc_Page pS) < 0 then
         (if CMP (sc_BackPage pS) (Page s) \<le> 0
          then CatchupRequest E j (sc_NextDecide pS) s else Some s)
       else if CMP (Page s) (sc_Page pS) > 0 then Some s
       else do {
         k \<leftarrow> k_index (sc_k pS);
         if PMode s k = MODE_DECIDED then Some s
         else do {
           let (Ret, s) =
             (if \<not> isSameValue (sc_Value pS) (RndValue s k)
              then PaxosValidate E PAXOS_MODE_SUCCESS (Seq s k) (sc_Value pS) (sc_MetaCmd pS) s
              else (0, s));
           if Ret \<noteq> 0 then Some s else success_install E k pS s
         }
       }
     }"

end
