(* ===== verification/Paxos_Election.thy ===== *)
theory Paxos_Election
  imports Paxos_Catchup
begin

text \<open>
  The election of the master by heartbeats, from \<^verbatim>\<open>paxos/src/Paxos.c\<close>: every server votes for the
  oldest server it hears when it hears a majority, the heartbeat carries the votes, and a server
  with the votes of a majority is the master. The connection to a server is up while its
  heartbeat returns a recent token.
\<close>

section \<open>Votes\<close>

text \<open>
  \<open>votes[i]++\<close> for the leader a server names; a name that is not below \<open>p_Max\<close> is outside the
  array.
\<close>

definition count_vote :: "Paxos_t \<Rightarrow> nat \<Rightarrow> (nat \<Rightarrow> int) \<Rightarrow> (nat \<Rightarrow> int) option" where
  "count_vote s j votes =
     (if j \<noteq> MyId s \<and> \<not> is_connected (server s j) then Some votes
      else
        let i = (if j = MyId s then ELeader s else s_leader (server s j)) in
        if i < 0 then Some votes
        else if i < int (p_Max s) then Some (votes(nat i := votes (nat i) + 1))
        else None)"

definition elected_of :: "Paxos_t \<Rightarrow> (nat \<Rightarrow> int) \<Rightarrow> nat option" where
  "elected_of s votes = List.find (\<lambda>j. votes j \<ge> int (p_Max s div 2 + 1)) [0..<p_Max s]"

text \<open>\<open>ElectLeader\<close> after the votes are counted.\<close>

definition elect_win :: "int \<Rightarrow> nat \<Rightarrow> Paxos_t \<Rightarrow> Paxos_t" where
  "elect_win ID j s =
     (let s = set_election (\<lambda>e. e\<lparr>e_Elected := int j\<rparr>) s;
          s = (if j = MyId s then
                 (if \<not> IamMaster s then
                    let s = set_election (\<lambda>e. e\<lparr>e_Epoch := SEQ_INC (e_Epoch e), e_IamMaster := True,
                              e_NewRndStart := True\<rparr>) s
                    in emit (FxElection PAXOS_Im_MASTER (int (MyId s)) (Epoch s) ID) s
                  else s)
               else
                 (if IamMaster s then
                    let s = set_election (\<lambda>e. e\<lparr>e_IamMaster := False, e_NewRndStart := False\<rparr>) s
                    in emit (FxElection PAXOS_Im_NOT_MASTER (Elected s) (Epoch s) ID) s
                  else s))
      in emit (FxElection PAXOS_MASTER_ELECTED (Elected s) (Epoch s) ID) s)"

definition elect_lose :: "env \<Rightarrow> int \<Rightarrow> Paxos_t \<Rightarrow> Paxos_t" where
  "elect_lose E ID s =
     (let s = (if Elected s \<ge> 0
               then emit (FxElection PAXOS_MASTER_CANCELED (Elected s) (Epoch s) ID) s else s);
          s = set_election (\<lambda>e. e\<lparr>e_Elected := -1\<rparr>) s
      in if IamMaster s then
           let s = set_election (\<lambda>e. e\<lparr>e_Birth := e_now E, e_IamMaster := False,
                     e_NewRndStart := False\<rparr>) s
           in emit (FxElection PAXOS_Im_NOT_MASTER (Elected s) (Epoch s) ID) s
         else s)"

definition ElectLeader :: "env \<Rightarrow> nat \<Rightarrow> Paxos_t \<Rightarrow> (bool \<times> Paxos_t) option" where
  "ElectLeader E js s =
     do {
       votes \<leftarrow> for_each (count_vote s) [0..<p_Max s] (\<lambda>_. 0);
       Some (case elected_of s votes of
               Some j \<Rightarrow> (True, elect_win (s_ID (server s js)) j s)
             | None \<Rightarrow> (False, elect_lose E (s_ID (server s js)) s))
     }"

text \<open>The choice of \<open>MyVote\<close>: the number of servers heard, the candidate and its birth.\<close>

definition vote_step :: "Paxos_t \<Rightarrow> nat \<Rightarrow> nat \<times> int \<times> timespec \<Rightarrow> nat \<times> int \<times> timespec" where
  "vote_step s i v =
     (case v of (majority, leader, tElection) \<Rightarrow>
        if i = MyId s then
          (if leader < 0 \<or> TIMESPECCOMPARE (EBirth s) tElection < 0
           then (majority + 1, int (MyId s), EBirth s) else (majority + 1, leader, tElection))
        else if is_connected (server s i) then
          (if leader < 0 \<or> TIMESPECCOMPARE (s_Election (server s i)) tElection < 0
           then (majority + 1, s_ID (server s i), s_Election (server s i))
           else (majority + 1, leader, tElection))
        else (majority, leader, tElection))"

definition my_choice :: "Paxos_t \<Rightarrow> int" where
  "my_choice s =
     (case fold (vote_step s) [0..<p_Max s] (0, -1, timespec_zero) of (majority, leader, tElection) \<Rightarrow>
        if majority < p_Max s div 2 + 1 then -1 else leader)"

definition MyVote :: "Paxos_t \<Rightarrow> bool \<times> Paxos_t" where
  "MyVote s =
     (let leader = my_choice s;
          Changed = (ELeader s \<noteq> leader);
          s = (if Changed then set_election (\<lambda>e. e\<lparr>e_Leader := leader\<rparr>) s else s)
      in (Changed, set_srv (MyId s) (\<lambda>p. p\<lparr>s_leader := ELeader s, s_epoch := Epoch s,
            s_Election := EBirth s\<rparr>) s))"

section \<open>Heartbeats\<close>

definition SendAlive :: "env \<Rightarrow> nat \<Rightarrow> Paxos_t \<Rightarrow> Paxos_t" where
  "SendAlive E j s =
     (let pm = msg_alloc s (s_ID (server s j)) (MSG_ALIVE
            \<lparr>a_fr = int (MyId s), a_to = s_ID (server s j), a_Election = EBirth s,
             a_leader = ELeader s, a_epoch = Epoch s, a_YourTime = s_YourTime (server s j),
             a_MyTime = e_now E, a_Catchup = (\<not> p_CatchupStop s), a_BackPage = BackPage s,
             a_NextDecide = NextDecide s, a_Load = Load_of E\<rparr>)
      in PaxosSend E j (pm\<lparr>m_From := c_PeerAddr (s_ChSend (server s (MyId s)))\<rparr>) s)"

definition set_leader :: "env \<Rightarrow> nat \<Rightarrow> Paxos_t \<Rightarrow> Paxos_t option" where
  "set_leader E js s =
     (if p_Max s = 1 then Some s
      else if s_ID (server s js) \<ge> int (p_Max s) then Some s
      else do {
        let (Changed, s) = MyVote s;
        let s = (if Changed
                 then fold (\<lambda>j s. if j = MyId s then s else SendAlive E j s) [0..<p_Max s] s else s);
        (elected, s) \<leftarrow> ElectLeader E js s;
        Some s
      })"

section \<open>Connections\<close>

text \<open>The difference of the times is narrowed to the \<open>int\<close> it is stored in.\<close>

definition IS_CONNECTED :: "env \<Rightarrow> Server_t \<Rightarrow> Paxos_t \<Rightarrow> bool" where
  "IS_CONNECTED E pS s =
     (let w = TimespecAddUsec (s_Token pS) (DT_CON s);
          Ret = int32 (TIMESPECCOMPARE (e_now E) w)
      in Ret < 0)"

definition CheckConnection :: "env \<Rightarrow> nat \<Rightarrow> Paxos_t \<Rightarrow> Con_t \<times> Paxos_t" where
  "CheckConnection E j s =
     (if IS_CONNECTED E (server s j) s then
        (if \<not> is_connected (server s j)
         then (DIS_CON, set_srv j (\<lambda>p. p\<lparr>s_AutonomicLast := 0,
                 s_status := s_status p OR PAXOS_SERVER_CONNECTED\<rparr>) s)
         else (CON_CON, s))
      else
        (if is_connected (server s j)
         then (CON_DIS, set_srv j (\<lambda>p. p\<lparr>s_status := s_status p AND NOT PAXOS_SERVER_CONNECTED\<rparr>) s)
         else (DIS_DIS, s)))"

definition set_reader :: "env \<Rightarrow> Paxos_t \<Rightarrow> Paxos_t" where
  "set_reader E s =
     (let s = set_srv (MyId s) (\<lambda>p. p\<lparr>s_Load := Load_of E\<rparr>) s;
          (Load, Reader) = fold (\<lambda>j (Load, Reader).
              if j = MyId s \<or> \<not> is_connected (server s j) then (Load, Reader)
              else if s_Load (server s j) < Load then (s_Load (server s j), int j)
              else (Load, Reader))
            [0..<p_Maximum s] (s_Load (server s (MyId s)), int (MyId s))
      in set_election (\<lambda>e. e\<lparr>e_Reader := Reader\<rparr>) s)"

end
