(* ===== verification/Paxos_Heartbeat.thy ===== *)
theory Paxos_Heartbeat
  imports Paxos_Election
begin

text \<open>
  The receipt of heartbeats and the heartbeat thread, from \<^verbatim>\<open>paxos/src/Paxos.c\<close>.
\<close>

section \<open>Receipt\<close>

text \<open>A server whose address differs from the known one is taken at its new address.\<close>

definition alive_addr :: "nat \<Rightarrow> sockaddr_in \<Rightarrow> Paxos_t \<Rightarrow> Paxos_t" where
  "alive_addr j from_addr s =
     (if from_addr \<noteq> c_PeerAddr (s_ChSend (server s j)) then
        (if is_active (server s j)
         then set_srv j (\<lambda>p. p\<lparr>s_ChSend := (s_ChSend p)\<lparr>c_PeerAddr := from_addr\<rparr>\<rparr>) s
         else set_srv j (\<lambda>p. p\<lparr>s_status := s_status p OR PAXOS_SERVER_ACTIVE,
                s_ChSend := ChSendInit from_addr\<rparr>) s)
      else s)"

definition alive_record :: "nat \<Rightarrow> msg_alive_t \<Rightarrow> Paxos_t \<Rightarrow> Paxos_t" where
  "alive_record j pa = set_srv j (\<lambda>p. p\<lparr>
     s_Election := a_Election pa, s_leader := a_leader pa, s_epoch := a_epoch pa,
     s_YourTime := a_MyTime pa, s_Load := a_Load pa, s_BackPage := a_BackPage pa,
     s_NextDecide := a_NextDecide pa, s_Token := a_YourTime pa\<rparr>)"

text \<open>
  The control of overflowing pages. Its loop runs through the servers with the variable that holds
  the sender; the rest of the function goes on with the last server of the loop.
\<close>

definition alive_overflow :: "env \<Rightarrow> nat \<Rightarrow> Paxos_t \<Rightarrow> (nat \<times> Paxos_t) option" where
  "alive_overflow E j s =
     (if p_bPageSuppress s then
        let backPage = TO_PAGE (oldest_NextDecide s);
            others = filter (\<lambda>i. i \<noteq> MyId s) [0..<p_Maximum s];
            j' = (if others = [] then j else last others)
        in if CMP (BackPage s) backPage < 0
           then do { s \<leftarrow> release_suppressed_accept E (s\<lparr>p_bPageSuppress := False\<rparr>); Some (j', s) }
           else Some (j', s)
      else Some (j, s))"

text \<open>The search for a connected server that still has the page this one needs.\<close>

fun find_supplier :: "env \<Rightarrow> nat list \<Rightarrow> Paxos_t \<Rightarrow> bool \<times> Paxos_t" where
  "find_supplier E [] s = (False, s)"
| "find_supplier E (j # js) s =
     (if j = MyId s then find_supplier E js s
      else case CheckConnection E j s of (con, s) \<Rightarrow>
        if (con = DIS_CON \<or> con = CON_CON) \<and> CMP (s_BackPage (server s j)) (TO_PAGE (NextDecide s)) \<le> 0
        then (True, s)
        else find_supplier E js s)"

definition alive_catchup :: "env \<Rightarrow> nat \<Rightarrow> msg_alive_t \<Rightarrow> Paxos_t \<Rightarrow> Paxos_t option" where
  "alive_catchup E j pa s =
     (if a_Catchup pa \<and> e_trylock E \<and> CMP (NextDecide s) (a_NextDecide pa) < 0 then
        (if CMP (a_BackPage pa) (TO_PAGE (NextDecide s)) \<le> 0
         then CatchupRequest E j (a_NextDecide pa) s
         else (case find_supplier E [0..<p_Max s] s of (Catchup, s) \<Rightarrow>
                 if Catchup then Some s else None))
      else Some s)"

definition server_receive_alive :: "env \<Rightarrow> msg_t \<Rightarrow> msg_alive_t \<Rightarrow> Paxos_t \<Rightarrow> Paxos_t option" where
  "server_receive_alive E pm pa s =
     do {
       j \<leftarrow> srv_index s (m_fr pm);
       let s = alive_addr j (m_From pm) s;
       let s = set_srv j (\<lambda>p. p\<lparr>s_Alive := e_now E\<rparr>) s;
       if m_to pm \<noteq> int (MyId s) then Some s
       else if \<not> is_active (server s j) then Some s
       else do {
         let voters = (MyId s < p_Max s \<and> j < p_Max s);
         let Changed = (if voters
               then s_leader (server s j) \<noteq> a_leader pa
                    \<or> TIMESPECCOMPARE (s_Election (server s j)) (a_Election pa) \<noteq> 0
               else e_uninit E);
         let s = alive_record j pa s;
         let (Changed, s) =
           (if CMP (a_epoch pa) (Epoch s) > 0
            then (True, set_election (\<lambda>e. e\<lparr>e_Epoch := a_epoch pa\<rparr>) s) else (Changed, s));
         (j, s) \<leftarrow> alive_overflow E j s;
         let (con, s) = CheckConnection E j s;
         s \<leftarrow> (case con of
             DIS_CON \<Rightarrow> if voters then set_leader E j s else Some s
           | CON_DIS \<Rightarrow> if voters then set_leader E j s else Some s
           | CON_CON \<Rightarrow> do {
               s \<leftarrow> (if MyId s < p_Max s \<and> (Changed \<or> ELeader s < 0) then set_leader E j s else Some s);
               alive_catchup E j pa s
             }
           | DIS_DIS \<Rightarrow> Some s);
         Some (set_reader E s)
       }
     }"

definition server_receive_ras :: "env \<Rightarrow> int \<Rightarrow> Paxos_t \<Rightarrow> Paxos_t option" where
  "server_receive_ras E fr s =
     do {
       j \<leftarrow> srv_index s fr;
       let s = set_srv j (\<lambda>p. p\<lparr>s_Token := timespec_zero\<rparr>) s;
       let (con, s) = CheckConnection E j s;
       ASSERT (\<not> is_connected (server s j));
       set_leader E j (set_reader E s)
     }"

section \<open>The heartbeat thread\<close>

definition heartbeat_check :: "env \<Rightarrow> nat \<Rightarrow> Paxos_t \<Rightarrow> Paxos_t option" where
  "heartbeat_check E j s =
     (if j = MyId s then Some s
      else case CheckConnection E j s of (con, s) \<Rightarrow>
        (case con of
           DIS_CON \<Rightarrow> set_leader E j s
         | CON_DIS \<Rightarrow> do {
             s \<leftarrow> set_leader E j s;
             Some (if \<not> IsTimespecZero (s_IssuedTime (server s j))
                   then set_srv j (\<lambda>p. p\<lparr>s_IssuedTime := timespec_zero\<rparr>) (s\<lparr>p_IssuedLast := 0\<rparr>)
                   else s)
           }
         | CON_CON \<Rightarrow> Some s
         | DIS_DIS \<Rightarrow> Some s))"

text \<open>One turn of \<open>ThreadHeartbeat\<close>.\<close>

definition ThreadHeartbeat :: "env \<Rightarrow> Paxos_t \<Rightarrow> Paxos_t option" where
  "ThreadHeartbeat E s =
     do {
       let s = set_srv (MyId s) (\<lambda>p. p\<lparr>s_Alive := e_now E\<rparr>) s;
       s \<leftarrow> for_each (heartbeat_check E) [0..<p_Maximum s] s;
       let s = fold (\<lambda>j s. if j = MyId s then s
                     else if is_active (server s j) then SendAlive E j s else s) [0..<p_Maximum s] s;
       Some (if p_Max s = 1 then set_election (\<lambda>e. e\<lparr>e_IamMaster := True\<rparr>) s else s)
     }"

end
