(* ===== verification/Paxos_Api.thy ===== *)
theory Paxos_Api
  imports Paxos_Agent Paxos_Heartbeat
begin

text \<open>
  The interface of the library to the application, from \<^verbatim>\<open>paxos/src/Paxos.c\<close>: initialisation and
  start, requests, freezing, and the snapshot of a server's state.
\<close>

section \<open>Initialisation and start\<close>

text \<open>A cell is the list of its servers: whether the entry is active, and its address.\<close>

definition init_server :: "(bool \<times> sockaddr_in) list \<Rightarrow> nat \<Rightarrow> Server_t" where
  "init_server cell j =
     (if j < length cell then
        (case cell ! j of (a_Active, a_Addr) \<Rightarrow>
           if a_Active then server_zero\<lparr>s_ID := int j, s_status := PAXOS_SERVER_ACTIVE,
                              s_ChSend := ChSendInit a_Addr\<rparr>
           else server_zero\<lparr>s_ID := int j\<rparr>)
      else server_zero)"

definition init_multi :: "nat \<Rightarrow> PaxosMulti_t" where
  "init_multi core =
     \<lparr>p_Page = 0, p_NextK = 0, p_SuccessCount = 0,
      m_aPaxos = (\<lambda>_. instance_zero\<lparr>p_RndAccQuo := quorum_init (int core)\<rparr>),
      m_aMetaCmd = (\<lambda>_. metacmds_zero),
      l_Mode = MODE_NONE, l_CurRnd = round_zero, l_RndInfQuo = quorum_init (int core)\<rparr>"

definition init_election :: "timespec \<Rightarrow> nat \<Rightarrow> nat \<Rightarrow> Election_t" where
  "init_election now Ident core =
     \<lparr>e_IamMaster = (core = 1), e_NewRndStart = False, e_Birth = now, e_Epoch = 0,
      e_Elected = (if core = 1 then int Ident else -1), e_Leader = -1, e_Reader = 0\<rparr>"

definition PaxosInitUsec ::
  "env \<Rightarrow> nat \<Rightarrow> nat \<Rightarrow> nat \<Rightarrow> (bool \<times> sockaddr_in) list \<Rightarrow> int \<Rightarrow> bool \<Rightarrow> Paxos_t option" where
  "PaxosInitUsec E Ident ServerCore ServerExtension pCell UnitUsec bCksum =
     (if length pCell \<le> ServerCore + ServerExtension then
        Some \<lparr>p_bSuppressAccept = False, p_Active = False, p_MyId = Ident,
          p_Election = init_election (e_now E) Ident ServerCore,
          p_Max = ServerCore, p_Maximum = ServerCore + ServerExtension,
          p_aServer = init_server pCell, p_BackPage = 0, p_MultiLnk = [],
          p_Multi = init_multi ServerCore,
          p_QueuePaxos = QueueInit, p_QueueHeartbeat = QueueInit,
          p_UnitUsec = (if UnitUsec < DT_UNIT_MIN then DT_UNIT_MIN else UnitUsec),
          p_Outbound = QueueInit, p_NextDecide = 0,
          p_Gaps = HashInit 11 HashCode_INT HashCompare_INT,
          p_NewRoundLast = 0, p_CatchupNextDecide = 0, p_pCatchupServer = None,
          p_CatchupPageLast = 0, p_CatchupRecvLast = timespec_zero, p_CatchupRecvServer = 0,
          p_IssuedLast = 0, p_IssuedSeq = 0, p_RecvStop = (\<lambda>_. False), p_CatchupStop = False,
          p_bFreeze = False, p_bCksum = bCksum, p_bPageSuppress = False, p_Fx = []\<rparr>
      else None)"

text \<open>\<open>started\<close>: whether the port and the threads could be created.\<close>

definition PaxosStart :: "bool \<Rightarrow> PaxosStartMode \<Rightarrow> u32 \<Rightarrow> Paxos_t \<Rightarrow> Paxos_t" where
  "PaxosStart started StartMode nextDecide s =
     (let s = s\<lparr>p_Active := True\<rparr>;
          s = (if StartMode = PAXOS_WAIT then s\<lparr>p_bSuppressAccept := True\<rparr> else s);
          s = (if StartMode = PAXOS_SEQ then
                 set_multi (\<lambda>m. m\<lparr>p_Page := TO_PAGE nextDecide, p_NextK := TO_K nextDecide,
                   p_SuccessCount := TO_K nextDecide\<rparr>) (s\<lparr>p_NextDecide := nextDecide\<rparr>)
               else s)
      in if started then s else s\<lparr>p_Active := False\<rparr>)"

definition down_channels :: "Paxos_t \<Rightarrow> Paxos_t" where
  "down_channels s =
     fold (\<lambda>j. set_srv j (\<lambda>p. p\<lparr>s_ChSend := ChOutboundDown (s_ChSend p)\<rparr>)) [0..<p_Max s] s"

definition PaxosDown :: "Paxos_t \<Rightarrow> Paxos_t" where
  "PaxosDown s = (down_channels s)\<lparr>p_Active := False\<rparr>"

section \<open>Requests\<close>

text \<open>
  One pass of \<open>GetSlot\<close> ends with a result or in the wait for the condition. The wait releases the
  lock, so the pass after it finds the state the others left; \<open>GetSlot\<close> takes the list of the
  returns from the wait, each with its error code (0 for a wake-up) and the state it finds.
\<close>

datatype slot = Slot int Paxos_t | SlotWait Paxos_t

definition GetSlot_pass :: "env \<Rightarrow> Paxos_t \<Rightarrow> slot option" where
  "GetSlot_pass E s =
     (if \<not> IamMaster s then Some (Slot (-1) s)
      else if isMyRnd s then
        (if Page s = TO_PAGE (NextDecide s) then
           (case List.find (\<lambda>k. PMode s k = MODE_NONE) [TO_K (NextDecide s)..<PAXOS_MAX] of
              Some k \<Rightarrow> Some (Slot (int k) s)
            | None \<Rightarrow> Some (SlotWait s))
         else Some (SlotWait s))
      else if NewRndStart s then
        (if AMode s \<noteq> MODE_GATHERLAST then do {
           s \<leftarrow> NewRound E (set_multi (\<lambda>m. m\<lparr>l_Mode := MODE_NONE\<rparr>) s);
           Some (SlotWait s)
         } else Some (SlotWait s))
      else Some (Slot (-1) s))"

fun GetSlot :: "env \<Rightarrow> (int \<times> Paxos_t) list \<Rightarrow> Paxos_t \<Rightarrow> slot option" where
  "GetSlot E [] s = GetSlot_pass E s"
| "GetSlot E ((err, s') # ws) s =
     do {
       r \<leftarrow> GetSlot_pass E s;
       case r of
         Slot k s \<Rightarrow> Some (Slot k s)
       | SlotWait _ \<Rightarrow> if err \<noteq> 0 then Some (Slot (- err) s') else GetSlot E ws s'
     }"

definition InitCommand :: "nat \<Rightarrow> MetaCmd_t \<Rightarrow> u32 \<Rightarrow> Paxos_t \<Rightarrow> Paxos_t" where
  "InitCommand k pCommand Flag s =
     (let V = \<lparr>v_Flags = VALUE_DEFINED OR Flag, v_Server = int (MyId s), v_Epoch = 0,
               v_From = int (MyId s)\<rparr>;
          s = set_inst k (\<lambda>p. p\<lparr>p_InitValue := V\<rparr>) s
      in set_cmds k (\<lambda>c. c\<lparr>c_MetaCmdInit := pCommand\<rparr>) s)"

text \<open>\<open>_PaxosRequest\<close> once it has its slot \<open>k\<close>.\<close>

definition request_slot :: "env \<Rightarrow> nat \<Rightarrow> u8 list \<Rightarrow> u32 \<Rightarrow> Paxos_t \<Rightarrow> (PaxosNotify \<times> Paxos_t) option" where
  "request_slot E k pCommand Flag s =
     (if int (length pCommand) > PAXOS_COMMAND_SIZE then Some (PAXOS_REJECTED, s)
      else
        let PC = \<lparr>c_len = of_nat (length pCommand), c_opaque = pCommand\<rparr>;
            V = \<lparr>v_Flags = Flag, v_Server = int (MyId s), v_Epoch = Epoch s, v_From = int (MyId s)\<rparr>;
            (Ret, s) = (if Flag AND VALUE_VALIDATE \<noteq> 0
                        then PaxosValidate E PAXOS_MODE_REQUEST (Seq s k) V PC s else (0, s))
        in if Ret \<noteq> 0 then Some (PAXOS_REJECTED, s)
           else do {
             let s = InitCommand k PC Flag s;
             (ok, s) \<leftarrow> Continue k s;
             if ok then do { s \<leftarrow> BeginCast E k s; Some (PAXOS_OK, s) }
             else Some (PAXOS_REJECTED, s)
           })"

text \<open>\<open>None\<close> as the code of the answer: the request still waits for a slot.\<close>

definition PaxosRequest_flags ::
  "env \<Rightarrow> (int \<times> Paxos_t) list \<Rightarrow> u8 list \<Rightarrow> u32 \<Rightarrow> Paxos_t \<Rightarrow> (PaxosNotify option \<times> Paxos_t) option" where
  "PaxosRequest_flags E ws pCommand Flag s =
     (if \<not> p_Active s then Some (Some PAXOS_NOT_ACTIVE, s)
      else if IamMaster s then do {
        r \<leftarrow> GetSlot E ws s;
        case r of
          SlotWait s \<Rightarrow> Some (None, s)
        | Slot k s \<Rightarrow>
            if k < 0 then Some (Some PAXOS_REJECTED, s)
            else do { (Ret, s) \<leftarrow> request_slot E (nat k) pCommand Flag s; Some (Some Ret, s) }
      }
      else Some (Some PAXOS_Im_NOT_MASTER, s))"

definition PaxosRequest ::
  "env \<Rightarrow> (int \<times> Paxos_t) list \<Rightarrow> u8 list \<Rightarrow> bool \<Rightarrow> Paxos_t \<Rightarrow> (PaxosNotify option \<times> Paxos_t) option" where
  "PaxosRequest E ws pCommand Validate s =
     PaxosRequest_flags E ws pCommand (if Validate then VALUE_VALIDATE else 0) s"

text \<open>\<open>PaxosRequestTry\<close> returns -1, written \<open>Inl\<close>, when the lock is taken.\<close>

definition PaxosRequestTry ::
  "env \<Rightarrow> (int \<times> Paxos_t) list \<Rightarrow> u8 list \<Rightarrow> bool \<Rightarrow> Paxos_t
     \<Rightarrow> (int + PaxosNotify option \<times> Paxos_t) option" where
  "PaxosRequestTry E ws pCommand Validate s =
     (if \<not> e_trylock E then Some (Inl (-1))
      else map_option Inr (PaxosRequest_flags E ws pCommand (if Validate then VALUE_VALIDATE else 0) s))"

definition PaxosRecvFromPaxos ::
  "PaxosExecute_t Queue wakeup list \<Rightarrow> Paxos_t \<Rightarrow> (PaxosExecute_t option \<times> Paxos_t) option" where
  "PaxosRecvFromPaxos ws s =
     map_option (\<lambda>(err, e, q). (e, s\<lparr>p_Outbound := q\<rparr>)) (QueueTimedWait (p_Outbound s) ws)"

definition PaxosGetSeq :: "Paxos_t \<Rightarrow> u32" where
  "PaxosGetSeq s = Seq s (NextK s)"

definition PaxosDecidedTimeout :: "Paxos_t \<Rightarrow> int" where
  "PaxosDecidedTimeout s = DT_DECIDE s"

definition PaxosMasterElectionTimeout :: "Paxos_t \<Rightarrow> int" where
  "PaxosMasterElectionTimeout s = DT_LEADER s"

section \<open>Freezing\<close>

text \<open>
  \<open>PaxosFreeze\<close> polls twice: until no catch-up is in progress, and until the application has taken
  every entry and waits for the next one. \<open>None\<close> is a poll that has to be repeated.
\<close>

definition PaxosFreeze_begin :: "Paxos_t \<Rightarrow> Paxos_t" where
  "PaxosFreeze_begin s = s\<lparr>p_CatchupStop := True\<rparr>"

definition PaxosFreeze_suspend :: "Paxos_t \<Rightarrow> Paxos_t option" where
  "PaxosFreeze_suspend s =
     (if p_IssuedLast s > 0 then None
      else Some (s\<lparr>p_bFreeze := True, p_QueuePaxos := QueueSuspend (QueueMax (p_QueuePaxos s) 100)\<rparr>))"

definition PaxosFreeze_end :: "Paxos_t \<Rightarrow> Paxos_t option" where
  "PaxosFreeze_end s =
     (if q_cnt (p_Outbound s) > 0 \<or> q_waiter (p_Outbound s) \<noteq> 1 then None else Some s)"

definition PaxosDefreeze :: "Paxos_t \<Rightarrow> Paxos_t" where
  "PaxosDefreeze s = s\<lparr>p_bFreeze := False,
     p_QueuePaxos := QueueResume (QueueMax (p_QueuePaxos s) 0), p_CatchupStop := False\<rparr>"

section \<open>Snapshots\<close>

text \<open>
  The stream is the list of the records written to it; the application's marshaller of
  out-of-band data is a function of the command.
\<close>

datatype io = IOPaxos Paxos_t | IOOutOfBand "u8 list" | IOCount int | IOGap Gap_t

definition PaxosMarshal :: "(u8 list \<Rightarrow> u8 list) \<Rightarrow> Paxos_t \<Rightarrow> io list" where
  "PaxosMarshal fOutOfBand s =
     IOPaxos s #
     map (\<lambda>k. IOOutOfBand (fOutOfBand (c_opaque (MetaCmdRnd s k))))
       (filter (\<lambda>k. v_Flags (RndValue s k) AND VALUE_VALIDATE \<noteq> 0) [0..<PAXOS_MAX]) @
     IOCount (h_Count (p_Gaps s)) #
     map (\<lambda>kv. IOGap (snd kv)) (concat (h_aHeads (p_Gaps s)))"

fun read_outofband :: "nat \<Rightarrow> io list \<Rightarrow> (u8 list list \<times> io list) option" where
  "read_outofband 0 pR = Some ([], pR)"
| "read_outofband (Suc n) (IOOutOfBand b # pR) =
     do { (bs, pR) \<leftarrow> read_outofband n pR; Some (b # bs, pR) }"
| "read_outofband (Suc n) pR = None"

fun read_gaps :: "nat \<Rightarrow> io list \<Rightarrow> Paxos_t \<Rightarrow> (Paxos_t \<times> io list) option" where
  "read_gaps 0 pR s = Some (s, pR)"
| "read_gaps (Suc n) (IOGap g # pR) s =
     read_gaps n pR (s\<lparr>p_Gaps := HashPut (p_Gaps s) (UINT32_PNT (g_Seq g)) g\<rparr>)"
| "read_gaps (Suc n) pR s = None"

text \<open>The out-of-band data goes to the application; it is returned beside the state.\<close>

definition PaxosUnmarshal :: "io list \<Rightarrow> Paxos_t \<Rightarrow> (u8 list list \<times> Paxos_t \<times> io list) option" where
  "PaxosUnmarshal pR s =
     (case pR of
        IOPaxos W # pR \<Rightarrow> do {
          let s = s\<lparr>p_Multi := p_Multi W, p_NextDecide := p_NextDecide W\<rparr>;
          let s = s\<lparr>p_BackPage := Page s\<rparr>;
          let ks = filter (\<lambda>k. v_Flags (RndValue s k) AND VALUE_VALIDATE \<noteq> 0) [0..<PAXOS_MAX];
          (bs, pR) \<leftarrow> read_outofband (length ks) pR;
          case pR of
            IOCount N # pR \<Rightarrow> do { (s, pR) \<leftarrow> read_gaps (nat N) pR s; Some (bs, s, pR) }
          | _ \<Rightarrow> None
        }
      | _ \<Rightarrow> None)"

fun snapshot_validate :: "env \<Rightarrow> nat list \<Rightarrow> Paxos_t \<Rightarrow> int \<times> Paxos_t" where
  "snapshot_validate E [] s = (0, s)"
| "snapshot_validate E (k # ks) s =
     (let s = set_inst k (\<lambda>p. p\<lparr>p_Suppressed := False\<rparr>) s in
      if PMode s k \<noteq> MODE_DECIDED then snapshot_validate E ks s
      else case PaxosValidate E PAXOS_MODE_RECOVER (Seq s k) (RndValue s k) (MetaCmdRnd s k) s of (Ret, s) \<Rightarrow>
        if Ret \<noteq> 0 then (-1, s)
        else snapshot_validate E ks (set_inst k (\<lambda>p. p\<lparr>p_RndValue := (p_RndValue p)\<lparr>
               v_From := int (MyId s), v_Flags := v_Flags (p_RndValue p) OR VALUE_RECOVER\<rparr>\<rparr>) s))"

definition PaxosSnapshotValidate :: "env \<Rightarrow> Paxos_t \<Rightarrow> int \<times> Paxos_t" where
  "PaxosSnapshotValidate E s = snapshot_validate E [0..<PAXOS_MAX] s"

end
