(* ===== verification/Paxos_Dispatch.thy ===== *)
theory Paxos_Dispatch
  imports Paxos_Api
begin

text \<open>
  The dispatcher of \<^verbatim>\<open>paxos/src/Paxos.c\<close> and the threads that drive it: the receipt of a datagram,
  the two receiver threads, the clock, and the steps of a running server. The thread bodies are
  one turn of their loops; the code's mutexes make a turn one step.
\<close>

section \<open>Control and test messages\<close>

definition server_receive_dump :: "msg_t \<Rightarrow> Paxos_t \<Rightarrow> Paxos_t" where
  "server_receive_dump pm s = emit (FxSendTo (m_From pm) (m_body pm)) s"

definition server_receive_control_start :: "msg_t \<Rightarrow> Paxos_t \<Rightarrow> Paxos_t" where
  "server_receive_control_start pm s = emit (FxSendTo (m_From pm) MSG_CONTROL_START) s"

definition server_receive_stop :: "int \<Rightarrow> Paxos_t \<Rightarrow> Paxos_t option" where
  "server_receive_stop i s = do {
     j \<leftarrow> srv_index s i;
     Some (set_srv j (\<lambda>p. p\<lparr>s_ChSend := ChOutboundStop (s_ChSend p)\<rparr>) s) }"

definition server_receive_restart :: "int \<Rightarrow> Paxos_t \<Rightarrow> Paxos_t option" where
  "server_receive_restart i s = do {
     j \<leftarrow> srv_index s i;
     Some (set_srv j (\<lambda>p. p\<lparr>s_ChSend := ChOutboundRestart (s_ChSend p)\<rparr>) s) }"

definition server_receive_down :: "Paxos_t \<Rightarrow> Paxos_t" where
  "server_receive_down s = emit FxKill ((down_channels s)\<lparr>p_Active := False\<rparr>)"

definition server_receive_birth :: "env \<Rightarrow> Paxos_t \<Rightarrow> Paxos_t" where
  "server_receive_birth E s = set_election (\<lambda>e. e\<lparr>e_Birth := e_now E\<rparr>) s"

text \<open>The command of a test message is copied by its length, a signed number.\<close>

definition server_receive_test_command :: "int \<Rightarrow> MetaCmd_t \<Rightarrow> bool \<Rightarrow> Paxos_t \<Rightarrow> Paxos_t option" where
  "server_receive_test_command c_k command isV s =
     (if c_k \<ge> int PAXOS_MAX then Some s
      else if sint (c_len command) > PAXOS_COMMAND_SIZE then Some s
      else if sint (c_len command) < 0 then None
      else do {
        k \<leftarrow> k_index c_k;
        Some (InitCommand k command (if isV then VALUE_VALIDATE else 0) s)
      })"

definition server_receive_test_newround :: "env \<Rightarrow> Paxos_t \<Rightarrow> Paxos_t option" where
  "server_receive_test_newround E s = NewRound E (set_multi (\<lambda>m. m\<lparr>l_Mode := MODE_NONE\<rparr>) s)"

definition server_receive_test_begin :: "env \<Rightarrow> int \<Rightarrow> Paxos_t \<Rightarrow> Paxos_t option" where
  "server_receive_test_begin E i s =
     (if i \<ge> int PAXOS_MAX then Some s
      else do {
        k \<leftarrow> k_index i;
        (ok, s) \<leftarrow> Continue k s;
        if ok then BeginCast E k s else Some s
      })"

definition server_receive_test_suppress :: "env \<Rightarrow> int \<Rightarrow> Paxos_t \<Rightarrow> Paxos_t" where
  "server_receive_test_suppress E dt s =
     s\<lparr>p_CatchupRecvLast := (if dt \<noteq> 0 then TimespecAddUsec (e_now E) dt else timespec_zero)\<rparr>"

definition server_receive_recv_stop :: "bool \<Rightarrow> int \<Rightarrow> Paxos_t \<Rightarrow> Paxos_t option" where
  "server_receive_recv_stop OnOff cmd s =
     (if 0 \<le> cmd \<and> cmd < int MSG_MAX then Some (s\<lparr>p_RecvStop := (p_RecvStop s)(nat cmd := OnOff)\<rparr>)
      else None)"

definition server_receive_test_catchup :: "bool \<Rightarrow> Paxos_t \<Rightarrow> Paxos_t" where
  "server_receive_test_catchup OnOff s = s\<lparr>p_CatchupStop := OnOff\<rparr>"

definition server_receive_test_remove_page :: "Paxos_t \<Rightarrow> Paxos_t" where
  "server_receive_test_remove_page s = s\<lparr>p_MultiLnk := [], p_BackPage := Page s\<rparr>"

definition server_receive_is_active :: "env \<Rightarrow> msg_t \<Rightarrow> Paxos_t \<Rightarrow> Paxos_t" where
  "server_receive_is_active E pm s =
     emit (FxSendTo (m_From pm) (MSG_IS_ACTIVE (Some
       \<lparr>ac_Target = int (MyId s), ac_Max = int (p_Max s), ac_Maximum = int (p_Maximum s),
        ac_Leader = ELeader s, ac_Epoch = Epoch s, ac_Load = Load_of E,
        ac_NextDecide = NextDecide s, ac_BackPage = BackPage s\<rparr>))) s"

section \<open>The dispatch table\<close>

text \<open>An entry of the table that is \<open>NULL\<close> is called all the same, which kills the process.\<close>

fun dispatch :: "env \<Rightarrow> msg_t \<Rightarrow> msg_body \<Rightarrow> Paxos_t \<Rightarrow> Paxos_t option" where
  "dispatch E pm (MSG_DUMP _ _) s = Some (server_receive_dump pm s)"
| "dispatch E pm MSG_CONTROL_START s = Some (server_receive_control_start pm s)"
| "dispatch E pm MSG_CONTROL_STOP s = None"
| "dispatch E pm (MSG_OUTBOUND_STOP i) s = server_receive_stop i s"
| "dispatch E pm (MSG_OUTBOUND_RESTART i) s = server_receive_restart i s"
| "dispatch E pm MSG_DOWN s = Some (server_receive_down s)"
| "dispatch E pm (MSG_ALIVE pa) s = server_receive_alive E pm pa s"
| "dispatch E pm (MSG_CATCHUP_REQ pReq) s = server_receive_catchup_req E (m_fr pm) pReq s"
| "dispatch E pm (MSG_CATCHUP_RPL pRpl) s = server_receive_catchup_rpl E (m_fr pm) pRpl s"
| "dispatch E pm (MSG_COLLECT pmc) s = RecvCollect E (m_fr pm) pmc s"
| "dispatch E pm (MSG_LAST pml) s = GatherLast E (m_fr pm) pml s"
| "dispatch E pm (MSG_OLDROUND pmo) s = Some (GatherOldRound pmo s)"
| "dispatch E pm (MSG_BEGIN pmb) s = RecvBegin E (m_fr pm) pmb s"
| "dispatch E pm (MSG_ACCEPT pma) s = GatherAccept E (m_fr pm) pma s"
| "dispatch E pm (MSG_SUCCESS pS) s = RecvSuccess E (m_fr pm) pS s"
| "dispatch E pm (MSG_RECV_STOP OnOff cmd) s = server_receive_recv_stop OnOff cmd s"
| "dispatch E pm (MSG_BEGIN_REDIRECT pb) s = BeginCastRedirect E pb s"
| "dispatch E pm MSG_BIRTH s = Some (server_receive_birth E s)"
| "dispatch E pm MSG_CATCHUP_END s = server_receive_catchup_end E (m_fr pm) s"
| "dispatch E pm (MSG_TEST_COMMAND k c v) s = server_receive_test_command k c v s"
| "dispatch E pm MSG_TEST_NEWROUND s = server_receive_test_newround E s"
| "dispatch E pm (MSG_TEST_BEGINCAST k) s = server_receive_test_begin E k s"
| "dispatch E pm (MSG_TEST_SUPPRESS dt) s = Some (server_receive_test_suppress E dt s)"
| "dispatch E pm (MSG_TEST_CATCHUP b) s = Some (server_receive_test_catchup b s)"
| "dispatch E pm MSG_TEST_REMOVE_PAGE s = Some (server_receive_test_remove_page s)"
| "dispatch E pm MSG_RAS s = server_receive_ras E (m_fr pm) s"
| "dispatch E pm MSG_HIGH_WATER s = None"
| "dispatch E pm MSG_HIGH_WATER_ACK s = None"
| "dispatch E pm MSG_LOW_WATER s = None"
| "dispatch E pm MSG_LOW_WATER_ACK s = None"
| "dispatch E pm (MSG_IS_ACTIVE _) s = Some (server_receive_is_active E pm s)"
| "dispatch E pm MSG_LOCK s = None"
| "dispatch E pm MSG_UNLOCK s = None"
| "dispatch E pm MSG_LOG_DUMP s = None"

section \<open>Threads\<close>

text \<open>
  \<open>PaxosRecvHandler\<close> with the datagram it read. The lock messages only touch the mutexes, and the
  log dump only the log.
\<close>

definition PaxosRecvHandler :: "env \<Rightarrow> msg_t \<Rightarrow> Paxos_t \<Rightarrow> Paxos_t option" where
  "PaxosRecvHandler E pm s =
     (if \<not> p_Active s then Some s
      else do {
        (if m_cksum64 pm \<noteq> 0 then ASSERT (in_cksum64 (e_image E pm) 0 = Some 0) else Some ());
        if p_RecvStop s (m_cmd (m_body pm)) then Some s
        else (case m_body pm of
            MSG_LOCK \<Rightarrow> Some s
          | MSG_UNLOCK \<Rightarrow> Some s
          | MSG_LOG_DUMP \<Rightarrow> Some s
          | MSG_CONTROL_START \<Rightarrow> dispatch E pm (m_body pm) s
          | MSG_CONTROL_STOP \<Rightarrow> dispatch E pm (m_body pm) s
          | MSG_DUMP _ _ \<Rightarrow> dispatch E pm (m_body pm) s
          | MSG_RAS \<Rightarrow> Some (s\<lparr>p_QueueHeartbeat := snd (QueuePost (p_QueueHeartbeat s) pm)\<rparr>)
          | MSG_ALIVE _ \<Rightarrow> Some (s\<lparr>p_QueueHeartbeat := snd (QueuePost (p_QueueHeartbeat s) pm)\<rparr>)
          | _ \<Rightarrow> Some (s\<lparr>p_QueuePaxos := snd (QueuePost (p_QueuePaxos s) pm)\<rparr>))
      })"

text \<open>A receiver thread that finds its queue empty or suspended waits, which changes nothing.\<close>

definition ThreadReceiverPaxos :: "env \<Rightarrow> Paxos_t \<Rightarrow> Paxos_t option" where
  "ThreadReceiverPaxos E s =
     (if \<not> p_Active s then Some s
      else (case QueueTimedWait (p_QueuePaxos s) [] of
          Some (_, Some pM, q) \<Rightarrow> dispatch E pM (m_body pM) (s\<lparr>p_QueuePaxos := q\<rparr>)
        | _ \<Rightarrow> Some s))"

definition ThreadReceiverHeartbeat :: "env \<Rightarrow> Paxos_t \<Rightarrow> Paxos_t option" where
  "ThreadReceiverHeartbeat E s =
     (if \<not> p_Active s then Some s
      else (case QueueTimedWait (p_QueueHeartbeat s) [] of
          Some (_, Some pM, q) \<Rightarrow> dispatch E pM (m_body pM) (s\<lparr>p_QueueHeartbeat := q\<rparr>)
        | _ \<Rightarrow> Some s))"

definition PaxosDetector :: "env \<Rightarrow> Paxos_t \<Rightarrow> Paxos_t option" where
  "PaxosDetector E s =
     do {
       s \<leftarrow> CheckRndSuccessAndNewRound E s;
       let s = (if p_IssuedLast s \<noteq> 0 \<and> p_IssuedLast s < time0 E
                then fold (\<lambda>j. set_srv j (\<lambda>p. p\<lparr>s_IssuedTime := timespec_zero\<rparr>)) [0..<p_Max s]
                       (s\<lparr>p_IssuedLast := 0\<rparr>)
                else s);
       if \<not> IsTimespecZero (p_CatchupRecvLast s) \<and> TIMESPECCOMPARE (p_CatchupRecvLast s) (e_now E) < 0
       then release_suppressed_accept E s
       else Some s
     }"

section \<open>The steps of a server\<close>

datatype event =
    Datagram msg_t
  | ReceiverPaxos
  | ReceiverHeartbeat
  | Clock
  | Heartbeat
  | Request "u8 list" bool
  | TakeOutbound
  | Autonomic nat
  | FreezeBegin
  | FreezeSuspend
  | Defreeze
  | Down

text \<open>
  A request that waits for a slot does not hold the lock: its passes are steps of their own. A
  poll that has to be repeated changes nothing.
\<close>

definition node_step :: "env \<Rightarrow> event \<Rightarrow> Paxos_t \<Rightarrow> Paxos_t option" where
  "node_step E ev s =
     (case ev of
        Datagram pm \<Rightarrow> PaxosRecvHandler E pm s
      | ReceiverPaxos \<Rightarrow> ThreadReceiverPaxos E s
      | ReceiverHeartbeat \<Rightarrow> ThreadReceiverHeartbeat E s
      | Clock \<Rightarrow> PaxosDetector E s
      | Heartbeat \<Rightarrow> ThreadHeartbeat E s
      | Request cmd v \<Rightarrow> map_option snd (PaxosRequest E [] cmd v s)
      | TakeOutbound \<Rightarrow>
          (case PaxosRecvFromPaxos [] s of None \<Rightarrow> Some s | Some (e, s') \<Rightarrow> Some s')
      | Autonomic j \<Rightarrow> (if j < p_Maximum s then Some (PaxosAutonomic E j s) else None)
      | FreezeBegin \<Rightarrow> Some (PaxosFreeze_begin s)
      | FreezeSuspend \<Rightarrow> (case PaxosFreeze_suspend s of None \<Rightarrow> Some s | Some s' \<Rightarrow> Some s')
      | Defreeze \<Rightarrow> Some (PaxosDefreeze s)
      | Down \<Rightarrow> Some (PaxosDown s))"

text \<open>
  The states a server reaches from \<open>start\<close>: each step finds its own clock, callbacks and outside
  world.
\<close>

inductive reachable :: "Paxos_t \<Rightarrow> Paxos_t \<Rightarrow> bool" for start where
  reach_start: "reachable start start"
| reach_step: "reachable start s \<Longrightarrow> node_step E ev s = Some s' \<Longrightarrow> reachable start s'"

end
