(* ===== verification/Paxos_Order.thy ===== *)
theory Paxos_Order
  imports Paxos_Exec
begin

text \<open>
  The order of execution. What a server has executed is read off its trace: the entries posted for
  the application and the no-ops told to it. Between the handlers the state of execution is always
  the same: the instances before \<open>NextDecide\<close> are executed, the one at \<open>NextDecide\<close> is not
  decided, and those decided beyond it wait in the table of gaps.
\<close>

section \<open>Sequence numbers of a page\<close>

lemma CMP_TO_SEQ: "k < 2 ^ 30 \<Longrightarrow> n < 2 ^ 30 \<Longrightarrow> CMP (TO_SEQ p k) (TO_SEQ p n) = int k - int n"
  unfolding TO_SEQ_def by (rule CMP_offset)

lemma TO_SEQ_inject: "k < 2 ^ 30 \<Longrightarrow> n < 2 ^ 30 \<Longrightarrow> TO_SEQ p k = TO_SEQ p n \<longleftrightarrow> k = n"
  unfolding TO_SEQ_def by (simp add: of_nat_u32_inject)

lemma TO_SEQ_Suc: "TO_SEQ p k + 1 = TO_SEQ p (Suc k)"
  by (simp add: TO_SEQ_def)

lemma TO_SEQ_next_page: "TO_SEQ p 10 = TO_SEQ (p + 1) 0"
  by (simp add: TO_SEQ_def algebra_simps)

section \<open>What has been executed\<close>

fun exec_event :: "fx \<Rightarrow> u32 option" where
  "exec_event (FxPost e) = Some (e_Seq e)"
| "exec_event (FxNotify mode code seq j ep c fr) = (if code = PAXOS_NOOP then Some seq else None)"
| "exec_event _ = None"

definition executed :: "Paxos_t \<Rightarrow> u32 list" where
  "executed s = List.map_filter exec_event (p_Fx s)"

text \<open>The event by which \<open>Execute\<close> executes a command.\<close>

definition exec_fx :: "Paxos_t \<Rightarrow> u32 \<Rightarrow> value_t \<Rightarrow> MetaCmd_t \<Rightarrow> fx" where
  "exec_fx s seq pD pC =
     (if v_Flags pD AND VALUE_NOOP \<noteq> 0
      then FxNotify (PAXOS_MODE pD) PAXOS_NOOP seq (v_Server pD) (v_Epoch pD) pC (int (MyId s))
      else FxPost \<lparr>e_Seq = seq, e_Validate = (v_Flags pD AND VALUE_VALIDATE \<noteq> 0),
                  e_BackSeq = TO_SEQ (BackPage s) 0, e_Notify = PAXOS_ACCEPTED,
                  e_Cmd = take (unat (c_len pC)) (c_opaque pC)\<rparr>)"

definition cmd_fits :: "value_t \<Rightarrow> MetaCmd_t \<Rightarrow> bool" where
  "cmd_fits pD pC \<longleftrightarrow> v_Flags pD AND VALUE_NOOP \<noteq> 0 \<or> uint (c_len pC) \<le> PAXOS_COMMAND_SIZE"

lemma exec_event_exec_fx [simp]: "exec_event (exec_fx s seq v c) = Some seq"
  by (simp add: exec_fx_def)

lemma map_filter_append: "List.map_filter f (xs @ ys) = List.map_filter f xs @ List.map_filter f ys"
  by (simp add: List.map_filter_def)

lemma map_filter_one: "List.map_filter f [x] = (case f x of None \<Rightarrow> [] | Some y \<Rightarrow> [y])"
  by (simp add: List.map_filter_def split: option.splits)

text \<open>What \<open>Execute\<close> changes: the trace, by one event, and the queue of the application.\<close>

definition executes :: "Paxos_t \<Rightarrow> fx list \<Rightarrow> Paxos_t \<Rightarrow> bool" where
  "executes s fxs s' \<longleftrightarrow> s' = s\<lparr>p_Outbound := p_Outbound s', p_Fx := p_Fx s @ fxs\<rparr>"

lemma executes_append: "executes s xs t \<Longrightarrow> executes t ys u \<Longrightarrow> executes s (xs @ ys) u"
  unfolding executes_def by (cases s, cases t, cases u) simp

lemma executes_keeps:
  assumes "executes s fxs s'"
  shows "p_Multi s' = p_Multi s" "p_Gaps s' = p_Gaps s" "p_NextDecide s' = p_NextDecide s"
    "p_Fx s' = p_Fx s @ fxs" "p_BackPage s' = p_BackPage s" "p_MyId s' = p_MyId s"
    "p_Max s' = p_Max s" "p_Maximum s' = p_Maximum s" "p_MultiLnk s' = p_MultiLnk s"
    "p_aServer s' = p_aServer s"
  using assms [unfolded executes_def, THEN arg_cong, of p_Multi]
    assms [unfolded executes_def, THEN arg_cong, of p_Gaps]
    assms [unfolded executes_def, THEN arg_cong, of p_NextDecide]
    assms [unfolded executes_def, THEN arg_cong, of p_Fx]
    assms [unfolded executes_def, THEN arg_cong, of p_BackPage]
    assms [unfolded executes_def, THEN arg_cong, of p_MyId]
    assms [unfolded executes_def, THEN arg_cong, of p_Max]
    assms [unfolded executes_def, THEN arg_cong, of p_Maximum]
    assms [unfolded executes_def, THEN arg_cong, of p_MultiLnk]
    assms [unfolded executes_def, THEN arg_cong, of p_aServer]
  by simp_all

lemma Execute_executes:
  "Execute seq v c s = Some s' \<Longrightarrow> cmd_fits v c \<and> executes s [exec_fx s seq v c] s'"
  by (auto simp: Execute_def executes_def exec_fx_def cmd_fits_def emit_def Let_def split: if_splits)

lemma Execute_fits: "cmd_fits v c \<Longrightarrow> \<exists>s'. Execute seq v c s = Some s'"
  by (auto simp: Execute_def cmd_fits_def Let_def)

section \<open>The gaps\<close>

definition gap_of :: "Paxos_t \<Rightarrow> nat \<Rightarrow> Gap_t" where
  "gap_of s k = \<lparr>g_Seq = Seq s k, g_Decision = RndValue s k, g_MetaCmd = MetaCmdRnd s k\<rparr>"

definition pending :: "Paxos_t \<Rightarrow> nat \<Rightarrow> nat list" where
  "pending s n = filter (\<lambda>k. n \<le> k \<and> PMode s k = MODE_DECIDED) [0..<PAXOS_MAX]"

text \<open>The table of gaps holds the decided instances from the \<open>n\<close>-th on, and nothing else.\<close>

definition gaps_ok :: "Paxos_t \<Rightarrow> nat \<Rightarrow> bool" where
  "gaps_ok s n \<longleftrightarrow> int_table (p_Gaps s) \<and>
     (\<forall>u. hash_queue (p_Gaps s) (UINT32_PNT u) =
        map (gap_of s) (filter (\<lambda>k. Seq s k = u) (pending s n)))"

lemma filter_eq_upt: "filter (\<lambda>k. k = m \<and> P k) [0..<n] = (if m < n \<and> P m then [m] else [])"
  by (induction n) (auto simp: less_Suc_eq)

lemma pending_at:
  assumes "m \<le> 10"
  shows "filter (\<lambda>k. Seq s k = Seq s m) (pending s n) =
    (if n \<le> m \<and> m < 10 \<and> PMode s m = MODE_DECIDED then [m] else [])"
proof -
  have "filter (\<lambda>k. Seq s k = Seq s m) (pending s n) =
      filter (\<lambda>k. k = m \<and> (n \<le> k \<and> PMode s k = MODE_DECIDED)) [0..<10]"
    using assms by (auto simp: pending_def TO_SEQ_inject intro!: filter_cong)
  then show ?thesis by (simp only: filter_eq_upt) auto
qed

lemma gaps_ok_at:
  "gaps_ok s n \<Longrightarrow> m \<le> 10 \<Longrightarrow>
     hash_queue (p_Gaps s) (UINT32_PNT (Seq s m)) =
       (if n \<le> m \<and> m < 10 \<and> PMode s m = MODE_DECIDED then [gap_of s m] else [])"
  by (simp add: gaps_ok_def pending_at)

lemma pending_undecided: "PMode s n \<noteq> MODE_DECIDED \<Longrightarrow> pending s (Suc n) = pending s n"
  by (auto simp: pending_def intro!: filter_cong) (metis Suc_leI le_neq_implies_less)

text \<open>Facts about the gaps depend on the table, the page and its instances only.\<close>

lemma pending_cong: "p_Multi s = p_Multi t \<Longrightarrow> pending s n = pending t n"
  by (simp add: pending_def)

lemma gap_of_cong: "p_Multi s = p_Multi t \<Longrightarrow> gap_of s = gap_of t"
  by (rule ext) (simp add: gap_of_def)

lemma gaps_ok_cong:
  "p_Multi s = p_Multi t \<Longrightarrow> p_Gaps s = p_Gaps t \<Longrightarrow> gaps_ok s n = gaps_ok t n"
  using pending_cong [of s t n] gap_of_cong [of s t] by (simp add: gaps_ok_def)

lemma gaps_ok_lookup:
  assumes "gaps_ok s n" and "HashGetItem (p_Gaps s) (UINT32_PNT u) = (r, h)"
  shows "gaps_ok (s\<lparr>p_Gaps := h\<rparr>) n"
proof -
  have "int_table h" "hash_queue h = hash_queue (p_Gaps s)"
    using assms int_table_GetItem [of "p_Gaps s" "UINT32_PNT u"] HashGetItem_queue [of "p_Gaps s" "UINT32_PNT u"]
    by (simp_all add: gaps_ok_def)
  with assms(1) show ?thesis by (simp add: gaps_ok_def pending_def gap_of_def)
qed

lemma pending_first:
  assumes "m < 10" and "PMode s m = MODE_DECIDED"
  shows "filter (\<lambda>k. Seq s k = u) (pending s (Suc m)) =
    (if u = Seq s m then [] else filter (\<lambda>k. Seq s k = u) (pending s m))"
proof -
  have "pending s m = m # pending s (Suc m)"
  proof -
    have "[0..<10] = [0..<m] @ m # [Suc m..<10]"
      using assms(1) upt_add_eq_append [of 0 m "10 - m"] upt_conv_Cons [of m 10] by simp
    moreover have "filter (\<lambda>k. Suc m \<le> k \<and> PMode s k = MODE_DECIDED) [Suc m..<10] =
        filter (\<lambda>k. m \<le> k \<and> PMode s k = MODE_DECIDED) [Suc m..<10]"
      by (rule filter_cong) auto
    ultimately show ?thesis using assms(2) by (simp add: pending_def)
  qed
  moreover have "filter (\<lambda>k. Seq s k = Seq s m) (pending s (Suc m)) = []"
    using assms(1) pending_at [of m s "Suc m"] by simp
  ultimately show ?thesis by auto
qed

text \<open>One turn of the loop over the gaps.\<close>

lemma drain_step:
  assumes g: "gaps_ok s m" and nd: "NextDecide s = Seq s m" and m: "m < 10" and d: "PMode s m = MODE_DECIDED"
  obtains h h2 where "gaps_ok (s\<lparr>p_Gaps := h2\<rparr>) (Suc m)" and "hash_size h2 < hash_size (p_Gaps s)"
    and "drain_gaps (Suc fuel) s = do {
      s \<leftarrow> Execute (NextDecide s) (RndValue s m) (MetaCmdRnd s m) (s\<lparr>p_Gaps := h\<rparr>);
      drain_gaps fuel (s\<lparr>p_NextDecide := NextDecide s + 1, p_Gaps := h2\<rparr>) }"
proof -
  have q: "hash_queue (p_Gaps s) (UINT32_PNT (Seq s m)) = [gap_of s m]"
    using gaps_ok_at [OF g, of m] m d by simp
  obtain r h where r: "HashGetItem (p_Gaps s) (UINT32_PNT (Seq s m)) = (r, h)" by fastforce
  have "r \<noteq> None" using HashGetItem_None [of "p_Gaps s" "UINT32_PNT (Seq s m)"] q r by simp
  then obtain it where it: "r = Some it" by blast
  from r it have gi: "HashGetItem (p_Gaps s) (UINT32_PNT (Seq s m)) = (Some it, h)" by simp
  have val: "HASH_VALUE h it = gap_of s m" using HashGetItem_Some [OF gi] q by auto
  have it1: "int_table (p_Gaps s)" using g by (simp add: gaps_ok_def)
  let ?h2 = "snd (HashRemoveItem h (Some it))"
  have "gaps_ok (s\<lparr>p_Gaps := ?h2\<rparr>) (Suc m)"
    unfolding gaps_ok_def
  proof (intro conjI allI)
    show "int_table (p_Gaps (s\<lparr>p_Gaps := ?h2\<rparr>))" using removed_item(1) [OF it1 gi] by simp
    fix u
    have "hash_queue ?h2 (UINT32_PNT u) =
        (if u = Seq s m then tl (hash_queue (p_Gaps s) (UINT32_PNT u)) else hash_queue (p_Gaps s) (UINT32_PNT u))"
      by (rule hash_queue_removed [OF it1 gi])
    also have "\<dots> = map (gap_of s) (filter (\<lambda>k. Seq s k = u) (pending s (Suc m)))"
      using q g pending_first [OF m d, of u] by (auto simp: gaps_ok_def)
    finally show "hash_queue (p_Gaps (s\<lparr>p_Gaps := ?h2\<rparr>)) (UINT32_PNT u) =
        map (gap_of (s\<lparr>p_Gaps := ?h2\<rparr>)) (filter (\<lambda>k. Seq (s\<lparr>p_Gaps := ?h2\<rparr>) k = u) (pending (s\<lparr>p_Gaps := ?h2\<rparr>) (Suc m)))"
      using pending_cong [of "s\<lparr>p_Gaps := ?h2\<rparr>" s "Suc m"] gap_of_cong [of "s\<lparr>p_Gaps := ?h2\<rparr>" s] by simp
  qed
  moreover have "hash_size ?h2 < hash_size (p_Gaps s)" by (rule removed_item(2) [OF it1 gi])
  moreover have "drain_gaps (Suc fuel) s = do {
      s \<leftarrow> Execute (NextDecide s) (RndValue s m) (MetaCmdRnd s m) (s\<lparr>p_Gaps := h\<rparr>);
      drain_gaps fuel (s\<lparr>p_NextDecide := NextDecide s + 1, p_Gaps := ?h2\<rparr>) }"
  proof -
    have keep: "p_Gaps s' = h" if "Execute (Seq s m) (RndValue s m) (MetaCmdRnd s m) (s\<lparr>p_Gaps := h\<rparr>) = Some s'" for s'
      using executes_keeps(2) [OF Execute_executes [OF that, THEN conjunct2]] by simp
    show ?thesis
      by (auto simp: nd gi val gap_of_def keep intro!: bind_option_cong)
  qed
  ultimately show ?thesis by (rule that)
qed

text \<open>The instances the loop executes: the decided ones in a row from the \<open>m\<close>-th on.\<close>

definition run :: "Paxos_t \<Rightarrow> nat \<Rightarrow> nat list" where
  "run s m = takeWhile (\<lambda>k. PMode s k = MODE_DECIDED) [m..<PAXOS_MAX]"

definition exec_fxs :: "Paxos_t \<Rightarrow> nat list \<Rightarrow> fx list" where
  "exec_fxs s ks = map (\<lambda>k. exec_fx s (Seq s k) (RndValue s k) (MetaCmdRnd s k)) ks"

text \<open>Execution leaves everything else of the state as it is.\<close>

definition exec_frame :: "Paxos_t \<Rightarrow> Paxos_t \<Rightarrow> bool" where
  "exec_frame s s' \<longleftrightarrow>
     s' = s\<lparr>p_bSuppressAccept := p_bSuppressAccept s', p_Outbound := p_Outbound s',
            p_NextDecide := p_NextDecide s', p_Gaps := p_Gaps s', p_Fx := p_Fx s'\<rparr>"

lemma exec_frame_keeps:
  assumes "exec_frame s s'"
  shows "p_Multi s' = p_Multi s" "p_BackPage s' = p_BackPage s" "p_MyId s' = p_MyId s"
    "p_Max s' = p_Max s" "p_Maximum s' = p_Maximum s" "p_MultiLnk s' = p_MultiLnk s"
    "p_aServer s' = p_aServer s"
  using assms [unfolded exec_frame_def, THEN arg_cong, of p_Multi]
    assms [unfolded exec_frame_def, THEN arg_cong, of p_BackPage]
    assms [unfolded exec_frame_def, THEN arg_cong, of p_MyId]
    assms [unfolded exec_frame_def, THEN arg_cong, of p_Max]
    assms [unfolded exec_frame_def, THEN arg_cong, of p_Maximum]
    assms [unfolded exec_frame_def, THEN arg_cong, of p_MultiLnk]
    assms [unfolded exec_frame_def, THEN arg_cong, of p_aServer]
  by simp_all

lemma exec_frame_trans: "exec_frame s t \<Longrightarrow> exec_frame t u \<Longrightarrow> exec_frame s u"
  unfolding exec_frame_def by (cases s, cases t, cases u) simp

lemma exec_frame_updates [simp]:
  "exec_frame s (s\<lparr>p_Gaps := h\<rparr>)" "exec_frame s (s\<lparr>p_NextDecide := u, p_Gaps := h\<rparr>)"
  by (simp_all add: exec_frame_def)

lemma executes_frame: "executes s fxs s' \<Longrightarrow> exec_frame s s'"
  unfolding executes_def exec_frame_def by (cases s, cases s') simp

lemma exec_fx_cong: "p_BackPage t = p_BackPage s \<Longrightarrow> p_MyId t = p_MyId s \<Longrightarrow> exec_fx t = exec_fx s"
  by (intro ext) (simp add: exec_fx_def)

lemma exec_fxs_cong:
  "p_BackPage t = p_BackPage s \<Longrightarrow> p_MyId t = p_MyId s \<Longrightarrow> p_Multi t = p_Multi s \<Longrightarrow>
     exec_fxs t ks = exec_fxs s ks"
  using exec_fx_cong [of t s] by (simp add: exec_fxs_def)

lemma run_Cons: "m < 10 \<Longrightarrow> PMode s m = MODE_DECIDED \<Longrightarrow> run s m = m # run s (Suc m)"
  by (simp add: run_def upt_conv_Cons)

lemma run_Nil: "\<not> (m < 10 \<and> PMode s m = MODE_DECIDED) \<Longrightarrow> run s m = []"
  by (cases "m < 10") (simp_all add: run_def upt_conv_Cons)

definition drained :: "Paxos_t \<Rightarrow> nat \<Rightarrow> Paxos_t \<Rightarrow> bool" where
  "drained s m s' \<longleftrightarrow>
     exec_frame s s' \<and> p_bSuppressAccept s' = p_bSuppressAccept s \<and>
     p_Fx s' = p_Fx s @ exec_fxs s (run s m) \<and>
     NextDecide s' = Seq s (m + length (run s m)) \<and> gaps_ok s' (m + length (run s m))"

lemma drain_stop:
  assumes "gaps_ok s m" and "NextDecide s = Seq s m" and "m \<le> 10"
    and "\<not> (m < 10 \<and> PMode s m = MODE_DECIDED)"
  obtains h where "drain_gaps (Suc fuel) s = Some (s\<lparr>p_Gaps := h\<rparr>)" and "drained s m (s\<lparr>p_Gaps := h\<rparr>)"
proof -
  have q: "hash_queue (p_Gaps s) (UINT32_PNT (Seq s m)) = []"
    using gaps_ok_at [OF assms(1,3)] assms(4) by simp
  obtain r h where r: "HashGetItem (p_Gaps s) (UINT32_PNT (Seq s m)) = (r, h)" by fastforce
  then have "r = None" using HashGetItem_None [of "p_Gaps s" "UINT32_PNT (Seq s m)"] q by simp
  then have step: "drain_gaps (Suc fuel) s = Some (s\<lparr>p_Gaps := h\<rparr>)"
    using assms(2) r by simp
  have "drained s m (s\<lparr>p_Gaps := h\<rparr>)"
    using assms gaps_ok_lookup [OF assms(1) r] by (simp add: drained_def exec_fxs_def run_Nil)
  with step show ?thesis by (rule that)
qed

lemma drained_Suc:
  assumes ex: "executes (s\<lparr>p_Gaps := h\<rparr>) [exec_fx s (Seq s m) (RndValue s m) (MetaCmdRnd s m)] t"
    and m: "m < 10" "PMode s m = MODE_DECIDED"
    and d: "drained (t\<lparr>p_NextDecide := u, p_Gaps := h2\<rparr>) (Suc m) s'"
  shows "drained s m s'"
proof -
  note keeps = executes_keeps [OF ex]
  let ?u = "t\<lparr>p_NextDecide := u, p_Gaps := h2\<rparr>"
  have "run ?u (Suc m) = run s (Suc m)" by (simp add: run_def keeps)
  moreover have "exec_frame s s'"
  proof (rule exec_frame_trans)
    show "exec_frame s t" using executes_frame [OF ex] exec_frame_updates(1) exec_frame_trans by blast
    show "exec_frame t s'" using d exec_frame_updates(2) exec_frame_trans unfolding drained_def by blast
  qed
  moreover have "exec_fxs ?u (run s (Suc m)) = exec_fxs s (run s (Suc m))"
    by (rule exec_fxs_cong) (simp_all add: keeps)
  moreover have "p_bSuppressAccept t = p_bSuppressAccept s"
    using ex [unfolded executes_def, THEN arg_cong, of p_bSuppressAccept] by simp
  ultimately show ?thesis
    using run_Cons [OF m] d by (simp add: drained_def exec_fxs_def keeps)
qed

text \<open>
  From a state whose next instance is the \<open>m\<close>-th, the loop executes the run of decided instances
  that begins there, in order, and stops at the first one that is not decided; it returns if the
  commands fit their arrays.
\<close>

lemma drain_gaps_drained:
  assumes "gaps_ok s m" and "NextDecide s = Seq s m" and "m \<le> 10"
  shows "drain_gaps fuel s = Some s' \<Longrightarrow> drained s m s'"
    and "list_all (\<lambda>k. cmd_fits (RndValue s k) (MetaCmdRnd s k)) (run s m) \<Longrightarrow>
      hash_size (p_Gaps s) < fuel \<Longrightarrow> \<exists>s'. drain_gaps fuel s = Some s'"
proof -
  have "(\<forall>s'. drain_gaps fuel s = Some s' \<longrightarrow> drained s m s') \<and>
      (list_all (\<lambda>k. cmd_fits (RndValue s k) (MetaCmdRnd s k)) (run s m) \<and> hash_size (p_Gaps s) < fuel
        \<longrightarrow> (\<exists>s'. drain_gaps fuel s = Some s'))"
    using assms
  proof (induction fuel arbitrary: s m)
    case 0
    show ?case by simp
  next
    case (Suc fuel s m)
    show ?case
    proof (cases "m < 10 \<and> PMode s m = MODE_DECIDED")
      case False
      obtain h where "drain_gaps (Suc fuel) s = Some (s\<lparr>p_Gaps := h\<rparr>)" and "drained s m (s\<lparr>p_Gaps := h\<rparr>)"
        by (rule drain_stop [OF Suc.prems False])
      then show ?thesis by simp
    next
      case True
      then have m: "m < 10" and d: "PMode s m = MODE_DECIDED" by simp_all
      obtain h h2 where h2: "gaps_ok (s\<lparr>p_Gaps := h2\<rparr>) (Suc m)" and sz: "hash_size h2 < hash_size (p_Gaps s)"
        and step: "drain_gaps (Suc fuel) s = do {
          s \<leftarrow> Execute (NextDecide s) (RndValue s m) (MetaCmdRnd s m) (s\<lparr>p_Gaps := h\<rparr>);
          drain_gaps fuel (s\<lparr>p_NextDecide := NextDecide s + 1, p_Gaps := h2\<rparr>) }"
        by (rule drain_step [OF Suc.prems(1,2) m d])
      have fx: "exec_fx (s\<lparr>p_Gaps := h\<rparr>) = exec_fx s" by (rule exec_fx_cong) simp_all
      {
        fix t assume t: "Execute (Seq s m) (RndValue s m) (MetaCmdRnd s m) (s\<lparr>p_Gaps := h\<rparr>) = Some t"
        note ex = Execute_executes [OF t, THEN conjunct2, unfolded fx]
        note keeps = executes_keeps [OF ex]
        let ?u = "t\<lparr>p_NextDecide := NextDecide t + 1, p_Gaps := h2\<rparr>"
        have multi: "p_Multi ?u = p_Multi s" by (simp add: keeps)
        have g: "gaps_ok ?u (Suc m)" using h2 gaps_ok_cong [of ?u "s\<lparr>p_Gaps := h2\<rparr>" "Suc m"] multi by simp
        have nd: "NextDecide ?u = Seq ?u (Suc m)" using Suc.prems(2) by (simp add: keeps TO_SEQ_Suc)
        have r: "run ?u (Suc m) = run s (Suc m)" by (simp add: run_def keeps)
        note IH = Suc.IH [OF g nd Suc_leI [OF m]]
        have "\<And>s'. drain_gaps fuel ?u = Some s' \<Longrightarrow> drained s m s'"
          by (rule drained_Suc [OF ex m d]) (use IH in blast)
        moreover have "list_all (\<lambda>k. cmd_fits (RndValue s k) (MetaCmdRnd s k)) (run s (Suc m)) \<Longrightarrow>
            hash_size h2 < fuel \<Longrightarrow> \<exists>s'. drain_gaps fuel ?u = Some s'"
          using IH unfolding r multi by simp
        note calculation this
      }
      note rest = this
      show ?thesis
      proof (intro conjI allI impI)
        fix s' assume "drain_gaps (Suc fuel) s = Some s'"
        then show "drained s m s'"
          unfolding step using rest(1) by (auto simp: Suc.prems(2) bind_eq_Some_conv)
      next
        assume "list_all (\<lambda>k. cmd_fits (RndValue s k) (MetaCmdRnd s k)) (run s m) \<and> hash_size (p_Gaps s) < Suc fuel"
        then have f: "cmd_fits (RndValue s m) (MetaCmdRnd s m)"
          and l: "list_all (\<lambda>k. cmd_fits (RndValue s k) (MetaCmdRnd s k)) (run s (Suc m))" and n: "hash_size h2 < fuel"
          using sz by (simp_all add: run_Cons [OF m d])
        obtain t where t: "Execute (Seq s m) (RndValue s m) (MetaCmdRnd s m) (s\<lparr>p_Gaps := h\<rparr>) = Some t"
          using Execute_fits [OF f] by blast
        show "\<exists>s'. drain_gaps (Suc fuel) s = Some s'"
          unfolding step using t rest(2) [OF t l n] by (simp add: Suc.prems(2))
      qed
    qed
  qed
  then show "drain_gaps fuel s = Some s' \<Longrightarrow> drained s m s'"
    and "list_all (\<lambda>k. cmd_fits (RndValue s k) (MetaCmdRnd s k)) (run s m) \<Longrightarrow>
      hash_size (p_Gaps s) < fuel \<Longrightarrow> \<exists>s'. drain_gaps fuel s = Some s'"
    by auto
qed

section \<open>The invariant of execution\<close>

text \<open>
  \<open>exec_at s n\<close>: the next instance to execute is the \<open>n\<close>-th of the page, and it is not decided;
  the successes of the page are the instances executed and those in the gaps. Between two calls
  \<open>n\<close> is below 10, and within a call it is 10 when the page is complete.
\<close>

definition exec_at :: "Paxos_t \<Rightarrow> nat \<Rightarrow> bool" where
  "exec_at s n \<longleftrightarrow> n \<le> 10 \<and> NextDecide s = Seq s n \<and> SuccessCount s = n + length (pending s n)
     \<and> (n < 10 \<longrightarrow> PMode s n \<noteq> MODE_DECIDED) \<and> gaps_ok s n"

text \<open>The executed sequence numbers are consecutive from \<open>start\<close> and end before \<open>NextDecide\<close>.\<close>

definition log_ok :: "u32 \<Rightarrow> Paxos_t \<Rightarrow> bool" where
  "log_ok start s \<longleftrightarrow> executed s = map (\<lambda>i. start + of_nat i) [0..<length (executed s)]
     \<and> NextDecide s = start + of_nat (length (executed s))"

definition exec_inv :: "u32 \<Rightarrow> Paxos_t \<Rightarrow> bool" where
  "exec_inv start s \<longleftrightarrow> log_ok start s \<and> (\<exists>n < 10. exec_at s n)"

text \<open>
  \<open>exec_due s k n\<close>: as \<open>exec_at\<close>, but the \<open>k\<close>-th instance has just been decided and is neither
  executed nor in the gaps.
\<close>

definition exec_due :: "Paxos_t \<Rightarrow> nat \<Rightarrow> nat \<Rightarrow> bool" where
  "exec_due s k n \<longleftrightarrow> n < 10 \<and> k < 10 \<and> PMode s k = MODE_DECIDED \<and> NextDecide s = Seq s n
     \<and> SuccessCount s = n + length (filter (\<lambda>i. i \<noteq> k) (pending s n))
     \<and> (n \<noteq> k \<longrightarrow> PMode s n \<noteq> MODE_DECIDED) \<and> int_table (p_Gaps s)
     \<and> (\<forall>u. hash_queue (p_Gaps s) (UINT32_PNT u) =
          map (gap_of s) (filter (\<lambda>i. Seq s i = u) (filter (\<lambda>i. i \<noteq> k) (pending s n))))"

lemma run_end: "m \<le> 10 \<Longrightarrow> m + length (run s m) \<le> 10"
  using length_takeWhile_le [of "\<lambda>k. PMode s k = MODE_DECIDED" "[m..<10]"] by (simp add: run_def)

lemma run_upt: "m \<le> 10 \<Longrightarrow> run s m = [m..<m + length (run s m)]"
  using takeWhile_eq_take [of "\<lambda>k. PMode s k = MODE_DECIDED" "[m..<10]"] run_end [of m s]
  by (simp add: run_def take_upt)

lemma run_stops:
  "m \<le> 10 \<Longrightarrow> m + length (run s m) < 10 \<Longrightarrow> PMode s (m + length (run s m)) \<noteq> MODE_DECIDED"
  using nth_length_takeWhile [of "\<lambda>k. PMode s k = MODE_DECIDED" "[m..<10]"] by (simp add: run_def)

lemma pending_run: "m \<le> 10 \<Longrightarrow> pending s m = run s m @ pending s (m + length (run s m))"
proof (induction "length (run s m)" arbitrary: m)
  case 0 then show ?case by simp
next
  case (Suc x m)
  then have r: "run s m \<noteq> []" by auto
  then have m: "m < 10" "PMode s m = MODE_DECIDED" using run_Nil [of m s] by blast+
  have "[0..<10] = [0..<m] @ m # [Suc m..<10]"
    using m upt_add_eq_append [of 0 m "10 - m"] upt_conv_Cons [of m 10] by simp
  moreover have "filter (\<lambda>k. Suc m \<le> k \<and> PMode s k = MODE_DECIDED) [Suc m..<10] =
      filter (\<lambda>k. m \<le> k \<and> PMode s k = MODE_DECIDED) [Suc m..<10]"
    by (rule filter_cong) auto
  ultimately have "pending s m = m # pending s (Suc m)" using m by (simp add: pending_def)
  moreover have "length (run s m) = Suc (length (run s (Suc m)))" by (simp add: run_Cons [OF m])
  ultimately show ?case using Suc.hyps(1) [of "Suc m"] Suc.hyps(2) m by (simp add: run_Cons [OF m])
qed

lemma length_pending: "n < 10 \<Longrightarrow> PMode s n \<noteq> MODE_DECIDED \<Longrightarrow> n + length (pending s n) < 10"
proof -
  assume n: "n < 10" "PMode s n \<noteq> MODE_DECIDED"
  have "pending s n = filter (\<lambda>k. Suc n \<le> k \<and> PMode s k = MODE_DECIDED) ([0..<Suc n] @ [Suc n..<10])"
    using n pending_undecided [of s n] upt_add_eq_append [of 0 "Suc n" "10 - Suc n"] by (simp add: pending_def)
  then have "length (pending s n) \<le> length [Suc n..<10]" by (simp add: order_trans [OF length_filter_le])
  with n show ?thesis by simp
qed

lemma exec_at_10: "exec_at s n \<Longrightarrow> 10 \<le> SuccessCount s \<longleftrightarrow> n = 10"
  using length_pending [of n s] by (cases "n = 10") (auto simp: exec_at_def)

text \<open>\<open>ExecUp\<close> changes the counters of the page, the gaps, \<open>NextDecide\<close> and what \<open>Execute\<close> does.\<close>

definition up_frame :: "Paxos_t \<Rightarrow> Paxos_t \<Rightarrow> bool" where
  "up_frame s s' \<longleftrightarrow>
     Page s' = Page s \<and> PAXOS s' = PAXOS s \<and> METACMD s' = METACMD s \<and> AMode s' = AMode s \<and>
     CurRnd s' = CurRnd s \<and> RndInfQuo s' = RndInfQuo s \<and> p_MyId s' = p_MyId s \<and> p_Max s' = p_Max s \<and> p_Maximum s' = p_Maximum s \<and>
     p_BackPage s' = p_BackPage s \<and> p_MultiLnk s' = p_MultiLnk s \<and> p_aServer s' = p_aServer s"

lemma up_frame_views:
  assumes "up_frame s s'"
  shows "PMode s' = PMode s" "Page s' = Page s" "pending s' = pending s" "gap_of s' = gap_of s"
    "RndValue s' = RndValue s" "MetaCmdRnd s' = MetaCmdRnd s" "run s' = run s" "PAXOS s' = PAXOS s"
    "METACMD s' = METACMD s"
  using assms by (simp_all add: up_frame_def pending_def gap_of_def run_def fun_eq_iff)

lemma up_frame_trans: "up_frame s t \<Longrightarrow> up_frame t u \<Longrightarrow> up_frame s u"
  by (simp add: up_frame_def)

lemma exec_frame_up_frame: "exec_frame s s' \<Longrightarrow> up_frame s s'"
  using exec_frame_keeps [of s s'] by (simp add: up_frame_def)

lemma filter_neq_length:
  "distinct xs \<Longrightarrow> k \<in> set xs \<Longrightarrow> length (filter (\<lambda>i. i \<noteq> k) xs) + 1 = length xs"
proof (induction xs)
  case (Cons x xs)
  have "k \<notin> set xs \<Longrightarrow> filter (\<lambda>i. i \<noteq> k) xs = xs" by (rule filter_True) auto
  with Cons show ?case by (cases "x = k") auto
qed simp

lemma in_pending: "k \<in> set (pending s n) \<longleftrightarrow> n \<le> k \<and> k < 10 \<and> PMode s k = MODE_DECIDED"
  by (auto simp: pending_def)

lemma distinct_pending: "distinct (pending s n)"
  by (simp add: pending_def)

text \<open>The three branches: the instance is in the past, is the next one, or is ahead.\<close>

lemma ExecUp_past:
  assumes due: "exec_due s k n" and k: "k < n" and e: "ExecUp k s = Some (up, s')"
  shows "\<not> up \<and> up_frame s s' \<and> p_Fx s' = p_Fx s \<and> exec_at s' n"
proof -
  have "CMP (Seq s k) (NextDecide s) < 0" using due k by (simp add: exec_due_def CMP_TO_SEQ)
  then have "\<not> up" and s': "s' = (if NextK s < k + 1 then set_multi (\<lambda>m. m\<lparr>p_NextK := k + 1\<rparr>) s else s)"
    using e by (auto simp: ExecUp_def Let_def set_multi_def split: if_splits)
  have f: "up_frame s s'" by (simp add: s' up_frame_def set_multi_def)
  have "k \<notin> set (pending s n)" using k by (simp add: in_pending)
  then have "filter (\<lambda>i. i \<noteq> k) (pending s n) = pending s n" by (auto simp: filter_id_conv)
  then have "exec_at s' n"
    using due k up_frame_views [OF f] by (auto simp: exec_at_def exec_due_def gaps_ok_def s' set_multi_def)
  with f \<open>\<not> up\<close> show ?thesis by (simp add: s' set_multi_def)
qed

text \<open>The state in which \<open>ExecUp\<close> executes or stores the instance.\<close>

definition exec_pre :: "nat \<Rightarrow> Paxos_t \<Rightarrow> Paxos_t" where
  "exec_pre k s =
     (let s = (if NextK s < k + 1 then set_multi (\<lambda>m. m\<lparr>p_NextK := k + 1\<rparr>) s else s) in
      if isDefined (InitValue s k) \<and> v_Server (InitValue s k) \<noteq> v_Server (RndValue s k)
      then emit (FxNotify (PAXOS_MODE (InitValue s k)) PAXOS_REJECTED (Seq s k)
             (v_Server (InitValue s k)) (v_Epoch (InitValue s k)) (MetaCmdInit s k) (int (MyId s))) s
      else s)"

definition rejection :: "nat \<Rightarrow> Paxos_t \<Rightarrow> fx list" where
  "rejection k s =
     (if isDefined (InitValue s k) \<and> v_Server (InitValue s k) \<noteq> v_Server (RndValue s k)
      then [FxNotify (PAXOS_MODE (InitValue s k)) PAXOS_REJECTED (Seq s k)
             (v_Server (InitValue s k)) (v_Epoch (InitValue s k)) (MetaCmdInit s k) (int (MyId s))]
      else [])"

lemma rejection_silent [simp]: "List.map_filter exec_event (rejection k s) = []"
  by (simp add: rejection_def List.map_filter_def)

lemma exec_pre_frame:
  "up_frame s (exec_pre k s)" "p_Fx (exec_pre k s) = p_Fx s @ rejection k s"
  "p_NextDecide (exec_pre k s) = p_NextDecide s" "p_Gaps (exec_pre k s) = p_Gaps s"
  "SuccessCount (exec_pre k s) = SuccessCount s"
  by (simp_all add: exec_pre_def rejection_def up_frame_def set_multi_def emit_def Let_def)

lemma suppress_off:
  "(if p_bSuppressAccept s then s\<lparr>p_bSuppressAccept := False\<rparr> else s) = s\<lparr>p_bSuppressAccept := False\<rparr>"
  by (cases s) simp

lemma ExecUp_pre:
  assumes "\<not> CMP (Seq s k) (NextDecide s) < 0"
  shows "ExecUp k s = do {
     s \<leftarrow> (let s = exec_pre k s in
           if CMP (Seq s k) (NextDecide s) = 0 then
             let s = s\<lparr>p_NextDecide := NextDecide s + 1, p_bSuppressAccept := False\<rparr>
             in do { s \<leftarrow> Execute (Seq s k) (RndValue s k) (MetaCmdRnd s k) s; drain_gaps (Suc (hash_size (p_Gaps s))) s }
           else Some (s\<lparr>p_Gaps := HashPut (p_Gaps s) (UINT32_PNT (Seq s k)) (gap_of s k)\<rparr>));
     Some (True, set_multi (\<lambda>m. m\<lparr>p_SuccessCount := p_SuccessCount m + 1\<rparr>) s)
   }"
proof -
  have c: "\<not> CMP (Seq t k) (NextDecide t) < 0"
    if "t = (if NextK s < k + 1 then set_multi (\<lambda>m. m\<lparr>p_NextK := k + 1\<rparr>) s else s)" for t
    using assms that by (simp add: set_multi_def)
  show ?thesis
    unfolding ExecUp_def exec_pre_def Let_def suppress_off gap_of_def
    by (simp only: c [OF refl] if_False)
qed

lemma ExecUp_next:
  assumes due: "exec_due s n n" and e: "ExecUp n s = Some (up, s')"
  shows "up \<and> up_frame s s' \<and> p_Fx s' = p_Fx s @ rejection n s @ exec_fxs s (run s n)
    \<and> exec_at s' (n + length (run s n))"
proof -
  let ?p = "exec_pre n s"
  note fp = exec_pre_frame [where s = s and k = n]
  note vp = up_frame_views [OF fp(1)]
  have nd: "NextDecide s = Seq s n" and n: "n < 10" and d: "PMode s n = MODE_DECIDED"
    using due by (simp_all add: exec_due_def)
  have cmp: "CMP (Seq ?p n) (NextDecide ?p) = 0" by (simp add: fp vp nd)
  define q where "q = ?p\<lparr>p_NextDecide := NextDecide s + 1, p_bSuppressAccept := False\<rparr>"
  note q = q_def
  have ex: "do { s \<leftarrow> Execute (Seq q n) (RndValue q n) (MetaCmdRnd q n) q; s \<leftarrow> drain_gaps (Suc (hash_size (p_Gaps s))) s;
       Some (True, set_multi (\<lambda>m. m\<lparr>p_SuccessCount := p_SuccessCount m + 1\<rparr>) s) } = Some (up, s')"
    using e ExecUp_pre [of s n] cmp by (simp add: fp vp nd q Let_def bind_assoc)
  obtain t u where t: "Execute (Seq q n) (RndValue q n) (MetaCmdRnd q n) q = Some t"
    and u: "drain_gaps (Suc (hash_size (p_Gaps t))) t = Some u" and up: "up"
    and s': "s' = set_multi (\<lambda>m. m\<lparr>p_SuccessCount := p_SuccessCount m + 1\<rparr>) u"
    using ex by (auto simp: bind_eq_Some_conv)
  note x = Execute_executes [OF t, THEN conjunct2]
  note kx = executes_keeps [OF x]
  have fq: "up_frame s q" using fp(1) by (simp add: q up_frame_def)
  have ft: "up_frame s t" using fq up_frame_trans exec_frame_up_frame [OF executes_frame [OF x]] by blast
  note vt = up_frame_views [OF ft]
  have fxq: "exec_fx q = exec_fx s" using fq by (intro exec_fx_cong) (simp_all add: up_frame_def)
  have "gaps_ok t (Suc n)"
  proof -
    have "filter (\<lambda>i. i \<noteq> n) (pending s n) = pending s (Suc n)"
      by (auto simp: pending_def intro!: filter_cong)
    then show ?thesis
      using due kx(2) by (simp add: gaps_ok_def exec_due_def vt q fp)
  qed
  moreover have "NextDecide t = Seq t (Suc n)" by (simp add: kx(3) q nd vt TO_SEQ_Suc)
  ultimately have dr: "drained t (Suc n) u" using drain_gaps_drained(1) [OF _ _ _ u] n by simp
  then have fu: "up_frame s u" using ft up_frame_trans exec_frame_up_frame unfolding drained_def by blast
  note vu = up_frame_views [OF fu]
  have fs: "up_frame s s'" using fu by (simp add: up_frame_def s' set_multi_def)
  have r: "run s n = n # run s (Suc n)" using n d by (rule run_Cons)
  have fxs: "exec_fxs t (run s (Suc n)) = exec_fxs s (run s (Suc n))"
    using ft exec_fx_cong [of t s] by (simp add: exec_fxs_def vt up_frame_def)
  have "p_Fx s' = p_Fx s @ rejection n s @ exec_fxs s (run s n)"
    using dr fxs fq by (simp add: s' set_multi_def drained_def vt kx(4) q fp r exec_fxs_def fxq [unfolded q] vp)
  moreover have "exec_at s' (n + length (run s n))"
  proof -
    have sc: "SuccessCount u = SuccessCount s"
      using dr exec_frame_keeps(1) [of t u] by (simp add: drained_def kx(1) q fp)
    have "SuccessCount s + 1 = n + length (pending s n)"
      using due filter_neq_length [OF distinct_pending, of n s n] by (simp add: exec_due_def in_pending)
    also have "\<dots> = n + length (run s n) + length (pending s (n + length (run s n)))"
      using n pending_run [of n s] by (metis add.assoc length_append less_imp_le)
    finally show ?thesis
      using dr run_end [of n s] run_stops [of n s] n
        gaps_ok_cong [of s' u]
      by (simp add: exec_at_def drained_def s' set_multi_def sc vu vt r gaps_ok_def pending_def gap_of_def)
  qed
  ultimately show ?thesis using up fs by simp
qed


lemma ExecUp_ahead:
  assumes due: "exec_due s k n" and k: "n < k" and e: "ExecUp k s = Some (up, s')"
  shows "up \<and> up_frame s s' \<and> p_Fx s' = p_Fx s @ rejection k s \<and> exec_at s' n"
proof -
  let ?p = "exec_pre k s"
  note fp = exec_pre_frame [where s = s and k = k]
  note vp = up_frame_views [OF fp(1)]
  have nd: "NextDecide s = Seq s n" and n: "n < 10" "k < 10" and d: "PMode s k = MODE_DECIDED"
    and t: "int_table (p_Gaps s)" using due by (simp_all add: exec_due_def)
  have cmp: "CMP (Seq s k) (Seq s n) > 0" using k n by (simp add: CMP_TO_SEQ)
  have s': "s' = set_multi (\<lambda>m. m\<lparr>p_SuccessCount := p_SuccessCount m + 1\<rparr>)
      (?p\<lparr>p_Gaps := HashPut (p_Gaps s) (UINT32_PNT (Seq s k)) (gap_of s k)\<rparr>)" and up: "up"
    using e cmp ExecUp_pre [of s k] by (simp_all add: Let_def fp vp nd split: if_splits)
  have f: "up_frame s s'" using fp(1) by (simp add: s' up_frame_def set_multi_def)
  note v = up_frame_views [OF f]
  have in_p: "k \<in> set (pending s n)" using k n d by (simp add: in_pending)
  have "gaps_ok s' n"
    unfolding gaps_ok_def
  proof (intro conjI allI)
    show "int_table (p_Gaps s')" using t by (simp add: s' set_multi_def int_table_Put)
    fix u
    have "hash_queue (p_Gaps s') (UINT32_PNT u) =
        (if u = Seq s k then hash_queue (p_Gaps s) (UINT32_PNT u) @ [gap_of s k]
         else hash_queue (p_Gaps s) (UINT32_PNT u))"
      by (simp add: s' set_multi_def hash_queue_Put [OF t])
    also have "\<dots> = map (gap_of s) (filter (\<lambda>i. Seq s i = u) (pending s n))"
    proof (cases "u = Seq s k")
      case True
      have "filter (\<lambda>i. Seq s i = Seq s k) (filter (\<lambda>i. i \<noteq> k) (pending s n)) =
          filter (\<lambda>i. i \<noteq> k) (filter (\<lambda>i. Seq s i = Seq s k) (pending s n))"
        by (simp only: filter_filter conj_commute)
      then show ?thesis using True due pending_at [of k s n] n k d by (simp add: exec_due_def)
    next
      case False
      have "filter (\<lambda>i. Seq s i = u) (filter (\<lambda>i. i \<noteq> k) (pending s n)) = filter (\<lambda>i. Seq s i = u) (pending s n)"
        using False by (auto simp: filter_filter intro!: filter_cong)
      then show ?thesis using False due by (simp add: exec_due_def)
    qed
    finally show "hash_queue (p_Gaps s') (UINT32_PNT u) =
        map (gap_of s') (filter (\<lambda>k. Seq s' k = u) (pending s' n))" by (simp add: v)
  qed
  moreover have "SuccessCount s' = n + length (pending s n)"
    using due filter_neq_length [OF distinct_pending in_p]
    by (simp add: s' set_multi_def fp exec_due_def)
  moreover have "NextDecide s' = Seq s n" by (simp add: s' set_multi_def fp nd)
  ultimately have "exec_at s' n" using due k by (simp add: exec_at_def exec_due_def v)
  with f up show ?thesis by (simp add: s' set_multi_def fp)
qed

text \<open>The three together.\<close>

lemma ExecUp_due:
  assumes due: "exec_due s k n" and e: "ExecUp k s = Some (up, s')"
  shows "up_frame s s'"
    and "\<exists>rej. List.map_filter exec_event rej = [] \<and>
      p_Fx s' = p_Fx s @ rej @ exec_fxs s (if k = n then run s n else [])"
    and "exec_at s' (if k = n then n + length (run s n) else n)"
    and "\<not> up \<Longrightarrow> SuccessCount s' < 10"
proof -
  consider "k < n" | "k = n" | "n < k" by linarith
  then have "up_frame s s' \<and> (\<exists>rej. List.map_filter exec_event rej = [] \<and>
      p_Fx s' = p_Fx s @ rej @ exec_fxs s (if k = n then run s n else [])) \<and>
      exec_at s' (if k = n then n + length (run s n) else n) \<and> (\<not> up \<longrightarrow> SuccessCount s' < 10)"
  proof cases
    case 1
    have "List.map_filter exec_event [] = []" by (simp add: List.map_filter_def)
    with ExecUp_past [OF due 1 e] exec_at_10 [of s' n] due 1 show ?thesis
      by (auto simp: exec_fxs_def exec_due_def)
  next
    case 2
    with ExecUp_next [of s n up s'] due e rejection_silent [of n s] show ?thesis by auto
  next
    case 3
    with ExecUp_ahead [OF due 3 e] rejection_silent [of k s] show ?thesis by (auto simp: exec_fxs_def)
  qed
  then show "up_frame s s'"
    and "\<exists>rej. List.map_filter exec_event rej = [] \<and>
      p_Fx s' = p_Fx s @ rej @ exec_fxs s (if k = n then run s n else [])"
    and "exec_at s' (if k = n then n + length (run s n) else n)"
    and "\<not> up \<Longrightarrow> SuccessCount s' < 10" by auto
qed

section \<open>The end of a page\<close>

lemma autonomic_over_keeps:
  "p_MyId (snd (autonomic_over E js s)) = p_MyId s" "p_Max (snd (autonomic_over E js s)) = p_Max s"
  "p_Maximum (snd (autonomic_over E js s)) = p_Maximum s"
  "p_NextDecide (snd (autonomic_over E js s)) = p_NextDecide s"
  "p_Gaps (snd (autonomic_over E js s)) = p_Gaps s" "p_Fx (snd (autonomic_over E js s)) = p_Fx s"
  "p_Multi (snd (autonomic_over E js s)) = p_Multi s"
  "p_MultiLnk (snd (autonomic_over E js s)) = p_MultiLnk s"
  by (induction js arbitrary: s) (simp_all add: set_srv_def)

definition page_frame :: "Paxos_t \<Rightarrow> Paxos_t \<Rightarrow> bool" where
  "page_frame s s' \<longleftrightarrow>
     p_MyId s' = p_MyId s \<and> p_Max s' = p_Max s \<and> p_Maximum s' = p_Maximum s \<and>
     p_NextDecide s' = p_NextDecide s \<and> p_Gaps s' = p_Gaps s"

lemma PutPage_frame:
  "page_frame s (PutPage E s)" "p_Fx (PutPage E s) = p_Fx s" "Page (PutPage E s) = Page s"
  "SuccessCount (PutPage E s) = SuccessCount s"
  "PAXOS (PutPage E s) = (\<lambda>_. instance_zero)" "METACMD (PutPage E s) = (\<lambda>_. metacmds_zero)"
proof -
  obtain b t where bt: "autonomic_over E [0..<p_Maximum s] (s\<lparr>p_MultiLnk := p_Multi s # p_MultiLnk s\<rparr>) = (b, t)"
    by fastforce
  note t = autonomic_over_keeps [of E "[0..<p_Maximum s]" "s\<lparr>p_MultiLnk := p_Multi s # p_MultiLnk s\<rparr>", unfolded bt snd_conv]
  show "page_frame s (PutPage E s)" "p_Fx (PutPage E s) = p_Fx s" "Page (PutPage E s) = Page s"
    "SuccessCount (PutPage E s) = SuccessCount s"
    "PAXOS (PutPage E s) = (\<lambda>_. instance_zero)" "METACMD (PutPage E s) = (\<lambda>_. metacmds_zero)"
    using t by (simp_all add: PutPage_def bt page_frame_def set_multi_def Let_def)
qed

lemma fold_set_inst:
  "p_MyId (fold (\<lambda>k. set_inst k f) ks s) = p_MyId s" "p_Max (fold (\<lambda>k. set_inst k f) ks s) = p_Max s"
  "p_Maximum (fold (\<lambda>k. set_inst k f) ks s) = p_Maximum s"
  "p_NextDecide (fold (\<lambda>k. set_inst k f) ks s) = p_NextDecide s"
  "p_Gaps (fold (\<lambda>k. set_inst k f) ks s) = p_Gaps s" "p_Fx (fold (\<lambda>k. set_inst k f) ks s) = p_Fx s"
  "Page (fold (\<lambda>k. set_inst k f) ks s) = Page s"
  "distinct ks \<Longrightarrow> PAXOS (fold (\<lambda>k. set_inst k f) ks s) i = (if i \<in> set ks then f (PAXOS s i) else PAXOS s i)"
  by (induction ks arbitrary: s) (simp_all add: set_inst_def)

lemma UpdatePage_frame:
  assumes "10 \<le> SuccessCount s"
  shows "page_frame s (UpdatePage E s)" "p_Fx (UpdatePage E s) = p_Fx s @ [FxBroadcast]"
    "Page (UpdatePage E s) = Page s + 1" "SuccessCount (UpdatePage E s) = 0"
    "PMode (UpdatePage E s) k = MODE_NONE"
  using assms PutPage_frame [where s = s and E = E]
  by (simp_all add: UpdatePage_def Let_def emit_def set_multi_def page_frame_def fold_set_inst instance_zero_def
      del: upt.simps)

lemma UpdatePage_exec_at: "exec_at s 10 \<Longrightarrow> exec_at (UpdatePage E s) 0"
proof -
  assume a: "exec_at s 10"
  then have sc: "10 \<le> SuccessCount s" by (simp add: exec_at_def)
  note u = UpdatePage_frame [OF sc, of E]
  have p: "pending s 10 = []" by (simp add: pending_def)
  have p0: "pending (UpdatePage E s) 0 = []" by (simp add: pending_def u)
  have "gaps_ok (UpdatePage E s) 0"
    using a u(1) by (simp add: exec_at_def gaps_ok_def p p0 page_frame_def)
  moreover have "NextDecide (UpdatePage E s) = Seq (UpdatePage E s) 0"
    using a u(1,3) TO_SEQ_next_page [of "Page s"] by (simp add: exec_at_def page_frame_def)
  ultimately show ?thesis by (simp add: exec_at_def u p0)
qed

section \<open>The log\<close>

lemma map_filter_exec_fxs: "List.map_filter exec_event (exec_fxs s ks) = map (Seq s) ks"
  by (simp add: exec_fxs_def List.map_filter_def)

lemma log_ok_extend:
  assumes log: "log_ok start s" and nd: "NextDecide s = TO_SEQ p n"
    and ex: "executed s' = executed s @ map (TO_SEQ p) [n..<n + r]" and nd': "NextDecide s' = TO_SEQ p (n + r)"
  shows "log_ok start s'"
proof -
  let ?L = "length (executed s)"
  have seq: "TO_SEQ p (n + i) = start + of_nat (?L + i)" for i
    using log nd by (simp add: log_ok_def TO_SEQ_def algebra_simps)
  have "map (TO_SEQ p) [n..<n + r] = map (\<lambda>i. start + of_nat i) [?L..<?L + r]"
    using seq by (simp only: map_upt_shift)
  moreover have "[0..<?L + r] = [0..<?L] @ [?L..<?L + r]" using upt_add_eq_append [of 0 ?L r] by simp
  ultimately show ?thesis
    using log ex nd' seq [of r] by (simp only: log_ok_def map_append length_append length_map length_upt) simp
qed

end
