(* ===== verification/Paxos_Evolve.thy ===== *)
theory Paxos_Evolve
  imports Paxos_Order
begin

text \<open>
  What a server may do in any step: the invariant of execution is kept, the trace grows, a decision
  stays as it is until its page is complete, and what is executed is what was decided.
\<close>

section \<open>Evolution\<close>

text \<open>The decision of an instance of the current page.\<close>

definition decided :: "Paxos_t \<Rightarrow> nat \<Rightarrow> (value_t \<times> MetaCmd_t) option" where
  "decided s k = (if PMode s k = MODE_DECIDED then Some (RndValue s k, MetaCmdRnd s k) else None)"

text \<open>The events of the trace that execute, and what it is to execute a decided command.\<close>

definition exec_log :: "Paxos_t \<Rightarrow> fx list" where
  "exec_log s = filter (\<lambda>x. exec_event x \<noteq> None) (p_Fx s)"

definition executes_as :: "Paxos_t \<Rightarrow> u32 \<Rightarrow> value_t \<Rightarrow> MetaCmd_t \<Rightarrow> fx \<Rightarrow> bool" where
  "executes_as s seq pD pC x \<longleftrightarrow>
     (if v_Flags pD AND VALUE_NOOP \<noteq> 0
      then x = FxNotify (PAXOS_MODE pD) PAXOS_NOOP seq (v_Server pD) (v_Epoch pD) pC (int (MyId s))
      else (case x of
          FxPost e \<Rightarrow> e_Seq e = seq \<and> e_Validate e = (v_Flags pD AND VALUE_VALIDATE \<noteq> 0)
            \<and> e_Notify e = PAXOS_ACCEPTED \<and> e_Cmd e = take (unat (c_len pC)) (c_opaque pC)
        | _ \<Rightarrow> False))"

lemma executes_as_exec_fx: "p_MyId t = p_MyId s \<Longrightarrow> executes_as s seq v c (exec_fx t seq v c)"
  by (simp add: executes_as_def exec_fx_def)

lemma executes_as_cong: "p_MyId t = p_MyId s \<Longrightarrow> executes_as t = executes_as s"
  by (intro ext) (simp add: executes_as_def)

lemma length_exec_log: "length (exec_log s) = length (executed s)"
  by (simp add: exec_log_def executed_def List.map_filter_def)

lemma exec_log_append: "p_Fx t = p_Fx s @ xs \<Longrightarrow> exec_log t = exec_log s @ filter (\<lambda>x. exec_event x \<noteq> None) xs"
  by (simp add: exec_log_def)

lemma exec_log_same: "prefix (p_Fx s) (p_Fx t) \<Longrightarrow> executed t = executed s \<Longrightarrow> exec_log t = exec_log s"
  by (auto simp: prefix_def exec_log_def executed_def List.map_filter_def)

lemma exec_log_nth: "prefix (p_Fx s) (p_Fx t) \<Longrightarrow> i < length (exec_log s) \<Longrightarrow> exec_log t ! i = exec_log s ! i"
  by (auto simp: prefix_def exec_log_def nth_append)

lemma executed_mono: "prefix (p_Fx s) (p_Fx t) \<Longrightarrow> length (executed s) \<le> length (executed t)"
  by (auto simp: prefix_def executed_def map_filter_append)

text \<open>
  Until the page is complete, which takes the execution of its last instance, it is the current one
  and its decisions stay; and an instance decided before it is executed is executed as decided.
\<close>

definition keeps_page :: "Paxos_t \<Rightarrow> Paxos_t \<Rightarrow> bool" where
  "keeps_page s s' \<longleftrightarrow> (\<forall>n < 10. exec_at s n \<longrightarrow>
     (length (executed s') < length (executed s) + (10 - n) \<longrightarrow>
        Page s' = Page s \<and> (\<forall>k. decided s k \<noteq> None \<longrightarrow> decided s' k = decided s k)) \<and>
     (\<forall>k v c. n \<le> k \<and> k < 10 \<and> decided s k = Some (v, c) \<and> length (executed s) + (k - n) < length (executed s') \<longrightarrow>
        executes_as s (Seq s k) v c (exec_log s' ! (length (executed s) + (k - n)))))"

definition same_config :: "Paxos_t \<Rightarrow> Paxos_t \<Rightarrow> bool" where
  "same_config s s' \<longleftrightarrow> p_MyId s' = p_MyId s \<and> p_Max s' = p_Max s \<and> p_Maximum s' = p_Maximum s"

text \<open>
  How a server evolves from a state with the invariant: the invariant is kept, the trace only
  grows, and decisions are kept. \<open>quiet\<close> is the special case of an operation that neither decides
  nor executes.
\<close>

definition evolve :: "Paxos_t \<Rightarrow> Paxos_t \<Rightarrow> bool" where
  "evolve s s' \<longleftrightarrow> (\<forall>start. exec_inv start s \<longrightarrow>
     exec_inv start s' \<and> same_config s s' \<and> prefix (p_Fx s) (p_Fx s') \<and> keeps_page s s')"

definition quiet :: "Paxos_t \<Rightarrow> Paxos_t \<Rightarrow> bool" where
  "quiet s s' \<longleftrightarrow> same_config s s' \<and> Page s' = Page s \<and> SuccessCount s' = SuccessCount s \<and>
     NextDecide s' = NextDecide s \<and> p_Gaps s' = p_Gaps s \<and> decided s' = decided s \<and>
     executed s' = executed s \<and> prefix (p_Fx s) (p_Fx s')"

lemma keeps_page_quiet: "Page t = Page s \<Longrightarrow> decided t = decided s \<Longrightarrow> executed t = executed s \<Longrightarrow> keeps_page s t"
  by (simp add: keeps_page_def)

text \<open>While the page lasts, the position in it advances with the log.\<close>

lemma exec_at_advance:
  assumes s: "exec_at s n" "n < 10" "log_ok start s" and t: "exec_at t m" "m < 10" "log_ok start t"
    and p: "Page t = Page s" and l: "length (executed s) \<le> length (executed t)"
      "length (executed t) < length (executed s) + (10 - n)"
  shows "m = n + (length (executed t) - length (executed s))"
proof -
  let ?d = "length (executed t) - length (executed s)"
  have "Seq s m = start + of_nat (length (executed t))" using t p by (simp add: exec_at_def log_ok_def)
  also have "\<dots> = start + of_nat (length (executed s)) + of_nat ?d" using l(1) by simp
  also have "\<dots> = Seq s n + of_nat ?d" using s by (simp add: exec_at_def log_ok_def)
  also have "\<dots> = Seq s (n + ?d)" by (simp add: TO_SEQ_def)
  finally have "Seq s m = Seq s (n + ?d)" .
  moreover have "n + ?d < 10" using l(2) s(2) by linarith
  ultimately show ?thesis using TO_SEQ_inject [of m "n + ?d" "Page s"] t(2) by simp
qed

lemma keeps_page_trans:
  assumes s: "exec_inv start s" and t: "exec_inv start t"
    and st: "prefix (p_Fx s) (p_Fx t)" "same_config s t" "keeps_page s t"
    and tu: "prefix (p_Fx t) (p_Fx u)" "keeps_page t u"
  shows "keeps_page s u"
  unfolding keeps_page_def
proof (intro allI impI)
  fix n assume n: "n < 10" "exec_at s n"
  obtain m where m: "m < 10" "exec_at t m" using t by (auto simp: exec_inv_def)
  let ?L = "\<lambda>x. length (executed x)"
  have L: "?L s \<le> ?L t" "?L t \<le> ?L u" using executed_mono st(1) tu(1) by blast+
  note a = st(3) [unfolded keeps_page_def, rule_format, OF n]
  note b = tu(2) [unfolded keeps_page_def, rule_format, OF m]
  have adv: "m = n + (?L t - ?L s)" if "?L t < ?L s + (10 - n)"
    using exec_at_advance [of s n start t m] n m s t a that L by (simp add: exec_inv_def)
  have "?L u < ?L s + (10 - n) \<longrightarrow> Page u = Page s \<and> (\<forall>k. decided s k \<noteq> None \<longrightarrow> decided u k = decided s k)"
  proof
    assume u: "?L u < ?L s + (10 - n)"
    then have t: "?L t < ?L s + (10 - n)" using L by simp
    then have "?L u < ?L t + (10 - m)" using adv u m L by simp
    then show "Page u = Page s \<and> (\<forall>k. decided s k \<noteq> None \<longrightarrow> decided u k = decided s k)"
      using a b t by fastforce
  qed
  moreover have "executes_as s (Seq s k) v c (exec_log u ! (?L s + (k - n)))"
    if k: "n \<le> k" "k < 10" "decided s k = Some (v, c)" "?L s + (k - n) < ?L u" for k v c
  proof (cases "?L s + (k - n) < ?L t")
    case True
    then show ?thesis using a k exec_log_nth [OF tu(1)] by (simp add: length_exec_log)
  next
    case False
    then have tt: "?L t < ?L s + (10 - n)" using k by linarith
    have "Page t = Page s" "decided t k = Some (v, c)" using a tt k(3) by auto
    moreover have "m \<le> k" "?L t + (k - m) = ?L s + (k - n)" using adv [OF tt] False k L by simp_all
    moreover have "executes_as t = executes_as s" using st(2) by (intro executes_as_cong) (simp add: same_config_def)
    moreover have "?L t + (k - m) < ?L u" using calculation(4) k(4) by simp
    then have "executes_as t (Seq t k) v c (exec_log u ! (?L t + (k - m)))"
      using b calculation(2,3) k(2) by blast
    ultimately show ?thesis by metis
  qed
  ultimately show "(?L u < ?L s + (10 - n) \<longrightarrow> Page u = Page s \<and> (\<forall>k. decided s k \<noteq> None \<longrightarrow> decided u k = decided s k)) \<and>
    (\<forall>k v c. n \<le> k \<and> k < 10 \<and> decided s k = Some (v, c) \<and> ?L s + (k - n) < ?L u \<longrightarrow>
       executes_as s (Seq s k) v c (exec_log u ! (?L s + (k - n))))" by blast
qed

interpretation evolve: evolution evolve
proof
  fix s t u
  show "evolve s s" by (simp add: evolve_def same_config_def keeps_page_quiet)
  assume st: "evolve s t" and tu: "evolve t u"
  show "evolve s u"
    unfolding evolve_def
  proof (intro allI impI)
    fix start assume s: "exec_inv start s"
    note a = st [unfolded evolve_def, rule_format, OF s]
    then have t: "exec_inv start t" by blast
    note b = tu [unfolded evolve_def, rule_format, OF t]
    have "keeps_page s u" using keeps_page_trans [OF s t] a b by blast
    moreover have "prefix (p_Fx s) (p_Fx u)" using a b prefix_order.trans by blast
    ultimately show "exec_inv start u \<and> same_config s u \<and> prefix (p_Fx s) (p_Fx u) \<and> keeps_page s u"
      using a b by (simp add: same_config_def)
  qed
qed

interpretation quiet: evolution quiet
proof
  fix s t u
  show "quiet s s" by (simp add: quiet_def same_config_def)
  assume "quiet s t" "quiet t u"
  then show "quiet s u" by (auto simp: quiet_def same_config_def intro: prefix_order.trans)
qed

lemma decided_mode: "PMode s k = MODE_DECIDED \<longleftrightarrow> decided s k \<noteq> None"
  by (simp add: decided_def)

lemma decided_gap_of:
  "decided s k = decided t k \<Longrightarrow> decided s k \<noteq> None \<Longrightarrow> Page s = Page t \<Longrightarrow> gap_of s k = gap_of t k"
  by (auto simp: decided_def gap_of_def split: if_splits)

lemma pending_decided:
  "(\<And>i. i \<noteq> k \<Longrightarrow> decided t i = decided s i) \<Longrightarrow> decided s k = None \<Longrightarrow>
     filter (\<lambda>i. i \<noteq> k) (pending t n) = pending s n"
  unfolding pending_def filter_filter decided_mode by (rule filter_cong) (rule refl, metis)

lemma quiet_evolve:
  assumes q: "quiet s s'"
  shows "evolve s s'"
  unfolding evolve_def
proof (intro allI impI)
  fix start
  assume inv: "exec_inv start s"
  have d: "decided s' = decided s" and p: "Page s' = Page s" using q by (simp_all add: quiet_def)
  have m: "PMode s' k = MODE_DECIDED \<longleftrightarrow> PMode s k = MODE_DECIDED" for k by (simp only: decided_mode d)
  then have pend: "pending s' = pending s" by (intro ext) (simp add: pending_def)
  have g: "map (gap_of s') (filter P (pending s n)) = map (gap_of s) (filter P (pending s n))" for P n
    using d p by (auto simp: in_pending decided_mode intro!: decided_gap_of)
  have "exec_at s' n" if "exec_at s n" for n
    using that q m by (simp add: exec_at_def gaps_ok_def pend g quiet_def)
  moreover have "log_ok start s'" using inv q by (simp add: exec_inv_def log_ok_def quiet_def)
  ultimately have "exec_inv start s'" using inv by (auto simp: exec_inv_def)
  then show "exec_inv start s' \<and> same_config s s' \<and> prefix (p_Fx s) (p_Fx s') \<and> keeps_page s s'"
    using q by (simp add: quiet_def keeps_page_quiet)
qed

text \<open>\<open>decides s k t\<close>: from \<open>s\<close> to \<open>t\<close> the \<open>k\<close>-th instance, undecided before, is decided.\<close>

definition decides :: "Paxos_t \<Rightarrow> nat \<Rightarrow> Paxos_t \<Rightarrow> bool" where
  "decides s k t \<longleftrightarrow> k < 10 \<and> decided s k = None \<and> PMode t k = MODE_DECIDED \<and>
     (\<forall>i. i \<noteq> k \<longrightarrow> decided t i = decided s i) \<and>
     same_config s t \<and> Page t = Page s \<and> SuccessCount t = SuccessCount s \<and>
     NextDecide t = NextDecide s \<and> p_Gaps t = p_Gaps s \<and>
     executed t = executed s \<and> prefix (p_Fx s) (p_Fx t)"

lemma decides_due:
  assumes d: "decides s k t" and a: "exec_at s n" and n: "n < 10"
  shows "exec_due t k n"
proof -
  have others: "\<And>i. i \<noteq> k \<Longrightarrow> decided t i = decided s i" and dk: "decided s k = None"
    using d by (simp_all add: decides_def)
  note pend = pending_decided [OF others dk, of n]
  have g: "map (gap_of t) (filter P (pending s n)) = map (gap_of s) (filter P (pending s n))" for P
  proof (rule map_cong [OF refl])
    fix i assume "i \<in> set (filter P (pending s n))"
    then have "decided s i \<noteq> None" by (simp add: in_pending decided_mode)
    moreover from this dk have "i \<noteq> k" by auto
    ultimately show "gap_of t i = gap_of s i"
      using others d by (intro decided_gap_of) (simp_all add: decides_def)
  qed
  have "n \<noteq> k \<longrightarrow> PMode t n \<noteq> MODE_DECIDED"
    using a n others by (auto simp: exec_at_def decided_mode)
  then show ?thesis
    using d a n by (simp add: exec_due_def pend g exec_at_def gaps_ok_def decides_def)
qed

text \<open>Whatever \<open>Exec\<close> does after a decision is an evolution.\<close>

lemma Exec_step:
  assumes "Exec E k s = Some s'"
  obtains t up u where "ExecUp k t = Some (up, u)"
    and "s' = (if up \<and> PAXOS_MAX \<le> SuccessCount u then UpdatePage E u else u)"
    and "p_Multi t = p_Multi s" "same_config s t" "p_NextDecide t = p_NextDecide s" "p_Gaps t = p_Gaps s"
      "p_Fx t = p_Fx s"
proof -
  let ?t = "if p_IssuedLast s \<noteq> 0 \<and> CMP (TO_SEQ (Page s) (NextK s)) (p_CatchupNextDecide s) \<ge> 0
    then s\<lparr>p_IssuedLast := 0, p_CatchupNextDecide := p_IssuedSeq s + 1\<rparr> else s"
  from assms obtain up u where "ExecUp k ?t = Some (up, u)"
    and "s' = (if up \<and> PAXOS_MAX \<le> SuccessCount u then UpdatePage E u else u)"
    unfolding Exec_def Let_def by (auto simp: bind_eq_Some_conv simp del: not_less)
  then show ?thesis by (rule that) (simp_all add: same_config_def)
qed

lemma exec_due_cong:
  "p_Multi t = p_Multi s \<Longrightarrow> p_NextDecide t = p_NextDecide s \<Longrightarrow> p_Gaps t = p_Gaps s \<Longrightarrow>
     exec_due t k n = exec_due s k n"
  using pending_cong [of t s n] gap_of_cong [of t s] by (simp add: exec_due_def)

lemma decide_Exec:
  assumes d: "decides s k t" and e: "Exec E k t = Some s'"
  shows "evolve s s'"
  unfolding evolve_def
proof (intro allI impI)
  fix start
  assume inv: "exec_inv start s"
  then obtain n where n: "n < 10" "exec_at s n" and log: "log_ok start s" by (auto simp: exec_inv_def)
  from e obtain v up u where u: "ExecUp k v = Some (up, u)"
    and s': "s' = (if up \<and> PAXOS_MAX \<le> SuccessCount u then UpdatePage E u else u)"
    and v: "p_Multi v = p_Multi t" "same_config t v" "p_NextDecide v = p_NextDecide t" "p_Gaps v = p_Gaps t"
      "p_Fx v = p_Fx t"
    by (rule Exec_step)
  have due: "exec_due v k n" using decides_due [OF d n(2,1)] exec_due_cong [OF v(1,3,4)] by simp
  note x = ExecUp_due [OF due u]
  note vv = up_frame_views [OF x(1)]
  let ?m = "if k = n then n + length (run v n) else n"
  obtain rej where rej: "List.map_filter exec_event rej = []"
    and fx: "p_Fx u = p_Fx v @ rej @ exec_fxs v (if k = n then run v n else [])" using x(2) by blast
  have cfg: "same_config s u"
    using d v(2) x(1) by (simp add: decides_def same_config_def up_frame_def)
  have pre: "prefix (p_Fx s) (p_Fx u)" using d v(5) fx by (simp add: decides_def)
  have nd: "NextDecide s = TO_SEQ (Page v) n" using n d v(1) by (simp add: exec_at_def decides_def)
  have nd': "NextDecide u = TO_SEQ (Page v) ?m" using x(3) vv by (simp add: exec_at_def)
  have ex: "executed u = executed s @ map (TO_SEQ (Page v)) [n..<?m]"
    using d fx v(5) run_upt [of n v] n
    by (simp add: executed_def map_filter_append rej map_filter_exec_fxs decides_def)
  have lu: "exec_log u = exec_log s @ exec_fxs v [n..<?m]"
  proof -
    have "exec_log v = exec_log s" using exec_log_same d v(5) by (simp add: decides_def exec_log_def executed_def)
    moreover have "filter (\<lambda>x. exec_event x \<noteq> None) rej = []"
      using rej by (simp add: List.map_filter_def filter_empty_conv)
    moreover have "filter (\<lambda>x. exec_event x \<noteq> None) (exec_fxs v ks) = exec_fxs v ks" for ks
      by (simp add: exec_fxs_def filter_id_conv)
    ultimately show ?thesis using exec_log_append [OF fx] run_upt [of n v] n by (simp add: exec_fxs_def)
  qed
  have log_u: "log_ok start u"
    using log_ok_extend [OF log nd, of u "?m - n"] ex nd' by (simp split: if_splits)
  have keep: "Page u = Page s" "\<forall>i. decided s i \<noteq> None \<longrightarrow> decided u i = decided s i"
  proof -
    have "decided u = decided t" using v(1) vv by (intro ext) (simp add: decided_def)
    then show "\<forall>i. decided s i \<noteq> None \<longrightarrow> decided u i = decided s i"
      using d unfolding decides_def by metis
    show "Page u = Page s" using d vv v(1) by (simp add: decides_def)
  qed
  have kp: "keeps_page s x"
    if x: "exec_log x = exec_log u" "?m < 10 \<Longrightarrow> Page x = Page u \<and> decided x = decided u" for x
    unfolding keeps_page_def
  proof (intro allI impI)
    fix j assume j: "j < 10" "exec_at s j"
    have L: "length (executed x) = length (executed s) + (?m - n)"
      using ex x(1) by (simp flip: length_exec_log) (simp add: lu exec_fxs_def)
    have "j = n" using j n TO_SEQ_inject [of j n] by (simp add: exec_at_def)
    moreover have "Page x = Page s \<and> (\<forall>k. decided s k \<noteq> None \<longrightarrow> decided x k = decided s k)" if "?m < 10"
      using x(2) [OF that] keep by simp
    moreover have "executes_as s (Seq s k) w c (exec_log x ! (length (executed s) + (k - n)))"
      if k: "n \<le> k" "k < 10" "decided s k = Some (w, c)" "length (executed s) + (k - n) < length (executed x)" for k w c
    proof -
      have km: "k < ?m" using k L by simp
      then have "exec_log x ! (length (executed s) + (k - n)) = exec_fx v (Seq v k) (RndValue v k) (MetaCmdRnd v k)"
        using k(1) nth_append_length_plus [of "exec_log s" "exec_fxs v [n..<?m]" "k - n"]
        unfolding x(1) lu length_exec_log by (simp add: exec_fxs_def split: if_splits)
      moreover have "decided t k = Some (w, c)" using d k(3) unfolding decides_def by (metis option.distinct(1))
      then have "RndValue v k = w" "MetaCmdRnd v k = c" using v(1) by (simp_all add: decided_def split: if_splits)
      moreover have "p_MyId v = p_MyId s" "Page v = Page s" using d v(1,2) by (simp_all add: decides_def same_config_def)
      ultimately show ?thesis by (simp add: executes_as_exec_fx)
    qed
    ultimately show "(length (executed x) < length (executed s) + (10 - j) \<longrightarrow>
        Page x = Page s \<and> (\<forall>k. decided s k \<noteq> None \<longrightarrow> decided x k = decided s k)) \<and>
      (\<forall>k v c. j \<le> k \<and> k < 10 \<and> decided s k = Some (v, c) \<and> length (executed s) + (k - j) < length (executed x) \<longrightarrow>
        executes_as s (Seq s k) v c (exec_log x ! (length (executed s) + (k - j))))"
      using L n(1) by auto
  qed
  show "exec_inv start s' \<and> same_config s s' \<and> prefix (p_Fx s) (p_Fx s') \<and> keeps_page s s'"
  proof (cases "10 \<le> SuccessCount u")
    case True
    then have m: "?m = 10" and "up" using exec_at_10 [OF x(3)] x(4) by auto
    then have s'': "s' = UpdatePage E u" using s' True by simp
    note pf = UpdatePage_frame [OF True, of E]
    have "exec_at s' 0" using UpdatePage_exec_at x(3) m s'' by simp
    moreover have "log_ok start s'"
      using log_u pf by (simp add: log_ok_def s'' executed_def map_filter_append map_filter_one page_frame_def)
    moreover have "keeps_page s s'" by (rule kp) (use pf m in \<open>simp_all add: s'' exec_log_def\<close>)
    ultimately show ?thesis
      using cfg pre pf unfolding exec_inv_def
      by (intro conjI exI [of _ 0]) (simp_all add: s'' same_config_def page_frame_def prefix_order.trans [of _ "p_Fx u"])
  next
    case False
    then have s'': "s' = u" and "?m < 10" using s' exec_at_10 [OF x(3)] x(3) by (auto simp: exec_at_def)
    then show ?thesis
      using log_u x(3) cfg pre kp [of u] by (auto simp: exec_inv_def)
  qed
qed

end
