(* ===== verification/Paxos_Steps.thy ===== *)
theory Paxos_Steps
  imports Paxos_Dispatch Paxos_Evolve
begin

text \<open>
  Every operation of the server evolves its state: \<open>quiet\<close> for those that neither decide nor
  execute, and through \<open>decide_Exec\<close> for those that do. The conclusion is for all the states a
  server can reach.
\<close>

section \<open>Quiet assignments\<close>

named_theorems quiet_intro

lemma quiet_refl [quiet_intro]: "quiet s s"
  by (rule quiet.refl)

lemma decided_cong: "PAXOS s = PAXOS t \<Longrightarrow> METACMD s = METACMD t \<Longrightarrow> decided s = decided t"
  by (simp add: decided_def fun_eq_iff)

lemma quiet_same:
  "quiet s t \<Longrightarrow> p_MyId u = p_MyId t \<Longrightarrow> p_Max u = p_Max t \<Longrightarrow> p_Maximum u = p_Maximum t \<Longrightarrow>
     Page u = Page t \<Longrightarrow> SuccessCount u = SuccessCount t \<Longrightarrow> PAXOS u = PAXOS t \<Longrightarrow> METACMD u = METACMD t \<Longrightarrow>
     NextDecide u = NextDecide t \<Longrightarrow> p_Gaps u = p_Gaps t \<Longrightarrow> p_Fx u = p_Fx t \<Longrightarrow> quiet s u"
  using decided_cong [of u t] by (simp add: quiet_def same_config_def executed_def)

lemma quiet_emit [quiet_intro]: "quiet s t \<Longrightarrow> exec_event x = None \<Longrightarrow> quiet s (emit x t)"
  using decided_cong [of "emit x t" t]
  by (simp add: quiet_def emit_def same_config_def executed_def map_filter_append map_filter_one prefix_prefix)

lemma quiet_srv [quiet_intro]: "quiet s t \<Longrightarrow> quiet s (set_srv j f t)"
  by (erule quiet_same) (simp_all add: set_srv_def)

lemma quiet_election [quiet_intro]: "quiet s t \<Longrightarrow> quiet s (set_election f t)"
  by (erule quiet_same) (simp_all add: set_election_def)

lemma quiet_multi [quiet_intro]:
  "quiet s t \<Longrightarrow> p_Page (f (p_Multi t)) = Page t \<and> p_SuccessCount (f (p_Multi t)) = SuccessCount t \<and>
     m_aPaxos (f (p_Multi t)) = PAXOS t \<and> m_aMetaCmd (f (p_Multi t)) = METACMD t \<Longrightarrow>
     quiet s (set_multi f t)"
  by (erule quiet_same) (simp_all add: set_multi_def)

lemma quiet_inst [quiet_intro]:
  "quiet s t \<Longrightarrow> (p_Mode (f (PAXOS t k)) = MODE_DECIDED \<longleftrightarrow> PMode t k = MODE_DECIDED) \<Longrightarrow>
     (PMode t k = MODE_DECIDED \<Longrightarrow> p_RndValue (f (PAXOS t k)) = RndValue t k) \<Longrightarrow>
     quiet s (set_inst k f t)"
proof -
  assume q: "quiet s t"
    and k: "p_Mode (f (PAXOS t k)) = MODE_DECIDED \<longleftrightarrow> PMode t k = MODE_DECIDED"
      "PMode t k = MODE_DECIDED \<Longrightarrow> p_RndValue (f (PAXOS t k)) = RndValue t k"
  have "decided (set_inst k f t) = decided t"
    using k by (auto simp: decided_def set_inst_def fun_eq_iff)
  with q show ?thesis by (simp add: quiet_def set_inst_def same_config_def executed_def)
qed

lemma quiet_cmds [quiet_intro]:
  "quiet s t \<Longrightarrow> (PMode t k = MODE_DECIDED \<Longrightarrow> c_MetaCmdRnd (f (METACMD t k)) = MetaCmdRnd t k) \<Longrightarrow>
     quiet s (set_cmds k f t)"
proof -
  assume q: "quiet s t" and k: "PMode t k = MODE_DECIDED \<Longrightarrow> c_MetaCmdRnd (f (METACMD t k)) = MetaCmdRnd t k"
  have "decided (set_cmds k f t) = decided t"
    using k by (auto simp: decided_def set_cmds_def fun_eq_iff)
  with q show ?thesis by (simp add: quiet_def set_cmds_def same_config_def executed_def)
qed

lemma quiet_fields [quiet_intro]:
  "quiet s t \<Longrightarrow> quiet s (t\<lparr>p_bSuppressAccept := b\<rparr>)"
  "quiet s t \<Longrightarrow> quiet s (t\<lparr>p_Active := b\<rparr>)"
  "quiet s t \<Longrightarrow> quiet s (t\<lparr>p_BackPage := u\<rparr>)"
  "quiet s t \<Longrightarrow> quiet s (t\<lparr>p_MultiLnk := ms\<rparr>)"
  "quiet s t \<Longrightarrow> quiet s (t\<lparr>p_QueuePaxos := q\<rparr>)"
  "quiet s t \<Longrightarrow> quiet s (t\<lparr>p_QueueHeartbeat := q\<rparr>)"
  "quiet s t \<Longrightarrow> quiet s (t\<lparr>p_Outbound := qo\<rparr>)"
  "quiet s t \<Longrightarrow> quiet s (t\<lparr>p_NewRoundLast := i\<rparr>)"
  "quiet s t \<Longrightarrow> quiet s (t\<lparr>p_CatchupNextDecide := u\<rparr>)"
  "quiet s t \<Longrightarrow> quiet s (t\<lparr>p_pCatchupServer := jo\<rparr>)"
  "quiet s t \<Longrightarrow> quiet s (t\<lparr>p_CatchupPageLast := i\<rparr>)"
  "quiet s t \<Longrightarrow> quiet s (t\<lparr>p_CatchupRecvLast := ts\<rparr>)"
  "quiet s t \<Longrightarrow> quiet s (t\<lparr>p_CatchupRecvServer := i\<rparr>)"
  "quiet s t \<Longrightarrow> quiet s (t\<lparr>p_IssuedLast := i\<rparr>)"
  "quiet s t \<Longrightarrow> quiet s (t\<lparr>p_IssuedSeq := u\<rparr>)"
  "quiet s t \<Longrightarrow> quiet s (t\<lparr>p_RecvStop := rs\<rparr>)"
  "quiet s t \<Longrightarrow> quiet s (t\<lparr>p_CatchupStop := b\<rparr>)"
  "quiet s t \<Longrightarrow> quiet s (t\<lparr>p_bFreeze := b\<rparr>)"
  "quiet s t \<Longrightarrow> quiet s (t\<lparr>p_bPageSuppress := b\<rparr>)"
  by (erule quiet_same; simp)+

lemma quiet_fold [quiet_intro]:
  "quiet s t \<Longrightarrow> (\<And>i u. i \<in> set is \<Longrightarrow> quiet u (f i u)) \<Longrightarrow> quiet s (fold f is t)"
  by (blast intro: quiet.trans [OF _ quiet.fold_ev])

lemma quiet_for_each:
  "for_each f is t = Some s' \<Longrightarrow> quiet s t \<Longrightarrow>
     (\<And>i u u'. i \<in> set is \<Longrightarrow> f i u = Some u' \<Longrightarrow> quiet u u') \<Longrightarrow> quiet s s'"
  by (blast intro: quiet.trans [OF _ quiet.for_each_ev])

lemma quiet_PaxosSend [quiet_intro]: "quiet s t \<Longrightarrow> quiet s (PaxosSend E j pm t)"
  by (auto simp: PaxosSend_def intro!: quiet_intro)

lemma quiet_send [quiet_intro]: "quiet s t \<Longrightarrow> quiet s (send E j cmd t)"
  by (simp add: send_def quiet_intro)

lemma quiet_PaxosValidate [quiet_intro]: "quiet s t \<Longrightarrow> quiet s (snd (PaxosValidate E m seq v c t))"
  by (auto simp: PaxosValidate_def intro!: quiet_intro)

lemma quiet_Validate_eq: "PaxosValidate E m seq v c t = (Ret, s') \<Longrightarrow> quiet s t \<Longrightarrow> quiet s s'"
  using quiet_PaxosValidate [of s t E m seq v c] by simp

section \<open>Catch-up\<close>

lemma quiet_CatchupFire: "CatchupFire E t = Some s' \<Longrightarrow> quiet s t \<Longrightarrow> quiet s s'"
  by (auto simp: CatchupFire_def Let_def bind_eq_Some_conv split: if_splits intro!: quiet_intro)

lemma quiet_CatchupRequest: "CatchupRequest E j u t = Some s' \<Longrightarrow> quiet s t \<Longrightarrow> quiet s s'"
  by (auto simp: CatchupRequest_def Let_def split: if_splits intro!: quiet_intro elim!: quiet_CatchupFire)

lemma quiet_CatchupInstanceRpl [quiet_intro]:
  "quiet s t \<Longrightarrow> quiet s (snd (CatchupInstanceRpl E j m seq t))"
  by (auto simp: CatchupInstanceRpl_def Let_def split: option.splits intro!: quiet_intro)

lemma quiet_catchup_answer: "quiet (snd fs) (snd (catchup_answer E j seq fs))"
  by (auto simp: catchup_answer_def CatchupInstanceRpl_def Let_def split: option.splits prod.splits
      intro!: quiet_intro)

lemma quiet_catchup_req_loop: "quiet (snd fs) (snd (catchup_req_loop E j SeqTo seq fs))"
proof (induction E j SeqTo seq fs rule: catchup_req_loop.induct)
  case (1 E j SeqTo seq fs)
  show ?case
  proof (cases "CMP (seq + 1) SeqTo \<le> 0")
    case True
    then show ?thesis
      using quiet.trans [OF quiet_catchup_answer "1.IH" [OF refl True]]
      by (simp add: catchup_req_loop.simps [of E j SeqTo seq] Let_def)
  next
    case False
    then show ?thesis
      using quiet_catchup_answer by (simp add: catchup_req_loop.simps [of E j SeqTo seq] Let_def)
  qed
qed

lemma quiet_catchup_req: "server_receive_catchup_req E fr pReq s = Some s' \<Longrightarrow> quiet s s'"
proof -
  assume e: "server_receive_catchup_req E fr pReq s = Some s'"
  obtain j found t where j: "srv_index s fr = Some j"
    and l: "catchup_req_loop E j (c_SeqTo pReq) (c_SeqFrom pReq) (False, s) = (found, t)"
    using e that by (cases "srv_index s fr") (auto simp: server_receive_catchup_req_def split: prod.splits)
  have "quiet s t" using quiet_catchup_req_loop [of "(False, s)" E j "c_SeqTo pReq" "c_SeqFrom pReq"] l by simp
  then show ?thesis
    using e by (auto simp: server_receive_catchup_req_def j l Let_def intro!: quiet_intro split: if_splits)
qed

lemma quiet_release_one: "release_one E k t = Some s' \<Longrightarrow> quiet s t \<Longrightarrow> quiet s s'"
  by (auto simp: release_one_def Let_def bind_eq_Some_conv split: if_splits intro!: quiet_intro)

lemma quiet_release: "release_suppressed_accept E t = Some s' \<Longrightarrow> quiet s t \<Longrightarrow> quiet s s'"
  unfolding release_suppressed_accept_def
  by (erule quiet_for_each) (auto intro: quiet_intro quiet_release_one)

lemma quiet_catchup_finish: "quiet s (catchup_finish E j s)"
  by (auto simp: catchup_finish_def Let_def intro!: quiet_intro)

section \<open>Decisions\<close>

lemma decides_start:
  "quiet s t \<Longrightarrow> k < 10 \<Longrightarrow> PMode t k \<noteq> MODE_DECIDED \<Longrightarrow> p_Mode (f (PAXOS t k)) = MODE_DECIDED \<Longrightarrow>
     decides s k (set_inst k f t)"
proof -
  assume q: "quiet s t" and k: "k < 10" "PMode t k \<noteq> MODE_DECIDED" "p_Mode (f (PAXOS t k)) = MODE_DECIDED"
  have d: "decided t = decided s" using q by (simp add: quiet_def)
  moreover have "decided t k = None" using k by (simp add: decided_def)
  ultimately have "decided s k = None" by metis
  moreover have "\<forall>i. i \<noteq> k \<longrightarrow> decided (set_inst k f t) i = decided t i"
    by (simp add: decided_def set_inst_def)
  ultimately show ?thesis
    using q k d by (simp add: decides_def quiet_def set_inst_def same_config_def executed_def)
qed

lemma decides_quiet: "decides s k t \<Longrightarrow> quiet t u \<Longrightarrow> decides s k u"
  unfolding decides_def quiet_def same_config_def decided_mode by (auto intro: prefix_order.trans)

lemma decides_inst:
  "decides s k t \<Longrightarrow> p_Mode (f (PAXOS t k)) = MODE_DECIDED \<Longrightarrow> decides s k (set_inst k f t)"
proof -
  assume d: "decides s k t" and m: "p_Mode (f (PAXOS t k)) = MODE_DECIDED"
  have "\<forall>i. i \<noteq> k \<longrightarrow> decided (set_inst k f t) i = decided t i"
    by (simp add: decided_def set_inst_def)
  then show ?thesis using d m by (simp add: decides_def set_inst_def same_config_def executed_def)
qed

lemma decides_cmds: "decides s k t \<Longrightarrow> decides s k (set_cmds k f t)"
proof -
  assume d: "decides s k t"
  have "\<forall>i. i \<noteq> k \<longrightarrow> decided (set_cmds k f t) i = decided t i"
    by (simp add: decided_def set_cmds_def)
  then show ?thesis using d by (simp add: decides_def set_cmds_def same_config_def executed_def)
qed

lemma TO_K_less: "TO_K seq < 10"
  by (simp add: TO_K_def unat_mod)

lemma k_index_less: "k_index i = Some k \<Longrightarrow> k < 10"
  by (auto simp: k_index_def split: if_splits)

lemma evolve_catchup_install:
  assumes "catchup_install E k v c t = Some s'" and "quiet s t" and "k < 10" and "PMode t k \<noteq> MODE_DECIDED"
  shows "evolve s s'"
  using assms(1) unfolding catchup_install_def Let_def
  by (rule decide_Exec [rotated]) (intro decides_cmds decides_start assms; simp)

lemma evolve_success_install:
  assumes "success_install E k pS t = Some s'" and "quiet s t" and "k < 10" and "PMode t k \<noteq> MODE_DECIDED"
  shows "evolve s s'"
  using assms(1) unfolding success_install_def Let_def
  by (rule decide_Exec [rotated]) (intro decides_cmds decides_start assms; simp)

lemma PaxosValidate_PMode: "PaxosValidate E m seq v c s = (r, s') \<Longrightarrow> p_Multi s' = p_Multi s"
  by (auto simp: PaxosValidate_def emit_def split: if_splits)

text \<open>What follows the receipt of an answer, whether it was installed or not.\<close>

lemma quiet_catchup_tail:
  "(if CMP (c_Seq pRpl) (p_CatchupNextDecide t - 1) \<ge> 0 then
      Some (fold (catchup_finish E) [0..<p_Max t] (t\<lparr>p_IssuedLast := 0\<rparr>))
    else if p_IssuedLast t \<noteq> 0 \<and> CMP (c_Seq pRpl) (p_IssuedSeq t) = 0 then CatchupFire E t
    else Some t) = Some u \<Longrightarrow> quiet t u"
  using quiet_CatchupFire [of E t u t]
  by (auto intro!: quiet_intro quiet_catchup_finish split: if_splits)

lemma evolve_catchup_rpl:
  assumes "server_receive_catchup_rpl E fr pRpl s = Some s'"
  shows "evolve s s'"
proof -
  let ?k = "TO_K (c_Seq pRpl)" and ?v = "p_RndValue (c_PaxosI pRpl)" and ?c = "c_MetaCmd pRpl"
  note tail = quiet_evolve [OF quiet_catchup_tail]
  show ?thesis
  proof (cases "\<not> c_True pRpl \<and> catchup_asked_other fr s \<or> \<not> c_True pRpl \<and> CMP (NextDecide s) (c_Seq pRpl) \<le> 0")
    case True
    then have "s' = s" using assms by (auto simp: server_receive_catchup_rpl_def split: if_splits)
    then show ?thesis by (simp add: evolve.refl)
  next
    case False
    then have g: "\<not> (\<not> c_True pRpl \<and> catchup_asked_other fr s)"
      "\<not> (\<not> c_True pRpl \<and> CMP (NextDecide s) (c_Seq pRpl) \<le> 0)" by blast+
    show ?thesis
    proof (cases "Page s = TO_PAGE (c_Seq pRpl) \<and> PMode s ?k \<noteq> MODE_DECIDED")
      case False
      then show ?thesis
        using assms g tail [of pRpl "s\<lparr>p_CatchupPageLast := 0\<rparr>" E s'] tail [of pRpl s E s']
          quiet_evolve [OF quiet_fields(11) [OF quiet_refl], of s 0]
        by (auto simp: server_receive_catchup_rpl_def Let_def split: if_splits intro: evolve.trans)
    next
      case True
      let ?s1 = "s\<lparr>p_CatchupPageLast := 0\<rparr>"
      obtain Ret t where v: "PaxosValidate E PAXOS_MODE_CATCHUP (Seq ?s1 ?k) ?v ?c ?s1 = (Ret, t)" by fastforce
      have q: "quiet s t" by (rule quiet_Validate_eq [OF v]) (intro quiet_intro)
      have m: "PMode t ?k \<noteq> MODE_DECIDED" using PaxosValidate_PMode [OF v] True by simp
      show ?thesis
      proof (cases "Ret = 0")
        case False
        then have "s' = t" using assms g True v by (simp add: server_receive_catchup_rpl_def Let_def)
        then show ?thesis using q by (simp add: quiet_evolve)
      next
        case ok: True
        then obtain u where u: "catchup_install E ?k ?v ?c t = Some u"
          and rest: "(if CMP (c_Seq pRpl) (p_CatchupNextDecide u - 1) \<ge> 0 then
            Some (fold (catchup_finish E) [0..<p_Max u] (u\<lparr>p_IssuedLast := 0\<rparr>))
          else if p_IssuedLast u \<noteq> 0 \<and> CMP (c_Seq pRpl) (p_IssuedSeq u) = 0 then CatchupFire E u
          else Some u) = Some s'"
          using assms g True v by (auto simp: server_receive_catchup_rpl_def Let_def bind_eq_Some_conv)
        have "evolve s u" by (rule evolve_catchup_install [OF u q TO_K_less m])
        then show ?thesis using tail [OF rest] by (rule evolve.trans)
      qed
    qed
  qed
qed

section \<open>Rounds\<close>

lemma quiet_Continue: "Continue k t = Some (b, s') \<Longrightarrow> quiet s t \<Longrightarrow> quiet s s'"
  by (auto simp: Continue_def Let_def ASSERT_def bind_eq_Some_conv split: if_splits intro!: quiet_intro)
    (simp_all add: set_inst_def set_cmds_def)

lemma quiet_newround_propose: "newround_propose k t = Some s' \<Longrightarrow> quiet s t \<Longrightarrow> quiet s s'"
  by (auto simp: newround_propose_def Let_def ASSERT_def bind_eq_Some_conv
      split: if_splits intro!: quiet_intro) (simp_all add: set_inst_def)

lemma quiet_newround_collect [quiet_intro]: "quiet s t \<Longrightarrow> quiet s (newround_collect E j t)"
  by (auto simp: newround_collect_def Let_def intro!: quiet_intro)

lemma quiet_NewRound: "NewRound E t = Some s' \<Longrightarrow> quiet s t \<Longrightarrow> quiet s s'"
proof -
  assume e: "NewRound E t = Some s'" and q: "quiet s t"
  show ?thesis
  proof (cases "AMode t = MODE_NONE")
    case False
    with e q show ?thesis by (simp add: NewRound_def)
  next
    case True
    let ?t = "set_multi (\<lambda>m. m\<lparr>l_CurRnd := \<lparr>r_id = of_nat (MyId t), r_seq = SEQ_INC (r_seq (l_CurRnd m))\<rparr>\<rparr>) t"
    obtain u where u: "for_each newround_propose [0..<PAXOS_MAX] ?t = Some u"
      using e True by (auto simp: NewRound_def bind_eq_Some_conv simp del: upt.simps)
    have "quiet s ?t" using q by (intro quiet_intro) simp_all
    then have "quiet s u"
      by (rule quiet_for_each [OF u]) (rule quiet_newround_propose [OF _ quiet_refl])
    moreover have "s' = (let s = set_multi (\<lambda>m. m\<lparr>l_Mode := MODE_GATHERLAST\<rparr>) u;
        s = s\<lparr>p_NewRoundLast := time0 E + DT_NEWROUND s\<rparr>;
        s = set_multi (\<lambda>m. m\<lparr>l_RndInfQuo := quorum_init (int (p_Max s))\<rparr>) s
      in fold (newround_collect E) [0..<p_Max s] s)"
      using e True u by (simp add: NewRound_def Let_def del: upt.simps)
    ultimately show ?thesis unfolding Let_def
      by (simp only:) (intro quiet_intro conjI; simp)
  qed
qed

lemma quiet_begin_self [quiet_intro]: "quiet s t \<Longrightarrow> quiet s (begin_self k j r t)"
  by (auto simp: begin_self_def intro!: quiet_intro)

lemma quiet_SendBeginCast_to [quiet_intro]: "quiet s t \<Longrightarrow> quiet s (SendBeginCast_to E k To r j t)"
  by (auto simp: SendBeginCast_to_def intro!: quiet_intro)

lemma quiet_SendBeginCast: "SendBeginCast E k To r t = Some s' \<Longrightarrow> quiet s t \<Longrightarrow> quiet s s'"
  by (auto simp: SendBeginCast_def ASSERT_def bind_eq_Some_conv split: if_splits intro!: quiet_intro)

text \<open>What the casts of a value change of an instance: its ballot and its quorum.\<close>

definition same_mode :: "Paxos_t \<Rightarrow> Paxos_t \<Rightarrow> bool" where
  "same_mode s s' \<longleftrightarrow> PMode s' = PMode s"

interpretation same_mode: evolution same_mode
  by unfold_locales (simp_all add: same_mode_def)

lemma same_mode_send: "same_mode s (send E j cmd s)"
  by (simp add: same_mode_def send_def PaxosSend_def emit_def)

lemma same_mode_SendBeginCast_to: "same_mode s (SendBeginCast_to E k To r j s)"
  using same_mode_send by (simp add: SendBeginCast_to_def begin_self_def) (simp add: same_mode_def set_inst_def fun_eq_iff)

lemma same_mode_SendBeginCast: "SendBeginCast E k To r s = Some s' \<Longrightarrow> same_mode s s'"
  by (auto simp: SendBeginCast_def ASSERT_def bind_eq_Some_conv split: if_splits
      intro!: same_mode.fold_ev same_mode_SendBeginCast_to)

lemma evolve_BeginCast:
  assumes e: "BeginCast E k t = Some s'" and q: "quiet s t" and k: "k < 10"
  shows "evolve s s'"
proof (cases "PMode t k = MODE_BEGINCAST")
  case False
  with e q show ?thesis by (simp add: BeginCast_def quiet_evolve)
next
  case True
  let ?cast = "if v_From (RndValue t k) \<noteq> int (MyId t) then do {
                j \<leftarrow> srv_index t (v_From (RndValue t k));
                Some (send E j (MSG_BEGIN_REDIRECT
                  \<lparr>b_To = int (MyId t), b_NextDecide = 0, b_BackPage = 0, b_Page = Page t, b_NextK = 0,
                   b_k = int k, b_CurRnd = CurRnd t, b_Value = RndValue t k, b_MetaCmd = metacmd_zero\<rparr>) t)
              } else SendBeginCast E k (int (MyId t)) (CurRnd t) t"
  obtain u where u: "?cast = Some u"
    and rest: "(let s = set_inst k (\<lambda>p. p\<lparr>p_Mode := MODE_GATHERACCEPT,
              p_Deadline := TimespecAddUsec (e_now E) (DT_SUCCESS u)\<rparr>) u in
        if p_Max s = 1 then
          Exec E k (set_inst k (\<lambda>p. p\<lparr>p_Mode := MODE_DECIDED, p_RndValue := value_normal (p_RndValue p)\<rparr>) s)
        else Some s) = Some s'"
    using e True by (auto simp: BeginCast_def bind_eq_Some_conv simp del: One_nat_def)
  have qu: "quiet s u"
    using u q by (auto simp: bind_eq_Some_conv split: if_splits intro!: quiet_intro elim!: quiet_SendBeginCast)
  have "same_mode t u"
    using u same_mode_send by (auto simp: bind_eq_Some_conv split: if_splits dest: same_mode_SendBeginCast)
  then have m: "PMode u k = MODE_BEGINCAST" using True by (simp add: same_mode_def fun_eq_iff)
  let ?v = "set_inst k (\<lambda>p. p\<lparr>p_Mode := MODE_GATHERACCEPT,
              p_Deadline := TimespecAddUsec (e_now E) (DT_SUCCESS u)\<rparr>) u"
  have qv: "quiet s ?v" by (intro quiet_intro qu) (simp_all add: m)
  show ?thesis
  proof (cases "p_Max ?v = 1")
    case False
    then have "s' = ?v" using rest by (simp add: Let_def)
    then show ?thesis using qv by (simp add: quiet_evolve)
  next
    case True
    then have x: "Exec E k (set_inst k (\<lambda>p. p\<lparr>p_Mode := MODE_DECIDED, p_RndValue := value_normal (p_RndValue p)\<rparr>) ?v) = Some s'"
      using rest by (simp add: Let_def)
    show ?thesis by (rule decide_Exec [OF _ x], rule decides_start [OF qv k]) (simp_all add: set_inst_def)
  qed
qed

lemma quiet_BeginCastRedirect: "BeginCastRedirect E pb s = Some s' \<Longrightarrow> quiet s s'"
proof -
  assume e: "BeginCastRedirect E pb s = Some s'"
  then obtain k where k: "k_index (b_k pb) = Some k" and p: "Page s = b_Page pb"
    by (auto simp: BeginCastRedirect_def ASSERT_def bind_eq_Some_conv split: if_splits)
  obtain Ret t where v: "PaxosValidate E PAXOS_MODE_REDIRECT (Seq s k) (RndValue s k) (MetaCmdRnd s k) s = (Ret, t)"
    by fastforce
  have "SendBeginCast E k (b_To pb) (b_CurRnd pb) t = Some s'"
    using e k v p by (simp add: BeginCastRedirect_def ASSERT_def split: if_splits)
  then show ?thesis by (rule quiet_SendBeginCast) (rule quiet_Validate_eq [OF v quiet_refl])
qed

lemma quiet_gather_entry: "gather_entry E j pml k t = Some s' \<Longrightarrow> quiet s t \<Longrightarrow> quiet s s'"
proof -
  assume e: "gather_entry E j pml k t = Some s'" and q: "quiet s t"
  then obtain u where c: "(if mp_mode (l_paxos pml k) = MODE_MSG_DECIDED \<and> PMode t k \<noteq> MODE_DECIDED
             then CatchupRequest E j (l_NextDecide pml) t else Some t) = Some u"
    and s': "s' = (if mp_mode (l_paxos pml k) = MODE_MSG_PROPOSED \<and> PMode u k \<noteq> MODE_DECIDED
             then set_inst k (adopt (l_paxos pml k)) u else u)"
    unfolding gather_entry_def bind_eq_Some_conv by blast
  have u: "quiet s u" using c q by (auto split: if_splits intro: quiet_CatchupRequest)
  show ?thesis using u by (auto simp: s' adopt_def intro!: quiet_intro split: if_splits)
qed

lemma quiet_gather_ready [quiet_intro]: "quiet s t \<Longrightarrow> quiet s (gather_ready k t)"
  by (auto simp: gather_ready_def Let_def set_multi_def intro!: quiet_intro [unfolded set_multi_def])

lemma evolve_GatherLast:
  assumes "GatherLast E fr pml s = Some s'"
  shows "evolve s s'"
proof (cases "AMode s \<noteq> MODE_GATHERLAST \<or> CMP_ROUND (l_round pml) (CurRnd s) \<noteq> 0")
  case True
  with assms show ?thesis by (auto simp: GatherLast_def evolve.refl split: if_splits)
next
  case False
  obtain j where j: "do { j \<leftarrow> srv_index s fr; bit_index (int j) } = Some j"
    using assms False by (auto simp: GatherLast_def bind_eq_Some_conv)
  let ?s1 = "set_multi (\<lambda>m. m\<lparr>l_RndInfQuo := snd (quorum_add (l_RndInfQuo m) j)\<rparr>) s"
  obtain t where t: "(if CMP (l_Page pml) (Page ?s1) = 0
              then for_each (gather_entry E j pml) [0..<PAXOS_MAX] ?s1 else Some ?s1) = Some t"
    and rest: "(if quorum_majority (RndInfQuo t) then do {
          let s = set_election (\<lambda>e. e\<lparr>e_NewRndStart := False\<rparr>) t;
          let s = fold gather_ready [0..<PAXOS_MAX] s;
          let s = set_multi (\<lambda>m. m\<lparr>l_Mode := MODE_BEGINCAST\<rparr>) s;
          s \<leftarrow> for_each (BeginCast E) [0..<PAXOS_MAX] s;
          Some (emit FxBroadcast s)
        } else Some t) = Some s'"
    using assms False j by (auto simp: GatherLast_def bind_eq_Some_conv Let_def simp del: upt.simps)
  have q1: "quiet s ?s1" by (intro quiet_intro) simp
  have "quiet s t"
    using t q1 by (auto simp del: upt.simps split: if_splits elim!: quiet_for_each
        intro: quiet_gather_entry quiet_refl)
  show ?thesis
  proof (cases "quorum_majority (RndInfQuo t)")
    case False
    then show ?thesis using rest \<open>quiet s t\<close> by (simp add: quiet_evolve)
  next
    case True
    let ?u = "set_multi (\<lambda>m. m\<lparr>l_Mode := MODE_BEGINCAST\<rparr>)
      (fold gather_ready [0..<PAXOS_MAX] (set_election (\<lambda>e. e\<lparr>e_NewRndStart := False\<rparr>) t))"
    have u: "quiet s ?u" using \<open>quiet s t\<close> by (intro quiet_intro) simp_all
    obtain v where v: "for_each (BeginCast E) [0..<PAXOS_MAX] ?u = Some v" and s': "s' = emit FxBroadcast v"
      using rest True by (auto simp: Let_def bind_eq_Some_conv simp del: upt.simps)
    have "evolve ?u v"
      by (rule evolve.for_each_ev [OF _ v]) (auto intro: evolve_BeginCast quiet_refl)
    moreover have "evolve v s'" unfolding s' by (intro quiet_evolve quiet_intro) simp
    ultimately show ?thesis using quiet_evolve [OF u] evolve.trans by blast
  qed
qed

lemma quiet_SendSuccess: "SendSuccess E k t = Some s' \<Longrightarrow> quiet s t \<Longrightarrow> quiet s s'"
  by (auto simp: SendSuccess_def ASSERT_def bind_eq_Some_conv split: if_splits intro!: quiet_intro)

lemma accept_command_quiet:
  assumes "accept_command E pm k s = (go, t)" and "PMode s k \<noteq> MODE_DECIDED"
  shows "quiet s t \<and> PMode t k = PMode s k"
proof (cases "isEmpty (MetaCmdRnd s k)")
  case True
  obtain Ret u where v: "PaxosValidate E PAXOS_MODE_ACCEPT (Seq s k) (a_Value pm) (a_MetaCmd pm) s = (Ret, u)"
    by fastforce
  have u: "quiet s u" "p_Multi u = p_Multi s"
    using quiet_Validate_eq [OF v quiet_refl] PaxosValidate_PMode [OF v] by simp_all
  have "quiet s (set_cmds k (\<lambda>c. c\<lparr>c_MetaCmdRnd := a_MetaCmd pm\<rparr>) u)"
    by (rule quiet_cmds [OF u(1)]) (use u(2) assms(2) in simp)
  moreover have "PMode (set_cmds k (\<lambda>c. c\<lparr>c_MetaCmdRnd := a_MetaCmd pm\<rparr>) u) k \<noteq> MODE_DECIDED"
    using u(2) assms(2) by (simp add: set_cmds_def)
  ultimately have "quiet s t"
    using assms(1) u(1) True v by (auto simp: accept_command_def split: if_splits intro!: quiet_inst)
  moreover have "PMode t k = PMode s k"
    using assms u True v by (auto simp: accept_command_def set_inst_def set_cmds_def split: if_splits)
  ultimately show ?thesis by simp
next
  case False
  with assms show ?thesis by (simp add: accept_command_def quiet_refl)
qed

lemma evolve_accept_count:
  assumes e: "accept_count E fr k t = Some s'" and q: "quiet s t" and k: "k < 10"
    and m: "PMode t k \<noteq> MODE_DECIDED"
  shows "evolve s s'"
proof -
  obtain j where j: "bit_index fr = Some j" using e by (auto simp: accept_count_def bind_eq_Some_conv)
  let ?t = "set_inst k (\<lambda>p. p\<lparr>p_RndAccQuo := snd (quorum_add (p_RndAccQuo p) j)\<rparr>) t"
  have qt: "quiet s ?t" using q by (intro quiet_intro) simp_all
  show ?thesis
  proof (cases "quorum_exist (RndAccQuo ?t k) (MyId ?t) \<and> quorum_majority (RndAccQuo ?t k)")
    case False
    then have "s' = ?t" using e j by (auto simp: accept_count_def Let_def)
    then show ?thesis using qt by (simp add: quiet_evolve)
  next
    case True
    let ?d = "set_inst k (\<lambda>p. p\<lparr>p_Mode := MODE_DECIDED\<rparr>) ?t"
    obtain u where u: "SendSuccess E k ?d = Some u"
      and x: "Exec E k (set_inst k (\<lambda>p. p\<lparr>p_RndValue := value_normal (p_RndValue p)\<rparr>) u) = Some s'"
      using e j True by (auto simp: accept_count_def Let_def ASSERT_def bind_eq_Some_conv split: if_splits)
    have d: "decides s k ?d"
      by (rule decides_start [OF qt k]) (use m in \<open>simp_all add: set_inst_def\<close>)
    have du: "decides s k u" by (rule decides_quiet [OF d]) (rule quiet_SendSuccess [OF u quiet_refl])
    then have "PMode u k = MODE_DECIDED" by (simp add: decides_def)
    then show ?thesis by (intro decide_Exec [OF _ x] decides_inst du) simp
  qed
qed

lemma evolve_GatherAccept: "GatherAccept E fr pm s = Some s' \<Longrightarrow> evolve s s'"
proof -
  assume e: "GatherAccept E fr pm s = Some s'"
  show ?thesis
  proof (cases "CMP_ROUND (CurRnd s) (a_round pm) \<noteq> 0 \<or> CMP (Page s) (a_Page pm) \<noteq> 0")
    case True
    with e show ?thesis by (simp add: GatherAccept_def evolve.refl)
  next
    case False
    then obtain k where k: "k_index (a_k pm) = Some k" using e by (auto simp: GatherAccept_def bind_eq_Some_conv)
    obtain go t where c: "accept_command E pm k s = (go, t)" by fastforce
    show ?thesis
    proof (cases "PMode s k = MODE_GATHERACCEPT")
      case m: True
      then have t: "quiet s t \<and> PMode t k = PMode s k" by (intro accept_command_quiet [OF c]) simp
      have "(if \<not> go then Some t else accept_count E fr k t) = Some s'"
        using e False k c m by (simp add: GatherAccept_def)
      with t m k_index_less [OF k] show ?thesis
        by (auto split: if_splits intro: quiet_evolve evolve_accept_count)
    next
      case m: False
      with e False k show ?thesis by (simp add: GatherAccept_def evolve.refl)
    qed
  qed
qed

lemma quiet_GatherOldRound: "quiet s (GatherOldRound pm s)"
  by (auto simp: GatherOldRound_def intro!: quiet_intro)

lemma quiet_CheckRnd: "CheckRndSuccessAndNewRound E s = Some s' \<Longrightarrow> quiet s s'"
proof -
  assume e: "CheckRndSuccessAndNewRound E s = Some s'"
  then have "s' = s \<or> NewRound E (set_multi (\<lambda>m. m\<lparr>l_Mode := MODE_NONE\<rparr>) s) = Some s'"
    unfolding CheckRndSuccessAndNewRound_def Let_def by (auto simp del: upt.simps upt_rec_numeral split: if_splits)
  moreover have "quiet s (set_multi (\<lambda>m. m\<lparr>l_Mode := MODE_NONE\<rparr>) s)" by (intro quiet_intro) simp
  ultimately show ?thesis using quiet_NewRound quiet_refl by blast
qed

section \<open>The agent\<close>

text \<open>A reply under construction is carried beside the state.\<close>

definition quiet2 :: "'a \<times> Paxos_t \<Rightarrow> 'a \<times> Paxos_t \<Rightarrow> bool" where
  "quiet2 ls ls' \<longleftrightarrow> quiet (snd ls) (snd ls')"

interpretation quiet2: evolution quiet2
  by unfold_locales (auto simp: quiet2_def quiet_refl intro: quiet.trans)

lemma quiet2_collect_old: "collect_old E j m k ls = Some ls' \<Longrightarrow> quiet2 ls ls'"
  by (auto simp: collect_old_def quiet2_def ASSERT_def bind_eq_Some_conv split: prod.splits if_splits
      intro!: quiet_intro)

lemma quiet2_collect_same: "collect_same E j pmc k ls = Some ls' \<Longrightarrow> quiet2 ls ls'"
  by (auto simp: collect_same_def quiet2_def ASSERT_def bind_eq_Some_conv split: prod.splits if_splits
      intro!: quiet_intro intro: quiet_CatchupRequest [OF _ quiet_refl])

lemma quiet_RecvCollect: "RecvCollect E fr pmc s = Some s' \<Longrightarrow> quiet s s'"
proof -
  assume e: "RecvCollect E fr pmc s = Some s'"
  obtain j where j: "srv_index s fr = Some j" using e by (auto simp: RecvCollect_def bind_eq_Some_conv)
  let ?r = "c_CurRnd pmc" and ?lp = "\<lambda>_ :: nat. msg_paxos_zero"
  let ?s = "set_multi (\<lambda>m. m\<lparr>l_CurRnd := ?r\<rparr>) s"
  have q: "quiet s ?s" by (intro quiet_intro) simp
  show ?thesis
  proof (cases "CMP_ROUND (CurRnd s) ?r \<le> 0")
    case False
    with e j show ?thesis by (auto simp: RecvCollect_def intro!: quiet_intro)
  next
    case r: True
    consider "CMP (c_Page pmc) (Page ?s) < 0" | "CMP (c_Page pmc) (Page ?s) > 0" | "CMP (c_Page pmc) (Page ?s) = 0"
      by linarith
    then show ?thesis
    proof cases
      case 1
      show ?thesis
      proof (cases "GetPage (c_Page pmc) ?s")
        case None
        with e j r 1 q show ?thesis by (simp add: RecvCollect_def Let_def)
      next
        case (Some m)
        then obtain lp t where t: "for_each (collect_old E j m) [0..<PAXOS_MAX] (?lp, ?s) = Some (lp, t)"
          and s': "\<exists>cmd. s' = send E j cmd t"
          using e j r 1 by (auto simp: RecvCollect_def Let_def bind_eq_Some_conv simp del: upt.simps upt_rec_numeral)
        have "quiet2 (?lp, ?s) (lp, t)" by (rule quiet2.for_each_ev [OF _ t]) (rule quiet2_collect_old)
        then have "quiet s t" using q quiet.trans by (auto simp: quiet2_def)
        with s' show ?thesis by (auto intro: quiet_send)
      qed
    next
      case 2
      then obtain t where t: "(if CMP (c_BackPage pmc) (Page ?s) \<le> 0
            then CatchupRequest E j (c_NextDecide pmc) (?s\<lparr>p_IssuedLast := 0\<rparr>) else Some ?s) = Some t"
          and s': "\<exists>cmd. s' = send E j cmd t"
        using e j r by (auto simp: RecvCollect_def Let_def bind_eq_Some_conv simp del: upt.simps upt_rec_numeral)
      have "quiet s t"
        using t q by (auto split: if_splits intro: quiet_CatchupRequest quiet_fields)
      with s' show ?thesis by (auto intro: quiet_send)
    next
      case 3
      then obtain lp t where t: "for_each (collect_same E j pmc) [0..<PAXOS_MAX] (?lp, ?s) = Some (lp, t)"
          and s': "\<exists>cmd. s' = send E j cmd t"
        using e j r by (auto simp: RecvCollect_def Let_def bind_eq_Some_conv simp del: upt.simps upt_rec_numeral)
      have "quiet2 (?lp, ?s) (lp, t)" by (rule quiet2.for_each_ev [OF _ t]) (rule quiet2_collect_same)
      then have "quiet s t" using q quiet.trans by (auto simp: quiet2_def)
      with s' show ?thesis by (auto intro: quiet_send)
    qed
  qed
qed

lemma quiet_RecvBegin: "RecvBegin E fr pmb s = Some s' \<Longrightarrow> quiet s s'"
proof -
  assume e: "RecvBegin E fr pmb s = Some s'"
  show ?thesis
  proof (cases "\<exists>k. k_index (b_k pmb) = Some k \<and> \<not> p_bSuppressAccept s \<and> CMP_ROUND (b_CurRnd pmb) (CurRnd s) \<ge> 0
      \<and> Page s = b_Page pmb \<and> PMode s k \<noteq> MODE_DECIDED")
    case False
    with e show ?thesis
      by (auto simp: RecvBegin_def bind_eq_Some_conv split: if_splits
          intro!: quiet_intro intro: quiet_CatchupRequest [OF _ quiet_refl])
  next
    case True
    then obtain k where k: "k_index (b_k pmb) = Some k" and g: "\<not> p_bSuppressAccept s"
      "CMP_ROUND (b_CurRnd pmb) (CurRnd s) \<ge> 0" "Page s = b_Page pmb" "PMode s k \<noteq> MODE_DECIDED" by blast
    obtain ja where j: "srv_index s fr \<noteq> None" "srv_index s (b_To pmb) = Some ja" "\<not> isEmpty (b_MetaCmd pmb)"
      using e g k by (auto simp: RecvBegin_def bind_eq_Some_conv ASSERT_def split: if_splits)
    obtain Ret t where v: "PaxosValidate E PAXOS_MODE_BEGIN (Seq s k) (b_Value pmb) (b_MetaCmd pmb) s = (Ret, t)"
      by fastforce
    have t: "quiet s t" "PMode t k \<noteq> MODE_DECIDED"
      using quiet_Validate_eq [OF v quiet_refl] PaxosValidate_PMode [OF v] g(4) by simp_all
    let ?u = "set_cmds k (\<lambda>c. c\<lparr>c_MetaCmdRnd := b_MetaCmd pmb\<rparr>) (set_inst k (\<lambda>p. p\<lparr>
                       p_Mode := (if p_Mode p = MODE_NONE then MODE_WAIT else p_Mode p),
                       p_RndBallot := b_CurRnd pmb,
                       p_RndValue := (b_Value pmb)\<lparr>v_From := int (MyId t)\<rparr>\<rparr>) t)"
    have u: "quiet s ?u" using t by (intro quiet_intro) (auto simp: set_inst_def split: if_splits)
    have "s' = (if Ret \<noteq> 0 then send E ja MSG_TEST_NEWROUND t
        else if accept_held E ?u then set_inst k (\<lambda>p. p\<lparr>p_Suppressed := True\<rparr>) ?u
        else send E ja (MSG_ACCEPT (accept_of ?u k)) ?u)"
      using e g k j v by (simp add: RecvBegin_def ASSERT_def Let_def split: if_splits option.splits)
    then show ?thesis using t(1) u by (auto intro!: quiet_send quiet_inst)
  qed
qed

lemma evolve_RecvSuccess: "RecvSuccess E fr pS s = Some s' \<Longrightarrow> evolve s s'"
proof -
  assume e: "RecvSuccess E fr pS s = Some s'"
  show ?thesis
  proof (cases "\<exists>k. k_index (sc_k pS) = Some k \<and> Page s = sc_Page pS \<and> PMode s k \<noteq> MODE_DECIDED")
    case False
    with e show ?thesis
      by (auto simp: RecvSuccess_def bind_eq_Some_conv ASSERT_def split: if_splits
          intro!: quiet_evolve intro: quiet_refl quiet_CatchupRequest [OF _ quiet_refl])
  next
    case True
    then obtain k where k: "k_index (sc_k pS) = Some k" and g: "Page s = sc_Page pS" "PMode s k \<noteq> MODE_DECIDED"
      by blast
    have j: "srv_index s fr \<noteq> None" "\<not> isEmpty (sc_MetaCmd pS)"
      using e by (auto simp: RecvSuccess_def bind_eq_Some_conv ASSERT_def split: if_splits)
    obtain Ret t where v: "(if \<not> isSameValue (sc_Value pS) (RndValue s k)
        then PaxosValidate E PAXOS_MODE_SUCCESS (Seq s k) (sc_Value pS) (sc_MetaCmd pS) s else (0, s)) = (Ret, t)"
      by fastforce
    have t: "quiet s t \<and> PMode t k \<noteq> MODE_DECIDED"
      using v g(2) quiet_Validate_eq [OF _ quiet_refl] PaxosValidate_PMode
      by (fastforce split: if_splits intro: quiet_refl)
    have "(if Ret \<noteq> 0 then Some t else success_install E k pS t) = Some s'"
      using e k g j v by (auto simp: RecvSuccess_def ASSERT_def split: option.splits)
    with t k_index_less [OF k] show ?thesis
      by (auto split: if_splits intro: quiet_evolve evolve_success_install)
  qed
qed

section \<open>Election and heartbeats\<close>

lemma quiet_elect [quiet_intro]:
  "quiet s t \<Longrightarrow> quiet s (elect_win ID j t)" "quiet s t \<Longrightarrow> quiet s (elect_lose E ID t)"
  by (auto simp: elect_win_def elect_lose_def Let_def intro!: quiet_intro)

lemma quiet_ElectLeader: "ElectLeader E js t = Some (b, s') \<Longrightarrow> quiet s t \<Longrightarrow> quiet s s'"
  by (auto simp: ElectLeader_def bind_eq_Some_conv split: option.splits intro!: quiet_intro)

lemma quiet_MyVote: "MyVote t = (b, s') \<Longrightarrow> quiet s t \<Longrightarrow> quiet s s'"
  by (auto simp: MyVote_def Let_def intro!: quiet_intro)

lemma quiet_SendAlive [quiet_intro]: "quiet s t \<Longrightarrow> quiet s (SendAlive E j t)"
  by (simp add: SendAlive_def quiet_intro)

lemma quiet_set_leader: "set_leader E js t = Some s' \<Longrightarrow> quiet s t \<Longrightarrow> quiet s s'"
proof -
  assume e: "set_leader E js t = Some s'" and q: "quiet s t"
  obtain b u where m: "MyVote t = (b, u)" by fastforce
  have u: "quiet s u" by (rule quiet_MyVote [OF m q])
  let ?v = "if b then fold (\<lambda>j s. if j = MyId s then s else SendAlive E j s) [0..<p_Max u] u else u"
  have v: "quiet s ?v" using u by (auto intro!: quiet_intro)
  have "s' = t \<or> (\<exists>c. ElectLeader E js ?v = Some (c, s'))"
    using e m by (auto simp: set_leader_def Let_def bind_eq_Some_conv split: if_splits)
  then show ?thesis using q v quiet_ElectLeader by blast
qed

lemma quiet_CheckConnection: "CheckConnection E j t = (c, s') \<Longrightarrow> quiet s t \<Longrightarrow> quiet s s'"
  by (auto simp: CheckConnection_def split: if_splits intro!: quiet_intro)

lemma quiet_set_reader [quiet_intro]: "quiet s t \<Longrightarrow> quiet s (set_reader E t)"
  by (auto simp: set_reader_def Let_def split: prod.splits intro!: quiet_intro)

lemma quiet_alive_addr [quiet_intro]: "quiet s t \<Longrightarrow> quiet s (alive_addr j a t)"
  by (auto simp: alive_addr_def intro!: quiet_intro)

lemma quiet_alive_record [quiet_intro]: "quiet s t \<Longrightarrow> quiet s (alive_record j pa t)"
  by (simp add: alive_record_def quiet_intro)

lemma quiet_alive_overflow: "alive_overflow E j t = Some (j', s') \<Longrightarrow> quiet s t \<Longrightarrow> quiet s s'"
  by (auto simp: alive_overflow_def Let_def bind_eq_Some_conv split: if_splits
      intro: quiet_release [OF _ quiet_fields(19)])

lemma quiet_find_supplier: "find_supplier E js t = (b, s') \<Longrightarrow> quiet s t \<Longrightarrow> quiet s s'"
proof (induction js arbitrary: t)
  case (Cons j js)
  obtain c u where c: "CheckConnection E j t = (c, u)" by fastforce
  have "quiet s u" by (rule quiet_CheckConnection [OF c Cons.prems(2)])
  with Cons c show ?case by (auto split: if_splits)
qed simp

lemma quiet_alive_catchup: "alive_catchup E j pa t = Some s' \<Longrightarrow> quiet s t \<Longrightarrow> quiet s s'"
  by (auto simp: alive_catchup_def split: if_splits prod.splits
      intro: quiet_CatchupRequest quiet_find_supplier)

lemma quiet_alive: "server_receive_alive E pm pa s = Some s' \<Longrightarrow> quiet s s'"
proof -
  assume e: "server_receive_alive E pm pa s = Some s'"
  obtain j where j: "srv_index s (m_fr pm) = Some j" using e by (auto simp: server_receive_alive_def bind_eq_Some_conv)
  let ?a = "set_srv j (\<lambda>p. p\<lparr>s_Alive := e_now E\<rparr>) (alive_addr j (m_From pm) s)"
  have a: "quiet s ?a" by (intro quiet_intro)
  show ?thesis
  proof (cases "m_to pm \<noteq> int (MyId ?a) \<or> \<not> is_active (server ?a j)")
    case True
    with e j have "s' = ?a" by (auto simp: server_receive_alive_def Let_def split: if_splits)
    then show ?thesis using a by simp
  next
    case False
    let ?r = "alive_record j pa ?a"
    obtain ch r where r: "(if CMP (a_epoch pa) (Epoch ?r) > 0
        then (True, set_election (\<lambda>e. e\<lparr>e_Epoch := a_epoch pa\<rparr>) ?r)
        else (if MyId ?a < p_Max ?a \<and> j < p_Max ?a
               then s_leader (server ?a j) \<noteq> a_leader pa
                    \<or> TIMESPECCOMPARE (s_Election (server ?a j)) (a_Election pa) \<noteq> 0
               else e_uninit E, ?r)) = (ch, r)" by fastforce
    have qr: "quiet s r" using r by (auto split: if_splits intro!: quiet_intro)
    obtain j' t where t: "alive_overflow E j r = Some (j', t)"
      using e j False r by (auto simp: server_receive_alive_def Let_def bind_eq_Some_conv)
    have qt: "quiet s t" by (rule quiet_alive_overflow [OF t qr])
    obtain c u where u: "CheckConnection E j' t = (c, u)" by fastforce
    have qu: "quiet s u" by (rule quiet_CheckConnection [OF u qt])
    obtain w where w: "quiet s w" and s': "s' = set_reader E w"
    proof -
      obtain w where d: "s' = set_reader E w"
        and cs: "w = u \<or> set_leader E j' u = Some w \<or>
          (\<exists>v. (v = u \<or> set_leader E j' u = Some v) \<and> alive_catchup E j' pa v = Some w)"
        using e j False r t u
        by (cases c) (auto simp: server_receive_alive_def Let_def bind_eq_Some_conv split: if_splits)
      show ?thesis
        by (rule that [OF _ d]) (use cs qu quiet_set_leader quiet_alive_catchup in blast)
    qed
    then show ?thesis by (simp add: quiet_set_reader)
  qed
qed

lemma quiet_ras: "server_receive_ras E fr s = Some s' \<Longrightarrow> quiet s s'"
proof -
  assume e: "server_receive_ras E fr s = Some s'"
  obtain j where j: "srv_index s fr = Some j" using e by (auto simp: server_receive_ras_def bind_eq_Some_conv)
  obtain c t where c: "CheckConnection E j (set_srv j (\<lambda>p. p\<lparr>s_Token := timespec_zero\<rparr>) s) = (c, t)" by fastforce
  have t: "quiet s t" by (rule quiet_CheckConnection [OF c]) (intro quiet_intro)
  have "set_leader E j (set_reader E t) = Some s'"
    using e j c by (auto simp: server_receive_ras_def bind_eq_Some_conv)
  then show ?thesis by (rule quiet_set_leader) (intro quiet_intro t)
qed

lemma quiet_heartbeat_check: "heartbeat_check E j s = Some s' \<Longrightarrow> quiet s s'"
proof -
  assume e: "heartbeat_check E j s = Some s'"
  obtain c t where c: "CheckConnection E j s = (c, t)" by fastforce
  have t: "quiet s t" by (rule quiet_CheckConnection [OF c quiet_refl])
  have "s' = s \<or> s' = t \<or> (\<exists>u. set_leader E j t = Some u \<and>
      (s' = u \<or> s' = set_srv j (\<lambda>p. p\<lparr>s_IssuedTime := timespec_zero\<rparr>) (u\<lparr>p_IssuedLast := 0\<rparr>)))"
    using e c by (cases c) (auto simp: heartbeat_check_def bind_eq_Some_conv split: if_splits)
  then show ?thesis using t quiet_refl quiet_set_leader quiet_srv quiet_fields(14) by metis
qed

lemma quiet_ThreadHeartbeat: "ThreadHeartbeat E s = Some s' \<Longrightarrow> quiet s s'"
proof -
  assume e: "ThreadHeartbeat E s = Some s'"
  let ?s = "set_srv (MyId s) (\<lambda>p. p\<lparr>s_Alive := e_now E\<rparr>) s"
  obtain t where t: "for_each (heartbeat_check E) [0..<p_Maximum ?s] ?s = Some t"
    and s': "s' = (let s = fold (\<lambda>j s. if j = MyId s then s
        else if is_active (server s j) then SendAlive E j s else s) [0..<p_Maximum t] t
      in if p_Max s = 1 then set_election (\<lambda>e. e\<lparr>e_IamMaster := True\<rparr>) s else s)"
    using e by (auto simp: ThreadHeartbeat_def Let_def bind_eq_Some_conv)
  have "quiet s t"
    by (rule quiet_for_each [OF t]) (intro quiet_intro, rule quiet_heartbeat_check)
  then show ?thesis unfolding s' Let_def by (auto intro!: quiet_intro)
qed

section \<open>Requests and control messages\<close>

lemma quiet_InitCommand [quiet_intro]: "quiet s t \<Longrightarrow> quiet s (InitCommand k c f t)"
  by (auto simp: InitCommand_def Let_def intro!: quiet_intro)

lemma evolve_request_slot:
  assumes e: "request_slot E k cmd Flag s = Some (code, s')" and k: "k < 10"
  shows "evolve s s'"
proof -
  let ?PC = "\<lparr>c_len = of_nat (length cmd), c_opaque = cmd\<rparr>"
  let ?V = "\<lparr>v_Flags = Flag, v_Server = int (MyId s), v_Epoch = Epoch s, v_From = int (MyId s)\<rparr>"
  obtain Ret t where v: "(if Flag AND VALUE_VALIDATE \<noteq> 0
      then PaxosValidate E PAXOS_MODE_REQUEST (Seq s k) ?V ?PC s else (0, s)) = (Ret, t)" by fastforce
  have t: "quiet s t"
    using v quiet_Validate_eq [OF _ quiet_refl] by (auto split: if_splits intro: quiet_refl)
  have "s' = s \<or> s' = t \<or> (\<exists>ok u. Continue k (InitCommand k ?PC Flag t) = Some (ok, u) \<and>
      (s' = u \<or> BeginCast E k u = Some s'))"
    using e v by (auto simp: request_slot_def Let_def bind_eq_Some_conv split: if_splits)
  moreover have "quiet s (InitCommand k ?PC Flag t)" by (intro quiet_intro t)
  ultimately show ?thesis
    using t quiet_Continue evolve_BeginCast [OF _ _ k] quiet_evolve evolve.refl by blast
qed

lemma GetSlot_pass_cases:
  "GetSlot_pass E s = Some r \<Longrightarrow>
     (\<exists>i. r = Slot i s \<and> i < 10) \<or> (\<exists>s'. r = SlotWait s' \<and> quiet s s')"
proof -
  assume e: "GetSlot_pass E s = Some r"
  have f: "k < 10" if "List.find P [n..<10] = Some k" for P n k
    using that by (auto simp: find_Some_iff)
  have q: "quiet s (set_multi (\<lambda>m. m\<lparr>l_Mode := MODE_NONE\<rparr>) s)" by (intro quiet_intro) simp
  show ?thesis
    using e f quiet_NewRound [OF _ q]
    by (auto simp: GetSlot_pass_def bind_eq_Some_conv quiet_refl split: if_splits option.splits)
qed

lemma evolve_PaxosRequest:
  assumes e: "PaxosRequest E [] cmd v s = Some (code, s')"
  shows "evolve s s'"
proof (cases "p_Active s \<and> IamMaster s")
  case False
  with e show ?thesis
    by (auto simp: PaxosRequest_def PaxosRequest_flags_def evolve.refl split: if_splits)
next
  case True
  let ?f = "if v then VALUE_VALIDATE else 0"
  obtain r where r: "GetSlot_pass E s = Some r"
    using e True by (auto simp: PaxosRequest_def PaxosRequest_flags_def bind_eq_Some_conv)
  from GetSlot_pass_cases [OF r] show ?thesis
  proof (elim disjE exE conjE)
    fix i assume i: "r = Slot i s" "i < 10"
    then have "s' = s \<or> (\<exists>c. request_slot E (nat i) cmd ?f s = Some (c, s'))"
      using e True r
      by (auto simp: PaxosRequest_def PaxosRequest_flags_def bind_eq_Some_conv split: if_splits)
    then show ?thesis using evolve_request_slot i(2) evolve.refl by (auto simp: nat_less_iff)
  next
    fix t assume "r = SlotWait t" "quiet s t"
    then show ?thesis using e True r
      by (auto simp: PaxosRequest_def PaxosRequest_flags_def quiet_evolve)
  qed
qed

lemma quiet_down_channels [quiet_intro]: "quiet s t \<Longrightarrow> quiet s (down_channels t)"
  by (auto simp: down_channels_def intro!: quiet_intro)

lemma evolve_test_begin: "server_receive_test_begin E i s = Some s' \<Longrightarrow> evolve s s'"
proof -
  assume e: "server_receive_test_begin E i s = Some s'"
  then have "s' = s \<or> (\<exists>k ok u. k_index i = Some k \<and> Continue k s = Some (ok, u) \<and> (s' = u \<or> BeginCast E k u = Some s'))"
    by (auto simp: server_receive_test_begin_def bind_eq_Some_conv split: if_splits)
  then show ?thesis
    using evolve.refl quiet_Continue [OF _ quiet_refl] evolve_BeginCast k_index_less quiet_evolve by blast
qed

lemma evolve_dispatch: "dispatch E pm b s = Some s' \<Longrightarrow> evolve s s'"
  using quiet_catchup_req evolve_catchup_rpl quiet_RecvCollect evolve_GatherLast quiet_RecvBegin
    evolve_GatherAccept evolve_RecvSuccess quiet_BeginCastRedirect evolve_test_begin quiet_ras quiet_alive
    quiet_GatherOldRound quiet_release [OF _ quiet_refl]
    quiet_NewRound [OF _ quiet_multi [OF quiet_refl]]
  by (cases b)
    (auto simp: server_receive_dump_def server_receive_control_start_def server_receive_stop_def
      server_receive_restart_def server_receive_down_def server_receive_birth_def
      server_receive_test_command_def server_receive_test_newround_def server_receive_test_suppress_def
      server_receive_recv_stop_def server_receive_test_catchup_def server_receive_test_remove_page_def
      server_receive_is_active_def server_receive_catchup_end_def bind_eq_Some_conv
      split: if_splits intro!: quiet_evolve quiet_intro)

section \<open>The steps of a server\<close>

lemma evolve_RecvHandler: "PaxosRecvHandler E pm s = Some s' \<Longrightarrow> evolve s s'"
proof -
  assume e: "PaxosRecvHandler E pm s = Some s'"
  have "s' = s \<or> dispatch E pm (m_body pm) s = Some s' \<or>
      s' = s\<lparr>p_QueueHeartbeat := snd (QueuePost (p_QueueHeartbeat s) pm)\<rparr> \<or>
      s' = s\<lparr>p_QueuePaxos := snd (QueuePost (p_QueuePaxos s) pm)\<rparr>"
    using e by (cases "m_body pm") (auto simp: PaxosRecvHandler_def bind_eq_Some_conv split: if_splits)
  then show ?thesis
    using evolve.refl evolve_dispatch quiet_evolve quiet_fields(5,6) quiet_refl by metis
qed

lemma evolve_receivers:
  "ThreadReceiverPaxos E s = Some s' \<Longrightarrow> evolve s s'"
  "ThreadReceiverHeartbeat E s = Some s' \<Longrightarrow> evolve s s'"
proof -
  have q: "evolve s (s\<lparr>p_QueuePaxos := q\<rparr>)" "evolve s (s\<lparr>p_QueueHeartbeat := q\<rparr>)" for q
    using quiet_evolve quiet_fields(5,6) quiet_refl by metis+
  {
    assume "ThreadReceiverPaxos E s = Some s'"
    then have "s' = s \<or> (\<exists>pM q. dispatch E pM (m_body pM) (s\<lparr>p_QueuePaxos := q\<rparr>) = Some s')"
      by (auto simp: ThreadReceiverPaxos_def split: if_splits option.splits prod.splits)
    then show "evolve s s'" using evolve.refl evolve.trans [OF q(1)] evolve_dispatch by blast
  next
    assume "ThreadReceiverHeartbeat E s = Some s'"
    then have "s' = s \<or> (\<exists>pM q. dispatch E pM (m_body pM) (s\<lparr>p_QueueHeartbeat := q\<rparr>) = Some s')"
      by (auto simp: ThreadReceiverHeartbeat_def split: if_splits option.splits prod.splits)
    then show "evolve s s'" using evolve.refl evolve.trans [OF q(2)] evolve_dispatch by blast
  }
qed

lemma quiet_Detector: "PaxosDetector E s = Some s' \<Longrightarrow> quiet s s'"
proof -
  assume e: "PaxosDetector E s = Some s'"
  obtain t where t: "CheckRndSuccessAndNewRound E s = Some t"
    using e by (auto simp: PaxosDetector_def bind_eq_Some_conv)
  let ?u = "if p_IssuedLast t \<noteq> 0 \<and> p_IssuedLast t < time0 E
    then fold (\<lambda>j. set_srv j (\<lambda>p. p\<lparr>s_IssuedTime := timespec_zero\<rparr>)) [0..<p_Max t] (t\<lparr>p_IssuedLast := 0\<rparr>)
    else t"
  have u: "quiet s ?u" using quiet_CheckRnd [OF t] by (auto intro!: quiet_intro)
  have "s' = ?u \<or> release_suppressed_accept E ?u = Some s'"
    using e t by (auto simp: PaxosDetector_def Let_def split: if_splits)
  then show ?thesis using u quiet_release by blast
qed

lemma evolve_node_step: "node_step E ev s = Some s' \<Longrightarrow> evolve s s'"
proof (cases ev)
  case (Request cmd v)
  assume "node_step E ev s = Some s'"
  then obtain code where "PaxosRequest E [] cmd v s = Some (code, s')"
    by (auto simp: node_step_def Request)
  then show ?thesis by (rule evolve_PaxosRequest)
qed (auto simp: node_step_def PaxosRecvFromPaxos_def PaxosAutonomic_def PaxosFreeze_begin_def
    PaxosFreeze_suspend_def PaxosDefreeze_def PaxosDown_def evolve_RecvHandler evolve_receivers
    split: option.splits prod.splits if_splits
    intro!: quiet_evolve quiet_intro intro: quiet_Detector quiet_ThreadHeartbeat)

lemma evolve_reachable: "reachable start s \<Longrightarrow> evolve start s"
  by (induction rule: reachable.induct) (auto intro: evolve.refl evolve.trans evolve_node_step)

section \<open>The start\<close>

lemma TO_SEQ_TO_PAGE: "TO_SEQ (TO_PAGE seq) (TO_K seq) = seq"
  by (simp add: TO_SEQ_def TO_PAGE_def TO_K_def div_mult_mod_eq)

lemma started_exec_inv:
  assumes i: "PaxosInitUsec E Ident core ext cell usec ck = Some s0"
  shows "exec_inv (if mode = PAXOS_SEQ then nextDecide else 0) (PaxosStart ok mode nextDecide s0)"
proof -
  let ?s = "PaxosStart ok mode nextDecide s0"
  let ?n = "if mode = PAXOS_SEQ then TO_K nextDecide else 0"
  have z: "p_Gaps ?s = HashInit 11 HashCode_INT HashCompare_INT" "p_Fx ?s = []"
    "PMode ?s k = MODE_NONE" "SuccessCount ?s = ?n" for k
    using i by (auto simp: PaxosInitUsec_def PaxosStart_def Let_def set_multi_def init_multi_def
        instance_zero_def split: if_splits)
  have nd: "NextDecide ?s = Seq ?s ?n" "NextDecide ?s = (if mode = PAXOS_SEQ then nextDecide else 0)"
    using i TO_SEQ_TO_PAGE [of nextDecide]
    by (auto simp: PaxosInitUsec_def PaxosStart_def Let_def set_multi_def init_multi_def
        TO_SEQ_def [of 0] split: if_splits)
  have p: "pending ?s n = []" for n by (simp add: pending_def z)
  have "exec_at ?s ?n"
    using nd(1) TO_K_less [of nextDecide]
    by (simp add: exec_at_def gaps_ok_def z p int_table_Init hash_queue_Init less_imp_le)
  moreover have "?n < 10" using TO_K_less by simp
  moreover have "log_ok (if mode = PAXOS_SEQ then nextDecide else 0) ?s"
    by (simp add: log_ok_def executed_def z nd(2) List.map_filter_def)
  ultimately show ?thesis unfolding exec_inv_def by blast
qed

end
