(* ===== verification/Paxos_Examples.thy ===== *)
theory Paxos_Examples
  imports Paxos_Steps
begin

text \<open>
  Concrete servers on which the properties are applied: an environment, cells of one, three and
  five servers, and the run of a list of events.
\<close>

definition ex_env :: env where
  "ex_env = \<lparr>e_now = \<lparr>tv_sec = 1000, tv_nsec = 0\<rparr>, e_validate = (\<lambda>_ _ _ _. 0), e_fLoad = None,
     e_trylock = True, e_uninit = False, e_image = (\<lambda>_. [])\<rparr>"

definition ex_cell :: "nat \<Rightarrow> (bool \<times> sockaddr_in) list" where
  "ex_cell n = map (\<lambda>j. (True, \<lparr>sin_addr = of_nat (j + 1), sin_port = 7000\<rparr>)) [0..<n]"

definition ex_init :: "nat \<Rightarrow> nat \<Rightarrow> Paxos_t" where
  "ex_init n j = the (PaxosInitUsec ex_env j n 0 (ex_cell n) 100000 False)"

definition ex_node :: "nat \<Rightarrow> nat \<Rightarrow> u32 \<Rightarrow> Paxos_t" where
  "ex_node n j seq = PaxosStart True PAXOS_SEQ seq (ex_init n j)"

lemma ex_some: "\<not> Option.is_none x \<Longrightarrow> \<exists>y. x = Some y"
  by (cases x) simp_all

definition run_events :: "env \<Rightarrow> event list \<Rightarrow> Paxos_t \<Rightarrow> Paxos_t option" where
  "run_events E = for_each (node_step E)"

lemma run_events_reachable: "run_events E evs s = Some s' \<Longrightarrow> reachable s s'"
proof -
  have "for_each (node_step E) evs t = Some s' \<Longrightarrow> reachable s t \<Longrightarrow> reachable s s'" for t
    by (induction evs arbitrary: t) (auto simp: bind_eq_Some_conv intro: reach_step)
  then show "run_events E evs s = Some s' \<Longrightarrow> reachable s s'"
    by (auto simp: run_events_def intro: reach_start)
qed

lemma ex_init_ok: "PaxosInitUsec ex_env j n 0 (ex_cell n) 100000 False = Some (ex_init n j)"
  by (simp add: ex_init_def PaxosInitUsec_def ex_cell_def)

end
