(* ===== verification/Paxos_Quorum.thy ===== *)
theory Paxos_Quorum
  imports Paxos_Examples
begin

text \<open>
  Quorums as sets of servers, the order of ballots, and what a leader adopts of the proposals it
  gathers (\<open>quorum_add\<close>, \<open>quorum_majority\<close>, \<open>CMP_ROUND\<close>, the choice in \<open>GatherLast\<close>).
\<close>

section \<open>Quorums\<close>

lemma quorum_exist_bit: "quorum_exist q j \<longleftrightarrow> bit (q_member q) j"
  by (simp add: quorum_exist_def push_bit_of_1 and_exp_eq_0_iff_not_bit)

lemma quorum_add_exist: "i < 32 \<Longrightarrow> quorum_exist (snd (quorum_add q i)) j \<longleftrightarrow> j = i \<or> quorum_exist q j"
  by (auto simp: quorum_exist_bit quorum_add_def bit_or_iff bit_push_bit_iff push_bit_of_1 bit_exp_iff)

text \<open>The quorum of the servers that answered.\<close>

definition quorum_of :: "int \<Rightarrow> nat list \<Rightarrow> Quorum_t" where
  "quorum_of n js = fold (\<lambda>j q. snd (quorum_add q j)) js (quorum_init n)"

lemma quorum_of_props:
  "list_all (\<lambda>j. j < 32) js \<Longrightarrow> q_total (quorum_of n js) = n \<and> q_count (quorum_of n js) = int (card (set js))
     \<and> (\<forall>j. quorum_exist (quorum_of n js) j \<longleftrightarrow> j \<in> set js)"
proof (induction js rule: rev_induct)
  case Nil
  then show ?case by (simp add: quorum_of_def quorum_init_def quorum_exist_def)
next
  case (snoc i js)
  then have IH: "q_total (quorum_of n js) = n" "q_count (quorum_of n js) = int (card (set js))"
    "\<And>j. quorum_exist (quorum_of n js) j \<longleftrightarrow> j \<in> set js" and i: "i < 32" by simp_all
  have q: "quorum_of n (js @ [i]) = snd (quorum_add (quorum_of n js) i)" by (simp add: quorum_of_def)
  have "q_total (snd (quorum_add (quorum_of n js) i)) = n" by (simp add: quorum_add_def IH(1))
  moreover have "q_count (snd (quorum_add (quorum_of n js) i)) = int (card (insert i (set js)))"
    using IH(2,3) by (simp add: quorum_add_def card_insert_if)
  ultimately show ?case using quorum_add_exist [OF i] IH(3) by (auto simp: q)
qed

text \<open>
  A quorum that starts empty and to which the answers of servers are added, in any order and
  with any repetition, counts each server once, knows exactly the servers that answered, and is a
  majority when more than half of the servers of the cell have answered.
\<close>

theorem quorum_counts_servers:
  assumes "list_all (\<lambda>j. j < 32) js"
  shows "q_count (quorum_of n js) = int (card (set js))
    \<and> (quorum_exist (quorum_of n js) j \<longleftrightarrow> j \<in> set js)
    \<and> (0 \<le> n \<longrightarrow> quorum_majority (quorum_of n js) = (n div 2 < int (card (set js))))"
  using quorum_of_props [OF assms, of n] by (auto simp: quorum_majority_def)

theorem quorum_counts_servers_witness:
  "q_count (quorum_of 5 [0, 3, 0]) = 2 \<and> \<not> quorum_majority (quorum_of 5 [0, 3, 0])"
proof -
  have "card {0, 3, 0 :: nat} = 2" by (simp add: card_insert_if)
  then show ?thesis using quorum_counts_servers [of "[0, 3, 0]" 5 0] by simp
qed

text \<open>
  C9: Two majorities of a cell of at most 32 servers have a server in common.
\<close>

theorem majorities_intersect:
  assumes n: "n \<le> 32" and js: "set js \<subseteq> {0..<n}" and ks: "set ks \<subseteq> {0..<n}"
    and mj: "quorum_majority (quorum_of (int n) js)" and mk: "quorum_majority (quorum_of (int n) ks)"
  shows "\<exists>j < n. quorum_exist (quorum_of (int n) js) j \<and> quorum_exist (quorum_of (int n) ks) j"
proof -
  have l: "list_all (\<lambda>j. j < 32) js" "list_all (\<lambda>j. j < 32) ks" using n js ks by (auto simp: list_all_iff)
  note p = quorum_of_props [OF l(1), of "int n"] quorum_of_props [OF l(2), of "int n"]
  have c: "n < card (set js) + card (set ks)" using mj mk p by (simp add: quorum_majority_def)
  have "card (set js \<union> set ks) \<le> n" using card_mono [of "{0..<n}" "set js \<union> set ks"] js ks by simp
  then have "set js \<inter> set ks \<noteq> {}" using c card_Un_disjoint [of "set js" "set ks"] by fastforce
  then show ?thesis using p js by fastforce
qed

theorem majorities_intersect_witness:
  "\<exists>j < 5. quorum_exist (quorum_of 5 [0, 1, 2]) j \<and> quorum_exist (quorum_of 5 [2, 3, 4]) j"
proof -
  have "quorum_majority (quorum_of 5 [0, 1, 2])" "quorum_majority (quorum_of 5 [2, 3, 4])" by code_simp+
  then show ?thesis using majorities_intersect [of 5 "[0, 1, 2]" "[2, 3, 4]"] by simp
qed

section \<open>Ballots\<close>

lemma CMP_ROUND_refl [simp]: "CMP_ROUND r r = 0"
  by (simp add: CMP_ROUND_def)

lemma CMP_ROUND_INC: "0 < CMP_ROUND \<lparr>r_id = i, r_seq = SEQ_INC (r_seq r)\<rparr> r"
proof -
  have "SEQ_INC (r_seq r) \<noteq> r_seq r" using SEQ_CMP_INC [of "r_seq r"] by auto
  then show ?thesis using SEQ_CMP_INC [of "r_seq r"] by (simp add: CMP_ROUND_def)
qed

lemma CMP_ROUND_eq_0: "CMP_ROUND x y = 0 \<longleftrightarrow> r_seq x = r_seq y \<and> (r_seq x = 0 \<or> r_id x = r_id y)"
  by (auto simp: CMP_ROUND_def Let_def)

text \<open>Ballots less than half the circle apart: the later number, then the lower server.\<close>

definition near :: "Round_t \<Rightarrow> bool" where
  "near r \<longleftrightarrow> unat (r_seq r) < 2 ^ 30"

definition weaker :: "Round_t \<Rightarrow> Round_t \<Rightarrow> bool" where
  "weaker x y \<longleftrightarrow> unat (r_seq x) < unat (r_seq y) \<or>
     (r_seq x = r_seq y \<and> (r_seq x = 0 \<or> r_id y \<le> r_id x))"

lemma SEQ_CMP_near:
  assumes "unat x < 2 ^ 30" "unat y < 2 ^ 30"
  shows "SEQ_CMP x y < 0 \<longleftrightarrow> unat x < unat y" and "SEQ_CMP x y = 0 \<longleftrightarrow> unat x = unat y"
proof -
  have d: "sint (x - y) = int (unat x) - int (unat y)" using sint_of_nat_diff [OF assms] by simp
  show "SEQ_CMP x y < 0 \<longleftrightarrow> unat x < unat y"
    by (cases "x = 0"; cases "y = 0") (simp_all add: SEQ_CMP_def d unat_gt_0 word_less_def flip: word_less_nat_alt)
  show "SEQ_CMP x y = 0 \<longleftrightarrow> unat x = unat y" by (simp add: word_unat_eq_iff)
qed

lemma CMP_ROUND_weaker: "near x \<Longrightarrow> near y \<Longrightarrow> CMP_ROUND x y \<le> 0 \<longleftrightarrow> weaker x y"
  using SEQ_CMP_near(1) [of "r_seq x" "r_seq y"] SEQ_CMP_eq_0 [of "r_seq x" "r_seq y"]
  by (auto simp: CMP_ROUND_def weaker_def near_def Let_def not_less le_less simp del: SEQ_CMP_eq_0)

lemma weaker_trans: "weaker x y \<Longrightarrow> weaker y z \<Longrightarrow> weaker x z"
  by (auto simp: weaker_def)

lemma weaker_total: "weaker x y \<or> weaker y x"
  by (cases "r_seq x = r_seq y") (auto simp: weaker_def word_unat_eq_iff)


text \<open>The strongest of the proposals a leader gathers.\<close>

lemma adopt_ballot:
  assumes "near (p_RndBallot p)" and "near (mp_round lp)" and "isDefined (mp_value lp)"
  shows "near (p_RndBallot (adopt lp p)) \<and> weaker (p_RndBallot p) (p_RndBallot (adopt lp p))
    \<and> weaker (mp_round lp) (p_RndBallot (adopt lp p))"
  using assms weaker_total [of "p_RndBallot p" "mp_round lp"]
  by (auto simp: adopt_def CMP_ROUND_weaker weaker_def)

definition carries :: "msg_paxos_t \<Rightarrow> PaxosInstance_t \<Rightarrow> bool" where
  "carries lp p \<longleftrightarrow> p_RndBallot p = mp_round lp \<and> v_Server (p_RndValue p) = v_Server (mp_value lp)"

text \<open>
  C10: A leader that gathers proposals of an instance, in any order, ends with the strongest ballot
  of them all, and with the value proposed under that ballot, or with its own proposal when that
  is the strongest (the ballots less than half of the sequence circle from zero).
\<close>

theorem gathered_proposal_is_strongest:
  assumes "near (p_RndBallot p)"
    and "\<forall>lp \<in> set lps. near (mp_round lp) \<and> isDefined (mp_value lp)"
    and "p' = fold adopt lps p"
  shows "weaker (p_RndBallot p) (p_RndBallot p')
    \<and> (\<forall>lp \<in> set lps. weaker (mp_round lp) (p_RndBallot p'))
    \<and> (p' = p \<or> (\<exists>lp \<in> set lps. carries lp p'))"
  using assms
proof (induction lps arbitrary: p' rule: rev_induct)
  case Nil
  then show ?case by (simp add: weaker_def)
next
  case (snoc lp lps)
  let ?q = "fold adopt lps p"
  have IH: "weaker (p_RndBallot p) (p_RndBallot ?q)" "\<forall>lp \<in> set lps. weaker (mp_round lp) (p_RndBallot ?q)"
    "?q = p \<or> (\<exists>lp \<in> set lps. carries lp ?q)"
    using snoc by simp_all
  have "near (p_RndBallot ?q)" using IH(3) snoc.prems by (auto simp: carries_def)
  moreover have lp: "near (mp_round lp)" "isDefined (mp_value lp)" using snoc.prems by simp_all
  ultimately have a: "weaker (p_RndBallot ?q) (p_RndBallot (adopt lp ?q))"
    "weaker (mp_round lp) (p_RndBallot (adopt lp ?q))"
    using adopt_ballot by blast+
  have "adopt lp ?q = ?q \<or> carries lp (adopt lp ?q)" by (simp add: adopt_def carries_def)
  then have "p' = p \<or> (\<exists>lp \<in> set (lps @ [lp]). carries lp p')" using IH(3) snoc.prems(3) by auto
  moreover have "\<forall>x \<in> set (lps @ [lp]). weaker (mp_round x) (p_RndBallot p')"
    using IH(2) a weaker_trans snoc.prems(3) by auto
  ultimately show ?case using weaker_trans [OF IH(1) a(1)] snoc.prems(3) by simp
qed

definition ex_proposal :: "u32 \<Rightarrow> u32 \<Rightarrow> msg_paxos_t" where
  "ex_proposal i n = \<lparr>mp_mode = MODE_MSG_PROPOSED, mp_round = \<lparr>r_id = i, r_seq = n\<rparr>,
     mp_value = \<lparr>v_Flags = 1, v_Server = 0, v_Epoch = 0, v_From = 0\<rparr>\<rparr>"

theorem gathered_proposal_is_strongest_witness:
  "weaker \<lparr>r_id = 1, r_seq = 4\<rparr> (p_RndBallot (fold adopt [ex_proposal 1 4, ex_proposal 2 3] instance_zero))"
proof -
  have "near (p_RndBallot instance_zero)" by (simp add: near_def instance_zero_def)
  moreover have "\<forall>lp \<in> set [ex_proposal 1 4, ex_proposal 2 3]. near (mp_round lp) \<and> isDefined (mp_value lp)"
    by (simp add: ex_proposal_def near_def isDefined_def)
  ultimately show ?thesis
    using gathered_proposal_is_strongest [OF _ _ refl, of instance_zero "[ex_proposal 1 4, ex_proposal 2 3]"]
    by (simp add: ex_proposal_def)
qed

end
