(* ===== verification/Paxos_Rounds.thy ===== *)
theory Paxos_Rounds
  imports Paxos_Quorum
begin

text \<open>
  The steps of a round, each by its whole effect: \<open>NewRound\<close>, the agent's answers to a collect and
  to a begin, and the count of the accepts.
\<close>

section \<open>What is sent\<close>

definition fx_send :: "env \<Rightarrow> Paxos_t \<Rightarrow> nat \<Rightarrow> msg_body \<Rightarrow> fx list" where
  "fx_send E s j cmd =
     (if is_active (server s j) \<and> c_Status (s_ChSend (server s j)) = 0
      then [FxSend j (c_PeerAddr (s_ChSend (server s j))) (seal E s (msg_alloc s (s_ID (server s j)) cmd))]
      else [])"

lemma send_eq: "send E j cmd s = s\<lparr>p_Fx := p_Fx s @ fx_send E s j cmd\<rparr>"
  by (simp add: send_def PaxosSend_def fx_send_def ChSend_passes_iff emit_def)

lemma seal_cong: "p_bCksum t = p_bCksum s \<Longrightarrow> seal E t pm = seal E s pm"
  by (simp add: seal_def)

lemma fx_send_cong:
  "p_aServer t = p_aServer s \<Longrightarrow> p_MyId t = p_MyId s \<Longrightarrow> p_bCksum t = p_bCksum s \<Longrightarrow>
     fx_send E t j cmd = fx_send E s j cmd"
  using seal_cong [of t s E] by (simp add: fx_send_def msg_alloc_def)

section \<open>A new round\<close>

definition proposes :: "Paxos_t \<Rightarrow> nat \<Rightarrow> bool" where
  "proposes s k \<longleftrightarrow> PMode s k = MODE_NONE \<and> isDefined (InitValue s k)"

definition propose :: "Paxos_t \<Rightarrow> nat \<Rightarrow> PaxosInstance_t" where
  "propose s k = (if proposes s k
     then (PAXOS s k)\<lparr>p_Mode := MODE_WAIT, p_RndValue := (InitValue s k)\<lparr>v_Epoch := Epoch s\<rparr>,
            p_RndBallot := \<lparr>r_id = of_nat (MyId s), r_seq = 0\<rparr>\<rparr>
     else PAXOS s k)"

definition propose_cmds :: "Paxos_t \<Rightarrow> nat \<Rightarrow> MetaCmds" where
  "propose_cmds s k = (if proposes s k then (METACMD s k)\<lparr>c_MetaCmdRnd := MetaCmdInit s k\<rparr> else METACMD s k)"

lemma newround_propose_yes:
  "PMode s k = MODE_NONE \<Longrightarrow> isDefined (InitValue s k) \<Longrightarrow> newround_propose k s =
     (if isEmpty (MetaCmdInit s k) then None
      else Some (s\<lparr>p_Multi := (p_Multi s)\<lparr>
        m_aPaxos := (PAXOS s)(k := (PAXOS s k)\<lparr>p_Mode := MODE_WAIT, p_RndValue := (InitValue s k)\<lparr>v_Epoch := Epoch s\<rparr>,
            p_RndBallot := \<lparr>r_id = of_nat (MyId s), r_seq = 0\<rparr>\<rparr>),
        m_aMetaCmd := (METACMD s)(k := (METACMD s k)\<lparr>c_MetaCmdRnd := MetaCmdInit s k\<rparr>)\<rparr>\<rparr>))"
  unfolding newround_propose_def set_inst_def set_cmds_def Let_def ASSERT_def
  by (simp only: simp_thms if_True if_False split: if_split) (simp del: fun_upd_apply)

lemma newround_propose_eq:
  "newround_propose k s =
     (if proposes s k \<and> isEmpty (MetaCmdInit s k) then None
      else Some (s\<lparr>p_Multi := (p_Multi s)\<lparr>m_aPaxos := (PAXOS s)(k := propose s k),
                                       m_aMetaCmd := (METACMD s)(k := propose_cmds s k)\<rparr>\<rparr>))"
proof (cases "proposes s k")
  case True
  then have p: "PMode s k = MODE_NONE" "isDefined (InitValue s k)" by (simp_all add: proposes_def)
  show ?thesis
    unfolding newround_propose_yes [OF p] propose_def propose_cmds_def if_P [OF True]
    by (simp only: True simp_thms)
next
  case False
  have "s\<lparr>p_Multi := (p_Multi s)\<lparr>m_aPaxos := PAXOS s, m_aMetaCmd := METACMD s\<rparr>\<rparr> = s"
    by (cases s rule: Paxos_t.cases; cases "p_Multi s" rule: PaxosMulti_t.cases) simp
  moreover have "newround_propose k s = Some s"
    using False unfolding newround_propose_def proposes_def by (simp only: if_False)
  ultimately show ?thesis
    unfolding propose_def propose_cmds_def if_not_P [OF False] fun_upd_triv by (simp only: False simp_thms if_False)
qed

lemma for_each_propose:
  "distinct ks \<Longrightarrow> for_each newround_propose ks s = Some s' \<Longrightarrow>
     s' = s\<lparr>p_Multi := (p_Multi s)\<lparr>m_aPaxos := (\<lambda>k. if k \<in> set ks then propose s k else PAXOS s k),
            m_aMetaCmd := (\<lambda>k. if k \<in> set ks then propose_cmds s k else METACMD s k)\<rparr>\<rparr>"
proof (induction ks arbitrary: s)
  case Nil
  then show ?case by (simp)
next
  case (Cons k ks)
  let ?t = "s\<lparr>p_Multi := (p_Multi s)\<lparr>m_aPaxos := (PAXOS s)(k := propose s k),
      m_aMetaCmd := (METACMD s)(k := propose_cmds s k)\<rparr>\<rparr>"
  have "for_each newround_propose ks ?t = Some s'"
    using Cons.prems(2) by (simp add: newround_propose_eq [of k s] split: if_splits)
  note IH = Cons.IH [OF _ this]
  have "propose ?t i = propose s i" "propose_cmds ?t i = propose_cmds s i" if "i \<in> set ks" for i
    using that Cons.prems(1) by (auto simp: propose_def propose_cmds_def proposes_def)
  then have f: "(\<lambda>i. if i \<in> set ks then propose ?t i else PAXOS ?t i) = (\<lambda>i. if i \<in> set (k # ks) then propose s i else PAXOS s i)"
    and g: "(\<lambda>i. if i \<in> set ks then propose_cmds ?t i else METACMD ?t i) = (\<lambda>i. if i \<in> set (k # ks) then propose_cmds s i else METACMD s i)"
    using Cons.prems(1) by (auto simp: fun_eq_iff)
  show ?case using IH Cons.prems(1) unfolding f g by simp
qed

definition collect_msg :: "Paxos_t \<Rightarrow> msg_body" where
  "collect_msg s = MSG_COLLECT \<lparr>c_CurRnd = CurRnd s, c_NextDecide = NextDecide s, c_BackPage = BackPage s,
     c_Page = Page s, c_NextK = NextK s, c_paxos = collect_entry s\<rparr>"

lemma collect_msg_cong:
  "CurRnd t = CurRnd s \<Longrightarrow> NextDecide t = NextDecide s \<Longrightarrow> BackPage t = BackPage s \<Longrightarrow> Page t = Page s \<Longrightarrow>
     NextK t = NextK s \<Longrightarrow> PAXOS t = PAXOS s \<Longrightarrow> collect_msg t = collect_msg s"
  by (simp add: collect_msg_def collect_entry_def fun_eq_iff)

lemma newround_collect_eq:
  "newround_collect E j s =
     (if j = MyId s
      then s\<lparr>p_Multi := (p_Multi s)\<lparr>l_RndInfQuo := snd (quorum_add (RndInfQuo s) j),
             l_Mode := (if p_Max s = 1 then MODE_BEGINCAST else AMode s)\<rparr>\<rparr>
      else s\<lparr>p_Fx := p_Fx s @ fx_send E s j (collect_msg s)\<rparr>)"
  by (simp add: newround_collect_def send_eq collect_msg_def assign)

lemma fold_newround_collect:
  "distinct js \<Longrightarrow> fold (newround_collect E) js s =
     s\<lparr>p_Multi := (if MyId s \<in> set js
         then (p_Multi s)\<lparr>l_RndInfQuo := snd (quorum_add (RndInfQuo s) (MyId s)),
                          l_Mode := (if p_Max s = 1 then MODE_BEGINCAST else AMode s)\<rparr>
         else p_Multi s),
       p_Fx := p_Fx s @ concat (map (\<lambda>j. if j = MyId s then [] else fx_send E s j (collect_msg s)) js)\<rparr>"
proof (induction js rule: rev_induct)
  case Nil
  then show ?case by simp
next
  case (snoc j js)
  let ?t = "fold (newround_collect E) js s"
  have IH: "?t = s\<lparr>p_Multi := (if MyId s \<in> set js
         then (p_Multi s)\<lparr>l_RndInfQuo := snd (quorum_add (RndInfQuo s) (MyId s)),
                          l_Mode := (if p_Max s = 1 then MODE_BEGINCAST else AMode s)\<rparr>
         else p_Multi s),
       p_Fx := p_Fx s @ concat (map (\<lambda>j. if j = MyId s then [] else fx_send E s j (collect_msg s)) js)\<rparr>"
    using snoc by simp
  have c: "collect_msg ?t = collect_msg s" by (simp add: IH collect_msg_def collect_entry_def fun_eq_iff)
  have f: "fx_send E ?t j (collect_msg s) = fx_send E s j (collect_msg s)"
    by (rule fx_send_cong) (simp_all add: IH)
  show ?case using snoc.prems unfolding fold_append o_apply fold.simps id_apply newround_collect_eq [of E j ?t] c f by (auto simp: IH)
qed

lemma NewRound_result:
  assumes "NewRound E s = Some s'" and "AMode s = MODE_NONE" and "MyId s < p_Max s"
  shows "0 < CMP_ROUND (CurRnd s') (CurRnd s) \<and> r_id (CurRnd s') = of_nat (MyId s)
    \<and> AMode s' = (if p_Max s = 1 then MODE_BEGINCAST else MODE_GATHERLAST)
    \<and> RndInfQuo s' = quorum_of (int (p_Max s)) [MyId s]
    \<and> (\<forall>k < 10. PAXOS s' k = propose s k \<and> METACMD s' k = propose_cmds s k)
    \<and> p_Fx s' = p_Fx s @ concat (map (\<lambda>j. if j = MyId s then [] else fx_send E s' j (collect_msg s')) [0..<p_Max s])"
proof -
  let ?r = "\<lparr>r_id = of_nat (MyId s), r_seq = SEQ_INC (r_seq (CurRnd s))\<rparr>"
  let ?s1 = "set_multi (\<lambda>m. m\<lparr>l_CurRnd := ?r\<rparr>) s"
  let ?fin = "\<lambda>t. set_multi (\<lambda>m. m\<lparr>l_RndInfQuo := quorum_init (int (p_Max t))\<rparr>)
        ((set_multi (\<lambda>m. m\<lparr>l_Mode := MODE_GATHERLAST\<rparr>) t)\<lparr>p_NewRoundLast := time0 E + DT_NEWROUND t\<rparr>)"
  have e: "NewRound E s = do { t \<leftarrow> for_each newround_propose [0..<10] ?s1;
      Some (fold (newround_collect E) [0..<p_Max t] (?fin t)) }"
    using assms(2) by (simp add: NewRound_def Let_def assign DT_NEWROUND_def DT_D_def DT_L_def del: upt.simps upt_rec_numeral)
  obtain t where t: "for_each newround_propose [0..<10] ?s1 = Some t"
    and s': "s' = fold (newround_collect E) [0..<p_Max t] (?fin t)"
    using assms(1) [unfolded e bind_eq_Some_conv] by blast
  have pp: "propose ?s1 = propose s" "propose_cmds ?s1 = propose_cmds s"
    by (simp_all add: fun_eq_iff propose_def propose_cmds_def proposes_def assign)
  note tt = for_each_propose [OF distinct_upt t, unfolded pp]
  have t':
    "t = s\<lparr>p_Multi := (p_Multi s)\<lparr>m_aPaxos := (\<lambda>k. if k < 10 then propose s k else PAXOS s k),
       m_aMetaCmd := (\<lambda>k. if k < 10 then propose_cmds s k else METACMD s k), l_CurRnd := ?r\<rparr>\<rparr>"
    unfolding tt by (simp add: assign fun_eq_iff del: upt.simps upt_rec_numeral)
  define u where "u = ?fin t"
  have tk: "p_Max t = p_Max s" "p_MyId u = p_MyId s" "p_Fx u = p_Fx s"
    by (simp_all add: u_def t' assign)
  note fc = fold_newround_collect [OF distinct_upt, of E 0 "p_Max t" u, folded s' [folded u_def]]
  have fx: "fx_send E u j (collect_msg u) = fx_send E s' j (collect_msg s')" for j
  proof -
    have c: "collect_msg u = collect_msg s'"
      by (rule collect_msg_cong) (subst fc; simp)+
    have f: "fx_send E u j c = fx_send E s' j c" for c
      by (rule fx_send_cong) (subst fc; simp)+
    show ?thesis by (simp only: c f)
  qed
  have "p_Fx s' = p_Fx u @ concat (map (\<lambda>j. if j = MyId u then [] else fx_send E u j (collect_msg u)) [0..<p_Max t])"
    by (subst fc) simp
  then have f: "p_Fx s' = p_Fx s @ concat (map (\<lambda>j. if j = MyId s then [] else fx_send E s' j (collect_msg s')) [0..<p_Max s])"
    unfolding fx tk .
  have m: "p_Multi s' = (p_Multi u)\<lparr>l_RndInfQuo := snd (quorum_add (RndInfQuo u) (MyId s)),
      l_Mode := (if p_Max s = 1 then MODE_BEGINCAST else MODE_GATHERLAST)\<rparr>"
    using assms(3) by (subst fc) (simp add: u_def t' assign)
  show ?thesis
    unfolding f by (simp add: m) (simp add: u_def assign t' quorum_of_def CMP_ROUND_INC)
qed

text \<open>
  C17: \<open>NewRound\<close> of an idle leader that is a member of the core moves to a round of its
  own above its current round, gathers the answers of the servers with itself as the first, offers the waiting value
  of every instance that has none, and asks exactly the other servers, each with the same collect
  message.
\<close>

theorem NewRound_begins_higher_round:
  assumes "NewRound E s = Some s'" and "AMode s = MODE_NONE" and "MyId s < p_Max s"
  shows "0 < CMP_ROUND (CurRnd s') (CurRnd s) \<and> r_id (CurRnd s') = of_nat (MyId s)
    \<and> AMode s' = (if p_Max s = 1 then MODE_BEGINCAST else MODE_GATHERLAST)
    \<and> RndInfQuo s' = quorum_of (int (p_Max s)) [MyId s]
    \<and> (\<forall>k < 10. PAXOS s' k = propose s k \<and> METACMD s' k = propose_cmds s k)
    \<and> p_Fx s' = p_Fx s @ concat (map (\<lambda>j. if j = MyId s then [] else fx_send E s' j (collect_msg s')) [0..<p_Max s])"
  by (rule NewRound_result [OF assms])

theorem NewRound_begins_higher_round_witness:
  "\<exists>s'. NewRound ex_env (ex_node 3 0 7) = Some s' \<and> 0 < CMP_ROUND (CurRnd s') (CurRnd (ex_node 3 0 7))"
proof -
  have "\<not> Option.is_none (NewRound ex_env (ex_node 3 0 7))" by code_simp
  then obtain s' where s': "NewRound ex_env (ex_node 3 0 7) = Some s'" using ex_some by blast
  have "AMode (ex_node 3 0 7) = MODE_NONE" "MyId (ex_node 3 0 7) < p_Max (ex_node 3 0 7)" by code_simp+
  with s' show ?thesis using NewRound_begins_higher_round by blast
qed

text \<open>
  \<open>NewRound\<close> does not empty the quorums of accepts: an instance enters the new
  round with the accepts that were counted in an earlier one.
\<close>

theorem NewRound_keeps_accepts:
  assumes "NewRound E s = Some s'" and "MyId s < p_Max s" and "k < 10"
  shows "RndAccQuo s' k = RndAccQuo s k"
proof (cases "AMode s = MODE_NONE")
  case True
  then show ?thesis using NewRound_result [OF assms(1) True assms(2)] assms(3) by (simp add: propose_def)
next
  case False
  then show ?thesis using assms(1) by (simp add: NewRound_def)
qed

definition ex_accepted :: Paxos_t where
  "ex_accepted = set_inst 7 (\<lambda>p. p\<lparr>p_RndAccQuo := quorum_of 5 [0, 1]\<rparr>) (ex_node 5 0 7)"

theorem NewRound_keeps_accepts_witness:
  "\<exists>s'. NewRound ex_env ex_accepted = Some s' \<and> q_count (RndAccQuo s' 7) = 2"
proof -
  have "\<not> Option.is_none (NewRound ex_env ex_accepted)" by code_simp
  then obtain s' where s': "NewRound ex_env ex_accepted = Some s'" using ex_some by blast
  moreover have "MyId ex_accepted < p_Max ex_accepted" by code_simp
  ultimately have "RndAccQuo s' 7 = RndAccQuo ex_accepted 7" by (rule NewRound_keeps_accepts) simp
  moreover have "q_count (RndAccQuo ex_accepted 7) = 2" by code_simp
  ultimately show ?thesis using s' by simp
qed

section \<open>The agent\<close>

lemma p_Multi_PaxosValidate [simp]: "p_Multi (snd (PaxosValidate E m seq v c s)) = p_Multi s"
  by (simp add: PaxosValidate_def emit_def)

lemma PaxosValidate_keeps:
  "PaxosValidate E m seq v c s = (r, t) \<Longrightarrow> \<exists>fxs. t = s\<lparr>p_Fx := p_Fx s @ fxs\<rparr>"
  by (auto simp: PaxosValidate_def emit_def split: if_splits intro: exI [of _ "[]"])

text \<open>
  C14: An agent that has promised a later round changes nothing for a proposal of a weaker one, and
  answers it with the two rounds.
\<close>

theorem RecvBegin_refuses_weaker_ballot:
  assumes "CMP_ROUND (b_CurRnd pmb) (CurRnd s) < 0" and "\<not> p_bSuppressAccept s"
    and "srv_index s fr = Some j" and "srv_index s (b_To pmb) = Some ja"
  shows "RecvBegin E fr pmb s =
    Some (s\<lparr>p_Fx := p_Fx s @ fx_send E s ja (MSG_OLDROUND \<lparr>o_round = b_CurRnd pmb, o_commit = CurRnd s\<rparr>)\<rparr>)"
  using assms by (simp add: RecvBegin_def send_eq)

definition ex_begin :: "Round_t \<Rightarrow> int \<Rightarrow> u8 list \<Rightarrow> msg_begin_t" where
  "ex_begin r v cmd = \<lparr>b_To = v, b_NextDecide = 7, b_BackPage = 0, b_Page = 0, b_NextK = 8, b_k = 7, b_CurRnd = r,
     b_Value = \<lparr>v_Flags = 1, v_Server = v, v_Epoch = 1, v_From = v\<rparr>,
     b_MetaCmd = \<lparr>c_len = of_nat (length cmd), c_opaque = cmd\<rparr>\<rparr>"

definition ex_promised :: Paxos_t where
  "ex_promised = set_multi (\<lambda>m. m\<lparr>l_CurRnd := \<lparr>r_id = 2, r_seq = 5\<rparr>\<rparr>) (ex_node 3 1 7)"

theorem RecvBegin_refuses_weaker_ballot_witness:
  "\<exists>s'. RecvBegin ex_env 0 (ex_begin \<lparr>r_id = 0, r_seq = 4\<rparr> 0 [9]) ex_promised = Some s' \<and> p_Multi s' = p_Multi ex_promised"
proof -
  have "CMP_ROUND (b_CurRnd (ex_begin \<lparr>r_id = 0, r_seq = 4\<rparr> 0 [9])) (CurRnd ex_promised) < 0"
    "\<not> p_bSuppressAccept ex_promised" "srv_index ex_promised 0 = Some 0"
    "srv_index ex_promised (b_To (ex_begin \<lparr>r_id = 0, r_seq = 4\<rparr> 0 [9])) = Some 0" by code_simp+
  then show ?thesis using RecvBegin_refuses_weaker_ballot by fastforce
qed

text \<open>The instance of an agent after it accepted a proposal.\<close>

definition accepted :: "Paxos_t \<Rightarrow> msg_begin_t \<Rightarrow> PaxosInstance_t \<Rightarrow> PaxosInstance_t" where
  "accepted s pmb p = p\<lparr>p_Mode := (if p_Mode p = MODE_NONE then MODE_WAIT else p_Mode p),
     p_RndBallot := b_CurRnd pmb, p_RndValue := (b_Value pmb)\<lparr>v_From := int (MyId s)\<rparr>\<rparr>"

text \<open>
  C15: An agent that accepts a proposal records its ballot, value and command on the instance,
  which waits for the decision, and answers with an accept of just these, or holds the accept back
  while a server catches up; the round it has promised stays what it was.
\<close>

theorem RecvBegin_accepts:
  assumes "0 \<le> CMP_ROUND (b_CurRnd pmb) (CurRnd s)" and "\<not> p_bSuppressAccept s"
    and "srv_index s fr = Some j" and "srv_index s (b_To pmb) = Some ja" and "k_index (b_k pmb) = Some k"
    and "b_Page pmb = Page s" and "PMode s k \<noteq> MODE_DECIDED" and "\<not> isEmpty (b_MetaCmd pmb)"
    and "fst (PaxosValidate E PAXOS_MODE_BEGIN (Seq s k) (b_Value pmb) (b_MetaCmd pmb) s) = 0"
    and "RecvBegin E fr pmb s = Some s'"
  shows "PAXOS s' = (PAXOS s)(k := (accepted s pmb (PAXOS s k))\<lparr>p_Suppressed := (accept_held E s \<or> Suppressed s k)\<rparr>)
    \<and> MetaCmdRnd s' k = b_MetaCmd pmb \<and> CurRnd s' = CurRnd s
    \<and> (\<exists>notice. p_Fx s' = p_Fx s @ notice @ (if accept_held E s then [] else fx_send E s ja (MSG_ACCEPT (accept_of s' k)))
         \<and> List.map_filter exec_event notice = [])"
proof -
  obtain r t where v: "PaxosValidate E PAXOS_MODE_BEGIN (Seq s k) (b_Value pmb) (b_MetaCmd pmb) s = (r, t)" by fastforce
  then have r: "r = 0" using assms(9) by simp
  obtain fxs where t: "t = s\<lparr>p_Fx := p_Fx s @ fxs\<rparr>" and n: "List.map_filter exec_event fxs = []"
  proof (cases "t = s")
    case True
    then show ?thesis using that [of "[]"] by (cases s) simp
  next
    case False
    then have "\<exists>x. t = s\<lparr>p_Fx := p_Fx s @ [x]\<rparr> \<and> exec_event x = None"
      using v by (auto simp: PaxosValidate_def emit_def split: if_splits)
    then show ?thesis using that by (auto simp: map_filter_one)
  qed
  let ?u = "set_cmds k (\<lambda>c. c\<lparr>c_MetaCmdRnd := b_MetaCmd pmb\<rparr>) (set_inst k (accepted s pmb) t)"
  have held: "accept_held E ?u = accept_held E s" by (simp add: accept_held_def t assign)
  have e: "RecvBegin E fr pmb s =
      (if accept_held E s then Some (set_inst k (\<lambda>p. p\<lparr>p_Suppressed := True\<rparr>) ?u)
       else Some (send E ja (MSG_ACCEPT (accept_of ?u k)) ?u))"
    using assms(1-8) v r held
    by (simp add: RecvBegin_def ASSERT_def accepted_def [abs_def] t Let_def)
  have f: "fx_send E ?u ja c = fx_send E s ja c" for c
    by (rule fx_send_cong) (simp_all add: t assign)
  show ?thesis
  proof (cases "accept_held E s")
    case True
    then have s': "s' = set_inst k (\<lambda>p. p\<lparr>p_Suppressed := True\<rparr>) ?u" using e assms(10) by simp
    show ?thesis unfolding s' using True n by (auto simp: assign t accepted_def)
  next
    case False
    then have s': "s' = ?u\<lparr>p_Fx := p_Fx ?u @ fx_send E s ja (MSG_ACCEPT (accept_of ?u k))\<rparr>"
      using e assms(10) by (simp add: send_eq f)
    have a: "accept_of s' k = accept_of ?u k" by (simp add: s' accept_of_def)
    have "p_Fx s' = p_Fx s @ fxs @ fx_send E s ja (MSG_ACCEPT (accept_of s' k))"
      unfolding a by (simp add: s') (simp add: t assign)
    moreover have "p_Multi s' = p_Multi ?u" by (simp add: s')
    ultimately show ?thesis using False n by (auto simp: assign t accepted_def)
  qed
qed

theorem RecvBegin_accepts_witness:
  "\<exists>s'. RecvBegin ex_env 0 (ex_begin \<lparr>r_id = 0, r_seq = 6\<rparr> 0 [9]) ex_promised = Some s'
     \<and> MetaCmdRnd s' 7 = \<lparr>c_len = 1, c_opaque = [9]\<rparr> \<and> CurRnd s' = \<lparr>r_id = 2, r_seq = 5\<rparr>"
proof -
  let ?b = "ex_begin \<lparr>r_id = 0, r_seq = 6\<rparr> 0 [9]"
  have "\<not> Option.is_none (RecvBegin ex_env 0 ?b ex_promised)" by code_simp
  then obtain s' where s': "RecvBegin ex_env 0 ?b ex_promised = Some s'" using ex_some by blast
  have "0 \<le> CMP_ROUND (b_CurRnd ?b) (CurRnd ex_promised)" "\<not> p_bSuppressAccept ex_promised"
    "srv_index ex_promised 0 = Some 0" "srv_index ex_promised (b_To ?b) = Some 0" "k_index (b_k ?b) = Some 7"
    "b_Page ?b = Page ex_promised" "PMode ex_promised 7 \<noteq> MODE_DECIDED" "\<not> isEmpty (b_MetaCmd ?b)"
    "fst (PaxosValidate ex_env PAXOS_MODE_BEGIN (Seq ex_promised 7) (b_Value ?b) (b_MetaCmd ?b) ex_promised) = 0"
    by code_simp+
  note r = RecvBegin_accepts [OF this s']
  show ?thesis using s' r by (simp add: ex_begin_def ex_promised_def assign)
qed

section \<open>Answers to a collect\<close>

text \<open>Catch-up and sending leave the page as it is.\<close>

definition same_page :: "Paxos_t \<Rightarrow> Paxos_t \<Rightarrow> bool" where
  "same_page s t \<longleftrightarrow> p_Multi t = p_Multi s \<and> p_MyId t = p_MyId s \<and> NextDecide t = NextDecide s
     \<and> prefix (p_Fx s) (p_Fx t)"

interpretation same_page: evolution same_page
  by unfold_locales (auto simp: same_page_def intro: prefix_order.trans)

lemma same_page_CatchupRequest: "CatchupRequest E j u s = Some s' \<Longrightarrow> same_page s s'"
  by (auto simp: CatchupRequest_def CatchupFire_def send_eq set_srv_def same_page_def Let_def bind_eq_Some_conv
      split: if_splits)

lemma same_page_CatchupInstanceRpl: "same_page s (snd (CatchupInstanceRpl E j m u s))"
  by (auto simp: CatchupInstanceRpl_def send_eq same_page_def Let_def split: option.split)

definition collect_answer :: "Paxos_t \<Rightarrow> msg_collect_t \<Rightarrow> nat \<Rightarrow> msg_paxos_t" where
  "collect_answer s pmc k =
     (if mp_mode (c_paxos pmc k) = MODE_MSG_DECIDED then msg_paxos_zero
      else if PMode s k = MODE_DECIDED then msg_paxos_zero\<lparr>mp_mode := MODE_MSG_DECIDED, mp_value := RndValue s k\<rparr>
      else last_proposal s k (c_paxos pmc k))"

lemma collect_answer_cong: "same_page s t \<Longrightarrow> collect_answer t pmc k = collect_answer s pmc k"
  by (simp add: collect_answer_def last_proposal_def same_page_def)

lemma collect_same_step:
  assumes "collect_same E j pmc k (lp, s) = Some (lp', s')" and "lp k = msg_paxos_zero"
  shows "lp' = lp(k := collect_answer s pmc k) \<and> same_page s s'"
proof -
  have "same_page s s" by (rule same_page.refl)
  moreover have "lp(k := msg_paxos_zero) = lp" using assms(2) by (simp add: fun_upd_idem)
  ultimately show ?thesis
    using assms same_page_CatchupInstanceRpl same_page_CatchupRequest
    by (auto simp: collect_same_def collect_answer_def bind_eq_Some_conv ASSERT_def split: if_splits)
qed

lemma for_each_collect_same:
  "distinct ks \<Longrightarrow> for_each (collect_same E j pmc) ks (lp, s) = Some (lp', s') \<Longrightarrow> \<forall>k \<in> set ks. lp k = msg_paxos_zero \<Longrightarrow>
     lp' = (\<lambda>k. if k \<in> set ks then collect_answer s pmc k else lp k) \<and> same_page s s'"
proof (induction ks arbitrary: lp s)
  case Nil
  then show ?case by (simp add: same_page.refl)
next
  case (Cons k ks)
  then obtain lp1 s1 where a: "collect_same E j pmc k (lp, s) = Some (lp1, s1)"
    and b: "for_each (collect_same E j pmc) ks (lp1, s1) = Some (lp', s')"
    by (auto simp: bind_eq_Some_conv)
  have 1: "lp1 = lp(k := collect_answer s pmc k)" "same_page s s1" using collect_same_step [OF a] Cons.prems(3) by simp_all
  have 2: "lp' = (\<lambda>k. if k \<in> set ks then collect_answer s1 pmc k else lp1 k) \<and> same_page s1 s'"
    using Cons.prems 1 by (intro Cons.IH [OF _ b]) auto
  show ?case using 1 2 collect_answer_cong [OF 1(2)] same_page.trans by auto
qed

text \<open>
  C16: An agent that answers a collect of its page promises the round of the collect, changes
  nothing else of its page, and the last thing it sends is its report of every instance of the
  page to the collecting server.
\<close>

theorem RecvCollect_promises_and_reports:
  assumes "RecvCollect E fr pmc s = Some s'" and "CMP_ROUND (CurRnd s) (c_CurRnd pmc) \<le> 0"
    and "c_Page pmc = Page s" and "srv_index s fr = Some j"
  shows "p_Multi s' = (p_Multi s)\<lparr>l_CurRnd := c_CurRnd pmc\<rparr>
    \<and> suffix (fx_send E s' j (MSG_LAST \<lparr>l_round = c_CurRnd pmc, l_NextDecide = NextDecide s, l_Page = Page s,
         l_paxos = (\<lambda>k. if k < 10 then collect_answer s pmc k else msg_paxos_zero)\<rparr>)) (p_Fx s')"
proof -
  let ?u = "set_multi (\<lambda>m. m\<lparr>l_CurRnd := c_CurRnd pmc\<rparr>) s"
  have p: "Page ?u = Page s" by (simp add: assign)
  obtain lp t where f: "for_each (collect_same E j pmc) [0..<10] (\<lambda>_. msg_paxos_zero, ?u) = Some (lp, t)"
    and s': "s' = send E j (MSG_LAST \<lparr>l_round = c_CurRnd pmc, l_NextDecide = NextDecide ?u, l_Page = Page t,
        l_paxos = lp\<rparr>) t"
    using assms unfolding RecvCollect_def Let_def bind_eq_Some_conv
    by (auto simp: p bind_eq_Some_conv simp del: upt.simps upt_rec_numeral)
  have u: "collect_answer ?u pmc k = collect_answer s pmc k" for k
    by (simp add: collect_answer_def last_proposal_def assign)
  have t: "lp = (\<lambda>k. if k < 10 then collect_answer s pmc k else msg_paxos_zero)" "same_page ?u t"
    using for_each_collect_same [OF distinct_upt f] u by (auto simp del: upt.simps upt_rec_numeral)
  have "fx_send E s' j c = fx_send E t j c" for c
    by (rule fx_send_cong) (simp_all add: s' send_eq)
  then show ?thesis using t by (simp add: s' send_eq same_page_def assign suffix_def)
qed

definition ex_collect :: msg_collect_t where
  "ex_collect = \<lparr>c_CurRnd = \<lparr>r_id = 0, r_seq = 6\<rparr>, c_NextDecide = 7, c_BackPage = 0, c_Page = 0, c_NextK = 7,
     c_paxos = (\<lambda>_. msg_paxos_zero)\<rparr>"

theorem RecvCollect_promises_and_reports_witness:
  "\<exists>s'. RecvCollect ex_env 0 ex_collect ex_promised = Some s' \<and> CurRnd s' = \<lparr>r_id = 0, r_seq = 6\<rparr>"
proof -
  have "\<not> Option.is_none (RecvCollect ex_env 0 ex_collect ex_promised)" by code_simp
  then obtain s' where s': "RecvCollect ex_env 0 ex_collect ex_promised = Some s'" using ex_some by blast
  have "CMP_ROUND (CurRnd ex_promised) (c_CurRnd ex_collect) \<le> 0" "c_Page ex_collect = Page ex_promised"
    "srv_index ex_promised 0 = Some 0" by code_simp+
  note r = RecvCollect_promises_and_reports [OF s' this]
  then show ?thesis using s' by (simp add: ex_collect_def)
qed

text \<open>
  The report of an instance is the stronger of the proposal the collect carries and the one
  the agent holds, and names that proposal's server.
\<close>

theorem last_proposal_is_strongest:
  assumes "PMode s k \<noteq> MODE_NONE" and "near (RndBallot s k)" and "near (mp_round cp)"
    and "mp_mode cp = MODE_MSG_PROPOSED"
  shows "weaker (RndBallot s k) (mp_round (last_proposal s k cp)) \<and> weaker (mp_round cp) (mp_round (last_proposal s k cp))
    \<and> (mp_round (last_proposal s k cp) = mp_round cp \<and> mp_value (last_proposal s k cp) = mp_value cp
       \<or> mp_round (last_proposal s k cp) = RndBallot s k
         \<and> v_Server (mp_value (last_proposal s k cp)) = v_Server (RndValue s k))"
  using assms weaker_total [of "RndBallot s k" "mp_round cp"]
  by (auto simp: last_proposal_def CMP_ROUND_weaker weaker_def)

theorem last_proposal_is_strongest_witness:
  "weaker \<lparr>r_id = 1, r_seq = 4\<rparr> (mp_round (last_proposal
     (set_inst 7 (\<lambda>p. p\<lparr>p_Mode := MODE_WAIT, p_RndBallot := \<lparr>r_id = 1, r_seq = 4\<rparr>\<rparr>) ex_promised) 7 (ex_proposal 2 3)))"
proof -
  let ?s = "set_inst 7 (\<lambda>p. p\<lparr>p_Mode := MODE_WAIT, p_RndBallot := \<lparr>r_id = 1, r_seq = 4\<rparr>\<rparr>) ex_promised"
  have "PMode ?s 7 \<noteq> MODE_NONE" "near (RndBallot ?s 7)" "near (mp_round (ex_proposal 2 3))"
    "mp_mode (ex_proposal 2 3) = MODE_MSG_PROPOSED" by (simp_all add: ex_proposal_def near_def assign)
  note r = last_proposal_is_strongest [OF this]
  moreover have "RndBallot ?s 7 = \<lparr>r_id = 1, r_seq = 4\<rparr>" by (simp add: assign)
  ultimately show ?thesis by simp
qed

section \<open>Counting accepts\<close>

lemma Execute_multi: "Execute u v c s = Some s' \<Longrightarrow> p_Multi s' = p_Multi s"
  by (auto simp: Execute_def emit_def Let_def split: if_splits)

lemma drain_gaps_multi: "drain_gaps fuel s = Some s' \<Longrightarrow> p_Multi s' = p_Multi s"
proof (induction fuel arbitrary: s)
  case (Suc fuel)
  then show ?case
    by (auto simp: bind_eq_Some_conv split: prod.splits option.splits dest!: Execute_multi Suc.IH)
qed simp

lemma ExecUp_page: "ExecUp k s = Some (up, s') \<Longrightarrow> PAXOS s' = PAXOS s \<and> METACMD s' = METACMD s \<and> Page s' = Page s"
proof (cases "CMP (Seq s k) (NextDecide s) < 0")
  case True
  moreover assume "ExecUp k s = Some (up, s')"
  ultimately have "s' = (if NextK s < k + 1 then set_multi (\<lambda>m. m\<lparr>p_NextK := k + 1\<rparr>) s else s)"
    by (auto simp: ExecUp_def Let_def assign split: if_splits)
  then show ?thesis by (simp add: assign)
next
  case False
  assume e: "ExecUp k s = Some (up, s')"
  let ?p = "exec_pre k s"
  have p: "PAXOS ?p = PAXOS s" "METACMD ?p = METACMD s" "Page ?p = Page s"
    using exec_pre_frame(1) [of s k] by (simp_all add: up_frame_def)
  obtain t where t: "(if CMP (Seq ?p k) (NextDecide ?p) = 0 then do {
        s \<leftarrow> Execute (Seq ?p k) (RndValue ?p k) (MetaCmdRnd ?p k) (?p\<lparr>p_NextDecide := NextDecide ?p + 1, p_bSuppressAccept := False\<rparr>);
        drain_gaps (Suc (hash_size (p_Gaps s))) s }
      else Some (?p\<lparr>p_Gaps := HashPut (p_Gaps ?p) (UINT32_PNT (Seq ?p k)) (gap_of ?p k)\<rparr>)) = Some t"
    and s': "s' = set_multi (\<lambda>m. m\<lparr>p_SuccessCount := p_SuccessCount m + 1\<rparr>) t"
    using e unfolding ExecUp_pre [OF False] Let_def bind_eq_Some_conv by (auto simp: bind_eq_Some_conv split: if_splits)
  have "p_Multi t = p_Multi ?p"
    using t by (auto simp: bind_eq_Some_conv simp del: drain_gaps.simps split: if_splits dest!: Execute_multi drain_gaps_multi)
  then show ?thesis using p by (simp add: s' assign)
qed

lemma Exec_page:
  assumes "Exec E k s = Some s'"
  shows "(Page s' = Page s \<and> PAXOS s' = PAXOS s \<and> METACMD s' = METACMD s) \<or>
    (Page s' = Page s + 1 \<and> (\<forall>i. PMode s' i = MODE_NONE))"
proof -
  from assms obtain t up u where u: "ExecUp k t = Some (up, u)"
    and s': "s' = (if up \<and> PAXOS_MAX \<le> SuccessCount u then UpdatePage E u else u)" and t: "p_Multi t = p_Multi s"
    by (rule Exec_step)
  have "PAXOS u = PAXOS s \<and> METACMD u = METACMD s \<and> Page u = Page s" using ExecUp_page [OF u] t by simp
  then show ?thesis using s' UpdatePage_frame [of u E] by (auto split: if_splits)
qed

text \<open>The quorum of an instance once one more accept is counted.\<close>

definition accepts_after :: "Paxos_t \<Rightarrow> nat \<Rightarrow> int \<Rightarrow> Quorum_t" where
  "accepts_after s k fr = snd (quorum_add (RndAccQuo s k) (nat fr))"

lemma accept_command_quorum: "accept_command E pm k s = (go, t) \<Longrightarrow> RndAccQuo t k = RndAccQuo s k"
proof -
  assume e: "accept_command E pm k s = (go, t)"
  obtain Ret u where v: "PaxosValidate E PAXOS_MODE_ACCEPT (Seq s k) (a_Value pm) (a_MetaCmd pm) s = (Ret, u)"
    by fastforce
  then show ?thesis
    using e PaxosValidate_PMode [OF v] by (auto simp: accept_command_def set_inst_def set_cmds_def split: if_splits)
qed

lemma accept_command_keeps:
  "accept_command E pm k s = (go, t) \<Longrightarrow> PMode s k \<noteq> MODE_DECIDED \<Longrightarrow>
     quiet s t \<and> RndAccQuo t k = RndAccQuo s k \<and> PMode t k = PMode s k \<and> MyId t = MyId s"
  using accept_command_quiet [of E pm k s] accept_command_quorum [of E pm k s]
  by (simp add: quiet_def same_config_def)

text \<open>
  C8: The leader decides nothing and executes nothing on an accept, unless the accept is for its
  round, its page and an instance that gathers accepts, and the set of servers counted for the
  instance, with the sender, is a majority that contains the leader itself. The set may hold servers
  whose accept was for an earlier round (\<open>NewRound_keeps_accepts\<close>).
\<close>

theorem GatherAccept_needs_majority:
  assumes "GatherAccept E fr pm s = Some s'"
    and "\<not> (\<exists>k. k_index (a_k pm) = Some k \<and> CMP_ROUND (CurRnd s) (a_round pm) = 0 \<and> a_Page pm = Page s
           \<and> PMode s k = MODE_GATHERACCEPT
           \<and> quorum_exist (accepts_after s k fr) (MyId s) \<and> quorum_majority (accepts_after s k fr))"
  shows "decided s' = decided s \<and> Page s' = Page s \<and> executed s' = executed s \<and> NextDecide s' = NextDecide s"
proof -
  have "quiet s s'"
  proof (cases "CMP_ROUND (CurRnd s) (a_round pm) \<noteq> 0 \<or> CMP (Page s) (a_Page pm) \<noteq> 0")
    case True
    then show ?thesis using assms(1) by (simp add: GatherAccept_def quiet.refl)
  next
    case False
    then obtain k where k: "k_index (a_k pm) = Some k"
      using assms(1) by (auto simp: GatherAccept_def bind_eq_Some_conv)
    show ?thesis
    proof (cases "PMode s k = MODE_GATHERACCEPT")
      case False
      then show ?thesis using assms(1) k \<open>\<not> (_ \<or> _)\<close> by (simp add: GatherAccept_def quiet.refl)
    next
      case True
      obtain go t where c: "accept_command E pm k s = (go, t)" by fastforce
      note q = accept_command_keeps [OF c, unfolded True, simplified]
      have no: "\<not> (quorum_exist (accepts_after s k fr) (MyId s) \<and> quorum_majority (accepts_after s k fr))"
        using assms(2) k False True by auto
      show ?thesis
      proof (cases go)
        case False
        then show ?thesis using assms(1) k c True \<open>\<not> (_ \<or> _)\<close> q by (simp add: GatherAccept_def)
      next
        case go: True
        then have "accept_count E fr k t = Some s'"
          using assms(1) k c True \<open>\<not> (_ \<or> _)\<close> by (simp add: GatherAccept_def)
        then have "s' = set_inst k (\<lambda>p. p\<lparr>p_RndAccQuo := snd (quorum_add (p_RndAccQuo p) (nat fr))\<rparr>) t"
          using no q by (auto simp: accept_count_def bind_eq_Some_conv bit_index_def accepts_after_def assign split: if_splits)
        moreover have "quiet s t" using q by blast
        ultimately show ?thesis by (simp add: quiet_inst)
      qed
    qed
  qed
  then show ?thesis by (simp add: quiet_def)
qed

definition ex_gather :: Paxos_t where
  "ex_gather = set_inst 7 (\<lambda>p. p\<lparr>p_Mode := MODE_GATHERACCEPT, p_RndAccQuo := quorum_of 5 [0]\<rparr>)
     (set_multi (\<lambda>m. m\<lparr>l_Mode := MODE_BEGINCAST, l_CurRnd := \<lparr>r_id = 0, r_seq = 1\<rparr>\<rparr>) (ex_node 5 0 7))"

definition ex_accept :: msg_accept_t where
  "ex_accept = \<lparr>a_Page = 0, a_k = 7, a_round = \<lparr>r_id = 0, r_seq = 1\<rparr>, a_Value = value_zero, a_MetaCmd = \<lparr>c_len = 1, c_opaque = [9]\<rparr>\<rparr>"

theorem GatherAccept_needs_majority_witness:
  "\<exists>s'. GatherAccept ex_env 1 ex_accept ex_gather = Some s' \<and> decided s' = decided ex_gather"
proof -
  have "\<not> Option.is_none (GatherAccept ex_env 1 ex_accept ex_gather)" by code_simp
  then obtain s' where s': "GatherAccept ex_env 1 ex_accept ex_gather = Some s'" using ex_some by blast
  have "k_index (a_k ex_accept) = Some 7" "\<not> quorum_majority (accepts_after ex_gather 7 1)" by code_simp+
  then have "\<not> (\<exists>k. k_index (a_k ex_accept) = Some k \<and> CMP_ROUND (CurRnd ex_gather) (a_round ex_accept) = 0
      \<and> a_Page ex_accept = Page ex_gather \<and> PMode ex_gather k = MODE_GATHERACCEPT
      \<and> quorum_exist (accepts_after ex_gather k 1) (MyId ex_gather) \<and> quorum_majority (accepts_after ex_gather k 1))"
    by simp
  from GatherAccept_needs_majority [OF s' this] s' show ?thesis by blast
qed

end
