(* ===== verification/Paxos_Progress.thy ===== *)
theory Paxos_Progress
  imports Paxos_Rounds
begin

text \<open>
  Progress: when the next instance is decided and the commands fit their arrays, the server executes
  it and what waits behind it, and returns.
\<close>

text \<open>The state in which \<open>ExecUp\<close> has executed the next instance, and goes on with the gaps.\<close>

definition exec_start :: "nat \<Rightarrow> Paxos_t \<Rightarrow> Paxos_t" where
  "exec_start n s = (exec_pre n s)\<lparr>p_NextDecide := NextDecide s + 1, p_bSuppressAccept := False\<rparr>"

lemma exec_start_frame:
  "up_frame s (exec_start n s)" "p_NextDecide (exec_start n s) = NextDecide s + 1" "p_Gaps (exec_start n s) = p_Gaps s"
  using exec_pre_frame [where s = s and k = n] by (simp_all add: exec_start_def up_frame_def)

lemma ExecUp_at:
  assumes due: "exec_due s n n"
  shows "ExecUp n s = do {
     t \<leftarrow> Execute (Seq s n) (RndValue s n) (MetaCmdRnd s n) (exec_start n s);
     u \<leftarrow> drain_gaps (Suc (hash_size (p_Gaps t))) t;
     Some (True, set_multi (\<lambda>m. m\<lparr>p_SuccessCount := p_SuccessCount m + 1\<rparr>) u) }"
proof -
  note fp = exec_pre_frame [where s = s and k = n]
  note vp = up_frame_views [OF fp(1)]
  have nd: "NextDecide s = Seq s n" using due by (simp add: exec_due_def)
  then show ?thesis using ExecUp_pre [of s n] by (simp add: fp vp Let_def exec_start_def bind_assoc)
qed

lemma Execute_next:
  assumes due: "exec_due s n n" and t: "Execute (Seq s n) (RndValue s n) (MetaCmdRnd s n) (exec_start n s) = Some t"
  shows "up_frame s t" "gaps_ok t (Suc n)" "NextDecide t = Seq t (Suc n)"
proof -
  note fs = exec_start_frame [where s = s and n = n]
  note x = Execute_executes [OF t, THEN conjunct2]
  note kx = executes_keeps [OF x]
  show ft: "up_frame s t" using fs(1) up_frame_trans exec_frame_up_frame [OF executes_frame [OF x]] by blast
  note vt = up_frame_views [OF ft]
  have "filter (\<lambda>i. i \<noteq> n) (pending s n) = pending s (Suc n)"
    by (auto simp: pending_def intro!: filter_cong)
  then show "gaps_ok t (Suc n)"
    using due kx(2) by (simp add: gaps_ok_def exec_due_def vt fs)
  show "NextDecide t = Seq t (Suc n)" using due by (simp add: kx(3) fs vt TO_SEQ_Suc exec_due_def)
qed

lemma ExecUp_total:
  assumes due: "exec_due s n n" and fits: "list_all (\<lambda>k. cmd_fits (RndValue s k) (MetaCmdRnd s k)) (run s n)"
  shows "\<exists>s'. ExecUp n s = Some (True, s')"
proof -
  have n: "n < 10" "PMode s n = MODE_DECIDED" using due by (simp_all add: exec_due_def)
  then obtain t where t: "Execute (Seq s n) (RndValue s n) (MetaCmdRnd s n) (exec_start n s) = Some t"
    using fits Execute_fits by (fastforce simp: run_Cons)
  note x = Execute_next [OF due t]
  have "list_all (\<lambda>k. cmd_fits (RndValue t k) (MetaCmdRnd t k)) (run t (Suc n))"
    using fits n up_frame_views [OF x(1)] by (simp add: run_Cons)
  from drain_gaps_drained(2) [OF x(2,3) _ this, of "Suc (hash_size (p_Gaps t))"] n obtain u
    where "drain_gaps (Suc (hash_size (p_Gaps t))) t = Some u" by auto
  then show ?thesis using t by (simp add: ExecUp_at [OF due] del: drain_gaps.simps)
qed

lemma Exec_next:
  assumes due: "exec_due s n n" and cmd: "\<not> isEmpty (MetaCmdRnd s n)"
    and fits: "list_all (\<lambda>k. cmd_fits (RndValue s k) (MetaCmdRnd s k)) (run s n)"
  shows "\<exists>s'. Exec E n s = Some s' \<and> exec_log s' = exec_log s @ exec_fxs s (run s n)
    \<and> Page s' = (if n + length (run s n) = 10 then Page s + 1 else Page s)"
proof -
  define t where "t = (if p_IssuedLast s \<noteq> 0 \<and> CMP (TO_SEQ (Page s) (NextK s)) (p_CatchupNextDecide s) \<ge> 0
                then s\<lparr>p_IssuedLast := 0, p_CatchupNextDecide := p_IssuedSeq s + 1\<rparr> else s)"
  have t: "p_Multi t = p_Multi s" "NextDecide t = NextDecide s" "p_Gaps t = p_Gaps s" "p_Fx t = p_Fx s"
    "p_BackPage t = p_BackPage s" "p_MyId t = p_MyId s" by (simp_all add: t_def)
  have due': "exec_due t n n" using due exec_due_cong [OF t(1-3)] by simp
  have r: "run t n = run s n" by (simp add: run_def t)
  have "list_all (\<lambda>k. cmd_fits (RndValue t k) (MetaCmdRnd t k)) (run t n)" using fits by (simp add: r t)
  from ExecUp_total [OF due' this] obtain u where u: "ExecUp n t = Some (True, u)" by blast
  note x = ExecUp_next [OF due' u]
  have e: "Exec E n s = Some (if PAXOS_MAX \<le> SuccessCount u then UpdatePage E u else u)"
    using cmd u by (simp add: Exec_def ASSERT_def t_def Let_def)
  have rej: "filter (\<lambda>x. exec_event x \<noteq> None) (rejection n t) = []" by (simp add: rejection_def)
  have "filter (\<lambda>x. exec_event x \<noteq> None) (exec_fxs w ks) = exec_fxs w ks" for w ks
    by (simp add: exec_fxs_def filter_id_conv)
  then have lu: "exec_log u = exec_log s @ exec_fxs s (run s n)"
    using x rej exec_fxs_cong [of t s "run s n"] by (simp add: t r exec_log_def del: not_None_eq)
  have pu: "Page u = Page s" using x t by (simp add: up_frame_def)
  have at: "10 \<le> SuccessCount u \<longleftrightarrow> n + length (run s n) = 10" using x exec_at_10 [of u] r by simp
  show ?thesis
  proof (cases "10 \<le> SuccessCount u")
    case True
    note uf = UpdatePage_frame [OF True, of E]
    have "exec_log (UpdatePage E u) = exec_log u" by (simp add: exec_log_def uf)
    then show ?thesis using e True at lu pu uf by simp
  next
    case False
    then show ?thesis using e at lu pu by simp
  qed
qed

section \<open>Reachable states\<close>

lemma reachable_exec_inv:
  assumes "PaxosInitUsec E Ident core ext cell usec ck = Some s0" and "reachable (PaxosStart ok mode nextDecide s0) s"
  shows "exec_inv (if mode = PAXOS_SEQ then nextDecide else 0) s"
  using started_exec_inv [OF assms(1)] evolve_reachable [OF assms(2)] unfolding evolve_def by blast

lemma reachable_trans: "reachable s t \<Longrightarrow> reachable t u \<Longrightarrow> reachable s u"
  by (rotate_tac, induction rule: reachable.induct) (auto intro: reach_step)

section \<open>The next instance\<close>

text \<open>
  When the instance at \<open>NextDecide\<close> is decided and the commands fit their arrays, it and the decided
  instances that follow are executed, and the page ends with its last one.
\<close>

lemma decide_next:
  assumes inv: "exec_inv start s" and q: "quiet s t" and nd: "NextDecide s = Seq s k" and k: "k < 10"
    and c: "\<not> isEmpty c" "cmd_fits v c"
    and later: "\<forall>i w d. k < i \<and> i < 10 \<and> decided s i = Some (w, d) \<longrightarrow> cmd_fits w d"
    and f: "p_Mode (f (PAXOS t k)) = MODE_DECIDED" "p_RndValue (f (PAXOS t k)) = v"
    and u: "u = set_cmds k (\<lambda>m. m\<lparr>c_MetaCmdRnd := c\<rparr>) (set_inst k f t)"
  shows "PMode t k \<noteq> MODE_DECIDED \<and> (\<exists>s'. Exec E k u = Some s'
    \<and> executed s' = executed s @ map (Seq s) (k # run s (Suc k))
    \<and> executes_as s (Seq s k) v c (exec_log s' ! length (executed s))
    \<and> Page s' = (if Suc k + length (run s (Suc k)) = 10 then Page s + 1 else Page s))"
proof -
  from inv obtain n where n: "n < 10" "exec_at s n" by (auto simp: exec_inv_def)
  then have "k = n" using nd k TO_SEQ_inject [of k n "Page s"] by (simp add: exec_at_def)
  then have at: "exec_at s k" and sk: "PMode s k \<noteq> MODE_DECIDED" using n by (simp_all add: exec_at_def)
  have d: "decided t = decided s" using q by (simp add: quiet_def)
  then have m: "PMode t i = MODE_DECIDED \<longleftrightarrow> PMode s i = MODE_DECIDED" for i by (simp add: decided_mode)
  then have tk: "PMode t k \<noteq> MODE_DECIDED" using sk by simp
  have dec: "decides s k u" unfolding u by (intro decides_cmds decides_start q k tk f(1))
  note due = decides_due [OF dec at k]
  have same: "p_MyId u = p_MyId s" "Page u = Page s" "exec_log u = exec_log s"
    using dec by (simp_all add: decides_def same_config_def exec_log_same)
  have uk: "RndValue u k = v" "MetaCmdRnd u k = c" "PMode u k = MODE_DECIDED"
    using f by (simp_all add: u assign)
  have ui: "decided u i = decided s i" if "i \<noteq> k" for i using dec that by (simp add: decides_def)
  have r: "run u (Suc k) = run s (Suc k)"
    unfolding run_def by (rule takeWhile_cong) (use ui in \<open>auto simp: decided_mode\<close>)
  have ruk: "run u k = k # run s (Suc k)" using run_Cons [OF k uk(3)] r by simp
  have "cmd_fits (RndValue u i) (MetaCmdRnd u i)" if i: "i \<in> set (run s (Suc k))" for i
  proof -
    have i: "k < i" "i < 10" "PMode s i = MODE_DECIDED" using i by (auto simp: run_def dest: set_takeWhileD)
    then obtain w e where w: "decided s i = Some (w, e)" by (auto simp: decided_mode)
    then have "decided u i = Some (w, e)" using ui i by simp
    then show ?thesis using later w i by (auto simp: decided_def split: if_splits)
  qed
  then have "list_all (\<lambda>k. cmd_fits (RndValue u k) (MetaCmdRnd u k)) (run u k)"
    using c(2) uk by (simp add: ruk list_all_iff)
  from Exec_next [OF due _ this, of E] obtain s' where e: "Exec E k u = Some s'"
    and l: "exec_log s' = exec_log s @ exec_fxs u (k # run s (Suc k))"
    and p: "Page s' = (if Suc k + length (run s (Suc k)) = 10 then Page s + 1 else Page s)"
    using c(1) uk same ruk by auto
  have ev: "executed x = List.map_filter exec_event (exec_log x)" for x
    by (simp add: executed_def exec_log_def List.map_filter_def)
  have "executed s' = executed s @ map (Seq s) (k # run s (Suc k))"
    using same(2) by (simp add: ev [of s'] ev [of s] l map_filter_append map_filter_exec_fxs del: list.map)
  moreover have "exec_log s' ! length (executed s) = exec_fx u (Seq s k) v c"
    by (simp add: l exec_fxs_def same uk flip: length_exec_log)
  ultimately show ?thesis using tk e p executes_as_exec_fx [of u s] same(1) by auto
qed

lemma filter_single: "distinct xs \<Longrightarrow> k \<in> set xs \<Longrightarrow> filter (\<lambda>i. i = k) xs = [k]"
proof (induction xs)
  case (Cons x xs)
  then show ?case by (cases "x = k") (auto simp: filter_empty_conv)
qed simp

lemma executes_as_value_cong:
  "v_Flags v = v_Flags w \<Longrightarrow> v_Server v = v_Server w \<Longrightarrow> v_Epoch v = v_Epoch w \<Longrightarrow>
     executes_as s seq v c x = executes_as s seq w c x"
  by (cases x) (simp_all add: executes_as_def PAXOS_MODE_def)


text \<open>A success for the next instance, which the server validates and whose commands fit.\<close>

definition success_due :: "env \<Rightarrow> Paxos_t \<Rightarrow> int \<Rightarrow> nat \<Rightarrow> msg_success_t \<Rightarrow> nat \<Rightarrow> bool" where
  "success_due E s fr j pS k \<longleftrightarrow> srv_index s fr = Some j \<and> sc_Page pS = Page s \<and> k_index (sc_k pS) = Some k
    \<and> NextDecide s = Seq s k
    \<and> (isSameValue (sc_Value pS) (RndValue s k)
      \<or> fst (PaxosValidate E PAXOS_MODE_SUCCESS (Seq s k) (sc_Value pS) (sc_MetaCmd pS) s) = 0)
    \<and> \<not> isEmpty (sc_MetaCmd pS) \<and> cmd_fits (value_normal (sc_Value pS)) (sc_MetaCmd pS)
    \<and> (\<forall>i w d. k < i \<and> i < 10 \<and> decided s i = Some (w, d) \<longrightarrow> cmd_fits w d)"

lemma RecvSuccess_executes:
  assumes inv: "exec_inv start s" and due: "success_due E s fr j pS k"
  shows "\<exists>s'. RecvSuccess E fr pS s = Some s'
    \<and> executed s' = executed s @ map (Seq s) (k # run s (Suc k))
    \<and> executes_as s (Seq s k) (value_normal (sc_Value pS)) (sc_MetaCmd pS) (exec_log s' ! length (executed s))
    \<and> Page s' = (if Suc k + length (run s (Suc k)) = 10 then Page s + 1 else Page s)"
proof -
  have msg: "srv_index s fr = Some j" "sc_Page pS = Page s" "k_index (sc_k pS) = Some k" "NextDecide s = Seq s k"
    and valid: "isSameValue (sc_Value pS) (RndValue s k)
      \<or> fst (PaxosValidate E PAXOS_MODE_SUCCESS (Seq s k) (sc_Value pS) (sc_MetaCmd pS) s) = 0"
    and cmd: "\<not> isEmpty (sc_MetaCmd pS)" "cmd_fits (value_normal (sc_Value pS)) (sc_MetaCmd pS)"
    and later: "\<forall>i w d. k < i \<and> i < 10 \<and> decided s i = Some (w, d) \<longrightarrow> cmd_fits w d"
    using due unfolding success_due_def by blast+
  have k: "k < 10" using msg(3) by (rule k_index_less)
  let ?f = "\<lambda>p. p\<lparr>p_Mode := MODE_DECIDED, p_RndValue := value_normal ((sc_Value pS)\<lparr>v_From := int (MyId s)\<rparr>)\<rparr>"
  obtain t where t: "quiet s t" "p_Multi t = p_Multi s"
    and go: "(if \<not> isSameValue (sc_Value pS) (RndValue s k)
       then PaxosValidate E PAXOS_MODE_SUCCESS (Seq s k) (sc_Value pS) (sc_MetaCmd pS) s else (0, s)) = (0, t)"
  proof (cases "isSameValue (sc_Value pS) (RndValue s k)")
    case True
    then show ?thesis using that quiet_refl by simp
  next
    case False
    obtain Ret t where v: "PaxosValidate E PAXOS_MODE_SUCCESS (Seq s k) (sc_Value pS) (sc_MetaCmd pS) s = (Ret, t)"
      by fastforce
    with False show ?thesis
      using that valid quiet_Validate_eq [OF v quiet_refl] PaxosValidate_PMode [OF v] by simp
  qed
  let ?u = "set_cmds k (\<lambda>m. m\<lparr>c_MetaCmdRnd := sc_MetaCmd pS\<rparr>) (set_inst k ?f t)"
  have id: "p_MyId t = p_MyId s" using t(1) by (simp add: quiet_def same_config_def)
  have "cmd_fits (value_normal ((sc_Value pS)\<lparr>v_From := int (MyId s)\<rparr>)) (sc_MetaCmd pS)"
    using cmd(2) by (simp add: cmd_fits_def value_normal_def)
  note d = decide_next [OF inv t(1) msg(4) k cmd(1) this later _ _ refl, of ?f E, simplified]
  have "PMode s k \<noteq> MODE_DECIDED" using d t(2) by simp
  then have "RecvSuccess E fr pS s = success_install E k pS t"
    using msg(1-3) cmd(1) go by (simp add: RecvSuccess_def ASSERT_def)
  moreover have "success_install E k pS t = Exec E k ?u" by (simp add: success_install_def Let_def id)
  moreover have "executes_as s q (value_normal ((sc_Value pS)\<lparr>v_From := int (MyId s)\<rparr>)) c x
      = executes_as s q (value_normal (sc_Value pS)) c x" for q c x
    by (rule executes_as_value_cong) (simp_all add: value_normal_def)
  ultimately show ?thesis using d by simp
qed

section \<open>A server that is ahead\<close>

text \<open>
  The second of three servers, started at 7, which has learned the decision of the eighth instance
  of its page but not that of the seventh.
\<close>

definition ex_success :: "u32 \<Rightarrow> int \<Rightarrow> u8 list \<Rightarrow> msg_success_t" where
  "ex_success page k cmd = \<lparr>sc_BackPage = 0, sc_NextDecide = 0, sc_Page = page, sc_NextK = 0, sc_k = k,
     sc_Value = \<lparr>v_Flags = 1, v_Server = 0, v_Epoch = 1, v_From = 0\<rparr>,
     sc_MetaCmd = \<lparr>c_len = of_nat (length cmd), c_opaque = cmd\<rparr>\<rparr>"

definition ex_datagram :: "int \<Rightarrow> int \<Rightarrow> msg_body \<Rightarrow> event" where
  "ex_datagram fr to body = Datagram \<lparr>m_fr = fr, m_to = to, m_From = addr_zero, m_cksum64 = 0, m_body = body\<rparr>"

definition ex_ahead :: Paxos_t where
  "ex_ahead = the (run_events ex_env [ex_datagram 0 1 (MSG_SUCCESS (ex_success 0 8 [5])), ReceiverPaxos] (ex_node 3 1 7))"

lemma ex_ahead_run: "run_events ex_env [ex_datagram 0 1 (MSG_SUCCESS (ex_success 0 8 [5])), ReceiverPaxos] (ex_node 3 1 7) = Some ex_ahead"
proof -
  have "\<not> Option.is_none (run_events ex_env [ex_datagram 0 1 (MSG_SUCCESS (ex_success 0 8 [5])), ReceiverPaxos] (ex_node 3 1 7))"
    by code_simp
  then show ?thesis unfolding ex_ahead_def by (metis option.collapse is_none_simps(1))
qed

lemma ex_ahead_reachable: "reachable (PaxosStart True PAXOS_SEQ 7 (ex_init 3 1)) ex_ahead"
  using run_events_reachable [OF ex_ahead_run] by (simp add: ex_node_def)

lemma ex_ahead_state:
  "decided ex_ahead 8 = Some (\<lparr>v_Flags = 5, v_Server = 0, v_Epoch = 1, v_From = 1\<rparr>, \<lparr>c_len = 1, c_opaque = [5]\<rparr>)"
  "NextDecide ex_ahead = 7" "length (executed ex_ahead) = 0" "Page ex_ahead = 0" "PMode ex_ahead 8 = MODE_DECIDED"
  "decided ex_ahead 9 = None"
  by code_simp+

lemma ex_ahead_gaps: "\<forall>i w d. 7 < i \<and> i < 10 \<and> decided ex_ahead i = Some (w, d) \<longrightarrow> cmd_fits w d"
proof (intro allI impI)
  fix i w d assume i: "7 < i \<and> i < 10 \<and> decided ex_ahead i = Some (w, d)"
  then have "i = 8 \<or> i = 9" by linarith
  then show "cmd_fits w d" using i ex_ahead_state by (auto simp: cmd_fits_def)
qed

end
