(* ===== verification/Paxos_Recovery.thy ===== *)
theory Paxos_Recovery
  imports Paxos_Progress
begin

text \<open>
  Catch-up and pages: the windows a server asks for, the answers, the accepts held back meanwhile,
  and the archive of completed pages.
\<close>

section \<open>Windows\<close>

definition fire_from :: "Paxos_t \<Rightarrow> u32" where
  "fire_from s = (if p_IssuedLast s \<noteq> 0 then p_IssuedSeq s + 1 else NextDecide s)"

lemma CMP_swap: "x \<noteq> y + 0x80000000 \<Longrightarrow> CMP y x = - CMP x y"
proof -
  assume h: "x \<noteq> y + 0x80000000"
  let ?d = "x - y :: u32"
  have n: "sint ?d \<noteq> - (2 ^ 31)"
  proof
    assume "sint ?d = - (2 ^ 31)"
    moreover have "?d = word_of_int (sint ?d)" by simp
    ultimately have "?d = word_of_int (- (2 ^ 31))" by metis
    then have "?d = 0x80000000" by simp
    then show False using h by (simp add: algebra_simps)
  qed
  have "y - x = word_of_int (- sint ?d)" by simp
  then have "sint (y - x) = signed_take_bit 31 (- sint ?d)" by (simp only: sint_word_of_int_32)
  also have "\<dots> = - sint ?d" using n sint_lt_32 [of ?d] by (intro signed_take_bit_int_eq_self) auto
  finally show ?thesis by (simp add: CMP_def)
qed

text \<open>
  C31: \<open>CatchupFire\<close> of a server that misses decisions (fewer than half of the
  sequence circle) asks its supplier for the next window: it begins with the first number not
  asked for yet, holds as many as are missing but at most 20, and is recorded as issued, with the
  time until which it is under way. This time is not zero, when the clock is past zero and the unit
  of time is not negative, so the next window begins where this one ended.
\<close>

theorem CatchupFire_asks_for_a_window:
  assumes "CatchupFire E s = Some s'" and "CMP (fire_from s) (p_CatchupNextDecide s) < 0"
    and "p_CatchupNextDecide s \<noteq> fire_from s + 0x80000000"
  shows "\<exists>j n. p_pCatchupServer s = Some j \<and> 1 \<le> n
    \<and> int n = min 20 (CMP (p_CatchupNextDecide s) (fire_from s))
    \<and> p_IssuedSeq s' = fire_from s + of_nat n - 1
    \<and> s_IssuedSeq (server s' j) = p_IssuedSeq s' \<and> s_IssuedTime (server s' j) = e_now E
    \<and> p_Fx s' = p_Fx s @ fx_send E s' j (MSG_CATCHUP_REQ
        \<lparr>c_SeqFrom = fire_from s, c_SeqTo = p_IssuedSeq s', c_RecvLastDT = DT_D s + DT_L s + DT_L s * int n\<rparr>)
    \<and> p_IssuedLast s' = (if p_IssuedLast s = 0 then time0 E + cdiv (2 * DT_D s) 1000000 else p_IssuedLast s)
        + cdiv (DT_L s * int n) 1000000
    \<and> (0 < time0 E \<and> 0 \<le> p_UnitUsec s \<and> 0 \<le> p_IssuedLast s \<longrightarrow> fire_from s' = p_IssuedSeq s' + 1)"
proof -
  let ?c = "CMP (p_CatchupNextDecide s) (fire_from s)"
  define n where "n = nat (if ?c > 20 then 20 else ?c)"
  have c: "0 < ?c" using CMP_swap [OF assms(3)] assms(2) by simp
  have n: "1 \<le> n" "n \<le> 20" "int n \<le> ?c" "int n = (if ?c > 20 then 20 else ?c)" using c by (auto simp: n_def)
  define f where "f = (if p_IssuedLast s = 0 then s\<lparr>p_IssuedLast := time0 E + cdiv (2 * DT_D s) 1000000\<rparr> else s)"
  have f: "p_CatchupNextDecide f = p_CatchupNextDecide s" "p_pCatchupServer f = p_pCatchupServer s" "p_Fx f = p_Fx s"
    "DT_D f = DT_D s" "DT_L f = DT_L s" by (simp_all add: f_def DT_D_def DT_L_def)
  have e: "CatchupFire E s = do {
      j \<leftarrow> p_pCatchupServer s;
      let t = set_srv j (\<lambda>p. p\<lparr>s_IssuedSeq := fire_from s + of_nat n - 1, s_IssuedTime := e_now E\<rparr>) f;
      let t = t\<lparr>p_IssuedLast := p_IssuedLast t + cdiv (DT_L t * int n) 1000000, p_IssuedSeq := fire_from s + of_nat n - 1\<rparr>;
      Some (send E j (MSG_CATCHUP_REQ \<lparr>c_SeqFrom = fire_from s, c_SeqTo = fire_from s + of_nat n - 1,
        c_RecvLastDT = DT_D t + DT_L t + DT_L t * int n\<rparr>) t) }"
    using assms(2) unfolding CatchupFire_def fire_from_def [symmetric] Let_def f_def [symmetric] f(1) n(4) [unfolded CMP_def, symmetric]
    by (simp add: f)
  obtain j where j: "p_pCatchupServer s = Some j" using assms(1) unfolding e by (auto simp: bind_eq_Some_conv)
  define u where "u = (set_srv j (\<lambda>p. p\<lparr>s_IssuedSeq := fire_from s + of_nat n - 1, s_IssuedTime := e_now E\<rparr>) f)
      \<lparr>p_IssuedLast := p_IssuedLast f + cdiv (DT_L s * int n) 1000000, p_IssuedSeq := fire_from s + of_nat n - 1\<rparr>"
  have u: "p_IssuedSeq u = fire_from s + of_nat n - 1" "s_IssuedSeq (server u j) = fire_from s + of_nat n - 1"
    "s_IssuedTime (server u j) = e_now E" "p_Fx u = p_Fx s" "DT_D u = DT_D s" "DT_L u = DT_L s"
    by (simp_all add: u_def set_srv_def f DT_D_def DT_L_def) (simp_all add: f_def)
  have l: "DT_L (set_srv j g f) = DT_L s" "p_IssuedLast (set_srv j g f) = p_IssuedLast f" for g
    by (simp_all add: set_srv_def DT_L_def f_def)
  have s': "s' = send E j (MSG_CATCHUP_REQ \<lparr>c_SeqFrom = fire_from s, c_SeqTo = fire_from s + of_nat n - 1,
        c_RecvLastDT = DT_D u + DT_L u + DT_L u * int n\<rparr>) u"
    using assms(1) unfolding e j Let_def option.simps Option.bind.simps l u_def [symmetric] by simp
  have "fx_send E s' j m = fx_send E u j m" for m by (rule fx_send_cong) (simp_all add: s' send_eq)
  then have "p_Fx s' = p_Fx s @ fx_send E s' j (MSG_CATCHUP_REQ
        \<lparr>c_SeqFrom = fire_from s, c_SeqTo = p_IssuedSeq s', c_RecvLastDT = DT_D s + DT_L s + DT_L s * int n\<rparr>)"
    using u by (simp add: s' send_eq)
  moreover have "int n = min 20 ?c" using n(4) by (simp add: min_def)
  moreover have last: "p_IssuedLast s' = (if p_IssuedLast s = 0 then time0 E + cdiv (2 * DT_D s) 1000000 else p_IssuedLast s)
        + cdiv (DT_L s * int n) 1000000"
    by (simp add: s' send_eq u_def f_def set_srv_def)
  moreover have "fire_from s' = p_IssuedSeq s' + 1" if "0 < time0 E" "0 \<le> p_UnitUsec s" "0 \<le> p_IssuedLast s"
  proof -
    have "0 \<le> cdiv (2 * DT_D s) 1000000" "0 \<le> cdiv (DT_L s * int n) 1000000"
      using that(2) by (simp_all add: DT_D_def DT_L_def pos_imp_zdiv_nonneg_iff)
    then have "p_IssuedLast s' \<noteq> 0" using that(1,3) unfolding last by (auto split: if_splits)
    then show ?thesis by (simp add: fire_from_def)
  qed
  ultimately show ?thesis using j n(1) u by (intro exI [of _ j] exI [of _ n]) (simp add: s' send_eq)
qed

definition ex_behind :: Paxos_t where
  "ex_behind = (ex_node 3 1 7)\<lparr>p_pCatchupServer := Some 0, p_CatchupNextDecide := 100\<rparr>"

theorem CatchupFire_asks_for_a_window_witness:
  "\<exists>s'. CatchupFire ex_env ex_behind = Some s' \<and> p_IssuedSeq s' = 26"
proof -
  have "\<not> Option.is_none (CatchupFire ex_env ex_behind)" by code_simp
  then obtain s' where s': "CatchupFire ex_env ex_behind = Some s'" using ex_some by blast
  have f: "fire_from ex_behind = 7" "p_CatchupNextDecide ex_behind = 100" by code_simp+
  have "CMP 100 7 = 93" by (simp add: CMP_def)
  moreover obtain n where "int n = min 20 (CMP 100 7)" "p_IssuedSeq s' = 7 + of_nat n - 1"
    using CatchupFire_asks_for_a_window [OF s'] by (auto simp: f CMP_def)
  moreover from this have "n = 20" by (simp add: CMP_def)
  ultimately show ?thesis using s' by simp
qed

section \<open>Pages\<close>

lemma find_remove_pages:
  "CMP backPage page \<le> 0 \<Longrightarrow> List.find (\<lambda>m. p_Page m = page) (remove_pages backPage ms) = List.find (\<lambda>m. p_Page m = page) ms"
proof -
  assume p: "CMP backPage page \<le> 0"
  obtain rs where rs: "ms = remove_pages backPage ms @ rs" "\<forall>m \<in> set rs. CMP backPage (p_Page m) > 0"
  proof
    have "rev (takeWhile (\<lambda>m. CMP backPage (p_Page m) > 0) (rev ms) @ dropWhile (\<lambda>m. CMP backPage (p_Page m) > 0) (rev ms)) = ms"
      by (simp only: takeWhile_dropWhile_id rev_rev_ident)
    then show "ms = remove_pages backPage ms @ rev (takeWhile (\<lambda>m. CMP backPage (p_Page m) > 0) (rev ms))"
      by (simp only: remove_pages_def rev_append)
  qed (auto dest: set_takeWhileD)
  have "List.find (\<lambda>m. p_Page m = page) rs = None" using rs(2) p by (auto simp: find_None_iff)
  then have "List.find (\<lambda>m. p_Page m = page) (xs @ rs) = List.find (\<lambda>m. p_Page m = page) xs" for xs
    by (induction xs) auto
  then show ?thesis using rs(1) by metis
qed

lemma autonomic_over_oldest:
  "oldest_NextDecide (snd (autonomic_over E js s)) = oldest_NextDecide s"
proof -
  have "oldest_NextDecide (set_srv j (\<lambda>p. p\<lparr>s_AutonomicLast := x\<rparr>) s) = oldest_NextDecide s" for j x s
    unfolding oldest_NextDecide_def by (intro fold_cong) (auto simp: set_srv_def is_connected_def fun_eq_iff)
  then show ?thesis by (induction js arbitrary: s) simp_all
qed

lemma PutPage_links:
  "p_MultiLnk (PutPage E s) = p_Multi s # p_MultiLnk s \<or>
   p_MultiLnk (PutPage E s) = remove_pages (TO_PAGE (oldest_NextDecide s)) (p_Multi s # p_MultiLnk s)"
  "CurRnd (PutPage E s) = CurRnd s" "AMode (PutPage E s) = AMode s" "p_Max (PutPage E s) = p_Max s"
proof -
  let ?s = "s\<lparr>p_MultiLnk := p_Multi s # p_MultiLnk s\<rparr>"
  obtain b t where bt: "autonomic_over E [0..<p_Maximum s] ?s = (b, t)" by fastforce
  note t = autonomic_over_keeps [of E "[0..<p_Maximum s]" ?s, unfolded bt snd_conv]
  have o: "oldest_NextDecide t = oldest_NextDecide s"
    using autonomic_over_oldest [of E "[0..<p_Maximum s]" ?s, unfolded bt snd_conv]
    by (simp add: oldest_NextDecide_def cong: if_cong)
  show "p_MultiLnk (PutPage E s) = p_Multi s # p_MultiLnk s \<or>
   p_MultiLnk (PutPage E s) = remove_pages (TO_PAGE (oldest_NextDecide s)) (p_Multi s # p_MultiLnk s)"
  "CurRnd (PutPage E s) = CurRnd s" "AMode (PutPage E s) = AMode s" "p_Max (PutPage E s) = p_Max s"
    using t o by (simp_all add: PutPage_def bt set_multi_def Let_def)
qed

lemma fold_set_inst_frame:
  "METACMD (fold (\<lambda>k. set_inst k f) ks s) = METACMD s" "CurRnd (fold (\<lambda>k. set_inst k f) ks s) = CurRnd s"
  "AMode (fold (\<lambda>k. set_inst k f) ks s) = AMode s" "p_MultiLnk (fold (\<lambda>k. set_inst k f) ks s) = p_MultiLnk s"
  by (induction ks arbitrary: s) (simp_all add: set_inst_def)

text \<open>
  C32: \<open>UpdatePage\<close> of a complete page begins the next one with every instance empty,
  its quorum of accepts for the cell and the round as it was; and every page, the completed one
  included, that the slowest connected server may still need is found in the archive as before.
\<close>

theorem UpdatePage_archives_and_renews:
  assumes "10 \<le> SuccessCount s"
  shows "Page (UpdatePage E s) = Page s + 1 \<and> NextK (UpdatePage E s) = 0 \<and> SuccessCount (UpdatePage E s) = 0
    \<and> CurRnd (UpdatePage E s) = CurRnd s \<and> AMode (UpdatePage E s) = AMode s
    \<and> (\<forall>k < 10. PAXOS (UpdatePage E s) k = instance_zero\<lparr>p_RndAccQuo := quorum_init (int (p_Max s))\<rparr>
               \<and> METACMD (UpdatePage E s) k = metacmds_zero)
    \<and> (\<forall>page. page \<noteq> Page s + 1 \<and> CMP (TO_PAGE (oldest_NextDecide s)) page \<le> 0 \<longrightarrow>
          GetPage page (UpdatePage E s) = GetPage page s)"
proof -
  note u = UpdatePage_frame [OF assms, of E] and p = PutPage_frame [where s = s and E = E] and l = PutPage_links [where s = s and E = E]
  have m: "METACMD (UpdatePage E s) = METACMD (PutPage E s)" "CurRnd (UpdatePage E s) = CurRnd (PutPage E s)"
    "AMode (UpdatePage E s) = AMode (PutPage E s)" "p_MultiLnk (UpdatePage E s) = p_MultiLnk (PutPage E s)"
    "NextK (UpdatePage E s) = 0"
    using assms by (simp_all add: UpdatePage_def Let_def emit_def set_multi_def fold_set_inst_frame del: upt.simps)
  have i: "PAXOS (UpdatePage E s) k = instance_zero\<lparr>p_RndAccQuo := quorum_init (int (p_Max s))\<rparr>" if "k < 10" for k
    using assms that p l by (simp add: UpdatePage_def Let_def emit_def set_multi_def fold_set_inst del: upt.simps)
  have g: "GetPage page (UpdatePage E s) = GetPage page s"
    if "page \<noteq> Page s + 1" "CMP (TO_PAGE (oldest_NextDecide s)) page \<le> 0" for page
  proof -
    have "List.find (\<lambda>m. p_Page m = page) (p_MultiLnk (PutPage E s)) = List.find (\<lambda>m. p_Page m = page) (p_Multi s # p_MultiLnk s)"
      using l(1) find_remove_pages [OF that(2)] by metis
    then show ?thesis using that(1) u m by (auto simp: GetPage_def)
  qed
  show ?thesis using u m p l i g by simp
qed

definition ex_complete :: Paxos_t where
  "ex_complete = set_multi (\<lambda>m. m\<lparr>p_SuccessCount := 10\<rparr>) (ex_node 3 1 7)"

theorem UpdatePage_archives_and_renews_witness:
  "Page (UpdatePage ex_env ex_complete) = 1 \<and> GetPage 0 (UpdatePage ex_env ex_complete) = Some (p_Multi ex_complete)"
proof -
  have c: "SuccessCount ex_complete = 10" "Page ex_complete = 0" "oldest_NextDecide ex_complete = 7" by code_simp+
  have "TO_PAGE 7 = 0" by (simp add: TO_PAGE_def)
  moreover have "GetPage 0 ex_complete = Some (p_Multi ex_complete)" by (simp add: GetPage_def c)
  ultimately show ?thesis using UpdatePage_archives_and_renews [of ex_complete ex_env] by (simp add: c)
qed

section \<open>Answers to a request\<close>

definition catchup_reply :: "Paxos_t \<Rightarrow> u32 \<Rightarrow> msg_catchup_rpl_t" where
  "catchup_reply s seq =
     (case GetPage (TO_PAGE seq) s of
        Some m \<Rightarrow>
          if p_Mode (m_aPaxos m (TO_K seq)) = MODE_DECIDED \<and> \<not> isEmpty (c_MetaCmdRnd (m_aMetaCmd m (TO_K seq)))
          then \<lparr>c_True = True, c_MyNextDecide = NextDecide s, c_Seq = seq, c_PaxosI = m_aPaxos m (TO_K seq),
                c_MetaCmd = c_MetaCmdRnd (m_aMetaCmd m (TO_K seq))\<rparr>
          else \<lparr>c_True = False, c_MyNextDecide = 0, c_Seq = seq, c_PaxosI = instance_zero, c_MetaCmd = metacmd_zero\<rparr>
      | None \<Rightarrow> \<lparr>c_True = False, c_MyNextDecide = 0, c_Seq = seq, c_PaxosI = instance_zero, c_MetaCmd = metacmd_zero\<rparr>)"

definition catchup_sends :: "env \<Rightarrow> Paxos_t \<Rightarrow> nat \<Rightarrow> u32 \<Rightarrow> fx list" where
  "catchup_sends E s j seq = fx_send E s j (MSG_CATCHUP_RPL (catchup_reply s seq))"

lemma catchup_answer_eq:
  "catchup_answer E j seq (found, s) =
     (found \<or> c_True (catchup_reply s seq), s\<lparr>p_Fx := p_Fx s @ catchup_sends E s j seq\<rparr>)"
  by (simp add: catchup_answer_def CatchupInstanceRpl_def catchup_reply_def catchup_sends_def send_eq Let_def split: option.splits)

lemma catchup_reply_Fx [simp]: "catchup_reply (s\<lparr>p_Fx := x\<rparr>) seq = catchup_reply s seq"
  by (simp add: catchup_reply_def GetPage_def split: option.split)

lemma catchup_sends_Fx [simp]: "catchup_sends E (s\<lparr>p_Fx := x\<rparr>) j seq = catchup_sends E s j seq"
proof -
  have "fx_send E (s\<lparr>p_Fx := x\<rparr>) j m = fx_send E s j m" for m by (rule fx_send_cong) simp_all
  then show ?thesis by (simp add: catchup_sends_def)
qed

lemma ex_le_Suc: "(\<exists>i \<le> Suc n. P i) \<longleftrightarrow> P 0 \<or> (\<exists>i \<le> n. P (Suc i))"
  by (metis Suc_le_mono le0 not0_implies_Suc)

lemma catchup_req_loop_eq:
  "n < 2 ^ 30 \<Longrightarrow> catchup_req_loop E j (seq + of_nat n) seq (found, s) =
     (found \<or> (\<exists>i \<le> n. c_True (catchup_reply s (seq + of_nat i))),
      s\<lparr>p_Fx := p_Fx s @ concat (map (\<lambda>i. catchup_sends E s j (seq + of_nat i)) [0..<Suc n])\<rparr>)"
proof (induction n arbitrary: seq found s)
  case 0
  have "\<not> CMP (seq + 1) seq \<le> 0" using CMP_offset [of 1 0 seq] by simp
  then show ?case by (simp add: catchup_req_loop.simps catchup_answer_eq)
next
  case (Suc n)
  have c: "CMP (seq + 1) (seq + of_nat (Suc n)) \<le> 0"
    using CMP_offset [of 1 "Suc n" seq] Suc.prems by simp
  let ?s = "s\<lparr>p_Fx := p_Fx s @ catchup_sends E s j seq\<rparr>"
  have e: "seq + of_nat (Suc n) = (seq + 1) + of_nat n" by simp
  have "catchup_req_loop E j (seq + of_nat (Suc n)) seq (found, s) =
      catchup_req_loop E j ((seq + 1) + of_nat n) (seq + 1) (found \<or> c_True (catchup_reply s seq), ?s)"
    using c by (subst catchup_req_loop.simps) (simp add: catchup_answer_eq e del: of_nat_Suc)
  also have "\<dots> = ((found \<or> c_True (catchup_reply s seq)) \<or> (\<exists>i \<le> n. c_True (catchup_reply s ((seq + 1) + of_nat i))),
      s\<lparr>p_Fx := (p_Fx s @ catchup_sends E s j seq) @ concat (map (\<lambda>i. catchup_sends E s j ((seq + 1) + of_nat i)) [0..<Suc n])\<rparr>)"
    using Suc.IH [of "seq + 1" "found \<or> c_True (catchup_reply s seq)" ?s] Suc.prems by simp
  also have "((found \<or> c_True (catchup_reply s seq)) \<or> (\<exists>i \<le> n. c_True (catchup_reply s ((seq + 1) + of_nat i))))
      = (found \<or> (\<exists>i \<le> Suc n. c_True (catchup_reply s (seq + of_nat i))))"
    by (simp add: ex_le_Suc add.assoc)
  also have "map (\<lambda>i. catchup_sends E s j ((seq + 1) + of_nat i)) [0..<Suc n] =
      map (\<lambda>i. catchup_sends E s j (seq + of_nat i)) [1..<Suc (Suc n)]"
    using map_upt_shift [of "\<lambda>i. catchup_sends E s j (seq + of_nat i)" 1 "Suc n"] by (simp add: algebra_simps)
  also have "(p_Fx s @ catchup_sends E s j seq) @ concat (map (\<lambda>i. catchup_sends E s j (seq + of_nat i)) [1..<Suc (Suc n)])
     = p_Fx s @ concat (map (\<lambda>i. catchup_sends E s j (seq + of_nat i)) [0..<Suc (Suc n)])"
    by (simp add: upt_conv_Cons [of 0 "Suc (Suc n)"] del: upt_Suc)
  finally show ?case .
qed

text \<open>
  C30: A server answers a catch-up request for a range of numbers with one reply for each number of
  the range, in order: the decided instance with its command, or a refusal; the page is not
  changed; and if anything was found, the requester becomes the server for which accepts are held
  back, until at least the time it asked for.
\<close>

theorem catchup_request_is_answered:
  assumes "srv_index s fr = Some j" and "c_SeqTo pReq = c_SeqFrom pReq + of_nat n" and "n < 2 ^ 30"
  shows "\<exists>s'. server_receive_catchup_req E fr pReq s = Some s'
    \<and> p_Fx s' = p_Fx s @ concat (map (\<lambda>i. fx_send E s j (MSG_CATCHUP_RPL (catchup_reply s (c_SeqFrom pReq + of_nat i)))) [0..<Suc n])
    \<and> p_Multi s' = p_Multi s
    \<and> (if \<exists>i \<le> n. c_True (catchup_reply s (c_SeqFrom pReq + of_nat i))
       then p_CatchupRecvServer s' = fr
         \<and> TIMESPECCOMPARE (TimespecAddUsec (e_now E) (c_RecvLastDT pReq)) (p_CatchupRecvLast s') \<le> 0
       else p_CatchupRecvServer s' = p_CatchupRecvServer s \<and> p_CatchupRecvLast s' = p_CatchupRecvLast s)"
proof -
  have self: "TIMESPECCOMPARE x x = 0" for x by (simp add: TIMESPECCOMPARE_def)
  define p where "p \<longleftrightarrow> (\<exists>i \<le> n. c_True (catchup_reply s (c_SeqFrom pReq + of_nat i)))"
  show ?thesis
    unfolding p_def [symmetric]
    by (cases p) (simp_all add: assms(1,2) server_receive_catchup_req_def catchup_req_loop_eq [OF assms(3)]
        catchup_sends_def self Let_def del: upt_Suc flip: p_def)
qed

theorem catchup_request_is_answered_witness:
  "\<exists>s'. server_receive_catchup_req ex_env 0 \<lparr>c_SeqFrom = 7, c_SeqTo = 8, c_RecvLastDT = 0\<rparr> ex_ahead = Some s'
     \<and> p_CatchupRecvServer s' = 0 \<and> p_Multi s' = p_Multi ex_ahead"
proof -
  have r: "srv_index ex_ahead 0 = Some 0" "c_True (catchup_reply ex_ahead 8)" by code_simp+
  then have "\<exists>i \<le> 1. c_True (catchup_reply ex_ahead (7 + of_nat i))" by (intro exI [of _ 1]) simp
  then show ?thesis
    using catchup_request_is_answered [OF r(1), of "\<lparr>c_SeqFrom = 7, c_SeqTo = 8, c_RecvLastDT = 0\<rparr>" 1 ex_env] by auto
qed

section \<open>Accepts held back\<close>

definition held :: "Paxos_t \<Rightarrow> nat \<Rightarrow> bool" where
  "held s k \<longleftrightarrow> PMode s k \<noteq> MODE_DECIDED \<and> Suppressed s k"

definition released :: "Paxos_t \<Rightarrow> nat list \<Rightarrow> nat \<Rightarrow> PaxosInstance_t" where
  "released s ks k = (if k \<in> set ks \<and> held s k then (PAXOS s k)\<lparr>p_Suppressed := False\<rparr> else PAXOS s k)"

definition proposer :: "Paxos_t \<Rightarrow> nat \<Rightarrow> nat" where
  "proposer s k = unat (r_id (RndBallot s k))"

lemma release_one_eq:
  assumes "held s k \<longrightarrow> proposer s k < p_Maximum s"
  shows "release_one E k s = Some (if held s k
     then s\<lparr>p_Multi := (p_Multi s)\<lparr>m_aPaxos := (PAXOS s)(k := (PAXOS s k)\<lparr>p_Suppressed := False\<rparr>)\<rparr>,
            p_Fx := p_Fx s @ fx_send E s (proposer s k) (MSG_ACCEPT (accept_of s k))\<rparr>
     else s)"
proof (cases "held s k")
  case False
  then show ?thesis unfolding release_one_def held_def by (simp only: if_False)
next
  case True
  let ?t = "set_inst k (\<lambda>p. p\<lparr>p_Suppressed := False\<rparr>) s"
  have u: "uint (r_id (RndBallot s k)) = int (proposer s k)" by (simp add: proposer_def)
  have "srv_index s (uint (r_id (RndBallot s k))) = Some (proposer s k)"
    unfolding u using assms True by (simp add: srv_index_def)
  moreover have "fx_send E ?t j m = fx_send E s j m" for j m by (rule fx_send_cong) (simp_all add: set_inst_def)
  ultimately show ?thesis using True by (simp add: release_one_def held_def send_eq) (simp add: set_inst_def)
qed

lemma for_each_release:
  "distinct ks \<Longrightarrow> \<forall>k \<in> set ks. held s k \<longrightarrow> proposer s k < p_Maximum s \<Longrightarrow>
   for_each (release_one E) ks s = Some (s\<lparr>p_Multi := (p_Multi s)\<lparr>m_aPaxos := released s ks\<rparr>,
     p_Fx := p_Fx s @ concat (map (\<lambda>k. fx_send E s (proposer s k) (MSG_ACCEPT (accept_of s k))) (filter (held s) ks))\<rparr>)"
proof (induction ks rule: rev_induct)
  case Nil
  have "released s [] = PAXOS s" by (simp add: released_def fun_eq_iff)
  then show ?case by (cases s rule: Paxos_t.cases; cases "p_Multi s" rule: PaxosMulti_t.cases) simp
next
  case (snoc k ks)
  define t where "t = s\<lparr>p_Multi := (p_Multi s)\<lparr>m_aPaxos := released s ks\<rparr>,
     p_Fx := p_Fx s @ concat (map (\<lambda>k. fx_send E s (proposer s k) (MSG_ACCEPT (accept_of s k))) (filter (held s) ks))\<rparr>"
  have IH: "for_each (release_one E) ks s = Some t" using snoc by (simp add: t_def)
  have k: "PAXOS t k = PAXOS s k" using snoc.prems by (simp add: t_def released_def)
  have same: "held t k = held s k" "proposer t k = proposer s k" "accept_of t k = accept_of s k" "p_Maximum t = p_Maximum s"
    using k by (simp_all add: held_def proposer_def accept_of_def) (simp_all add: t_def)
  have fx: "fx_send E t j m = fx_send E s j m" for j m by (rule fx_send_cong) (simp_all add: t_def)
  have one: "release_one E k t = Some (if held s k
     then t\<lparr>p_Multi := (p_Multi t)\<lparr>m_aPaxos := (PAXOS t)(k := (PAXOS s k)\<lparr>p_Suppressed := False\<rparr>)\<rparr>,
            p_Fx := p_Fx t @ fx_send E s (proposer s k) (MSG_ACCEPT (accept_of s k))\<rparr>
     else t)"
    using release_one_eq [of t k E] snoc.prems by (simp add: same fx k)
  have r: "(released s ks)(k := (PAXOS s k)\<lparr>p_Suppressed := False\<rparr>) = released s (ks @ [k])" if "held s k"
    using that by (auto simp: released_def fun_eq_iff)
  have r': "released s (ks @ [k]) = released s ks" if "\<not> held s k"
    using that by (auto simp: released_def fun_eq_iff)
  show ?case
  proof (cases "held s k")
    case True
    then show ?thesis using IH one by (simp add: for_each_append) (simp add: t_def r)
  next
    case False
    then show ?thesis using IH one by (simp add: for_each_append) (simp add: t_def r')
  qed
qed

text \<open>
  C33: \<open>release_suppressed_accept\<close> returns if the proposers of the held ballots are
  servers of the cell: it sends the accept of every undecided instance that was held back to the
  proposer of its ballot, each once and with what the instance accepted, leaves none held, and
  ends the suppression.
\<close>

theorem held_accepts_are_released:
  assumes "\<forall>k < 10. held s k \<longrightarrow> proposer s k < p_Maximum s"
  shows "\<exists>s'. release_suppressed_accept E s = Some s'
    \<and> p_Fx s' = p_Fx s @ concat (map (\<lambda>k. fx_send E s (proposer s k) (MSG_ACCEPT (accept_of s k))) (filter (held s) [0..<10]))
    \<and> (\<forall>k < 10. \<not> held s' k \<and> PAXOS s' k = (PAXOS s k)\<lparr>p_Suppressed := Suppressed s k \<and> PMode s k = MODE_DECIDED\<rparr>)
    \<and> METACMD s' = METACMD s \<and> p_CatchupRecvLast s' = timespec_zero"
proof -
  let ?t = "s\<lparr>p_CatchupRecvLast := timespec_zero\<rparr>"
  have same: "held ?t = held s" "proposer ?t = proposer s" "accept_of ?t = accept_of s" "released ?t = released s"
    by (simp_all add: held_def proposer_def accept_of_def released_def fun_eq_iff)
  have fx: "fx_send E ?t j m = fx_send E s j m" for j m by (rule fx_send_cong) simp_all
  have "for_each (release_one E) [0..<10] ?t = Some (?t\<lparr>p_Multi := (p_Multi s)\<lparr>m_aPaxos := released s [0..<10]\<rparr>,
     p_Fx := p_Fx s @ concat (map (\<lambda>k. fx_send E s (proposer s k) (MSG_ACCEPT (accept_of s k))) (filter (held s) [0..<10]))\<rparr>)"
    using for_each_release [of "[0..<10]" ?t E] assms by (simp add: same fx del: upt.simps upt_rec_numeral)
  then have e: "release_suppressed_accept E s = Some (?t\<lparr>p_Multi := (p_Multi s)\<lparr>m_aPaxos := released s [0..<10]\<rparr>,
     p_Fx := p_Fx s @ concat (map (\<lambda>k. fx_send E s (proposer s k) (MSG_ACCEPT (accept_of s k))) (filter (held s) [0..<10]))\<rparr>)"
    unfolding release_suppressed_accept_def .
  have "PAXOS s k = (PAXOS s k)\<lparr>p_Suppressed := Suppressed s k\<rparr>" for k by (cases "PAXOS s k") simp
  then have "released s [0..<10] k = (PAXOS s k)\<lparr>p_Suppressed := Suppressed s k \<and> PMode s k = MODE_DECIDED\<rparr>" if "k < 10" for k
    using that by (cases "PAXOS s k") (auto simp: released_def held_def)
  then show ?thesis unfolding e by (simp add: held_def del: upt.simps upt_rec_numeral)
qed

definition ex_held :: Paxos_t where
  "ex_held = set_inst 7 (\<lambda>p. p\<lparr>p_Mode := MODE_WAIT, p_RndBallot := \<lparr>r_id = 2, r_seq = 1\<rparr>, p_Suppressed := True\<rparr>) (ex_node 3 1 7)"

theorem held_accepts_are_released_witness:
  "held ex_held 7 \<and> (\<exists>s'. release_suppressed_accept ex_env ex_held = Some s' \<and> \<not> held s' 7)"
proof -
  have "list_all (\<lambda>k. held ex_held k \<longrightarrow> proposer ex_held k < p_Maximum ex_held) [0..<10]" by code_simp
  then have "\<forall>k < 10. held ex_held k \<longrightarrow> proposer ex_held k < p_Maximum ex_held"
    by (simp only: list_all_iff set_upt) simp
  moreover have "held ex_held 7" by code_simp
  ultimately show ?thesis using held_accepts_are_released [of ex_held ex_env] by auto
qed

end
