(* ===== verification/Paxos_Requests.thy ===== *)
theory Paxos_Requests
  imports Paxos_Progress
begin

text \<open>
  The requests of the application: the slot a request gets, its refusal, and its proposal.
\<close>

section \<open>Pages and sequence numbers\<close>

lemma page_of_seq:
  assumes "unat page * 10 + k < 2 ^ 32" and "k < 10"
  shows "TO_PAGE (TO_SEQ page k) = page" and "TO_K (TO_SEQ page k) = k"
proof -
  have k: "unat (of_nat k :: u32) = k" using assms(1) by (simp add: unat_of_nat)
  have u: "unat (TO_SEQ page k) = unat page * 10 + k"
    using assms(1) by (simp add: TO_SEQ_def unat_word_ariths k mod_add_left_eq)
  show "TO_PAGE (TO_SEQ page k) = page"
    using assms(2) by (simp add: TO_PAGE_def word_unat_eq_iff unat_div u)
  show "TO_K (TO_SEQ page k) = k" using assms(2) by (simp add: TO_K_def unat_mod u)
qed

text \<open>
  A sequence number is recovered from its page and its index in the page; and, below the wrap
  of the numbers, page and index are recovered from the number.
\<close>

theorem page_coordinates:
  "TO_SEQ (TO_PAGE seq) (TO_K seq) = seq \<and> TO_K seq < 10
   \<and> (unat page * 10 + k < 2 ^ 32 \<and> k < 10 \<longrightarrow> TO_PAGE (TO_SEQ page k) = page \<and> TO_K (TO_SEQ page k) = k)"
  using page_of_seq TO_SEQ_TO_PAGE TO_K_less by blast

theorem page_coordinates_witness: "TO_PAGE (TO_SEQ 3 4) = 3 \<and> TO_K (TO_SEQ 3 4) = 4"
  using page_coordinates [of 0 3 4] by simp

section \<open>Slots\<close>

lemma GetSlot_pass_slot:
  assumes "GetSlot_pass E s = Some (Slot (int k) s')"
  shows "s' = s \<and> IamMaster s \<and> isMyRnd s \<and> Page s = TO_PAGE (NextDecide s) \<and> TO_K (NextDecide s) \<le> k \<and> k < 10
    \<and> PMode s k = MODE_NONE \<and> (\<forall>i. TO_K (NextDecide s) \<le> i \<and> i < k \<longrightarrow> PMode s i \<noteq> MODE_NONE)"
proof -
  let ?m = "TO_K (NextDecide s)"
  have f: "List.find (\<lambda>k. PMode s k = MODE_NONE) [?m..<10] = Some k \<and> s' = s \<and> IamMaster s \<and> isMyRnd s \<and> Page s = TO_PAGE (NextDecide s)"
    using assms by (auto simp: GetSlot_pass_def Let_def bind_eq_Some_conv split: if_splits option.splits)
  then obtain i where i: "i < 10 - ?m" "PMode s (?m + i) = MODE_NONE" "k = ?m + i" "\<forall>j < i. PMode s (?m + j) \<noteq> MODE_NONE"
    by (auto simp: find_Some_iff)
  have "PMode s j \<noteq> MODE_NONE" if "?m \<le> j" "j < k" for j
    using i(4) [rule_format, of "j - ?m"] that i(3) by simp
  then show ?thesis using f i by auto
qed

lemma GetSlot_slot:
  assumes "GetSlot E ws s = Some (Slot (int k) s')" and "\<forall>w \<in> set ws. 0 \<le> fst w"
  shows "IamMaster s' \<and> isMyRnd s' \<and> Page s' = TO_PAGE (NextDecide s') \<and> TO_K (NextDecide s') \<le> k \<and> k < 10
    \<and> PMode s' k = MODE_NONE \<and> (\<forall>i. TO_K (NextDecide s') \<le> i \<and> i < k \<longrightarrow> PMode s' i \<noteq> MODE_NONE)
    \<and> (s' = s \<or> s' \<in> snd ` set ws)"
  using assms
proof (induction ws arbitrary: s)
  case Nil
  then show ?case using GetSlot_pass_slot [of E s k s'] by simp
next
  case (Cons w ws)
  obtain err t where w: "w = (err, t)" by fastforce
  obtain r where r: "GetSlot_pass E s = Some r" using Cons.prems w by (auto simp: bind_eq_Some_conv)
  show ?case
  proof (cases r)
    case (Slot i u)
    then show ?thesis using Cons.prems w r GetSlot_pass_slot [of E s k s'] by simp
  next
    case (SlotWait u)
    show ?thesis
    proof (cases "err = 0")
      case True
      then show ?thesis using Cons.IH [of t] Cons.prems w r SlotWait by auto
    next
      case False
      then have "- err = int k" using Cons.prems(1) w r SlotWait by simp
      then show ?thesis using Cons.prems(2) w False by simp
    qed
  qed
qed

text \<open>
  A slot that \<open>GetSlot\<close> returns, after whatever waits, is the first instance from
  \<open>NextDecide\<close> on that has no proposal, on the page of \<open>NextDecide\<close>, and
  the server is then the master in a round of its own.
\<close>

theorem GetSlot_gives_the_first_free_slot:
  assumes "GetSlot E ws s = Some (Slot (int k) s')" and "\<forall>w \<in> set ws. 0 \<le> fst w"
  shows "IamMaster s' \<and> isMyRnd s' \<and> Page s' = TO_PAGE (NextDecide s') \<and> TO_K (NextDecide s') \<le> k \<and> k < 10
    \<and> PMode s' k = MODE_NONE \<and> (\<forall>i. TO_K (NextDecide s') \<le> i \<and> i < k \<longrightarrow> PMode s' i \<noteq> MODE_NONE)
    \<and> (s' = s \<or> s' \<in> snd ` set ws)"
  by (rule GetSlot_slot [OF assms])

definition ex_leader :: Paxos_t where
  "ex_leader = set_election (\<lambda>e. e\<lparr>e_IamMaster := True\<rparr>)
     (set_multi (\<lambda>m. m\<lparr>l_Mode := MODE_BEGINCAST, l_CurRnd := \<lparr>r_id = 0, r_seq = 1\<rparr>\<rparr>) (ex_node 3 0 7))"

lemma ex_leader_slot: "GetSlot ex_env [] ex_leader = Some (Slot (int 7) ex_leader)"
proof -
  have "IamMaster ex_leader" "isMyRnd ex_leader" "Page ex_leader = TO_PAGE (NextDecide ex_leader)" "TO_K (NextDecide ex_leader) = 7"
    "List.find (\<lambda>k. PMode ex_leader k = MODE_NONE) [7..<10] = Some 7" by code_simp+
  then show ?thesis by (simp add: GetSlot_pass_def del: upt.simps upt_rec_numeral)
qed

theorem GetSlot_gives_the_first_free_slot_witness:
  "GetSlot ex_env [] ex_leader = Some (Slot (int 7) ex_leader) \<and> PMode ex_leader 7 = MODE_NONE"
  using GetSlot_gives_the_first_free_slot [OF ex_leader_slot] ex_leader_slot by simp

text \<open>
  The last page has its coordinates only up to the wrap of the sequence numbers: from its sixth
  instance on, \<open>TO_PAGE\<close> leads to page 0.
\<close>

text \<open>
  At the wrap of the sequence numbers a master finds no slot: on the last page, from the sixth
  instance on, every pass of \<open>GetSlot\<close> ends in the wait.
\<close>

theorem no_slot_at_the_wrap:
  assumes "IamMaster s" and "isMyRnd s" and "Page s = 429496729" and "NextDecide s = Seq s k" and "6 \<le> k" and "k < 10"
  shows "GetSlot_pass E s = Some (SlotWait s)"
proof -
  have "k \<in> {6, 7, 8, 9}" using assms(5,6) by auto
  then have "TO_PAGE (NextDecide s) = 0" using assms(3,4) by (auto simp: TO_PAGE_def TO_SEQ_def)
  then show ?thesis using assms(1-3) by (simp add: GetSlot_pass_def)
qed

theorem no_slot_at_the_wrap_witness:
  "GetSlot_pass ex_env (set_multi (\<lambda>m. m\<lparr>p_Page := 429496729\<rparr>) (ex_leader\<lparr>p_NextDecide := 0\<rparr>))
     = Some (SlotWait (set_multi (\<lambda>m. m\<lparr>p_Page := 429496729\<rparr>) (ex_leader\<lparr>p_NextDecide := 0\<rparr>)))"
proof -
  let ?s = "set_multi (\<lambda>m. m\<lparr>p_Page := 429496729\<rparr>) (ex_leader\<lparr>p_NextDecide := 0\<rparr>)"
  have "IamMaster ex_leader" "isMyRnd ex_leader" by code_simp+
  then have "IamMaster ?s" "isMyRnd ?s" "Page ?s = 429496729" "NextDecide ?s = Seq ?s 6"
    by (simp_all add: set_multi_def isMyRnd_def TO_SEQ_def)
  then show ?thesis by (rule no_slot_at_the_wrap) simp_all
qed

section \<open>Requests\<close>

definition begin_msg :: "Paxos_t \<Rightarrow> nat \<Rightarrow> int \<Rightarrow> Round_t \<Rightarrow> msg_body" where
  "begin_msg s k To r = MSG_BEGIN
     \<lparr>b_To = To, b_NextDecide = NextDecide s, b_BackPage = BackPage s, b_Page = Page s, b_NextK = NextK s,
      b_k = int k, b_CurRnd = r, b_Value = (RndValue s k)\<lparr>v_From := int (MyId s)\<rparr>, b_MetaCmd = MetaCmdRnd s k\<rparr>"

text \<open>A leader counts its own accept at once, unless its accepts are held back.\<close>

definition accepts_itself :: "Paxos_t \<Rightarrow> int \<Rightarrow> bool" where
  "accepts_itself s To \<longleftrightarrow> int (MyId s) = To \<and> \<not> p_bPageSuppress s \<and> IsTimespecZero (p_CatchupRecvLast s)"

lemma begin_msg_cong:
  "NextDecide t = NextDecide s \<Longrightarrow> BackPage t = BackPage s \<Longrightarrow> Page t = Page s \<Longrightarrow> NextK t = NextK s \<Longrightarrow>
     RndValue t k = RndValue s k \<Longrightarrow> MetaCmdRnd t k = MetaCmdRnd s k \<Longrightarrow> MyId t = MyId s \<Longrightarrow>
     begin_msg t k To r = begin_msg s k To r"
  by (simp add: begin_msg_def)

lemma SendBeginCast_to_eq:
  "SendBeginCast_to E k To r j s =
     (if accepts_itself s To \<and> j = MyId s then begin_self k (MyId s) r s
      else s\<lparr>p_Fx := p_Fx s @ fx_send E s j (begin_msg s k To r)\<rparr>)"
  by (auto simp: SendBeginCast_to_def accepts_itself_def send_eq begin_msg_def)

lemma fold_SendBeginCast:
  "distinct js \<Longrightarrow> fold (SendBeginCast_to E k To r) js s =
     (if accepts_itself s To \<and> MyId s \<in> set js then begin_self k (MyId s) r s else s)
       \<lparr>p_Fx := p_Fx s @ concat (map (\<lambda>j. fx_send E s j (begin_msg s k To r))
          (filter (\<lambda>j. \<not> (accepts_itself s To \<and> j = MyId s)) js))\<rparr>"
proof (induction js rule: rev_induct)
  case Nil
  then show ?case by simp
next
  case (snoc j js)
  let ?t = "fold (SendBeginCast_to E k To r) js s"
  have IH: "?t = (if accepts_itself s To \<and> MyId s \<in> set js then begin_self k (MyId s) r s else s)
       \<lparr>p_Fx := p_Fx s @ concat (map (\<lambda>j. fx_send E s j (begin_msg s k To r))
          (filter (\<lambda>j. \<not> (accepts_itself s To \<and> j = MyId s)) js))\<rparr>"
    using snoc by simp
  have b: "begin_msg ?t k To r = begin_msg s k To r"
    unfolding IH by (rule begin_msg_cong) (simp_all add: begin_self_def set_inst_def)
  have f: "fx_send E ?t j m = fx_send E s j m" for m
    unfolding IH by (rule fx_send_cong) (simp_all add: begin_self_def set_inst_def)
  have a: "accepts_itself ?t To = accepts_itself s To" "MyId ?t = MyId s"
    unfolding IH by (simp_all add: accepts_itself_def begin_self_def set_inst_def)
  have step: "fold (SendBeginCast_to E k To r) (js @ [j]) s = (if accepts_itself s To \<and> j = MyId s then begin_self k (MyId s) r ?t
      else ?t\<lparr>p_Fx := p_Fx ?t @ fx_send E s j (begin_msg s k To r)\<rparr>)"
    by (simp only: fold_append o_apply fold.simps id_apply SendBeginCast_to_eq a b f)
  show ?case
  proof (cases "accepts_itself s To \<and> j = MyId s")
    case True
    then have "MyId s \<notin> set js" using snoc.prems by simp
    moreover from this True have "filter (\<lambda>i. \<not> (accepts_itself s To \<and> i = MyId s)) (js @ [j]) = filter (\<lambda>i. \<not> (accepts_itself s To \<and> i = MyId s)) js"
      by simp
    ultimately show ?thesis using True unfolding step IH by (simp add: begin_self_def set_inst_def)
  next
    case False
    then have "filter (\<lambda>i. \<not> (accepts_itself s To \<and> i = MyId s)) (js @ [j]) = filter (\<lambda>i. \<not> (accepts_itself s To \<and> i = MyId s)) js @ [j]"
      by simp
    moreover have "accepts_itself s To \<and> MyId s \<in> set (js @ [j]) \<longleftrightarrow> accepts_itself s To \<and> MyId s \<in> set js" using False by auto
    moreover define u where "u = (if accepts_itself s To \<and> MyId s \<in> set js then begin_self k (MyId s) r s else s)"
    ultimately show ?thesis using False unfolding step if_not_P [OF False] IH by (simp only: u_def [symmetric] Paxos_t.simps concat_append map_append append_assoc concat.simps list.map append_Nil2) simp
  qed
qed

lemma GetSlot_master: "GetSlot E ws s = Some (Slot (int k) t) \<Longrightarrow> IamMaster s"
  by (cases ws; cases "IamMaster s") (auto simp: GetSlot_pass_def split: if_splits option.splits)

text \<open>
  A request to a server that is not active, to one that is not the master, to a master without
  a slot, or with a command longer than the array is refused with the code of its reason, and
  nothing but the wait for the slot has happened.
\<close>

theorem request_is_refused:
  "(\<not> p_Active s \<longrightarrow> PaxosRequest E ws cmd v s = Some (Some PAXOS_NOT_ACTIVE, s))
   \<and> (p_Active s \<and> \<not> IamMaster s \<longrightarrow> PaxosRequest E ws cmd v s = Some (Some PAXOS_Im_NOT_MASTER, s))
   \<and> (p_Active s \<and> IamMaster s \<and> GetSlot E ws s = Some (Slot i t) \<and> i < 0 \<longrightarrow>
        PaxosRequest E ws cmd v s = Some (Some PAXOS_REJECTED, t))
   \<and> (p_Active s \<and> GetSlot E ws s = Some (Slot (int k) t) \<and> 1300 < length cmd \<longrightarrow>
        PaxosRequest E ws cmd v s = Some (Some PAXOS_REJECTED, t))"
  using GetSlot_master [of E ws s k t]
  by (auto simp: PaxosRequest_def PaxosRequest_flags_def request_slot_def)

theorem request_is_refused_witness:
  "PaxosRequest ex_env [] [1] False (ex_node 3 1 7) = Some (Some PAXOS_Im_NOT_MASTER, ex_node 3 1 7)"
proof -
  have "p_Active (ex_node 3 1 7)" "\<not> IamMaster (ex_node 3 1 7)" by code_simp+
  then show ?thesis using request_is_refused by blast
qed

text \<open>
  A request with an empty command that gets a slot kills the process, by the assertion of
  \<open>Continue\<close>.
\<close>

theorem empty_request_kills:
  assumes "p_Active s" and "GetSlot E ws s = Some (Slot (int k) t)" and "\<forall>w \<in> set ws. 0 \<le> fst w"
  shows "PaxosRequest E ws [] False s = None"
proof -
  note g = GetSlot_master [OF assms(2)]
  have "isMyRnd t" "PMode t k = MODE_NONE" using GetSlot_slot [OF assms(2,3)] by simp_all
  then have "isMyRnd (InitCommand k \<lparr>c_len = 0, c_opaque = []\<rparr> 0 t)" "PMode (InitCommand k \<lparr>c_len = 0, c_opaque = []\<rparr> 0 t) k = MODE_NONE"
    "isEmpty (MetaCmdInit (InitCommand k \<lparr>c_len = 0, c_opaque = []\<rparr> 0 t) k)"
    by (simp_all add: InitCommand_def isMyRnd_def Let_def assign isEmpty_def)
  then have "Continue k (InitCommand k \<lparr>c_len = 0, c_opaque = []\<rparr> 0 t) = None"
    by (simp add: Continue_def ASSERT_def)
  then show ?thesis using assms(1,2) g by (simp add: PaxosRequest_def PaxosRequest_flags_def request_slot_def)
qed

theorem empty_request_kills_witness: "PaxosRequest ex_env [] [] False ex_leader = None"
proof -
  have "p_Active ex_leader" by code_simp
  then show ?thesis using ex_leader_slot by (rule empty_request_kills) simp
qed

text \<open>The proposal of a request, and the instance that carries it until it is decided.\<close>

definition request_value :: "Paxos_t \<Rightarrow> value_t" where
  "request_value s = \<lparr>v_Flags = VALUE_DEFINED, v_Server = int (MyId s), v_Epoch = Epoch s, v_From = int (MyId s)\<rparr>"

definition requested :: "env \<Rightarrow> Paxos_t \<Rightarrow> PaxosInstance_t \<Rightarrow> PaxosInstance_t" where
  "requested E s p = (let q = p\<lparr>p_InitValue := (request_value s)\<lparr>v_Epoch := 0\<rparr>, p_RndValue := request_value s,
       p_Mode := MODE_GATHERACCEPT, p_Deadline := TimespecAddUsec (e_now E) (DT_SUCCESS s)\<rparr>
     in if accepts_itself s (int (MyId s))
        then q\<lparr>p_RndBallot := CurRnd s, p_RndAccQuo := snd (quorum_add (p_RndAccQuo p) (MyId s))\<rparr> else q)"

definition request_cmds :: "u8 list \<Rightarrow> MetaCmds \<Rightarrow> MetaCmds" where
  "request_cmds cmd c = (let C = \<lparr>c_len = of_nat (length cmd), c_opaque = cmd\<rparr>
     in c\<lparr>c_MetaCmdInit := C, c_MetaCmdRnd := C\<rparr>)"

text \<open>
  C18: A request without validation that gets a slot of an active server of a cell of more than one,
  and whose command has between 1 and 1300 bytes, is proposed: the answer is \<open>PAXOS_OK\<close>, the
  instance of the slot holds the master's value under its epoch and the command and gathers
  accepts until its deadline, the master's own accept is counted unless accepts are held back, and
  every other server gets the begin of exactly this proposal in the current round. The state is
  otherwise the one in which the slot was found.
\<close>

theorem request_is_proposed:
  assumes "p_Active s" and "GetSlot E ws s = Some (Slot (int k) t)" and "\<forall>w \<in> set ws. 0 \<le> fst w"
    and "1 \<le> length cmd" and "length cmd \<le> 1300" and "p_Max t \<noteq> 1" and "MyId t < p_Max t"
  shows "\<exists>s'. PaxosRequest E ws cmd False s = Some (Some PAXOS_OK, s')
    \<and> s' = t\<lparr>p_Multi := (p_Multi t)\<lparr>m_aPaxos := (PAXOS t)(k := requested E t (PAXOS t k)),
        m_aMetaCmd := (METACMD t)(k := request_cmds cmd (METACMD t k))\<rparr>, p_Fx := p_Fx s'\<rparr>
    \<and> p_Fx s' = p_Fx t @ concat (map (\<lambda>j. fx_send E t j (begin_msg s' k (int (MyId t)) (CurRnd t)))
         (filter (\<lambda>j. \<not> (accepts_itself t (int (MyId t)) \<and> j = MyId t)) [0..<p_Max t]))"
proof -
  note g = GetSlot_master [OF assms(2)]
  have slot: "isMyRnd t" "PMode t k = MODE_NONE" using GetSlot_slot [OF assms(2,3)] by simp_all
  let ?C = "\<lparr>c_len = of_nat (length cmd), c_opaque = cmd\<rparr> :: MetaCmd_t"
  let ?V = "\<lparr>v_Flags = 1, v_Server = int (MyId t), v_Epoch = 0, v_From = int (MyId t)\<rparr> :: value_t"
  have "unat (of_nat (length cmd) :: u32) = length cmd" using assms(5) by (simp add: unat_of_nat)
  then have len: "(of_nat (length cmd) :: u32) \<noteq> 0" using assms(4) by (metis unat_0 not_one_le_zero)
  define u where "u = t\<lparr>p_Multi := (p_Multi t)\<lparr>
      m_aMetaCmd := (METACMD t)(k := (METACMD t k)\<lparr>c_MetaCmdInit := ?C, c_MetaCmdRnd := ?C\<rparr>),
      m_aPaxos := (PAXOS t)(k := (PAXOS t k)\<lparr>p_InitValue := ?V, p_RndValue := request_value t, p_Mode := MODE_BEGINCAST\<rparr>)\<rparr>\<rparr>"
  have u: "PMode u k = MODE_BEGINCAST" "RndValue u k = request_value t" "p_MyId u = p_MyId t" "MetaCmdRnd u k = ?C"
    "p_Max u = p_Max t" "CurRnd u = CurRnd t" "accepts_itself u = accepts_itself t" "p_Fx u = p_Fx t" "NextDecide u = NextDecide t"
    by (simp_all add: u_def accepts_itself_def fun_eq_iff)
  have c: "Continue k (InitCommand k ?C 0 t) = Some (True, u)"
    using slot len
    by (simp add: Continue_def InitCommand_def isMyRnd_def Let_def assign isEmpty_def ASSERT_def u_def request_value_def)
  define w where "w = (if accepts_itself u (int (MyId u)) then begin_self k (MyId u) (CurRnd u) u else u)"
  let ?fx = "concat (map (\<lambda>j. fx_send E u j (begin_msg u k (int (MyId u)) (CurRnd u)))
          (filter (\<lambda>j. \<not> (accepts_itself u (int (MyId u)) \<and> j = MyId u)) [0..<p_Max u]))"
  have cast: "SendBeginCast E k (int (MyId u)) (CurRnd u) u = Some (w\<lparr>p_Fx := p_Fx u @ ?fx\<rparr>)"
    using fold_SendBeginCast [OF distinct_upt, of E k "int (MyId u)" "CurRnd u" 0 "p_Max u" u] len u(3-5) assms(7)
    by (simp add: SendBeginCast_def ASSERT_def isEmpty_def w_def)
  have pw: "p_Max w = p_Max t" "PAXOS w = (PAXOS t)(k := PAXOS w k)" "METACMD w = METACMD u" "NextDecide w = NextDecide t"
    by (simp_all add: w_def begin_self_def set_inst_def) (simp_all add: u_def)
  let ?g = "\<lambda>p. p\<lparr>p_Mode := MODE_GATHERACCEPT, p_Deadline := TimespecAddUsec (e_now E) (DT_SUCCESS (w\<lparr>p_Fx := p_Fx u @ ?fx\<rparr>))\<rparr>"
  define s' where "s' = set_inst k ?g (w\<lparr>p_Fx := p_Fx u @ ?fx\<rparr>)"
  have b: "BeginCast E k u = Some s'"
    using cast u(1-3) assms(6) pw(1)
    by (simp add: BeginCast_def request_value_def s'_def) (simp add: set_inst_def)
  have "PaxosRequest E ws cmd False s = Some (Some PAXOS_OK, s')"
    using assms(1,2,5) g c b by (simp add: PaxosRequest_def PaxosRequest_flags_def request_slot_def)
  moreover have paxos: "PAXOS s' = (PAXOS t)(k := requested E t (PAXOS t k))"
  proof -
    have d: "DT_SUCCESS (w\<lparr>p_Fx := x\<rparr>) = DT_SUCCESS t" for x
      by (simp add: DT_SUCCESS_def DT_L_def DT_D_def pw(1)) (simp add: w_def begin_self_def set_inst_def u_def)
    have "?g (PAXOS w k) = requested E t (PAXOS t k)"
      unfolding d by (simp add: w_def u(7) u(3) begin_self_def set_inst_def) (simp add: u_def requested_def request_value_def Let_def)
    moreover have "PAXOS s' = (PAXOS t)(k := ?g (PAXOS w k))"
    proof -
      have "(PAXOS w)(k := x) = (PAXOS t)(k := x)" for x using pw(2) by (metis fun_upd_upd)
      moreover have "PAXOS s' = (PAXOS w)(k := ?g (PAXOS w k))" by (simp add: s'_def set_inst_def)
      ultimately show ?thesis by simp
    qed
    ultimately show ?thesis by simp
  qed
  moreover have "s' = t\<lparr>p_Multi := (p_Multi t)\<lparr>m_aPaxos := (PAXOS t)(k := requested E t (PAXOS t k)),
        m_aMetaCmd := (METACMD t)(k := request_cmds cmd (METACMD t k))\<rparr>, p_Fx := p_Fx s'\<rparr>"
  proof -
    have "METACMD s' = (METACMD t)(k := request_cmds cmd (METACMD t k))"
      using pw(3) by (simp add: s'_def set_inst_def u_def request_cmds_def Let_def)
    moreover have "s' = t\<lparr>p_Multi := (p_Multi t)\<lparr>m_aPaxos := PAXOS s', m_aMetaCmd := METACMD s'\<rparr>, p_Fx := p_Fx s'\<rparr>"
      by (simp add: s'_def set_inst_def w_def begin_self_def u_def)
    ultimately show ?thesis by (simp only: paxos)
  qed
  moreover have "p_Fx s' = p_Fx t @ concat (map (\<lambda>j. fx_send E t j (begin_msg s' k (int (MyId t)) (CurRnd t)))
         (filter (\<lambda>j. \<not> (accepts_itself t (int (MyId t)) \<and> j = MyId t)) [0..<p_Max t]))"
  proof -
    have "begin_msg s' k To r = begin_msg u k To r" for To r
      by (rule begin_msg_cong) (simp_all add: s'_def set_inst_def w_def begin_self_def)
    moreover have "fx_send E u j m = fx_send E t j m" for j m by (rule fx_send_cong) (simp_all add: u_def)
    ultimately show ?thesis by (simp add: s'_def set_inst_def u)
  qed
  ultimately show ?thesis by blast
qed

theorem request_is_proposed_witness:
  "\<exists>s'. PaxosRequest ex_env [] [1, 2] False ex_leader = Some (Some PAXOS_OK, s') \<and> PMode s' 7 = MODE_GATHERACCEPT
     \<and> MetaCmdRnd s' 7 = \<lparr>c_len = 2, c_opaque = [1, 2]\<rparr>"
proof -
  have a: "p_Active ex_leader" "p_Max ex_leader \<noteq> 1" "MyId ex_leader < p_Max ex_leader" by code_simp+
  have l: "\<forall>w \<in> set []. 0 \<le> fst w" "1 \<le> length [1, 2 :: u8]" "length [1, 2 :: u8] \<le> 1300" by simp_all
  from request_is_proposed [OF a(1) ex_leader_slot l a(2,3)]
  obtain s' where "PaxosRequest ex_env [] [1, 2] False ex_leader = Some (Some PAXOS_OK, s')"
    and s': "s' = ex_leader\<lparr>p_Multi := (p_Multi ex_leader)\<lparr>
        m_aPaxos := (PAXOS ex_leader)(7 := requested ex_env ex_leader (PAXOS ex_leader 7)),
        m_aMetaCmd := (METACMD ex_leader)(7 := request_cmds [1, 2] (METACMD ex_leader 7))\<rparr>, p_Fx := p_Fx s'\<rparr>"
    by blast
  moreover have "PMode s' 7 = MODE_GATHERACCEPT" "MetaCmdRnd s' 7 = \<lparr>c_len = 2, c_opaque = [1, 2]\<rparr>"
    by (subst s', simp add: requested_def request_cmds_def Let_def)+
  ultimately show ?thesis by blast
qed

end
