(* ===== verification/Paxos_Voting.thy ===== *)
theory Paxos_Voting
  imports Paxos_Progress
begin

text \<open>
  The election as a count of votes, the connections it rests on, and the choice of the reader.
\<close>

section \<open>Votes\<close>

definition voter :: "Paxos_t \<Rightarrow> nat \<Rightarrow> bool" where
  "voter s j \<longleftrightarrow> j = MyId s \<or> is_connected (server s j)"

definition named :: "Paxos_t \<Rightarrow> nat \<Rightarrow> int" where
  "named s j = (if j = MyId s then ELeader s else s_leader (server s j))"

text \<open>The servers heard that name server \<open>i\<close>.\<close>

definition votes_for :: "Paxos_t \<Rightarrow> nat \<Rightarrow> nat" where
  "votes_for s i = card {j. j < p_Max s \<and> voter s j \<and> named s j = int i}"

lemma count_vote_eq:
  "count_vote s j votes =
     (if \<not> voter s j \<or> named s j < 0 then Some votes
      else if named s j < int (p_Max s) then Some (votes(nat (named s j) := votes (nat (named s j)) + 1))
      else None)"
  by (simp add: count_vote_def voter_def named_def Let_def)

lemma count_votes:
  "for_each (count_vote s) js votes = Some votes' \<Longrightarrow>
     votes' i = votes i + int (length (filter (\<lambda>j. voter s j \<and> named s j = int i) js))"
proof (induction js arbitrary: votes)
  case Nil
  then show ?case by simp
next
  case (Cons j js)
  then obtain v where v: "count_vote s j votes = Some v" "for_each (count_vote s) js v = Some votes'"
    by (auto simp: bind_eq_Some_conv)
  have "v i = votes i + (if voter s j \<and> named s j = int i then 1 else 0)"
    using v(1) by (auto simp: count_vote_eq split: if_splits)
  then show ?case using Cons.IH [OF v(2)] by simp
qed

lemma count_votes_None:
  "for_each (count_vote s) js votes = None \<longleftrightarrow> (\<exists>j \<in> set js. voter s j \<and> int (p_Max s) \<le> named s j)"
proof (induction js arbitrary: votes)
  case (Cons j js)
  show ?case
  proof (cases "voter s j \<and> int (p_Max s) \<le> named s j")
    case True
    then show ?thesis by (auto simp: count_vote_eq)
  next
    case False
    then have "count_vote s j votes \<noteq> None" by (auto simp: count_vote_eq)
    then obtain v where "count_vote s j votes = Some v" by blast
    then show ?thesis using Cons.IH [of v] False by auto
  qed
qed simp

lemma card_filter_upt: "card {j. j < n \<and> P j} = length (filter P [0..<n])"
proof -
  have "card (set (filter P [0..<n])) = length (filter P [0..<n])" by (rule distinct_card) simp
  moreover have "set (filter P [0..<n]) = {j. j < n \<and> P j}" by auto
  ultimately show ?thesis by simp
qed

lemma count_votes_all:
  "for_each (count_vote s) [0..<p_Max s] (\<lambda>_. 0) = Some votes \<Longrightarrow> votes i = int (votes_for s i)"
  using count_votes [of s "[0..<p_Max s]" "\<lambda>_. 0" votes i] by (simp add: votes_for_def card_filter_upt)

lemma majority_unique:
  assumes "p_Max s < 2 * votes_for s i" and "p_Max s < 2 * votes_for s k"
  shows "i = k"
proof (rule ccontr)
  assume "i \<noteq> k"
  let ?V = "\<lambda>i. {j. j < p_Max s \<and> voter s j \<and> named s j = int i}"
  have f: "finite (?V i)" for i by simp
  have "?V i \<inter> ?V k = {}" using \<open>i \<noteq> k\<close> by auto
  then have "votes_for s i + votes_for s k = card (?V i \<union> ?V k)"
    unfolding votes_for_def by (simp only: card_Un_disjoint [OF f f])
  also have "\<dots> \<le> card {0..<p_Max s}" by (rule card_mono) auto
  finally show False using assms by simp
qed

lemma elected_of_majority:
  assumes "\<And>i. votes i = int (votes_for s i)"
  shows "elected_of s votes = Some i \<Longrightarrow> i < p_Max s \<and> p_Max s < 2 * votes_for s i"
    and "elected_of s votes = None \<Longrightarrow> i < p_Max s \<Longrightarrow> 2 * votes_for s i \<le> p_Max s"
proof -
  have "int (p_Max s div 2 + 1) \<le> votes i \<longleftrightarrow> p_Max s < 2 * votes_for s i" for i
    unfolding assms by linarith
  then have e: "elected_of s votes = List.find (\<lambda>j. p_Max s < 2 * votes_for s j) [0..<p_Max s]"
    by (simp add: elected_of_def)
  show "elected_of s votes = Some i \<Longrightarrow> i < p_Max s \<and> p_Max s < 2 * votes_for s i"
    by (auto simp: e find_Some_iff)
  show "elected_of s votes = None \<Longrightarrow> i < p_Max s \<Longrightarrow> 2 * votes_for s i \<le> p_Max s"
    unfolding e find_None_iff by force
qed

lemma votes_below: "votes_for s i \<noteq> 0 \<Longrightarrow> for_each (count_vote s) [0..<p_Max s] (\<lambda>_. 0) \<noteq> None \<Longrightarrow> i < p_Max s"
proof -
  assume a: "votes_for s i \<noteq> 0" "for_each (count_vote s) [0..<p_Max s] (\<lambda>_. 0) \<noteq> None"
  then have "{j. j < p_Max s \<and> voter s j \<and> named s j = int i} \<noteq> {}" by (auto simp: votes_for_def)
  then obtain j where "j < p_Max s" "voter s j" "named s j = int i" by auto
  moreover from this have "\<not> int (p_Max s) \<le> named s j" using a(2) by (auto simp: count_votes_None)
  ultimately show "i < p_Max s" by simp
qed

text \<open>
  C26: \<open>ElectLeader\<close> elects a server exactly when a majority of the cell votes for
  one, and then that one; the server becomes, or stays, the master exactly when it is the one; the
  epoch is advanced exactly when it becomes the master, and a new round is due then.
\<close>

theorem ElectLeader_elects_the_majority:
  assumes "ElectLeader E js s = Some (b, s')"
  shows "(b \<longleftrightarrow> (\<exists>i. p_Max s < 2 * votes_for s i))
    \<and> (\<forall>i. p_Max s < 2 * votes_for s i \<longrightarrow> Elected s' = int i \<and> IamMaster s' = (i = MyId s))
    \<and> (\<not> b \<longrightarrow> Elected s' = -1 \<and> \<not> IamMaster s')
    \<and> Epoch s' = (if IamMaster s' \<and> \<not> IamMaster s then SEQ_INC (Epoch s) else Epoch s)
    \<and> NewRndStart s' = (if IamMaster s' = IamMaster s then NewRndStart s else IamMaster s')"
proof -
  obtain votes where v: "for_each (count_vote s) [0..<p_Max s] (\<lambda>_. 0) = Some votes"
    and r: "(b, s') = (case elected_of s votes of
               Some j \<Rightarrow> (True, elect_win (s_ID (server s js)) j s)
             | None \<Rightarrow> (False, elect_lose E (s_ID (server s js)) s))"
    using assms by (auto simp: ElectLeader_def bind_eq_Some_conv)
  note m = elected_of_majority [where s = s and votes = votes, OF count_votes_all [OF v]]
  show ?thesis
  proof (cases "elected_of s votes")
    case None
    have no: "\<not> p_Max s < 2 * votes_for s i" for i
      using m(2) [OF None, of i] votes_below [of s i] v by fastforce
    have "b = False" "s' = elect_lose E (s_ID (server s js)) s" using r None by simp_all
    then show ?thesis using no by (simp add: elect_lose_def Let_def assign)
  next
    case (Some j)
    have j: "p_Max s < 2 * votes_for s i \<longleftrightarrow> i = j" for i
      using m(1) [OF Some] majority_unique [of s i j] by auto
    have "b = True" "s' = elect_win (s_ID (server s js)) j s" using r Some by simp_all
    then show ?thesis unfolding j by (simp add: elect_win_def Let_def assign)
  qed
qed

text \<open>The first of three servers, which hears the second; both name the first.\<close>

definition ex_voting :: Paxos_t where
  "ex_voting = set_election (\<lambda>e. e\<lparr>e_Leader := 0\<rparr>)
     (set_srv 1 (\<lambda>p. p\<lparr>s_status := 3, s_leader := 0, s_Election := \<lparr>tv_sec = 2000, tv_nsec = 0\<rparr>, s_Load := -5\<rparr>) (ex_node 3 0 7))"

lemma ex_votes: "3 < 2 * votes_for ex_voting 0" "p_Max ex_voting = 3"
proof -
  show m: "p_Max ex_voting = 3" by code_simp
  have "length (filter (\<lambda>j. voter ex_voting j \<and> named ex_voting j = 0) [0..<3]) = 2" by code_simp
  then show "3 < 2 * votes_for ex_voting 0" by (simp add: votes_for_def card_filter_upt m del: upt.simps upt_rec_numeral)
qed

theorem ElectLeader_elects_the_majority_witness:
  "\<exists>s'. ElectLeader ex_env 1 ex_voting = Some (True, s') \<and> IamMaster s'"
proof -
  have "\<not> Option.is_none (ElectLeader ex_env 1 ex_voting)" by code_simp
  then obtain b s' where e: "ElectLeader ex_env 1 ex_voting = Some (b, s')" using ex_some by fastforce
  have "MyId ex_voting = 0" by code_simp
  then show ?thesis using ElectLeader_elects_the_majority [OF e] e ex_votes by auto
qed

text \<open>
  \<open>ElectLeader\<close> accesses its array of votes outside of its bounds exactly when a
  server it hears votes for an index that is not one of the cell.
\<close>

theorem ElectLeader_trusts_the_votes:
  "ElectLeader E js s = None \<longleftrightarrow> (\<exists>j < p_Max s. voter s j \<and> int (p_Max s) \<le> named s j)"
proof -
  have "ElectLeader E js s = None \<longleftrightarrow> for_each (count_vote s) [0..<p_Max s] (\<lambda>_. 0) = None"
    by (cases "for_each (count_vote s) [0..<p_Max s] (\<lambda>_. 0)") (simp_all add: ElectLeader_def)
  then show ?thesis by (auto simp: count_votes_None)
qed

theorem ElectLeader_trusts_the_votes_witness:
  "ElectLeader ex_env 1 (set_srv 1 (\<lambda>p. p\<lparr>s_leader := 3\<rparr>) ex_voting) = None"
proof -
  let ?s = "set_srv 1 (\<lambda>p. p\<lparr>s_leader := 3\<rparr>) ex_voting"
  have "1 < p_Max ?s" "voter ?s 1" "int (p_Max ?s) \<le> named ?s 1" by code_simp+
  then show ?thesis using ElectLeader_trusts_the_votes by blast
qed

section \<open>The oldest server\<close>

definition birth :: "Paxos_t \<Rightarrow> nat \<Rightarrow> timespec" where
  "birth s j = (if j = MyId s then EBirth s else s_Election (server s j))"

definition heard :: "Paxos_t \<Rightarrow> nat list" where
  "heard s = filter (voter s) [0..<p_Max s]"

definition oldest :: "Paxos_t \<Rightarrow> nat list \<Rightarrow> int \<Rightarrow> timespec \<Rightarrow> bool" where
  "oldest s js leader t \<longleftrightarrow> (if js = [] then leader = -1
     else \<exists>j \<in> set js. leader = int j \<and> t = birth s j \<and> (\<forall>i \<in> set js. nanos (birth s j) \<le> nanos (birth s i)))"

lemma fold_vote_step:
  assumes "\<forall>j \<in> set js. s_ID (server s j) = int j \<and> normal_time (birth s j)"
  shows "\<exists>leader t. fold (vote_step s) js (0, -1, timespec_zero) = (length (filter (voter s) js), leader, t)
    \<and> oldest s (filter (voter s) js) leader t"
  using assms
proof (induction js rule: rev_induct)
  case Nil
  then show ?case by (simp add: oldest_def)
next
  case (snoc k js)
  then obtain leader t where f: "fold (vote_step s) js (0, -1, timespec_zero) = (length (filter (voter s) js), leader, t)"
    and i: "oldest s (filter (voter s) js) leader t" by auto
  show ?case
  proof (cases "voter s k")
    case False
    then have "vote_step s k v = v" for v by (auto simp: vote_step_def voter_def split: prod.split)
    then show ?thesis using False f i by simp
  next
    case True
    have id: "s_ID (server s k) = int k" and nk: "normal_time (birth s k)" using snoc.prems by simp_all
    have st: "vote_step s k (length (filter (voter s) js), leader, t) =
        (if leader < 0 \<or> TIMESPECCOMPARE (birth s k) t < 0
         then (Suc (length (filter (voter s) js)), int k, birth s k) else (Suc (length (filter (voter s) js)), leader, t))"
      using True id by (auto simp: vote_step_def voter_def birth_def)
    show ?thesis
    proof (cases "filter (voter s) js = []")
      case e: True
      then have "leader < 0" using i by (simp add: oldest_def)
      then show ?thesis using f st True e by (simp add: oldest_def)
    next
      case ne: False
      then obtain j where j: "j \<in> set (filter (voter s) js)" "leader = int j" "t = birth s j"
        "\<forall>i \<in> set (filter (voter s) js). nanos (birth s j) \<le> nanos (birth s i)" using i by (auto simp: oldest_def)
      have nj: "normal_time (birth s j)" using j(1) snoc.prems by simp
      note cmp = TIMESPECCOMPARE_sign(1) [OF nk nj]
      show ?thesis
      proof (cases "nanos (birth s k) < nanos (birth s j)")
        case lt: True
        have "\<forall>i \<in> set (filter (voter s) (js @ [k])). nanos (birth s k) \<le> nanos (birth s i)"
          using j(4) lt True by fastforce
        then show ?thesis using f st True cmp lt j by (auto simp: oldest_def)
      next
        case ge: False
        have "\<forall>i \<in> set (filter (voter s) (js @ [k])). nanos (birth s j) \<le> nanos (birth s i)"
          using j(4) ge True by auto
        then show ?thesis using f st True cmp ge j by (auto simp: oldest_def)
      qed
    qed
  qed
qed

text \<open>
  \<open>MyVote\<close> names the oldest of the servers heard when they are a majority of the
  cell, and none otherwise; it reports whether the vote changed, and the server's own entry
  carries it.
\<close>

theorem MyVote_names_the_oldest:
  assumes "\<forall>j < p_Max s. s_ID (server s j) = int j \<and> normal_time (birth s j)" and "MyVote s = (changed, s')"
  shows "(if 2 * length (heard s) \<le> p_Max s then ELeader s' = -1
      else \<exists>j \<in> set (heard s). ELeader s' = int j \<and> (\<forall>i \<in> set (heard s). nanos (birth s j) \<le> nanos (birth s i)))
    \<and> (changed \<longleftrightarrow> ELeader s' \<noteq> ELeader s) \<and> s_leader (server s' (MyId s)) = ELeader s'"
proof -
  obtain leader t where f: "fold (vote_step s) [0..<p_Max s] (0, -1, timespec_zero) = (length (heard s), leader, t)"
    and i: "oldest s (heard s) leader t"
    using fold_vote_step [of "[0..<p_Max s]" s] assms(1) by (auto simp: heard_def)
  have "my_choice s = (if 2 * length (heard s) \<le> p_Max s then -1 else leader)"
    using f by (auto simp: my_choice_def)
  moreover have "ELeader s' = my_choice s" "changed \<longleftrightarrow> ELeader s' \<noteq> ELeader s" "s_leader (server s' (MyId s)) = ELeader s'"
    using assms(2) by (auto simp: MyVote_def Let_def assign)
  moreover have "heard s \<noteq> []" if "\<not> 2 * length (heard s) \<le> p_Max s" using that by auto
  ultimately show ?thesis using i by (auto simp: oldest_def split: if_splits)
qed

theorem MyVote_names_the_oldest_witness: "ELeader (snd (MyVote ex_voting)) = 0"
proof -
  have "list_all (\<lambda>j. s_ID (server ex_voting j) = int j \<and> normal_time (birth ex_voting j)) [0..<3]" by code_simp
  then have ids: "\<forall>j < p_Max ex_voting. s_ID (server ex_voting j) = int j \<and> normal_time (birth ex_voting j)"
    unfolding ex_votes(2) by (simp only: list_all_iff set_upt) simp
  obtain c s' where v: "MyVote ex_voting = (c, s')" by fastforce
  have h: "heard ex_voting = [0, 1]" "nanos (birth ex_voting 1) = 2000000000000" "nanos (birth ex_voting 0) = 1000000000000"
    by code_simp+
  note h = h [unfolded One_nat_def]
  show ?thesis using MyVote_names_the_oldest [OF ids v] by (simp add: h v ex_votes(2) split: if_splits)
qed

section \<open>Connections\<close>

text \<open>
  \<open>CheckConnection\<close> makes the connected flag of a server what its token says,
  reports the transition, and touches no other server and no other flag.
\<close>

theorem CheckConnection_tracks_the_token:
  assumes "CheckConnection E j s = (con, s')"
  shows "is_connected (server s' j) = IS_CONNECTED E (server s j) s
    \<and> con = (if is_connected (server s j) then (if is_connected (server s' j) then CON_CON else CON_DIS)
             else (if is_connected (server s' j) then DIS_CON else DIS_DIS))
    \<and> (\<forall>i. i \<noteq> j \<longrightarrow> server s' i = server s i) \<and> is_active (server s' j) = is_active (server s j)"
proof -
  have b: "is_connected p \<longleftrightarrow> bit (s_status p) 1" "is_active p \<longleftrightarrow> bit (s_status p) 0" for p
  proof -
    show "is_connected p \<longleftrightarrow> bit (s_status p) 1" "is_active p \<longleftrightarrow> bit (s_status p) 0"
      using and_exp_eq_0_iff_not_bit [of "s_status p" 1] and_exp_eq_0_iff_not_bit [of "s_status p" 0]
      by (simp_all add: is_connected_def is_active_def)
  qed
  have o: "bit (x OR 2 :: u32) (Suc 0)" "bit (x OR 2 :: u32) 0 = bit x 0" "\<not> bit (x AND -3 :: u32) (Suc 0)"
    "bit (x AND -3 :: u32) 0 = bit x 0" for x
    by (simp_all only: bit_or_iff bit_and_iff) simp_all
  show ?thesis using assms by (auto simp: CheckConnection_def b set_srv_def o split: if_splits)
qed

theorem CheckConnection_tracks_the_token_witness:
  "\<not> is_connected (server (snd (CheckConnection ex_env 1 ex_voting)) 1)"
proof -
  obtain c s' where v: "CheckConnection ex_env 1 ex_voting = (c, s')" by fastforce
  have "\<not> IS_CONNECTED ex_env (server ex_voting 1) ex_voting" by code_simp
  then show ?thesis using CheckConnection_tracks_the_token [OF v] v by simp
qed

lemma IS_CONNECTED_int32:
  "IS_CONNECTED E p s \<longleftrightarrow> int32 (TIMESPECCOMPARE (e_now E) (TimespecAddUsec (s_Token p) (DT_CON s))) < 0"
  by (simp add: IS_CONNECTED_def Let_def)

text \<open>
  A server is taken as connected exactly while the token it returned is younger than
  \<open>DT_CON\<close>, for times whose difference fits 32 bits.
\<close>

theorem IS_CONNECTED_within_range:
  assumes "normal_time (e_now E)" and "normal_time (s_Token p)" and "0 \<le> DT_CON s" and "DT_CON s < 2 ^ 40"
    and "\<bar>tv_sec (e_now E) - tv_sec (TimespecAddUsec (s_Token p) (DT_CON s))\<bar> < 2 ^ 31"
  shows "IS_CONNECTED E p s \<longleftrightarrow> nanos (e_now E) < nanos (s_Token p) + DT_CON s * 1000"
proof -
  let ?w = "TimespecAddUsec (s_Token p) (DT_CON s)"
  have w: "normal_time ?w" by (rule normal_AddUsec [OF assms(2-4)])
  have "- (2 ^ 31) \<le> TIMESPECCOMPARE (e_now E) ?w \<and> TIMESPECCOMPARE (e_now E) ?w < 2 ^ 31"
    using assms(1,5) w by (auto simp: TIMESPECCOMPARE_def normal_time_def)
  then have "int32 (TIMESPECCOMPARE (e_now E) ?w) = TIMESPECCOMPARE (e_now E) ?w" by (simp add: int32_id)
  then show ?thesis using TIMESPECCOMPARE_sign(1) [OF assms(1) w] by (simp add: IS_CONNECTED_int32 nanos_AddUsec)
qed

theorem IS_CONNECTED_within_range_witness:
  "IS_CONNECTED ex_env ((server ex_voting 1)\<lparr>s_Token := \<lparr>tv_sec = 999, tv_nsec = 900000000\<rparr>\<rparr>) ex_voting"
proof -
  let ?p = "(server ex_voting 1)\<lparr>s_Token := \<lparr>tv_sec = 999, tv_nsec = 900000000\<rparr>\<rparr>"
  have d: "DT_CON ex_voting = 400000" by code_simp
  have n: "normal_time (e_now ex_env)" "normal_time (s_Token ?p)" "nanos (e_now ex_env) = 1000000000000"
    "nanos (s_Token ?p) = 999900000000" "tv_sec (e_now ex_env) = 1000"
    "tv_sec (TimespecAddUsec (s_Token ?p) (DT_CON ex_voting)) = 1000" by code_simp+
  then show ?thesis using IS_CONNECTED_within_range [OF n(1,2)] d by simp
qed

text \<open>From 2038 on the narrowed difference is negative for a server that never sent a token.\<close>

text \<open>
  A server that never returned a token is taken as connected once the clock passes 2038: the
  difference of the times is narrowed to 32 bits.
\<close>

theorem silent_server_is_connected_in_2038:
  assumes "s_Token p = timespec_zero" and "0 \<le> DT_CON s" and "DT_CON s \<le> 10000000"
    and "2 ^ 31 + 10 \<le> tv_sec (e_now E)" and "tv_sec (e_now E) < 2 ^ 32"
  shows "IS_CONNECTED E p s"
proof -
  let ?w = "TimespecAddUsec timespec_zero (DT_CON s)"
  have "0 \<le> DT_CON s * 1000 div 1000000000" "DT_CON s * 1000 div 1000000000 \<le> 10"
    using assms(2,3) by (simp_all add: pos_imp_zdiv_nonneg_iff)
  then have w: "0 \<le> tv_sec ?w" "tv_sec ?w \<le> 10"
    using assms(2) by (simp_all add: TimespecAddUsec_def Let_def int32_id)
  then have "2 ^ 31 \<le> TIMESPECCOMPARE (e_now E) ?w" "TIMESPECCOMPARE (e_now E) ?w < 2 ^ 32"
    using assms(4,5) by (auto simp: TIMESPECCOMPARE_def)
  then have "TIMESPECCOMPARE (e_now E) ?w div 2 ^ 31 = 1" by (simp add: div_pos_geq div_pos_pos_trivial)
  then have "int32 (TIMESPECCOMPARE (e_now E) ?w) < 0"
    by (simp only: int32_def signed_take_bit_negative_iff bit_iff_odd) simp
  then show ?thesis by (simp add: IS_CONNECTED_int32 assms(1))
qed

theorem silent_server_is_connected_in_2038_witness:
  "IS_CONNECTED (ex_env\<lparr>e_now := \<lparr>tv_sec = 2147483700, tv_nsec = 0\<rparr>\<rparr>) (server (ex_node 3 0 7) 2) (ex_node 3 0 7)"
proof -
  have "s_Token (server (ex_node 3 0 7) 2) = timespec_zero" "DT_CON (ex_node 3 0 7) = 400000" by code_simp+
  then show ?thesis by (intro silent_server_is_connected_in_2038) simp_all
qed

section \<open>Readers\<close>

definition reader_step :: "Paxos_t \<Rightarrow> nat \<Rightarrow> int \<times> int \<Rightarrow> int \<times> int" where
  "reader_step s j lr = (if j = MyId s \<or> \<not> is_connected (server s j) then lr
     else if s_Load (server s j) < fst lr then (s_Load (server s j), int j) else lr)"

lemma fold_reader_step:
  "\<exists>r. fold (reader_step s) js (s_Load (server s (MyId s)), int (MyId s)) = (s_Load (server s r), int r)
    \<and> r \<in> insert (MyId s) (set js) \<and> voter s r
    \<and> (\<forall>j \<in> insert (MyId s) (set js). voter s j \<longrightarrow> s_Load (server s r) \<le> s_Load (server s j))"
proof (induction js rule: rev_induct)
  case Nil
  then show ?case by (auto simp: voter_def)
next
  case (snoc k js)
  then obtain r where r: "fold (reader_step s) js (s_Load (server s (MyId s)), int (MyId s)) = (s_Load (server s r), int r)"
    "r \<in> insert (MyId s) (set js)" "voter s r"
    "\<forall>j \<in> insert (MyId s) (set js). voter s j \<longrightarrow> s_Load (server s r) \<le> s_Load (server s j)" by blast
  show ?case
  proof (cases "k = MyId s \<or> \<not> is_connected (server s k) \<or> s_Load (server s r) \<le> s_Load (server s k)")
    case True
    then have "reader_step s k (s_Load (server s r), int r) = (s_Load (server s r), int r)"
      by (auto simp: reader_step_def)
    moreover have "voter s k \<longrightarrow> s_Load (server s r) \<le> s_Load (server s k)"
      using True r(4) by (auto simp: voter_def)
    ultimately show ?thesis using r by (intro exI [of _ r]) (simp, blast)
  next
    case False
    then have "reader_step s k (s_Load (server s r), int r) = (s_Load (server s k), int k)" "voter s k"
      "s_Load (server s k) < s_Load (server s r)"
      by (auto simp: reader_step_def voter_def)
    then show ?thesis using r by (intro exI [of _ k]) fastforce
  qed
qed

text \<open>
  \<open>set_reader\<close> chooses, among the server itself and the connected servers, one
  with the least load.
\<close>

theorem set_reader_takes_the_least_load:
  assumes "MyId s < p_Maximum s"
  shows "\<exists>r < p_Maximum s. EReader (set_reader E s) = int r \<and> voter (set_reader E s) r
    \<and> (\<forall>j < p_Maximum s. voter (set_reader E s) j \<longrightarrow>
         s_Load (server (set_reader E s) r) \<le> s_Load (server (set_reader E s) j))"
proof -
  let ?t = "set_srv (MyId s) (\<lambda>p. p\<lparr>s_Load := Load_of E\<rparr>) s"
  obtain r where r: "fold (reader_step ?t) [0..<p_Maximum s] (s_Load (server ?t (MyId ?t)), int (MyId ?t)) = (s_Load (server ?t r), int r)"
    "r \<in> insert (MyId ?t) (set [0..<p_Maximum s])" "voter ?t r"
    "\<forall>j \<in> insert (MyId ?t) (set [0..<p_Maximum s]). voter ?t j \<longrightarrow> s_Load (server ?t r) \<le> s_Load (server ?t j)"
    using fold_reader_step [of ?t "[0..<p_Maximum s]"] by blast
  have m: "MyId ?t = MyId s" "p_Maximum ?t = p_Maximum s" by (simp_all add: set_srv_def)
  have step: "(\<lambda>j (Load, Reader). if j = MyId ?t \<or> \<not> is_connected (server ?t j) then (Load, Reader)
              else if s_Load (server ?t j) < Load then (s_Load (server ?t j), int j) else (Load, Reader)) = reader_step ?t"
    by (auto simp: fun_eq_iff reader_step_def)
  have e: "set_reader E s = set_election (\<lambda>e. e\<lparr>e_Reader := int r\<rparr>) ?t"
    by (simp only: set_reader_def Let_def step m(2) r(1) prod.case)
  have v: "voter (set_reader E s) = voter ?t" "server (set_reader E s) = server ?t" "EReader (set_reader E s) = int r"
    by (simp_all add: e set_election_def voter_def fun_eq_iff)
  show ?thesis using r(2-4) assms unfolding v m by (intro exI [of _ r]) auto
qed

theorem set_reader_takes_the_least_load_witness: "EReader (set_reader ex_env ex_voting) = 1"
proof -
  have m: "MyId ex_voting < p_Maximum ex_voting" "p_Maximum ex_voting = 3" by code_simp+
  let ?t = "set_reader ex_env ex_voting"
  have v: "voter ?t 1" "\<not> voter ?t 2" "s_Load (server ?t 0) = -1" "s_Load (server ?t 1) = -5" by code_simp+
  obtain r where r: "r < 3" "EReader ?t = int r" "voter ?t r"
    "\<forall>j < 3. voter ?t j \<longrightarrow> s_Load (server ?t r) \<le> s_Load (server ?t j)"
    using set_reader_takes_the_least_load [OF m(1), of ex_env] m(2) by auto
  have "s_Load (server ?t r) \<le> -5" using r(4) [rule_format, of 1] v by simp
  moreover have "r = 0 \<or> r = 1 \<or> r = 2" using r(1) by linarith
  ultimately have "r = 1" using v r(3) by auto
  then show ?thesis using r(2) by simp
qed

end
