(* ===== verification/Paxos_Snapshot.thy ===== *)
theory Paxos_Snapshot
  imports Paxos_Progress
begin

text \<open>
  Snapshots of a server, and the bounds that hold in every state it reaches.
\<close>

section \<open>Snapshots\<close>

lemma read_gaps_all:
  "read_gaps (length gs) (map IOGap gs @ rest) s =
     Some (s\<lparr>p_Gaps := u32_table.put_all (p_Gaps s) (map (\<lambda>g. (g_Seq g, g)) gs)\<rparr>, rest)"
  by (induction gs arbitrary: s) simp_all

lemma read_outofband_all: "read_outofband (length bs) (map IOOutOfBand bs @ rest) = Some (bs, rest)"
  by (induction bs) simp_all

lemma gap_items:
  assumes g: "gaps_ok s n" and kv: "kv \<in> set (concat (h_aHeads (p_Gaps s)))"
  shows "g_Seq (snd kv) = ucast (fst kv)"
proof -
  have t: "int_table (p_Gaps s)" using g by (simp add: gaps_ok_def)
  have "snd kv \<in> set (hash_queue (p_Gaps s) (UINT32_PNT (ucast (fst kv))))"
    unfolding hash_queue_concat [OF t] using kv by auto
  then show ?thesis using g by (auto simp: gaps_ok_def gap_of_def)
qed

lemma put_all_gaps:
  assumes g: "gaps_ok s n" and h: "int_table h" "\<And>u. hash_queue h (UINT32_PNT u) = []"
    and h': "h' = u32_table.put_all h (map (\<lambda>g. (g_Seq g, g)) (map snd (concat (h_aHeads (p_Gaps s)))))"
  shows "int_table h' \<and> hash_queue h' (UINT32_PNT u) = hash_queue (p_Gaps s) (UINT32_PNT u)"
proof -
  let ?items = "concat (h_aHeads (p_Gaps s))"
  have "map snd (filter (\<lambda>kv. fst kv = u) (map (\<lambda>g. (g_Seq g, g)) (map snd ?items))) =
      map snd (filter (\<lambda>kv. g_Seq (snd kv) = u) ?items)"
    by (simp add: filter_map comp_def)
  also have "filter (\<lambda>kv. g_Seq (snd kv) = u) ?items = filter (\<lambda>kv. ucast (fst kv) = u) ?items"
    using gap_items [OF g] by (intro filter_cong) simp_all
  also have "map snd (filter (\<lambda>kv. ucast (fst kv) = u) ?items) = hash_queue (p_Gaps s) (UINT32_PNT u)"
    using hash_queue_concat [of "p_Gaps s" u] g by (simp add: gaps_ok_def)
  finally show ?thesis
    using u32_table.put_all_queue [OF h(1), of "map (\<lambda>g. (g_Seq g, g)) (map snd ?items)" u] h(2) by (simp add: h')
qed

definition validated :: "Paxos_t \<Rightarrow> nat list" where
  "validated s = filter (\<lambda>k. v_Flags (RndValue s k) AND VALUE_VALIDATE \<noteq> 0) [0..<10]"

lemma Unmarshal_Marshal:
  assumes g: "gaps_ok s n"
  shows "PaxosUnmarshal (PaxosMarshal f s @ rest) t0 = Some (map (\<lambda>k. f (c_opaque (MetaCmdRnd s k))) (validated s),
    t0\<lparr>p_Multi := p_Multi s, p_NextDecide := NextDecide s, p_BackPage := Page s,
       p_Gaps := u32_table.put_all (p_Gaps t0) (map (\<lambda>g. (g_Seq g, g)) (map snd (concat (h_aHeads (p_Gaps s)))))\<rparr>, rest)"
proof -
  let ?items = "concat (h_aHeads (p_Gaps s))" and ?bs = "map (\<lambda>k. f (c_opaque (MetaCmdRnd s k))) (validated s)"
  let ?t = "t0\<lparr>p_Multi := p_Multi s, p_NextDecide := NextDecide s, p_BackPage := Page s\<rparr>"
  have c: "nat (h_Count (p_Gaps s)) = length ?items"
    using g by (simp add: gaps_ok_def int_table_def hash_size_def length_concat)
  have m: "PaxosMarshal f s @ rest = IOPaxos s # map IOOutOfBand ?bs @ IOCount (h_Count (p_Gaps s)) # map IOGap (map snd ?items) @ rest"
    by (simp add: PaxosMarshal_def validated_def comp_def)
  have v: "filter (\<lambda>k. v_Flags (RndValue ?t k) AND VALUE_VALIDATE \<noteq> 0) [0..<10] = validated s"
    by (simp add: validated_def)
  have o: "read_outofband (length (validated s)) (map IOOutOfBand ?bs @ r) = Some (?bs, r)" for r
    using read_outofband_all [of ?bs r] by simp
  have gs: "read_gaps (length ?items) (map IOGap (map snd ?items) @ rest) ?t = Some
      (?t\<lparr>p_Gaps := u32_table.put_all (p_Gaps ?t) (map (\<lambda>g. (g_Seq g, g)) (map snd ?items))\<rparr>, rest)"
    using read_gaps_all [of "map snd ?items" rest ?t] by (simp only: length_map)
  have e: "t0\<lparr>p_Multi := p_Multi s, p_NextDecide := NextDecide s, p_BackPage := Page (t0\<lparr>p_Multi := p_Multi s, p_NextDecide := NextDecide s\<rparr>)\<rparr> = ?t"
    by simp
  show ?thesis
    unfolding m PaxosUnmarshal_def Let_def list.case io.case e v o Option.bind.bind_lunit prod.case c gs
    by simp
qed

text \<open>A start that keeps the numbers leaves what was executed and what is pending.\<close>

lemma PaxosStart_keeps_log:
  assumes "mode \<noteq> PAXOS_SEQ"
  shows "exec_inv n (PaxosStart ok mode nd t) = exec_inv n t"
proof -
  define u where "u = PaxosStart ok mode nd t"
  have u: "p_Multi u = p_Multi t" "p_NextDecide u = p_NextDecide t" "p_Gaps u = p_Gaps t" "p_Fx u = p_Fx t" "p_MyId u = p_MyId t"
    using assms by (simp_all add: u_def PaxosStart_def Let_def)
  then have p: "pending u = pending t" "gap_of u = gap_of t" by (simp_all add: pending_def gap_of_def fun_eq_iff)
  have "executed u = executed t" by (simp add: executed_def u)
  then show ?thesis unfolding u_def [symmetric] exec_inv_def log_ok_def exec_at_def gaps_ok_def by (simp add: u p)
qed

text \<open>
  C12: A snapshot of any state a server reaches can be read back into a freshly initialised server:
  the page, the next number, every entry of the table of gaps and the out-of-band data of the
  validated commands are recovered and what follows in the stream is left. Once the restored server
  is started in a mode that keeps its numbers (\<open>PAXOS_NO_SEQ\<close> or \<open>PAXOS_WAIT\<close>), whatever
  it does, it executes the numbers from the snapshot's next one, in order, without gap or repetition;
  and a success for the next number, validated and with commands that fit, is executed.
\<close>

theorem snapshot_continues:
  assumes "PaxosInitUsec E Ident core ext cell usec ck = Some s0" and "reachable (PaxosStart ok mode nextDecide s0) s"
    and "PaxosInitUsec E' Ident' core' ext' cell' usec' ck' = Some t0"
  shows "\<exists>bs t. PaxosUnmarshal (PaxosMarshal f s @ rest) t0 = Some (bs, t, rest)
    \<and> bs = map (\<lambda>k. f (c_opaque (MetaCmdRnd s k))) (validated s)
    \<and> p_Multi t = p_Multi s \<and> NextDecide t = NextDecide s
    \<and> (\<forall>u. fst (HashGet (p_Gaps t) (UINT32_PNT u)) = fst (HashGet (p_Gaps s) (UINT32_PNT u)))
    \<and> (\<forall>ok' mode' nd t'. mode' \<noteq> PAXOS_SEQ \<longrightarrow> reachable (PaxosStart ok' mode' nd t) t' \<longrightarrow>
         executed t' = map (\<lambda>i. NextDecide s + of_nat i) [0..<length (executed t')]
         \<and> NextDecide t' = NextDecide s + of_nat (length (executed t'))
         \<and> (\<forall>E fr j pS k. success_due E t' fr j pS k \<longrightarrow>
              (\<exists>t''. RecvSuccess E fr pS t' = Some t'' \<and> executed t'' = executed t' @ map (Seq t') (k # run t' (Suc k)))))"
proof -
  obtain n where n: "n < 10" "exec_at s n" using reachable_exec_inv [OF assms(1,2)] by (auto simp: exec_inv_def)
  have g: "gaps_ok s n" using n by (simp add: exec_at_def)
  define h where "h = u32_table.put_all (p_Gaps t0) (map (\<lambda>g. (g_Seq g, g)) (map snd (concat (h_aHeads (p_Gaps s)))))"
  define t where "t = t0\<lparr>p_Multi := p_Multi s, p_NextDecide := NextDecide s, p_BackPage := Page s, p_Gaps := h\<rparr>"
  have t0: "p_Gaps t0 = HashInit 11 HashCode_INT HashCompare_INT" "p_Fx t0 = []"
    using assms(3) by (auto simp: PaxosInitUsec_def split: if_splits)
  have "int_table (p_Gaps t0)" "\<And>u. hash_queue (p_Gaps t0) (UINT32_PNT u) = []"
    unfolding t0 by (simp_all add: int_table_Init hash_queue_Init)
  note h = put_all_gaps [OF g this h_def]
  have pend: "pending t = pending s" "gap_of t = gap_of s"
    by (simp_all add: t_def pending_def gap_of_def fun_eq_iff)
  have "gaps_ok t n" using g h unfolding gaps_ok_def pend by (simp add: t_def)
  then have at: "exec_at t n" using n(2) unfolding exec_at_def pend by (simp add: t_def)
  have "log_ok (NextDecide s) t" by (simp add: log_ok_def t_def executed_def t0 List.map_filter_def)
  then have inv: "exec_inv (NextDecide s) t" using at n(1) by (auto simp: exec_inv_def)
  have run: "exec_inv (NextDecide s) t'" if "mode' \<noteq> PAXOS_SEQ" "reachable (PaxosStart ok' mode' nd t) t'" for ok' mode' nd t'
  proof -
    have "exec_inv (NextDecide s) (PaxosStart ok' mode' nd t)"
      using inv that(1) by (simp add: PaxosStart_keeps_log)
    then show ?thesis using evolve_reachable [OF that(2)] unfolding evolve_def by blast
  qed
  have due: "\<exists>t''. RecvSuccess E fr pS t' = Some t'' \<and> executed t'' = executed t' @ map (Seq t') (k # run t' (Suc k))"
    if "exec_inv (NextDecide s) t'" "success_due E t' fr j pS k" for E t' fr j pS k
    using RecvSuccess_executes [OF that] by blast
  have get: "fst (HashGet (p_Gaps t) (UINT32_PNT u)) = fst (HashGet (p_Gaps s) (UINT32_PNT u))" for u
    using h by (simp add: HashGet_value t_def)
  have "PaxosUnmarshal (PaxosMarshal f s @ rest) t0 = Some (map (\<lambda>k. f (c_opaque (MetaCmdRnd s k))) (validated s), t, rest)"
    unfolding t_def h_def by (rule Unmarshal_Marshal [OF g])
  moreover have "p_Multi t = p_Multi s" "NextDecide t = NextDecide s" by (simp_all add: t_def)
  moreover have "\<forall>ok' mode' nd t'. mode' \<noteq> PAXOS_SEQ \<longrightarrow> reachable (PaxosStart ok' mode' nd t) t' \<longrightarrow>
         executed t' = map (\<lambda>i. NextDecide s + of_nat i) [0..<length (executed t')]
         \<and> NextDecide t' = NextDecide s + of_nat (length (executed t'))
         \<and> (\<forall>E fr j pS k. success_due E t' fr j pS k \<longrightarrow>
              (\<exists>t''. RecvSuccess E fr pS t' = Some t'' \<and> executed t'' = executed t' @ map (Seq t') (k # run t' (Suc k))))"
    (is "\<forall>ok' mode' nd t'. _ \<longrightarrow> _ \<longrightarrow> ?log t' \<and> ?next t' \<and> ?due t'")
  proof (intro allI impI)
    fix ok' mode' nd t' assume "mode' \<noteq> PAXOS_SEQ" "reachable (PaxosStart ok' mode' nd t) t'"
    then have i: "exec_inv (NextDecide s) t'" by (rule run)
    then have "?log t' \<and> ?next t'" unfolding exec_inv_def log_ok_def by blast
    with due [OF i] show "?log t' \<and> ?next t' \<and> ?due t'" by blast
  qed
  ultimately show ?thesis using get by blast
qed

text \<open>The third server restored from the snapshot of the one that is ahead.\<close>

definition ex_restored :: Paxos_t where
  "ex_restored = (case PaxosUnmarshal (PaxosMarshal id ex_ahead) (ex_init 3 2) of
     Some (bs, t, r) \<Rightarrow> PaxosStart True PAXOS_NO_SEQ 0 t | None \<Rightarrow> ex_init 3 2)"

definition ex_catches :: "event list" where
  "ex_catches = [ex_datagram 0 2 (MSG_SUCCESS (ex_success 0 7 [9])), ReceiverPaxos]"

theorem snapshot_continues_witness:
  "\<exists>bs t t'. PaxosUnmarshal (PaxosMarshal id ex_ahead) (ex_init 3 2) = Some (bs, t, []) \<and> NextDecide t = 7
     \<and> fst (HashGet (p_Gaps t) (UINT32_PNT 8)) = fst (HashGet (p_Gaps ex_ahead) (UINT32_PNT 8))
     \<and> reachable (PaxosStart True PAXOS_NO_SEQ 0 t) t' \<and> executed t' = [7, 8] \<and> NextDecide t' = 9"
proof -
  have "map_option (\<lambda>s. length (executed s)) (run_events ex_env ex_catches ex_restored) = Some 2" by code_simp
  then obtain t' where t': "run_events ex_env ex_catches ex_restored = Some t'" "length (executed t') = 2" by auto
  note r = run_events_reachable [OF t'(1)]
  from snapshot_continues [OF ex_init_ok ex_ahead_reachable ex_init_ok [of 2 3], of id "[]", unfolded append_Nil2] obtain bs t where
    t: "PaxosUnmarshal (PaxosMarshal id ex_ahead) (ex_init 3 2) = Some (bs, t, [])" "NextDecide t = NextDecide ex_ahead"
      "fst (HashGet (p_Gaps t) (UINT32_PNT 8)) = fst (HashGet (p_Gaps ex_ahead) (UINT32_PNT 8))"
    and go: "reachable (PaxosStart True PAXOS_NO_SEQ 0 t) t' \<Longrightarrow>
      executed t' = map (\<lambda>i. NextDecide ex_ahead + of_nat i) [0..<length (executed t')]
        \<and> NextDecide t' = NextDecide ex_ahead + of_nat (length (executed t'))"
    by (elim exE conjE, intro that) (assumption, assumption, erule spec, blast)
  have "ex_restored = PaxosStart True PAXOS_NO_SEQ 0 t" by (simp add: ex_restored_def t(1))
  then have "reachable (PaxosStart True PAXOS_NO_SEQ 0 t) t'" using r by simp
  with go t t'(2) show ?thesis by (auto simp: ex_ahead_state numeral_2_eq_2)
qed

text \<open>
  Started with \<open>PAXOS_SEQ\<close> at the number of its snapshot, as \<open>PaxosAcceptorStartSync\<close> does with this mode
  after it has read one, the restored server counts only the instances before that number as
  successes and forgets the decided ones behind it. They are not counted again when they are
  executed as gaps, so the count does not reach the size of the page, whose end is not noticed.
\<close>

lemma start_in_sequence_forgets_successes:
  assumes "exec_inv start s" and "p_Multi t = p_Multi s" and "TO_PAGE (NextDecide s) = Page s"
  shows "SuccessCount (PaxosStart ok PAXOS_SEQ (NextDecide s) t) = TO_K (NextDecide s)
    \<and> PMode (PaxosStart ok PAXOS_SEQ (NextDecide s) t) = PMode s
    \<and> SuccessCount s = TO_K (NextDecide s) + card {k. TO_K (NextDecide s) < k \<and> k < 10 \<and> PMode s k = MODE_DECIDED}"
proof -
  obtain n where n: "n < 10" "exec_at s n" using assms(1) by (auto simp: exec_inv_def)
  have k: "TO_K (NextDecide s) = n"
    using TO_SEQ_TO_PAGE [of "NextDecide s"] TO_SEQ_inject [of "TO_K (NextDecide s)" n "Page s"] TO_K_less [of "NextDecide s"] n assms(3)
    by (simp add: exec_at_def)
  have "set (pending s n) = {k. n < k \<and> k < 10 \<and> PMode s k = MODE_DECIDED}"
    using n by (auto simp: in_pending exec_at_def le_less)
  then have "length (pending s n) = card {k. n < k \<and> k < 10 \<and> PMode s k = MODE_DECIDED}"
    using distinct_card [OF distinct_pending, of s n] by simp
  then have "SuccessCount s = n + card {k. n < k \<and> k < 10 \<and> PMode s k = MODE_DECIDED}" using n by (simp add: exec_at_def)
  then show ?thesis unfolding k by (simp add: PaxosStart_def Let_def k set_multi_def assms(2))
qed

text \<open>The items of the table of gaps are the pending instances, each once.\<close>

lemma distinct_keys:
  assumes "\<And>u. length (filter (\<lambda>x. f x = u) xs) \<le> 1"
  shows "distinct (map f xs)"
  using assms
proof (induction xs)
  case (Cons x xs)
  have "length (filter (\<lambda>y. f y = u) xs) \<le> 1" for u using Cons.prems [of u] by (simp split: if_splits)
  moreover have "filter (\<lambda>y. f y = f x) xs = []" using Cons.prems [of "f x"] by simp
  then have "f x \<notin> f ` set xs" by (auto simp: filter_empty_conv)
  ultimately show ?case using Cons.IH by simp
qed simp

lemma pending_single: "length (filter (\<lambda>k. Seq s k = u) (pending s n)) \<le> 1"
proof -
  have "distinct (map (Seq s) (pending s n))"
    using TO_SEQ_inject by (auto simp: distinct_map distinct_pending inj_on_def in_pending)
  then have "distinct (filter (\<lambda>q. q = u) (map (Seq s) (pending s n)))" by (rule distinct_filter)
  then have d: "distinct (map (Seq s) (filter (\<lambda>k. Seq s k = u) (pending s n)))" by (simp add: filter_map comp_def)
  have "set (map (Seq s) (filter (\<lambda>k. Seq s k = u) (pending s n))) \<subseteq> {u}" by auto
  then have "card (set (map (Seq s) (filter (\<lambda>k. Seq s k = u) (pending s n)))) \<le> 1"
    using card_mono [of "{u}"] by fastforce
  then show ?thesis using distinct_card [OF d] by simp
qed

lemma gaps_count:
  assumes g: "gaps_ok s n"
  shows "length (concat (h_aHeads (p_Gaps s))) \<le> length (pending s n)"
proof -
  let ?items = "concat (h_aHeads (p_Gaps s))"
  have t: "int_table (p_Gaps s)" using g by (simp add: gaps_ok_def)
  have q: "map snd (filter (\<lambda>kv. ucast (fst kv) = u) ?items) = map (gap_of s) (filter (\<lambda>k. Seq s k = u) (pending s n))" for u
    using g hash_queue_concat [OF t, of u] by (simp add: gaps_ok_def)
  have "length (filter (\<lambda>kv. (ucast (fst kv) :: u32) = u) ?items) \<le> 1" for u
    using arg_cong [OF q [of u], of length] pending_single [of s u n] by simp
  then have d: "distinct (map (\<lambda>kv. ucast (fst kv) :: u32) ?items)" by (rule distinct_keys)
  have "set (map (\<lambda>kv. ucast (fst kv) :: u32) ?items) \<subseteq> set (map (Seq s) (pending s n))"
  proof
    fix u assume "u \<in> set (map (\<lambda>kv. ucast (fst kv) :: u32) ?items)"
    then have "filter (\<lambda>kv. (ucast (fst kv) :: u32) = u) ?items \<noteq> []" by (auto simp: filter_empty_conv)
    then have "filter (\<lambda>k. Seq s k = u) (pending s n) \<noteq> []" using q [of u] by (metis Nil_is_map_conv)
    then show "u \<in> set (map (Seq s) (pending s n))" by (auto simp: filter_empty_conv)
  qed
  then have "card (set (map (\<lambda>kv. ucast (fst kv) :: u32) ?items)) \<le> card (set (map (Seq s) (pending s n)))"
    by (intro card_mono) simp_all
  also have "\<dots> \<le> length (pending s n)" using card_length [of "map (Seq s) (pending s n)"] by simp
  finally show ?thesis using distinct_card [OF d] by simp
qed

text \<open>
  C36: In every state a server reaches its identity and the sizes of the cell are what they were
  initialised to, fewer than ten instances of the page have succeeded, and the table of gaps is a
  well-formed hash table whose count is at most the successes of the page.
\<close>

theorem reachable_states_are_typed:
  assumes "PaxosInitUsec E Ident core ext cell usec ck = Some s0" and "reachable (PaxosStart ok mode nextDecide s0) s"
  shows "p_MyId s = Ident \<and> p_Max s = core \<and> p_Maximum s = core + ext
    \<and> SuccessCount s < 10 \<and> int_table (p_Gaps s)
    \<and> 0 \<le> HashCount (p_Gaps s) \<and> HashCount (p_Gaps s) \<le> int (SuccessCount s)"
proof -
  note inv = reachable_exec_inv [OF assms]
  then obtain n where n: "n < 10" "exec_at s n" by (auto simp: exec_inv_def)
  have g: "gaps_ok s n" and sc: "SuccessCount s = n + length (pending s n)" using n by (simp_all add: exec_at_def)
  have t: "int_table (p_Gaps s)" using g by (simp add: gaps_ok_def)
  have "HashCount (p_Gaps s) = int (length (concat (h_aHeads (p_Gaps s))))"
    using t by (simp add: HashCount_def int_table_def hash_size_def length_concat)
  then have h: "0 \<le> HashCount (p_Gaps s)" "HashCount (p_Gaps s) \<le> int (SuccessCount s)"
    using gaps_count [OF g] sc by simp_all
  have "SuccessCount s < 10" using exec_at_10 [OF n(2)] n(1) by linarith
  moreover have "same_config (PaxosStart ok mode nextDecide s0) s"
    using evolve_reachable [OF assms(2)] started_exec_inv [OF assms(1)] unfolding evolve_def by blast
  moreover have "p_MyId (PaxosStart ok mode nextDecide s0) = Ident" "p_Max (PaxosStart ok mode nextDecide s0) = core"
    "p_Maximum (PaxosStart ok mode nextDecide s0) = core + ext"
    using assms(1) by (auto simp: PaxosInitUsec_def PaxosStart_def Let_def set_multi_def split: if_splits)
  ultimately show ?thesis using t h by (simp add: same_config_def)
qed

theorem reachable_states_are_typed_witness: "p_Max ex_ahead = 3 \<and> HashCount (p_Gaps ex_ahead) < 10"
  using reachable_states_are_typed [OF ex_init_ok ex_ahead_reachable] by simp

end
