(* ===== verification/Paxos_Messages.thy ===== *)
theory Paxos_Messages
  imports Paxos_Progress
begin

text \<open>
  The dispatch of messages and their seals.
\<close>

section \<open>The dispatch table\<close>

text \<open>The messages that have a handler.\<close>

fun handled :: "msg_body \<Rightarrow> bool" where
  "handled MSG_CONTROL_STOP = False"
| "handled MSG_HIGH_WATER = False"
| "handled MSG_HIGH_WATER_ACK = False"
| "handled MSG_LOW_WATER = False"
| "handled MSG_LOW_WATER_ACK = False"
| "handled MSG_LOCK = False"
| "handled MSG_UNLOCK = False"
| "handled MSG_LOG_DUMP = False"
| "handled _ = True"

lemma dispatch_unhandled: "\<not> handled b \<Longrightarrow> dispatch E pm b s = None"
  by (cases b) simp_all

text \<open>
  A message whose entry in the dispatch table is \<open>NULL\<close> kills the process: at the
  dispatch for all of them, at its receipt for the control stop, and when the receiver thread
  takes it from its queue for the water marks.
\<close>

theorem unhandled_messages_kill:
  "(\<not> handled b \<longrightarrow> dispatch E pm b s = None)
   \<and> (p_Active s \<and> \<not> p_RecvStop s 2 \<and> m_cksum64 pm = 0 \<and> m_body pm = MSG_CONTROL_STOP \<longrightarrow> PaxosRecvHandler E pm s = None)
   \<and> (p_Active s \<and> QueueTimedWait (p_QueuePaxos s) [] = Some (err, Some pm, q) \<and> \<not> handled (m_body pm) \<longrightarrow>
        ThreadReceiverPaxos E s = None)"
  using dispatch_unhandled [of b E pm s] dispatch_unhandled [of "m_body pm" E pm "s\<lparr>p_QueuePaxos := q\<rparr>"]
  by (simp add: PaxosRecvHandler_def ThreadReceiverPaxos_def)

theorem unhandled_messages_kill_witness:
  "PaxosRecvHandler ex_env \<lparr>m_fr = 0, m_to = 1, m_From = addr_zero, m_cksum64 = 0, m_body = MSG_CONTROL_STOP\<rparr> (ex_node 3 1 7) = None"
proof -
  have "p_Active (ex_node 3 1 7)" "\<not> p_RecvStop (ex_node 3 1 7) 2" by code_simp+
  then show ?thesis using unhandled_messages_kill [of MSG_CONTROL_STOP ex_env] by simp
qed

text \<open>The bytes of a number, least significant first, and a message that consists of its checksum.\<close>

section \<open>Seals\<close>

text \<open>
  A message that is sealed by its sender passes the check of the receiver: if the checksum
  occupies an aligned field of eight bytes in the image of the message, the seal changes nothing
  else of it, and the receiver does not fail its assertion and does not change its page.
\<close>

theorem sealed_message_is_accepted:
  assumes "\<And>c. e_image E (pm\<lparr>m_cksum64 := c\<rparr>) = xs @ fld c @ ys"
    and "\<And>c. length (fld c) = 8 \<and> le64 (fld c) = c" and "fld 0 = replicate 8 0" and "length xs mod 8 = 0"
    and "m_body pm \<noteq> MSG_CONTROL_STOP"
  shows "m_body (seal E s pm) = m_body pm \<and> m_fr (seal E s pm) = m_fr pm \<and> m_to (seal E s pm) = m_to pm
    \<and> (\<exists>r'. PaxosRecvHandler E (seal E s pm) r = Some r' \<and> p_Multi r' = p_Multi r)"
proof -
  have body: "m_body (seal E s pm) = m_body pm" "m_fr (seal E s pm) = m_fr pm" "m_to (seal E s pm) = m_to pm"
    by (simp_all add: seal_def Let_def)
  have "in_cksum64 (e_image E (seal E s pm)) 0 = Some 0" if "m_cksum64 (seal E s pm) \<noteq> 0"
  proof -
    define c where "c = the (in_cksum64 (e_image E (pm\<lparr>m_cksum64 := 0\<rparr>)) 0)"
    have "in_cksum64 (e_image E (pm\<lparr>m_cksum64 := 0\<rparr>)) 0 = Some c"
      using in_sum64_total [of 0 "e_image E (pm\<lparr>m_cksum64 := 0\<rparr>)"] by (auto simp: c_def in_cksum64_def)
    then have "in_cksum64 (xs @ replicate 8 0 @ ys) 0 = Some c" unfolding assms(1) assms(3) .
    then have "in_cksum64 (xs @ fld c @ ys) 0 = Some 0"
      by (rule cksum64_sealed) (simp_all add: assms(2,4))
    moreover have "seal E s pm = pm\<lparr>m_cksum64 := c\<rparr>" using that by (simp add: seal_def Let_def c_def split: if_splits)
    ultimately show ?thesis using assms(1) [of c] by simp
  qed
  then have "\<exists>r'. PaxosRecvHandler E (seal E s pm) r = Some r' \<and> p_Multi r' = p_Multi r"
    using assms(5) by (cases "m_body pm")
      (simp_all add: PaxosRecvHandler_def ASSERT_def body server_receive_dump_def server_receive_control_start_def emit_def)
  then show ?thesis using body by simp
qed

fun le_bytes :: "nat \<Rightarrow> u64 \<Rightarrow> u8 list" where
  "le_bytes 0 c = []"
| "le_bytes (Suc n) c = ucast c # le_bytes n (drop_bit 8 c)"

lemma le_bytes_props: "length (le_bytes n c) = n" "le64 (le_bytes n c) = take_bit (8 * n) c"
proof -
  show "length (le_bytes n c) = n" by (induction n arbitrary: c) simp_all
  show "le64 (le_bytes n c) = take_bit (8 * n) c"
  proof (induction n arbitrary: c)
    case (Suc n)
    have "ucast (ucast c :: u8) = (take_bit 8 c :: u64)" by (rule bit_word_eqI) (auto simp: bit_simps)
    moreover have "256 * take_bit (8 * n) (drop_bit 8 c) = push_bit 8 (take_bit (8 * n) (drop_bit 8 c))"
      by (simp add: push_bit_eq_mult)
    moreover have "take_bit 8 c + push_bit 8 (take_bit (8 * n) (drop_bit 8 c)) = take_bit (8 * n + 8) c"
      by (subst disjunctive_add) (auto simp: bit_simps intro!: bit_word_eqI)
    ultimately show ?case using Suc by (simp add: add.commute)
  qed simp
qed

theorem sealed_message_is_accepted_witness:
  "\<exists>r'. PaxosRecvHandler (ex_env\<lparr>e_image := (\<lambda>pm. le_bytes 8 (m_cksum64 pm) @ [1, 2, 3])\<rparr>)
     (seal (ex_env\<lparr>e_image := (\<lambda>pm. le_bytes 8 (m_cksum64 pm) @ [1, 2, 3])\<rparr>) ((ex_node 3 0 7)\<lparr>p_bCksum := True\<rparr>)
       (msg_alloc (ex_node 3 0 7) 1 MSG_BIRTH)) (ex_node 3 1 7) = Some r' \<and> p_Multi r' = p_Multi (ex_node 3 1 7)"
proof -
  have b: "take_bit 64 (c :: u64) = c" for c by (rule bit_word_eqI) (auto simp: bit_simps)
  have z: "le_bytes 8 0 = replicate 8 0" by code_simp
  show ?thesis
    using sealed_message_is_accepted [where E = "ex_env\<lparr>e_image := (\<lambda>pm. le_bytes 8 (m_cksum64 pm) @ [1, 2, 3])\<rparr>"
      and pm = "msg_alloc (ex_node 3 0 7) 1 MSG_BIRTH" and xs = "[]" and fld = "le_bytes 8" and ys = "[1, 2, 3]"]
    by (simp add: le_bytes_props b z msg_alloc_def)
qed

end
