(* ===== verification/Gadget_Properties.thy ===== *)
theory Gadget_Properties
  imports Gadget_Base Gadget_Hash Gadget_Cksum
begin

text \<open>
  What the Paxos library relies on of its foundation: queues, the hash table and the checksums.
\<close>

section \<open>Queues\<close>

text \<open>
  A wait queue is a bounded queue: a post to a full queue is refused and counted and otherwise
  appends, the number of entries never passes the bound, a wait takes the oldest entry, or returns
  the abort code, or goes on waiting when the queue is empty or suspended, and the count stays the
  number of entries.
\<close>

theorem queue_is_a_bounded_fifo:
  assumes "queue_ok ep"
  shows "QueuePost ep x = (if q_max ep \<noteq> 0 \<and> q_max ep \<le> int (length (q_entry ep))
         then (-1, ep\<lparr>q_omitted := q_omitted ep + 1\<rparr>)
         else (0, ep\<lparr>q_entry := q_entry ep @ [x], q_cnt := q_cnt ep + 1\<rparr>))
    \<and> queue_ok (snd (QueuePost ep x))
    \<and> (q_max ep \<noteq> 0 \<and> int (length (q_entry ep)) \<le> q_max ep \<longrightarrow>
         int (length (q_entry (snd (QueuePost ep x)))) \<le> q_max ep)
    \<and> QueueTimedWait ep [] = (if q_flg ep \<or> q_entry ep = [] then (if q_abrt ep = 0 then None else Some (q_abrt ep, None, ep))
         else Some (0, Some (hd (q_entry ep)), ep\<lparr>q_entry := tl (q_entry ep), q_cnt := q_cnt ep - 1\<rparr>))
    \<and> (\<forall>err e ep'. QueueTimedWait ep [] = Some (err, e, ep') \<longrightarrow> queue_ok ep')"
proof -
  have cnt: "q_cnt ep = int (length (q_entry ep))" using assms by (simp add: queue_ok_def)
  have self: "ep\<lparr>q_waiter := q_waiter ep\<rparr> = ep" by simp
  have w: "QueueTimedWait ep [] = (if q_flg ep \<or> q_entry ep = [] then (if q_abrt ep = 0 then None else Some (q_abrt ep, None, ep))
         else Some (0, Some (hd (q_entry ep)), ep\<lparr>q_entry := tl (q_entry ep), q_cnt := q_cnt ep - 1\<rparr>))"
    by (simp add: QueueTimedWait_def QueueWaitLoop.simps self)
  have ok: "queue_ok ep'" if "QueueTimedWait ep [] = Some (err, e, ep')" for err e ep'
    using that assms unfolding w by (cases "q_entry ep") (auto simp: queue_ok_def split: if_splits)
  have post: "QueuePost ep x = (if q_max ep \<noteq> 0 \<and> q_max ep \<le> int (length (q_entry ep))
         then (-1, ep\<lparr>q_omitted := q_omitted ep + 1\<rparr>)
         else (0, ep\<lparr>q_entry := q_entry ep @ [x], q_cnt := q_cnt ep + 1\<rparr>))"
    by (simp only: QueuePost_def cnt)
  have bound: "int (length (q_entry (snd (QueuePost ep x)))) \<le> q_max ep"
    if "q_max ep \<noteq> 0" "int (length (q_entry ep)) \<le> q_max ep"
    unfolding post using that by simp
  show ?thesis using post queue_ok_Post [OF assms] bound w ok by blast
qed

theorem queue_is_a_bounded_fifo_witness:
  "q_entry (snd (QueuePost (QueueMax QueueInit 1) True)) = [True]"
proof -
  have "queue_ok (QueueMax QueueInit 1 :: bool Queue)" by (simp add: queue_ok_def QueueMax_def QueueInit_def)
  from queue_is_a_bounded_fifo [OF this, of True] show ?thesis by (simp add: QueueMax_def QueueInit_def)
qed

section \<open>The table of gaps\<close>

definition queues :: "(u64, 'v) Hash \<Rightarrow> u32 \<Rightarrow> 'v list" where
  "queues h = (\<lambda>u. hash_queue h (UINT32_PNT u))"

text \<open>
  C27: The hash table with integer keys refines a map from keys to queues of values: put appends to
  the queue of its key, get reads the oldest value and changes nothing, remove takes the oldest
  value away, and the count is the number of the items.
\<close>

theorem hash_table_refines_queues:
  assumes "int_table h"
  shows "int_table (HashPut h (UINT32_PNT k) v) \<and> queues (HashPut h (UINT32_PNT k) v) = (queues h)(k := queues h k @ [v])
    \<and> fst (HashGet h (UINT32_PNT k)) = (case queues h k of [] \<Rightarrow> None | v # vs \<Rightarrow> Some v)
    \<and> int_table (snd (HashGet h (UINT32_PNT k))) \<and> queues (snd (HashGet h (UINT32_PNT k))) = queues h
    \<and> fst (HashRemove h (UINT32_PNT k)) = (case queues h k of [] \<Rightarrow> None | v # vs \<Rightarrow> Some v)
    \<and> int_table (snd (HashRemove h (UINT32_PNT k)))
    \<and> queues (snd (HashRemove h (UINT32_PNT k))) = (queues h)(k := tl (queues h k))
    \<and> HashCount h = int (length (concat (h_aHeads h)))"
proof -
  have "HashCount h = int (length (concat (h_aHeads h)))"
    using assms by (simp add: HashCount_def int_table_def hash_size_def length_concat)
  then show ?thesis
    using u32_table.put_ok [OF assms] u32_table.put_queue [OF assms] u32_table.get_value [OF assms] u32_table.get_ok [OF assms]
      u32_table.get_queue [OF assms] u32_table.remove_value [OF assms] u32_table.remove_ok [OF assms] u32_table.remove_queue [OF assms]
    by (simp add: queues_def)
qed

theorem hash_table_refines_queues_witness:
  "fst (HashGet (HashPut (HashInit 11 HashCode_INT HashCompare_INT) (UINT32_PNT 5) True) (UINT32_PNT 5)) = Some True"
proof -
  let ?h = "HashInit 11 HashCode_INT HashCompare_INT :: (u64, bool) Hash"
  have h: "int_table ?h" by (rule int_table_Init) simp
  note p = hash_table_refines_queues [OF h, of 5 True]
  moreover have "queues ?h 5 = []" by (simp add: queues_def hash_queue_Init)
  moreover note hash_table_refines_queues [of "HashPut ?h (UINT32_PNT 5) True" 5]
  ultimately show ?thesis by simp
qed

section \<open>Checksums\<close>

text \<open>
  C35: The checksum of a message in pieces, at any offset of a word and with disabled pieces, is
  the checksum of the bytes copied into one buffer, and the offset returned is the one after them.
\<close>

theorem scattered_checksum_is_flat:
  "r < 8 \<Longrightarrow> MsgCksum64 aVec 0 0 r =
    map_option (\<lambda>c. (c, (r + MsgTotalLen aVec) mod 8)) (in_cksum64 (MsgCopyToBuf aVec (MsgTotalLen aVec)) r)"
  by (rule MsgCksum64_flat)

theorem scattered_checksum_is_flat_witness:
  "MsgCksum64 [\<lparr>v_Disabled = False, v_Data = [1, 2, 3]\<rparr>, \<lparr>v_Disabled = True, v_Data = [7]\<rparr>, \<lparr>v_Disabled = False, v_Data = [4]\<rparr>] 0 0 5
     = map_option (\<lambda>c. (c, 1)) (in_cksum64 [1, 2, 3, 4] 5)"
  using scattered_checksum_is_flat [of 5 "[\<lparr>v_Disabled = False, v_Data = [1, 2, 3]\<rparr>, \<lparr>v_Disabled = True, v_Data = [7]\<rparr>,
    \<lparr>v_Disabled = False, v_Data = [4]\<rparr>]"]
  by (simp add: MsgTotalLen_def)

text \<open>
  Updating a checksum for a part of the data that is replaced, by one of the same length
  modulo eight, gives the checksum of the new data, unless all of it is zero.
\<close>

theorem checksum_is_updated_in_place:
  assumes "in_cksum64 (xs @ op @ ys) r = Some c" and "r < 8" and "length np mod 8 = length op mod 8"
    and "\<not> all_zero (xs @ np @ ys)"
  shows "in_cksum64_update c op ((r + length xs) mod 8) np ((r + length xs) mod 8) = in_cksum64 (xs @ np @ ys) r"
  by (rule cksum64_update_new [OF assms])

theorem checksum_is_updated_in_place_witness:
  "\<exists>c. in_cksum64 [1, 2, 3, 4] 0 = Some c \<and> in_cksum64_update c [2, 3] 1 [8, 9] 1 = in_cksum64 [1, 8, 9, 4] 0"
proof -
  obtain c where c: "in_cksum64 ([1] @ [2, 3] @ [4]) 0 = Some c"
    using in_sum64_total [of 0 "[1] @ [2, 3] @ [4]"] by (auto simp: in_cksum64_def)
  show ?thesis using checksum_is_updated_in_place [OF c, of "[8, 9]"] c by (simp add: all_zero_def)
qed

end
