(* ===== verification/Gadget_Table.thy ===== *)
theory Gadget_Table
  imports Gadget_Hash
begin

text \<open>
  Tables whose keys are compared by a function of the caller, from \<^verbatim>\<open>NWGadget/src/NWGadget.c\<close>. The
  caller's comparison may look at a part of the key only, so the entries of a table are queues of
  values for each class of equal keys.
\<close>

section \<open>Keys of a caller\<close>

definition HashCode_FN :: "('k \<Rightarrow> u32) \<Rightarrow> u32 \<Rightarrow> 'k \<Rightarrow> u32" where
  "HashCode_FN code n k = (let Key = code k in Key - (Key div n) * n)"

definition keyed_table :: "('k \<Rightarrow> u32) \<Rightarrow> ('k \<Rightarrow> 'k \<Rightarrow> int) \<Rightarrow> ('k, 'v) Hash \<Rightarrow> bool" where
  "keyed_table code cmp h \<longleftrightarrow> h_fHashCode h = HashCode_FN code \<and> h_fCompare h = cmp \<and>
     h_N h \<noteq> 0 \<and> length (h_aHeads h) = unat (h_N h) \<and> chained h"

lemma HashCode_FN_mod: "HashCode_FN code n k = code k mod n"
  by (simp add: HashCode_FN_def Let_def minus_div_mult_eq_mod)

lemma keyed_table_Init:
  "n \<noteq> 0 \<Longrightarrow> keyed_table code cmp (HashInit n (HashCode_FN code) cmp)"
  by (simp add: keyed_table_def HashInit_def chained_def)

lemma keyed_queue_Init:
  "n \<noteq> 0 \<Longrightarrow> hash_queue (HashInit n (HashCode_FN code) cmp) k = []"
  by (simp add: hash_queue_def HashInit_def HashCode_def HashCode_FN_mod unat_mod unat_gt_0)

lemma keyed_table_Get: "keyed_table code cmp h \<Longrightarrow> keyed_table code cmp (snd (HashGetItem h k))"
  by (simp add: HashGetItem_def keyed_table_def Let_def split: option.splits)

lemma HashRemoveItem_heads:
  "h_fHashCode (snd (HashRemoveItem h (Some (i, p)))) = h_fHashCode h"
  "h_fCompare (snd (HashRemoveItem h (Some (i, p)))) = h_fCompare h"
  "h_N (snd (HashRemoveItem h (Some (i, p)))) = h_N h"
  "h_aHeads (snd (HashRemoveItem h (Some (i, p)))) = (h_aHeads h)[i := drop_nth p (h_aHeads h ! i)]"
  by (simp_all add: HashRemoveItem_def)

lemma HashGetItem_fields:
  "h_fHashCode (snd (HashGetItem h k)) = h_fHashCode h"
  "h_fCompare (snd (HashGetItem h k)) = h_fCompare h" "h_N (snd (HashGetItem h k)) = h_N h"
  by (simp_all add: HashGetItem_def Let_def split: option.splits)

lemma HashPut_fields:
  "h_fHashCode (HashPut h k v) = h_fHashCode h" "h_fCompare (HashPut h k v) = h_fCompare h"
  "h_N (HashPut h k v) = h_N h"
  "h_aHeads (HashPut h k v) = (h_aHeads h)[HashCode h k := h_aHeads h ! HashCode h k @ [(k, v)]]"
  by (simp_all add: HashPut_def Let_def)

text \<open>The comparison is an equivalence that the hash code respects.\<close>

locale key_kind =
  fixes code :: "'k \<Rightarrow> u32" and cmp :: "'k \<Rightarrow> 'k \<Rightarrow> int"
  assumes cmp_refl: "cmp a a = 0"
    and cmp_sym: "cmp a b = 0 \<Longrightarrow> cmp b a = 0"
    and cmp_trans: "cmp a b = 0 \<Longrightarrow> cmp b c = 0 \<Longrightarrow> cmp a c = 0"
    and cmp_code: "cmp a b = 0 \<Longrightarrow> code a = code b"
begin

lemma same_chain: "keyed_table code cmp h \<Longrightarrow> cmp a b = 0 \<Longrightarrow> HashCode h a = HashCode h b"
  using cmp_code [of a b] by (simp add: keyed_table_def HashCode_def HashCode_FN_mod)

lemma bound: "keyed_table code cmp h \<Longrightarrow> HashCode h k < length (h_aHeads h)"
  by (simp add: keyed_table_def HashCode_def HashCode_FN_mod unat_mod unat_gt_0)

lemma cmp_cong: "cmp a b = 0 \<Longrightarrow> (cmp k a = 0) = (cmp k b = 0)"
  using cmp_trans [of k a b] cmp_trans [of k b a] cmp_sym [of a b] by blast

lemma queue_same: "keyed_table code cmp h \<Longrightarrow> cmp a b = 0 \<Longrightarrow> hash_queue h a = hash_queue h b"
  using same_chain [of h a b] cmp_cong [of a b] by (simp add: hash_queue_def keyed_table_def)

lemma put_ok: "keyed_table code cmp h \<Longrightarrow> keyed_table code cmp (HashPut h k v)"
  using chained_Put [of h k v] by (simp add: keyed_table_def HashPut_fields)

lemma put_queue:
  assumes h: "keyed_table code cmp h"
  shows "hash_queue (HashPut h k v) k' = hash_queue h k' @ (if cmp k k' = 0 then [v] else [])"
proof -
  have code: "HashCode (HashPut h k v) = HashCode h" by (rule HashCode_cong) (simp_all add: HashPut_fields)
  have "h_aHeads (HashPut h k v) ! HashCode h k' =
      h_aHeads h ! HashCode h k' @ (if HashCode h k' = HashCode h k then [(k, v)] else [])"
    using bound [OF h, of k] by (simp add: HashPut_fields nth_list_update)
  moreover have "h_fCompare h = cmp" using h by (simp add: keyed_table_def)
  ultimately show ?thesis using same_chain [OF h, of k k'] by (auto simp: hash_queue_def code HashPut_fields)
qed

lemma removed:
  assumes h: "keyed_table code cmp h" and g: "HashGetItem h k = (Some it, h')"
  shows "keyed_table code cmp (snd (HashRemoveItem h' (Some it)))"
    and "hash_queue (snd (HashRemoveItem h' (Some it))) k' =
      (if cmp k k' = 0 then tl (hash_queue h k') else hash_queue h k')"
proof -
  let ?c = "HashCode h k" and ?r = "snd (HashRemoveItem h' (Some it))"
  have cmp: "h_fCompare h = cmp" using h by (simp add: keyed_table_def)
  from HashGetItem_Some [OF g] obtain p where
    it: "it = (?c, p)" and p: "p < length (h_aHeads h ! ?c)"
    and key: "cmp (fst (h_aHeads h ! ?c ! p)) k = 0"
    and eq: "h_aHeads h' = h_aHeads h"
    and q: "hash_queue h k = HASH_VALUE h' it #
      map snd (filter (\<lambda>kv. cmp (fst kv) k = 0) (drop_nth p (h_aHeads h ! ?c)))"
    by (auto simp: cmp)
  have h': "h_fHashCode h' = h_fHashCode h" "h_fCompare h' = h_fCompare h" "h_N h' = h_N h"
    using HashGetItem_fields [of h k] g by simp_all
  have code: "HashCode ?r = HashCode h" by (rule HashCode_cong) (simp_all add: it HashRemoveItem_heads h')
  have heads: "h_aHeads ?r = (h_aHeads h)[?c := drop_nth p (h_aHeads h ! ?c)]"
    by (simp add: it HashRemoveItem_heads eq)
  have i: "?c < length (h_aHeads h)" by (rule bound [OF h])
  have "chained ?r"
  proof (rule chained_update [OF _ code heads])
    show c: "chained h" using h by (simp add: keyed_table_def)
    show "HashCode h (fst kv) = ?c" if "kv \<in> set (drop_nth p (h_aHeads h ! ?c))" for kv
      using c i that by (auto simp: chained_def drop_nth_def dest: in_set_takeD in_set_dropD)
  qed
  then show "keyed_table code cmp ?r"
    using h heads by (simp add: keyed_table_def it HashRemoveItem_heads h')
  have cmpr: "h_fCompare ?r = cmp" by (simp add: it HashRemoveItem_heads h' cmp)
  show "hash_queue ?r k' = (if cmp k k' = 0 then tl (hash_queue h k') else hash_queue h k')"
  proof (cases "cmp k k' = 0")
    case True
    have "HashCode h k' = ?c" using same_chain [OF h True] by simp
    moreover have "tl (hash_queue h k') = map snd (filter (\<lambda>kv. cmp (fst kv) k' = 0) (drop_nth p (h_aHeads h ! ?c)))"
      using q queue_same [OF h True] cmp_cong [OF True] by simp
    ultimately show ?thesis using True i by (simp add: hash_queue_def code heads cmpr)
  next
    case False
    have "cmp (fst (h_aHeads h ! ?c ! p)) k' \<noteq> 0"
      using key False cmp_trans [of k "fst (h_aHeads h ! ?c ! p)" k'] cmp_sym by blast
    with False i p show ?thesis
      by (cases "?c = HashCode h k'") (simp_all add: hash_queue_def code heads cmpr cmp filter_drop_nth)
  qed
qed

lemma remove_laws:
  assumes h: "keyed_table code cmp h"
  shows "keyed_table code cmp (snd (HashRemove h k))"
    and "hash_queue (snd (HashRemove h k)) k' =
      (if cmp k k' = 0 then tl (hash_queue h k') else hash_queue h k')"
    and "fst (HashRemove h k) = (case hash_queue h k of [] \<Rightarrow> None | v # vs \<Rightarrow> Some v)"
proof -
  obtain r h' where g: "HashGetItem h k = (r, h')" by (cases "HashGetItem h k")
  note none = HashGetItem_None [of h k]
  have h': "keyed_table code cmp h'" "hash_queue h' = hash_queue h"
    using keyed_table_Get [OF h, of k] HashGetItem_queue [of h k] g by simp_all
  show "keyed_table code cmp (snd (HashRemove h k))"
    using removed(1) [OF h] g h' by (cases r) (simp_all add: HashRemove_cases)
  show "hash_queue (snd (HashRemove h k)) k' =
      (if cmp k k' = 0 then tl (hash_queue h k') else hash_queue h k')"
    using removed(2) [OF h, of k _ h' k'] g h' none queue_same [OF h, of k k']
    by (cases r) (auto simp: HashRemove_cases)
  show "fst (HashRemove h k) = (case hash_queue h k of [] \<Rightarrow> None | v # vs \<Rightarrow> Some v)"
    using g none by (cases r) (auto simp: HashRemove_cases HashGet_value)
qed

lemma get_laws:
  "keyed_table code cmp h \<Longrightarrow> keyed_table code cmp (snd (HashGet h k))"
  "hash_queue (snd (HashGet h k)) = hash_queue h"
  by (simp_all add: HashGet_snd keyed_table_Get HashGetItem_queue)

end

end
