(* ===== verification/Gadget_Cache.thy ===== *)
theory Gadget_Cache
  imports Gadget_Table
begin

text \<open>
  The controlled elements of \<^verbatim>\<open>NWGadget/src/NWGadget.c\<close> (\<open>GElmCtrl_t\<close>): reference-counted objects in
  a hash table and a list ordered by their last use, at most \<open>ge_MaxCnt\<close> of them, with functions of
  the owner that fill an object for a key and empty it again. An object is named by its address;
  \<open>ge_Elm\<close> is the store and \<open>ge_Next\<close> the next address the allocator gives.
\<close>

section \<open>Elements\<close>

record 'e GElm =
  e_Cnt :: int
  e_Obj :: 'e

record ('k, 'e) GElmCtrl =
  ge_Lnk :: "nat list"
  ge_Hash :: "('k, nat) Hash"
  ge_MaxCnt :: int
  ge_Cnt :: int
  ge_Wait :: int
  ge_Elm :: "nat \<Rightarrow> 'e GElm"
  ge_Next :: nat

text \<open>
  The functions of the owner. \<open>ge_fSet\<close> gets the key and whether to load, and \<open>ge_fUnset\<close> whether
  to save; both return a code, the key in the element, and the object.
\<close>

record ('k, 'e) GElmIF =
  ge_fAlloc :: 'e
  ge_fSet :: "'k \<Rightarrow> bool \<Rightarrow> 'e \<Rightarrow> int \<times> 'k \<times> 'e"
  ge_fUnset :: "bool \<Rightarrow> 'e \<Rightarrow> int \<times> 'k \<times> 'e"

abbreviation elm_obj :: "('k, 'e) GElmCtrl \<Rightarrow> nat \<Rightarrow> 'e" where
  "elm_obj g p \<equiv> e_Obj (ge_Elm g p)"

abbreviation elm_cnt :: "('k, 'e) GElmCtrl \<Rightarrow> nat \<Rightarrow> int" where
  "elm_cnt g p \<equiv> e_Cnt (ge_Elm g p)"

definition set_elm :: "nat \<Rightarrow> ('e GElm \<Rightarrow> 'e GElm) \<Rightarrow> ('k, 'e) GElmCtrl \<Rightarrow> ('k, 'e) GElmCtrl" where
  "set_elm p f g = g\<lparr>ge_Elm := (ge_Elm g)(p := f (ge_Elm g p))\<rparr>"

definition GElmCtrlInit :: "int \<Rightarrow> u32 \<Rightarrow> ('k \<Rightarrow> u32) \<Rightarrow> ('k \<Rightarrow> 'k \<Rightarrow> int) \<Rightarrow> 'e \<Rightarrow> ('k, 'e) GElmCtrl" where
  "GElmCtrlInit MaxCnt HashSize fHashCode fCompare undef =
     \<lparr>ge_Lnk = [], ge_Hash = HashInit HashSize (HashCode_FN fHashCode) fCompare, ge_MaxCnt = MaxCnt,
      ge_Cnt = 0, ge_Wait = 0, ge_Elm = (\<lambda>_. \<lparr>e_Cnt = 0, e_Obj = undef\<rparr>), ge_Next = 0\<rparr>"

definition GElmAlloc :: "('k, 'e) GElmIF \<Rightarrow> ('k, 'e) GElmCtrl \<Rightarrow> nat \<times> ('k, 'e) GElmCtrl" where
  "GElmAlloc IF g =
     (let p = ge_Next g
      in (p, set_elm p (\<lambda>_. \<lparr>e_Cnt = 0, e_Obj = ge_fAlloc IF\<rparr>) (g\<lparr>ge_Next := p + 1, ge_Cnt := ge_Cnt g + 1\<rparr>)))"

definition GElmFree :: "('k, 'e) GElmCtrl \<Rightarrow> ('k, 'e) GElmCtrl" where
  "GElmFree g = g\<lparr>ge_Cnt := ge_Cnt g - 1\<rparr>"

definition GElmSet :: "('k, 'e) GElmIF \<Rightarrow> nat \<Rightarrow> 'k \<Rightarrow> bool \<Rightarrow> ('k, 'e) GElmCtrl \<Rightarrow> int \<times> ('k, 'e) GElmCtrl" where
  "GElmSet IF p pKey bLoad g =
     (case ge_fSet IF pKey bLoad (elm_obj g p) of
        (Ret, pKeyInElm, obj) \<Rightarrow>
          let g = set_elm p (\<lambda>e. e\<lparr>e_Obj := obj\<rparr>) g
          in if Ret \<noteq> 0 then (Ret, g)
             else (Ret, g\<lparr>ge_Lnk := ge_Lnk g @ [p], ge_Hash := HashPut (ge_Hash g) pKeyInElm p\<rparr>))"

definition GElmUnset :: "('k, 'e) GElmIF \<Rightarrow> nat \<Rightarrow> bool \<Rightarrow> ('k, 'e) GElmCtrl \<Rightarrow> int \<times> ('k, 'e) GElmCtrl" where
  "GElmUnset IF p bSave g =
     (case ge_fUnset IF bSave (elm_obj g p) of
        (Ret, pOldKey, obj) \<Rightarrow>
          let g = set_elm p (\<lambda>e. e\<lparr>e_Obj := obj\<rparr>) g
          in if Ret \<noteq> 0 then (Ret, g)
             else (case HashRemove (ge_Hash g) pOldKey of
                     (Some _, h) \<Rightarrow> (0, g\<lparr>ge_Hash := h, ge_Lnk := remove1 p (ge_Lnk g)\<rparr>)
                   | (None, h) \<Rightarrow> (-1, g\<lparr>ge_Hash := h\<rparr>)))"

section \<open>Getting and putting an element\<close>

text \<open>
  A call of \<open>GElmGet\<close> returns the element, or waits because the element used least recently is in
  use. The wake-ups of a waiting call are the states it finds when it goes on; a call whose list of
  wake-ups is used up still waits.
\<close>

datatype ('k, 'e) gget = GGot "nat option" "('k, 'e) GElmCtrl" | GWait "('k, 'e) GElmCtrl"

definition GElm_use :: "nat \<Rightarrow> ('k, 'e) GElmCtrl \<Rightarrow> ('k, 'e) GElmCtrl" where
  "GElm_use p g =
     (let g = set_elm p (\<lambda>e. e\<lparr>e_Cnt := e_Cnt e + 1\<rparr>) g
      in g\<lparr>ge_Lnk := remove1 p (ge_Lnk g) @ [p]\<rparr>)"

definition GElm_fill ::
  "('k, 'e) GElmIF \<Rightarrow> nat \<Rightarrow> 'k \<Rightarrow> bool \<Rightarrow> ('k, 'e) GElmCtrl \<Rightarrow> ('k, 'e) gget" where
  "GElm_fill IF p pKey bLoad g =
     (case GElmSet IF p pKey bLoad (set_elm p (\<lambda>e. e\<lparr>e_Cnt := 0\<rparr>) g) of
        (Ret, g) \<Rightarrow> if Ret \<noteq> 0 then GGot None (GElmFree g) else GGot (Some p) (GElm_use p g))"

fun GElm_evict ::
  "('k, 'e) GElmIF \<Rightarrow> ('k, 'e) GElmCtrl list \<Rightarrow> 'k \<Rightarrow> bool \<Rightarrow> ('k, 'e) GElmCtrl \<Rightarrow> ('k, 'e) gget option" where
  "GElm_evict IF ws pKey bLoad g =
     (case ge_Lnk g of
        [] \<Rightarrow> None
      | p # _ \<Rightarrow>
          if elm_cnt g p < 0 then None
          else if elm_cnt g p \<noteq> 0 then
            (case ws of
               [] \<Rightarrow> Some (GWait (g\<lparr>ge_Wait := ge_Wait g + 1\<rparr>))
             | g' # ws \<Rightarrow> GElm_evict IF ws pKey bLoad (g'\<lparr>ge_Wait := ge_Wait g' - 1\<rparr>))
          else (case GElmUnset IF p bLoad g of
                  (Ret, g) \<Rightarrow> Some (if Ret \<noteq> 0 then GGot None g else GElm_fill IF p pKey bLoad g)))"

definition GElmGet ::
  "('k, 'e) GElmIF \<Rightarrow> ('k, 'e) GElmCtrl list \<Rightarrow> 'k \<Rightarrow> bool \<Rightarrow> bool \<Rightarrow> ('k, 'e) GElmCtrl
    \<Rightarrow> ('k, 'e) gget option" where
  "GElmGet IF ws pKey bAlloc bLoad g =
     (case HashGet (ge_Hash g) pKey of
        (Some p, h) \<Rightarrow> Some (GGot (Some p) (GElm_use p (g\<lparr>ge_Hash := h\<rparr>)))
      | (None, h) \<Rightarrow>
          let g = g\<lparr>ge_Hash := h\<rparr>
          in if \<not> bAlloc then Some (GGot None g)
             else if ge_MaxCnt g = 0 \<or> ge_Cnt g < ge_MaxCnt g
               then (case GElmAlloc IF g of (p, g) \<Rightarrow> Some (GElm_fill IF p pKey bLoad g))
             else GElm_evict IF ws pKey bLoad g)"

definition GElmPut ::
  "('k, 'e) GElmIF \<Rightarrow> nat \<Rightarrow> bool \<Rightarrow> bool \<Rightarrow> ('k, 'e) GElmCtrl \<Rightarrow> (int \<times> ('k, 'e) GElmCtrl) option" where
  "GElmPut IF p bFree bSave g =
     (let g = set_elm p (\<lambda>e. e\<lparr>e_Cnt := e_Cnt e - 1\<rparr>) g
      in if elm_cnt g p < 0 then None
         else if elm_cnt g p = 0 \<and> bFree then
           (case GElmUnset IF p bSave g of
              (Ret, g) \<Rightarrow> Some (Ret, if Ret \<noteq> 0 then g else GElmFree g))
         else Some (0, g))"

section \<open>The elements as a map\<close>

text \<open>
  What an owner promises of its functions: an object filled for a key carries an equal key, and an
  object is emptied under the key it carries.
\<close>

locale elm_owner = key_kind code cmp
  for code :: "'k \<Rightarrow> u32" and cmp :: "'k \<Rightarrow> 'k \<Rightarrow> int" +
  fixes IF :: "('k, 'e) GElmIF" and key_of :: "'e \<Rightarrow> 'k"
  assumes set_key: "ge_fSet IF k b e = (r, k', e') \<Longrightarrow> r = 0 \<Longrightarrow> k' = key_of e' \<and> cmp (key_of e') k = 0"
    and unset_key: "ge_fUnset IF b e = (r, k', e') \<Longrightarrow> key_of e' = key_of e \<and> (r = 0 \<longrightarrow> k' = key_of e)"
begin

definition bound_to :: "('k, 'e) GElmCtrl \<Rightarrow> 'k \<Rightarrow> nat \<Rightarrow> bool" where
  "bound_to g k p \<longleftrightarrow> p \<in> set (ge_Lnk g) \<and> cmp (key_of (elm_obj g p)) k = 0"

definition ok :: "('k, 'e) GElmCtrl \<Rightarrow> bool" where
  "ok g \<longleftrightarrow> keyed_table code cmp (ge_Hash g) \<and> distinct (ge_Lnk g) \<and> ge_Cnt g = int (length (ge_Lnk g)) \<and>
     (\<forall>p \<in> set (ge_Lnk g). p < ge_Next g \<and> 0 \<le> elm_cnt g p) \<and>
     (\<forall>k. (hash_queue (ge_Hash g) k = [] \<and> (\<forall>p. \<not> bound_to g k p)) \<or>
          (\<exists>p. hash_queue (ge_Hash g) k = [p] \<and> (\<forall>q. bound_to g k q \<longleftrightarrow> q = p)))"

definition found :: "('k, 'e) GElmCtrl \<Rightarrow> 'k \<Rightarrow> nat option" where
  "found g k = (case hash_queue (ge_Hash g) k of [] \<Rightarrow> None | p # ps \<Rightarrow> Some p)"

lemma found_iff: "ok g \<Longrightarrow> found g k = Some p \<longleftrightarrow> bound_to g k p"
  unfolding ok_def found_def by (elim conjE, drule spec [of _ k]) auto

lemma found_queue: "ok g \<Longrightarrow> hash_queue (ge_Hash g) k = (case found g k of None \<Rightarrow> [] | Some p \<Rightarrow> [p])"
  unfolding ok_def found_def by (elim conjE, drule spec [of _ k]) auto

lemma found_same: "ok g \<Longrightarrow> cmp a b = 0 \<Longrightarrow> found g a = found g b"
  using queue_same [of "ge_Hash g" a b] by (simp add: found_def ok_def)

lemma found_unique: "ok g \<Longrightarrow> bound_to g k p \<Longrightarrow> bound_to g k q \<Longrightarrow> p = q"
  using found_iff [of g k p] found_iff [of g k q] by simp

lemma found_key: "ok g \<Longrightarrow> p \<in> set (ge_Lnk g) \<Longrightarrow> found g (key_of (elm_obj g p)) = Some p"
  by (simp add: found_iff bound_to_def cmp_refl)

text \<open>The invariant, from a table and the map it should hold.\<close>

lemma okI:
  assumes "keyed_table code cmp (ge_Hash g)" and "distinct (ge_Lnk g)" and "ge_Cnt g = int (length (ge_Lnk g))"
    and "\<And>p. p \<in> set (ge_Lnk g) \<Longrightarrow> p < ge_Next g \<and> 0 \<le> elm_cnt g p"
    and "\<And>k. hash_queue (ge_Hash g) k = (case m k of None \<Rightarrow> [] | Some p \<Rightarrow> [p])"
    and "\<And>k p. m k = Some p \<longleftrightarrow> bound_to g k p"
  shows "ok g \<and> found g = m"
proof -
  have "(hash_queue (ge_Hash g) k = [] \<and> (\<forall>p. \<not> bound_to g k p)) \<or>
      (\<exists>p. hash_queue (ge_Hash g) k = [p] \<and> (\<forall>q. bound_to g k q \<longleftrightarrow> q = p))" for k
    using assms(5) [of k] assms(6) [of k] by (cases "m k") (auto intro: sym)
  with assms(1-4) have "ok g" by (simp add: ok_def)
  moreover have "found g = m" by (rule ext) (simp add: found_def assms(5) split: option.splits)
  ultimately show ?thesis ..
qed

lemma ok_parts:
  assumes "ok g"
  shows "keyed_table code cmp (ge_Hash g)" "distinct (ge_Lnk g)" "ge_Cnt g = int (length (ge_Lnk g))"
    "p \<in> set (ge_Lnk g) \<Longrightarrow> p < ge_Next g \<and> 0 \<le> elm_cnt g p"
  using assms by (simp_all add: ok_def)

lemma ok_Init: "n \<noteq> 0 \<Longrightarrow> ok (GElmCtrlInit m n code cmp u) \<and> found (GElmCtrlInit m n code cmp u) = Map.empty"
  by (rule okI) (simp_all add: GElmCtrlInit_def keyed_table_Init keyed_queue_Init bound_to_def)

text \<open>An object may be changed as long as its key stays equal.\<close>

lemma ok_set_elm:
  assumes g: "ok g" and p: "cmp (key_of (e_Obj (f (ge_Elm g p)))) (key_of (elm_obj g p)) = 0"
    and c: "p \<in> set (ge_Lnk g) \<Longrightarrow> 0 \<le> e_Cnt (f (ge_Elm g p))"
  shows "ok (set_elm p f g) \<and> found (set_elm p f g) = found g"
proof (rule okI)
  note parts = ok_parts [OF g]
  show "keyed_table code cmp (ge_Hash (set_elm p f g))" "distinct (ge_Lnk (set_elm p f g))"
    "ge_Cnt (set_elm p f g) = int (length (ge_Lnk (set_elm p f g)))"
    using parts by (simp_all add: set_elm_def)
  show "q < ge_Next (set_elm p f g) \<and> 0 \<le> elm_cnt (set_elm p f g) q" if "q \<in> set (ge_Lnk (set_elm p f g))" for q
    using that parts(4) [of q] c by (auto simp: set_elm_def)
  show "hash_queue (ge_Hash (set_elm p f g)) k = (case found g k of None \<Rightarrow> [] | Some p \<Rightarrow> [p])" for k
    using found_queue [OF g, of k] by (simp add: set_elm_def)
  show "found g k = Some q \<longleftrightarrow> bound_to (set_elm p f g) k q" for k q
    using found_iff [OF g, of k q] cmp_trans [OF p, of k] cmp_trans [OF cmp_sym [OF p], of k]
    by (auto simp: bound_to_def set_elm_def)
qed

lemma ok_lnk:
  assumes g: "ok g" and "distinct l" and "set l = set (ge_Lnk g)"
  shows "ok (g\<lparr>ge_Lnk := l\<rparr>) \<and> found (g\<lparr>ge_Lnk := l\<rparr>) = found g"
proof (rule okI)
  note parts = ok_parts [OF g]
  have "length l = length (ge_Lnk g)" using assms(2,3) parts(2) by (metis distinct_card)
  then show "ge_Cnt (g\<lparr>ge_Lnk := l\<rparr>) = int (length (ge_Lnk (g\<lparr>ge_Lnk := l\<rparr>)))" using parts(3) by simp
  show "found g k = Some q \<longleftrightarrow> bound_to (g\<lparr>ge_Lnk := l\<rparr>) k q" for k q
    using found_iff [OF g, of k q] by (simp add: bound_to_def assms(3))
qed (use g ok_parts [OF g] found_queue [OF g] assms in simp_all)

lemma ok_use:
  assumes g: "ok g" and p: "p \<in> set (ge_Lnk g)"
  shows "ok (GElm_use p g) \<and> found (GElm_use p g) = found g"
proof -
  let ?f = "\<lambda>e. e\<lparr>e_Cnt := e_Cnt e + 1\<rparr>"
  have s: "ok (set_elm p ?f g) \<and> found (set_elm p ?f g) = found g"
    using ok_parts(4) [OF g p] by (intro ok_set_elm [OF g]) (simp_all add: cmp_refl)
  have "ok ((set_elm p ?f g)\<lparr>ge_Lnk := remove1 p (ge_Lnk g) @ [p]\<rparr>) \<and>
      found ((set_elm p ?f g)\<lparr>ge_Lnk := remove1 p (ge_Lnk g) @ [p]\<rparr>) = found (set_elm p ?f g)"
    using s p ok_parts(2) [OF g] by (intro ok_lnk) (auto simp: set_elm_def)
  then show ?thesis using s by (simp add: GElm_use_def Let_def set_elm_def)
qed

lemma ok_hash:
  assumes g: "ok g"
  shows "ok (g\<lparr>ge_Hash := snd (HashGet (ge_Hash g) k)\<rparr>) \<and> found (g\<lparr>ge_Hash := snd (HashGet (ge_Hash g) k)\<rparr>) = found g"
  by (rule okI) (use ok_parts [OF g] get_laws [of "ge_Hash g" k] found_queue [OF g] found_iff [OF g]
    in \<open>simp_all add: bound_to_def\<close>)

lemma HashGet_found: "fst (HashGet (ge_Hash g) k) = found g k"
  by (simp add: found_def HashGet_value)

lemma get_hit:
  assumes g: "ok g" and k: "found g k = Some p"
  shows "\<exists>g'. GElmGet IF ws k a b g = Some (GGot (Some p) g') \<and> ok g' \<and> found g' = found g
    \<and> ge_Elm g' = (ge_Elm g)(p := (ge_Elm g p)\<lparr>e_Cnt := elm_cnt g p + 1\<rparr>) \<and> ge_MaxCnt g' = ge_MaxCnt g"
proof -
  let ?g = "g\<lparr>ge_Hash := snd (HashGet (ge_Hash g) k)\<rparr>"
  have p: "p \<in> set (ge_Lnk ?g)" using k found_iff [OF g] by (simp add: bound_to_def)
  have "GElmGet IF ws k a b g = Some (GGot (Some p) (GElm_use p ?g))"
    using k HashGet_found [of g k] by (auto simp: GElmGet_def split: prod.splits)
  moreover have "ok (GElm_use p ?g) \<and> found (GElm_use p ?g) = found g"
    using ok_hash [OF g, of k] ok_use [OF _ p] by simp
  ultimately show ?thesis by (auto simp: GElm_use_def Let_def set_elm_def)
qed

lemma get_miss:
  assumes g: "ok g" and k: "found g k = None"
  shows "\<exists>g'. GElmGet IF ws k False b g = Some (GGot None g') \<and> ok g' \<and> found g' = found g
    \<and> ge_Elm g' = ge_Elm g \<and> ge_MaxCnt g' = ge_MaxCnt g"
  using ok_hash [OF g, of k] k HashGet_found [of g k] by (auto simp: GElmGet_def split: prod.splits)

text \<open>The element of a key that is not there yet, when there is room for it.\<close>

lemma ok_insert:
  assumes g: "ok (g\<lparr>ge_Cnt := ge_Cnt g - 1\<rparr>)" and p: "p \<notin> set (ge_Lnk g)" "p < ge_Next g" "elm_cnt g p = 0"
    and k: "found g k = None" and set: "ge_fSet IF k b (elm_obj g p) = (0, k', e')"
  shows "\<exists>g'. GElm_fill IF p k b g = GGot (Some p) g' \<and> ok g'
    \<and> found g' = (\<lambda>a. if cmp k a = 0 then Some p else found g a)
    \<and> ge_Elm g' = (ge_Elm g)(p := \<lparr>e_Cnt = 1, e_Obj = e'\<rparr>) \<and> ge_MaxCnt g' = ge_MaxCnt g \<and> ge_Cnt g' = ge_Cnt g"
proof -
  let ?old = "g\<lparr>ge_Cnt := ge_Cnt g - 1\<rparr>"
  let ?g = "set_elm p (\<lambda>e. e\<lparr>e_Cnt := 0, e_Obj := e'\<rparr>) g
    \<lparr>ge_Lnk := ge_Lnk g @ [p], ge_Hash := HashPut (ge_Hash g) k' p\<rparr>"
  note parts = ok_parts [OF g, simplified]
  have key: "k' = key_of e'" "cmp (key_of e') k = 0" using set_key [OF set] by simp_all
  have f0: "found ?old = found g" by (simp add: found_def fun_eq_iff)
  have b0: "found g a = Some q \<longleftrightarrow> bound_to g a q" for a q
    using found_iff [OF g, of a q] by (simp add: f0 bound_to_def)
  have same: "found g a = None" if "cmp k a = 0" for a
    using found_same [OF g that] k by (simp add: f0)
  have cong: "cmp (key_of e') a = 0 \<longleftrightarrow> cmp k a = 0" for a
    using cmp_trans [OF key(2), of a] cmp_trans [OF cmp_sym [OF key(2)], of a] by blast
  have "ok ?g \<and> found ?g = (\<lambda>a. if cmp k a = 0 then Some p else found g a)"
  proof (rule okI)
    show "keyed_table code cmp (ge_Hash ?g)" using parts(1) by (simp add: put_ok)
    show "distinct (ge_Lnk ?g)" "ge_Cnt ?g = int (length (ge_Lnk ?g))" using parts(2,3) p by (simp_all add: set_elm_def)
    show "q < ge_Next ?g \<and> 0 \<le> elm_cnt ?g q" if "q \<in> set (ge_Lnk ?g)" for q
      using that parts(4) [of q] p by (auto simp: set_elm_def)
    show "hash_queue (ge_Hash ?g) a = (case if cmp k a = 0 then Some p else found g a of None \<Rightarrow> [] | Some p \<Rightarrow> [p])" for a
      using put_queue [OF parts(1), of k' p a] found_queue [OF g, of a] same [of a]
      by (simp add: key(1) cong f0)
    show "(if cmp k a = 0 then Some p else found g a) = Some q \<longleftrightarrow> bound_to ?g a q" for a q
      using b0 [of a q] same [of a] p(1) cong [of a]
      by (cases "q = p"; cases "cmp k a = 0") (simp_all add: bound_to_def set_elm_def)
  qed
  then have "ok (GElm_use p ?g) \<and> found (GElm_use p ?g) = (\<lambda>a. if cmp k a = 0 then Some p else found g a)"
    using ok_use [of ?g p] by simp
  moreover have "GElm_fill IF p k b g = GGot (Some p) (GElm_use p ?g)"
    using set p(3) by (simp add: GElm_fill_def GElmSet_def set_elm_def Let_def)
  moreover have r: "(ge_Elm g p)\<lparr>e_Obj := e', e_Cnt := 1\<rparr> = \<lparr>e_Cnt = 1, e_Obj = e'\<rparr>"
    by (rule GElm.equality) simp_all
  ultimately show ?thesis by (intro exI [of _ "GElm_use p ?g"]) (simp add: GElm_use_def Let_def set_elm_def r)
qed

lemma ok_alloc:
  assumes g: "ok g" and p: "p = ge_Next g"
    and g': "g' = set_elm p (\<lambda>_. e) (g\<lparr>ge_Next := p + 1\<rparr>)"
  shows "ok g' \<and> found g' = found g \<and> p \<notin> set (ge_Lnk g')"
proof -
  have new: "p \<notin> set (ge_Lnk g)" using ok_parts(4) [OF g, of p] p by auto
  have fields: "ge_Lnk g' = ge_Lnk g" "ge_Hash g' = ge_Hash g" "ge_Cnt g' = ge_Cnt g" "ge_Next g' = p + 1"
    "\<And>q. q \<noteq> p \<Longrightarrow> ge_Elm g' q = ge_Elm g q" using g' by (simp_all add: set_elm_def)
  have "ok g' \<and> found g' = found g"
  proof (rule okI)
    show "q < ge_Next g' \<and> 0 \<le> elm_cnt g' q" if "q \<in> set (ge_Lnk g')" for q
      using that ok_parts(4) [OF g, of q] new fields(5) [of q] p by (auto simp: fields(1,4))
    show "found g a = Some q \<longleftrightarrow> bound_to g' a q" for a q
      using found_iff [OF g, of a q] new fields(5) [of q]
      by (cases "q = p") (simp_all add: bound_to_def fields(1))
    show "hash_queue (ge_Hash g') a = (case found g a of None \<Rightarrow> [] | Some p \<Rightarrow> [p])" for a
      using found_queue [OF g, of a] by (simp add: fields(2))
  qed (use ok_parts(1-3) [OF g] in \<open>simp_all add: fields\<close>)
  with new show ?thesis by (simp add: fields(1))
qed

lemma get_new:
  assumes g: "ok g" and k: "found g k = None" and room: "ge_MaxCnt g = 0 \<or> ge_Cnt g < ge_MaxCnt g"
    and set: "ge_fSet IF k b (ge_fAlloc IF) = (0, k', e')"
  shows "\<exists>g'. GElmGet IF ws k True b g = Some (GGot (Some (ge_Next g)) g') \<and> ok g'
    \<and> found g' = (\<lambda>a. if cmp k a = 0 then Some (ge_Next g) else found g a)
    \<and> ge_Elm g' = (ge_Elm g)(ge_Next g := \<lparr>e_Cnt = 1, e_Obj = e'\<rparr>) \<and> ge_MaxCnt g' = ge_MaxCnt g
    \<and> ge_Cnt g' = ge_Cnt g + 1"
proof -
  define p where "p = ge_Next g"
  obtain h where hg: "HashGet (ge_Hash g) k = (None, h)"
    using k HashGet_found [of g k] by (cases "HashGet (ge_Hash g) k") simp
  define g1 where "g1 = g\<lparr>ge_Hash := h\<rparr>"
  define g2 where "g2 = set_elm p (\<lambda>_. \<lparr>e_Cnt = 0, e_Obj = ge_fAlloc IF\<rparr>) (g1\<lparr>ge_Next := p + 1, ge_Cnt := ge_Cnt g1 + 1\<rparr>)"
  have g1: "ok g1" "found g1 = found g" using ok_hash [OF g, of k] hg by (simp_all add: g1_def)
  have eq: "g2\<lparr>ge_Cnt := ge_Cnt g2 - 1\<rparr> = set_elm p (\<lambda>_. \<lparr>e_Cnt = 0, e_Obj = ge_fAlloc IF\<rparr>) (g1\<lparr>ge_Next := p + 1\<rparr>)"
    by (simp add: g2_def set_elm_def)
  have g2: "ok (g2\<lparr>ge_Cnt := ge_Cnt g2 - 1\<rparr>)" "found (g2\<lparr>ge_Cnt := ge_Cnt g2 - 1\<rparr>) = found g"
    "p \<notin> set (ge_Lnk (g2\<lparr>ge_Cnt := ge_Cnt g2 - 1\<rparr>))"
    using ok_alloc [OF g1(1) _ eq] g1(2) by (simp_all add: p_def g1_def)
  have f2: "found g2 = found g" using g2(2) by (simp add: found_def fun_eq_iff)
  have e2: "ge_Elm g2 = (ge_Elm g)(p := \<lparr>e_Cnt = 0, e_Obj = ge_fAlloc IF\<rparr>)" "ge_Next g2 = p + 1"
    "ge_MaxCnt g2 = ge_MaxCnt g" "ge_Cnt g2 = ge_Cnt g + 1"
    by (simp_all add: g2_def g1_def set_elm_def)
  obtain g' where g': "GElm_fill IF p k b g2 = GGot (Some p) g'" "ok g'"
    "found g' = (\<lambda>a. if cmp k a = 0 then Some p else found g2 a)"
    "ge_Elm g' = (ge_Elm g2)(p := \<lparr>e_Cnt = 1, e_Obj = e'\<rparr>)" "ge_MaxCnt g' = ge_MaxCnt g2" "ge_Cnt g' = ge_Cnt g2"
    using ok_insert [OF g2(1), of p k b k' e'] g2(3) k set by (auto simp: e2 f2)
  have "GElmGet IF ws k True b g = Some (GElm_fill IF p k b g2)"
    using room by (simp add: GElmGet_def GElmAlloc_def Let_def hg g2_def g1_def p_def)
  then show ?thesis using g' by (intro exI [of _ g']) (simp add: f2 e2 cong: if_cong flip: p_def)
qed

text \<open>An element put back: kept while it is used or its owner keeps it, and otherwise gone.\<close>

lemma ok_unset:
  assumes g: "ok g" and p: "p \<in> set (ge_Lnk g)" and f: "ge_fUnset IF b (elm_obj g p) = (0, k', e')"
  shows "\<exists>g'. GElmUnset IF p b g = (0, g') \<and> ok (GElmFree g')
    \<and> found g' = (\<lambda>a. if found g a = Some p then None else found g a)
    \<and> ge_Elm g' = (ge_Elm g)(p := (ge_Elm g p)\<lparr>e_Obj := e'\<rparr>) \<and> ge_MaxCnt g' = ge_MaxCnt g"
proof -
  let ?k = "key_of (elm_obj g p)"
  let ?h = "snd (HashRemove (ge_Hash g) ?k)"
  let ?g = "(set_elm p (\<lambda>e. e\<lparr>e_Obj := e'\<rparr>) g)\<lparr>ge_Hash := ?h, ge_Lnk := remove1 p (ge_Lnk g)\<rparr>"
  note parts = ok_parts [OF g]
  note laws = remove_laws [OF parts(1), of ?k]
  have k': "k' = ?k" using unset_key [OF f] by simp
  have fk: "found g ?k = Some p" by (rule found_key [OF g p])
  have cls: "found g a = Some p \<longleftrightarrow> cmp ?k a = 0" for a using found_iff [OF g, of a p] p by (simp add: bound_to_def)
  have m: "ok (GElmFree ?g) \<and> found (GElmFree ?g) = (\<lambda>a. if found g a = Some p then None else found g a)"
  proof (rule okI)
    show "keyed_table code cmp (ge_Hash (GElmFree ?g))" using laws(1) by (simp add: GElmFree_def)
    show "distinct (ge_Lnk (GElmFree ?g))" using parts(2) by (simp add: GElmFree_def)
    show "ge_Cnt (GElmFree ?g) = int (length (ge_Lnk (GElmFree ?g)))"
      using parts(3) length_pos_if_in_set [OF p] p
      by (simp add: GElmFree_def length_remove1 set_elm_def of_nat_diff Suc_le_eq del: length_greater_0_conv)
    show "q < ge_Next (GElmFree ?g) \<and> 0 \<le> elm_cnt (GElmFree ?g) q" if "q \<in> set (ge_Lnk (GElmFree ?g))" for q
      using that parts(2) parts(4) [of q] by (auto simp: GElmFree_def set_elm_def)
    show "hash_queue (ge_Hash (GElmFree ?g)) a =
        (case if found g a = Some p then None else found g a of None \<Rightarrow> [] | Some p \<Rightarrow> [p])" for a
      using laws(2) [of a] found_queue [OF g, of a] cls [of a] by (auto simp: GElmFree_def split: option.splits)
    show "(if found g a = Some p then None else found g a) = Some q \<longleftrightarrow> bound_to (GElmFree ?g) a q" for a q
      using found_iff [OF g, of a q] parts(2) by (auto simp: bound_to_def GElmFree_def set_elm_def)
  qed
  have "fst (HashRemove (ge_Hash g) ?k) = Some p" using laws(3) found_queue [OF g, of ?k] fk by simp
  then have "GElmUnset IF p b g = (0, ?g)"
    using f by (cases "HashRemove (ge_Hash g) ?k") (simp add: GElmUnset_def k' set_elm_def Let_def)
  moreover have "found ?g = found (GElmFree ?g)" by (simp add: found_def GElmFree_def fun_eq_iff)
  ultimately show ?thesis using m by (auto simp: set_elm_def)
qed

lemma put_laws:
  assumes g: "ok g" and p: "p \<in> set (ge_Lnk g)" "0 < elm_cnt g p"
    and f: "ge_fUnset IF b (elm_obj g p) = (r, k', e')" "r \<noteq> 0 \<longrightarrow> e' = elm_obj g p"
  shows "\<exists>g'. GElmPut IF p a b g = Some ((if a \<and> elm_cnt g p = 1 then r else 0), g') \<and> ok g'
    \<and> found g' = (if a \<and> elm_cnt g p = 1 \<and> r = 0 then (\<lambda>k. if found g k = Some p then None else found g k)
        else found g)
    \<and> (\<forall>q. q \<noteq> p \<longrightarrow> ge_Elm g' q = ge_Elm g q) \<and> elm_cnt g' p = elm_cnt g p - 1
    \<and> (a \<and> elm_cnt g p = 1 \<and> r = 0 \<or> elm_obj g' p = elm_obj g p) \<and> ge_MaxCnt g' = ge_MaxCnt g"
proof -
  let ?g = "set_elm p (\<lambda>e. e\<lparr>e_Cnt := e_Cnt e - 1\<rparr>) g"
  have s: "ok ?g \<and> found ?g = found g" using p(2) by (intro ok_set_elm [OF g]) (simp_all add: cmp_refl)
  have e: "elm_cnt ?g p = elm_cnt g p - 1" "elm_obj ?g p = elm_obj g p" "p \<in> set (ge_Lnk ?g)"
    using p(1) by (simp_all add: set_elm_def)
  show ?thesis
  proof (cases "a \<and> elm_cnt g p = 1")
    case False
    then have "GElmPut IF p a b g = Some (0, ?g)" using p(2) e by (auto simp: GElmPut_def Let_def)
    with False s show ?thesis by (auto simp: set_elm_def)
  next
    case True
    then have put: "GElmPut IF p a b g =
        (case GElmUnset IF p b ?g of (Ret, g) \<Rightarrow> Some (Ret, if Ret \<noteq> 0 then g else GElmFree g))"
      using e(1) by (simp add: GElmPut_def Let_def)
    show ?thesis
    proof (cases "r = 0")
      case r: True
      obtain g' where g': "GElmUnset IF p b ?g = (0, g')" "ok (GElmFree g')"
        "found g' = (\<lambda>a. if found ?g a = Some p then None else found ?g a)"
        "ge_Elm g' = (ge_Elm ?g)(p := (ge_Elm ?g p)\<lparr>e_Obj := e'\<rparr>)" "ge_MaxCnt g' = ge_MaxCnt ?g"
        using ok_unset [of ?g p b k' e'] s e f(1) r by auto
      have "found (GElmFree g') = found g'" by (simp add: found_def GElmFree_def fun_eq_iff)
      with g' s True r put show ?thesis by (auto simp: GElmFree_def set_elm_def)
    next
      case r: False
      have "GElmUnset IF p b ?g = (r, ?g)"
        using f r e(2) by (simp add: GElmUnset_def Let_def set_elm_def)
      with s True r put show ?thesis by (auto simp: set_elm_def)
    qed
  qed
qed

text \<open>What a get leaves of the elements whose owner does not let them go.\<close>

definition kept :: "bool \<Rightarrow> ('k, 'e) GElmCtrl \<Rightarrow> ('k, 'e) GElmCtrl \<Rightarrow> bool" where
  "kept b g g' \<longleftrightarrow> (\<forall>a q. found g a = Some q \<longrightarrow> fst (ge_fUnset IF b (elm_obj g q)) \<noteq> 0 \<longrightarrow>
     found g' a = Some q \<and> elm_obj g' q = elm_obj g q)"

lemma evict_frame:
  assumes g: "ok g" and k: "found g k = None" and r: "GElm_evict IF [] k b g = Some r"
    and sets: "\<And>e. fst (ge_fSet IF k b e) = 0"
    and keeps: "\<And>e r k' e'. ge_fUnset IF b e = (r, k', e') \<Longrightarrow> r \<noteq> 0 \<Longrightarrow> e' = e"
  shows "case r of GWait g' \<Rightarrow> ok g' \<and> kept b g g' | GGot po g' \<Rightarrow> ok g' \<and> found g' k = po \<and> kept b g g'"
proof -
  obtain p l where l: "ge_Lnk g = p # l" and c: "0 \<le> elm_cnt g p"
    using r by (auto split: list.splits if_splits)
  show ?thesis
  proof (cases "elm_cnt g p = 0")
    case False
    then have "r = GWait (g\<lparr>ge_Wait := ge_Wait g + 1\<rparr>)" using r l c by simp
    moreover have "ok (g\<lparr>ge_Wait := ge_Wait g + 1\<rparr>) \<and> found (g\<lparr>ge_Wait := ge_Wait g + 1\<rparr>) = found g"
      by (rule okI) (use ok_parts [OF g] found_queue [OF g] found_iff [OF g] in \<open>simp_all add: bound_to_def\<close>)
    ultimately show ?thesis by (simp add: kept_def)
  next
    case zero: True
    have p: "p \<in> set (ge_Lnk g)" by (simp add: l)
    obtain u k' e' where u: "ge_fUnset IF b (elm_obj g p) = (u, k', e')" by (metis prod_cases3)
    show ?thesis
    proof (cases "u = 0")
      case False
      have "e' = elm_obj g p" by (rule keeps [OF u False])
      then have "GElmUnset IF p b g = (u, set_elm p (\<lambda>e. e) g)"
        using u False by (simp add: GElmUnset_def set_elm_def Let_def)
      moreover have "set_elm p (\<lambda>e. e) g = g" by (simp add: set_elm_def)
      ultimately have "r = GGot None g" using r l zero False by simp
      then show ?thesis using g k by (simp add: kept_def)
    next
      case True
      obtain g1 where g1: "GElmUnset IF p b g = (0, g1)" "ok (GElmFree g1)"
        "found g1 = (\<lambda>a. if found g a = Some p then None else found g a)"
        "ge_Elm g1 = (ge_Elm g)(p := (ge_Elm g p)\<lparr>e_Obj := e'\<rparr>)" "ge_MaxCnt g1 = ge_MaxCnt g"
        using ok_unset [OF g p u [unfolded True]] by blast
      have lnk: "ge_Lnk g1 = remove1 p (ge_Lnk g)" "ge_Next g1 = ge_Next g"
        using g1(1) by (auto simp: GElmUnset_def u True set_elm_def Let_def split: prod.splits option.splits)
      have new: "p \<notin> set (ge_Lnk g1)" "p < ge_Next g1" "elm_cnt g1 p = 0"
        using ok_parts(2) [OF g] ok_parts(4) [OF g p] zero by (simp_all add: lnk g1(4))
      obtain k2 e2 where s: "ge_fSet IF k b (elm_obj g1 p) = (0, k2, e2)"
        using sets [of "elm_obj g1 p"] by (metis fst_conv prod_cases3)
      obtain g' where g': "GElm_fill IF p k b g1 = GGot (Some p) g'" "ok g'"
        "found g' = (\<lambda>a. if cmp k a = 0 then Some p else found g1 a)"
        "ge_Elm g' = (ge_Elm g1)(p := \<lparr>e_Cnt = 1, e_Obj = e2\<rparr>)"
        using ok_insert [OF g1(2) [unfolded GElmFree_def] new _ s] k g1(3) by auto
      have rr: "r = GGot (Some p) g'" using r l zero g1(1) g'(1) by simp
      have "found g' a = Some q \<and> elm_obj g' q = elm_obj g q"
        if q: "found g a = Some q" "fst (ge_fUnset IF b (elm_obj g q)) \<noteq> 0" for a q
      proof -
        have "q \<noteq> p" using q(2) u True by auto
        moreover have "cmp k a \<noteq> 0" using found_same [OF g, of k a] k q(1) by auto
        ultimately show ?thesis using q(1) by (simp add: g' g1)
      qed
      then show ?thesis using rr g'(2,3) by (simp add: kept_def cmp_refl)
    qed
  qed
qed

lemma get_frame:
  assumes g: "ok g" and r: "GElmGet IF [] k a b g = Some r"
    and sets: "\<And>e. fst (ge_fSet IF k b e) = 0"
    and keeps: "\<And>e r k' e'. ge_fUnset IF b e = (r, k', e') \<Longrightarrow> r \<noteq> 0 \<Longrightarrow> e' = e"
  shows "case r of GWait g' \<Rightarrow> ok g' \<and> kept b g g' | GGot po g' \<Rightarrow> ok g' \<and> found g' k = po \<and> kept b g g'"
proof (cases "found g k")
  case (Some p)
  with get_hit [OF g Some, of "[]" a b] r show ?thesis by (auto simp: kept_def)
next
  case None
  show ?thesis
  proof (cases a)
    case False
    with get_miss [OF g None, of "[]" b] r None show ?thesis by (auto simp: kept_def)
  next
    case True
    show ?thesis
    proof (cases "ge_MaxCnt g = 0 \<or> ge_Cnt g < ge_MaxCnt g")
      case room: True
      obtain k' e' where "ge_fSet IF k b (ge_fAlloc IF) = (0, k', e')"
        using sets [of "ge_fAlloc IF"] by (metis fst_conv prod_cases3)
      from get_new [OF g None room this, of "[]"] obtain g' where
        g': "GElmGet IF [] k True b g = Some (GGot (Some (ge_Next g)) g')" "ok g'"
        "found g' = (\<lambda>a. if cmp k a = 0 then Some (ge_Next g) else found g a)"
        "ge_Elm g' = (ge_Elm g)(ge_Next g := \<lparr>e_Cnt = 1, e_Obj = e'\<rparr>)" by blast
      have rr: "r = GGot (Some (ge_Next g)) g'" using r True g'(1) by simp
      have "found g' c = Some q \<and> elm_obj g' q = elm_obj g q" if q: "found g c = Some q" for c q
      proof -
        have "q < ge_Next g" using q found_iff [OF g] ok_parts(4) [OF g, of q] by (simp add: bound_to_def)
        moreover have "cmp k c \<noteq> 0" using found_same [OF g, of k c] None q by auto
        ultimately show ?thesis using q by (simp add: g')
      qed
      then show ?thesis using rr g'(2,3) by (simp add: kept_def cmp_refl)
    next
      case full: False
      obtain h where h: "HashGet (ge_Hash g) k = (None, h)"
        using None HashGet_found [of g k] by (cases "HashGet (ge_Hash g) k") simp
      define g1 where "g1 = g\<lparr>ge_Hash := h\<rparr>"
      have g1: "ok g1" "found g1 = found g" "ge_Elm g1 = ge_Elm g"
        using ok_hash [OF g, of k] h by (simp_all add: g1_def)
      have ev: "GElm_evict IF [] k b g1 = Some r"
        using r True full h by (simp add: GElmGet_def g1_def Let_def del: GElm_evict.simps)
      have "found g1 k = None" using None g1(2) by simp
      from evict_frame [OF g1(1) this ev] sets keeps
      have "case r of GWait g' \<Rightarrow> ok g' \<and> kept b g1 g' | GGot po g' \<Rightarrow> ok g' \<and> found g' k = po \<and> kept b g1 g'"
        by blast
      moreover have "kept b g1 = kept b g" by (simp add: kept_def g1 fun_eq_iff)
      ultimately show ?thesis by (cases r) simp_all
    qed
  qed
qed

end

end
