(* ===== verification/Session_Types.thy ===== *)
theory Session_Types
  imports Gadget_Cache Paxos_Api
begin

text \<open>
  The data of the session server, from \<^verbatim>\<open>session/h/PaxosSession.h\<close> and
  \<^verbatim>\<open>session/src/PaxosSessionServer.c\<close>: the identity of a client, the head of its messages, the
  session of a client (\<open>PaxosAccept_t\<close>), out-of-band data, and the acceptor with the Paxos server
  below it. The application above is a record of functions; what it answers may depend on all that
  was done before, so each gets the trace of what the server did.
\<close>

section \<open>Messages\<close>

datatype PaxosCmd =
    PAXOS_SESSION_BIND | PAXOS_SESSION_ELECTION | PAXOS_SESSION_OPEN | PAXOS_SESSION_CLOSE
  | PAXOS_SESSION_BACKUP | PAXOS_SESSION_TRANSFER | PAXOS_SESSION_MARSHAL | PAXOS_SESSION_ABORT
  | PAXOS_SESSION_EVENT | PAXOS_SESSION_OB_PUSH | PAXOS_SESSION_OB_PULL | PAXOS_SESSION_LOCK
  | PAXOS_SESSION_ANY | PAXOS_SESSION_UNLOCK | PAXOS_SESSION_CLIENT_ABORT | PAXOS_SESSION_SHUTDOWN
  | PAXOS_SESSION_HEALTH | PAXOS_SESSION_ACCEPTOR | PAXOS_SESSION_DUMP | PAXOS_SESSION_AUTONOMIC
  | PAXOS_SESSION_DATA | PAXOS_SESSION_CHANGE_MEMBER | PAXOS_SESSION_GET_MEMBER
  | PAXOS_APPLICATION nat

record PaxosClientId_t =
  i_Addr :: sockaddr_in
  i_Pid :: int
  i_No :: int
  i_Time :: int
  i_Reuse :: u32
  i_Seq :: u32
  i_Try :: u32
  i_SeqWait :: u32

text \<open>A message is its head and the bytes that follow it.\<close>

record PaxosSessionHead_t =
  h_Cksum64 :: u64
  h_Cmd :: PaxosCmd
  h_Len :: int
  h_Id :: PaxosClientId_t
  h_Error :: int
  h_Code :: int
  h_From :: int
  h_Master :: int
  h_Epoch :: u32
  h_TimeoutUsec :: int
  h_UnitUsec :: int
  h_EventCnt :: int
  h_EventOmitted :: int
  h_Reader :: int
  h_Ver :: u32
  h_Body :: "u8 list"

definition client_zero :: PaxosClientId_t where
  "client_zero = \<lparr>i_Addr = addr_zero, i_Pid = 0, i_No = 0, i_Time = 0, i_Reuse = 0, i_Seq = 0,
     i_Try = 0, i_SeqWait = 0\<rparr>"

definition SESSION_MSGINIT :: "PaxosCmd \<Rightarrow> int \<Rightarrow> int \<Rightarrow> int \<Rightarrow> PaxosSessionHead_t" where
  "SESSION_MSGINIT cmd code err len =
     \<lparr>h_Cksum64 = 0, h_Cmd = cmd, h_Len = len, h_Id = client_zero, h_Error = err, h_Code = code,
      h_From = 0, h_Master = -1, h_Epoch = 0, h_TimeoutUsec = 0, h_UnitUsec = 0, h_EventCnt = 0,
      h_EventOmitted = 0, h_Reader = 0, h_Ver = 0, h_Body = []\<rparr>"

fun notify_code :: "PaxosNotify \<Rightarrow> int" where
  "notify_code PAXOS_OK = 0"
| "notify_code PAXOS_NOOP = 1"
| "notify_code PAXOS_NOT_ACTIVE = 2"
| "notify_code PAXOS_Im_NOT_MASTER = 3"
| "notify_code PAXOS_Im_MASTER = 4"
| "notify_code PAXOS_MASTER_ELECTED = 5"
| "notify_code PAXOS_MASTER_CANCELED = 6"
| "notify_code PAXOS_REJECTED = 7"
| "notify_code PAXOS_ACCEPTED = 8"
| "notify_code PAXOS_NOT_GET_PAGE = 9"
| "notify_code PAXOS_RECOVER = 10"
| "notify_code PAXOS_VALIDATE = 11"

abbreviation ERR_SESSION_NOT_FOUND :: int where "ERR_SESSION_NOT_FOUND \<equiv> 2"
abbreviation EVENT_MAX :: int where "EVENT_MAX \<equiv> 200"
abbreviation DT_SESSION_HEALTH :: int where "DT_SESSION_HEALTH \<equiv> 10"
abbreviation EEXIST :: int where "EEXIST \<equiv> 17"

section \<open>Sessions\<close>

text \<open>The keys of the table of sessions, and of the out-of-band data, which is one for each request.\<close>

definition HashSessionCode :: "PaxosClientId_t \<Rightarrow> u32" where
  "HashSessionCode pId = sin_addr (i_Addr pId) + word_of_int (i_Pid pId) + word_of_int (i_No pId)"

definition HashSessionCompare :: "PaxosClientId_t \<Rightarrow> PaxosClientId_t \<Rightarrow> int" where
  "HashSessionCompare pIdA pIdB =
     (if sin_addr (i_Addr pIdA) = sin_addr (i_Addr pIdB) \<and> i_Pid pIdA = i_Pid pIdB \<and>
         i_Time pIdA = i_Time pIdB \<and> i_No pIdA = i_No pIdB \<and> i_Reuse pIdA = i_Reuse pIdB
      then 0 else -1)"

definition AcceptorHashOutOfBandCode :: "PaxosClientId_t \<Rightarrow> u32" where
  "AcceptorHashOutOfBandCode pId =
     sin_addr (i_Addr pId) + word_of_int (i_Pid pId) + word_of_int (i_No pId) + i_Seq pId + i_Try pId"

definition AcceptorHashOutOfBandCompare :: "PaxosClientId_t \<Rightarrow> PaxosClientId_t \<Rightarrow> int" where
  "AcceptorHashOutOfBandCompare pIdA pIdB =
     (if sin_addr (i_Addr pIdA) = sin_addr (i_Addr pIdB) \<and> i_Pid pIdA = i_Pid pIdB \<and>
         i_No pIdA = i_No pIdB \<and> i_Time pIdA = i_Time pIdB \<and> i_Reuse pIdA = i_Reuse pIdB \<and>
         i_Seq pIdA = i_Seq pIdB \<and> i_Try pIdA = i_Try pIdB
      then 0 else -1)"

interpretation session_key: key_kind HashSessionCode HashSessionCompare
  by unfold_locales (auto simp: HashSessionCompare_def HashSessionCode_def split: if_splits)

interpretation outofband_key: key_kind AcceptorHashOutOfBandCode AcceptorHashOutOfBandCompare
  by unfold_locales (auto simp: AcceptorHashOutOfBandCompare_def AcceptorHashOutOfBandCode_def split: if_splits)

datatype PaxosAcceptOpen = ACCEPT_BINDED | ACCEPT_OPENING | ACCEPT_OPENED | ACCEPT_CLOSING

text \<open>
  \<open>a_Cmd\<close> is \<open>None\<close> where the code has -1. A \<open>Msg_t\<close> is the list of its pieces, each a head and its
  bytes; the replies kept for a client are a list of them. A connection is the address of its
  \<open>FdEvent\<close>.
\<close>

record PaxosAccept_t =
  a_pFd :: "nat option"
  a_Id :: PaxosClientId_t
  a_Opened :: PaxosAcceptOpen
  a_Cnt :: int
  a_Start :: u32
  a_End :: u32
  a_Reply :: u32
  a_Master :: bool
  a_Cmd :: "PaxosCmd option"
  r_Cnt :: int
  r_Hold :: bool
  r_Msg :: "PaxosSessionHead_t list list"
  ev_Cnt :: int
  ev_Omitted :: int
  ev_Send :: bool
  ev_pRaised :: "PaxosSessionHead_t list option"
  a_Create :: int
  a_Access :: int
  a_Health :: int

record AcceptorOutOfBand_t =
  o_Id :: PaxosClientId_t
  o_pData :: "PaxosSessionHead_t option"
  o_Last :: int
  o_Create :: int
  o_bValidate :: bool
  o_Seq :: u32
  o_bSaved :: bool

datatype timer = SessionGarbage_timer | ConnectAbort_timer PaxosClientId_t

text \<open>What the server does to the outside: streams to a client, calls of the application, timers.\<close>

datatype sfx =
    SxStream nat "PaxosSessionHead_t list"
  | SxOpen PaxosSessionHead_t
  | SxClose PaxosSessionHead_t
  | SxAccepted PaxosSessionHead_t
  | SxRequest nat PaxosSessionHead_t
  | SxRejected PaxosSessionHead_t
  | SxValidate u32 PaxosSessionHead_t int
  | SxAbort u32
  | SxSave PaxosSessionHead_t
  | SxRemove PaxosClientId_t
  | SxTimer int timer
  | SxLock
  | SxUnlock
  | SxBackup PaxosSessionHead_t
  | SxTransfer nat
  | SxMarshal nat
  | SxShutdown PaxosSessionHead_t u32
  | SxAny nat PaxosSessionHead_t
  | SxRaw nat
  | SxDisconnect nat
  | SxAdaptor PaxosClientId_t "u8 list"

record PaxosAcceptor_t =
  c_MyId :: nat
  c_Version :: u32
  c_aPeerAddr :: "nat \<Rightarrow> sockaddr_in"
  c_Maximum :: nat
  c_pPaxos :: Paxos_t
  c_bCksum :: bool
  c_Accept :: "(PaxosClientId_t, PaxosAccept_t) GElmCtrl"
  o_Lnk :: "nat list"
  o_Cnt :: int
  o_MemLimit :: int
  o_MemUsed :: int
  o_Hash :: "(PaxosClientId_t, nat) Hash"
  o_Out :: "nat \<Rightarrow> AcceptorOutOfBand_t"
  o_Next :: nat
  c_Enabled :: bool
  c_MasterWas :: int
  c_pFdFreeze :: "nat option"
  c_Ev :: "nat \<Rightarrow> nat option"
  c_Sfx :: "sfx list"

text \<open>
  The application (\<open>PaxosAcceptorIF_t\<close>) and the machine below: the calls an application makes on a
  session while it handles a request, and on others (\<open>AcRaise\<close>, \<open>AcReplyTo\<close>, as an unlock that
  answers the client that waits for the lock), what it does with a request of a worker: serve it at
  once, after \<open>PaxosAcceptedStart\<close> or without it, or have it decided by \<open>PaxosRequest\<close>, validated or
  not; the bytes of a head, the head a buffer of bytes begins with,
  the code \<open>SendStream\<close> returns, the offset of \<open>h_From\<close> in a head, the server and address a request
  to change a member carries, and the bytes of the cell.
\<close>

datatype appcall =
    AcReply bool PaxosSessionHead_t
  | AcHold
  | AcRelease
  | AcRaise nat PaxosSessionHead_t
  | AcReplyTo nat bool PaxosSessionHead_t

datatype app_request =
    AqServe bool int "appcall list"
  | AqPropose bool

record app =
  if_fSessionOpen :: "sfx list \<Rightarrow> PaxosSessionHead_t \<Rightarrow> int \<times> appcall list"
  if_fSessionClose :: "sfx list \<Rightarrow> PaxosSessionHead_t \<Rightarrow> int \<times> appcall list"
  if_fAccepted :: "sfx list \<Rightarrow> PaxosSessionHead_t \<Rightarrow> int \<times> appcall list"
  if_fRequest :: "sfx list \<Rightarrow> PaxosSessionHead_t \<Rightarrow> app_request"
  if_fRejected :: "sfx list \<Rightarrow> PaxosSessionHead_t \<Rightarrow> int"
  if_fValidate :: "sfx list \<Rightarrow> u32 \<Rightarrow> PaxosSessionHead_t \<Rightarrow> int \<Rightarrow> int"
  if_fOutOfBandSave :: "sfx list \<Rightarrow> PaxosSessionHead_t \<Rightarrow> int"
  if_fOutOfBandLoad :: "sfx list \<Rightarrow> PaxosClientId_t \<Rightarrow> PaxosSessionHead_t option"
  if_fLock :: "sfx list \<Rightarrow> int"
  if_fAdaptorMarshal :: "(PaxosAccept_t \<Rightarrow> u8 list) option"
  if_fAdaptorUnmarshal :: bool
  ap_image :: "PaxosSessionHead_t \<Rightarrow> u8 list"
  ap_parse :: "u8 list \<Rightarrow> PaxosSessionHead_t"
  ap_send :: "sfx list \<Rightarrow> nat \<Rightarrow> int"
  ap_ofs_From :: nat
  ap_member :: "PaxosSessionHead_t \<Rightarrow> int \<times> sockaddr_in"
  ap_cell :: "u32 \<Rightarrow> (nat \<Rightarrow> sockaddr_in) \<Rightarrow> u8 list"

definition msg_image :: "app \<Rightarrow> PaxosSessionHead_t \<Rightarrow> u8 list" where
  "msg_image AP pH = ap_image AP pH @ h_Body pH"

text \<open>The size of a head.\<close>

definition SIZEOF_HEAD :: "app \<Rightarrow> int" where
  "SIZEOF_HEAD AP = int (length (ap_image AP (SESSION_MSGINIT PAXOS_SESSION_BIND 0 0 0)))"

abbreviation acc :: "PaxosAcceptor_t \<Rightarrow> nat \<Rightarrow> PaxosAccept_t" where
  "acc A p \<equiv> elm_obj (c_Accept A) p"

definition set_acc :: "nat \<Rightarrow> (PaxosAccept_t \<Rightarrow> PaxosAccept_t) \<Rightarrow> PaxosAcceptor_t \<Rightarrow> PaxosAcceptor_t" where
  "set_acc p f A = A\<lparr>c_Accept := set_elm p (\<lambda>e. e\<lparr>e_Obj := f (e_Obj e)\<rparr>) (c_Accept A)\<rparr>"

definition sfx_emit :: "sfx \<Rightarrow> PaxosAcceptor_t \<Rightarrow> PaxosAcceptor_t" where
  "sfx_emit x A = A\<lparr>c_Sfx := c_Sfx A @ [x]\<rparr>"

text \<open>The functions of \<open>Paxos.c\<close> that read a field for the layer above.\<close>

definition PaxosIsIamMaster :: "Paxos_t \<Rightarrow> bool" where "PaxosIsIamMaster s = IamMaster s"
definition PaxosGetMaster :: "Paxos_t \<Rightarrow> int" where "PaxosGetMaster s = Elected s"
definition PaxosEpoch :: "Paxos_t \<Rightarrow> u32" where "PaxosEpoch s = Epoch s"
definition PaxosUnitUsec :: "Paxos_t \<Rightarrow> int" where "PaxosUnitUsec s = p_UnitUsec s"
definition PaxosGetReader :: "Paxos_t \<Rightarrow> int" where "PaxosGetReader s = EReader s"
definition PaxosGetMax :: "Paxos_t \<Rightarrow> nat" where "PaxosGetMax s = p_Max s"
definition PaxosCatchupRecvLast :: "Paxos_t \<Rightarrow> timespec" where "PaxosCatchupRecvLast s = p_CatchupRecvLast s"

section \<open>The table of sessions\<close>

definition AcceptAlloc :: "env \<Rightarrow> PaxosAccept_t" where
  "AcceptAlloc E =
     \<lparr>a_pFd = None, a_Id = client_zero, a_Opened = ACCEPT_BINDED, a_Cnt = 0, a_Start = 0, a_End = 0,
      a_Reply = 0, a_Master = False, a_Cmd = None, r_Cnt = 0, r_Hold = False, r_Msg = [], ev_Cnt = 0,
      ev_Omitted = 0, ev_Send = False, ev_pRaised = None, a_Create = time0 E, a_Access = 0, a_Health = 0\<rparr>"

definition AcceptSet :: "PaxosClientId_t \<Rightarrow> bool \<Rightarrow> PaxosAccept_t \<Rightarrow> int \<times> PaxosClientId_t \<times> PaxosAccept_t" where
  "AcceptSet pId bLoad pA = (0, pId, pA\<lparr>a_Id := pId\<rparr>)"

definition AcceptUnset :: "bool \<Rightarrow> PaxosAccept_t \<Rightarrow> int \<times> PaxosClientId_t \<times> PaxosAccept_t" where
  "AcceptUnset bSave pA =
     (if a_Opened pA \<noteq> ACCEPT_BINDED then (-1, a_Id pA, pA)
      else (0, a_Id pA, pA\<lparr>r_Msg := [], ev_pRaised := None\<rparr>))"

definition AcceptIF :: "env \<Rightarrow> (PaxosClientId_t, PaxosAccept_t) GElmIF" where
  "AcceptIF E = \<lparr>ge_fAlloc = AcceptAlloc E, ge_fSet = AcceptSet, ge_fUnset = AcceptUnset\<rparr>"

interpretation sessions: elm_owner HashSessionCode HashSessionCompare "AcceptIF E" a_Id
  by unfold_locales
    (auto simp: AcceptIF_def AcceptSet_def AcceptUnset_def session_key.cmp_refl split: if_splits)

text \<open>
  A call that may have to wait: \<open>Waits\<close> is the state in which it waits, \<open>Goes\<close> its result. A call
  that polls gets the list of the states it finds when it polls again.
\<close>

datatype 'a wait = Waits PaxosAcceptor_t | Goes 'a

definition PaxosAcceptGet ::
  "env \<Rightarrow> PaxosClientId_t \<Rightarrow> bool \<Rightarrow> PaxosAcceptor_t \<Rightarrow> (nat option \<times> PaxosAcceptor_t) wait option" where
  "PaxosAcceptGet E pId bCreate A =
     map_option (\<lambda>r. case r of
         GGot p g \<Rightarrow> Goes (p, A\<lparr>c_Accept := g\<rparr>)
       | GWait g \<Rightarrow> Waits (A\<lparr>c_Accept := g\<rparr>))
       (GElmGet (AcceptIF E) [] pId bCreate True (c_Accept A))"

definition PaxosAcceptPut :: "env \<Rightarrow> nat \<Rightarrow> PaxosAcceptor_t \<Rightarrow> (int \<times> PaxosAcceptor_t) option" where
  "PaxosAcceptPut E p A =
     map_option (\<lambda>(Ret, g). (Ret, A\<lparr>c_Accept := g\<rparr>)) (GElmPut (AcceptIF E) p True True (c_Accept A))"

end
