(* ===== verification/Session_Accept.thy ===== *)
theory Session_Accept
  imports Session_Types
begin

text \<open>
  A session of the server, from \<^verbatim>\<open>session/src/PaxosSessionServer.c\<close>: the detection of requests that
  were accepted before, the order of a client's requests, the replies kept for a client until its
  next request, and the events raised for it.
\<close>

section \<open>Sending\<close>

text \<open>What every message to a client carries of the state of the server.\<close>

definition stamp :: "PaxosAcceptor_t \<Rightarrow> nat \<Rightarrow> PaxosSessionHead_t \<Rightarrow> PaxosSessionHead_t" where
  "stamp A p pRpl = pRpl\<lparr>h_Id := a_Id (acc A p), h_From := int (c_MyId A),
     h_TimeoutUsec := PaxosMasterElectionTimeout (c_pPaxos A), h_UnitUsec := PaxosUnitUsec (c_pPaxos A),
     h_Reader := PaxosGetReader (c_pPaxos A), h_Ver := c_Version A\<rparr>"

definition SendStream :: "app \<Rightarrow> nat \<Rightarrow> PaxosSessionHead_t list \<Rightarrow> PaxosAcceptor_t \<Rightarrow> int \<times> PaxosAcceptor_t" where
  "SendStream AP fd ms A = (ap_send AP (c_Sfx A) fd, sfx_emit (SxStream fd ms) A)"

definition PaxosAcceptSend :: "app \<Rightarrow> nat \<Rightarrow> PaxosSessionHead_t \<Rightarrow> PaxosAcceptor_t \<Rightarrow> (int \<times> PaxosAcceptor_t) option" where
  "PaxosAcceptSend AP p pRpl A =
     (let pRpl = stamp A p pRpl in
      case a_pFd (acc A p) of
        None \<Rightarrow> Some (0, A)
      | Some fd \<Rightarrow>
          let pRpl = pRpl\<lparr>h_Cksum64 := 0\<rparr>
          in do {
            pRpl \<leftarrow> (if c_bCksum A
                then do { ck \<leftarrow> in_cksum64 (msg_image AP pRpl) 0; Some (pRpl\<lparr>h_Cksum64 := ck\<rparr>) }
                else Some pRpl);
            Some (SendStream AP fd [pRpl] A)
          })"

section \<open>Replies\<close>

text \<open>
  The checksum of the kept messages: each is summed at the word offset where the one before it
  ended.
\<close>

definition msg_vec :: "app \<Rightarrow> PaxosSessionHead_t list \<Rightarrow> MsgVec_t list" where
  "msg_vec AP = map (\<lambda>m. \<lparr>v_Disabled = False, v_Data = msg_image AP m\<rparr>)"

fun reply_sum :: "app \<Rightarrow> PaxosSessionHead_t list list \<Rightarrow> u64 \<Rightarrow> nat \<Rightarrow> u64 option" where
  "reply_sum AP [] sum64 res = Some sum64"
| "reply_sum AP (pMsg # ms) sum64 res =
     do {
       (cksum64, res) \<leftarrow> MsgCksum64 (msg_vec AP pMsg) 0 0 res;
       reply_sum AP ms (add_carry sum64 (NOT cksum64)) res
     }"

definition PaxosAcceptRelease1 :: "app \<Rightarrow> nat \<Rightarrow> PaxosAcceptor_t \<Rightarrow> (int \<times> PaxosAcceptor_t) option" where
  "PaxosAcceptRelease1 AP p A =
     (let a = acc A p in
      if r_Hold a then Some (-1, A)
      else case a_pFd a of
        None \<Rightarrow> Some (0, A)
      | Some fd \<Rightarrow>
          if \<not> c_Enabled A then Some (0, A)
          else if a_Master a \<and> \<not> PaxosIsIamMaster (c_pPaxos A) then Some (0, A)
          else (case r_Msg a of
              (m # ms) # msgs \<Rightarrow>
                let len = int (sum_list (map (\<lambda>pMsg. MsgTotalLen (msg_vec AP pMsg)) (r_Msg a)));
                    pRpl = (stamp A p m)\<lparr>h_Master := PaxosGetMaster (c_pPaxos A), h_Cksum64 := 0, h_Len := len\<rparr>
                in do {
                  sum64 \<leftarrow> reply_sum AP ((pRpl # ms) # msgs) 0 0;
                  let pRpl = pRpl\<lparr>h_Cksum64 := NOT sum64\<rparr>;
                  Some (SendStream AP fd (concat ((pRpl # ms) # msgs))
                    (set_acc p (\<lambda>a. a\<lparr>r_Msg := (pRpl # ms) # msgs\<rparr>) A))
                }
            | _ \<Rightarrow> None))"

definition PaxosAcceptFreeReply :: "nat \<Rightarrow> PaxosAcceptor_t \<Rightarrow> PaxosAcceptor_t" where
  "PaxosAcceptFreeReply p A = set_acc p (\<lambda>a. a\<lparr>r_Msg := [], r_Cnt := 0\<rparr>) A"

definition PaxosAcceptHold :: "nat \<Rightarrow> PaxosAcceptor_t \<Rightarrow> PaxosAcceptor_t" where
  "PaxosAcceptHold p A = set_acc p (\<lambda>a. a\<lparr>r_Hold := True\<rparr>) (PaxosAcceptFreeReply p A)"

definition PaxosAcceptRelease :: "app \<Rightarrow> nat \<Rightarrow> PaxosAcceptor_t \<Rightarrow> (int \<times> PaxosAcceptor_t) option" where
  "PaxosAcceptRelease AP p A = PaxosAcceptRelease1 AP p (set_acc p (\<lambda>a. a\<lparr>r_Hold := False\<rparr>) A)"

definition PaxosAcceptReplyByMsg1 ::
  "app \<Rightarrow> nat \<Rightarrow> PaxosSessionHead_t list option \<Rightarrow> PaxosAcceptor_t \<Rightarrow> (int \<times> PaxosAcceptor_t) option" where
  "PaxosAcceptReplyByMsg1 AP p pMsg A =
     (case pMsg of
        None \<Rightarrow> PaxosAcceptRelease1 AP p A
      | Some ms \<Rightarrow>
          let A = set_acc p (\<lambda>a. a\<lparr>a_Reply := a_Start a\<rparr>) A;
              A = (if \<not> r_Hold (acc A p) then PaxosAcceptFreeReply p A else A);
              A = set_acc p (\<lambda>a. a\<lparr>r_Msg := r_Msg a @ [ms], r_Cnt := r_Cnt a + 1\<rparr>) A
          in if \<not> r_Hold (acc A p) then PaxosAcceptRelease1 AP p A else Some (0, A))"

definition PaxosAcceptReplyByMsg ::
  "app \<Rightarrow> nat \<Rightarrow> bool \<Rightarrow> PaxosSessionHead_t list \<Rightarrow> PaxosAcceptor_t \<Rightarrow> (int \<times> PaxosAcceptor_t) option" where
  "PaxosAcceptReplyByMsg AP p Master ms A =
     PaxosAcceptReplyByMsg1 AP p (Some ms) (set_acc p (\<lambda>a. a\<lparr>a_Master := Master\<rparr>) A)"

definition PaxosAcceptOpenReplyByMsg :: "app \<Rightarrow> nat \<Rightarrow> int \<Rightarrow> PaxosAcceptor_t \<Rightarrow> (int \<times> PaxosAcceptor_t) option" where
  "PaxosAcceptOpenReplyByMsg AP p Error A =
     PaxosAcceptReplyByMsg AP p True [SESSION_MSGINIT PAXOS_SESSION_OPEN 0 Error (SIZEOF_HEAD AP)] A"

definition PaxosAcceptReplyCloseByMsg :: "app \<Rightarrow> nat \<Rightarrow> int \<Rightarrow> PaxosAcceptor_t \<Rightarrow> (int \<times> PaxosAcceptor_t) option" where
  "PaxosAcceptReplyCloseByMsg AP p Error A =
     PaxosAcceptReplyByMsg AP p True [SESSION_MSGINIT PAXOS_SESSION_CLOSE 0 Error (SIZEOF_HEAD AP)] A"

section \<open>Requests accepted before\<close>

text \<open>
  A client that opens again under the same identity waits until the session is closed; the wake-ups
  are what it finds after each \<open>usleep\<close>.
\<close>

fun reuse_wait :: "nat \<Rightarrow> PaxosAcceptor_t list \<Rightarrow> PaxosAcceptor_t \<Rightarrow> PaxosAcceptor_t wait" where
  "reuse_wait p [] A = (if a_Opened (acc A p) = ACCEPT_BINDED then Goes A else Waits A)"
| "reuse_wait p (A' # ws) A = (if a_Opened (acc A p) = ACCEPT_BINDED then Goes A else reuse_wait p ws A')"

definition session_reset :: "PaxosAccept_t \<Rightarrow> PaxosAccept_t" where
  "session_reset a = a\<lparr>a_Opened := ACCEPT_BINDED, a_Cnt := 0, a_Start := 0, a_End := 0, a_Reply := 0,
     a_Master := False, a_Cmd := None, r_Cnt := 0, r_Hold := False, ev_Cnt := 0, ev_Omitted := 0,
     ev_Send := False\<rparr>"

definition is_reuse :: "PaxosAccept_t \<Rightarrow> PaxosSessionHead_t \<Rightarrow> bool" where
  "is_reuse a pH \<longleftrightarrow> h_Cmd pH = PAXOS_SESSION_OPEN \<and> a_Cmd a \<noteq> None \<and> a_Cmd a \<noteq> Some PAXOS_SESSION_OPEN"

definition IsAccepted_check ::
  "app \<Rightarrow> nat \<Rightarrow> PaxosSessionHead_t \<Rightarrow> PaxosAcceptor_t \<Rightarrow> (int \<times> PaxosAcceptor_t) option" where
  "IsAccepted_check AP p pH A =
     (let a = acc A p; seq = i_Seq (h_Id pH) in
      if CMP seq (a_Reply a) < 0 then Some (-1, A)
      else if a_Reply a = seq then
        (if a_Cmd a = Some (h_Cmd pH) then do {
           (n, A) \<leftarrow> PaxosAcceptReplyByMsg1 AP p None A;
           Some (1, A)
         }
         else do { ASSERT (CMP (a_Start a) seq > 0); Some (-2, A) })
      else if a_Start a = seq \<and> a_Cmd a = Some (h_Cmd pH) then Some (-3, A)
      else Some (0, A))"

definition PaxosAcceptIsAccepted ::
  "app \<Rightarrow> PaxosAcceptor_t list \<Rightarrow> nat \<Rightarrow> PaxosSessionHead_t \<Rightarrow> PaxosAcceptor_t
    \<Rightarrow> (int \<times> PaxosAcceptor_t) wait option" where
  "PaxosAcceptIsAccepted AP ws p pH A =
     (if is_reuse (acc A p) pH then
        (case reuse_wait p ws A of
           Waits A \<Rightarrow> Some (Waits A)
         | Goes A \<Rightarrow> map_option Goes (IsAccepted_check AP p pH (set_acc p session_reset A)))
      else map_option Goes (IsAccepted_check AP p pH A))"

text \<open>\<open>ACCEPTED_SEQ\<close>, and \<open>PaxosAcceptedStart\<close>, which waits for the updates the request follows.\<close>

definition ACCEPTED_SEQ :: "PaxosSessionHead_t \<Rightarrow> PaxosAccept_t \<Rightarrow> PaxosAccept_t" where
  "ACCEPTED_SEQ pH a = a\<lparr>a_Id := (a_Id a)\<lparr>i_Seq := i_Seq (h_Id pH)\<rparr>, a_Start := i_Seq (h_Id pH),
     a_Cmd := Some (h_Cmd pH)\<rparr>"

fun PaxosAcceptedStart ::
  "PaxosAcceptor_t list \<Rightarrow> nat \<Rightarrow> PaxosSessionHead_t \<Rightarrow> PaxosAcceptor_t \<Rightarrow> PaxosAcceptor_t wait" where
  "PaxosAcceptedStart ws p pH A =
     (if h_Cmd pH = PAXOS_SESSION_OPEN \<or> CMP (i_SeqWait (h_Id pH)) (a_End (acc A p)) \<le> 0
      then Goes (set_acc p (ACCEPTED_SEQ pH) A)
      else case ws of
        [] \<Rightarrow> Waits (set_acc p (\<lambda>a. a\<lparr>a_Cnt := a_Cnt a + 1\<rparr>) A)
      | A' # ws \<Rightarrow> PaxosAcceptedStart ws p pH (set_acc p (\<lambda>a. a\<lparr>a_Cnt := a_Cnt a - 1\<rparr>) A'))"

definition PaxosAcceptedEnd :: "nat \<Rightarrow> PaxosClientId_t \<Rightarrow> PaxosAcceptor_t \<Rightarrow> PaxosAcceptor_t option" where
  "PaxosAcceptedEnd p pId A =
     do {
       ASSERT (i_Seq pId = a_Start (acc A p));
       Some (set_acc p (\<lambda>a. a\<lparr>a_End := i_Seq pId\<rparr>) A)
     }"

section \<open>Events\<close>

definition PaxosAcceptEventRaise ::
  "app \<Rightarrow> nat \<Rightarrow> PaxosSessionHead_t \<Rightarrow> PaxosAcceptor_t \<Rightarrow> (int \<times> PaxosAcceptor_t) option" where
  "PaxosAcceptEventRaise AP p pH A =
     (let raised = (case ev_pRaised (acc A p) of Some ms \<Rightarrow> ms | None \<Rightarrow> []);
          A = set_acc p (\<lambda>a. a\<lparr>ev_pRaised := Some raised\<rparr>) A
      in if \<not> ev_Send (acc A p) then
           Some (0, set_acc p (\<lambda>a. if ev_Cnt a < EVENT_MAX
               then a\<lparr>ev_pRaised := Some (raised @ [pH]), ev_Cnt := ev_Cnt a + 1\<rparr>
               else a\<lparr>ev_Omitted := ev_Omitted a + 1\<rparr>) A)
         else do {
           ASSERT (ev_Cnt (acc A p) = 0);
           let pRpl = (SESSION_MSGINIT PAXOS_SESSION_EVENT 0 0 (SIZEOF_HEAD AP + h_Len pH))
                 \<lparr>h_EventCnt := 1, h_EventOmitted := ev_Omitted (acc A p)\<rparr>;
           (Ret, A) \<leftarrow> PaxosAcceptReplyByMsg1 AP p (Some (raised @ [pRpl, pH])) A;
           Some (Ret, set_acc p (\<lambda>a. a\<lparr>ev_pRaised := None, ev_Send := False\<rparr>) A)
         })"

definition PaxosAcceptEventGet :: "app \<Rightarrow> nat \<Rightarrow> PaxosAcceptor_t \<Rightarrow> (int \<times> PaxosAcceptor_t) option" where
  "PaxosAcceptEventGet AP p A =
     (let a = acc A p in
      if ev_Cnt a > 0 then
        (case ev_pRaised a of
           None \<Rightarrow> None
         | Some raised \<Rightarrow>
             let pRpl = (SESSION_MSGINIT PAXOS_SESSION_EVENT 0 0
                   (SIZEOF_HEAD AP + int (MsgTotalLen (msg_vec AP raised))))
                   \<lparr>h_EventCnt := ev_Cnt a, h_EventOmitted := ev_Omitted a\<rparr>;
                 A = set_acc p (\<lambda>a. a\<lparr>ev_Cnt := 0, ev_Omitted := 0\<rparr>) A
             in do {
               (Ret, A) \<leftarrow> PaxosAcceptReplyByMsg1 AP p (Some (pRpl # raised)) A;
               Some (Ret, set_acc p (\<lambda>a. a\<lparr>ev_pRaised := None\<rparr>) A)
             })
      else Some (0, set_acc p (\<lambda>a. a\<lparr>ev_Send := True\<rparr>) A))"

text \<open>The calls an application makes while it handles a request of session \<open>p\<close>.\<close>

fun do_appcall :: "app \<Rightarrow> nat \<Rightarrow> appcall \<Rightarrow> PaxosAcceptor_t \<Rightarrow> PaxosAcceptor_t option" where
  "do_appcall AP p (AcReply master m) A = map_option snd (PaxosAcceptReplyByMsg AP p master [m] A)"
| "do_appcall AP p AcHold A = Some (PaxosAcceptHold p A)"
| "do_appcall AP p AcRelease A = map_option snd (PaxosAcceptRelease AP p A)"
| "do_appcall AP p (AcRaise q m) A = map_option snd (PaxosAcceptEventRaise AP q m A)"
| "do_appcall AP p (AcReplyTo q master m) A = map_option snd (PaxosAcceptReplyByMsg AP q master [m] A)"

end
