(* ===== verification/Session_OutOfBand.thy ===== *)
theory Session_OutOfBand
  imports Session_Accept
begin

text \<open>
  Out-of-band data, from \<^verbatim>\<open>session/src/PaxosSessionServer.c\<close>: the large part of a request goes to the
  servers beside the Paxos command, and is kept, in memory up to a limit and beyond it in files of
  the application, until the request is executed and its page archived.
\<close>

abbreviation out :: "PaxosAcceptor_t \<Rightarrow> nat \<Rightarrow> AcceptorOutOfBand_t" where "out A q \<equiv> o_Out A q"

definition set_out :: "nat \<Rightarrow> (AcceptorOutOfBand_t \<Rightarrow> AcceptorOutOfBand_t) \<Rightarrow> PaxosAcceptor_t \<Rightarrow> PaxosAcceptor_t" where
  "set_out q f A = A\<lparr>o_Out := (o_Out A)(q := f (o_Out A q))\<rparr>"

section \<open>The cache\<close>

text \<open>The loop that makes room for \<open>len\<close> bytes: the data of other requests goes to files.\<close>

definition outofband_save :: "app \<Rightarrow> nat \<Rightarrow> PaxosSessionHead_t \<Rightarrow> PaxosAcceptor_t \<Rightarrow> PaxosAcceptor_t option" where
  "outofband_save AP l d A =
     (if o_bSaved (out A l) then Some A
      else do {
        ASSERT (if_fOutOfBandSave AP (c_Sfx A) d = 0);
        Some (set_out l (\<lambda>b. b\<lparr>o_bSaved := True\<rparr>) (sfx_emit (SxSave d) A))
      })"

fun outofband_evict :: "app \<Rightarrow> nat \<Rightarrow> int \<Rightarrow> nat list \<Rightarrow> PaxosAcceptor_t \<Rightarrow> PaxosAcceptor_t option" where
  "outofband_evict AP q len [] A = Some A"
| "outofband_evict AP q len (l # ls) A =
     (if o_MemUsed A + len < o_MemLimit A then Some A
      else if l = q then outofband_evict AP q len ls A
      else case o_pData (out A l) of
        None \<Rightarrow> outofband_evict AP q len ls A
      | Some d \<Rightarrow> do {
          A \<leftarrow> outofband_save AP l d A;
          outofband_evict AP q len ls
            (set_out l (\<lambda>b. b\<lparr>o_pData := None\<rparr>) (A\<lparr>o_MemUsed := o_MemUsed A - h_Len d\<rparr>))
        })"

definition AcceptorOutOfBandCache :: "app \<Rightarrow> nat \<Rightarrow> PaxosAcceptor_t \<Rightarrow> PaxosAcceptor_t option" where
  "AcceptorOutOfBandCache AP q A =
     do {
       d \<leftarrow> o_pData (out A q);
       A \<leftarrow> outofband_evict AP q (h_Len d) (o_Lnk A) A;
       let A = A\<lparr>o_MemUsed := o_MemUsed A + h_Len d\<rparr>;
       ASSERT (o_MemUsed A < o_MemLimit A);
       Some A
     }"

definition OUTOFBAND_ALLOC :: "env \<Rightarrow> PaxosClientId_t \<Rightarrow> AcceptorOutOfBand_t" where
  "OUTOFBAND_ALLOC E pId = \<lparr>o_Id = pId, o_pData = None, o_Last = 0, o_Create = time0 E,
     o_bValidate = False, o_Seq = 0, o_bSaved = False\<rparr>"

text \<open>A new entry: allocated, put into the table and appended to the list.\<close>

definition outofband_new :: "env \<Rightarrow> PaxosClientId_t \<Rightarrow> PaxosAcceptor_t \<Rightarrow> nat \<times> PaxosAcceptor_t" where
  "outofband_new E pId A =
     (let q = o_Next A
      in (q, A\<lparr>o_Out := (o_Out A)(q := OUTOFBAND_ALLOC E pId), o_Next := q + 1,
             o_Hash := HashPut (o_Hash A) pId q, o_Lnk := o_Lnk A @ [q], o_Cnt := o_Cnt A + 1\<rparr>))"

definition outofband_find :: "PaxosClientId_t \<Rightarrow> PaxosAcceptor_t \<Rightarrow> nat option \<times> PaxosAcceptor_t" where
  "outofband_find pId A = (case HashGet (o_Hash A) pId of (r, h) \<Rightarrow> (r, A\<lparr>o_Hash := h\<rparr>))"

text \<open>The checksum a message carries is checked when there is one.\<close>

definition cksum_ok :: "app \<Rightarrow> PaxosSessionHead_t \<Rightarrow> bool" where
  "cksum_ok AP pM \<longleftrightarrow> h_Cksum64 pM = 0 \<or> in_cksum64 (msg_image AP pM) 0 = Some 0"

definition PaxosAcceptorOutOfBandGet ::
  "env \<Rightarrow> app \<Rightarrow> PaxosClientId_t \<Rightarrow> PaxosAcceptor_t \<Rightarrow> (PaxosSessionHead_t option \<times> PaxosAcceptor_t) option" where
  "PaxosAcceptorOutOfBandGet E AP pId A =
     (case outofband_find pId A of
        (Some q, A) \<Rightarrow>
          (case o_pData (out A q) of
             Some d \<Rightarrow> Some (Some d, A)
           | None \<Rightarrow>
               (case if_fOutOfBandLoad AP (c_Sfx A) pId of
                  None \<Rightarrow> Some (None, A)
                | Some pH \<Rightarrow> do {
                    ASSERT (cksum_ok AP pH);
                    A \<leftarrow> AcceptorOutOfBandCache AP q (set_out q (\<lambda>b. b\<lparr>o_pData := Some pH\<rparr>) A);
                    Some (Some pH, A)
                  }))
      | (None, A) \<Rightarrow>
          (case if_fOutOfBandLoad AP (c_Sfx A) pId of
             None \<Rightarrow> Some (None, A)
           | Some pH \<Rightarrow>
               (case outofband_new E pId A of (q, A) \<Rightarrow> do {
                  A \<leftarrow> AcceptorOutOfBandCache AP q (set_out q (\<lambda>b. b\<lparr>o_pData := Some pH\<rparr>) A);
                  Some (Some pH, A)
                })))"

definition OutOfBandRemove :: "nat \<Rightarrow> PaxosAcceptor_t \<Rightarrow> PaxosAcceptor_t" where
  "OutOfBandRemove q A =
     (let pId = o_Id (out A q);
          A = (if o_bSaved (out A q) then sfx_emit (SxRemove pId) A else A);
          A = A\<lparr>o_Lnk := remove1 q (o_Lnk A), o_Hash := snd (HashRemove (o_Hash A) pId), o_Cnt := o_Cnt A - 1\<rparr>;
          A = (case o_pData (out A q) of
                 Some d \<Rightarrow> A\<lparr>o_MemUsed := o_MemUsed A - h_Len d\<rparr>
               | None \<Rightarrow> A)
      in set_out q (\<lambda>b. b\<lparr>o_pData := None\<rparr>) A)"

text \<open>Data that would not fit the memory is replaced by its head.\<close>

definition outofband_cut :: "app \<Rightarrow> PaxosAcceptor_t \<Rightarrow> PaxosSessionHead_t \<Rightarrow> PaxosSessionHead_t option" where
  "outofband_cut AP A pM =
     (if h_Len pM < o_MemLimit A then Some pM
      else
        let pMsg = pM\<lparr>h_Len := SIZEOF_HEAD AP, h_Cksum64 := 0, h_Body := []\<rparr>
        in if c_bCksum A
           then do { ck \<leftarrow> in_cksum64 (msg_image AP pMsg) 0; Some (pMsg\<lparr>h_Cksum64 := ck\<rparr>) }
           else Some pMsg)"

definition PaxosAcceptorOutOfBandPush ::
  "env \<Rightarrow> app \<Rightarrow> PaxosSessionHead_t \<Rightarrow> PaxosAcceptor_t \<Rightarrow> (nat \<times> PaxosAcceptor_t) option" where
  "PaxosAcceptorOutOfBandPush E AP pM A =
     do {
       ASSERT (cksum_ok AP pM);
       pM \<leftarrow> outofband_cut AP A pM;
       let (q, A) = (case outofband_find (h_Id pM) A of
             (None, A) \<Rightarrow> outofband_new E (h_Id pM) A
           | (Some q, A) \<Rightarrow>
               (q, if o_bSaved (out A q)
                   then set_out q (\<lambda>b. b\<lparr>o_bSaved := False\<rparr>) (sfx_emit (SxRemove (o_Id (out A q))) A)
                   else A));
       let A = set_out q (\<lambda>b. b\<lparr>o_pData := Some pM, o_Last := time0 E +
             cdiv (PaxosDecidedTimeout (c_pPaxos A) + PaxosMasterElectionTimeout (c_pPaxos A)) 1000000\<rparr>) A;
       A \<leftarrow> AcceptorOutOfBandCache AP q A;
       Some (q, A)
     }"

section \<open>Pull and validation\<close>

text \<open>The bytes of an \<open>int\<close>.\<close>

definition int_bytes :: "int \<Rightarrow> u8 list" where
  "int_bytes x = map (\<lambda>i. word_of_int (x div 2 ^ (8 * i))) [0..<4]"

text \<open>A pulled message is sent with its sender changed, and its checksum updated for the change.\<close>

definition PaxosAcceptorOutOfBandPull ::
  "env \<Rightarrow> app \<Rightarrow> PaxosSessionHead_t \<Rightarrow> nat \<Rightarrow> PaxosAcceptor_t \<Rightarrow> (int \<times> PaxosAcceptor_t) option" where
  "PaxosAcceptorOutOfBandPull E AP pM fd A =
     do {
       (r, A) \<leftarrow> PaxosAcceptorOutOfBandGet E AP (h_Id pM) A;
       case r of
         None \<Rightarrow> Some (-1, sfx_emit (SxDisconnect fd) A)
       | Some pH \<Rightarrow> do {
           ck \<leftarrow> (if c_bCksum A
                 then in_cksum64_update (h_Cksum64 pH) (int_bytes (h_From pH)) (ap_ofs_From AP mod 8)
                        (int_bytes (int (c_MyId A))) (ap_ofs_From AP mod 8)
                 else Some (h_Cksum64 pH));
           let pH = pH\<lparr>h_Cksum64 := ck, h_From := int (c_MyId A)\<rparr>;
           let A = (case fst (outofband_find (h_Id pM) A) of
                 Some q \<Rightarrow> set_out q (\<lambda>b. b\<lparr>o_pData := Some pH\<rparr>) A | None \<Rightarrow> A);
           let (Ret, A) = SendStream AP fd [pH] A;
           Some (if Ret \<noteq> 0 then -1 else 0, A)
         }
     }"

text \<open>
  The search from the end of the list for the place of a sequence number among the validated
  entries: \<open>None\<close> is an abort, and \<open>Some None\<close> the front of the list.
\<close>

fun outofband_prev :: "PaxosAcceptor_t \<Rightarrow> u32 \<Rightarrow> nat \<Rightarrow> nat list \<Rightarrow> nat option option" where
  "outofband_prev A seq cnt [] = (if PAXOS_MAX < cnt then None else Some None)"
| "outofband_prev A seq cnt (l # ls) =
     (if \<not> o_bValidate (out A l) then outofband_prev A seq cnt ls
      else if PAXOS_MAX < cnt then None
      else if CMP (o_Seq (out A l)) seq < 0 then Some (Some l)
      else outofband_prev A seq (cnt + 1) ls)"

fun insert_after :: "nat \<Rightarrow> nat \<Rightarrow> nat list \<Rightarrow> nat list" where
  "insert_after p q [] = [q]"
| "insert_after p q (l # ls) = (if l = p then l # q # ls else l # insert_after p q ls)"

definition outofband_order :: "u32 \<Rightarrow> nat \<Rightarrow> PaxosAcceptor_t \<Rightarrow> PaxosAcceptor_t option" where
  "outofband_order seq q A =
     (if o_bValidate (out A q) \<and> o_Seq (out A q) = seq then Some A
      else
        let A = set_out q (\<lambda>b. b\<lparr>o_bValidate := True, o_Seq := seq\<rparr>) (A\<lparr>o_Lnk := remove1 q (o_Lnk A)\<rparr>)
        in do {
          prev \<leftarrow> outofband_prev A seq 0 (rev (o_Lnk A));
          Some (A\<lparr>o_Lnk := (case prev of None \<Rightarrow> q # o_Lnk A | Some p \<Rightarrow> insert_after p q (o_Lnk A))\<rparr>)
        })"

text \<open>
  The validation of a request from server \<open>j\<close>: data that is missing is pulled from the server,
  whose answer is \<open>got\<close>, \<open>None\<close> when the connection fails.
\<close>

definition PaxosAcceptorOutOfBandValidate ::
  "env \<Rightarrow> app \<Rightarrow> PaxosSessionHead_t option \<Rightarrow> u32 \<Rightarrow> PaxosSessionHead_t \<Rightarrow> int \<Rightarrow> PaxosAcceptor_t
    \<Rightarrow> (int \<times> PaxosAcceptor_t) option" where
  "PaxosAcceptorOutOfBandValidate E AP got seq pH j A =
     (case outofband_find (h_Id pH) A of
        (Some q, A) \<Rightarrow> map_option (\<lambda>A. (0, A)) (outofband_order seq q A)
      | (None, A) \<Rightarrow>
          if j = int (c_MyId A) then Some (0, A)
          else (case got of
              None \<Rightarrow> Some (-1, A)
            | Some pM \<Rightarrow> do {
                ASSERT (cksum_ok AP pM);
                (q, A) \<leftarrow> PaxosAcceptorOutOfBandPush E AP pM A;
                map_option (\<lambda>A. (0, A)) (outofband_order seq q A)
              }))"

text \<open>The out-of-band part of a snapshot.\<close>

definition AcceptorOutOfBandMarshal ::
  "env \<Rightarrow> app \<Rightarrow> PaxosSessionHead_t \<Rightarrow> PaxosAcceptor_t \<Rightarrow> (PaxosSessionHead_t \<times> PaxosAcceptor_t) option" where
  "AcceptorOutOfBandMarshal E AP pH A =
     do { (r, A) \<leftarrow> PaxosAcceptorOutOfBandGet E AP (h_Id pH) A; d \<leftarrow> r; Some (d, A) }"

definition AcceptorOutOfBandUnmarshal ::
  "env \<Rightarrow> app \<Rightarrow> PaxosSessionHead_t \<Rightarrow> PaxosAcceptor_t \<Rightarrow> PaxosAcceptor_t option" where
  "AcceptorOutOfBandUnmarshal E AP pM A = map_option snd (PaxosAcceptorOutOfBandPush E AP pM A)"

end
