(* ===== verification/Session_Execute.thy ===== *)
theory Session_Execute
  imports Session_OutOfBand
begin

text \<open>
  The execution of decided commands by the session server, from
  \<^verbatim>\<open>session/src/PaxosSessionServer.c\<close>: the thread that takes the commands from the Paxos server below
  and hands each request to the application at most once, the callbacks of the Paxos server, and the
  removal of sessions whose clients are gone.
\<close>

section \<open>Abort and garbage\<close>

text \<open>\<open>PaxosRequest\<close> with a message of the session layer; it may wait for a slot.\<close>

definition session_request ::
  "env \<Rightarrow> app \<Rightarrow> bool \<Rightarrow> PaxosSessionHead_t \<Rightarrow> PaxosAcceptor_t \<Rightarrow> (int \<times> PaxosAcceptor_t) wait option" where
  "session_request E AP Validate pH A =
     map_option (\<lambda>(r, s). case r of
         None \<Rightarrow> Waits (A\<lparr>c_pPaxos := s\<rparr>)
       | Some n \<Rightarrow> Goes (notify_code n, A\<lparr>c_pPaxos := s\<rparr>))
       (PaxosRequest E [] (take (nat (h_Len pH)) (msg_image AP pH)) Validate (c_pPaxos A))"

definition SessionAbortSend :: "env \<Rightarrow> app \<Rightarrow> nat \<Rightarrow> PaxosAcceptor_t \<Rightarrow> (int \<times> PaxosAcceptor_t) wait option" where
  "SessionAbortSend E AP p A =
     session_request E AP False
       ((SESSION_MSGINIT PAXOS_SESSION_ABORT (notify_code PAXOS_OK) 0 (SIZEOF_HEAD AP))
          \<lparr>h_Master := int (c_MyId A),
           h_Id := (a_Id (acc A p))\<lparr>i_Seq := i_Seq (a_Id (acc A p)) + 1\<rparr>\<rparr>) A"

fun garbage_loop :: "env \<Rightarrow> app \<Rightarrow> nat list \<Rightarrow> PaxosAcceptor_t \<Rightarrow> PaxosAcceptor_t wait option" where
  "garbage_loop E AP [] A = Some (Goes A)"
| "garbage_loop E AP (p # ps) A =
     (if a_pFd (acc A p) = None \<and>
         a_Access (acc A p) + cdiv (PaxosDecidedTimeout (c_pPaxos A)) 1000000 < time0 E
      then do {
        r \<leftarrow> SessionAbortSend E AP p A;
        case r of Waits A \<Rightarrow> Some (Waits A) | Goes (Ret, A) \<Rightarrow> garbage_loop E AP ps A
      }
      else garbage_loop E AP ps A)"

definition garbage_ms :: "Paxos_t \<Rightarrow> int" where
  "garbage_ms s = cdiv (PaxosMasterElectionTimeout s * int (PaxosGetMax s) * 2) 1000"

definition SessionGarbage :: "env \<Rightarrow> app \<Rightarrow> PaxosAcceptor_t \<Rightarrow> PaxosAcceptor_t wait option" where
  "SessionGarbage E AP A =
     (if \<not> PaxosIsIamMaster (c_pPaxos A) then Some (Goes A)
      else do {
        r \<leftarrow> garbage_loop E AP (ge_Lnk (c_Accept A)) A;
        Some (case r of
            Waits A \<Rightarrow> Waits A
          | Goes A \<Rightarrow> Goes (sfx_emit (SxTimer (garbage_ms (c_pPaxos A)) SessionGarbage_timer) A))
      })"

definition ConnectAbortTimeout ::
  "env \<Rightarrow> app \<Rightarrow> PaxosClientId_t \<Rightarrow> PaxosAcceptor_t \<Rightarrow> PaxosAcceptor_t wait option" where
  "ConnectAbortTimeout E AP pId A =
     do {
       r \<leftarrow> PaxosAcceptGet E pId False A;
       case r of
         Waits A \<Rightarrow> Some (Waits A)
       | Goes (None, A) \<Rightarrow> Some (Goes A)
       | Goes (Some p, A) \<Rightarrow>
           if PaxosIsIamMaster (c_pPaxos A) \<and> a_pFd (acc A p) \<noteq> None \<and>
              a_Health (acc A p) + DT_SESSION_HEALTH < time0 E
           then do {
             r \<leftarrow> SessionAbortSend E AP p A;
             case r of
               Waits A \<Rightarrow> Some (Waits A)
             | Goes (Ret, A) \<Rightarrow> map_option (\<lambda>(_, A). Goes A) (PaxosAcceptPut E p A)
           }
           else map_option (\<lambda>(_, A). Goes A) (PaxosAcceptPut E p A)
     }"

section \<open>Callbacks of the Paxos server\<close>

text \<open>The client that holds the lock of the acceptor keeps \<open>c_Mtx\<close>; then nothing is sent.\<close>

definition ElectEventSend :: "app \<Rightarrow> PaxosSessionHead_t \<Rightarrow> PaxosAcceptor_t \<Rightarrow> PaxosAcceptor_t option" where
  "ElectEventSend AP pEvent A =
     (if c_pFdFreeze A \<noteq> None then Some A
      else for_each (\<lambda>p A. if a_pFd (acc A p) \<noteq> None then map_option snd (PaxosAcceptSend AP p pEvent A) else Some A)
        (ge_Lnk (c_Accept A)) A)"

definition Election_event :: "PaxosNotify \<Rightarrow> int \<Rightarrow> u32 \<Rightarrow> app \<Rightarrow> PaxosSessionHead_t" where
  "Election_event notify srv epoch AP =
     (SESSION_MSGINIT PAXOS_SESSION_ELECTION (notify_code notify) 0 (SIZEOF_HEAD AP))
       \<lparr>h_Master := srv, h_Epoch := epoch\<rparr>"

definition Election :: "env \<Rightarrow> app \<Rightarrow> PaxosNotify \<Rightarrow> int \<Rightarrow> u32 \<Rightarrow> PaxosAcceptor_t \<Rightarrow> PaxosAcceptor_t option" where
  "Election E AP notify srv epoch A =
     (case (case notify of
         PAXOS_Im_NOT_MASTER \<Rightarrow> (True, A\<lparr>c_MasterWas := srv\<rparr>)
       | PAXOS_Im_MASTER \<Rightarrow>
           (True, sfx_emit (SxTimer (garbage_ms (c_pPaxos A)) SessionGarbage_timer)
              (fold (\<lambda>p. set_acc p (\<lambda>a. a\<lparr>a_Access := time0 E\<rparr>)) (ge_Lnk (c_Accept A))
                (A\<lparr>c_MasterWas := srv\<rparr>)))
       | PAXOS_MASTER_ELECTED \<Rightarrow> (srv \<noteq> -1 \<and> c_MasterWas A \<noteq> srv, A\<lparr>c_MasterWas := srv\<rparr>)
       | PAXOS_MASTER_CANCELED \<Rightarrow> (False, A\<lparr>c_MasterWas := -1\<rparr>)
       | _ \<Rightarrow> (False, A)) of
       (bSend, A) \<Rightarrow> if bSend then ElectEventSend AP (Election_event notify srv epoch AP) A else Some A)"

definition Notify :: "app \<Rightarrow> PaxosNotify \<Rightarrow> u32 \<Rightarrow> u8 list \<Rightarrow> int \<Rightarrow> PaxosAcceptor_t \<Rightarrow> (int \<times> PaxosAcceptor_t) option" where
  "Notify AP notify seq pC frm A =
     (let pPaxosHead = ap_parse AP pC in
      case notify of
        PAXOS_NOOP \<Rightarrow> Some (0, A)
      | PAXOS_REJECTED \<Rightarrow> Some (if_fRejected AP (c_Sfx A) pPaxosHead, sfx_emit (SxRejected pPaxosHead) A)
      | PAXOS_VALIDATE \<Rightarrow>
          Some (if_fValidate AP (c_Sfx A) seq pPaxosHead frm, sfx_emit (SxValidate seq pPaxosHead frm) A)
      | _ \<Rightarrow> None)"

section \<open>Execution\<close>

text \<open>A call of the application on session \<open>p\<close>, and the calls it makes meanwhile.\<close>

definition app_call ::
  "app \<Rightarrow> (sfx list \<Rightarrow> PaxosSessionHead_t \<Rightarrow> int \<times> appcall list) \<Rightarrow> sfx \<Rightarrow> nat \<Rightarrow> PaxosSessionHead_t
    \<Rightarrow> PaxosAcceptor_t \<Rightarrow> (int \<times> PaxosAcceptor_t) option" where
  "app_call AP f x p pH A =
     (case f (c_Sfx A) pH of
        (Ret, calls) \<Rightarrow> map_option (\<lambda>A. (Ret, A)) (for_each (do_appcall AP p) calls (sfx_emit x A)))"

definition execute_open :: "env \<Rightarrow> app \<Rightarrow> nat \<Rightarrow> PaxosSessionHead_t \<Rightarrow> PaxosAcceptor_t \<Rightarrow> PaxosAcceptor_t option" where
  "execute_open E AP p pPSH A =
     do {
       (Ret, A) \<leftarrow> app_call AP (if_fSessionOpen AP) (SxOpen pPSH) p pPSH A;
       let A = (if Ret = 0 then set_acc p (\<lambda>a. a\<lparr>a_Opened := ACCEPT_OPENED\<rparr>) A else A);
       (_, A) \<leftarrow> PaxosAcceptOpenReplyByMsg AP p Ret A;
       ASSERT (Ret = 0);
       Some A
     }"

text \<open>Closing a session removes its out-of-band data that was not validated.\<close>

definition outofband_close :: "nat \<Rightarrow> PaxosAcceptor_t \<Rightarrow> PaxosAcceptor_t" where
  "outofband_close p A =
     fold (\<lambda>q A. if \<not> o_bValidate (out A q) \<and> HashSessionCompare (a_Id (acc A p)) (o_Id (out A q)) = 0
                 then OutOfBandRemove q A else A)
       (o_Lnk A) A"

definition execute_close :: "env \<Rightarrow> app \<Rightarrow> nat \<Rightarrow> PaxosSessionHead_t \<Rightarrow> PaxosAcceptor_t \<Rightarrow> PaxosAcceptor_t option" where
  "execute_close E AP p pPSH A =
     do {
       (Ret, A) \<leftarrow> (if a_Opened (acc A p) \<noteq> ACCEPT_BINDED
           then app_call AP (if_fSessionClose AP) (SxClose pPSH) p pPSH A
           else Some (-1, A));
       let A = outofband_close p A;
       A \<leftarrow> (if h_Cmd pPSH = PAXOS_SESSION_CLOSE
           then map_option snd (PaxosAcceptReplyCloseByMsg AP p Ret A) else Some A);
       (_, A) \<leftarrow> PaxosAcceptPut E p (set_acc p (\<lambda>a. a\<lparr>a_Opened := ACCEPT_BINDED\<rparr>) A);
       Some A
     }"

text \<open>Out-of-band data of requests whose pages every server has left is removed.\<close>

fun outofband_garbage :: "env \<Rightarrow> u32 \<Rightarrow> nat list \<Rightarrow> PaxosAcceptor_t \<Rightarrow> PaxosAcceptor_t" where
  "outofband_garbage E backSeq [] A = A"
| "outofband_garbage E backSeq (q # qs) A =
     (if time0 E < o_Last (out A q) then A
      else if \<not> o_bValidate (out A q) then outofband_garbage E backSeq qs A
      else if CMP (o_Seq (out A q)) backSeq \<ge> 0 then A
      else outofband_garbage E backSeq qs (OutOfBandRemove q A))"

definition execute_garbage :: "env \<Rightarrow> PaxosExecute_t \<Rightarrow> PaxosAcceptor_t \<Rightarrow> PaxosAcceptor_t option" where
  "execute_garbage E pH A =
     (if e_Validate pH \<and> TIMESPECCOMPARE (PaxosCatchupRecvLast (c_pPaxos A)) (e_now E) < 0
      then do {
        ASSERT (CMP (e_BackSeq pH) (e_Seq pH) \<le> 0);
        Some (outofband_garbage E (e_BackSeq pH) (o_Lnk A) A)
      }
      else Some A)"

definition execute_member :: "app \<Rightarrow> nat \<Rightarrow> PaxosSessionHead_t \<Rightarrow> PaxosAcceptor_t \<Rightarrow> PaxosAcceptor_t option" where
  "execute_member AP p pPSH A =
     (case ap_member AP pPSH of
        (pId, Addr) \<Rightarrow>
          if pId < 0 \<or> int (c_Maximum A) \<le> pId then None
          else map_option snd (PaxosAcceptSend AP p (SESSION_MSGINIT (h_Cmd pPSH) 0 0 (SIZEOF_HEAD AP))
            (A\<lparr>c_aPeerAddr := (c_aPeerAddr A)(nat pId := Addr), c_Version := SEQ_INC (c_Version A)\<rparr>)))"

text \<open>The command of a session; \<open>True\<close> when the session is still held.\<close>

definition execute_command ::
  "env \<Rightarrow> app \<Rightarrow> nat \<Rightarrow> PaxosExecute_t \<Rightarrow> PaxosSessionHead_t \<Rightarrow> PaxosAcceptor_t \<Rightarrow> (bool \<times> PaxosAcceptor_t) option" where
  "execute_command E AP p pH pPSH A =
     (case h_Cmd pPSH of
        PAXOS_SESSION_OPEN \<Rightarrow> map_option (\<lambda>A. (True, A)) (execute_open E AP p pPSH A)
      | PAXOS_SESSION_CLOSE \<Rightarrow> map_option (\<lambda>A. (False, A)) (execute_close E AP p pPSH A)
      | PAXOS_SESSION_ABORT \<Rightarrow> map_option (\<lambda>A. (False, A)) (execute_close E AP p pPSH A)
      | PAXOS_SESSION_EVENT \<Rightarrow> map_option (\<lambda>(_, A). (True, A)) (PaxosAcceptEventGet AP p A)
      | PAXOS_SESSION_CHANGE_MEMBER \<Rightarrow> map_option (\<lambda>A. (True, A)) (execute_member AP p pPSH A)
      | _ \<Rightarrow> do {
          A \<leftarrow> execute_garbage E pH A;
          ASSERT (a_Opened (acc A p) \<noteq> ACCEPT_BINDED);
          (_, A) \<leftarrow> app_call AP (if_fAccepted AP) (SxAccepted pPSH) p pPSH A;
          Some (True, A)
        })"

text \<open>A command whose session does not exist: a closed session is closed again without effect.\<close>

definition execute_nobody :: "PaxosSessionHead_t \<Rightarrow> PaxosAcceptor_t \<Rightarrow> PaxosAcceptor_t option" where
  "execute_nobody pPSH A =
     (case h_Cmd pPSH of
        PAXOS_SESSION_CLOSE \<Rightarrow> Some A
      | PAXOS_SESSION_ABORT \<Rightarrow> Some A
      | PAXOS_SESSION_EVENT \<Rightarrow> Some A
      | _ \<Rightarrow> None)"

definition execute_end :: "env \<Rightarrow> nat \<Rightarrow> PaxosClientId_t \<Rightarrow> bool \<times> PaxosAcceptor_t \<Rightarrow> PaxosAcceptor_t option" where
  "execute_end E p pId r =
     (case r of (held, A) \<Rightarrow>
        if held then do { A \<leftarrow> PaxosAcceptedEnd p pId A; map_option snd (PaxosAcceptPut E p A) } else Some A)"

text \<open>A request before its command: a repeated one is dropped, one that comes too early is refused.\<close>

definition execute_admitted ::
  "env \<Rightarrow> app \<Rightarrow> PaxosAcceptor_t list \<Rightarrow> nat \<Rightarrow> PaxosExecute_t \<Rightarrow> PaxosSessionHead_t \<Rightarrow> PaxosAcceptor_t
    \<Rightarrow> PaxosAcceptor_t wait option" where
  "execute_admitted E AP ws p pH pPSH A =
     do {
       r \<leftarrow> PaxosAcceptIsAccepted AP ws p pPSH A;
       case r of
         Waits A \<Rightarrow> Some (Waits A)
       | Goes (Ret, A) \<Rightarrow>
           if Ret \<noteq> 0 then map_option (\<lambda>(_, A). Goes A) (PaxosAcceptPut E p A)
           else if CMP (i_SeqWait (h_Id pPSH)) (a_End (acc A p)) > 0 then do {
             (_, A) \<leftarrow> PaxosAcceptSend AP p
               ((SESSION_MSGINIT (h_Cmd pPSH) 0 ERR_SESSION_NOT_FOUND (SIZEOF_HEAD AP))
                 \<lparr>h_Master := PaxosGetMaster (c_pPaxos A), h_Epoch := PaxosEpoch (c_pPaxos A)\<rparr>) A;
             map_option (\<lambda>(_, A). Goes A) (PaxosAcceptPut E p A)
           }
           else (case PaxosAcceptedStart [] p pPSH A of
               Waits A \<Rightarrow> Some (Waits A)
             | Goes A \<Rightarrow> do {
                 r \<leftarrow> execute_command E AP p pH pPSH A;
                 map_option Goes (execute_end E p (h_Id pPSH) r)
               })
     }"

text \<open>One turn of \<open>ThreadExecute\<close>, for the entry \<open>pH\<close>.\<close>

definition execute_one ::
  "env \<Rightarrow> app \<Rightarrow> PaxosAcceptor_t list \<Rightarrow> PaxosExecute_t \<Rightarrow> PaxosAcceptor_t \<Rightarrow> PaxosAcceptor_t wait option" where
  "execute_one E AP ws pH A =
     do {
       ASSERT (e_Notify pH = PAXOS_ACCEPTED);
       let pPSH = ap_parse AP (e_Cmd pH);
       r \<leftarrow> PaxosAcceptGet E (h_Id pPSH) (h_Cmd pPSH = PAXOS_SESSION_OPEN) A;
       case r of
         Waits A \<Rightarrow> Some (Waits A)
       | Goes (None, A) \<Rightarrow> map_option Goes (execute_nobody pPSH A)
       | Goes (Some p, A) \<Rightarrow>
           if h_Cmd pPSH = PAXOS_SESSION_ABORT then do {
             r \<leftarrow> execute_command E AP p pH pPSH A;
             map_option Goes (execute_end E p (h_Id pPSH) r)
           }
           else execute_admitted E AP ws p pH pPSH A
     }"

text \<open>\<open>None\<close> beside the state is the end of the thread: the queue was closed.\<close>

definition ThreadExecute ::
  "env \<Rightarrow> app \<Rightarrow> PaxosAcceptor_t list \<Rightarrow> PaxosAcceptor_t \<Rightarrow> PaxosAcceptor_t wait option" where
  "ThreadExecute E AP ws A =
     (case PaxosRecvFromPaxos [] (c_pPaxos A) of
        None \<Rightarrow> Some (Waits A)
      | Some (None, s) \<Rightarrow> Some (Waits (A\<lparr>c_pPaxos := s\<rparr>))
      | Some (Some pH, s) \<Rightarrow> execute_one E AP ws pH (A\<lparr>c_pPaxos := s\<rparr>))"

end
