(* ===== verification/Session_Worker.thy ===== *)
theory Session_Worker
  imports Session_Execute
begin

text \<open>
  The requests of the clients, from \<^verbatim>\<open>session/src/PaxosSessionServer.c\<close>: a turn of a worker thread
  (\<open>ThreadWorker\<close>), with the receipt of a message before it (\<open>AcceptorRecvHandler\<close>). A connection
  and its \<open>FdEvent\<close> have one number.
\<close>

section \<open>Freezing\<close>

text \<open>\<open>PaxosAcceptorFreeze\<close> goes on when both polls of \<open>PaxosFreeze\<close> have succeeded.\<close>

definition PaxosAcceptorFreeze :: "PaxosAcceptor_t \<Rightarrow> PaxosAcceptor_t wait" where
  "PaxosAcceptorFreeze A =
     (let s = PaxosFreeze_begin (c_pPaxos A) in
      case PaxosFreeze_suspend s of
        None \<Rightarrow> Waits (A\<lparr>c_pPaxos := s\<rparr>)
      | Some s \<Rightarrow> (case PaxosFreeze_end s of
            None \<Rightarrow> Waits (A\<lparr>c_pPaxos := s\<rparr>)
          | Some s \<Rightarrow> Goes (A\<lparr>c_pPaxos := s\<rparr>)))"

definition PaxosAcceptorDefreeze :: "PaxosAcceptor_t \<Rightarrow> PaxosAcceptor_t" where
  "PaxosAcceptorDefreeze A = A\<lparr>c_pPaxos := PaxosDefreeze (c_pPaxos A)\<rparr>"

section \<open>Requests outside of a session\<close>

definition PaxosAcceptSendByMsg ::
  "app \<Rightarrow> nat \<Rightarrow> PaxosSessionHead_t \<Rightarrow> PaxosAcceptor_t \<Rightarrow> PaxosAcceptor_t option" where
  "PaxosAcceptSendByMsg AP p m A =
     (let m = (stamp A p m)\<lparr>h_Cksum64 := 0\<rparr> in
      do {
        (cksum64, _) \<leftarrow> MsgCksum64 (msg_vec AP [m]) 0 0 0;
        Some (case a_pFd (acc A p) of
            None \<Rightarrow> A
          | Some fd \<Rightarrow> snd (SendStream AP fd [m\<lparr>h_Cksum64 := cksum64\<rparr>] A))
      })"

definition send_head :: "app \<Rightarrow> nat \<Rightarrow> PaxosSessionHead_t \<Rightarrow> PaxosAcceptor_t \<Rightarrow> PaxosAcceptor_t" where
  "send_head AP fd pH A = snd (SendStream AP fd [pH\<lparr>h_Body := []\<rparr>] A)"

definition worker_lock :: "app \<Rightarrow> nat \<Rightarrow> PaxosSessionHead_t \<Rightarrow> PaxosAcceptor_t \<Rightarrow> PaxosAcceptor_t wait" where
  "worker_lock AP fd pH A =
     (if c_pFdFreeze A \<noteq> None then Goes (send_head AP fd (pH\<lparr>h_Error := EEXIST\<rparr>) A)
      else case PaxosAcceptorFreeze A of
          Waits A \<Rightarrow> Waits A
        | Goes A \<Rightarrow>
            let Ret = if_fLock AP (c_Sfx A);
                A = sfx_emit SxLock A;
                A = (if Ret \<noteq> 0 then PaxosAcceptorDefreeze A else A\<lparr>c_pFdFreeze := Some fd\<rparr>)
            in Goes (send_head AP fd (pH\<lparr>h_Error := Ret\<rparr>) A))"

definition worker_unlock :: "PaxosAcceptor_t \<Rightarrow> PaxosAcceptor_t" where
  "worker_unlock A = (PaxosAcceptorDefreeze (sfx_emit SxUnlock A))\<lparr>c_pFdFreeze := None\<rparr>"

definition worker_member :: "app \<Rightarrow> nat \<Rightarrow> PaxosSessionHead_t \<Rightarrow> PaxosAcceptor_t \<Rightarrow> PaxosAcceptor_t option" where
  "worker_member AP fd pH A =
     do {
       p \<leftarrow> c_Ev A fd;
       let cell = ap_cell AP (c_Version A) (c_aPeerAddr A);
       PaxosAcceptSendByMsg AP p (pH\<lparr>h_Len := SIZEOF_HEAD AP + int (length cell), h_Body := cell\<rparr>) A
     }"

text \<open>The commands that have nothing to do with a session: \<open>None\<close> when the command is of another kind.\<close>

fun worker_admin ::
  "env \<Rightarrow> app \<Rightarrow> nat \<Rightarrow> PaxosSessionHead_t \<Rightarrow> PaxosCmd \<Rightarrow> PaxosAcceptor_t
    \<Rightarrow> PaxosAcceptor_t wait option option" where
  "worker_admin E AP fd pH PAXOS_SESSION_ACCEPTOR A = Some (Some (Goes (sfx_emit (SxRaw fd) A)))"
| "worker_admin E AP fd pH PAXOS_SESSION_DUMP A = Some (Some (Goes (sfx_emit (SxRaw fd) A)))"
| "worker_admin E AP fd pH PAXOS_SESSION_LOCK A = Some (Some (worker_lock AP fd pH A))"
| "worker_admin E AP fd pH PAXOS_SESSION_UNLOCK A = Some (Some (Goes (send_head AP fd pH (worker_unlock A))))"
| "worker_admin E AP fd pH PAXOS_SESSION_GET_MEMBER A = Some (map_option Goes (worker_member AP fd pH A))"
| "worker_admin E AP fd pH PAXOS_SESSION_BACKUP A = Some (Some (Goes (send_head AP fd pH (sfx_emit (SxBackup pH) A))))"
| "worker_admin E AP fd pH PAXOS_SESSION_TRANSFER A = Some (Some (Goes (sfx_emit (SxTransfer fd) A)))"
| "worker_admin E AP fd pH PAXOS_SESSION_MARSHAL A = Some (Some (Goes (sfx_emit (SxMarshal fd) A)))"
| "worker_admin E AP fd pH PAXOS_SESSION_AUTONOMIC A =
     Some (do { j \<leftarrow> srv_index (c_pPaxos A) (h_From pH);
                Some (Goes (A\<lparr>c_pPaxos := PaxosAutonomic E j (c_pPaxos A)\<rparr>)) })"
| "worker_admin E AP fd pH PAXOS_SESSION_SHUTDOWN A = Some None"
| "worker_admin E AP fd pH PAXOS_SESSION_ANY A = Some (Some (Goes (sfx_emit (SxAny fd pH) A)))"
| "worker_admin E AP fd pH _ A = None"

section \<open>Requests of a session\<close>

text \<open>
  A connection that ended: an open session of a master is aborted. The connection's \<open>FdEvent\<close> is
  freed at the end; that it leads to a session freed before is an undefined access.
\<close>

definition PaxosDisconnectAccept :: "env \<Rightarrow> app \<Rightarrow> nat \<Rightarrow> PaxosAcceptor_t \<Rightarrow> PaxosAcceptor_t wait option" where
  "PaxosDisconnectAccept E AP p A =
     (let A = set_acc p (\<lambda>a. a\<lparr>a_pFd := None\<rparr>) A in
      if a_Opened (acc A p) \<noteq> ACCEPT_BINDED \<and> a_Opened (acc A p) \<noteq> ACCEPT_CLOSING \<and>
         PaxosIsIamMaster (c_pPaxos A)
      then map_option (\<lambda>r. case r of Waits A \<Rightarrow> Waits A | Goes (Ret, A) \<Rightarrow> Goes A) (SessionAbortSend E AP p A)
      else Some (Goes A))"

definition worker_disconnect :: "env \<Rightarrow> app \<Rightarrow> nat \<Rightarrow> PaxosAcceptor_t \<Rightarrow> PaxosAcceptor_t wait option" where
  "worker_disconnect E AP fd A =
     (let A = (if c_pFdFreeze A \<noteq> None then worker_unlock A else A) in
      case c_Ev A fd of
        None \<Rightarrow> Some (Goes (sfx_emit (SxDisconnect fd) A))
      | Some p \<Rightarrow>
          if p \<notin> set (ge_Lnk (c_Accept A)) then None
          else do {
            r \<leftarrow> PaxosDisconnectAccept E AP p A;
            case r of
              Waits A \<Rightarrow> Some (Waits A)
            | Goes A \<Rightarrow> map_option (\<lambda>(_, A). Goes (sfx_emit (SxDisconnect fd) (A\<lparr>c_Ev := (c_Ev A)(fd := None)\<rparr>)))
                (PaxosAcceptPut E p A)
          })"

definition error_reply :: "app \<Rightarrow> nat \<Rightarrow> PaxosSessionHead_t \<Rightarrow> int \<Rightarrow> int \<Rightarrow> PaxosAcceptor_t \<Rightarrow> PaxosAcceptor_t option" where
  "error_reply AP p pH code err A =
     map_option snd (PaxosAcceptSend AP p
       ((SESSION_MSGINIT (h_Cmd pH) code err (SIZEOF_HEAD AP))
         \<lparr>h_Master := PaxosGetMaster (c_pPaxos A), h_Epoch := PaxosEpoch (c_pPaxos A)\<rparr>) A)"

text \<open>
  A request proposed as a command of the cell. \<open>busy\<close> is the state the session has while the request
  is under way, and \<open>idle\<close> the one it goes back to when the request is refused.
\<close>

definition worker_propose ::
  "env \<Rightarrow> app \<Rightarrow> nat \<Rightarrow> PaxosSessionHead_t \<Rightarrow> PaxosAcceptOpen \<Rightarrow> PaxosAcceptOpen \<Rightarrow> PaxosAcceptor_t
    \<Rightarrow> (int \<times> PaxosAcceptor_t) wait option" where
  "worker_propose E AP p pH busy idle A =
     do {
       r \<leftarrow> session_request E AP False pH (set_acc p (\<lambda>a. a\<lparr>a_Opened := busy\<rparr>) A);
       Some (case r of
           Waits A \<Rightarrow> Waits A
         | Goes (Ret, A) \<Rightarrow>
             Goes (Ret, if Ret \<noteq> 0 \<and> a_Opened (acc A p) = busy
                        then set_acc p (\<lambda>a. a\<lparr>a_Opened := idle\<rparr>) A else A))
     }"

text \<open>The command of a request that is new; \<open>Inl\<close> when it is finished without an answer to make.\<close>

definition worker_close ::
  "env \<Rightarrow> app \<Rightarrow> nat \<Rightarrow> PaxosSessionHead_t \<Rightarrow> PaxosAcceptor_t
    \<Rightarrow> (PaxosAcceptor_t + int \<times> PaxosAcceptor_t) wait option" where
  "worker_close E AP p pH A =
     (case a_Opened (acc A p) of
        ACCEPT_BINDED \<Rightarrow> do {
          A \<leftarrow> error_reply AP p pH (notify_code PAXOS_OK) ERR_SESSION_NOT_FOUND A;
          Some (Goes (Inl A))
        }
      | ACCEPT_CLOSING \<Rightarrow> Some (Goes (Inl A))
      | opened \<Rightarrow> map_option (\<lambda>r. case r of Waits A \<Rightarrow> Waits A | Goes r \<Rightarrow> Goes (Inr r))
                    (worker_propose E AP p pH ACCEPT_CLOSING opened A))"

definition worker_open ::
  "env \<Rightarrow> app \<Rightarrow> nat \<Rightarrow> PaxosSessionHead_t \<Rightarrow> PaxosAcceptor_t
    \<Rightarrow> (PaxosAcceptor_t + int \<times> PaxosAcceptor_t) wait option" where
  "worker_open E AP p pH A =
     (if a_Opened (acc A p) \<noteq> ACCEPT_BINDED then do {
        ASSERT (a_Opened (acc A p) \<noteq> ACCEPT_CLOSING);
        Some (Goes (Inl A))
      }
      else map_option (\<lambda>r. case r of Waits A \<Rightarrow> Waits A | Goes r \<Rightarrow> Goes (Inr r))
             (worker_propose E AP p pH ACCEPT_OPENING ACCEPT_BINDED A))"

text \<open>
  Every other request is the application's: it serves the request, after \<open>PaxosAcceptedStart\<close> when the
  request has its place among those of the client, or proposes it. Its calls of \<open>PaxosAcceptGet\<close> and
  \<open>PaxosAcceptPut\<close> on the session of the request, which the worker holds, cancel out.
\<close>

definition worker_app ::
  "env \<Rightarrow> app \<Rightarrow> PaxosAcceptor_t list \<Rightarrow> nat \<Rightarrow> nat \<Rightarrow> PaxosSessionHead_t \<Rightarrow> PaxosAcceptor_t
    \<Rightarrow> (int \<times> PaxosAcceptor_t) wait option" where
  "worker_app E AP ws fd p pH A =
     (case if_fRequest AP (c_Sfx A) pH of
        AqPropose Validate \<Rightarrow> session_request E AP Validate pH (sfx_emit (SxRequest fd pH) A)
      | AqServe start Ret calls \<Rightarrow>
          (case if start then PaxosAcceptedStart ws p pH (sfx_emit (SxRequest fd pH) A)
                else Goes (sfx_emit (SxRequest fd pH) A) of
             Waits A \<Rightarrow> Some (Waits A)
           | Goes A \<Rightarrow> map_option (\<lambda>A. Goes (Ret, A)) (for_each (do_appcall AP p) calls A)))"

definition worker_command ::
  "env \<Rightarrow> app \<Rightarrow> PaxosAcceptor_t list \<Rightarrow> nat \<Rightarrow> nat \<Rightarrow> PaxosSessionHead_t \<Rightarrow> PaxosAcceptor_t
    \<Rightarrow> (PaxosAcceptor_t + int \<times> PaxosAcceptor_t) wait option" where
  "worker_command E AP ws fd p pH A =
     (case h_Cmd pH of
        PAXOS_SESSION_CLOSE \<Rightarrow> worker_close E AP p pH A
      | PAXOS_SESSION_OPEN \<Rightarrow> worker_open E AP p pH A
      | PAXOS_SESSION_EVENT \<Rightarrow>
          map_option (\<lambda>r. case r of Waits A \<Rightarrow> Waits A | Goes r \<Rightarrow> Goes (Inr r)) (session_request E AP False pH A)
      | PAXOS_SESSION_CHANGE_MEMBER \<Rightarrow>
          map_option (\<lambda>r. case r of Waits A \<Rightarrow> Waits A | Goes r \<Rightarrow> Goes (Inr r)) (session_request E AP False pH A)
      | _ \<Rightarrow> map_option (\<lambda>r. case r of Waits A \<Rightarrow> Waits A | Goes r \<Rightarrow> Goes (Inr r)) (worker_app E AP ws fd p pH A))"

definition worker_request ::
  "env \<Rightarrow> app \<Rightarrow> PaxosAcceptor_t list \<Rightarrow> nat \<Rightarrow> PaxosSessionHead_t \<Rightarrow> nat \<Rightarrow> PaxosAcceptor_t
    \<Rightarrow> PaxosAcceptor_t wait option" where
  "worker_request E AP ws fd pH p A =
     do {
       r \<leftarrow> PaxosAcceptIsAccepted AP ws p pH (set_acc p (\<lambda>a. a\<lparr>a_Access := time0 E\<rparr>) A);
       case r of
         Waits A \<Rightarrow> Some (Waits A)
       | Goes (Ret, A) \<Rightarrow>
           if Ret \<noteq> 0 then do {
             A \<leftarrow> (if \<not> PaxosIsIamMaster (c_pPaxos A)
                 then error_reply AP p pH (notify_code PAXOS_Im_NOT_MASTER) 0 A else Some A);
             map_option (\<lambda>(_, A). Goes A) (PaxosAcceptPut E p A)
           }
           else do {
             r \<leftarrow> worker_command E AP ws fd p pH A;
             case r of
               Waits A \<Rightarrow> Some (Waits A)
             | Goes (Inl A) \<Rightarrow> map_option (\<lambda>(_, A). Goes A) (PaxosAcceptPut E p A)
             | Goes (Inr (Ret, A)) \<Rightarrow> do {
                 A \<leftarrow> (if Ret \<noteq> 0 then error_reply AP p pH Ret 0 A else Some A);
                 map_option (\<lambda>(_, A). Goes A) (PaxosAcceptPut E p A)
               }
           }
     }"

text \<open>One turn of \<open>ThreadWorker\<close>, for a message of connection \<open>fd\<close> or its end.\<close>

definition ThreadWorker ::
  "env \<Rightarrow> app \<Rightarrow> PaxosAcceptor_t list \<Rightarrow> nat \<Rightarrow> PaxosSessionHead_t option \<Rightarrow> PaxosAcceptor_t
    \<Rightarrow> PaxosAcceptor_t wait option" where
  "ThreadWorker E AP ws fd msg A =
     (case msg of
        None \<Rightarrow> worker_disconnect E AP fd A
      | Some pH \<Rightarrow>
          if h_Cmd pH \<noteq> PAXOS_SESSION_HEALTH \<and> c_pFdFreeze A \<noteq> None \<and> c_pFdFreeze A \<noteq> Some fd
          then Some (Goes A)
          else case worker_admin E AP fd pH (h_Cmd pH) A of
            Some r \<Rightarrow> r
          | None \<Rightarrow>
              if h_Cmd pH = PAXOS_SESSION_HEALTH then do {
                r \<leftarrow> PaxosAcceptGet E (h_Id pH) False A;
                case r of
                  Waits A \<Rightarrow> Some (Waits A)
                | Goes (None, A) \<Rightarrow> None
                | Goes (Some p, A) \<Rightarrow>
                    map_option (\<lambda>(_, A). Goes A)
                      (PaxosAcceptPut E p (set_acc p (\<lambda>a. a\<lparr>a_Health := time0 E\<rparr>) A))
              }
              else if h_Cmd pH = PAXOS_SESSION_ELECTION then None
              else do {
                r \<leftarrow> PaxosAcceptGet E (h_Id pH) True A;
                case r of
                  Waits A \<Rightarrow> Some (Waits A)
                | Goes (None, A) \<Rightarrow> None
                | Goes (Some p, A) \<Rightarrow>
                    if h_Cmd pH = PAXOS_SESSION_BIND
                    then Some (Goes ((set_acc p (\<lambda>a. a\<lparr>a_pFd := Some fd\<rparr>) A)\<lparr>c_Ev := (c_Ev A)(fd := Some p)\<rparr>))
                    else worker_request E AP ws fd pH p A
              })"

text \<open>
  The receipt of a message of a client: out-of-band data is handled at once, everything else goes to
  the queue of a worker; the workers are the turns of \<open>ThreadWorker\<close>.
\<close>

definition AcceptorRecvHandler ::
  "env \<Rightarrow> app \<Rightarrow> nat \<Rightarrow> PaxosSessionHead_t \<Rightarrow> PaxosAcceptor_t
    \<Rightarrow> (PaxosSessionHead_t option \<times> PaxosAcceptor_t) option" where
  "AcceptorRecvHandler E AP fd pH A =
     do {
       ASSERT (cksum_ok AP pH);
       case h_Cmd pH of
         PAXOS_SESSION_OB_PUSH \<Rightarrow> map_option (\<lambda>(_, A). (None, A)) (PaxosAcceptorOutOfBandPush E AP pH A)
       | PAXOS_SESSION_OB_PULL \<Rightarrow> map_option (\<lambda>(_, A). (None, A)) (PaxosAcceptorOutOfBandPull E AP pH fd A)
       | _ \<Rightarrow> Some (Some pH, A)
     }"

definition PaxosAcceptorInitUsec ::
  "env \<Rightarrow> nat \<Rightarrow> nat \<Rightarrow> nat \<Rightarrow> int \<Rightarrow> bool \<Rightarrow> u32 \<Rightarrow> (nat \<Rightarrow> sockaddr_in) \<Rightarrow> (bool \<times> sockaddr_in) list \<Rightarrow> int
    \<Rightarrow> PaxosAcceptor_t option" where
  "PaxosAcceptorInitUsec E MyNo core extension MemLimit bCksum version peers cell usec =
     do {
       s \<leftarrow> PaxosInitUsec E MyNo core extension cell usec bCksum;
       Some \<lparr>c_MyId = MyNo, c_Version = version, c_aPeerAddr = peers, c_Maximum = core + extension,
             c_pPaxos = s, c_bCksum = bCksum,
             c_Accept = GElmCtrlInit 20000 1009 HashSessionCode HashSessionCompare (AcceptAlloc E),
             o_Lnk = [], o_Cnt = 0, o_MemLimit = MemLimit, o_MemUsed = 0,
             o_Hash = HashInit 4003 (HashCode_FN AcceptorHashOutOfBandCode) AcceptorHashOutOfBandCompare,
             o_Out = (\<lambda>_. OUTOFBAND_ALLOC E client_zero), o_Next = 0, c_Enabled = False,
             c_MasterWas = -1, c_pFdFreeze = None, c_Ev = (\<lambda>_. None), c_Sfx = []\<rparr>
     }"

end
