(* ===== verification/Session_Snapshot.thy ===== *)
theory Session_Snapshot
  imports Session_Worker
begin

text \<open>
  The sessions in a snapshot, from \<^verbatim>\<open>session/src/PaxosSessionServer.c\<close>: each session is written with
  the replies and events kept for its client, and what the application keeps for it. The list of
  items stands for the stream; a session in it carries pointers that mean nothing to the reader.
\<close>

datatype sio = SioAccept PaxosAccept_t | SioMsg "PaxosSessionHead_t list" | SioAdaptor "u8 list"

definition adaptor_io :: "app \<Rightarrow> PaxosAccept_t \<Rightarrow> sio list" where
  "adaptor_io AP a =
     (case if_fAdaptorMarshal AP of
        Some f \<Rightarrow> if a_Opened a \<noteq> ACCEPT_BINDED then [SioAdaptor (f a)] else []
      | None \<Rightarrow> [])"

definition raised_io :: "PaxosAccept_t \<Rightarrow> sio list" where
  "raised_io a = (case ev_pRaised a of Some ms \<Rightarrow> [SioMsg ms] | None \<Rightarrow> [])"

definition session_io :: "app \<Rightarrow> PaxosAccept_t \<Rightarrow> sio list" where
  "session_io AP a =
     (if a_Cmd a = Some PAXOS_SESSION_CLOSE then []
      else SioAccept a # map SioMsg (r_Msg a) @ raised_io a @ adaptor_io AP a)"

definition PaxosAcceptorMarshal :: "app \<Rightarrow> PaxosAcceptor_t \<Rightarrow> sio list" where
  "PaxosAcceptorMarshal AP A = concat (map (\<lambda>p. session_io AP (acc A p)) (ge_Lnk (c_Accept A)))"

fun read_msgs :: "nat \<Rightarrow> sio list \<Rightarrow> (PaxosSessionHead_t list list \<times> sio list) option" where
  "read_msgs 0 pR = Some ([], pR)"
| "read_msgs (Suc n) (SioMsg ms # pR) = do { (r, pR) \<leftarrow> read_msgs n pR; Some (ms # r, pR) }"
| "read_msgs (Suc n) pR = None"

definition read_adaptor ::
  "app \<Rightarrow> PaxosAccept_t \<Rightarrow> sio list \<Rightarrow> PaxosAcceptor_t \<Rightarrow> (PaxosAcceptor_t \<times> sio list) option" where
  "read_adaptor AP a pR A =
     (if a_Opened a \<noteq> ACCEPT_BINDED \<and> if_fAdaptorUnmarshal AP
      then (case pR of
          SioAdaptor b # pR \<Rightarrow> Some (sfx_emit (SxAdaptor (a_Id a) b) A, pR)
        | _ \<Rightarrow> None)
      else Some (A, pR))"

text \<open>
  The session read from the stream: its replies are counted by \<open>r_Cnt\<close>, its events present when
  \<open>ev_Cnt\<close> is positive. A pointer to events without any is the writer's, and following it is fatal.
\<close>

definition read_session ::
  "env \<Rightarrow> app \<Rightarrow> PaxosAccept_t \<Rightarrow> sio list \<Rightarrow> PaxosAcceptor_t \<Rightarrow> (PaxosAcceptor_t \<times> sio list) wait option" where
  "read_session E AP a pR A =
     do {
       r \<leftarrow> PaxosAcceptGet E (a_Id a) True A;
       case r of
         Waits A \<Rightarrow> Some (Waits A)
       | Goes (None, A) \<Rightarrow> None
       | Goes (Some p, A) \<Rightarrow> do {
           (msgs, pR) \<leftarrow> read_msgs (nat (r_Cnt a)) pR;
           (raised, pR) \<leftarrow> (if ev_Cnt a > 0
               then do { (ms, pR) \<leftarrow> read_msgs 1 pR; Some (Some (hd ms), pR) }
               else if ev_pRaised a = None then Some (None, pR) else None);
           (A, pR) \<leftarrow> read_adaptor AP a pR
             (set_acc p (\<lambda>_. a\<lparr>a_Cnt := 0, a_Create := time0 E, a_pFd := None, r_Msg := msgs,
                             ev_pRaised := raised\<rparr>) A);
           Some (Goes (A, pR))
         }
     }"

text \<open>Every turn reads at least one item; one more turn finds the end of the stream.\<close>

fun unmarshal_loop :: "nat \<Rightarrow> env \<Rightarrow> app \<Rightarrow> sio list \<Rightarrow> PaxosAcceptor_t \<Rightarrow> PaxosAcceptor_t wait option" where
  "unmarshal_loop 0 E AP pR A = None"
| "unmarshal_loop (Suc fuel) E AP [] A = Some (Goes A)"
| "unmarshal_loop (Suc fuel) E AP (SioAccept a # pR) A =
     do {
       r \<leftarrow> read_session E AP a pR A;
       case r of Waits A \<Rightarrow> Some (Waits A) | Goes (A, pR) \<Rightarrow> unmarshal_loop fuel E AP pR A
     }"
| "unmarshal_loop (Suc fuel) E AP (_ # pR) A = None"

definition PaxosAcceptorUnmarshal :: "env \<Rightarrow> app \<Rightarrow> sio list \<Rightarrow> PaxosAcceptor_t \<Rightarrow> PaxosAcceptor_t wait option" where
  "PaxosAcceptorUnmarshal E AP pR A = unmarshal_loop (Suc (length pR)) E AP pR A"

end
