(* ===== verification/Session_Frame.thy ===== *)
theory Session_Frame
  imports Session_Snapshot
begin

text \<open>
  What the operations of the session server leave of a session: whatever the server does that is not
  a request of the session itself, an open session stays in the table, keeps the number of its last
  request, and its reply number changes to that of its last request or not at all.
\<close>

section \<open>Requests given to the application\<close>

definition seq_of :: "PaxosClientId_t \<Rightarrow> sfx \<Rightarrow> u32 option" where
  "seq_of k x = (case x of
     SxAccepted m \<Rightarrow> if HashSessionCompare (h_Id m) k = 0 then Some (i_Seq (h_Id m)) else None
   | _ \<Rightarrow> None)"

definition delivered :: "PaxosClientId_t \<Rightarrow> PaxosAcceptor_t \<Rightarrow> u32 list" where
  "delivered k A = List.map_filter (seq_of k) (c_Sfx A)"

lemma delivered_emit:
  "delivered k (sfx_emit x A) = delivered k A @ (case seq_of k x of Some q \<Rightarrow> [q] | None \<Rightarrow> [])"
  by (simp add: delivered_def sfx_emit_def List.map_filter_def split: option.splits)

lemma seq_of_simps [simp]:
  "seq_of k (SxStream fd ms) = None" "seq_of k (SxOpen m) = None" "seq_of k (SxClose m) = None"
  "seq_of k (SxSave m) = None" "seq_of k (SxRemove c) = None"
  "seq_of k (SxAccepted m) = (if HashSessionCompare (h_Id m) k = 0 then Some (i_Seq (h_Id m)) else None)"
  by (simp_all add: seq_of_def)

section \<open>Keeping a session\<close>

abbreviation sessions_ok :: "PaxosAcceptor_t \<Rightarrow> bool" where "sessions_ok A \<equiv> sessions.ok (c_Accept A)"

abbreviation session_at :: "PaxosAcceptor_t \<Rightarrow> PaxosClientId_t \<Rightarrow> nat option" where
  "session_at A k \<equiv> sessions.found (c_Accept A) k"

definition is_open :: "PaxosAcceptor_t \<Rightarrow> nat \<Rightarrow> bool" where
  "is_open A p \<longleftrightarrow> a_Opened (acc A p) \<noteq> ACCEPT_BINDED"

definition same_session :: "PaxosAccept_t \<Rightarrow> PaxosAccept_t \<Rightarrow> bool" where
  "same_session a a' \<longleftrightarrow> HashSessionCompare (a_Id a') (a_Id a) = 0 \<and> a_Start a' = a_Start a \<and> a_Cmd a' = a_Cmd a
     \<and> (a_Reply a' = a_Reply a \<or> a_Reply a' = a_Start a)
     \<and> (a_Opened a \<noteq> ACCEPT_BINDED \<longrightarrow> a_Opened a' \<noteq> ACCEPT_BINDED)"

text \<open>
  The table and the use counts stay the same, and so does every session outside of the set \<open>X\<close>.
\<close>

definition session_holds :: "PaxosClientId_t \<Rightarrow> nat set \<Rightarrow> PaxosAcceptor_t \<Rightarrow> PaxosAcceptor_t \<Rightarrow> bool" where
  "session_holds k X A A' \<longleftrightarrow> (sessions_ok A \<longrightarrow> sessions_ok A' \<and> session_at A' = session_at A
      \<and> (\<forall>p. p \<notin> X \<longrightarrow> same_session (acc A p) (acc A' p)))
    \<and> delivered k A' = delivered k A \<and> (\<forall>p. elm_cnt (c_Accept A') p = elm_cnt (c_Accept A) p)"

lemma same_session_refl [simp]: "same_session a a"
  by (simp add: same_session_def session_key.cmp_refl)

lemma same_session_trans: "same_session a b \<Longrightarrow> same_session b c \<Longrightarrow> same_session a c"
  by (auto simp: same_session_def intro: session_key.cmp_trans)

lemma same_session_open: "same_session (acc A p) (acc A' p) \<Longrightarrow> is_open A p \<Longrightarrow> is_open A' p"
  by (simp add: same_session_def is_open_def)

interpretation keeping: evolution "session_holds k X" for k X
proof unfold_locales
  show "session_holds k X s s" for s by (simp add: session_holds_def)
  fix s t u :: PaxosAcceptor_t
  assume "session_holds k X s t" and "session_holds k X t u"
  then show "session_holds k X s u" unfolding session_holds_def by (auto intro: same_session_trans)
qed

lemma keeps_fields: "c_Accept A' = c_Accept A \<Longrightarrow> c_Sfx A' = c_Sfx A \<Longrightarrow> session_holds k X A A'"
  by (simp add: session_holds_def delivered_def)

lemma keeps_emit: "seq_of k x = None \<Longrightarrow> session_holds k X A (sfx_emit x A)"
  by (simp add: session_holds_def delivered_emit) (simp add: sfx_emit_def)

lemma acc_set_acc: "acc (set_acc q f A) p = (if p = q then f (acc A q) else acc A p)"
  by (simp add: set_acc_def set_elm_def)

lemma cnt_set_acc [simp]: "elm_cnt (c_Accept (set_acc q f A)) p = elm_cnt (c_Accept A) p"
  by (simp add: set_acc_def set_elm_def)

lemma sessions_set_acc:
  assumes ok: "sessions_ok A" and f: "HashSessionCompare (a_Id (f (acc A q))) (a_Id (acc A q)) = 0"
  shows "sessions_ok (set_acc q f A) \<and> session_at (set_acc q f A) = session_at A"
  using f sessions.ok_parts(4) [OF ok, of q] sessions.ok_set_elm [OF ok, of "\<lambda>e. e\<lparr>e_Obj := f (e_Obj e)\<rparr>" q]
  by (simp add: set_acc_def)

lemma delivered_set_acc [simp]: "delivered k (set_acc q f A) = delivered k A"
  by (simp add: delivered_def set_acc_def)

lemma keeps_set_acc:
  assumes "HashSessionCompare (a_Id (f (acc A q))) (a_Id (acc A q)) = 0"
    and "q \<notin> X \<Longrightarrow> same_session (acc A q) (f (acc A q))"
  shows "session_holds k X A (set_acc q f A)"
proof -
  have "same_session (acc A p) (acc (set_acc q f A) p)" if "p \<notin> X" for p
    using assms(2) that by (auto simp: acc_set_acc)
  moreover have "delivered k (set_acc q f A) = delivered k A" by (simp add: delivered_def set_acc_def)
  ultimately show ?thesis using sessions_set_acc [of A f q] assms(1) by (simp add: session_holds_def)
qed

lemma keeps_set_same: "same_session (acc A q) (f (acc A q)) \<Longrightarrow> session_holds k X A (set_acc q f A)"
  by (rule keeps_set_acc) (simp_all add: same_session_def)

lemma keeps_SendStream: "session_holds k X A (snd (SendStream AP fd ms A))"
  by (simp add: SendStream_def keeps_emit)

lemma keeps_AcceptSend: "PaxosAcceptSend AP p m A = Some (r, A') \<Longrightarrow> session_holds k X A A'"
  using keeps_SendStream [of k X A AP]
  by (auto simp: PaxosAcceptSend_def Let_def bind_eq_Some_conv keeping.refl split: option.splits if_splits)
    (metis snd_conv)+

lemma keeps_Release1:
  assumes "PaxosAcceptRelease1 AP p A = Some (r, A')"
  shows "session_holds k X A A'"
proof -
  have send: "session_holds k X A A''" if "SendStream AP fd ms (set_acc p (\<lambda>a. a\<lparr>r_Msg := x\<rparr>) A) = (r, A'')" for A'' fd ms x
    using keeping.trans [OF keeps_set_same [of A p "\<lambda>a. a\<lparr>r_Msg := x\<rparr>"] keeps_SendStream [of k X _ AP fd ms]] that
    by (simp add: same_session_def session_key.cmp_refl)
  show ?thesis
    using assms by (auto simp: PaxosAcceptRelease1_def Let_def bind_eq_Some_conv keeping.refl
        split: option.splits if_splits list.splits intro: send)
qed

lemma keeps_ReplyByMsg1:
  assumes "PaxosAcceptReplyByMsg1 AP p m A = Some (r, A')"
  shows "session_holds k X A A'"
proof (cases m)
  case None
  then show ?thesis using assms keeps_Release1 [of AP p A r A' k X] by (simp add: PaxosAcceptReplyByMsg1_def)
next
  case (Some ms)
  define A1 where "A1 = set_acc p (\<lambda>a. a\<lparr>a_Reply := a_Start a\<rparr>) A"
  define A2 where "A2 = (if \<not> r_Hold (acc A1 p) then PaxosAcceptFreeReply p A1 else A1)"
  define A3 where "A3 = set_acc p (\<lambda>a. a\<lparr>r_Msg := r_Msg a @ [ms], r_Cnt := r_Cnt a + 1\<rparr>) A2"
  have 1: "session_holds k X A A1" unfolding A1_def
    by (rule keeps_set_same) (simp add: same_session_def session_key.cmp_refl)
  have 2: "session_holds k X A1 A2" unfolding A2_def PaxosAcceptFreeReply_def
    by (simp add: keeping.refl keeps_set_same same_session_def session_key.cmp_refl)
  have 3: "session_holds k X A2 A3" unfolding A3_def
    by (rule keeps_set_same) (simp add: same_session_def session_key.cmp_refl)
  have "session_holds k X A3 A'"
    using assms keeps_Release1 [of AP p A3 r A' k X]
    by (auto simp: PaxosAcceptReplyByMsg1_def Some Let_def keeping.refl
        simp flip: A1_def A2_def A3_def split: if_splits)
  then show ?thesis by (rule keeping.trans [OF keeping.trans [OF keeping.trans [OF 1 2] 3]])
qed

lemma keeps_ReplyByMsg: "PaxosAcceptReplyByMsg AP p b ms A = Some (r, A') \<Longrightarrow> session_holds k X A A'"
  unfolding PaxosAcceptReplyByMsg_def
  by (rule keeping.trans [OF keeps_set_same keeps_ReplyByMsg1])
    (simp_all add: same_session_def session_key.cmp_refl)


lemmas same_simps = same_session_def session_key.cmp_refl

lemma keeps_Hold: "session_holds k X A (PaxosAcceptHold p A)"
  unfolding PaxosAcceptHold_def PaxosAcceptFreeReply_def
  by (rule keeping.trans; rule keeps_set_same) (simp_all add: same_simps)

lemma keeps_Release: "PaxosAcceptRelease AP p A = Some (r, A') \<Longrightarrow> session_holds k X A A'"
  unfolding PaxosAcceptRelease_def
  by (rule keeping.trans [OF keeps_set_same keeps_Release1]) (simp_all add: same_simps)

lemma keeps_EventRaise:
  assumes "PaxosAcceptEventRaise AP p m A = Some (r, A')"
  shows "session_holds k X A A'"
proof -
  define raised where "raised = (case ev_pRaised (acc A p) of Some ms \<Rightarrow> ms | None \<Rightarrow> [])"
  define A1 where "A1 = set_acc p (\<lambda>a. a\<lparr>ev_pRaised := Some raised\<rparr>) A"
  have 1: "session_holds k X A A1" unfolding A1_def by (rule keeps_set_same) (simp add: same_simps)
  have "session_holds k X A1 A'"
  proof (cases "ev_Send (acc A1 p)")
    case False
    then have "A' = set_acc p (\<lambda>a. if ev_Cnt a < EVENT_MAX
        then a\<lparr>ev_pRaised := Some (raised @ [m]), ev_Cnt := ev_Cnt a + 1\<rparr>
        else a\<lparr>ev_Omitted := ev_Omitted a + 1\<rparr>) A1"
      using assms by (simp add: PaxosAcceptEventRaise_def Let_def flip: raised_def A1_def)
    then show ?thesis by (simp add: keeps_set_same same_simps)
  next
    case True
    then obtain B ms where "PaxosAcceptReplyByMsg1 AP p (Some ms) A1 = Some (r, B)"
      and B: "A' = set_acc p (\<lambda>a. a\<lparr>ev_pRaised := None, ev_Send := False\<rparr>) B"
      using assms by (auto simp: PaxosAcceptEventRaise_def Let_def bind_eq_Some_conv simp flip: raised_def A1_def)
    then have "session_holds k X A1 B" using keeps_ReplyByMsg1 by blast
    moreover have "session_holds k X B A'" unfolding B by (rule keeps_set_same) (simp add: same_simps)
    ultimately show ?thesis by (rule keeping.trans)
  qed
  with 1 show ?thesis by (rule keeping.trans)
qed

lemma keeps_EventGet:
  assumes "PaxosAcceptEventGet AP p A = Some (r, A')"
  shows "session_holds k X A A'"
proof (cases "ev_Cnt (acc A p) > 0")
  case False
  then have "A' = set_acc p (\<lambda>a. a\<lparr>ev_Send := True\<rparr>) A" using assms by (simp add: PaxosAcceptEventGet_def Let_def)
  then show ?thesis by (simp add: keeps_set_same same_simps)
next
  case True
  define A1 where "A1 = set_acc p (\<lambda>a. a\<lparr>ev_Cnt := 0, ev_Omitted := 0\<rparr>) A"
  have 1: "session_holds k X A A1" unfolding A1_def by (rule keeps_set_same) (simp add: same_simps)
  obtain B ms where "PaxosAcceptReplyByMsg1 AP p (Some ms) A1 = Some (r, B)"
    and B: "A' = set_acc p (\<lambda>a. a\<lparr>ev_pRaised := None\<rparr>) B"
    using assms True
    by (auto simp: PaxosAcceptEventGet_def Let_def bind_eq_Some_conv simp flip: A1_def split: option.splits)
  then have "session_holds k X A1 B" using keeps_ReplyByMsg1 by blast
  moreover have "session_holds k X B A'" unfolding B by (rule keeps_set_same) (simp add: same_simps)
  ultimately show ?thesis using 1 by (blast intro: keeping.trans)
qed

lemma keeps_appcall: "do_appcall AP p c A = Some A' \<Longrightarrow> session_holds k X A A'"
  by (cases c) (auto intro: keeps_ReplyByMsg keeps_Hold keeps_Release keeps_EventRaise)

lemma keeps_app_call:
  assumes "app_call AP f x p m A = Some (r, A')" and "seq_of k x = None"
  shows "session_holds k X A A'"
proof -
  obtain calls where c: "for_each (do_appcall AP p) calls (sfx_emit x A) = Some A'"
    using assms(1) by (auto simp: app_call_def split: prod.splits)
  have "session_holds k X (sfx_emit x A) A'" by (rule keeping.for_each_ev [OF _ c]) (rule keeps_appcall)
  with keeps_emit [OF assms(2)] show ?thesis by (rule keeping.trans)
qed

section \<open>Out-of-band data\<close>

lemma keeps_set_out [simp]: "session_holds k X A (set_out q f A)"
  by (rule keeps_fields) (simp_all add: set_out_def)

lemma keeps_find: "session_holds k X A (snd (outofband_find pId A))"
  by (rule keeps_fields) (simp_all add: outofband_find_def split: prod.splits)

lemma keeps_OutOfBandRemove: "session_holds k X A (OutOfBandRemove q A)"
proof -
  have "c_Accept (OutOfBandRemove q A) = c_Accept A"
    by (simp add: OutOfBandRemove_def Let_def set_out_def sfx_emit_def split: option.splits)
  moreover have "delivered k (OutOfBandRemove q A) = delivered k A"
    by (simp add: OutOfBandRemove_def Let_def set_out_def sfx_emit_def delivered_def List.map_filter_def split: option.splits)
  ultimately show ?thesis by (simp add: session_holds_def)
qed

lemma keeps_outofband_close: "session_holds k X A (outofband_close p A)"
  unfolding outofband_close_def by (rule keeping.fold_ev) (simp add: keeping.refl keeps_OutOfBandRemove)

lemma keeps_outofband_garbage: "session_holds k X A (outofband_garbage E b qs A)"
  by (induction qs arbitrary: A)
    (auto simp: keeping.refl intro: keeping.trans [OF keeps_OutOfBandRemove])

lemma keeps_execute_garbage: "execute_garbage E pH A = Some A' \<Longrightarrow> session_holds k X A A'"
  by (auto simp: execute_garbage_def bind_eq_Some_conv keeping.refl keeps_outofband_garbage split: if_splits)

section \<open>Getting and putting sessions\<close>

definition session_keeps :: "PaxosClientId_t \<Rightarrow> PaxosAcceptor_t \<Rightarrow> PaxosAcceptor_t \<Rightarrow> bool" where
  "session_keeps k A A' \<longleftrightarrow> (sessions_ok A \<longrightarrow> sessions_ok A' \<and> delivered k A' = delivered k A \<and>
      (\<forall>p. session_at A k = Some p \<longrightarrow> is_open A p \<longrightarrow>
        session_at A' k = Some p \<and> same_session (acc A p) (acc A' p)))"

lemma keepsI: "(sessions_ok A \<Longrightarrow> session_keeps k A A') \<Longrightarrow> session_keeps k A A'"
  by (simp add: session_keeps_def)

lemma holds_keeps:
  assumes "session_holds k X A A'" and "\<And>p. sessions_ok A \<Longrightarrow> session_at A k = Some p \<Longrightarrow> is_open A p \<Longrightarrow> p \<notin> X"
  shows "session_keeps k A A'"
  using assms unfolding session_holds_def session_keeps_def by auto

lemma holds_empty_keeps: "session_holds k {} A A' \<Longrightarrow> session_keeps k A A'"
  by (erule holds_keeps) simp

lemma session_keeps_trans:
  assumes st: "session_keeps k s t" and tu: "session_keeps k t u"
  shows "session_keeps k s u"
proof (rule keepsI)
  assume s: "sessions_ok s"
  have t: "sessions_ok t" using st s by (simp add: session_keeps_def)
  have "session_at u k = Some p \<and> same_session (acc s p) (acc u p)"
    if p: "session_at s k = Some p" "is_open s p" for p
  proof -
    have 1: "session_at t k = Some p" "same_session (acc s p) (acc t p)"
      using st s p by (simp_all add: session_keeps_def)
    moreover have "is_open t p" using same_session_open [OF 1(2) p(2)] .
    ultimately have "session_at u k = Some p" "same_session (acc t p) (acc u p)"
      using tu t by (simp_all add: session_keeps_def)
    then show ?thesis using same_session_trans [OF 1(2)] by simp
  qed
  then show "session_keeps k s u" using st tu s t by (simp add: session_keeps_def)
qed

interpretation guarding: evolution "session_keeps k" for k
  by unfold_locales (simp add: session_keeps_def, rule session_keeps_trans)

lemma AcceptUnset_open: "fst (ge_fUnset (AcceptIF E) b a) \<noteq> 0 \<longleftrightarrow> a_Opened a \<noteq> ACCEPT_BINDED"
  by (simp add: AcceptIF_def AcceptUnset_def)

lemma PaxosAcceptGet_frame:
  assumes "PaxosAcceptGet E pId c A = Some r"
  shows "case r of Waits A' \<Rightarrow> session_keeps k A A'
    | Goes (po, A') \<Rightarrow> session_keeps k A A' \<and> (sessions_ok A \<longrightarrow> session_at A' pId = po)"
proof -
  obtain r' where g: "GElmGet (AcceptIF E) [] pId c True (c_Accept A) = Some r'"
    and r: "r = (case r' of GGot p g \<Rightarrow> Goes (p, A\<lparr>c_Accept := g\<rparr>) | GWait g \<Rightarrow> Waits (A\<lparr>c_Accept := g\<rparr>))"
    using assms by (auto simp: PaxosAcceptGet_def)
  have frame: "case r' of GWait g' \<Rightarrow> sessions.ok g' \<and> sessions.kept E True (c_Accept A) g'
    | GGot po g' \<Rightarrow> sessions.ok g' \<and> sessions.found g' pId = po \<and> sessions.kept E True (c_Accept A) g'"
    if "sessions_ok A"
  proof (rule sessions.get_frame [OF that g])
    show "fst (ge_fSet (AcceptIF E) pId True e) = 0" for e by (simp add: AcceptIF_def AcceptSet_def)
    show "e' = e" if "ge_fUnset (AcceptIF E) True e = (r, k', e')" "r \<noteq> 0" for e r k' e'
      using that by (simp add: AcceptIF_def AcceptUnset_def split: if_splits)
  qed
  have keeps: "session_keeps k A (A\<lparr>c_Accept := g'\<rparr>)"
    if "sessions_ok A \<Longrightarrow> sessions.ok g' \<and> sessions.kept E True (c_Accept A) g'" for g'
    using that by (auto simp: session_keeps_def delivered_def sessions.kept_def AcceptUnset_open is_open_def)
  show ?thesis
    using r frame by (cases r') (auto intro!: keeps)
qed

lemma PaxosAcceptPut_kept:
  assumes put: "PaxosAcceptPut E p A = Some (r, A')" and p: "session_at A b = Some p" and ok: "sessions_ok A"
  shows "sessions_ok A' \<and> delivered k A' = delivered k A \<and>
    (session_at A c = Some q \<longrightarrow> is_open A q \<longrightarrow> session_at A' c = Some q \<and> acc A' q = acc A q)"
proof -
  obtain g where g: "GElmPut (AcceptIF E) p True True (c_Accept A) = Some (r, g)" and A': "A' = A\<lparr>c_Accept := g\<rparr>"
    using put by (auto simp: PaxosAcceptPut_def)
  have lnk: "p \<in> set (ge_Lnk (c_Accept A))" using p sessions.found_iff [OF ok] by (simp add: sessions.bound_to_def)
  have cnt: "0 < elm_cnt (c_Accept A) p"
    using g sessions.ok_parts(4) [OF ok lnk] by (auto simp: GElmPut_def set_elm_def Let_def split: if_splits)
  obtain u k' e' where u: "ge_fUnset (AcceptIF E) True (acc A p) = (u, k', e')" by (metis prod_cases3)
  have keep: "u \<noteq> 0 \<longrightarrow> e' = acc A p" using u by (simp add: AcceptIF_def AcceptUnset_def split: if_splits)
  obtain g' where g': "GElmPut (AcceptIF E) p True True (c_Accept A) =
      Some ((if elm_cnt (c_Accept A) p = 1 then u else 0), g')" "sessions.ok g'"
    "sessions.found g' = (if elm_cnt (c_Accept A) p = 1 \<and> u = 0
       then (\<lambda>k. if session_at A k = Some p then None else session_at A k) else session_at A)"
    "\<forall>q. q \<noteq> p \<longrightarrow> ge_Elm g' q = ge_Elm (c_Accept A) q"
    "elm_cnt (c_Accept A) p = 1 \<and> u = 0 \<or> elm_obj g' p = acc A p"
    using sessions.put_laws [OF ok lnk cnt u keep, of True] by auto
  have gg: "g = g'" using g g'(1) by simp
  have op: "u \<noteq> 0 \<longleftrightarrow> is_open A p" using AcceptUnset_open [of E True "acc A p"] u by (simp add: is_open_def)
  have "sessions.found g c = Some q \<and> elm_obj g q = acc A q" if q: "session_at A c = Some q" "is_open A q"
  proof (cases "q = p")
    case True
    then show ?thesis using q op g'(3,5) by (simp add: gg)
  next
    case False
    then show ?thesis using q g'(3,4) by (simp add: gg)
  qed
  then show ?thesis using g'(2) by (simp add: gg A' delivered_def)
qed

lemma PaxosAcceptPut_frame:
  assumes "PaxosAcceptPut E p A = Some (r, A')" and "sessions_ok A \<Longrightarrow> session_at A b = Some p"
  shows "session_keeps k A A'"
  unfolding session_keeps_def using PaxosAcceptPut_kept [OF assms] by auto

end
