(* ===== verification/Session_Once.thy ===== *)
theory Session_Once
  imports Session_Frame
begin

text \<open>
  The executing thread and one session: a request of another client leaves the session alone, and one
  of its own client moves its numbers forward or does not reach the application.
\<close>

lemma session_at_set_acc [simp]: "session_at (set_acc q f A) = session_at A"
  by (rule ext) (simp add: sessions.found_def set_acc_def set_elm_def)

lemma sessions_ok_set_acc:
  assumes "HashSessionCompare (a_Id (f (acc A q))) (a_Id (acc A q)) = 0"
  shows "sessions_ok (set_acc q f A) = sessions_ok A"
proof
  have "set_acc q (\<lambda>_. acc A q) (set_acc q f A) = A" by (simp add: set_acc_def set_elm_def)
  then show "sessions_ok A" if "sessions_ok (set_acc q f A)"
    using sessions_set_acc [OF that, of "\<lambda>_. acc A q" q] session_key.cmp_sym [OF assms] by (simp add: acc_set_acc)
qed (use sessions_set_acc [of A f q] assms in blast)

section \<open>Commands\<close>

lemma keeps_IsAccepted_check:
  "IsAccepted_check AP p m A = Some (r, A') \<Longrightarrow> session_holds k X A A'"
  by (auto simp: IsAccepted_check_def Let_def bind_eq_Some_conv keeping.refl intro: keeps_ReplyByMsg1
      split: if_splits)

lemma IsAccepted_check_new:
  "IsAccepted_check AP p m A = Some (0, A') \<Longrightarrow>
    A' = A \<and> 0 \<le> CMP (i_Seq (h_Id m)) (a_Reply (acc A p)) \<and> a_Reply (acc A p) \<noteq> i_Seq (h_Id m)"
  by (auto simp: IsAccepted_check_def Let_def bind_eq_Some_conv split: if_splits)

lemma keeps_execute_open:
  assumes "execute_open E AP p m A = Some A'"
  shows "session_holds k X A A'"
proof -
  obtain r A1 n A2 where 1: "app_call AP (if_fSessionOpen AP) (SxOpen m) p m A = Some (r, A1)"
    and A2: "A2 = (if r = 0 then set_acc p (\<lambda>a. a\<lparr>a_Opened := ACCEPT_OPENED\<rparr>) A1 else A1)"
    and 3: "PaxosAcceptOpenReplyByMsg AP p r A2 = Some (n, A')"
    using assms by (auto simp: execute_open_def bind_eq_Some_conv Let_def split: if_splits)
  have "session_holds k X A A1" by (rule keeps_app_call [OF 1]) simp
  moreover have "session_holds k X A1 A2" unfolding A2 by (auto simp: keeping.refl same_simps intro!: keeps_set_same)
  moreover have "session_holds k X A2 A'" using 3 keeps_ReplyByMsg by (auto simp: PaxosAcceptOpenReplyByMsg_def)
  ultimately show ?thesis by (blast intro: keeping.trans)
qed

lemma keeps_execute_member: "execute_member AP p m A = Some A' \<Longrightarrow> session_holds k X A A'"
proof -
  assume "execute_member AP p m A = Some A'"
  then obtain r m' B where "PaxosAcceptSend AP p m' B = Some (r, A')" and "c_Accept B = c_Accept A" "c_Sfx B = c_Sfx A"
    by (auto simp: execute_member_def split: prod.splits if_splits)
  then show ?thesis by (blast intro: keeping.trans [OF keeps_fields keeps_AcceptSend])
qed

text \<open>The part of a close before the session is put back.\<close>

lemma holds_execute_close:
  assumes "execute_close E AP p m A = Some A'" and "p \<in> X"
  shows "\<exists>B r. session_holds k X A B \<and> PaxosAcceptPut E p B = Some (r, A')"
proof -
  obtain r A1 where 1: "(if a_Opened (acc A p) \<noteq> ACCEPT_BINDED
      then app_call AP (if_fSessionClose AP) (SxClose m) p m A else Some (-1, A)) = Some (r, A1)"
    and rest: "do { A \<leftarrow> (if h_Cmd m = PAXOS_SESSION_CLOSE
           then map_option snd (PaxosAcceptReplyCloseByMsg AP p r (outofband_close p A1)) else Some (outofband_close p A1));
         (_, A) \<leftarrow> PaxosAcceptPut E p (set_acc p (\<lambda>a. a\<lparr>a_Opened := ACCEPT_BINDED\<rparr>) A);
         Some A } = Some A'"
    using assms(1) by (auto simp: execute_close_def bind_eq_Some_conv Let_def)
  obtain A2 n where 2: "(if h_Cmd m = PAXOS_SESSION_CLOSE
         then map_option snd (PaxosAcceptReplyCloseByMsg AP p r (outofband_close p A1)) else Some (outofband_close p A1)) = Some A2"
    and 3: "PaxosAcceptPut E p (set_acc p (\<lambda>a. a\<lparr>a_Opened := ACCEPT_BINDED\<rparr>) A2) = Some (n, A')"
    using rest by (auto simp: bind_eq_Some_conv)
  have a: "session_holds k X A A1"
    using 1 keeps_app_call [of AP "if_fSessionClose AP" "SxClose m" p m A r A1 k X]
    by (auto simp: keeping.refl split: if_splits)
  have b: "session_holds k X (outofband_close p A1) A2"
    using 2 by (auto simp: keeping.refl PaxosAcceptReplyCloseByMsg_def intro: keeps_ReplyByMsg split: if_splits)
  have c: "session_holds k X A2 (set_acc p (\<lambda>a. a\<lparr>a_Opened := ACCEPT_BINDED\<rparr>) A2)"
    by (rule keeps_set_acc) (simp_all add: session_key.cmp_refl assms(2))
  from a keeps_outofband_close b c 3 show ?thesis by (blast intro: keeping.trans)
qed

definition is_data :: "PaxosCmd \<Rightarrow> bool" where
  "is_data c \<longleftrightarrow> c \<notin> {PAXOS_SESSION_OPEN, PAXOS_SESSION_CLOSE, PAXOS_SESSION_ABORT, PAXOS_SESSION_EVENT,
     PAXOS_SESSION_CHANGE_MEMBER}"

lemma execute_data:
  "is_data (h_Cmd m) \<Longrightarrow> execute_command E AP p e m A = do {
      A \<leftarrow> execute_garbage E e A;
      ASSERT (a_Opened (acc A p) \<noteq> ACCEPT_BINDED);
      (_, A) \<leftarrow> app_call AP (if_fAccepted AP) (SxAccepted m) p m A;
      Some (True, A) }"
  by (cases "h_Cmd m") (simp_all add: is_data_def execute_command_def)

text \<open>The session given back at the end of a request.\<close>

lemma keeps_end:
  assumes "execute_end E p c (True, A) = Some A'" and p: "sessions_ok A \<Longrightarrow> session_at A b = Some p"
  shows "session_keeps k A A'"
proof -
  obtain A1 r where 1: "PaxosAcceptedEnd p c A = Some A1" and 2: "PaxosAcceptPut E p A1 = Some (r, A')"
    using assms(1) by (auto simp: execute_end_def bind_eq_Some_conv)
  have A1: "A1 = set_acc p (\<lambda>a. a\<lparr>a_End := i_Seq c\<rparr>) A" using 1 by (auto simp: PaxosAcceptedEnd_def bind_eq_Some_conv)
  have h: "session_holds k' {} A A1" for k' unfolding A1 by (rule keeps_set_same) (simp add: same_simps)
  have "session_keeps k A1 A'"
    by (rule PaxosAcceptPut_frame [OF 2, of b]) (use p in \<open>simp add: A1 sessions_ok_set_acc session_key.cmp_refl\<close>)
  with holds_empty_keeps [OF h] show ?thesis by (rule session_keeps_trans)
qed

section \<open>A request of another session\<close>

lemma holds_command:
  assumes c: "execute_command E AP p e m A = Some (held, A')" and p: "p \<in> X"
    and other: "HashSessionCompare (h_Id m) k \<noteq> 0"
  shows "\<exists>B r. session_holds k X A B \<and> (if held then A' = B else PaxosAcceptPut E p B = Some (r, A'))"
proof (cases "is_data (h_Cmd m)")
  case True
  obtain A1 r where 1: "execute_garbage E e A = Some A1"
    and 2: "app_call AP (if_fAccepted AP) (SxAccepted m) p m A1 = Some (r, A')" and h: "held"
    using c by (auto simp: execute_data [OF True] bind_eq_Some_conv)
  have "session_holds k X A1 A'" by (rule keeps_app_call [OF 2]) (simp add: other)
  then show ?thesis using keeping.trans [OF keeps_execute_garbage [OF 1]] h by auto
next
  case False
  then consider "h_Cmd m \<in> {PAXOS_SESSION_CLOSE, PAXOS_SESSION_ABORT}"
    | "h_Cmd m \<in> {PAXOS_SESSION_OPEN, PAXOS_SESSION_EVENT, PAXOS_SESSION_CHANGE_MEMBER}"
    by (auto simp: is_data_def)
  then show ?thesis
  proof cases
    case 1
    then have "execute_close E AP p m A = Some A'" "\<not> held" using c by (auto simp: execute_command_def)
    with holds_execute_close [OF _ p] show ?thesis by fastforce
  next
    case 2
    then show ?thesis
      using c by (auto simp: execute_command_def intro: keeps_execute_open keeps_EventGet keeps_execute_member)
  qed
qed

lemma keeps_command_end:
  assumes c: "execute_command E AP p e m A = Some x" and e: "execute_end E p pId x = Some A'"
    and p: "sessions_ok A \<Longrightarrow> session_at A b = Some p" and other: "HashSessionCompare (h_Id m) k \<noteq> 0"
    and not_p: "sessions_ok A \<Longrightarrow> session_at A k \<noteq> Some p"
  shows "session_keeps k A A'"
proof (rule keepsI)
  assume ok: "sessions_ok A"
  obtain held A1 where x: "x = (held, A1)" by (cases x)
  obtain B r where B: "session_holds k {p} A B" "if held then A1 = B else PaxosAcceptPut E p B = Some (r, A1)"
    using holds_command [OF c [unfolded x], of "{p}" k] other by auto
  have at: "session_at B b = Some p" using B(1) p ok by (simp add: session_holds_def)
  have "session_keeps k B A'"
  proof (cases held)
    case True
    show ?thesis by (rule keeps_end) (use e x True B(2) at in auto)
  next
    case False
    show ?thesis by (rule PaxosAcceptPut_frame) (use e x False B(2) at in \<open>auto simp: execute_end_def\<close>)
  qed
  moreover have "session_keeps k A B" by (rule holds_keeps [OF B(1)]) (use not_p in auto)
  ultimately show "session_keeps k A A'" by (blast intro: session_keeps_trans)
qed

lemma get_same:
  assumes "PaxosAcceptGet E pId c A = Some (Goes (po, A1))"
  shows "session_keeps k A A1" and "sessions_ok A \<Longrightarrow> session_at A1 pId = po"
  using PaxosAcceptGet_frame [OF assms, of k] by simp_all

lemma admitted_cases:
  assumes a: "execute_admitted E AP [] p e m A = Some (Goes A')"
  obtains (dup) r A1 n where "PaxosAcceptIsAccepted AP [] p m A = Some (Goes (r, A1))" "r \<noteq> 0"
      "PaxosAcceptPut E p A1 = Some (n, A')"
  | (early) A1 m' n B n' where "PaxosAcceptIsAccepted AP [] p m A = Some (Goes (0, A1))"
      "CMP (i_SeqWait (h_Id m)) (a_End (acc A1 p)) > 0"
      "PaxosAcceptSend AP p m' A1 = Some (n, B)" "PaxosAcceptPut E p B = Some (n', A')"
  | (new) A1 x where "PaxosAcceptIsAccepted AP [] p m A = Some (Goes (0, A1))"
      "CMP (i_SeqWait (h_Id m)) (a_End (acc A1 p)) \<le> 0"
      "execute_command E AP p e m (set_acc p (ACCEPTED_SEQ m) A1) = Some x"
      "execute_end E p (h_Id m) x = Some A'"
proof -
  obtain w where w: "PaxosAcceptIsAccepted AP [] p m A = Some w" using a
    by (cases "PaxosAcceptIsAccepted AP [] p m A") (simp_all add: execute_admitted_def)
  obtain r A1 where 1: "PaxosAcceptIsAccepted AP [] p m A = Some (Goes (r, A1))"
    using a w by (cases w) (auto simp: execute_admitted_def)
  show thesis
  proof (cases "r = 0")
    case False
    with 1 a show thesis by (auto simp: execute_admitted_def intro: dup)
  next
    case r: True
    show thesis
    proof (cases "CMP (i_SeqWait (h_Id m)) (a_End (acc A1 p)) > 0")
      case True
      with 1 a r show thesis by (auto simp: execute_admitted_def bind_eq_Some_conv intro: early)
    next
      case False
      then have "PaxosAcceptedStart [] p m A1 = Goes (set_acc p (ACCEPTED_SEQ m) A1)" by simp
      with 1 a r False show thesis by (auto simp: execute_admitted_def bind_eq_Some_conv intro: new)
    qed
  qed
qed

text \<open>Only a session that is closed is reset; an open one makes the call wait.\<close>

lemma holds_IsAccepted:
  assumes 1: "PaxosAcceptIsAccepted AP [] p m A = Some (Goes (r, A1))"
  shows "session_holds k (if is_open A p then X else insert p X) A A1"
    and "is_open A p \<Longrightarrow> IsAccepted_check AP p m A = Some (r, A1)"
proof -
  have "session_holds k Y A A1" if "is_open A p \<or> p \<in> Y" for Y
  proof (cases "is_reuse (acc A p) m")
    case True
    then have "IsAccepted_check AP p m (set_acc p session_reset A) = Some (r, A1)" "\<not> is_open A p"
      using 1 by (auto simp: PaxosAcceptIsAccepted_def is_open_def split: wait.splits if_splits)
    moreover have "session_holds k Y A (set_acc p session_reset A)"
      by (rule keeps_set_acc) (use that calculation(2) in \<open>simp_all add: session_reset_def session_key.cmp_refl\<close>)
    ultimately show ?thesis using keeps_IsAccepted_check keeping.trans by blast
  next
    case False
    then show ?thesis using 1 keeps_IsAccepted_check by (auto simp: PaxosAcceptIsAccepted_def)
  qed
  then show "session_holds k (if is_open A p then X else insert p X) A A1" by simp
  show "is_open A p \<Longrightarrow> IsAccepted_check AP p m A = Some (r, A1)"
    using 1 by (auto simp: PaxosAcceptIsAccepted_def is_open_def split: wait.splits if_splits)
qed

lemma holds_mono: "session_holds k X A A' \<Longrightarrow> X \<subseteq> Y \<Longrightarrow> session_holds k Y A A'"
  by (auto simp: session_holds_def)

text \<open>An admitted request of another session.\<close>

lemma keeps_admitted:
  assumes a: "execute_admitted E AP [] p e m A = Some (Goes A')"
    and p: "sessions_ok A \<Longrightarrow> session_at A b = Some p" and other: "HashSessionCompare (h_Id m) k \<noteq> 0"
    and not_p: "sessions_ok A \<Longrightarrow> session_at A k \<noteq> Some p"
  shows "session_keeps k A A'"
proof (rule keepsI)
  assume ok: "sessions_ok A"
  have end1: "session_keeps k A A'" if "session_holds k {p} A B" "PaxosAcceptPut E p B = Some (r, A')" for B r
    by (rule session_keeps_trans [OF holds_keeps [OF that(1)] PaxosAcceptPut_frame [OF that(2), of b]])
      (use not_p p ok that(1) in \<open>auto simp: session_holds_def\<close>)
  have acc: "session_holds k {p} A A1" if "PaxosAcceptIsAccepted AP [] p m A = Some (Goes (r, A1))" for r A1
    by (rule holds_mono [OF holds_IsAccepted(1) [OF that, of k "{}"]]) simp
  from a show "session_keeps k A A'"
  proof (cases rule: admitted_cases)
    case dup
    then show ?thesis using end1 acc by blast
  next
    case (early A1 m' n B n')
    have "session_holds k {p} A B"
      using acc [OF early(1)] keeps_AcceptSend [OF early(3)] by (rule keeping.trans)
    then show ?thesis using early(4) by (rule end1)
  next
    case (new A1 x)
    define A2 where "A2 = set_acc p (ACCEPTED_SEQ m) A1"
    note x = new(3,4) [folded A2_def]
    have "session_holds k {p} A1 A2" unfolding A2_def
      by (rule keeps_set_acc) (simp_all add: ACCEPTED_SEQ_def HashSessionCompare_def)
    with acc [OF new(1)] have A2: "session_holds k {p} A A2" by (rule keeping.trans)
    have "session_keeps k A A2" by (rule holds_keeps [OF A2]) (use not_p in auto)
    moreover have "session_keeps k A2 A'"
      by (rule keeps_command_end [OF x, of b]) (use p other not_p ok A2 in \<open>auto simp: session_holds_def\<close>)
    ultimately show ?thesis by (rule session_keeps_trans)
  qed
qed

lemma execute_one_cases:
  assumes e: "execute_one E AP [] e A = Some (Goes A')" and m_def: "m = ap_parse AP (e_Cmd e)"
  obtains (nobody) A1 where "PaxosAcceptGet E (h_Id m) (h_Cmd m = PAXOS_SESSION_OPEN) A = Some (Goes (None, A1))"
      "execute_nobody m A1 = Some A'"
  | (abort) p A1 x where "PaxosAcceptGet E (h_Id m) (h_Cmd m = PAXOS_SESSION_OPEN) A = Some (Goes (Some p, A1))"
      "h_Cmd m = PAXOS_SESSION_ABORT" "execute_command E AP p e m A1 = Some x" "execute_end E p (h_Id m) x = Some A'"
  | (admitted) p A1 where "PaxosAcceptGet E (h_Id m) (h_Cmd m = PAXOS_SESSION_OPEN) A = Some (Goes (Some p, A1))"
      "h_Cmd m \<noteq> PAXOS_SESSION_ABORT" "execute_admitted E AP [] p e m A1 = Some (Goes A')"
proof -
  obtain w where w: "PaxosAcceptGet E (h_Id m) (h_Cmd m = PAXOS_SESSION_OPEN) A = Some w" using e
    by (cases "PaxosAcceptGet E (h_Id m) (h_Cmd m = PAXOS_SESSION_OPEN) A")
      (simp_all add: execute_one_def bind_eq_Some_conv Let_def m_def)
  obtain po A1 where 1: "PaxosAcceptGet E (h_Id m) (h_Cmd m = PAXOS_SESSION_OPEN) A = Some (Goes (po, A1))"
    using e w by (cases w) (auto simp: execute_one_def bind_eq_Some_conv Let_def m_def)
  show thesis
  proof (cases po)
    case None
    then show thesis using nobody 1 e by (auto simp: execute_one_def bind_eq_Some_conv Let_def m_def)
  next
    case (Some p)
    then show thesis using abort admitted 1 e
      by (cases "h_Cmd m = PAXOS_SESSION_ABORT") (auto simp: execute_one_def bind_eq_Some_conv Let_def m_def)
  qed
qed

lemma not_other:
  assumes "sessions_ok A" and "session_at A c = Some p" and "HashSessionCompare c k \<noteq> 0"
  shows "session_at A k \<noteq> Some p"
proof
  assume "session_at A k = Some p"
  with assms(2) have "HashSessionCompare (a_Id (acc A p)) c = 0" "HashSessionCompare (a_Id (acc A p)) k = 0"
    by (simp_all add: sessions.found_iff [OF assms(1)] sessions.bound_to_def)
  then show False using assms(3) session_key.cmp_sym session_key.cmp_trans by blast
qed

lemma execute_other_keeps:
  assumes e: "execute_one E AP [] e A = Some (Goes A')"
    and other: "HashSessionCompare (h_Id (ap_parse AP (e_Cmd e))) k \<noteq> 0"
  shows "session_keeps k A A'"
proof (rule keepsI)
  assume ok: "sessions_ok A"
  have ok1: "sessions_ok A1" if "session_keeps k A A1" for A1 using that ok by (simp add: session_keeps_def)
  from e refl show "session_keeps k A A'"
  proof (cases rule: execute_one_cases)
    case (nobody A1)
    then have "A' = A1" by (cases "h_Cmd (ap_parse AP (e_Cmd e))") (simp_all add: execute_nobody_def)
    then show ?thesis using get_same(1) [OF nobody(1)] by simp
  next
    case (abort p A1 x)
    note keep = get_same(1) [OF abort(1), of k] and at = get_same(2) [OF abort(1) ok]
    have "session_keeps k A1 A'"
      by (rule keeps_command_end [OF abort(3,4)]) (use at other not_other [OF _ at other] in auto)
    with keep show ?thesis by (rule session_keeps_trans)
  next
    case (admitted p A1)
    note keep = get_same(1) [OF admitted(1), of k] and at = get_same(2) [OF admitted(1) ok]
    have "session_keeps k A1 A'"
      by (rule keeps_admitted [OF admitted(3)]) (use at other not_other [OF _ at other] in auto)
    with keep show ?thesis by (rule session_keeps_trans)
  qed
qed

section \<open>A request of the session itself\<close>

lemma CMP_small:
  assumes "x < 2 ^ 31" and "y < 2 ^ 31"
  shows "CMP x y = uint x - uint y"
proof -
  have "x - y = word_of_int (uint x - uint y)" by simp
  then have "sint (x - y) = signed_take_bit 31 (uint x - uint y)" by (simp only: signed_of_int) simp
  moreover have "- (2 ^ 31) \<le> uint x - uint y \<and> uint x - uint y < 2 ^ 31"
  proof -
    have "uint x < 2 ^ 31" "uint y < 2 ^ 31" using assms by (simp_all add: word_less_def)
    then show ?thesis using uint_ge_0 [of x] uint_ge_0 [of y] by linarith
  qed
  ultimately show ?thesis by (simp add: CMP_def signed_take_bit_int_eq_self)
qed

text \<open>The application answers the request, or every one, before \<open>if_fAccepted\<close> returns.\<close>

definition answers_at :: "app \<Rightarrow> PaxosSessionHead_t \<Rightarrow> bool" where
  "answers_at AP m \<longleftrightarrow> (\<forall>tr. \<exists>b r. AcReply b r \<in> set (snd (if_fAccepted AP tr m)))"

definition answers :: "app \<Rightarrow> bool" where
  "answers AP \<longleftrightarrow> (\<forall>m. answers_at AP m)"

abbreviation answered :: "PaxosAcceptor_t \<Rightarrow> nat \<Rightarrow> bool" where
  "answered A p \<equiv> a_Reply (acc A p) = a_Start (acc A p)"

lemma holds_session:
  assumes "session_holds k X A A'" and "sessions_ok A" and "p \<notin> X"
  shows "same_session (acc A p) (acc A' p)"
  using assms by (simp add: session_holds_def)

lemma ReplyByMsg_answers:
  assumes r: "PaxosAcceptReplyByMsg AP p b ms A = Some (r, A')" and ok: "sessions_ok A"
  shows "answered A' p"
proof -
  define A0 where "A0 = set_acc p (\<lambda>a. a\<lparr>a_Master := b\<rparr>) A"
  define A1 where "A1 = set_acc p (\<lambda>a. a\<lparr>a_Reply := a_Start a\<rparr>) A0"
  have ok1: "sessions_ok A1" unfolding A1_def A0_def using ok by (simp add: sessions_ok_set_acc session_key.cmp_refl)
  have "answered A1 p" by (simp add: A1_def acc_set_acc)
  have "PaxosAcceptReplyByMsg1 AP p (Some ms) A1 = Some (r, A')"
  proof -
    have "set_acc p (\<lambda>a. a\<lparr>a_Reply := a_Start a\<rparr>) A1 = A1"
      by (simp add: A1_def set_acc_def set_elm_def)
    then show ?thesis using r
      by (simp add: PaxosAcceptReplyByMsg_def PaxosAcceptReplyByMsg1_def Let_def flip: A0_def A1_def)
  qed
  then have "session_holds k {} A1 A'" for k by (rule keeps_ReplyByMsg1)
  from holds_session [OF this ok1, of p] \<open>answered A1 p\<close> show ?thesis by (auto simp: same_session_def)
qed

lemma app_call_answers:
  assumes c: "app_call AP f x p m A = Some (r, A')" and ok: "sessions_ok A"
    and f: "\<exists>b r. AcReply b r \<in> set (snd (f (c_Sfx A) m))"
  shows "answered A' p"
proof -
  obtain b rp where "AcReply b rp \<in> set (snd (f (c_Sfx A) m))" using f by blast
  then obtain xs ys where l: "snd (f (c_Sfx A) m) = xs @ AcReply b rp # ys" by (meson split_list)
  have "for_each (do_appcall AP p) (snd (f (c_Sfx A) m)) (sfx_emit x A) = Some A'"
    using c by (auto simp: app_call_def split: prod.splits)
  then obtain B C n where B: "for_each (do_appcall AP p) xs (sfx_emit x A) = Some B"
    and C: "PaxosAcceptReplyByMsg AP p b [rp] B = Some (n, C)" and A': "for_each (do_appcall AP p) ys C = Some A'"
    by (auto simp: l for_each_append bind_eq_Some_conv)
  note calls = keeping.for_each_ev [of _ "do_appcall AP p", OF keeps_appcall]
  have okB: "sessions_ok B" using calls [OF _ B] ok by (simp add: session_holds_def) (simp add: sfx_emit_def)
  have okC: "sessions_ok C" using keeps_ReplyByMsg [OF C] okB by (simp add: session_holds_def)
  have "answered C p" by (rule ReplyByMsg_answers [OF C okB])
  moreover have "session_holds k {} C A'" for k by (rule calls [OF _ A'])
  from holds_session [OF this okC, of p] have "same_session (acc C p) (acc A' p)" by simp
  ultimately show ?thesis by (auto simp: same_session_def)
qed

text \<open>
  The numbers of an open session, none of which has reached the half of the circle: the number \<open>q\<close> of
  the request delivered last is answered, or it is that of the request started last.
\<close>

abbreviation data_last :: "PaxosAcceptor_t \<Rightarrow> nat \<Rightarrow> bool" where
  "data_last A p \<equiv> (case a_Cmd (acc A p) of Some c \<Rightarrow> is_data c | None \<Rightarrow> False)"

definition session_inv :: "PaxosClientId_t \<Rightarrow> nat \<Rightarrow> u32 \<Rightarrow> PaxosAcceptor_t \<Rightarrow> bool" where
  "session_inv k p q A \<longleftrightarrow> sessions_ok A \<and> session_at A k = Some p \<and> is_open A p \<and>
     a_Reply (acc A p) \<le> a_Start (acc A p) \<and> a_Start (acc A p) < 2 ^ 31 \<and>
     (q \<le> a_Reply (acc A p) \<or> q = a_Start (acc A p) \<and> data_last A p)"

text \<open>
  What a client waits for that sends one request after the other: a request above the number answered
  last comes only when the one started last is answered or no request for data, or repeats it.
\<close>

definition waited :: "PaxosAcceptor_t \<Rightarrow> nat \<Rightarrow> PaxosSessionHead_t \<Rightarrow> bool" where
  "waited A p m \<longleftrightarrow> i_Seq (h_Id m) \<le> a_Reply (acc A p) \<or> answered A p \<or> \<not> data_last A p \<or>
     i_Seq (h_Id m) = a_Start (acc A p) \<and> a_Cmd (acc A p) = Some (h_Cmd m)"

lemma inv_keeps:
  assumes i: "session_inv k p q A" and "session_keeps k A A'"
  shows "session_inv k p q A' \<and> delivered k A' = delivered k A"
proof -
  have *: "sessions_ok A'" "session_at A' k = Some p" "same_session (acc A p) (acc A' p)"
    "delivered k A' = delivered k A"
    using assms by (simp_all add: session_inv_def session_keeps_def)
  then have "is_open A' p" using i same_session_open by (auto simp: session_inv_def)
  with * i show ?thesis by (auto simp: session_inv_def same_session_def)
qed

lemma inv_holds: "session_inv k p q A \<Longrightarrow> session_holds k {} A A' \<Longrightarrow> session_inv k p q A' \<and> delivered k A' = delivered k A"
  using inv_keeps holds_empty_keeps by blast

definition ends_session :: "PaxosCmd \<Rightarrow> bool" where
  "ends_session c \<longleftrightarrow> c = PAXOS_SESSION_CLOSE \<or> c = PAXOS_SESSION_ABORT"

text \<open>A request under way has the last number; data is delivered, and answered when the application answers.\<close>

lemma data_command:
  assumes c: "execute_command E AP p e m A = Some (held, A')" and d: "is_data (h_Cmd m)"
    and ok: "sessions_ok A" and own: "HashSessionCompare (h_Id m) k = 0"
  shows "held" and "delivered k A' = delivered k A @ [i_Seq (h_Id m)]"
    and "sessions_ok A'" and "session_at A' = session_at A" and "same_session (acc A p) (acc A' p)"
    and "answers_at AP m \<Longrightarrow> answered A' p" and "elm_cnt (c_Accept A') p = elm_cnt (c_Accept A) p"
proof -
  obtain A1 r where 1: "execute_garbage E e A = Some A1"
    and 2: "app_call AP (if_fAccepted AP) (SxAccepted m) p m A1 = Some (r, A')" and held: held
    using c by (auto simp: execute_data [OF d] bind_eq_Some_conv)
  then show held by simp
  have g: "session_holds k {} A A1" by (rule keeps_execute_garbage [OF 1])
  define A2 where "A2 = sfx_emit (SxAccepted m) A1"
  have A2: "c_Accept A2 = c_Accept A1" by (simp add: A2_def sfx_emit_def)
  obtain calls where calls: "for_each (do_appcall AP p) calls A2 = Some A'"
    using 2 by (auto simp: app_call_def A2_def split: prod.splits)
  have h: "session_holds k {} A2 A'" by (rule keeping.for_each_ev [OF _ calls]) (rule keeps_appcall)
  have ok1: "sessions_ok A1" using g ok by (simp add: session_holds_def)
  show "sessions_ok A'" "session_at A' = session_at A" using g h ok by (simp_all add: session_holds_def A2)
  have "same_session (acc A p) (acc A1 p)" using g ok by (simp add: session_holds_def)
  moreover have "same_session (acc A1 p) (acc A' p)" using h ok1 by (simp add: session_holds_def A2)
  ultimately show "same_session (acc A p) (acc A' p)" by (rule same_session_trans)
  show "delivered k A' = delivered k A @ [i_Seq (h_Id m)]"
    using g h by (simp add: session_holds_def) (simp add: A2_def delivered_emit own)
  show "answers_at AP m \<Longrightarrow> answered A' p" by (rule app_call_answers [OF 2 ok1]) (simp add: answers_at_def)
  show "elm_cnt (c_Accept A') p = elm_cnt (c_Accept A) p" using g h by (simp add: session_holds_def A2)
qed

text \<open>A request that passes the check of a session whose client waits is above what was delivered.\<close>

lemma passed_check:
  assumes i: "session_inv k p q A" and c: "IsAccepted_check AP p m A = Some (0, A1)" and w: "waited A p m"
    and small: "i_Seq (h_Id m) < 2 ^ 31"
  shows "a_Reply (acc A p) < i_Seq (h_Id m)" and "q \<le> a_Reply (acc A p)"
proof -
  have small': "a_Reply (acc A p) < 2 ^ 31" using i by (auto simp: session_inv_def)
  show lt: "a_Reply (acc A p) < i_Seq (h_Id m)"
    using IsAccepted_check_new [OF c] CMP_small [OF small small'] by (simp add: word_less_def word_uint_eq_iff)
  have "\<not> (i_Seq (h_Id m) = a_Start (acc A p) \<and> a_Cmd (acc A p) = Some (h_Cmd m))"
    using c by (auto simp: IsAccepted_check_def Let_def bind_eq_Some_conv split: if_splits)
  then show "q \<le> a_Reply (acc A p)" using w i lt by (auto simp: waited_def session_inv_def)
qed

lemma inv_start:
  assumes i: "session_inv k p q A" and "q \<le> a_Reply (acc A p)" and "a_Reply (acc A p) < i_Seq (h_Id m)" and "i_Seq (h_Id m) < 2 ^ 31"
  shows "session_inv k p q (set_acc p (ACCEPTED_SEQ m) A)"
  using assms by (auto simp: session_inv_def sessions_ok_set_acc acc_set_acc is_open_def ACCEPTED_SEQ_def HashSessionCompare_def)

lemma own_command:
  assumes c: "execute_command E AP p e m A = Some (held, A')" and i: "session_inv k p q A"
    and cmd: "\<not> ends_session (h_Cmd m)" and own: "HashSessionCompare (h_Id m) k = 0"
    and start: "a_Start (acc A p) = i_Seq (h_Id m)" "a_Cmd (acc A p) = Some (h_Cmd m)"
  shows "held \<and> (session_inv k p q A' \<and> delivered k A' = delivered k A \<or>
    session_inv k p (i_Seq (h_Id m)) A' \<and> delivered k A' = delivered k A @ [i_Seq (h_Id m)])"
proof (cases "is_data (h_Cmd m)")
  case True
  have ok: "sessions_ok A" using i by (simp add: session_inv_def)
  note d = data_command [OF c True ok own]
  have "is_open A' p" using same_session_open [OF d(5)] i by (simp add: session_inv_def)
  moreover have "a_Start (acc A' p) = a_Start (acc A p)" "a_Cmd (acc A' p) = a_Cmd (acc A p)"
    "a_Reply (acc A' p) \<le> a_Start (acc A' p)"
    using d(5) i by (auto simp: same_session_def session_inv_def)
  ultimately show ?thesis using i d(1-4) start True by (simp add: session_inv_def)
next
  case False
  then have "h_Cmd m \<in> {PAXOS_SESSION_OPEN, PAXOS_SESSION_EVENT, PAXOS_SESSION_CHANGE_MEMBER}"
    using cmd by (auto simp: is_data_def ends_session_def)
  then have "held \<and> session_holds k {} A A'"
    using c by (auto simp: execute_command_def intro: keeps_execute_open keeps_EventGet keeps_execute_member)
  then show ?thesis using inv_holds [OF i] by blast
qed

lemma own_admitted:
  assumes a: "execute_admitted E AP [] p e m A = Some (Goes A')" and i: "session_inv k p q A"
    and cmd: "\<not> ends_session (h_Cmd m)" and own: "HashSessionCompare (h_Id m) k = 0" and w: "waited A p m"
    and small: "i_Seq (h_Id m) < 2 ^ 31"
  shows "session_inv k p q A' \<and> delivered k A' = delivered k A \<or>
    q < i_Seq (h_Id m) \<and> session_inv k p (i_Seq (h_Id m)) A' \<and> delivered k A' = delivered k A @ [i_Seq (h_Id m)]"
proof -
  have at: "session_at A k = Some p" using i by (simp add: session_inv_def)
  have "is_open A p" using i by (simp add: session_inv_def)
  note check = holds_IsAccepted(2) [OF _ this]
  have put: "session_inv k p q' A' \<and> delivered k A' = delivered k B"
    if "session_inv k p q' B" "PaxosAcceptPut E p B = Some (n, A')" for q' B n
    by (rule inv_keeps [OF that(1) PaxosAcceptPut_frame [OF that(2), of k]]) (use that(1) in \<open>simp add: session_inv_def\<close>)
  from a show ?thesis
  proof (cases rule: admitted_cases)
    case (dup r A1 n)
    from inv_holds [OF i keeps_IsAccepted_check [OF check [OF dup(1)]]] put [OF _ dup(3)] show ?thesis by auto
  next
    case (early A1 m' n B n')
    from inv_holds [OF i keeping.trans [OF keeps_IsAccepted_check [OF check [OF early(1)]] keeps_AcceptSend [OF early(3)]]]
      put [OF _ early(4)] show ?thesis by auto
  next
    case (new A1 x)
    note n = check [OF new(1)]
    define A2 where "A2 = set_acc p (ACCEPTED_SEQ m) A"
    note x = new(3,4) [folded A2_def, unfolded conjunct1 [OF IsAccepted_check_new [OF n]], folded A2_def]
    note lt = passed_check [OF i n w small]
    have i2: "session_inv k p q A2" unfolding A2_def by (rule inv_start [OF i lt(2,1) small])
    have d2: "delivered k A2 = delivered k A" by (simp add: A2_def)
    obtain held A3 where x3: "x = (held, A3)" by (cases x)
    have cmd': "held \<and> (session_inv k p q A3 \<and> delivered k A3 = delivered k A2 \<or>
        session_inv k p (i_Seq (h_Id m)) A3 \<and> delivered k A3 = delivered k A2 @ [i_Seq (h_Id m)])"
      by (rule own_command [OF x(1) [unfolded x3] i2 cmd own]) (simp_all add: A2_def acc_set_acc ACCEPTED_SEQ_def)
    have fin: "session_inv k p q' A' \<and> delivered k A' = delivered k A3" if "session_inv k p q' A3" for q'
      by (rule inv_keeps [OF that keeps_end [of E p "h_Id m" _ _ k]])
        (use x(2) x3 that cmd' in \<open>simp_all add: session_inv_def\<close>)
    have "q < i_Seq (h_Id m)" using lt by simp
    with cmd' fin [of q] fin [of "i_Seq (h_Id m)"] d2 show ?thesis by auto
  qed
qed

lemma get_open_session:
  assumes g: "PaxosAcceptGet E c b A = Some (Goes (po, A1))" and ok: "sessions_ok A"
    and at: "session_at A k = Some p" and op: "is_open A p" and own: "HashSessionCompare c k = 0"
  shows "po = Some p \<and> sessions_ok A1 \<and> session_at A1 k = Some p \<and> is_open A1 p \<and> acc A1 p = acc A p
    \<and> delivered k A1 = delivered k A"
proof -
  have s: "session_at A c = Some p" using sessions.found_same [OF ok own] at by simp
  obtain g' where g': "GElmGet (AcceptIF E) [] c b True (c_Accept A) = Some (GGot (Some p) g')" "sessions.ok g'"
    "sessions.found g' = session_at A"
    "ge_Elm g' = (ge_Elm (c_Accept A))(p := (ge_Elm (c_Accept A) p)\<lparr>e_Cnt := elm_cnt (c_Accept A) p + 1\<rparr>)"
    using sessions.get_hit [OF ok s, of E "[]" b True] by blast
  then have "po = Some p" "A1 = A\<lparr>c_Accept := g'\<rparr>" using g by (auto simp: PaxosAcceptGet_def)
  then show ?thesis using g' at op by (simp add: is_open_def delivered_def)
qed

lemma execute_own:
  assumes e: "execute_one E AP [] e A = Some (Goes A')" and i: "session_inv k p q A"
    and cmd: "\<not> ends_session (h_Cmd (ap_parse AP (e_Cmd e)))"
    and own: "HashSessionCompare (h_Id (ap_parse AP (e_Cmd e))) k = 0" and w: "waited A p (ap_parse AP (e_Cmd e))"
    and small: "i_Seq (h_Id (ap_parse AP (e_Cmd e))) < 2 ^ 31"
  shows "session_inv k p q A' \<and> delivered k A' = delivered k A \<or>
    q < i_Seq (h_Id (ap_parse AP (e_Cmd e))) \<and> session_inv k p (i_Seq (h_Id (ap_parse AP (e_Cmd e)))) A' \<and>
      delivered k A' = delivered k A @ [i_Seq (h_Id (ap_parse AP (e_Cmd e)))]"
proof -
  define m where "m = ap_parse AP (e_Cmd e)"
  have found: "po = Some p \<and> session_inv k p q A1 \<and> delivered k A1 = delivered k A \<and> acc A1 p = acc A p"
    if get: "PaxosAcceptGet E (h_Id m) c A = Some (Goes (po, A1))" for c po A1
  proof -
    have i1: "session_inv k p q A1 \<and> delivered k A1 = delivered k A" by (rule inv_keeps [OF i get_same(1) [OF get]])
    moreover have "session_at A1 (h_Id m) = session_at A1 k"
      using sessions.found_same [of "c_Accept A1" "h_Id m" k] own i1 by (simp add: m_def session_inv_def)
    moreover have "acc A1 p = acc A p"
      using get_open_session [OF get, of k p] own i by (simp add: m_def session_inv_def)
    ultimately show ?thesis using get_same(2) [OF get] i by (simp add: session_inv_def)
  qed
  from e m_def show ?thesis
  proof (cases rule: execute_one_cases)
    case (nobody A1)
    then show ?thesis using found by blast
  next
    case (abort p' A1 x)
    then show ?thesis using cmd by (simp add: ends_session_def m_def)
  next
    case (admitted p' A1)
    note f = found [OF admitted(1)]
    then have "p' = p" by simp
    moreover have "waited A1 p m" using f w by (simp add: waited_def m_def)
    ultimately show ?thesis using own_admitted [OF admitted(3), of k q] f cmd own small by (simp add: m_def)
  qed
qed

end
