(* ===== verification/Session_Threads.thy ===== *)
theory Session_Threads
  imports Session_Once
begin

text \<open>
  The threads of the session server together: the workers, the receipt of out-of-band data, elections
  and timers leave an open session alone, so a run delivers its requests in the order of their numbers.
\<close>

section \<open>The other threads\<close>

lemma map_Goes:
  "(case r of Waits A \<Rightarrow> Waits A | Goes r \<Rightarrow> Goes (f r)) = Goes y \<longleftrightarrow> (\<exists>z. r = Goes z \<and> y = f z)"
  by (cases r) auto

lemma request_fields:
  assumes "session_request E AP v m A = Some (Goes (n, A'))"
  shows "c_Accept A' = c_Accept A \<and> c_Sfx A' = c_Sfx A"
  using assms by (auto simp: session_request_def split: option.splits)

lemma keeps_request: "session_request E AP v m A = Some (Goes (n, A')) \<Longrightarrow> session_holds k X A A'"
  using request_fields keeps_fields by blast

lemma keeps_error_reply: "error_reply AP p m c e A = Some A' \<Longrightarrow> session_holds k X A A'"
  by (auto simp: error_reply_def intro: keeps_AcceptSend)

lemma keeps_propose:
  assumes w: "worker_propose E AP p m busy idle A = Some (Goes (n, A'))"
    and b: "busy \<noteq> ACCEPT_BINDED" and i: "idle = ACCEPT_BINDED \<longrightarrow> a_Opened (acc A p) = ACCEPT_BINDED"
  shows "session_holds k X A A'"
proof -
  define A0 where "A0 = set_acc p (\<lambda>a. a\<lparr>a_Opened := busy\<rparr>) A"
  obtain x where x: "session_request E AP False m A0 = Some x" using w by (auto simp: worker_propose_def A0_def bind_eq_Some_conv)
  obtain A1 where 1: "session_request E AP False m A0 = Some (Goes (n, A1))"
    and A': "A' = (if n \<noteq> 0 \<and> a_Opened (acc A1 p) = busy then set_acc p (\<lambda>a. a\<lparr>a_Opened := idle\<rparr>) A1 else A1)"
    using w x by (cases x) (auto simp: worker_propose_def bind_eq_Some_conv simp flip: A0_def)
  have f: "c_Accept A1 = c_Accept A0" "c_Sfx A1 = c_Sfx A0" using request_fields [OF 1] by simp_all
  have "session_holds k X A (set_acc p (\<lambda>a. a\<lparr>a_Opened := busy\<rparr>) A)"
    by (rule keeps_set_same) (use b in \<open>simp add: same_simps\<close>)
  moreover have "session_holds k X A (set_acc p (\<lambda>a. a\<lparr>a_Opened := idle\<rparr>) A)"
    by (rule keeps_set_same) (use i in \<open>auto simp: same_simps\<close>)
  moreover have "c_Accept (set_acc p (\<lambda>a. a\<lparr>a_Opened := idle\<rparr>) A1) = c_Accept (set_acc p (\<lambda>a. a\<lparr>a_Opened := idle\<rparr>) A)"
    using f(1) by (simp add: A0_def set_acc_def set_elm_def)
  moreover have "c_Sfx A1 = c_Sfx A" using f(2) by (simp add: A0_def set_acc_def)
  ultimately show ?thesis using f unfolding A' A0_def
    by (auto simp: session_holds_def delivered_def set_acc_def)
qed

definition worker_done :: "PaxosAcceptor_t + int \<times> PaxosAcceptor_t \<Rightarrow> PaxosAcceptor_t" where
  "worker_done r = (case r of Inl A \<Rightarrow> A | Inr (_, A) \<Rightarrow> A)"

lemma keeps_worker_close:
  assumes "worker_close E AP p m A = Some (Goes r)"
  shows "session_holds k X A (worker_done r)"
  using assms
  by (auto simp: worker_close_def worker_done_def bind_eq_Some_conv keeping.refl map_Goes split: PaxosAcceptOpen.splits
      intro: keeps_error_reply keeps_propose)

lemma keeps_worker_open:
  assumes "worker_open E AP p m A = Some (Goes r)"
  shows "session_holds k X A (worker_done r)"
  using assms
  by (auto simp: worker_open_def worker_done_def bind_eq_Some_conv keeping.refl map_Goes split: if_splits
      intro: keeps_propose)

text \<open>The commands a worker leaves to the application.\<close>

definition reaches_app :: "PaxosCmd \<Rightarrow> bool" where
  "reaches_app c \<longleftrightarrow> c \<notin> {PAXOS_SESSION_ACCEPTOR, PAXOS_SESSION_DUMP, PAXOS_SESSION_LOCK, PAXOS_SESSION_UNLOCK,
     PAXOS_SESSION_GET_MEMBER, PAXOS_SESSION_BACKUP, PAXOS_SESSION_TRANSFER, PAXOS_SESSION_MARSHAL,
     PAXOS_SESSION_AUTONOMIC, PAXOS_SESSION_SHUTDOWN, PAXOS_SESSION_ANY, PAXOS_SESSION_HEALTH,
     PAXOS_SESSION_ELECTION, PAXOS_SESSION_BIND, PAXOS_SESSION_OPEN, PAXOS_SESSION_CLOSE, PAXOS_SESSION_EVENT,
     PAXOS_SESSION_CHANGE_MEMBER}"

lemma start_emit: "set_acc p f (sfx_emit x A) = sfx_emit x (set_acc p f A)"
  by (simp add: set_acc_def sfx_emit_def)

text \<open>The application may start the request; apart from that every session is kept.\<close>

lemma keeps_worker_app:
  assumes "worker_app E AP [] fd p m A = Some (Goes (n, A'))"
  shows "\<exists>B. (B = A \<or> B = set_acc p (ACCEPTED_SEQ m) A) \<and> (\<forall>k X. session_holds k X B A')"
proof (cases "if_fRequest AP (c_Sfx A) m")
  case (AqPropose v)
  have "session_holds k X A A'" for k X
    using assms AqPropose keeps_request [of E AP v m "sfx_emit (SxRequest fd m) A" n A' k X]
      keeping.trans [OF keeps_emit [of k "SxRequest fd m" X A]] by (simp add: worker_app_def seq_of_def)
  then show ?thesis by blast
next
  case (AqServe start Ret calls)
  define B where "B = (if start then set_acc p (ACCEPTED_SEQ m) A else A)"
  have go: "PaxosAcceptedStart [] p m C = Goes D \<Longrightarrow> D = set_acc p (ACCEPTED_SEQ m) C" for C D
    by (auto split: if_splits)
  have "for_each (do_appcall AP p) calls (sfx_emit (SxRequest fd m) B) = Some A'"
    using assms AqServe
    by (auto simp: worker_app_def B_def start_emit simp del: PaxosAcceptedStart.simps dest!: go split: wait.splits if_splits)
  then have "session_holds k X (sfx_emit (SxRequest fd m) B) A'" for k X
    by (rule keeping.for_each_ev [rotated]) (rule keeps_appcall)
  moreover have "session_holds k X B (sfx_emit (SxRequest fd m) B)" for k X by (rule keeps_emit) (simp add: seq_of_def)
  ultimately have "session_holds k X B A'" for k X using keeping.trans by blast
  then show ?thesis by (intro exI [of _ B]) (simp add: B_def)
qed

lemma keeps_worker_command:
  assumes "worker_command E AP [] fd p m A = Some (Goes r)"
  shows "\<exists>B. (B = A \<or> h_Cmd m \<notin> {PAXOS_SESSION_CLOSE, PAXOS_SESSION_OPEN, PAXOS_SESSION_EVENT, PAXOS_SESSION_CHANGE_MEMBER}
      \<and> B = set_acc p (ACCEPTED_SEQ m) A) \<and> (\<forall>k X. session_holds k X B (worker_done r))"
proof (cases "h_Cmd m \<in> {PAXOS_SESSION_CLOSE, PAXOS_SESSION_OPEN}")
  case True
  then show ?thesis using assms
    by (intro exI [of _ A]) (auto simp: worker_command_def intro: keeps_worker_close keeps_worker_open)
next
  case False
  show ?thesis
  proof (cases "h_Cmd m \<in> {PAXOS_SESSION_EVENT, PAXOS_SESSION_CHANGE_MEMBER}")
    case True
    then obtain n B where "session_request E AP False m A = Some (Goes (n, B))" "r = Inr (n, B)"
      using assms by (auto simp: worker_command_def map_Goes)
    then show ?thesis by (intro exI [of _ A]) (auto simp: worker_done_def intro: keeps_request)
  next
    case cmd: False
    with False have "worker_command E AP [] fd p m A = map_option (\<lambda>r. case r of Waits A \<Rightarrow> Waits A | Goes r \<Rightarrow> Goes (Inr r))
        (worker_app E AP [] fd p m A)"
      by (cases "h_Cmd m") (simp_all add: worker_command_def)
    then obtain n B where "worker_app E AP [] fd p m A = Some (Goes (n, B))" "r = Inr (n, B)"
      using assms by (cases "worker_app E AP [] fd p m A") (auto split: wait.splits)
    with keeps_worker_app [of E AP fd p m A n B] cmd False show ?thesis by (auto simp: worker_done_def)
  qed
qed

text \<open>A worker starts a request of the session, which was found to be new.\<close>

definition session_starts :: "app \<Rightarrow> PaxosClientId_t \<Rightarrow> PaxosSessionHead_t \<Rightarrow> PaxosAcceptor_t \<Rightarrow> PaxosAcceptor_t \<Rightarrow> bool" where
  "session_starts AP k m A A' \<longleftrightarrow> (\<exists>p B. session_at A k = Some p \<and> session_keeps k A B \<and>
     IsAccepted_check AP p m B = Some (0, B) \<and> session_keeps k (set_acc p (ACCEPTED_SEQ m) B) A')"

lemma worker_request_keeps:
  assumes w: "worker_request E AP [] fd m p A = Some (Goes A')"
    and p: "sessions_ok A \<Longrightarrow> session_at A (h_Id m) = Some p"
  shows "session_keeps k A A' \<or> h_Cmd m \<notin> {PAXOS_SESSION_CLOSE, PAXOS_SESSION_OPEN, PAXOS_SESSION_EVENT,
      PAXOS_SESSION_CHANGE_MEMBER} \<and> HashSessionCompare (h_Id m) k = 0 \<and> session_starts AP k m A A'"
proof (cases "sessions_ok A")
  case False
  then show ?thesis by (simp add: session_keeps_def)
next
  case ok: True
  define A0 where "A0 = set_acc p (\<lambda>a. a\<lparr>a_Access := time0 E\<rparr>) A"
  have h0: "session_holds k' {} A A0" for k' unfolding A0_def by (rule keeps_set_same) (simp add: same_simps)
  obtain x where "PaxosAcceptIsAccepted AP [] p m A0 = Some x"
    using w by (auto simp: worker_request_def bind_eq_Some_conv simp flip: A0_def)
  then obtain r A1 where 1: "PaxosAcceptIsAccepted AP [] p m A0 = Some (Goes (r, A1))"
    using w by (cases x) (auto simp: worker_request_def simp flip: A0_def)
  let ?X = "if is_open A0 p then {} else {p}"
  have h1: "session_holds k' ?X A0 A1" for k' using holds_IsAccepted(1) [OF 1, of k' "{}"] by simp
  have op: "is_open A p = is_open A0 p" by (simp add: is_open_def A0_def acc_set_acc)
  have A1: "session_holds k' ?X A A1" for k' by (rule keeping.trans [OF holds_mono [OF h0] h1]) simp
  have put: "session_keeps k B A'" if "session_holds k' X A B" "PaxosAcceptPut E p B = Some (n, A')" for B n k' X
    by (rule PaxosAcceptPut_frame [OF that(2), of "h_Id m"]) (use that(1) ok p in \<open>simp add: session_holds_def\<close>)
  have keep: "session_keeps k A A'" if B: "\<And>k'. session_holds k' {} A1 B" and pu: "PaxosAcceptPut E p B = Some (n, A')" for B n
  proof -
    have AB: "session_holds k ?X A B" by (rule keeping.trans [OF A1 holds_mono [OF B]]) simp
    have "session_keeps k A B" by (rule holds_keeps [OF AB]) (use op in auto)
    then show ?thesis using put [OF AB pu] by (rule session_keeps_trans)
  qed
  have start: "session_keeps k A A' \<or> HashSessionCompare (h_Id m) k = 0 \<and> session_starts AP k m A A'"
    if r: "r = 0" and B: "\<And>k' X. session_holds k' X (set_acc p (ACCEPTED_SEQ m) A1) B" and pu: "PaxosAcceptPut E p B = Some (n, A')" for B n
  proof -
    have S: "session_holds k' {p} A1 (set_acc p (ACCEPTED_SEQ m) A1)" for k'
      by (rule keeps_set_acc) (simp_all add: ACCEPTED_SEQ_def HashSessionCompare_def)
    have A1': "session_holds k {p} A A1" by (rule holds_mono [OF A1]) simp
    have AB: "session_holds k {p} A B" by (rule keeping.trans [OF A1' keeping.trans [OF S B]])
    show ?thesis
    proof (cases "session_at A k = Some p \<and> is_open A p")
      case False
      have "session_keeps k A B" by (rule holds_keeps [OF AB]) (use False in auto)
      then show ?thesis using put [OF AB pu] session_keeps_trans by blast
    next
      case True
      have c: "IsAccepted_check AP p m A0 = Some (0, A1)" using holds_IsAccepted(2) [OF 1] op True r by simp
      have "session_keeps k A A1" by (rule holds_keeps [OF A1]) (use op True in auto)
      moreover have "session_keeps k (set_acc p (ACCEPTED_SEQ m) A1) A'"
        using holds_empty_keeps [OF B] put [OF AB pu] by (rule session_keeps_trans)
      moreover have "HashSessionCompare (h_Id m) k = 0" using not_other [OF ok p] ok True by blast
      ultimately show ?thesis using c True IsAccepted_check_new [OF c] by (auto simp: session_starts_def)
    qed
  qed
  show ?thesis
  proof (cases "r = 0")
    case False
    then obtain B n where B: "(if \<not> PaxosIsIamMaster (c_pPaxos A1)
        then error_reply AP p m (notify_code PAXOS_Im_NOT_MASTER) 0 A1 else Some A1) = Some B"
      and "PaxosAcceptPut E p B = Some (n, A')"
      using w 1 by (auto simp: worker_request_def bind_eq_Some_conv simp flip: A0_def)
    then show ?thesis using keep [of B n] by (auto simp: keeping.refl keeps_error_reply split: if_splits)
  next
    case True
    obtain x where x: "worker_command E AP [] fd p m A1 = Some x"
      using w 1 True by (auto simp: worker_request_def bind_eq_Some_conv simp flip: A0_def)
    then obtain d where d: "worker_command E AP [] fd p m A1 = Some (Goes d)"
      using w 1 True by (cases x) (auto simp: worker_request_def simp flip: A0_def)
    obtain S where S: "S = A1 \<or> h_Cmd m \<notin> {PAXOS_SESSION_CLOSE, PAXOS_SESSION_OPEN, PAXOS_SESSION_EVENT,
        PAXOS_SESSION_CHANGE_MEMBER} \<and> S = set_acc p (ACCEPTED_SEQ m) A1"
      and sd: "\<And>k' X. session_holds k' X S (worker_done d)"
      using keeps_worker_command [OF d] by blast
    have fin: ?thesis if B: "\<And>k' X. session_holds k' X (worker_done d) B" and pu: "PaxosAcceptPut E p B = Some (n, A')" for B n
    proof -
      have "session_holds k' X S B" for k' X by (rule keeping.trans [OF sd B])
      then show ?thesis using S keep [OF _ pu] start [OF True _ pu] by blast
    qed
    show ?thesis
    proof (cases d)
      case (Inl B)
      then obtain n where "PaxosAcceptPut E p B = Some (n, A')"
        using w 1 True d by (auto simp: worker_request_def simp flip: A0_def)
      then show ?thesis using fin [of B n] Inl by (simp add: worker_done_def keeping.refl)
    next
      case (Inr y)
      then obtain n B where y: "d = Inr (n, B)" by (cases y) simp
      then obtain C n' where C: "(if n \<noteq> 0 then error_reply AP p m n 0 B else Some B) = Some C"
        and pu: "PaxosAcceptPut E p C = Some (n', A')"
        using w 1 True d by (auto simp: worker_request_def bind_eq_Some_conv simp flip: A0_def)
      have "session_holds k' X B C" for k' X
        using C keeps_error_reply by (auto simp: keeping.refl split: if_splits)
      then show ?thesis using fin [OF _ pu] y by (simp add: worker_done_def)
    qed
  qed
qed

definition same_outside :: "PaxosClientId_t \<Rightarrow> PaxosAcceptor_t \<Rightarrow> PaxosAcceptor_t \<Rightarrow> bool" where
  "same_outside k A A' \<longleftrightarrow> c_Accept A' = c_Accept A \<and> delivered k A' = delivered k A"

interpretation outside: evolution "same_outside k" for k
  by unfold_locales (simp_all add: same_outside_def)

lemma outside_holds: "same_outside k A A' \<Longrightarrow> session_holds k X A A'"
  by (simp add: same_outside_def session_holds_def)

lemma outside_fields: "c_Accept A' = c_Accept A \<Longrightarrow> c_Sfx A' = c_Sfx A \<Longrightarrow> same_outside k A A'"
  by (simp add: same_outside_def delivered_def)

lemma outside_emit: "seq_of k x = None \<Longrightarrow> same_outside k A (sfx_emit x A)"
  by (simp add: same_outside_def delivered_emit) (simp add: sfx_emit_def)

lemma outside_send_head: "same_outside k A (send_head AP fd m A)"
  by (simp add: send_head_def SendStream_def outside_emit)

lemma outside_unlock: "same_outside k A (worker_unlock A)"
  by (rule outside.trans [OF outside_emit [of k SxUnlock] outside_fields])
    (simp_all add: worker_unlock_def PaxosAcceptorDefreeze_def seq_of_def)

lemma outside_Freeze: "PaxosAcceptorFreeze A = Goes A' \<Longrightarrow> same_outside k A A'"
  by (auto simp: PaxosAcceptorFreeze_def Let_def split: option.splits intro: outside_fields)

lemma outside_lock:
  assumes "worker_lock AP fd m A = Goes A'"
  shows "same_outside k A A'"
proof (cases "c_pFdFreeze A = None")
  case False
  then show ?thesis using assms by (auto simp: worker_lock_def intro: outside_send_head)
next
  case True
  obtain B where B: "PaxosAcceptorFreeze A = Goes B"
    using assms True by (cases "PaxosAcceptorFreeze A") (auto simp: worker_lock_def)
  define C where "C = (if if_fLock AP (c_Sfx B) \<noteq> 0 then PaxosAcceptorDefreeze (sfx_emit SxLock B)
      else (sfx_emit SxLock B)\<lparr>c_pFdFreeze := Some fd\<rparr>)"
  have "A' = send_head AP fd (m\<lparr>h_Error := if_fLock AP (c_Sfx B)\<rparr>) C"
    using assms True B by (simp add: worker_lock_def C_def Let_def)
  moreover have "same_outside k (sfx_emit SxLock B) C"
    by (rule outside_fields) (simp_all add: C_def PaxosAcceptorDefreeze_def)
  moreover have "same_outside k B (sfx_emit SxLock B)" by (rule outside_emit) (simp add: seq_of_def)
  ultimately show ?thesis
    using outside_Freeze [OF B, of k] outside_send_head outside.trans by metis
qed

lemma outside_SendByMsg: "PaxosAcceptSendByMsg AP p m A = Some A' \<Longrightarrow> same_outside k A A'"
  by (auto simp: PaxosAcceptSendByMsg_def Let_def bind_eq_Some_conv SendStream_def outside.refl outside_emit
      split: option.splits)

lemma outside_admin:
  assumes "worker_admin E AP fd m c A = Some (Some (Goes A'))"
  shows "same_outside k A A'"
proof (cases c)
  case PAXOS_SESSION_LOCK
  then show ?thesis using assms outside_lock by auto
next
  case PAXOS_SESSION_UNLOCK
  then show ?thesis using assms outside.trans [OF outside_unlock outside_send_head] by auto
next
  case PAXOS_SESSION_GET_MEMBER
  then show ?thesis using assms by (auto simp: worker_member_def Let_def bind_eq_Some_conv intro: outside_SendByMsg)
next
  case PAXOS_SESSION_BACKUP
  then show ?thesis using assms outside.trans [OF outside_emit [of k "SxBackup m"] outside_send_head]
    by (auto simp: seq_of_def)
next
  case PAXOS_SESSION_AUTONOMIC
  then show ?thesis using assms by (auto simp: bind_eq_Some_conv intro: outside_fields)
qed (use assms in \<open>auto simp: seq_of_def intro: outside_emit\<close>)

lemma ThreadWorker_cases:
  assumes w: "ThreadWorker E AP [] fd (Some m) A = Some (Goes A')"
  obtains (discarded) "A' = A"
  | (admin) "worker_admin E AP fd m (h_Cmd m) A = Some (Some (Goes A'))"
  | (health) p A1 n where "PaxosAcceptGet E (h_Id m) False A = Some (Goes (Some p, A1))"
      "PaxosAcceptPut E p (set_acc p (\<lambda>a. a\<lparr>a_Health := time0 E\<rparr>) A1) = Some (n, A')"
  | (bind) p A1 where "PaxosAcceptGet E (h_Id m) True A = Some (Goes (Some p, A1))"
      "A' = (set_acc p (\<lambda>a. a\<lparr>a_pFd := Some fd\<rparr>) A1)\<lparr>c_Ev := (c_Ev A1)(fd := Some p)\<rparr>"
  | (request) p A1 where "worker_admin E AP fd m (h_Cmd m) A = None"
      "h_Cmd m \<notin> {PAXOS_SESSION_HEALTH, PAXOS_SESSION_ELECTION, PAXOS_SESSION_BIND}"
      "PaxosAcceptGet E (h_Id m) True A = Some (Goes (Some p, A1))"
      "worker_request E AP [] fd m p A1 = Some (Goes A')"
proof -
  note w' = w [unfolded ThreadWorker_def option.case]
  consider (gone) "A' = A" | (adm) "worker_admin E AP fd m (h_Cmd m) A = Some (Some (Goes A'))"
    | (hlt) "do { r \<leftarrow> PaxosAcceptGet E (h_Id m) False A;
         case r of Waits A \<Rightarrow> Some (Waits A) | Goes (None, A) \<Rightarrow> None
         | Goes (Some p, A) \<Rightarrow> map_option (\<lambda>(_, A). Goes A)
             (PaxosAcceptPut E p (set_acc p (\<lambda>a. a\<lparr>a_Health := time0 E\<rparr>) A)) } = Some (Goes A')"
    | (req) "worker_admin E AP fd m (h_Cmd m) A = None" "h_Cmd m \<notin> {PAXOS_SESSION_HEALTH, PAXOS_SESSION_ELECTION}" "do { r \<leftarrow> PaxosAcceptGet E (h_Id m) True A;
         case r of Waits A \<Rightarrow> Some (Waits A) | Goes (None, A) \<Rightarrow> None
         | Goes (Some p, A) \<Rightarrow> if h_Cmd m = PAXOS_SESSION_BIND
             then Some (Goes ((set_acc p (\<lambda>a. a\<lparr>a_pFd := Some fd\<rparr>) A)\<lparr>c_Ev := (c_Ev A)(fd := Some p)\<rparr>))
             else worker_request E AP [] fd m p A } = Some (Goes A')"
  proof (cases "h_Cmd m \<noteq> PAXOS_SESSION_HEALTH \<and> c_pFdFreeze A \<noteq> None \<and> c_pFdFreeze A \<noteq> Some fd")
    case True
    then show thesis using w' [unfolded if_P [OF True]] gone by simp
  next
    case False
    note w2 = w' [unfolded if_not_P [OF False]]
    show thesis
    proof (cases "worker_admin E AP fd m (h_Cmd m) A")
      case (Some r)
      then show thesis using w2 [unfolded Some option.case] adm by simp
    next
      case None
      note w3 = w2 [unfolded None option.case]
      show thesis
      proof (cases "h_Cmd m = PAXOS_SESSION_HEALTH")
        case True
        show thesis by (rule hlt) (rule w3 [unfolded if_P [OF True]])
      next
        case False
        note w4 = w3 [unfolded if_not_P [OF False]]
        have e: "h_Cmd m \<noteq> PAXOS_SESSION_ELECTION" using w4 by auto
        show thesis by (rule req [OF None _ w4 [unfolded if_not_P [OF e]]]) (use False e in simp)
      qed
    qed
  qed
  then show thesis
  proof cases
    case hlt
    obtain x where x: "PaxosAcceptGet E (h_Id m) False A = Some x" using hlt by (auto simp: bind_eq_Some_conv)
    then obtain po A1 where "PaxosAcceptGet E (h_Id m) False A = Some (Goes (po, A1))" using hlt by (cases x) auto
    with hlt show thesis by (cases po) (auto intro: health)
  next
    case req
    obtain x where x: "PaxosAcceptGet E (h_Id m) True A = Some x" using req(3) by (auto simp: bind_eq_Some_conv)
    then obtain po A1 where g: "PaxosAcceptGet E (h_Id m) True A = Some (Goes (po, A1))" using req(3) by (cases x) auto
    then obtain p where "po = Some p" using req(3) by (cases po) auto
    with g req show thesis by (cases "h_Cmd m = PAXOS_SESSION_BIND") (auto simp: intro: bind request)
  qed (rule discarded admin, assumption)+
qed

lemma admin_commands:
  assumes "worker_admin E AP fd m c A = None"
  shows "c \<notin> {PAXOS_SESSION_ACCEPTOR, PAXOS_SESSION_DUMP, PAXOS_SESSION_LOCK, PAXOS_SESSION_UNLOCK,
     PAXOS_SESSION_GET_MEMBER, PAXOS_SESSION_BACKUP, PAXOS_SESSION_TRANSFER, PAXOS_SESSION_MARSHAL,
     PAXOS_SESSION_AUTONOMIC, PAXOS_SESSION_SHUTDOWN, PAXOS_SESSION_ANY}"
  using assms by auto

lemma ThreadWorker_keeps:
  assumes w: "ThreadWorker E AP [] fd (Some m) A = Some (Goes A')"
  shows "session_keeps k A A' \<or>
    reaches_app (h_Cmd m) \<and> HashSessionCompare (h_Id m) k = 0 \<and> session_starts AP k m A A'"
proof (cases "sessions_ok A")
  case False
  then show ?thesis by (simp add: session_keeps_def)
next
  case ok: True
  have set: "session_keeps k B (set_acc p f B)" if "\<And>a. same_session a (f a)" for B p f
    by (rule holds_empty_keeps, rule keeps_set_same) (rule that)
  from w show ?thesis
  proof (cases rule: ThreadWorker_cases)
    case discarded
    then show ?thesis by (simp add: guarding.refl)
  next
    case admin
    then show ?thesis using outside_admin outside_holds holds_empty_keeps by blast
  next
    case (health p A1 n)
    note g = get_same(1) [OF health(1), of k] get_same(2) [OF health(1) ok]
    have "session_keeps k A1 (set_acc p (\<lambda>a. a\<lparr>a_Health := time0 E\<rparr>) A1)" by (rule set) (simp add: same_simps)
    moreover have "session_keeps k (set_acc p (\<lambda>a. a\<lparr>a_Health := time0 E\<rparr>) A1) A'"
      by (rule PaxosAcceptPut_frame [OF health(2), of "h_Id m"]) (use g(2) in simp)
    ultimately show ?thesis using g(1) by (blast intro: session_keeps_trans)
  next
    case (bind p A1)
    have "session_keeps k A1 (set_acc p (\<lambda>a. a\<lparr>a_pFd := Some fd\<rparr>) A1)" by (rule set) (simp add: same_simps)
    moreover have "session_keeps k (set_acc p (\<lambda>a. a\<lparr>a_pFd := Some fd\<rparr>) A1) A'"
      by (rule holds_empty_keeps, rule keeps_fields) (simp_all add: bind(2))
    ultimately show ?thesis using get_same(1) [OF bind(1), of k] by (blast intro: session_keeps_trans)
  next
    case (request p A1)
    note g = get_same(1) [OF request(3), of k]
    have cmd: "reaches_app (h_Cmd m)"
      if "h_Cmd m \<notin> {PAXOS_SESSION_CLOSE, PAXOS_SESSION_OPEN, PAXOS_SESSION_EVENT, PAXOS_SESSION_CHANGE_MEMBER}"
      using that request(2) admin_commands [OF request(1)] by (auto simp: reaches_app_def)
    have "session_keeps k A1 A' \<or> h_Cmd m \<notin> {PAXOS_SESSION_CLOSE, PAXOS_SESSION_OPEN, PAXOS_SESSION_EVENT,
        PAXOS_SESSION_CHANGE_MEMBER} \<and> HashSessionCompare (h_Id m) k = 0 \<and> session_starts AP k m A1 A'"
      by (rule worker_request_keeps [OF request(4)]) (use get_same(2) [OF request(3) ok] in simp)
    moreover have none: "session_keeps k A A'"
      if st: "session_starts AP k m A1 A'" and "\<not> (\<exists>p. session_at A k = Some p \<and> is_open A p)"
    proof -
      obtain q B where q: "session_keeps k A1 B" "session_keeps k (set_acc q (ACCEPTED_SEQ m) B) A'"
        using st by (auto simp: session_starts_def)
      have "sessions_ok (set_acc q (ACCEPTED_SEQ m) B) = sessions_ok B"
        by (rule sessions_ok_set_acc) (simp add: ACCEPTED_SEQ_def HashSessionCompare_def)
      then show ?thesis using q g that(2) by (auto simp: session_keeps_def)
    qed
    moreover have "session_starts AP k m A A'"
      if st: "session_starts AP k m A1 A'" "HashSessionCompare (h_Id m) k = 0"
        and opn: "session_at A k = Some p'" "is_open A p'" for p'
    proof -
      obtain q B where q: "session_at A1 k = Some q" "session_keeps k A1 B" "IsAccepted_check AP q m B = Some (0, B)"
        "session_keeps k (set_acc q (ACCEPTED_SEQ m) B) A'" using st(1) by (auto simp: session_starts_def)
      have "session_at A k = Some q" using get_open_session [OF request(3) ok _ _ st(2)] opn q(1) by auto
      then show ?thesis using q session_keeps_trans [OF g] unfolding session_starts_def by blast
    qed
    ultimately show ?thesis using g cmd session_keeps_trans none by blast
  qed
qed

lemma outside_set_out [simp]: "same_outside k A (set_out q f A)"
  by (rule outside_fields) (simp_all add: set_out_def)

lemma outside_find: "outofband_find c A = (r, A') \<Longrightarrow> same_outside k A A'"
  by (auto simp: outofband_find_def split: prod.splits intro: outside_fields)

lemma outside_new: "outofband_new E c A = (q, A') \<Longrightarrow> same_outside k A A'"
  by (auto simp: outofband_new_def Let_def intro: outside_fields)

lemma outside_save:
  assumes "outofband_save AP l d A = Some A'"
  shows "same_outside k A A'"
proof -
  have "A' = A \<or> A' = set_out l (\<lambda>b. b\<lparr>o_bSaved := True\<rparr>) (sfx_emit (SxSave d) A)"
    using assms by (auto simp: outofband_save_def bind_eq_Some_conv split: if_splits)
  then show ?thesis
    using outside.trans [OF outside_emit [of k "SxSave d" A] outside_set_out] by (auto simp: outside.refl)
qed

lemma outside_evict: "outofband_evict AP q len ls A = Some A' \<Longrightarrow> same_outside k A A'"
proof (induction ls arbitrary: A)
  case Nil
  then show ?case by (simp add: outside.refl)
next
  case (Cons l ls)
  consider (room) "o_MemUsed A + len < o_MemLimit A" | (skip) "\<not> o_MemUsed A + len < o_MemLimit A" "l = q \<or> o_pData (out A l) = None"
    | (save) d where "\<not> o_MemUsed A + len < o_MemLimit A" "l \<noteq> q" "o_pData (out A l) = Some d" by blast
  then show ?case
  proof cases
    case room
    then show ?thesis using Cons.prems by (simp add: outside.refl)
  next
    case skip
    then have "outofband_evict AP q len ls A = Some A'" using Cons.prems by (cases "l = q") simp_all
    then show ?thesis by (rule Cons.IH)
  next
    case (save d)
    then obtain B where B: "outofband_save AP l d A = Some B" and r: "outofband_evict AP q len ls
        (set_out l (\<lambda>b. b\<lparr>o_pData := None\<rparr>) (B\<lparr>o_MemUsed := o_MemUsed B - h_Len d\<rparr>)) = Some A'"
      using Cons.prems by (auto simp: bind_eq_Some_conv)
    have "same_outside k B (B\<lparr>o_MemUsed := o_MemUsed B - h_Len d\<rparr>)" by (rule outside_fields) simp_all
    from outside.trans [OF outside.trans [OF outside_save [OF B] this] outside.trans [OF outside_set_out Cons.IH [OF r]]]
    show ?thesis .
  qed
qed

lemma outside_Cache:
  assumes "AcceptorOutOfBandCache AP q A = Some A'"
  shows "same_outside k A A'"
proof -
  obtain d where d: "o_pData (out A q) = Some d" using assms by (auto simp: AcceptorOutOfBandCache_def bind_eq_Some_conv)
  then obtain B where B: "outofband_evict AP q (h_Len d) (o_Lnk A) A = Some B"
    and A': "A' = B\<lparr>o_MemUsed := o_MemUsed B + h_Len d\<rparr>"
    using assms by (auto simp: AcceptorOutOfBandCache_def bind_eq_Some_conv Let_def)
  have "same_outside k B A'" by (rule outside_fields) (simp_all add: A')
  with outside_evict [OF B] show ?thesis by (rule outside.trans)
qed

lemma outside_Get:
  assumes "PaxosAcceptorOutOfBandGet E AP c A = Some (r, A')"
  shows "same_outside k A A'"
proof -
  obtain po B where B: "outofband_find c A = (po, B)" by (cases "outofband_find c A")
  note f = outside_find [OF B, of k]
  show ?thesis
  proof (cases po)
    case (Some q)
    have "A' = B \<or> (\<exists>d. AcceptorOutOfBandCache AP q (set_out q (\<lambda>b. b\<lparr>o_pData := Some d\<rparr>) B) = Some A')"
      using assms B Some
      by (cases "o_pData (out B q)"; cases "if_fOutOfBandLoad AP (c_Sfx B) c")
        (auto simp: PaxosAcceptorOutOfBandGet_def bind_eq_Some_conv)
    then show ?thesis using f outside_Cache outside.trans [OF f outside.trans [OF outside_set_out]] by blast
  next
    case None
    obtain q C where C: "outofband_new E c B = (q, C)" by (cases "outofband_new E c B")
    have "A' = B \<or> (\<exists>d. AcceptorOutOfBandCache AP q (set_out q (\<lambda>b. b\<lparr>o_pData := Some d\<rparr>) C) = Some A')"
      using assms B None C
      by (cases "if_fOutOfBandLoad AP (c_Sfx B) c") (auto simp: PaxosAcceptorOutOfBandGet_def bind_eq_Some_conv)
    then show ?thesis
      using f outside_Cache outside.trans [OF outside.trans [OF f outside_new [OF C]] outside.trans [OF outside_set_out]] by blast
  qed
qed

lemma outside_Push:
  assumes "PaxosAcceptorOutOfBandPush E AP m A = Some (q, A')"
  shows "same_outside k A A'"
proof -
  obtain m' where p: "outofband_cut AP A m = Some m'"
    using assms by (auto simp: PaxosAcceptorOutOfBandPush_def bind_eq_Some_conv)
  obtain po B where B: "outofband_find (h_Id m') A = (po, B)" by (cases "outofband_find (h_Id m') A")
  define C where "C = (case po of None \<Rightarrow> snd (outofband_new E (h_Id m') B)
    | Some q \<Rightarrow> if o_bSaved (out B q)
        then set_out q (\<lambda>b. b\<lparr>o_bSaved := False\<rparr>) (sfx_emit (SxRemove (o_Id (out B q))) B) else B)"
  have "same_outside k B C"
  proof (cases po)
    case None
    then show ?thesis using outside_new [of E "h_Id m'" B] by (cases "outofband_new E (h_Id m') B") (simp add: C_def)
  next
    case (Some q)
    have "same_outside k B (sfx_emit (SxRemove (o_Id (out B q))) B)" by (rule outside_emit) simp
    then show ?thesis using Some outside.trans [OF _ outside_set_out] by (simp add: C_def outside.refl)
  qed
  with outside_find [OF B] have C: "same_outside k A C" by (rule outside.trans)
  define f where "f = (\<lambda>b :: AcceptorOutOfBand_t. b\<lparr>o_pData := Some m', o_Last := time0 E +
      cdiv (PaxosDecidedTimeout (c_pPaxos C) + PaxosMasterElectionTimeout (c_pPaxos C)) 1000000\<rparr>)"
  have "\<exists>q'. AcceptorOutOfBandCache AP q' (set_out q' f C) = Some A'"
  proof (cases po)
    case None
    obtain q' D where D: "outofband_new E (h_Id m') B = (q', D)" by (cases "outofband_new E (h_Id m') B")
    show ?thesis using assms p B None D
      by (intro exI [of _ q']) (auto simp: PaxosAcceptorOutOfBandPush_def bind_eq_Some_conv C_def f_def Let_def)
  next
    case (Some q')
    show ?thesis using assms p B Some
      by (intro exI [of _ q']) (auto simp: PaxosAcceptorOutOfBandPush_def bind_eq_Some_conv C_def f_def Let_def)
  qed
  then obtain q' where f: "AcceptorOutOfBandCache AP q' (set_out q' f C) = Some A'" ..
  show ?thesis by (rule outside.trans [OF outside.trans [OF C outside_set_out] outside_Cache [OF f]])
qed

lemma outside_Pull:
  assumes "PaxosAcceptorOutOfBandPull E AP m fd A = Some (r, A')"
  shows "same_outside k A A'"
proof -
  obtain x B where g: "PaxosAcceptorOutOfBandGet E AP (h_Id m) A = Some (x, B)"
    using assms by (auto simp: PaxosAcceptorOutOfBandPull_def bind_eq_Some_conv)
  have "same_outside k B A'"
  proof (cases x)
    case None
    then have "A' = sfx_emit (SxDisconnect fd) B" using assms g by (auto simp: PaxosAcceptorOutOfBandPull_def)
    then show ?thesis by (simp add: outside_emit seq_of_def)
  next
    case (Some pH)
    then obtain d where "A' = sfx_emit (SxStream fd [d]) (case fst (outofband_find (h_Id m) B) of
        Some q \<Rightarrow> set_out q (\<lambda>b. b\<lparr>o_pData := Some d\<rparr>) B | None \<Rightarrow> B)"
      using assms g by (auto simp: PaxosAcceptorOutOfBandPull_def Let_def SendStream_def bind_eq_Some_conv)
    then show ?thesis using outside.trans [OF outside_set_out outside_emit]
      by (auto simp: outside_emit split: option.splits)
  qed
  with outside_Get [OF g] show ?thesis by (rule outside.trans)
qed

lemma outside_Recv:
  assumes "AcceptorRecvHandler E AP fd m A = Some (r, A')"
  shows "same_outside k A A'"
proof (cases "h_Cmd m \<in> {PAXOS_SESSION_OB_PUSH, PAXOS_SESSION_OB_PULL}")
  case True
  then show ?thesis using assms
    by (auto simp: AcceptorRecvHandler_def bind_eq_Some_conv intro: outside_Push outside_Pull)
next
  case False
  then have "A' = A" using assms by (cases "h_Cmd m") (auto simp: AcceptorRecvHandler_def bind_eq_Some_conv)
  then show ?thesis by (simp add: outside.refl)
qed

lemma keeps_ElectEventSend:
  assumes "ElectEventSend AP m A = Some A'"
  shows "session_holds k X A A'"
proof -
  have "session_holds k X B B'"
    if "(if a_pFd (acc B p) \<noteq> None then map_option snd (PaxosAcceptSend AP p m B) else Some B) = Some B'" for p B B'
    using that by (auto simp: keeping.refl intro: keeps_AcceptSend split: if_splits)
  note each = keeping.for_each_ev [OF this]
  show ?thesis
  proof (cases "c_pFdFreeze A = None")
    case True
    then show ?thesis using assms by (intro each) (simp_all add: ElectEventSend_def)
  next
    case False
    then show ?thesis using assms by (simp add: ElectEventSend_def keeping.refl)
  qed
qed

lemma keeps_Election:
  assumes "Election E AP notify srv epoch A = Some A'"
  shows "session_holds k X A A'"
proof -
  have acc: "session_holds k X B (fold (\<lambda>p. set_acc p (\<lambda>a. a\<lparr>a_Access := time0 E\<rparr>)) ps B)" for ps B
    by (rule keeping.fold_ev) (simp add: keeps_set_same same_simps)
  have was: "session_holds k X A (A\<lparr>c_MasterWas := x\<rparr>)" for x by (rule keeps_fields) simp_all
  have emit: "session_holds k X B (sfx_emit (SxTimer n t) B)" for B n t by (rule keeps_emit) (simp add: seq_of_def)
  have "\<exists>B. session_holds k X A B \<and> (A' = B \<or> (\<exists>m. ElectEventSend AP m B = Some A'))"
    using assms keeping.refl [of k X A] was keeping.trans [OF keeping.trans [OF was acc] emit]
    by (cases notify) (auto simp: Election_def split: if_splits, blast)
  then show ?thesis using keeps_ElectEventSend keeping.trans by blast
qed

lemma keeps_garbage_loop: "garbage_loop E AP ps A = Some (Goes A') \<Longrightarrow> session_holds k X A A'"
proof (induction ps arbitrary: A)
  case Nil
  then show ?case by (simp add: keeping.refl)
next
  case (Cons p ps)
  show ?case
  proof (cases "a_pFd (acc A p) = None \<and>
         a_Access (acc A p) + cdiv (PaxosDecidedTimeout (c_pPaxos A)) 1000000 < time0 E")
    case False
    then show ?thesis using Cons by auto
  next
    case True
    obtain x where x: "SessionAbortSend E AP p A = Some x" using Cons.prems True by (auto simp: bind_eq_Some_conv)
    then obtain n B where B: "SessionAbortSend E AP p A = Some (Goes (n, B))" and r: "garbage_loop E AP ps B = Some (Goes A')"
      using Cons.prems True by (cases x) auto
    have "session_holds k X A B" using B by (auto simp: SessionAbortSend_def intro: keeps_request)
    then show ?thesis using Cons.IH [OF r] keeping.trans by blast
  qed
qed

lemma keeps_Garbage:
  assumes "SessionGarbage E AP A = Some (Goes A')"
  shows "session_holds k X A A'"
proof (cases "PaxosIsIamMaster (c_pPaxos A)")
  case False
  then show ?thesis using assms by (simp add: SessionGarbage_def keeping.refl)
next
  case True
  obtain x where x: "garbage_loop E AP (ge_Lnk (c_Accept A)) A = Some x" using assms True by (auto simp: SessionGarbage_def bind_eq_Some_conv)
  then obtain B where B: "garbage_loop E AP (ge_Lnk (c_Accept A)) A = Some (Goes B)"
    and A': "A' = sfx_emit (SxTimer (garbage_ms (c_pPaxos B)) SessionGarbage_timer) B"
    using assms True by (cases x) (auto simp: SessionGarbage_def)
  have "session_holds k X B A'" unfolding A' by (rule keeps_emit) (simp add: seq_of_def)
  with keeps_garbage_loop [OF B] show ?thesis by (rule keeping.trans)
qed

text \<open>The end of a connection, and the delayed abort of a session.\<close>

lemma keeps_AbortSend: "SessionAbortSend E AP p A = Some (Goes (n, A')) \<Longrightarrow> session_holds k X A A'"
  by (auto simp: SessionAbortSend_def intro: keeps_request)

lemma keeps_Disconnect:
  assumes "PaxosDisconnectAccept E AP p A = Some (Goes A')"
  shows "session_holds k X A A'"
proof -
  define B where "B = set_acc p (\<lambda>a. a\<lparr>a_pFd := None\<rparr>) A"
  have 1: "session_holds k X A B" unfolding B_def by (rule keeps_set_same) (simp add: same_simps)
  have "A' = B \<or> (\<exists>n. SessionAbortSend E AP p B = Some (Goes (n, A')))"
    using assms
    by (cases "SessionAbortSend E AP p B") (auto simp: PaxosDisconnectAccept_def Let_def simp flip: B_def split: if_splits wait.splits)
  then show ?thesis using 1 keeping.trans keeps_AbortSend by blast
qed

lemma keeps_disconnect:
  assumes "ThreadWorker E AP ws fd None A = Some (Goes A')"
  shows "session_keeps k A A'"
proof (rule keepsI)
  assume ok: "sessions_ok A"
  define B where "B = (if c_pFdFreeze A \<noteq> None then worker_unlock A else A)"
  have w: "(case c_Ev B fd of
        None \<Rightarrow> Some (Goes (sfx_emit (SxDisconnect fd) B))
      | Some p \<Rightarrow>
          if p \<notin> set (ge_Lnk (c_Accept B)) then None
          else do {
            r \<leftarrow> PaxosDisconnectAccept E AP p B;
            case r of
              Waits A \<Rightarrow> Some (Waits A)
            | Goes A \<Rightarrow> map_option (\<lambda>(_, A). Goes (sfx_emit (SxDisconnect fd) (A\<lparr>c_Ev := (c_Ev A)(fd := None)\<rparr>)))
                (PaxosAcceptPut E p A)
          }) = Some (Goes A')"
    using assms by (simp only: ThreadWorker_def worker_disconnect_def Let_def B_def option.case)
  have hB: "session_holds k' {} A B" for k' unfolding B_def by (simp add: keeping.refl outside_holds outside_unlock)
  have d: "session_holds k {} C (sfx_emit (SxDisconnect fd) (C\<lparr>c_Ev := f\<rparr>))" for C f
    by (rule keeping.trans [OF keeps_fields keeps_emit]) (simp_all add: seq_of_def)
  show "session_keeps k A A'"
  proof (cases "c_Ev B fd")
    case None
    then have "A' = sfx_emit (SxDisconnect fd) B" using w by simp
    then have "session_holds k {} A A'" using keeping.trans [OF hB keeps_emit] by (simp add: seq_of_def)
    then show ?thesis by (rule holds_empty_keeps)
  next
    case (Some p)
    then obtain x where p: "p \<in> set (ge_Lnk (c_Accept B))" and x: "PaxosDisconnectAccept E AP p B = Some x"
      using w by (auto simp: bind_eq_Some_conv split: if_splits)
    then obtain C D n where C: "PaxosDisconnectAccept E AP p B = Some (Goes C)" and put: "PaxosAcceptPut E p C = Some (n, D)"
      and A': "A' = sfx_emit (SxDisconnect fd) (D\<lparr>c_Ev := (c_Ev D)(fd := None)\<rparr>)"
      using w Some by (cases x) auto
    have okB: "sessions_ok B" using hB ok by (simp add: session_holds_def)
    have at: "session_at B (a_Id (acc B p)) = Some p"
      using p by (simp add: sessions.found_iff [OF okB] sessions.bound_to_def session_key.cmp_refl)
    note hC = keeps_Disconnect [OF C]
    have "session_keeps k C D"
      by (rule PaxosAcceptPut_frame [OF put, of "a_Id (acc B p)"]) (use hC okB at in \<open>simp add: session_holds_def\<close>)
    then show ?thesis
      using holds_empty_keeps [OF keeping.trans [OF hB hC]] holds_empty_keeps [OF d] session_keeps_trans A' by blast
  qed
qed

lemma keeps_AbortTimeout:
  assumes "ConnectAbortTimeout E AP c A = Some (Goes A')"
  shows "session_keeps k A A'"
proof (rule keepsI)
  assume ok: "sessions_ok A"
  obtain x where "PaxosAcceptGet E c False A = Some x" using assms by (auto simp: ConnectAbortTimeout_def bind_eq_Some_conv)
  then obtain po A1 where g: "PaxosAcceptGet E c False A = Some (Goes (po, A1))"
    using assms by (cases x) (auto simp: ConnectAbortTimeout_def)
  note keep = get_same(1) [OF g, of k] and at = get_same(2) [OF g ok]
  show "session_keeps k A A'"
  proof (cases po)
    case None
    then show ?thesis using assms g keep by (simp add: ConnectAbortTimeout_def)
  next
    case (Some p)
    have "\<exists>B n. (B = A1 \<or> (\<exists>n. SessionAbortSend E AP p A1 = Some (Goes (n, B)))) \<and> PaxosAcceptPut E p B = Some (n, A')"
    proof (cases "PaxosIsIamMaster (c_pPaxos A1) \<and> a_pFd (acc A1 p) \<noteq> None \<and> a_Health (acc A1 p) + DT_SESSION_HEALTH < time0 E")
      case True
      obtain x where x: "SessionAbortSend E AP p A1 = Some x"
        using assms g Some True by (auto simp: ConnectAbortTimeout_def bind_eq_Some_conv)
      then show ?thesis using assms g Some True by (cases x) (auto simp: ConnectAbortTimeout_def)
    next
      case False
      have "map_option (\<lambda>(_, A). Goes A) (PaxosAcceptPut E p A1) = Some (Goes A')"
        using assms g Some
        by (simp add: ConnectAbortTimeout_def if_not_P [OF False] del: not_None_eq)
      then show ?thesis by auto
    qed
    then obtain B n where B: "session_holds k {} A1 B" and put: "PaxosAcceptPut E p B = Some (n, A')"
      using keeping.refl keeps_AbortSend by blast
    have "session_keeps k B A'"
      by (rule PaxosAcceptPut_frame [OF put, of c])
        (use B at Some ok keep in \<open>simp add: session_holds_def session_keeps_def\<close>)
    then show ?thesis using keep holds_empty_keeps [OF B] session_keeps_trans by blast
  qed
qed

section \<open>Steps of the server\<close>

text \<open>
  What the threads of the server do: the execution of an entry, a turn of a worker with a message or
  with the end of a connection, the receipt of a message, the news of an election, the collection of
  abandoned sessions and the delayed abort of one. A step whose thread ends up waiting is not one.
\<close>

datatype session_event =
    Executes env PaxosExecute_t
  | Works env nat PaxosSessionHead_t
  | Disconnects env nat
  | Receives env nat PaxosSessionHead_t
  | Elects env PaxosNotify int u32
  | Collects env
  | Aborts env PaxosClientId_t

definition went :: "PaxosAcceptor_t wait option \<Rightarrow> PaxosAcceptor_t option" where
  "went r = do { x \<leftarrow> r; case x of Waits A \<Rightarrow> None | Goes A \<Rightarrow> Some A }"

fun session_step :: "app \<Rightarrow> session_event \<Rightarrow> PaxosAcceptor_t \<Rightarrow> PaxosAcceptor_t option" where
  "session_step AP (Executes E e) A = went (execute_one E AP [] e A)"
| "session_step AP (Works E fd m) A = went (ThreadWorker E AP [] fd (Some m) A)"
| "session_step AP (Disconnects E fd) A = went (ThreadWorker E AP [] fd None A)"
| "session_step AP (Receives E fd m) A = map_option snd (AcceptorRecvHandler E AP fd m A)"
| "session_step AP (Elects E notify srv epoch) A = Election E AP notify srv epoch A"
| "session_step AP (Collects E) A = went (SessionGarbage E AP A)"
| "session_step AP (Aborts E c) A = went (ConnectAbortTimeout E AP c A)"

lemma went_Some: "went r = Some A \<longleftrightarrow> r = Some (Goes A)"
  by (cases r) (auto simp: went_def split: wait.splits)

text \<open>The entry of a client that is executed, and, beside it, the requests of its own a worker starts.\<close>

definition own_request :: "app \<Rightarrow> PaxosClientId_t \<Rightarrow> session_event \<Rightarrow> PaxosSessionHead_t option" where
  "own_request AP k ev = (case ev of
     Executes E e \<Rightarrow> (let m = ap_parse AP (e_Cmd e) in if HashSessionCompare (h_Id m) k = 0 then Some m else None)
   | _ \<Rightarrow> None)"

definition own_turn :: "app \<Rightarrow> PaxosClientId_t \<Rightarrow> session_event \<Rightarrow> PaxosSessionHead_t option" where
  "own_turn AP k ev = (case ev of
     Works E fd m \<Rightarrow> if reaches_app (h_Cmd m) \<and> HashSessionCompare (h_Id m) k = 0 then Some m else None
   | _ \<Rightarrow> own_request AP k ev)"

lemma step_keeps:
  assumes "session_step AP ev A = Some A'" and "own_request AP k ev = None"
  shows "session_keeps k A A' \<or> (\<exists>E fd m. ev = Works E fd m \<and> own_turn AP k ev = Some m \<and> session_starts AP k m A A')"
proof (cases ev)
  case (Executes E e)
  then show ?thesis using assms by (auto simp: own_request_def went_Some Let_def execute_other_keeps split: if_splits)
next
  case (Works E fd m)
  then show ?thesis using assms ThreadWorker_keeps [of E AP fd m A A' k] by (auto simp: went_Some own_turn_def)
next
  case (Disconnects E fd)
  then show ?thesis using assms keeps_disconnect by (auto simp: went_Some)
next
  case (Receives E fd m)
  then show ?thesis using assms outside_Recv outside_holds holds_empty_keeps by fastforce
next
  case (Elects E n srv ep)
  then show ?thesis using assms keeps_Election holds_empty_keeps by fastforce
next
  case (Collects E)
  then show ?thesis using assms keeps_Garbage holds_empty_keeps by (auto simp: went_Some)
next
  case (Aborts E c)
  then show ?thesis using assms keeps_AbortTimeout by (auto simp: went_Some)
qed

text \<open>A request that a worker starts leaves the session open.\<close>

lemma starts_open:
  assumes "session_starts AP k m A A'" and "sessions_ok A" and "session_at A k = Some p" and "is_open A p"
  shows "sessions_ok A' \<and> session_at A' k = Some p \<and> is_open A' p"
proof -
  obtain B where B: "session_keeps k A B" "session_keeps k (set_acc p (ACCEPTED_SEQ m) B) A'"
    using assms(1,3) by (auto simp: session_starts_def)
  let ?S = "set_acc p (ACCEPTED_SEQ m) B"
  have "sessions_ok B" "session_at B k = Some p" "is_open B p"
    using B(1) assms(2-4) same_session_open by (auto simp: session_keeps_def)
  then have "sessions_ok ?S" "session_at ?S k = Some p" "is_open ?S p"
    by (simp_all add: sessions_ok_set_acc is_open_def acc_set_acc ACCEPTED_SEQ_def HashSessionCompare_def)
  then show ?thesis using B(2) same_session_open by (auto simp: session_keeps_def)
qed

lemma step_stays_open:
  assumes "session_step AP ev A = Some A'" and "own_request AP k ev = None"
    and "sessions_ok A" and "session_at A k = Some p" and "is_open A p"
  shows "sessions_ok A' \<and> session_at A' k = Some p \<and> is_open A' p"
  using step_keeps [OF assms(1,2)] starts_open [OF _ assms(3-5)] assms(3-5) same_session_open
  by (auto simp: session_keeps_def)

section \<open>A run\<close>

text \<open>
  The client of a run that is patient: its requests have small numbers, wait for the answer of the one
  before, and those executed neither close nor abort the session.
\<close>

fun patient :: "app \<Rightarrow> PaxosClientId_t \<Rightarrow> nat \<Rightarrow> session_event list \<Rightarrow> PaxosAcceptor_t \<Rightarrow> bool" where
  "patient AP k p [] A = True"
| "patient AP k p (ev # evs) A =
     ((case own_turn AP k ev of None \<Rightarrow> True
       | Some m \<Rightarrow> i_Seq (h_Id m) < 2 ^ 31 \<and> waited A p m \<and> (own_request AP k ev \<noteq> None \<longrightarrow> \<not> ends_session (h_Cmd m))) \<and>
      (case session_step AP ev A of None \<Rightarrow> True | Some B \<Rightarrow> patient AP k p evs B))"

lemma own_start:
  assumes st: "session_starts AP k m A A'" and i: "session_inv k p q A" and w: "waited A p m" and small: "i_Seq (h_Id m) < 2 ^ 31"
  shows "session_inv k p q A' \<and> delivered k A' = delivered k A"
proof -
  have "session_at A k = Some p" using i by (simp add: session_inv_def)
  then obtain B where B: "session_keeps k A B" "IsAccepted_check AP p m B = Some (0, B)"
    "session_keeps k (set_acc p (ACCEPTED_SEQ m) B) A'" using st by (auto simp: session_starts_def)
  have iB: "session_inv k p q B" "delivered k B = delivered k A" using inv_keeps [OF i B(1)] by simp_all
  have "same_session (acc A p) (acc B p)" using i B(1) by (simp add: session_inv_def session_keeps_def)
  then have "waited B p m" using w by (auto simp: waited_def same_session_def)
  note lt = passed_check [OF iB(1) B(2) this small]
  have "session_inv k p q (set_acc p (ACCEPTED_SEQ m) B)" by (rule inv_start [OF iB(1) lt(2,1) small])
  from inv_keeps [OF this B(3)] iB(2) show ?thesis by simp
qed

lemma run_delivers_once:
  assumes "for_each (session_step AP) evs A = Some A'" and "session_inv k p q A" and "patient AP k p evs A"
  shows "\<exists>ss. delivered k A' = delivered k A @ ss \<and> sorted_wrt (<) (q # ss)
    \<and> session_inv k p (last (q # ss)) A'"
  using assms
proof (induction evs arbitrary: A q)
  case Nil
  then show ?case by (intro exI [of _ "[]"]) simp
next
  case (Cons ev evs)
  obtain B where B: "session_step AP ev A = Some B" and rest: "for_each (session_step AP) evs B = Some A'"
    using Cons.prems(1) by (auto simp: bind_eq_Some_conv)
  have pat: "patient AP k p evs B" using Cons.prems(3) B by simp
  have turn: "i_Seq (h_Id m) < 2 ^ 31 \<and> waited A p m \<and> (own_request AP k ev \<noteq> None \<longrightarrow> \<not> ends_session (h_Cmd m))"
    if "own_turn AP k ev = Some m" for m using Cons.prems(3) that by simp
  have "\<exists>q' d. session_inv k p q' B \<and> delivered k B = delivered k A @ d \<and> (d = [] \<and> q' = q \<or> d = [q'] \<and> q < q')"
  proof (cases "own_request AP k ev")
    case None
    have "session_inv k p q B \<and> delivered k B = delivered k A"
      using step_keeps [OF B None]
    proof
      assume "session_keeps k A B"
      then show ?thesis by (rule inv_keeps [OF Cons.prems(2)])
    next
      assume "\<exists>E fd m. ev = Works E fd m \<and> own_turn AP k ev = Some m \<and> session_starts AP k m A B"
      then show ?thesis using own_start [OF _ Cons.prems(2)] turn by blast
    qed
    then show ?thesis by auto
  next
    case (Some m)
    obtain E e where ev: "ev = Executes E e" and own: "HashSessionCompare (h_Id m) k = 0" and m: "m = ap_parse AP (e_Cmd e)"
      using Some by (auto simp: own_request_def Let_def split: session_event.splits if_splits)
    have "execute_one E AP [] e A = Some (Goes B)" using B by (simp add: ev went_Some)
    moreover have "own_turn AP k ev = Some m" using Some by (simp add: own_turn_def ev)
    ultimately show ?thesis using execute_own [OF _ Cons.prems(2), of E AP e B] turn [of m] Some own by (auto simp: m)
  qed
  then obtain q' d where q': "session_inv k p q' B" "delivered k B = delivered k A @ d"
    "d = [] \<and> q' = q \<or> d = [q'] \<and> q < q'" by blast
  obtain ss where ss: "delivered k A' = delivered k B @ ss" "sorted_wrt (<) (q' # ss)" "session_inv k p (last (q' # ss)) A'"
    using Cons.IH [OF rest q'(1) pat] by blast
  have "sorted_wrt (<) (q # d @ ss)" "last (q # d @ ss) = last (q' # ss)" using q'(3) ss(2) by auto
  with ss q'(2) show ?case by (intro exI [of _ "d @ ss"]) simp
qed

end
