(* ===== verification/Session_Requests.thy ===== *)
theory Session_Requests
  imports Session_Threads
begin

text \<open>
  What becomes of one request: the exact condition under which it reaches the application, the start
  of a session, and the wait of a client that opens an identity still in use.
\<close>

section \<open>What becomes of a request\<close>

definition is_new :: "PaxosAcceptor_t \<Rightarrow> nat \<Rightarrow> PaxosSessionHead_t \<Rightarrow> bool" where
  "is_new A p m \<longleftrightarrow> CMP (i_Seq (h_Id m)) (a_Reply (acc A p)) > 0 \<and>
     \<not> (a_Start (acc A p) = i_Seq (h_Id m) \<and> a_Cmd (acc A p) = Some (h_Cmd m)) \<and>
     CMP (i_SeqWait (h_Id m)) (a_End (acc A p)) \<le> 0"

lemma IsAccepted_check_zero:
  assumes "IsAccepted_check AP p m A = Some (r, A1)"
  shows "r = 0 \<longleftrightarrow> CMP (i_Seq (h_Id m)) (a_Reply (acc A p)) > 0 \<and>
     \<not> (a_Start (acc A p) = i_Seq (h_Id m) \<and> a_Cmd (acc A p) = Some (h_Cmd m))"
proof -
  have "CMP (i_Seq (h_Id m)) (a_Reply (acc A p)) = 0 \<longleftrightarrow> i_Seq (h_Id m) = a_Reply (acc A p)" by simp
  then show ?thesis using assms
    by (auto simp: IsAccepted_check_def Let_def bind_eq_Some_conv simp del: CMP_eq_0 split: if_splits)
qed

text \<open>The end of a request of an open session.\<close>

lemma end_open_session:
  assumes e: "execute_end E p c (True, A) = Some A'" and ok: "sessions_ok A" and at: "session_at A k = Some p"
    and op: "is_open A p"
  shows "i_Seq c = a_Start (acc A p) \<and> sessions_ok A' \<and> session_at A' k = Some p \<and> is_open A' p
    \<and> acc A' p = (acc A p)\<lparr>a_End := i_Seq c\<rparr> \<and> delivered k A' = delivered k A"
proof -
  let ?A = "set_acc p (\<lambda>a. a\<lparr>a_End := i_Seq c\<rparr>) A"
  obtain r where s: "i_Seq c = a_Start (acc A p)" and put: "PaxosAcceptPut E p ?A = Some (r, A')"
    using e by (auto simp: execute_end_def PaxosAcceptedEnd_def bind_eq_Some_conv ASSERT_def split: if_splits)
  have ok': "sessions_ok ?A" using ok by (simp add: sessions_ok_set_acc session_key.cmp_refl)
  have "sessions_ok A' \<and> delivered k A' = delivered k ?A \<and>
    (session_at ?A k = Some p \<longrightarrow> is_open ?A p \<longrightarrow> session_at A' k = Some p \<and> acc A' p = acc ?A p)"
    by (rule PaxosAcceptPut_kept [OF put _ ok', of k]) (use at in simp)
  moreover have "delivered k ?A = delivered k A" by (simp add: delivered_def set_acc_def)
  ultimately show ?thesis using s at op by (simp add: is_open_def acc_set_acc)
qed

lemma admitted_data:
  assumes a: "execute_admitted E AP [] p e m A = Some (Goes A')"
    and ok: "sessions_ok A" and at: "session_at A k = Some p" and op: "is_open A p"
    and own: "HashSessionCompare (h_Id m) k = 0" and d: "is_data (h_Cmd m)"
  shows "delivered k A' = delivered k A @ (if is_new A p m then [i_Seq (h_Id m)] else [])
    \<and> (is_new A p m \<longrightarrow> sessions_ok A' \<and> session_at A' k = Some p \<and> is_open A' p \<and>
      a_Start (acc A' p) = i_Seq (h_Id m) \<and> a_End (acc A' p) = i_Seq (h_Id m) \<and> a_Cmd (acc A' p) = Some (h_Cmd m) \<and>
      a_Reply (acc A' p) \<in> {a_Reply (acc A p), i_Seq (h_Id m)} \<and>
      (answers_at AP m \<longrightarrow> a_Reply (acc A' p) = i_Seq (h_Id m)))"
proof -
  have put: "delivered k A' = delivered k A" if h: "session_holds k {} A B" and "PaxosAcceptPut E p B = Some (n, A')" for B n
    using session_keeps_trans [OF holds_empty_keeps [OF h] PaxosAcceptPut_frame [OF that(2), of k]] h ok at
    by (auto simp: session_keeps_def session_holds_def)
  from a show ?thesis
  proof (cases rule: admitted_cases)
    case (dup r A1 n)
    note c = holds_IsAccepted(2) [OF dup(1) op]
    have "\<not> is_new A p m" using IsAccepted_check_zero [OF c] dup(2) by (auto simp: is_new_def)
    then show ?thesis using put [OF keeps_IsAccepted_check [OF c] dup(3)] by simp
  next
    case (early A1 m' n B n')
    have A1: "A1 = A" using IsAccepted_check_new [OF holds_IsAccepted(2) [OF early(1) op]] by simp
    have "\<not> is_new A p m" using early(2) A1 by (simp add: is_new_def)
    then show ?thesis using put [OF keeps_AcceptSend [OF early(3) [unfolded A1]] early(4)] by simp
  next
    case (new A1 x)
    note c = holds_IsAccepted(2) [OF new(1) op]
    have A1: "A1 = A" using IsAccepted_check_new [OF c] by simp
    have nw: "is_new A p m" using IsAccepted_check_zero [OF c] new(2) A1 by (simp add: is_new_def)
    define A2 where "A2 = set_acc p (ACCEPTED_SEQ m) A"
    have ok2: "sessions_ok A2" using ok by (simp add: A2_def sessions_ok_set_acc ACCEPTED_SEQ_def HashSessionCompare_def)
    have s2: "session_at A2 k = Some p" "is_open A2 p" "a_Start (acc A2 p) = i_Seq (h_Id m)" "delivered k A2 = delivered k A"
      "a_Cmd (acc A2 p) = Some (h_Cmd m)"
      using at op by (simp_all add: A2_def is_open_def acc_set_acc ACCEPTED_SEQ_def)
    obtain held A3 where x: "execute_command E AP p e m A2 = Some (held, A3)" "execute_end E p (h_Id m) (held, A3) = Some A'"
      using new(3,4) A1 A2_def by (cases x) auto
    note dc = data_command [OF x(1) d ok2 own]
    have at3: "session_at A3 k = Some p" and a3: "a_Cmd (acc A3 p) = Some (h_Cmd m)" "a_Start (acc A3 p) = i_Seq (h_Id m)"
      "a_Reply (acc A3 p) \<in> {a_Reply (acc A p), i_Seq (h_Id m)}"
      using dc(4,5) s2(1,3,5) by (auto simp: same_session_def A2_def acc_set_acc ACCEPTED_SEQ_def)
    from end_open_session [OF x(2) [unfolded eqTrueI [OF dc(1)]] dc(3) at3 same_session_open [OF dc(5) s2(2)]]
      a3 dc(2,6) s2(4) nw
    show ?thesis by simp
  qed
qed

lemma data_request:
  assumes e: "execute_one E AP [] e A = Some (Goes A')" and m_def: "m = ap_parse AP (e_Cmd e)"
    and ok: "sessions_ok A" and at: "session_at A k = Some p" and op: "is_open A p"
    and own: "HashSessionCompare (h_Id m) k = 0" and d: "is_data (h_Cmd m)"
  shows "delivered k A' = delivered k A @ (if is_new A p m then [i_Seq (h_Id m)] else [])
    \<and> (is_new A p m \<longrightarrow> sessions_ok A' \<and> session_at A' k = Some p \<and> is_open A' p \<and>
      a_Start (acc A' p) = i_Seq (h_Id m) \<and> a_End (acc A' p) = i_Seq (h_Id m) \<and> a_Cmd (acc A' p) = Some (h_Cmd m) \<and>
      a_Reply (acc A' p) \<in> {a_Reply (acc A p), i_Seq (h_Id m)} \<and>
      (answers_at AP m \<longrightarrow> a_Reply (acc A' p) = i_Seq (h_Id m)))"
  using e m_def
proof (cases rule: execute_one_cases)
  case (nobody A1)
  then show ?thesis using get_open_session [OF nobody(1) ok at op own] by simp
next
  case (abort p' A1 x)
  then show ?thesis using d by (simp add: is_data_def)
next
  case (admitted p' A1)
  note g = get_open_session [OF admitted(1) ok at op own]
  then have p': "p' = p" by simp
  have "is_new A1 p m = is_new A p m" using g by (simp add: is_new_def)
  with admitted_data [OF admitted(3) [unfolded p'], of k] g own d show ?thesis by simp
qed

section \<open>Opening\<close>

lemma get_new_session:
  assumes g: "PaxosAcceptGet E c True A = Some (Goes (po, A1))" and ok: "sessions_ok A"
    and none: "session_at A c = None" and room: "ge_Cnt (c_Accept A) < ge_MaxCnt (c_Accept A)"
  shows "\<exists>p. po = Some p \<and> sessions_ok A1 \<and> session_at A1 c = Some p \<and>
    acc A1 p = (AcceptAlloc E)\<lparr>a_Id := c\<rparr> \<and> delivered k A1 = delivered k A"
proof -
  have set: "ge_fSet (AcceptIF E) c True (ge_fAlloc (AcceptIF E)) = (0, c, (AcceptAlloc E)\<lparr>a_Id := c\<rparr>)"
    by (simp add: AcceptIF_def AcceptSet_def)
  define p where "p = ge_Next (c_Accept A)"
  obtain g' where g': "GElmGet (AcceptIF E) [] c True True (c_Accept A) = Some (GGot (Some p) g')"
    "sessions.ok g'" "sessions.found g' = (\<lambda>a. if HashSessionCompare c a = 0 then Some p else session_at A a)"
    "ge_Elm g' = (ge_Elm (c_Accept A))(p := \<lparr>e_Cnt = 1, e_Obj = (AcceptAlloc E)\<lparr>a_Id := c\<rparr>\<rparr>)"
    using sessions.get_new [OF ok none _ set, of "[]"] room unfolding p_def by auto
  then have "po = Some p" "A1 = A\<lparr>c_Accept := g'\<rparr>" using g by (auto simp: PaxosAcceptGet_def)
  then show ?thesis using g' by (simp add: delivered_def session_key.cmp_refl)
qed

lemma get_new_others:
  assumes "PaxosAcceptGet E c True A = Some (Goes (Some p, A1))" and "sessions_ok A"
    and "session_at A c = None" and "ge_Cnt (c_Accept A) < ge_MaxCnt (c_Accept A)"
  shows "session_at A1 = (\<lambda>a. if HashSessionCompare c a = 0 then Some p else session_at A a)"
proof -
  have set: "ge_fSet (AcceptIF E) c True (ge_fAlloc (AcceptIF E)) = (0, c, (AcceptAlloc E)\<lparr>a_Id := c\<rparr>)"
    by (simp add: AcceptIF_def AcceptSet_def)
  show ?thesis using sessions.get_new [OF assms(2,3) _ set, of "[]"] assms(1,4) by (auto simp: PaxosAcceptGet_def)
qed

lemma execute_open_session:
  assumes e: "execute_open E AP p m A = Some A'" and ok: "sessions_ok A"
  shows "is_open A' p \<and> answered A' p \<and> sessions_ok A' \<and> session_at A' = session_at A \<and> a_Start (acc A' p) = a_Start (acc A p)
    \<and> delivered k A' = delivered k A"
proof -
  obtain r A1 n A2 where 1: "app_call AP (if_fSessionOpen AP) (SxOpen m) p m A = Some (r, A1)"
    and r: "r = 0" and A2: "A2 = set_acc p (\<lambda>a. a\<lparr>a_Opened := ACCEPT_OPENED\<rparr>) A1"
    and 3: "PaxosAcceptOpenReplyByMsg AP p r A2 = Some (n, A')"
    using e by (auto simp: execute_open_def bind_eq_Some_conv ASSERT_def Let_def split: if_splits)
  have h: "session_holds k {} A A'" by (rule keeps_execute_open [OF e])
  have ok2: "sessions_ok A2"
    using keeps_app_call [OF 1, of k "{}"] ok by (simp add: A2 session_holds_def sessions_ok_set_acc session_key.cmp_refl)
  have "answered A' p" using ReplyByMsg_answers [OF 3 [unfolded PaxosAcceptOpenReplyByMsg_def] ok2] .
  moreover have "session_holds k {} A2 A'" using 3 keeps_ReplyByMsg by (auto simp: PaxosAcceptOpenReplyByMsg_def)
  then have "is_open A' p" using ok2 by (auto simp: session_holds_def A2 is_open_def acc_set_acc same_session_def)
  ultimately show ?thesis using h ok by (simp add: session_holds_def same_session_def)
qed

lemma open_request:
  assumes e: "execute_one E AP [] e A = Some (Goes A')" and m_def: "m = ap_parse AP (e_Cmd e)"
    and cmd: "h_Cmd m = PAXOS_SESSION_OPEN" and ok: "sessions_ok A" and none: "session_at A (h_Id m) = None"
    and room: "ge_Cnt (c_Accept A) < ge_MaxCnt (c_Accept A)"
    and seq: "CMP (i_Seq (h_Id m)) 0 > 0" "CMP (i_SeqWait (h_Id m)) 0 \<le> 0"
  shows "\<exists>p. sessions_ok A' \<and> session_at A' (h_Id m) = Some p \<and> is_open A' p \<and>
    a_Start (acc A' p) = i_Seq (h_Id m) \<and> a_End (acc A' p) = i_Seq (h_Id m) \<and> a_Reply (acc A' p) = i_Seq (h_Id m) \<and>
    delivered (h_Id m) A' = delivered (h_Id m) A"
  using e m_def
proof (cases rule: execute_one_cases)
  case (nobody A1)
  then show ?thesis using get_new_session [of E "h_Id m" A None A1] ok none room cmd by simp
next
  case (abort p A1 x)
  then show ?thesis using cmd by simp
next
  case (admitted p A1)
  then have g: "sessions_ok A1" "session_at A1 (h_Id m) = Some p" "acc A1 p = (AcceptAlloc E)\<lparr>a_Id := h_Id m\<rparr>"
    "delivered (h_Id m) A1 = delivered (h_Id m) A"
    using get_new_session [of E "h_Id m" A "Some p" A1 "h_Id m"] ok none room cmd by auto
  have zero: "a_Reply (acc A1 p) = 0" "a_Start (acc A1 p) = 0" "a_End (acc A1 p) = 0" "a_Cmd (acc A1 p) = None"
    by (simp_all add: g AcceptAlloc_def)
  have reuse: "\<not> is_reuse (acc A1 p) m" by (simp add: is_reuse_def zero)
  have check: "IsAccepted_check AP p m A1 = Some (r, A2)"
    if "PaxosAcceptIsAccepted AP [] p m A1 = Some (Goes (r, A2))" for r A2
    using that reuse by (simp add: PaxosAcceptIsAccepted_def)
  from admitted(3) show ?thesis
  proof (cases rule: admitted_cases)
    case (dup r A2 n)
    then show ?thesis using IsAccepted_check_zero [OF check [OF dup(1)]] seq zero by simp
  next
    case (early A2 m' n B n')
    then show ?thesis using IsAccepted_check_new [OF check [OF early(1)]] seq zero by simp
  next
    case (new A2 x)
    have A2: "A2 = A1" using IsAccepted_check_new [OF check [OF new(1)]] by simp
    define A3 where "A3 = set_acc p (ACCEPTED_SEQ m) A1"
    have ok3: "sessions_ok A3" using g by (simp add: A3_def sessions_ok_set_acc ACCEPTED_SEQ_def HashSessionCompare_def)
    have s3: "a_Start (acc A3 p) = i_Seq (h_Id m)" by (simp add: A3_def acc_set_acc ACCEPTED_SEQ_def)
    obtain A4 where x: "execute_open E AP p m A3 = Some A4" "execute_end E p (h_Id m) (True, A4) = Some A'"
      using new(3,4) A2 cmd by (auto simp: execute_command_def A3_def)
    note o = execute_open_session [OF x(1) ok3, of "h_Id m"]
    have "session_at A4 (h_Id m) = Some p" using o g(2) by (simp add: A3_def)
    from end_open_session [OF x(2) _ this] o s3 g(4) show ?thesis by (auto simp: A3_def)
  qed
qed

text \<open>An identity opened again while its session is open waits until it is closed.\<close>

lemma reuse_wait_open:
  "reuse_wait p ws A = (case dropWhile (\<lambda>A. is_open A p) (A # ws) of [] \<Rightarrow> Waits (last (A # ws)) | B # _ \<Rightarrow> Goes B)"
  by (induction ws arbitrary: A) (auto simp: is_open_def simp del: dropWhile_eq_Nil_conv split: list.splits)

lemma stale_open:
  assumes noti: "e_Notify e = PAXOS_ACCEPTED" and m_def: "m = ap_parse AP (e_Cmd e)" and cmd: "h_Cmd m = PAXOS_SESSION_OPEN"
    and ok: "sessions_ok A" and at: "session_at A (h_Id m) = Some p" and op: "is_open A p"
    and last: "a_Cmd (acc A p) \<noteq> None" "a_Cmd (acc A p) \<noteq> Some PAXOS_SESSION_OPEN"
    and g: "PaxosAcceptGet E (h_Id m) True A = Some (Goes (Some p, B))"
    and ws: "\<And>C. C \<in> set ws \<Longrightarrow> \<exists>evs. (\<forall>ev \<in> set evs. own_request AP (h_Id m) ev = None) \<and> for_each (session_step AP) evs B = Some C"
  shows "\<exists>C. execute_one E AP ws e A = Some (Waits C)"
proof -
  note b = get_open_session [OF g ok at op session_key.cmp_refl]
  have stays: "is_open C p" if "for_each (session_step AP) evs D = Some C" "\<forall>ev \<in> set evs. own_request AP (h_Id m) ev = None"
    "sessions_ok D" "session_at D (h_Id m) = Some p" "is_open D p" for evs C D
    using that
  proof (induction evs arbitrary: D)
    case (Cons ev evs)
    then obtain D' where D': "session_step AP ev D = Some D'" "for_each (session_step AP) evs D' = Some C"
      by (auto simp: bind_eq_Some_conv)
    have "sessions_ok D'" "session_at D' (h_Id m) = Some p" "is_open D' p"
      using step_stays_open [OF D'(1) _ Cons.prems(3-5)] Cons.prems(2) by simp_all
    with Cons.IH [OF D'(2)] Cons.prems(2) show ?case by simp
  qed simp
  have "\<forall>C \<in> set (B # ws). is_open C p" using ws stays b by fastforce
  then have "dropWhile (\<lambda>A. is_open A p) (B # ws) = []" by (simp add: dropWhile_eq_Nil_conv)
  then have w: "reuse_wait p ws B = Waits (last (B # ws))" by (simp only: reuse_wait_open list.case)
  have "is_reuse (acc B p) m" using b last cmd by (simp add: is_reuse_def)
  then have "PaxosAcceptIsAccepted AP ws p m B = Some (Waits (last (B # ws)))" by (simp add: PaxosAcceptIsAccepted_def w)
  then show ?thesis using g cmd noti by (simp add: execute_one_def execute_admitted_def ASSERT_def flip: m_def)
qed

end
