(* ===== verification/Session_Replica.thy ===== *)
theory Session_Replica
  imports Session_Requests
begin

text \<open>
  A session without a connection, as on every server that is not the one its client talks to: the
  execution of a request always comes to its end there.
\<close>

lemma Release1_silent:
  "a_pFd (acc A p) = None \<Longrightarrow> \<exists>r. PaxosAcceptRelease1 AP p A = Some (r, A)"
  by (simp add: PaxosAcceptRelease1_def Let_def)

lemma ReplyByMsg1_silent:
  assumes "a_pFd (acc A p) = None"
  shows "\<exists>r A'. PaxosAcceptReplyByMsg1 AP p m A = Some (r, A') \<and> a_pFd (acc A' p) = None"
proof (cases m)
  case None
  then show ?thesis using Release1_silent [OF assms, of AP] assms by (auto simp: PaxosAcceptReplyByMsg1_def)
next
  case (Some ms)
  define A1 where "A1 = set_acc p (\<lambda>a. a\<lparr>a_Reply := a_Start a\<rparr>) A"
  define A2 where "A2 = (if \<not> r_Hold (acc A1 p) then PaxosAcceptFreeReply p A1 else A1)"
  define A3 where "A3 = set_acc p (\<lambda>a. a\<lparr>r_Msg := r_Msg a @ [ms], r_Cnt := r_Cnt a + 1\<rparr>) A2"
  have "a_pFd (acc A3 p) = None"
    using assms by (simp add: A3_def A2_def A1_def acc_set_acc PaxosAcceptFreeReply_def)
  with Release1_silent [OF this, of AP] show ?thesis
    by (auto simp: PaxosAcceptReplyByMsg1_def Some Let_def simp flip: A1_def A2_def A3_def)
qed

lemma ReplyByMsg_silent:
  "a_pFd (acc A p) = None \<Longrightarrow> \<exists>r A'. PaxosAcceptReplyByMsg AP p b ms A = Some (r, A') \<and> a_pFd (acc A' p) = None"
  unfolding PaxosAcceptReplyByMsg_def by (rule ReplyByMsg1_silent) (simp add: acc_set_acc)

text \<open>The calls of an application on its own session.\<close>

fun on_own :: "appcall \<Rightarrow> bool" where
  "on_own (AcRaise q m) = False"
| "on_own (AcReplyTo q b m) = False"
| "on_own _ = True"

lemma appcall_silent:
  assumes "a_pFd (acc A p) = None" and "on_own c"
  shows "\<exists>A'. do_appcall AP p c A = Some A' \<and> a_pFd (acc A' p) = None"
proof (cases c)
  case (AcReply b m)
  then show ?thesis using ReplyByMsg_silent [OF assms(1), of AP b "[m]"] by auto
next
  case AcHold
  then show ?thesis using assms(1) by (simp add: PaxosAcceptHold_def PaxosAcceptFreeReply_def acc_set_acc)
next
  case AcRelease
  have "a_pFd (acc (set_acc p (\<lambda>a. a\<lparr>r_Hold := False\<rparr>) A) p) = None" using assms(1) by (simp add: acc_set_acc)
  from Release1_silent [OF this, of AP] AcRelease this show ?thesis by (auto simp: PaxosAcceptRelease_def)
qed (use assms in simp_all)

lemma app_call_silent:
  assumes a: "a_pFd (acc A p) = None" and f: "\<And>c. c \<in> set (snd (f (c_Sfx A) m)) \<Longrightarrow> on_own c"
  shows "\<exists>A'. app_call AP f x p m A = Some (fst (f (c_Sfx A) m), A') \<and> a_pFd (acc A' p) = None"
proof -
  have "\<exists>A'. for_each (do_appcall AP p) (snd (f (c_Sfx A) m)) (sfx_emit x A) = Some A' \<and> a_pFd (acc A' p) = None"
    by (rule for_each_total) (use f appcall_silent a in \<open>auto simp: sfx_emit_def\<close>)
  then show ?thesis by (auto simp: app_call_def split: prod.split)
qed

lemma put_silent:
  assumes ok: "sessions_ok A" and at: "session_at A k = Some p" and cnt: "0 < elm_cnt (c_Accept A) p"
  shows "\<exists>r A'. PaxosAcceptPut E p A = Some (r, A')"
proof -
  have lnk: "p \<in> set (ge_Lnk (c_Accept A))" using at sessions.found_iff [OF ok] by (simp add: sessions.bound_to_def)
  obtain u k' e' where u: "ge_fUnset (AcceptIF E) True (acc A p) = (u, k', e')" by (metis prod_cases3)
  have "u \<noteq> 0 \<longrightarrow> e' = acc A p" using u by (simp add: AcceptIF_def AcceptUnset_def split: if_splits)
  from sessions.put_laws [OF ok lnk cnt u this, of True] show ?thesis by (auto simp: PaxosAcceptPut_def)
qed

lemma end_silent:
  assumes ok: "sessions_ok A" and at: "session_at A k = Some p" and cnt: "0 < elm_cnt (c_Accept A) p"
    and start: "a_Start (acc A p) = i_Seq c"
  shows "\<exists>A'. execute_end E p c (True, A) = Some A'"
proof -
  have "sessions_ok (set_acc p (\<lambda>a. a\<lparr>a_End := i_Seq c\<rparr>) A)"
    using ok by (simp add: sessions_ok_set_acc session_key.cmp_refl)
  from put_silent [OF this, of k p E] at cnt show ?thesis
    by (auto simp: execute_end_def PaxosAcceptedEnd_def start ASSERT_def)
qed

text \<open>A request whose time has come, once the session is held.\<close>

lemma garbage_accept: "c_Accept (outofband_garbage E b qs A) = c_Accept A"
  by (induction qs arbitrary: A) (auto simp: OutOfBandRemove_def Let_def set_out_def sfx_emit_def split: prod.splits option.splits)

lemma admitted_data_silent:
  assumes ok: "sessions_ok A" and at: "session_at A k = Some p" and cnt: "0 < elm_cnt (c_Accept A) p"
    and op: "is_open A p" and fd: "a_pFd (acc A p) = None" and own: "HashSessionCompare (h_Id m) k = 0"
    and d: "is_data (h_Cmd m)" and nw: "is_new A p m"
    and pages: "e_Validate e \<longrightarrow> CMP (e_BackSeq e) (e_Seq e) \<le> 0"
    and calls: "\<And>tr c. c \<in> set (snd (if_fAccepted AP tr m)) \<Longrightarrow> on_own c"
  shows "\<exists>A'. execute_admitted E AP [] p e m A = Some (Goes A') \<and> a_pFd (acc A' p) = None"
proof -
  have new: "CMP (i_Seq (h_Id m)) (a_Reply (acc A p)) > 0" "CMP (i_SeqWait (h_Id m)) (a_End (acc A p)) \<le> 0"
    "\<not> (a_Start (acc A p) = i_Seq (h_Id m) \<and> a_Cmd (acc A p) = Some (h_Cmd m))"
    using nw by (simp_all add: is_new_def)
  have "a_Reply (acc A p) \<noteq> i_Seq (h_Id m)" using new(1) by auto
  moreover have "h_Cmd m \<noteq> PAXOS_SESSION_OPEN" using d by (auto simp: is_data_def)
  ultimately have acc0: "PaxosAcceptIsAccepted AP [] p m A = Some (Goes (0, A))"
    using new by (simp add: PaxosAcceptIsAccepted_def is_reuse_def IsAccepted_check_def Let_def)
  define B where "B = set_acc p (ACCEPTED_SEQ m) A"
  have B: "sessions_ok B" "session_at B k = Some p" "is_open B p" "a_pFd (acc B p) = None" "a_Start (acc B p) = i_Seq (h_Id m)"
    "0 < elm_cnt (c_Accept B) p"
    using ok at op fd cnt by (simp_all add: B_def is_open_def acc_set_acc sessions_ok_set_acc ACCEPTED_SEQ_def HashSessionCompare_def)
  have "\<exists>C. execute_garbage E e B = Some C" using pages by (auto simp: execute_garbage_def ASSERT_def)
  then obtain C where C: "execute_garbage E e B = Some C" ..
  have same: "acc C p = acc B p"
    using C by (auto simp: execute_garbage_def bind_eq_Some_conv garbage_accept split: if_splits)
  obtain D where D: "app_call AP (if_fAccepted AP) (SxAccepted m) p m C = Some (fst (if_fAccepted AP (c_Sfx C) m), D)"
    "a_pFd (acc D p) = None"
    using app_call_silent [of C p "if_fAccepted AP" m AP "SxAccepted m"] same B(4) calls by auto
  have cmdB: "execute_command E AP p e m B = Some (True, D)"
    using C D(1) same B(3) by (simp add: execute_data [OF d] is_open_def ASSERT_def)
  note dc = data_command [OF cmdB d B(1) own]
  have at: "session_at D k = Some p" using dc(4) B(2) by simp
  obtain A' where A': "execute_end E p (h_Id m) (True, D) = Some A'"
    using end_silent [OF dc(3) at, of "h_Id m" E] dc(5,7) B by (auto simp: same_session_def)
  from end_open_session [OF A' dc(3) at same_session_open [OF dc(5) B(3)]] D(2)
  have "a_pFd (acc A' p) = None" by simp
  then show ?thesis using acc0 new(2) cmdB A' by (simp add: execute_admitted_def B_def)
qed

lemma get_held:
  assumes ok: "sessions_ok A" and at: "session_at A k = Some p" and own: "HashSessionCompare c k = 0"
  shows "\<exists>A1. PaxosAcceptGet E c b A = Some (Goes (Some p, A1)) \<and> 0 < elm_cnt (c_Accept A1) p"
proof -
  have s: "session_at A c = Some p" using sessions.found_same [OF ok own] at by simp
  obtain g' where "GElmGet (AcceptIF E) [] c b True (c_Accept A) = Some (GGot (Some p) g')"
    "ge_Elm g' = (ge_Elm (c_Accept A))(p := (ge_Elm (c_Accept A) p)\<lparr>e_Cnt := elm_cnt (c_Accept A) p + 1\<rparr>)"
    using sessions.get_hit [OF ok s, of E "[]" b True] by blast
  moreover have "0 \<le> elm_cnt (c_Accept A) p"
    using sessions.ok_parts(4) [OF ok, of p] at sessions.found_iff [OF ok] by (simp add: sessions.bound_to_def)
  ultimately show ?thesis by (simp add: PaxosAcceptGet_def)
qed

lemma data_silent:
  assumes noti: "e_Notify e = PAXOS_ACCEPTED" and m_def: "m = ap_parse AP (e_Cmd e)"
    and ok: "sessions_ok A" and at: "session_at A k = Some p"
    and op: "is_open A p" and fd: "a_pFd (acc A p) = None" and own: "HashSessionCompare (h_Id m) k = 0"
    and d: "is_data (h_Cmd m)" and nw: "is_new A p m"
    and pages: "e_Validate e \<longrightarrow> CMP (e_BackSeq e) (e_Seq e) \<le> 0"
    and calls: "\<And>tr c. c \<in> set (snd (if_fAccepted AP tr m)) \<Longrightarrow> on_own c"
  shows "\<exists>A'. execute_one E AP [] e A = Some (Goes A') \<and> a_pFd (acc A' p) = None"
proof -
  have cmd: "h_Cmd m \<noteq> PAXOS_SESSION_OPEN" "h_Cmd m \<noteq> PAXOS_SESSION_ABORT" using d by (auto simp: is_data_def)
  obtain A1 where A1: "PaxosAcceptGet E (h_Id m) False A = Some (Goes (Some p, A1))" "0 < elm_cnt (c_Accept A1) p"
    using get_held [OF ok at own] by blast
  note g = get_open_session [OF A1(1) ok at op own]
  have "is_new A1 p m" using g nw by (simp add: is_new_def)
  then obtain A' where "execute_admitted E AP [] p e m A1 = Some (Goes A')" "a_pFd (acc A' p) = None"
    using admitted_data_silent [of A1 k p m e AP E] g A1(2) own d fd pages calls by auto
  then show ?thesis using A1 cmd noti by (simp add: execute_one_def ASSERT_def m_def)
qed

lemma get_new_held:
  assumes ok: "sessions_ok A" and none: "session_at A c = None" and room: "ge_Cnt (c_Accept A) < ge_MaxCnt (c_Accept A)"
  shows "\<exists>p A1. PaxosAcceptGet E c True A = Some (Goes (Some p, A1)) \<and> elm_cnt (c_Accept A1) p = 1 \<and>
    ge_MaxCnt (c_Accept A1) = ge_MaxCnt (c_Accept A) \<and> ge_Cnt (c_Accept A1) = ge_Cnt (c_Accept A) + 1"
proof -
  have set: "ge_fSet (AcceptIF E) c True (ge_fAlloc (AcceptIF E)) = (0, c, (AcceptAlloc E)\<lparr>a_Id := c\<rparr>)"
    by (simp add: AcceptIF_def AcceptSet_def)
  define p where "p = ge_Next (c_Accept A)"
  obtain g' where "GElmGet (AcceptIF E) [] c True True (c_Accept A) = Some (GGot (Some p) g')"
    "ge_Elm g' = (ge_Elm (c_Accept A))(p := \<lparr>e_Cnt = 1, e_Obj = (AcceptAlloc E)\<lparr>a_Id := c\<rparr>\<rparr>)"
    "ge_MaxCnt g' = ge_MaxCnt (c_Accept A)" "ge_Cnt g' = ge_Cnt (c_Accept A) + 1"
    using sessions.get_new [OF ok none _ set, of "[]"] room unfolding p_def by auto
  then show ?thesis by (auto simp: PaxosAcceptGet_def)
qed

lemma a_pFd_set_opened: "a_pFd (acc (set_acc p (\<lambda>a. a\<lparr>a_Opened := x\<rparr>) A) p) = a_pFd (acc A p)"
  by (simp add: acc_set_acc)

lemma open_silent:
  assumes noti: "e_Notify e = PAXOS_ACCEPTED" and m_def: "m = ap_parse AP (e_Cmd e)"
    and cmd: "h_Cmd m = PAXOS_SESSION_OPEN" and ok: "sessions_ok A" and none: "session_at A (h_Id m) = None"
    and room: "ge_Cnt (c_Accept A) < ge_MaxCnt (c_Accept A)"
    and seq: "CMP (i_Seq (h_Id m)) 0 > 0" "CMP (i_SeqWait (h_Id m)) 0 \<le> 0"
    and zero: "\<And>tr. fst (if_fSessionOpen AP tr m) = 0"
    and calls: "\<And>tr c. c \<in> set (snd (if_fSessionOpen AP tr m)) \<Longrightarrow> on_own c"
  shows "\<exists>A' p. execute_one E AP [] e A = Some (Goes A') \<and> session_at A' (h_Id m) = Some p \<and> a_pFd (acc A' p) = None"
proof -
  obtain p A1 where A1: "PaxosAcceptGet E (h_Id m) True A = Some (Goes (Some p, A1))" "elm_cnt (c_Accept A1) p = 1"
    using get_new_held [OF ok none room] by blast
  have g: "sessions_ok A1" "session_at A1 (h_Id m) = Some p" "acc A1 p = (AcceptAlloc E)\<lparr>a_Id := h_Id m\<rparr>"
    using get_new_session [OF A1(1) ok none room] by auto
  have "i_Seq (h_Id m) \<noteq> 0" using seq(1) by auto
  then have acc0: "PaxosAcceptIsAccepted AP [] p m A1 = Some (Goes (0, A1))"
    using seq(1) by (simp add: PaxosAcceptIsAccepted_def is_reuse_def IsAccepted_check_def Let_def g AcceptAlloc_def)
  define B where "B = set_acc p (ACCEPTED_SEQ m) A1"
  have B: "sessions_ok B" "session_at B (h_Id m) = Some p" "a_pFd (acc B p) = None" "a_Start (acc B p) = i_Seq (h_Id m)"
    "elm_cnt (c_Accept B) p = 1"
    using g A1 by (simp_all add: B_def acc_set_acc sessions_ok_set_acc ACCEPTED_SEQ_def HashSessionCompare_def AcceptAlloc_def)
  obtain C where C: "app_call AP (if_fSessionOpen AP) (SxOpen m) p m B = Some (0, C)" "a_pFd (acc C p) = None"
    using app_call_silent [of B p "if_fSessionOpen AP" m AP "SxOpen m"] B(3) calls zero by auto
  obtain r D where D: "PaxosAcceptOpenReplyByMsg AP p 0 (set_acc p (\<lambda>a. a\<lparr>a_Opened := ACCEPT_OPENED\<rparr>) C) = Some (r, D)"
    "a_pFd (acc D p) = None"
    unfolding PaxosAcceptOpenReplyByMsg_def using ReplyByMsg_silent C(2) by (metis a_pFd_set_opened)
  have op: "execute_open E AP p m B = Some D" using C D by (simp add: execute_open_def ASSERT_def)
  have ok: "sessions_ok D" "session_at D (h_Id m) = Some p" "is_open D p" "a_Start (acc D p) = i_Seq (h_Id m)"
    using execute_open_session [OF op B(1), of "h_Id m"] B by simp_all
  have "0 < elm_cnt (c_Accept D) p" using keeps_execute_open [OF op, of "h_Id m" "{}"] B(5) by (simp add: session_holds_def)
  then obtain A' where A': "execute_end E p (h_Id m) (True, D) = Some A'" using end_silent [OF ok(1,2)] ok(4) by blast
  have "session_at A' (h_Id m) = Some p \<and> a_pFd (acc A' p) = None" using end_open_session [OF A' ok(1-3)] D(2) by simp
  then show ?thesis using acc0 op A1 cmd noti seq(2) A'
    by (simp add: execute_one_def ASSERT_def execute_admitted_def execute_command_def g AcceptAlloc_def flip: m_def B_def)
qed

text \<open>The request started last, executed again, comes to an end.\<close>

lemma repeat_silent:
  assumes noti: "e_Notify e = PAXOS_ACCEPTED" and m_def: "m = ap_parse AP (e_Cmd e)"
    and ok: "sessions_ok A" and at: "session_at A k = Some p"
    and op: "is_open A p" and fd: "a_pFd (acc A p) = None" and own: "HashSessionCompare (h_Id m) k = 0"
    and d: "is_data (h_Cmd m)" and last: "a_Start (acc A p) = i_Seq (h_Id m)" "a_Cmd (acc A p) = Some (h_Cmd m)"
  shows "\<exists>A'. execute_one E AP [] e A = Some (Goes A')"
proof -
  have cmd: "h_Cmd m \<noteq> PAXOS_SESSION_OPEN" "h_Cmd m \<noteq> PAXOS_SESSION_ABORT" using d by (auto simp: is_data_def)
  obtain A1 where A1: "PaxosAcceptGet E (h_Id m) False A = Some (Goes (Some p, A1))" "0 < elm_cnt (c_Accept A1) p"
    using get_held [OF ok at own] by blast
  note g = get_open_session [OF A1(1) ok at op own]
  obtain r A2 where c: "IsAccepted_check AP p m A1 = Some (r, A2)" "r \<noteq> 0"
  proof -
    obtain n where "PaxosAcceptRelease1 AP p A1 = Some (n, A1)" using Release1_silent [of A1 p AP] g fd by auto
    then have "\<exists>r A2. IsAccepted_check AP p m A1 = Some (r, A2) \<and> r \<noteq> 0"
      using g last by (simp add: IsAccepted_check_def PaxosAcceptReplyByMsg1_def Let_def)
    then show thesis using that by blast
  qed
  have h: "session_holds k {} A1 A2" by (rule keeps_IsAccepted_check [OF c(1)])
  obtain n A' where "PaxosAcceptPut E p A2 = Some (n, A')"
    using put_silent [of A2 k p E] h g A1(2) by (auto simp: session_holds_def)
  then have "execute_admitted E AP [] p e m A1 = Some (Goes A')"
    using c cmd(1) by (simp add: execute_admitted_def PaxosAcceptIsAccepted_def is_reuse_def)
  then show ?thesis using A1 cmd noti by (simp add: execute_one_def ASSERT_def m_def)
qed

section \<open>A replica executes what was decided\<close>

text \<open>The application makes calls on the session of the request only.\<close>

definition keeps_to_itself :: "app \<Rightarrow> PaxosSessionHead_t \<Rightarrow> bool" where
  "keeps_to_itself AP m \<longleftrightarrow> (\<forall>tr. \<forall>c \<in> set (snd (if_fAccepted AP tr m)). on_own c)"

text \<open>An application that serves: it opens sessions, answers, and raises no event of another session.\<close>

definition obliging :: "app \<Rightarrow> bool" where
  "obliging AP \<longleftrightarrow> answers AP \<and> (\<forall>tr m. fst (if_fSessionOpen AP tr m) = 0 \<and>
     (\<forall>c \<in> set (snd (if_fSessionOpen AP tr m)). on_own c) \<and> (\<forall>c \<in> set (snd (if_fAccepted AP tr m)). on_own c))"

definition entry_ok :: "PaxosExecute_t \<Rightarrow> bool" where
  "entry_ok e \<longleftrightarrow> e_Notify e = PAXOS_ACCEPTED \<and> (e_Validate e \<longrightarrow> CMP (e_BackSeq e) (e_Seq e) \<le> 0)"

text \<open>
  A session without a connection after its request \<open>q\<close>, which has ended and, for \<open>done_to\<close>, was
  answered.
\<close>

definition ended_at :: "PaxosClientId_t \<Rightarrow> nat \<Rightarrow> u32 \<Rightarrow> PaxosAcceptor_t \<Rightarrow> bool" where
  "ended_at k p q A \<longleftrightarrow> sessions_ok A \<and> session_at A k = Some p \<and> is_open A p \<and> a_pFd (acc A p) = None \<and>
     a_Start (acc A p) = q \<and> a_End (acc A p) = q"

text \<open>The requests of a client after its number \<open>q\<close>, each after the one before it.\<close>

fun follow :: "app \<Rightarrow> PaxosClientId_t \<Rightarrow> u32 \<Rightarrow> (env \<times> PaxosExecute_t) list \<Rightarrow> bool" where
  "follow AP k q [] = True"
| "follow AP k q ((E, e) # es) = (let m = ap_parse AP (e_Cmd e) in
     entry_ok e \<and> HashSessionCompare (h_Id m) k = 0 \<and> is_data (h_Cmd m) \<and> CMP (i_Seq (h_Id m)) q > 0 \<and>
     CMP (i_SeqWait (h_Id m)) q \<le> 0 \<and> follow AP k (i_Seq (h_Id m)) es)"

definition numbers :: "app \<Rightarrow> (env \<times> PaxosExecute_t) list \<Rightarrow> u32 list" where
  "numbers AP es = map (\<lambda>(E, e). i_Seq (h_Id (ap_parse AP (e_Cmd e)))) es"

definition done_to :: "PaxosClientId_t \<Rightarrow> nat \<Rightarrow> u32 \<Rightarrow> PaxosAcceptor_t \<Rightarrow> bool" where
  "done_to k p q A \<longleftrightarrow> sessions_ok A \<and> session_at A k = Some p \<and> is_open A p \<and> a_pFd (acc A p) = None \<and>
     a_Start (acc A p) = q \<and> a_End (acc A p) = q \<and> a_Reply (acc A p) = q"

lemma done_ended: "done_to k p q A \<longleftrightarrow> ended_at k p q A \<and> a_Reply (acc A p) = q"
  by (auto simp: done_to_def ended_at_def)

lemma replica_request:
  assumes e: "entry_ok e" and m_def: "m = ap_parse AP (e_Cmd e)" and own: "HashSessionCompare (h_Id m) k = 0"
    and d: "is_data (h_Cmd m)" and seq: "CMP (i_Seq (h_Id m)) (a_Reply (acc A p)) > 0" "i_Seq (h_Id m) \<noteq> q"
    and wait: "CMP (i_SeqWait (h_Id m)) q \<le> 0"
    and A: "ended_at k p q A" and AP: "keeps_to_itself AP m"
  shows "\<exists>B. execute_one E AP [] e A = Some (Goes B) \<and> ended_at k p (i_Seq (h_Id m)) B \<and>
    delivered k B = delivered k A @ [i_Seq (h_Id m)] \<and> a_Reply (acc B p) \<in> {a_Reply (acc A p), i_Seq (h_Id m)} \<and>
    (answers_at AP m \<longrightarrow> a_Reply (acc B p) = i_Seq (h_Id m))"
proof -
  have s: "sessions_ok A" "session_at A k = Some p" "is_open A p" "a_pFd (acc A p) = None"
    using A by (simp_all add: ended_at_def)
  have nw: "is_new A p m" using seq wait A by (auto simp: is_new_def ended_at_def)
  have noti: "e_Notify e = PAXOS_ACCEPTED" "e_Validate e \<longrightarrow> CMP (e_BackSeq e) (e_Seq e) \<le> 0"
    using e by (simp_all add: entry_ok_def)
  have calls: "on_own c" if "c \<in> set (snd (if_fAccepted AP tr m))" for tr c
    using AP that by (auto simp: keeps_to_itself_def)
  obtain B where B: "execute_one E AP [] e A = Some (Goes B)" "a_pFd (acc B p) = None"
    using data_silent [OF noti(1) m_def s own d nw noti(2)] calls by blast
  from data_request [OF B(1) m_def s(1-3) own d] nw B show ?thesis by (auto simp: ended_at_def)
qed

abbreviation execute_all :: "app \<Rightarrow> (env \<times> PaxosExecute_t) list \<Rightarrow> PaxosAcceptor_t \<Rightarrow> PaxosAcceptor_t option" where
  "execute_all AP \<equiv> for_each (\<lambda>(E, e). session_step AP (Executes E e))"

lemma execute_all_steps: "execute_all AP es = for_each (session_step AP) (map (\<lambda>(E, e). Executes E e) es)"
  by (induction es) (auto simp: split_def intro!: ext)

lemma replica_data:
  assumes "follow AP k q es" and "obliging AP" and "done_to k p q A"
  shows "\<exists>A'. execute_all AP es A = Some A' \<and> done_to k p (last (q # numbers AP es)) A' \<and>
    delivered k A' = delivered k A @ numbers AP es"
  using assms
proof (induction es arbitrary: q A)
  case Nil
  then show ?case by (simp add: numbers_def)
next
  case (Cons x es)
  obtain E e where x: "x = (E, e)" by (cases x)
  define m where "m = ap_parse AP (e_Cmd e)"
  have f: "entry_ok e" "HashSessionCompare (h_Id m) k = 0" "is_data (h_Cmd m)" "CMP (i_Seq (h_Id m)) q > 0"
    "CMP (i_SeqWait (h_Id m)) q \<le> 0" "follow AP k (i_Seq (h_Id m)) es"
    using Cons.prems(1) by (simp_all add: x Let_def flip: m_def)
  have "i_Seq (h_Id m) \<noteq> q" using f(4) by auto
  moreover have "ended_at k p q A" "a_Reply (acc A p) = q" using Cons.prems(3) by (simp_all add: done_ended)
  moreover have "keeps_to_itself AP m" "answers_at AP m"
    using Cons.prems(2) by (simp_all add: obliging_def keeps_to_itself_def answers_def)
  ultimately obtain B where B: "execute_one E AP [] e A = Some (Goes B)"
    and 1: "done_to k p (i_Seq (h_Id m)) B" "delivered k B = delivered k A @ [i_Seq (h_Id m)]"
    using replica_request [OF f(1) m_def f(2,3) _ _ f(5), of A p E] f(4) by (auto simp: done_ended)
  from Cons.IH [OF f(6) Cons.prems(2) 1(1)] 1(2) B
  show ?case by (auto simp: x numbers_def went_def m_def)
qed

lemma replica_run:
  assumes ob: "obliging AP" and e: "entry_ok e" and m_def: "m = ap_parse AP (e_Cmd e)" and cmd: "h_Cmd m = PAXOS_SESSION_OPEN"
    and ok: "sessions_ok A" and none: "session_at A (h_Id m) = None" and room: "ge_Cnt (c_Accept A) < ge_MaxCnt (c_Accept A)"
    and seq: "CMP (i_Seq (h_Id m)) 0 > 0" "CMP (i_SeqWait (h_Id m)) 0 \<le> 0" and es: "follow AP (h_Id m) (i_Seq (h_Id m)) es"
  shows "\<exists>A' p. execute_all AP ((E, e) # es) A = Some A' \<and>
    done_to (h_Id m) p (last (i_Seq (h_Id m) # numbers AP es)) A' \<and>
    delivered (h_Id m) A' = delivered (h_Id m) A @ numbers AP es"
proof -
  have noti: "e_Notify e = PAXOS_ACCEPTED" using e by (simp add: entry_ok_def)
  have opens: "\<And>tr. fst (if_fSessionOpen AP tr m) = 0" "\<And>tr c. c \<in> set (snd (if_fSessionOpen AP tr m)) \<Longrightarrow> on_own c"
    using ob by (simp_all add: obliging_def)
  obtain B p where B: "execute_one E AP [] e A = Some (Goes B)" "session_at B (h_Id m) = Some p" "a_pFd (acc B p) = None"
    using open_silent [OF noti m_def cmd ok none room seq opens(1)] opens(2) by blast
  from open_request [OF B(1) m_def cmd ok none room seq] B(2,3)
  have 1: "done_to (h_Id m) p (i_Seq (h_Id m)) B" "delivered (h_Id m) B = delivered (h_Id m) A"
    by (auto simp: done_to_def)
  from replica_data [OF es ob 1(1)] 1(2) B(1) show ?thesis by (auto simp: went_def)
qed

end
