(* ===== verification/Session_Restore.thy ===== *)
theory Session_Restore
  imports Session_Replica
begin

text \<open>
  A snapshot of the sessions read into an acceptor that has none of them: every session is there
  again with its numbers, its replies and its events, but without a connection.
\<close>

definition restored :: "env \<Rightarrow> PaxosAccept_t \<Rightarrow> PaxosAccept_t" where
  "restored E a = a\<lparr>a_Cnt := 0, a_Create := time0 E, a_pFd := None\<rparr>"

text \<open>What the reader finds out of the session itself agrees with what was written beside it.\<close>

definition counts_fit :: "PaxosAccept_t \<Rightarrow> bool" where
  "counts_fit a \<longleftrightarrow> r_Cnt a = int (length (r_Msg a)) \<and> (0 < ev_Cnt a \<longleftrightarrow> ev_pRaised a \<noteq> None)"

text \<open>
  A new session agrees, and every operation on replies and events keeps the agreement of all sessions;
  the reset of a session that is used again, with replies kept, breaks it.
\<close>

definition counted :: "PaxosAcceptor_t \<Rightarrow> bool" where
  "counted A \<longleftrightarrow> (\<forall>q. counts_fit (acc A q) \<and> 0 \<le> ev_Cnt (acc A q))"

lemma counted_set_acc:
  "counted A \<Longrightarrow> counts_fit (f (acc A p)) \<Longrightarrow> 0 \<le> ev_Cnt (f (acc A p)) \<Longrightarrow> counted (set_acc p f A)"
  by (simp add: counted_def acc_set_acc)

text \<open>What a reply does to a session: its replies stay counted and its events untouched.\<close>

definition replies_step :: "PaxosAcceptor_t \<Rightarrow> PaxosAcceptor_t \<Rightarrow> bool" where
  "replies_step A A' \<longleftrightarrow> (\<forall>q. (r_Cnt (acc A q) = int (length (r_Msg (acc A q))) \<longrightarrow> r_Cnt (acc A' q) = int (length (r_Msg (acc A' q))))
     \<and> ev_Cnt (acc A' q) = ev_Cnt (acc A q) \<and> ev_pRaised (acc A' q) = ev_pRaised (acc A q))"

interpretation replying: evolution replies_step
  by unfold_locales (simp_all add: replies_step_def)

lemma replies_set_acc:
  assumes "r_Cnt (acc A p) = int (length (r_Msg (acc A p))) \<Longrightarrow> r_Cnt (f (acc A p)) = int (length (r_Msg (f (acc A p))))"
    and "ev_Cnt (f (acc A p)) = ev_Cnt (acc A p)" and "ev_pRaised (f (acc A p)) = ev_pRaised (acc A p)"
  shows "replies_step A (set_acc p f A)"
  using assms by (simp add: replies_step_def acc_set_acc)

lemma replies_counted: "replies_step A A' \<Longrightarrow> counted A \<Longrightarrow> counted A'"
  by (simp add: replies_step_def counted_def counts_fit_def)

lemma replies_Release1:
  assumes "PaxosAcceptRelease1 AP p A = Some (r, A')"
  shows "replies_step A A'"
proof -
  have send: "replies_step A A''"
    if "SendStream AP fd ms (set_acc p (\<lambda>a. a\<lparr>r_Msg := x # xs\<rparr>) A) = (r, A'')" "r_Msg (acc A p) = y # xs" for A'' fd ms x y xs
  proof -
    have "replies_step A (set_acc p (\<lambda>a. a\<lparr>r_Msg := x # xs\<rparr>) A)" by (rule replies_set_acc) (simp_all add: that(2))
    moreover have "c_Accept A'' = c_Accept (set_acc p (\<lambda>a. a\<lparr>r_Msg := x # xs\<rparr>) A)"
      using that(1) by (auto simp: SendStream_def sfx_emit_def)
    ultimately show ?thesis by (simp add: replies_step_def)
  qed
  show ?thesis
  proof (cases "r_Hold (acc A p) \<or> a_pFd (acc A p) = None \<or> \<not> c_Enabled A \<or> a_Master (acc A p) \<and> \<not> PaxosIsIamMaster (c_pPaxos A)")
    case True
    then have "A' = A" using assms by (auto simp: PaxosAcceptRelease1_def Let_def split: option.splits if_splits)
    then show ?thesis by (simp add: replying.refl)
  next
    case False
    then obtain fd m ms msgs where "a_pFd (acc A p) = Some fd" "r_Msg (acc A p) = (m # ms) # msgs"
      using assms by (auto simp: PaxosAcceptRelease1_def Let_def split: list.splits)
    with False show ?thesis using assms send [of _ _ _ msgs A' "m # ms"]
      by (auto simp: PaxosAcceptRelease1_def Let_def bind_eq_Some_conv)
  qed
qed

lemma replies_ReplyByMsg1:
  assumes "PaxosAcceptReplyByMsg1 AP p m A = Some (r, A')"
  shows "replies_step A A'"
proof (cases m)
  case None
  then show ?thesis using assms replies_Release1 by (simp add: PaxosAcceptReplyByMsg1_def)
next
  case (Some ms)
  define A1 where "A1 = set_acc p (\<lambda>a. a\<lparr>a_Reply := a_Start a\<rparr>) A"
  define A2 where "A2 = (if \<not> r_Hold (acc A1 p) then PaxosAcceptFreeReply p A1 else A1)"
  define A3 where "A3 = set_acc p (\<lambda>a. a\<lparr>r_Msg := r_Msg a @ [ms], r_Cnt := r_Cnt a + 1\<rparr>) A2"
  have "replies_step A A1" unfolding A1_def by (rule replies_set_acc) simp_all
  moreover have "replies_step A1 A2" unfolding A2_def PaxosAcceptFreeReply_def
    by (auto simp: replying.refl intro: replies_set_acc)
  moreover have "replies_step A2 A3" unfolding A3_def by (rule replies_set_acc) simp_all
  moreover have "replies_step A3 A'" using assms replies_Release1
    by (auto simp: PaxosAcceptReplyByMsg1_def Some Let_def replying.refl simp flip: A1_def A2_def A3_def split: if_splits)
  ultimately show ?thesis by (blast intro: replying.trans)
qed

lemma counted_ReplyByMsg: "PaxosAcceptReplyByMsg AP p b ms A = Some (r, A') \<Longrightarrow> counted A \<Longrightarrow> counted A'"
  unfolding PaxosAcceptReplyByMsg_def
  by (rule replies_counted [OF replying.trans [OF replies_set_acc replies_ReplyByMsg1]]) simp_all

text \<open>After the events of a session were changed around a reply.\<close>

lemma counted_around:
  assumes c: "counted A" and r: "replies_step (set_acc p f A) B"
    and f: "r_Cnt (f (acc A p)) = r_Cnt (acc A p)" "r_Msg (f (acc A p)) = r_Msg (acc A p)" "ev_Cnt (f (acc A p)) = 0"
    and g: "\<And>a. r_Cnt (g a) = r_Cnt a \<and> r_Msg (g a) = r_Msg a \<and> ev_Cnt (g a) = ev_Cnt a \<and> ev_pRaised (g a) = None"
  shows "counted (set_acc p g B)"
proof -
  have "counts_fit (acc B q) \<and> 0 \<le> ev_Cnt (acc B q)" if "q \<noteq> p" for q
    using r [unfolded replies_step_def, rule_format, of q] c that by (simp add: acc_set_acc counted_def counts_fit_def)
  moreover have "r_Cnt (acc B p) = int (length (r_Msg (acc B p))) \<and> ev_Cnt (acc B p) = 0"
    using r [unfolded replies_step_def, rule_format, of p] c f by (simp add: acc_set_acc counted_def counts_fit_def)
  ultimately show ?thesis using g by (auto simp: counted_def acc_set_acc counts_fit_def)
qed

lemma counted_EventRaise:
  assumes "PaxosAcceptEventRaise AP p m A = Some (r, A')" and c: "counted A"
  shows "counted A'"
proof -
  define raised where "raised = (case ev_pRaised (acc A p) of Some ms \<Rightarrow> ms | None \<Rightarrow> [])"
  define A1 where "A1 = set_acc p (\<lambda>a. a\<lparr>ev_pRaised := Some raised\<rparr>) A"
  show ?thesis
  proof (cases "ev_Send (acc A1 p)")
    case False
    define f :: "PaxosAccept_t \<Rightarrow> PaxosAccept_t" where "f = (\<lambda>a. if ev_Cnt a < EVENT_MAX
        then a\<lparr>ev_pRaised := Some (raised @ [m]), ev_Cnt := ev_Cnt a + 1\<rparr>
        else a\<lparr>ev_Omitted := ev_Omitted a + 1\<rparr>)"
    have "A' = set_acc p f A1"
      using assms(1) False by (simp add: PaxosAcceptEventRaise_def Let_def f_def flip: raised_def A1_def)
    also have "\<dots> = set_acc p (\<lambda>a. f (a\<lparr>ev_pRaised := Some raised\<rparr>)) A"
      by (simp add: A1_def set_acc_def set_elm_def)
    finally have A': "A' = set_acc p (\<lambda>a. f (a\<lparr>ev_pRaised := Some raised\<rparr>)) A" .
    show ?thesis unfolding A'
      by (rule counted_set_acc [OF c]) (use c in \<open>auto simp: counted_def f_def counts_fit_def\<close>)
  next
    case True
    then obtain B ms where B: "PaxosAcceptReplyByMsg1 AP p (Some ms) A1 = Some (r, B)" and zero: "ev_Cnt (acc A1 p) = 0"
      and A': "A' = set_acc p (\<lambda>a. a\<lparr>ev_pRaised := None, ev_Send := False\<rparr>) B"
      using assms(1) by (auto simp: PaxosAcceptEventRaise_def Let_def bind_eq_Some_conv ASSERT_def
          simp flip: raised_def A1_def split: if_splits)
    show ?thesis unfolding A'
      by (rule counted_around [OF c replies_ReplyByMsg1 [OF B, unfolded A1_def]])
        (use zero in \<open>simp_all add: A1_def acc_set_acc\<close>)
  qed
qed

lemma counted_EventGet:
  assumes "PaxosAcceptEventGet AP p A = Some (r, A')" and c: "counted A"
  shows "counted A'"
proof (cases "ev_Cnt (acc A p) > 0")
  case False
  then have A': "A' = set_acc p (\<lambda>a. a\<lparr>ev_Send := True\<rparr>) A" using assms(1) by (simp add: PaxosAcceptEventGet_def Let_def)
  show ?thesis unfolding A' by (rule counted_set_acc [OF c]) (use c in \<open>simp_all add: counted_def counts_fit_def\<close>)
next
  case True
  then obtain B ms where B: "PaxosAcceptReplyByMsg1 AP p (Some ms) (set_acc p (\<lambda>a. a\<lparr>ev_Cnt := 0, ev_Omitted := 0\<rparr>) A) = Some (r, B)"
    and A': "A' = set_acc p (\<lambda>a. a\<lparr>ev_pRaised := None\<rparr>) B"
    using assms(1) by (auto simp: PaxosAcceptEventGet_def Let_def bind_eq_Some_conv split: option.splits)
  show ?thesis unfolding A' by (rule counted_around [OF c replies_ReplyByMsg1 [OF B]]) simp_all
qed

lemma counted_appcall:
  assumes "do_appcall AP p x A = Some A'" and c: "counted A"
  shows "counted A'"
proof (cases x)
  case (AcReply b m)
  then show ?thesis using assms counted_ReplyByMsg by auto
next
  case AcHold
  then have A': "A' = set_acc p (\<lambda>a. a\<lparr>r_Msg := [], r_Cnt := 0, r_Hold := True\<rparr>) A"
    using assms(1) by (simp add: PaxosAcceptHold_def PaxosAcceptFreeReply_def set_acc_def set_elm_def)
  show ?thesis unfolding A' by (rule counted_set_acc [OF c]) (use c in \<open>simp_all add: counted_def counts_fit_def\<close>)
next
  case AcRelease
  have "replies_step A (set_acc p (\<lambda>a. a\<lparr>r_Hold := False\<rparr>) A)" by (rule replies_set_acc) simp_all
  then show ?thesis using assms AcRelease replying.trans replies_Release1 replies_counted by (fastforce simp: PaxosAcceptRelease_def)
next
  case (AcRaise q m)
  then show ?thesis using assms counted_EventRaise by auto
next
  case (AcReplyTo q b m)
  then show ?thesis using assms counted_ReplyByMsg by auto
qed

lemma AcceptAlloc_fits: "counts_fit ((AcceptAlloc E)\<lparr>a_Id := c\<rparr>)"
  by (simp add: counts_fit_def AcceptAlloc_def)

lemma reset_breaks_the_counts: "r_Msg a \<noteq> [] \<Longrightarrow> \<not> counts_fit (session_reset a)"
  by (simp add: counts_fit_def session_reset_def)

definition adaptor_fits :: "app \<Rightarrow> bool" where
  "adaptor_fits AP \<longleftrightarrow> (if_fAdaptorMarshal AP \<noteq> None) = if_fAdaptorUnmarshal AP"

definition in_snapshot :: "PaxosAccept_t \<Rightarrow> bool" where
  "in_snapshot a \<longleftrightarrow> a_Cmd a \<noteq> Some PAXOS_SESSION_CLOSE"

lemma read_msgs_map: "read_msgs (length ms) (map SioMsg ms @ pR) = Some (ms, pR)"
  by (induction ms) simp_all

lemma read_adaptor_io:
  "adaptor_fits AP \<Longrightarrow> \<exists>B'. read_adaptor AP a (adaptor_io AP a @ pR) B = Some (B', pR) \<and> c_Accept B' = c_Accept B"
  by (auto simp: read_adaptor_def adaptor_io_def adaptor_fits_def sfx_emit_def split: option.splits)

lemma read_one:
  assumes ok: "sessions_ok B" and none: "session_at B (a_Id a) = None"
    and room: "ge_Cnt (c_Accept B) < ge_MaxCnt (c_Accept B)" and fit: "counts_fit a" "adaptor_fits AP"
  shows "\<exists>B' q. read_session E AP a (map SioMsg (r_Msg a) @ raised_io a @ adaptor_io AP a @ pR) B = Some (Goes (B', pR))
    \<and> sessions_ok B' \<and> session_at B' = (\<lambda>k. if HashSessionCompare (a_Id a) k = 0 then Some q else session_at B k)
    \<and> acc B' q = restored E a \<and> (\<forall>k p. session_at B k = Some p \<longrightarrow> acc B' p = acc B p)
    \<and> ge_Cnt (c_Accept B') = ge_Cnt (c_Accept B) + 1 \<and> ge_MaxCnt (c_Accept B') = ge_MaxCnt (c_Accept B)"
proof -
  define q where "q = ge_Next (c_Accept B)"
  have set: "ge_fSet (AcceptIF E) (a_Id a) True (ge_fAlloc (AcceptIF E)) = (0, a_Id a, (AcceptAlloc E)\<lparr>a_Id := a_Id a\<rparr>)"
    by (simp add: AcceptIF_def AcceptSet_def)
  obtain g where g: "GElmGet (AcceptIF E) [] (a_Id a) True True (c_Accept B) = Some (GGot (Some q) g)"
    "sessions.ok g" "sessions.found g = (\<lambda>k. if HashSessionCompare (a_Id a) k = 0 then Some q else session_at B k)"
    "ge_Elm g = (ge_Elm (c_Accept B))(q := \<lparr>e_Cnt = 1, e_Obj = (AcceptAlloc E)\<lparr>a_Id := a_Id a\<rparr>\<rparr>)"
    "ge_MaxCnt g = ge_MaxCnt (c_Accept B)" "ge_Cnt g = ge_Cnt (c_Accept B) + 1"
    using sessions.get_new [OF ok none _ set, of "[]"] room unfolding q_def by auto
  define B1 where "B1 = B\<lparr>c_Accept := g\<rparr>"
  define B2 where "B2 = set_acc q (\<lambda>_. restored E a) B1"
  have get: "PaxosAcceptGet E (a_Id a) True B = Some (Goes (Some q, B1))" by (simp add: PaxosAcceptGet_def g(1) B1_def)
  have n: "nat (r_Cnt a) = length (r_Msg a)" using fit(1) by (simp add: counts_fit_def)
  have upd: "a\<lparr>a_Cnt := 0, a_Create := time0 E, a_pFd := None, ev_pRaised := x\<rparr> = restored E a" if "ev_pRaised a = x" for x
    using that by (cases a) (simp add: restored_def)
  obtain B' where B': "read_adaptor AP a (adaptor_io AP a @ pR) B2 = Some (B', pR)" "c_Accept B' = c_Accept B2"
    using read_adaptor_io [OF fit(2)] by blast
  have "read_session E AP a (map SioMsg (r_Msg a) @ raised_io a @ adaptor_io AP a @ pR) B = Some (Goes (B', pR))"
    using fit(1) by (cases "ev_pRaised a")
      (simp_all add: read_session_def get n read_msgs_map raised_io_def counts_fit_def upd B' flip: B2_def)
  moreover have "sessions_ok B2"
    unfolding B2_def using g(2) by (subst sessions_ok_set_acc) (simp_all add: B1_def g(4) restored_def session_key.cmp_refl)
  moreover have "p \<noteq> q" if "session_at B k = Some p" for k p
    using that sessions.found_iff [OF ok] sessions.ok_parts(4) [OF ok, of p] by (auto simp: sessions.bound_to_def q_def)
  then have "\<forall>k p. session_at B k = Some p \<longrightarrow> acc B2 p = acc B p" by (auto simp: B2_def B1_def acc_set_acc g(4))
  moreover have "acc B2 q = restored E a" by (simp add: B2_def acc_set_acc)
  moreover have "session_at B2 = (\<lambda>k. if HashSessionCompare (a_Id a) k = 0 then Some q else session_at B k)"
    by (simp add: B2_def B1_def g(3))
  moreover have "ge_Cnt (c_Accept B2) = ge_Cnt (c_Accept B) + 1" "ge_MaxCnt (c_Accept B2) = ge_MaxCnt (c_Accept B)"
    by (simp_all add: B2_def B1_def set_acc_def set_elm_def g(5,6))
  ultimately show ?thesis using B'(2) by (intro exI [of _ B'] exI [of _ q]) simp
qed

lemma session_io_in: "in_snapshot a \<Longrightarrow> session_io AP a = SioAccept a # map SioMsg (r_Msg a) @ raised_io a @ adaptor_io AP a"
  and session_io_out: "\<not> in_snapshot a \<Longrightarrow> session_io AP a = []"
  by (simp_all add: session_io_def in_snapshot_def)

text \<open>The sessions one after the other; no two of them have the same client.\<close>

abbreviation apart :: "PaxosAccept_t list \<Rightarrow> bool" where
  "apart \<equiv> sorted_wrt (\<lambda>a b. HashSessionCompare (a_Id a) (a_Id b) \<noteq> 0)"

lemma restore_list:
  assumes "sessions_ok B" and "\<And>a. a \<in> set as \<Longrightarrow> session_at B (a_Id a) = None \<and> counts_fit a \<and> in_snapshot a"
    and "apart as" and "ge_Cnt (c_Accept B) + int (length as) \<le> ge_MaxCnt (c_Accept B)" and "adaptor_fits AP"
    and "length as < n"
  shows "\<exists>B'. unmarshal_loop n E AP (concat (map (session_io AP) as)) B = Some (Goes B') \<and> sessions_ok B'
    \<and> (\<forall>k p. session_at B k = Some p \<longrightarrow> session_at B' k = Some p \<and> acc B' p = acc B p)
    \<and> (\<forall>a \<in> set as. \<exists>q. session_at B' (a_Id a) = Some q \<and> acc B' q = restored E a)
    \<and> (\<forall>k. session_at B' k \<noteq> None \<longrightarrow> session_at B k \<noteq> None \<or> (\<exists>a \<in> set as. HashSessionCompare (a_Id a) k = 0))"
  using assms
proof (induction as arbitrary: B n)
  case Nil
  then show ?case by (cases n) auto
next
  case (Cons a as)
  obtain m where n: "n = Suc m" "length as < m" using Cons.prems(6) by (cases n) auto
  have a: "session_at B (a_Id a) = None" "counts_fit a" "in_snapshot a"
    "ge_Cnt (c_Accept B) < ge_MaxCnt (c_Accept B)" using Cons.prems(2,4) by auto
  obtain B1 q where 1: "read_session E AP a (map SioMsg (r_Msg a) @ raised_io a @ adaptor_io AP a
      @ concat (map (session_io AP) as)) B = Some (Goes (B1, concat (map (session_io AP) as)))"
    and B1: "sessions_ok B1" "session_at B1 = (\<lambda>k. if HashSessionCompare (a_Id a) k = 0 then Some q else session_at B k)"
      "acc B1 q = restored E a" "\<And>k p. session_at B k = Some p \<Longrightarrow> acc B1 p = acc B p"
    and c: "ge_Cnt (c_Accept B1) = ge_Cnt (c_Accept B) + 1" "ge_MaxCnt (c_Accept B1) = ge_MaxCnt (c_Accept B)"
    using read_one [OF Cons.prems(1) a(1,4,2) Cons.prems(5)] by blast
  have "session_at B1 (a_Id b) = None \<and> counts_fit b \<and> in_snapshot b" if "b \<in> set as" for b
    using Cons.prems(2) [of b] Cons.prems(3) that by (simp add: B1(2))
  then obtain B' where B': "unmarshal_loop m E AP (concat (map (session_io AP) as)) B1 = Some (Goes B')" "sessions_ok B'"
    and old: "\<And>k p. session_at B1 k = Some p \<Longrightarrow> session_at B' k = Some p \<and> acc B' p = acc B1 p"
    and new: "\<forall>a \<in> set as. \<exists>q. session_at B' (a_Id a) = Some q \<and> acc B' q = restored E a"
    and none: "\<And>k. session_at B' k \<noteq> None \<Longrightarrow> session_at B1 k \<noteq> None \<or> (\<exists>a \<in> set as. HashSessionCompare (a_Id a) k = 0)"
    using Cons.IH [OF B1(1) _ _ _ Cons.prems(5) n(2)] Cons.prems(3,4) c by auto
  have "unmarshal_loop n E AP (concat (map (session_io AP) (a # as))) B = Some (Goes B')"
    by (simp add: n session_io_in [OF a(3)] 1 B'(1))
  moreover have "session_at B' k = Some p \<and> acc B' p = acc B p" if k: "session_at B k = Some p" for k p
  proof -
    have "session_at B (a_Id a) \<noteq> Some p" using a(1) by simp
    then have "HashSessionCompare (a_Id a) k \<noteq> 0"
      using k a(1) sessions.found_same [OF Cons.prems(1), of "a_Id a" k] by auto
    then show ?thesis using old [of k p] B1(4) [OF k] k by (simp add: B1(2))
  qed
  moreover have "session_at B' (a_Id a) = Some q \<and> acc B' q = restored E a"
    using old [of "a_Id a" q] by (simp add: B1(2,3) session_key.cmp_refl)
  moreover have "session_at B k \<noteq> None \<or> (\<exists>b \<in> set (a # as). HashSessionCompare (a_Id b) k = 0)"
    if "session_at B' k \<noteq> None" for k using none [OF that] by (auto simp: B1(2) split: if_splits)
  ultimately show ?case using B'(2) new by auto
qed

text \<open>The snapshot of a whole acceptor.\<close>

lemma marshal_filter:
  "PaxosAcceptorMarshal AP A = concat (map (session_io AP) (filter in_snapshot (map (acc A) (ge_Lnk (c_Accept A)))))"
proof -
  have "concat (map (session_io AP) as) = concat (map (session_io AP) (filter in_snapshot as))" for as
    by (induction as) (simp_all add: session_io_out)
  then show ?thesis unfolding PaxosAcceptorMarshal_def by (metis (no_types, lifting) comp_apply map_eq_conv map_map)
qed

lemma sessions_apart:
  assumes ok: "sessions_ok A"
  shows "apart (map (acc A) (ge_Lnk (c_Accept A)))"
proof -
  have "distinct ps \<Longrightarrow> set ps \<subseteq> set (ge_Lnk (c_Accept A)) \<Longrightarrow> apart (map (acc A) ps)" for ps
  proof (induction ps)
    case (Cons p ps)
    have "HashSessionCompare (a_Id (acc A p)) (a_Id (acc A q)) \<noteq> 0" if "q \<in> set ps" for q
    proof
      assume e: "HashSessionCompare (a_Id (acc A p)) (a_Id (acc A q)) = 0"
      have "session_at A (a_Id (acc A q)) = Some p" "session_at A (a_Id (acc A q)) = Some q"
        using Cons.prems that e by (auto simp: sessions.found_iff [OF ok] sessions.bound_to_def session_key.cmp_refl)
      then show False using Cons.prems(1) that by auto
    qed
    then show ?case using Cons by auto
  qed simp
  then show ?thesis using sessions.ok_parts(2) [OF ok] by simp
qed

lemma restore:
  assumes A: "sessions_ok A" and B: "sessions_ok B" and none: "session_at B = Map.empty"
    and room: "ge_Cnt (c_Accept B) + ge_Cnt (c_Accept A) \<le> ge_MaxCnt (c_Accept B)" and AP: "adaptor_fits AP"
    and fit: "\<And>k p. session_at A k = Some p \<Longrightarrow> counts_fit (acc A p)"
  shows "\<exists>B'. PaxosAcceptorUnmarshal E AP (PaxosAcceptorMarshal AP A) B = Some (Goes B') \<and> sessions_ok B'
    \<and> (\<forall>k. case session_at A k of
          None \<Rightarrow> session_at B' k = None
        | Some p \<Rightarrow> if in_snapshot (acc A p) then \<exists>q. session_at B' k = Some q \<and> acc B' q = restored E (acc A p)
                   else session_at B' k = None)"
proof -
  define as where "as = filter in_snapshot (map (acc A) (ge_Lnk (c_Accept A)))"
  have at: "session_at A (a_Id (acc A p)) = Some p" if "p \<in> set (ge_Lnk (c_Accept A))" for p
    using that by (simp add: sessions.found_iff [OF A] sessions.bound_to_def session_key.cmp_refl)
  have as: "session_at B (a_Id a) = None \<and> counts_fit a \<and> in_snapshot a" if "a \<in> set as" for a
    using that fit [OF at] none by (auto simp: as_def)
  have "apart as" unfolding as_def by (rule sorted_wrt_filter) (rule sessions_apart [OF A])
  moreover have "int (length as) \<le> ge_Cnt (c_Accept A)"
    using sessions.ok_parts(3) [OF A] length_filter_le [of in_snapshot "map (acc A) (ge_Lnk (c_Accept A))"] by (simp add: as_def)
  moreover have "length as \<le> length (concat (map (session_io AP) as))" if "\<forall>a \<in> set as. in_snapshot a" for as
    using that by (induction as) (auto simp: session_io_in)
  then have "length as < Suc (length (concat (map (session_io AP) as)))" using as by (simp add: less_Suc_eq_le)
  moreover have "ge_Cnt (c_Accept B) + int (length as) \<le> ge_MaxCnt (c_Accept B)" using room calculation(2) by linarith
  ultimately have "\<exists>B'. PaxosAcceptorUnmarshal E AP (PaxosAcceptorMarshal AP A) B = Some (Goes B') \<and> sessions_ok B' \<and>
      (\<forall>a \<in> set as. \<exists>q. session_at B' (a_Id a) = Some q \<and> acc B' q = restored E a) \<and>
      (\<forall>k. session_at B' k \<noteq> None \<longrightarrow> (\<exists>a \<in> set as. HashSessionCompare (a_Id a) k = 0))"
    using restore_list [OF B as _ _ AP, of as "Suc (length (concat (map (session_io AP) as)))" E] none
    unfolding PaxosAcceptorUnmarshal_def marshal_filter as_def [symmetric] by auto
  then obtain B' where B': "PaxosAcceptorUnmarshal E AP (PaxosAcceptorMarshal AP A) B = Some (Goes B')" "sessions_ok B'"
    and new: "\<And>a. a \<in> set as \<Longrightarrow> \<exists>q. session_at B' (a_Id a) = Some q \<and> acc B' q = restored E a"
    and only: "\<And>k. session_at B' k \<noteq> None \<Longrightarrow> \<exists>a \<in> set as. HashSessionCompare (a_Id a) k = 0"
    by blast
  have "case session_at A k of None \<Rightarrow> session_at B' k = None
      | Some p \<Rightarrow> if in_snapshot (acc A p) then \<exists>q. session_at B' k = Some q \<and> acc B' q = restored E (acc A p)
                 else session_at B' k = None" for k
  proof -
    have was: "\<exists>p. session_at A k = Some p \<and> in_snapshot (acc A p)" if some: "session_at B' k \<noteq> None"
    proof -
      obtain p where p: "p \<in> set (ge_Lnk (c_Accept A))" "in_snapshot (acc A p)" "HashSessionCompare (a_Id (acc A p)) k = 0"
        using only [OF some] by (auto simp: as_def)
      then show ?thesis using sessions.found_same [OF A p(3)] at [OF p(1)] p(2) by (intro exI [of _ p]) simp
    qed
    have stays: "\<exists>q. session_at B' k = Some q \<and> acc B' q = restored E (acc A p)"
      if "session_at A k = Some p" "in_snapshot (acc A p)" for p
    proof -
      have p: "p \<in> set (ge_Lnk (c_Accept A))" "HashSessionCompare (a_Id (acc A p)) k = 0"
        using that(1) by (simp_all add: sessions.found_iff [OF A] sessions.bound_to_def)
      have "acc A p \<in> set as" using p that(2) by (simp add: as_def)
      from new [OF this] sessions.found_same [OF B'(2) p(2)] show ?thesis by simp
    qed
    show ?thesis using was stays by (cases "session_at A k"; cases "session_at B' k") auto
  qed
  then show ?thesis using B' by blast
qed

end
