(* ===== verification/Session_Ledger.thy ===== *)
theory Session_Ledger
  imports Session_Snapshot "HOL-Library.Multiset"
begin

text \<open>
  The books of the out-of-band data: the table and the list name the same entries, an entry whose data
  is not in memory has been saved, and the bytes counted as used against the bytes in memory.
\<close>

section \<open>The entries\<close>

definition entry_of :: "PaxosAcceptor_t \<Rightarrow> PaxosClientId_t \<Rightarrow> nat \<Rightarrow> bool" where
  "entry_of A k q \<longleftrightarrow> q \<in> set (o_Lnk A) \<and> AcceptorHashOutOfBandCompare (o_Id (out A q)) k = 0"

definition entry_at :: "PaxosAcceptor_t \<Rightarrow> PaxosClientId_t \<Rightarrow> nat option" where
  "entry_at A k = (case hash_queue (o_Hash A) k of [] \<Rightarrow> None | q # qs \<Rightarrow> Some q)"

definition entries_ok :: "PaxosAcceptor_t \<Rightarrow> bool" where
  "entries_ok A \<longleftrightarrow> keyed_table AcceptorHashOutOfBandCode AcceptorHashOutOfBandCompare (o_Hash A) \<and>
     distinct (o_Lnk A) \<and> o_Cnt A = int (length (o_Lnk A)) \<and> (\<forall>q \<in> set (o_Lnk A). q < o_Next A) \<and>
     (\<forall>k. hash_queue (o_Hash A) k = (case entry_at A k of None \<Rightarrow> [] | Some q \<Rightarrow> [q])) \<and>
     (\<forall>k q. entry_at A k = Some q \<longleftrightarrow> entry_of A k q)"

definition data_safe :: "PaxosAcceptor_t \<Rightarrow> nat \<Rightarrow> bool" where
  "data_safe A q \<longleftrightarrow> o_pData (out A q) \<noteq> None \<or> o_bSaved (out A q)"

definition held_len :: "PaxosAcceptor_t \<Rightarrow> nat \<Rightarrow> int" where
  "held_len A q = (case o_pData (out A q) of Some d \<Rightarrow> h_Len d | None \<Rightarrow> 0)"

text \<open>What is counted as used beyond the data in memory, without the entry \<open>q\<close> where there is one.\<close>

definition excess :: "nat set \<Rightarrow> PaxosAcceptor_t \<Rightarrow> int" where
  "excess X A = o_MemUsed A - (\<Sum>q \<in> set (o_Lnk A) - X. held_len A q)"

text \<open>The entries stay the same but for what is in memory.\<close>

definition same_entries :: "PaxosAcceptor_t \<Rightarrow> PaxosAcceptor_t \<Rightarrow> bool" where
  "same_entries A A' \<longleftrightarrow> o_Lnk A' = o_Lnk A \<and> hash_queue (o_Hash A') = hash_queue (o_Hash A) \<and>
     (keyed_table AcceptorHashOutOfBandCode AcceptorHashOutOfBandCompare (o_Hash A) \<longrightarrow>
      keyed_table AcceptorHashOutOfBandCode AcceptorHashOutOfBandCompare (o_Hash A')) \<and>
     o_Cnt A' = o_Cnt A \<and> o_Next A' = o_Next A \<and> o_MemLimit A' = o_MemLimit A \<and>
     (\<forall>q. o_Id (out A' q) = o_Id (out A q) \<and> o_bValidate (out A' q) = o_bValidate (out A q) \<and>
       o_Seq (out A' q) = o_Seq (out A q)) \<and>
     (\<forall>q. data_safe A q \<longrightarrow> data_safe A' q)"

interpretation entries: evolution same_entries
  by unfold_locales (auto simp: same_entries_def)

lemma entry_at_same: "same_entries A A' \<Longrightarrow> entry_at A' = entry_at A"
  by (simp add: entry_at_def same_entries_def fun_eq_iff)

lemma entries_ok_same: "same_entries A A' \<Longrightarrow> entries_ok A \<Longrightarrow> entries_ok A'"
  using entry_at_same [of A A'] by (auto simp: entries_ok_def entry_of_def same_entries_def)

lemma find_fields:
  assumes "outofband_find k A = (po, B)"
  shows "same_entries A B" "o_Out B = o_Out A" "o_MemUsed B = o_MemUsed A" "po = entry_at A k" "c_Sfx B = c_Sfx A"
    "c_pPaxos B = c_pPaxos A" "o_MemLimit B = o_MemLimit A" "c_bCksum B = c_bCksum A"
  using assms outofband_key.get_laws [of "o_Hash A" k] HashGet_value [of "o_Hash A" k]
  by (auto simp: outofband_find_def same_entries_def entry_at_def data_safe_def split: prod.splits)

section \<open>Room in memory\<close>

lemma held_len_cong: "o_Out A' = o_Out A \<Longrightarrow> held_len A' q = held_len A q"
  by (simp add: held_len_def)

lemma evict_books:
  assumes "outofband_evict AP q len ls A = Some A'" and "set ls \<subseteq> set (o_Lnk A)"
  shows "same_entries A A' \<and> excess {q} A' = excess {q} A \<and> o_pData (out A' q) = o_pData (out A q)"
  using assms
proof (induction ls arbitrary: A)
  case Nil
  then show ?case by (simp add: entries.refl)
next
  case (Cons l ls)
  consider (room) "o_MemUsed A + len < o_MemLimit A" | (skip) "\<not> o_MemUsed A + len < o_MemLimit A" "l = q \<or> o_pData (out A l) = None"
    | (save) d where "\<not> o_MemUsed A + len < o_MemLimit A" "l \<noteq> q" "o_pData (out A l) = Some d" by blast
  then show ?case
  proof cases
    case room
    then show ?thesis using Cons.prems by (simp add: entries.refl)
  next
    case skip
    then have "outofband_evict AP q len ls A = Some A'" using Cons.prems by (cases "l = q") simp_all
    then show ?thesis using Cons.prems(2) by (intro Cons.IH) simp_all
  next
    case (save d)
    then obtain B where B: "outofband_save AP l d A = Some B" and r: "outofband_evict AP q len ls
        (set_out l (\<lambda>b. b\<lparr>o_pData := None\<rparr>) (B\<lparr>o_MemUsed := o_MemUsed B - h_Len d\<rparr>)) = Some A'"
      using Cons.prems by (auto simp: bind_eq_Some_conv)
    define C where "C = set_out l (\<lambda>b. b\<lparr>o_pData := None\<rparr>) (B\<lparr>o_MemUsed := o_MemUsed B - h_Len d\<rparr>)"
    have B': "B = A \<and> o_bSaved (out A l) \<or> B = set_out l (\<lambda>b. b\<lparr>o_bSaved := True\<rparr>) (sfx_emit (SxSave d) A)"
      using B by (auto simp: outofband_save_def bind_eq_Some_conv split: if_splits)
    have out: "out C x = (if x = l then (out A l)\<lparr>o_bSaved := True, o_pData := None\<rparr> else out A x)" for x
      using B' by (auto simp: C_def set_out_def sfx_emit_def)
    have same: "same_entries A C" using B' out by (auto simp: same_entries_def data_safe_def) (auto simp: C_def set_out_def sfx_emit_def)
    have lnk: "o_Lnk C = o_Lnk A" using same by (simp add: same_entries_def)
    have l: "l \<in> set (o_Lnk A) - {q}" using Cons.prems(2) save(2) by simp
    have "(\<Sum>x \<in> set (o_Lnk A) - {q}. held_len C x) = (\<Sum>x \<in> set (o_Lnk A) - {q} - {l}. held_len A x)"
      using l by (subst sum.remove [of _ l]) (auto simp: held_len_def out intro!: sum.cong)
    moreover have "(\<Sum>x \<in> set (o_Lnk A) - {q}. held_len A x) = h_Len d + (\<Sum>x \<in> set (o_Lnk A) - {q} - {l}. held_len A x)"
      using l save(3) by (subst sum.remove [of _ l]) (auto simp: held_len_def)
    moreover have "o_MemUsed C = o_MemUsed A - h_Len d" using B' by (auto simp: C_def set_out_def sfx_emit_def)
    ultimately have ex: "excess {q} C = excess {q} A" by (simp add: excess_def lnk)
    have "same_entries C A' \<and> excess {q} A' = excess {q} C \<and> o_pData (out A' q) = o_pData (out C q)"
      by (rule Cons.IH) (use r Cons.prems(2) lnk in \<open>simp_all add: C_def\<close>)
    then show ?thesis using same ex entries.trans [OF same] out [of q] save(2) by auto
  qed
qed

lemma Cache_books:
  assumes c: "AcceptorOutOfBandCache AP q A = Some A'" and q: "q \<in> set (o_Lnk A)"
  shows "same_entries A A'" and "excess {} A' = excess {q} A" and "o_pData (out A' q) = o_pData (out A q)"
    and "o_MemUsed A' < o_MemLimit A'"
proof -
  obtain d where d: "o_pData (out A q) = Some d" using c by (auto simp: AcceptorOutOfBandCache_def bind_eq_Some_conv)
  then obtain B where B: "outofband_evict AP q (h_Len d) (o_Lnk A) A = Some B"
    and A': "A' = B\<lparr>o_MemUsed := o_MemUsed B + h_Len d\<rparr>" and lim: "o_MemUsed B + h_Len d < o_MemLimit B"
    using c by (auto simp: AcceptorOutOfBandCache_def bind_eq_Some_conv ASSERT_def Let_def split: if_splits)
  have e: "same_entries A B" "excess {q} B = excess {q} A" "o_pData (out B q) = o_pData (out A q)"
    using evict_books [OF B] by simp_all
  have "same_entries B A'" by (simp add: A' same_entries_def data_safe_def)
  then show "same_entries A A'" using e(1) entries.trans by blast
  show "o_pData (out A' q) = o_pData (out A q)" using e(3) by (simp add: A')
  show "o_MemUsed A' < o_MemLimit A'" using lim by (simp add: A')
  have "q \<in> set (o_Lnk B)" using q e(1) by (simp add: same_entries_def)
  then have "(\<Sum>x \<in> set (o_Lnk B). held_len A' x) = h_Len d + (\<Sum>x \<in> set (o_Lnk B) - {q}. held_len B x)"
    by (subst sum.remove [of _ q]) (auto simp: held_len_def A' e(3) d)
  then show "excess {} A' = excess {q} A" using e(2) by (simp add: excess_def A')
qed

section \<open>The operations\<close>

text \<open>All entries are listed once, and those without data in memory are saved.\<close>

definition oob_ok :: "PaxosAcceptor_t \<Rightarrow> bool" where
  "oob_ok A \<longleftrightarrow> entries_ok A \<and> (\<forall>q \<in> set (o_Lnk A). data_safe A q)"

lemma oob_ok_same: "same_entries A A' \<Longrightarrow> oob_ok A \<Longrightarrow> oob_ok A'"
  using entries_ok_same [of A A'] by (auto simp: oob_ok_def same_entries_def)

lemma new_entry:
  assumes n: "outofband_new E k A = (q, B)" and ok: "entries_ok A" and none: "entry_at A k = None"
  shows "entries_ok B" and "q \<notin> set (o_Lnk A)" and "o_Lnk B = o_Lnk A @ [q]"
    and "o_Out B = (o_Out A)(q := OUTOFBAND_ALLOC E k)"
    and "entry_at B = (\<lambda>a. if AcceptorHashOutOfBandCompare k a = 0 then Some q else entry_at A a)"
    and "o_MemUsed B = o_MemUsed A" "c_pPaxos B = c_pPaxos A"
proof -
  have B: "q = o_Next A" "B = A\<lparr>o_Out := (o_Out A)(q := OUTOFBAND_ALLOC E k), o_Next := q + 1,
      o_Hash := HashPut (o_Hash A) k q, o_Lnk := o_Lnk A @ [q], o_Cnt := o_Cnt A + 1\<rparr>"
    using n by (auto simp: outofband_new_def Let_def)
  then show "o_Lnk B = o_Lnk A @ [q]" "o_Out B = (o_Out A)(q := OUTOFBAND_ALLOC E k)" "o_MemUsed B = o_MemUsed A"
    "c_pPaxos B = c_pPaxos A" by simp_all
  show q: "q \<notin> set (o_Lnk A)" using ok B(1) by (auto simp: entries_ok_def)
  have tab: "keyed_table AcceptorHashOutOfBandCode AcceptorHashOutOfBandCompare (o_Hash A)"
    and hq: "hash_queue (o_Hash A) a = (case entry_at A a of None \<Rightarrow> [] | Some q \<Rightarrow> [q])" for a
    using ok by (simp_all add: entries_ok_def)
  have cls: "entry_at A a = None" if "AcceptorHashOutOfBandCompare k a = 0" for a
    using outofband_key.queue_same [OF tab that] none by (simp add: entry_at_def split: list.splits)
  have queue: "hash_queue (o_Hash B) a = (if AcceptorHashOutOfBandCompare k a = 0 then [q] else hash_queue (o_Hash A) a)" for a
    using outofband_key.put_queue [OF tab, of k q a] cls [of a] hq [of a] by (simp add: B(2))
  show at: "entry_at B = (\<lambda>a. if AcceptorHashOutOfBandCompare k a = 0 then Some q else entry_at A a)"
    by (rule ext) (simp add: entry_at_def queue)
  have fields: "o_Lnk B = o_Lnk A @ [q]" "o_Out B = (o_Out A)(q := OUTOFBAND_ALLOC E k)" "o_Next B = Suc q"
    "o_Hash B = HashPut (o_Hash A) k q" "o_Cnt B = o_Cnt A + 1" using B by simp_all
  have "entry_at B a = Some r \<longleftrightarrow> entry_of B a r" for a r
  proof -
    have "entry_at A a = Some r \<longleftrightarrow> entry_of A a r" using ok by (simp add: entries_ok_def)
    then show ?thesis using q cls [of a]
      by (cases "r = q") (auto simp: at fields entry_of_def OUTOFBAND_ALLOC_def)
  qed
  moreover have "hash_queue (o_Hash B) a = (case entry_at B a of None \<Rightarrow> [] | Some q \<Rightarrow> [q])" for a
    by (simp add: at queue hq)
  moreover have "keyed_table AcceptorHashOutOfBandCode AcceptorHashOutOfBandCompare (o_Hash B)"
    using outofband_key.put_ok [OF tab, of k q] by (simp add: fields)
  moreover have "distinct (o_Lnk B)" "o_Cnt B = int (length (o_Lnk B))" "\<forall>x \<in> set (o_Lnk B). x < o_Next B"
    using ok q B(1) by (auto simp: entries_ok_def fields)
  ultimately show "entries_ok B" unfolding entries_ok_def by blast
qed

lemma set_data_same:
  assumes "o_Id (f (out A q)) = o_Id (out A q)" and "o_bValidate (f (out A q)) = o_bValidate (out A q)"
    and "o_Seq (f (out A q)) = o_Seq (out A q)" and "o_pData (f (out A q)) \<noteq> None"
  shows "same_entries A (set_out q f A)" and "excess {q} (set_out q f A) = excess {q} A"
  using assms by (auto simp: same_entries_def set_out_def data_safe_def excess_def held_len_def intro!: sum.cong)

lemma excess_remove:
  "q \<in> set (o_Lnk A) \<Longrightarrow> excess {q} A = excess {} A + held_len A q"
  by (simp add: excess_def sum.remove [of _ q])

lemma excess_new:
  assumes "outofband_new E k A = (q, B)" and "entries_ok A" and "entry_at A k = None"
  shows "excess {q} B = excess {} A"
proof -
  note n = new_entry [OF assms]
  have "(\<Sum>x \<in> set (o_Lnk A). held_len B x) = (\<Sum>x \<in> set (o_Lnk A). held_len A x)"
    using n(2) by (intro sum.cong) (auto simp: held_len_def n(4))
  then show ?thesis using n(2) by (simp add: excess_def n(3,6))
qed

text \<open>An entry that gets its data: set, then room is made for it.\<close>

lemma set_and_cache:
  assumes c: "AcceptorOutOfBandCache AP q (set_out q f A) = Some A'" and ok: "entries_ok A" and q: "q \<in> set (o_Lnk A)"
    and safe: "\<forall>x \<in> set (o_Lnk A) - {q}. data_safe A x"
    and f: "o_Id (f (out A q)) = o_Id (out A q)" "o_bValidate (f (out A q)) = o_bValidate (out A q)"
      "o_Seq (f (out A q)) = o_Seq (out A q)" "o_pData (f (out A q)) = Some d"
  shows "oob_ok A'" and "entry_at A' = entry_at A" and "o_pData (out A' q) = Some d"
    and "excess {} A' = excess {q} A" and "o_MemUsed A' < o_MemLimit A'"
proof -
  let ?B = "set_out q f A"
  have s: "same_entries A ?B" "excess {q} ?B = excess {q} A" using set_data_same [of f A q] f by simp_all
  have "q \<in> set (o_Lnk ?B)" using q by (simp add: set_out_def)
  note b = Cache_books [OF c this]
  have same: "same_entries A A'" by (rule entries.trans [OF s(1) b(1)])
  then show "entry_at A' = entry_at A" by (rule entry_at_same)
  show d: "o_pData (out A' q) = Some d" using b(3) f(4) by (simp add: set_out_def)
  show "excess {} A' = excess {q} A" "o_MemUsed A' < o_MemLimit A'" using b(2,4) s(2) by simp_all
  have "data_safe A' x" if "x \<in> set (o_Lnk A)" for x
  proof (cases "x = q")
    case True
    then show ?thesis using d by (simp add: data_safe_def)
  next
    case False
    then show ?thesis using that safe same by (simp add: same_entries_def)
  qed
  then show "oob_ok A'" using entries_ok_same [OF same ok] same by (simp add: oob_ok_def same_entries_def)
qed

lemma cut_id: "outofband_cut AP A m = Some m' \<Longrightarrow> h_Id m' = h_Id m"
  by (auto simp: outofband_cut_def bind_eq_Some_conv Let_def split: if_splits)

lemma Push_books:
  assumes p: "PaxosAcceptorOutOfBandPush E AP m A = Some (q, A')" and ok: "oob_ok A"
  shows "oob_ok A' \<and> o_MemUsed A' < o_MemLimit A' \<and> entry_at A' (h_Id m) = Some q
    \<and> o_pData (out A' q) = outofband_cut AP A m
    \<and> (\<forall>k. AcceptorHashOutOfBandCompare (h_Id m) k \<noteq> 0 \<longrightarrow> entry_at A' k = entry_at A k)
    \<and> excess {} A' = excess {} A + (case entry_at A (h_Id m) of Some q \<Rightarrow> held_len A q | None \<Rightarrow> 0)"
proof -
  obtain m' where cut: "outofband_cut AP A m = Some m'"
    using p by (auto simp: PaxosAcceptorOutOfBandPush_def bind_eq_Some_conv)
  note id = cut_id [OF cut]
  obtain po B where B: "outofband_find (h_Id m) A = (po, B)" by (cases "outofband_find (h_Id m) A")
  note b = find_fields [OF B]
  have okB: "oob_ok B" "excess {} B = excess {} A" "entry_at B = entry_at A"
    using oob_ok_same [OF b(1) ok] b(1,2,3) entry_at_same [OF b(1)] by (simp_all add: excess_def held_len_def same_entries_def)
  define T where "T = (\<lambda>s. time0 E + cdiv (PaxosDecidedTimeout s + PaxosMasterElectionTimeout s) 1000000)"
  define f where "f = (\<lambda>s (b :: AcceptorOutOfBand_t). b\<lparr>o_pData := Some m', o_Last := T s\<rparr>)"
  show ?thesis
  proof (cases po)
    case None
    obtain r C where C: "outofband_new E (h_Id m) B = (r, C)" by (cases "outofband_new E (h_Id m) B")
    then have c: "q = r" "AcceptorOutOfBandCache AP q (set_out q (f (c_pPaxos C)) C) = Some A'"
      using p cut B None id by (auto simp: PaxosAcceptorOutOfBandPush_def bind_eq_Some_conv f_def T_def Let_def)
    have eB: "entries_ok B" "entry_at B (h_Id m) = None" using okB b(4) None by (simp_all add: oob_ok_def)
    note n = new_entry [OF C eB]
    have safe: "\<forall>x \<in> set (o_Lnk C) - {q}. data_safe C x"
      using okB(1) n(2) by (auto simp: n(3,4) c(1) oob_ok_def data_safe_def)
    have q: "q \<in> set (o_Lnk C)" by (simp add: n(3) c(1))
    note s = set_and_cache [OF c(2) n(1) q safe, of m']
    have "oob_ok A' \<and> entry_at A' = entry_at C \<and> o_pData (out A' q) = Some m' \<and> excess {} A' = excess {q} C
        \<and> o_MemUsed A' < o_MemLimit A'" using s by (simp add: f_def)
    moreover have "excess {q} C = excess {} A" using excess_new [OF C eB] okB(2) c(1) by simp
    moreover have "entry_at A (h_Id m) = None" using b(4) None by simp
    ultimately show ?thesis using cut okB(3) by (simp add: n(5) c(1) outofband_key.cmp_refl)
  next
    case (Some r)
    define C where "C = (if o_bSaved (out B r)
        then set_out r (\<lambda>b. b\<lparr>o_bSaved := False\<rparr>) (sfx_emit (SxRemove (o_Id (out B r))) B) else B)"
    have c: "q = r" "AcceptorOutOfBandCache AP q (set_out q (f (c_pPaxos C)) C) = Some A'"
      using p cut B Some id by (auto simp: PaxosAcceptorOutOfBandPush_def bind_eq_Some_conv f_def T_def C_def Let_def)
    have fields: "o_Lnk C = o_Lnk B" "o_Hash C = o_Hash B" "o_Cnt C = o_Cnt B" "o_Next C = o_Next B" "o_MemUsed C = o_MemUsed B"
      "\<And>x. x \<noteq> r \<Longrightarrow> out C x = out B x" "o_Id (out C x) = o_Id (out B x)" "o_pData (out C x) = o_pData (out B x)" for x
      by (auto simp: C_def set_out_def sfx_emit_def)
    have at: "entry_at C = entry_at B" by (simp add: entry_at_def fields fun_eq_iff)
    have eC: "entries_ok C" using okB(1) at by (simp add: oob_ok_def entries_ok_def entry_of_def fields)
    have rA: "entry_at A (h_Id m) = Some r" using b(4) Some by simp
    have q: "q \<in> set (o_Lnk C)"
      using eC rA at okB(3) c(1) by (auto simp: entries_ok_def entry_of_def)
    have safe: "\<forall>x \<in> set (o_Lnk C) - {q}. data_safe C x"
      using okB(1) by (auto simp: oob_ok_def data_safe_def fields c(1))
    note s = set_and_cache [OF c(2) eC q safe, of m']
    have "oob_ok A' \<and> entry_at A' = entry_at C \<and> o_pData (out A' q) = Some m' \<and> excess {} A' = excess {q} C
        \<and> o_MemUsed A' < o_MemLimit A'" using s by (simp add: f_def)
    moreover have "excess {q} C = excess {} A + held_len A r"
      using excess_remove [OF q] okB(2) b(2) by (simp add: excess_def held_len_def fields c(1))
    ultimately show ?thesis using cut okB(3) at rA c(1) by simp
  qed
qed

lemma Get_books:
  assumes g: "PaxosAcceptorOutOfBandGet E AP k A = Some (r, A')" and ok: "oob_ok A"
  shows "oob_ok A' \<and> excess {} A' = excess {} A
    \<and> (\<forall>q d. entry_at A k = Some q \<longrightarrow> o_pData (out A q) = Some d \<longrightarrow> r = Some d)
    \<and> (\<forall>d. r = Some d \<longrightarrow> (\<exists>q. entry_at A' k = Some q \<and> o_pData (out A' q) = Some d))
    \<and> (\<forall>a. AcceptorHashOutOfBandCompare k a \<noteq> 0 \<longrightarrow> entry_at A' a = entry_at A a)"
proof -
  obtain po B where B: "outofband_find k A = (po, B)" by (cases "outofband_find k A")
  note b = find_fields [OF B]
  have okB: "oob_ok B" "excess {} B = excess {} A" "entry_at B = entry_at A"
    using oob_ok_same [OF b(1) ok] b(1,2,3) entry_at_same [OF b(1)] by (simp_all add: excess_def held_len_def same_entries_def)
  have eB: "entries_ok B" using okB(1) by (simp add: oob_ok_def)
  show ?thesis
  proof (cases po)
    case None
    obtain q C where C: "outofband_new E k B = (q, C)" by (cases "outofband_new E k B")
    have none: "entry_at B k = None" "entry_at A k = None" using okB(3) b(4) None by simp_all
    note n = new_entry [OF C eB none(1)]
    show ?thesis
    proof (cases "if_fOutOfBandLoad AP (c_Sfx B) k")
      case None
      then have "r = None" "A' = B" using g B \<open>po = None\<close> by (auto simp: PaxosAcceptorOutOfBandGet_def)
      then show ?thesis using okB none by simp
    next
      case (Some d)
      then have r: "r = Some d" "AcceptorOutOfBandCache AP q (set_out q (\<lambda>b. b\<lparr>o_pData := Some d\<rparr>) C) = Some A'"
        using g B None C by (auto simp: PaxosAcceptorOutOfBandGet_def bind_eq_Some_conv)
      have safe: "\<forall>x \<in> set (o_Lnk C) - {q}. data_safe C x"
        using okB(1) n(2) by (auto simp: n(3,4) oob_ok_def data_safe_def)
      have "q \<in> set (o_Lnk C)" by (simp add: n(3))
      from set_and_cache [OF r(2) n(1) this safe, of d] excess_new [OF C eB none(1)]
      show ?thesis using none okB(2,3) r(1) by (auto simp: n(5) outofband_key.cmp_refl)
    qed
  next
    case (Some q)
    have "entry_at B k = Some q" using b(4) Some okB(3) by simp
    then have "entry_of B k q" using eB by (simp add: entries_ok_def)
    then have q: "q \<in> set (o_Lnk B)" by (simp add: entry_of_def)
    have at: "entry_at A k = Some q" using b(4) Some by simp
    show ?thesis
    proof (cases "o_pData (out B q)")
      case (Some d)
      then have "r = Some d" "A' = B" using g B \<open>po = Some q\<close> by (auto simp: PaxosAcceptorOutOfBandGet_def)
      then show ?thesis using okB at Some b(2) by auto
    next
      case nodata: None
      show ?thesis
      proof (cases "if_fOutOfBandLoad AP (c_Sfx B) k")
        case None
        then have "r = None" "A' = B" using g B Some nodata by (auto simp: PaxosAcceptorOutOfBandGet_def)
        then show ?thesis using okB at nodata b(2) by auto
      next
        case (Some d)
        then have r: "r = Some d" "AcceptorOutOfBandCache AP q (set_out q (\<lambda>b. b\<lparr>o_pData := Some d\<rparr>) B) = Some A'"
          using g B \<open>po = Some q\<close> nodata by (auto simp: PaxosAcceptorOutOfBandGet_def bind_eq_Some_conv)
        have safe: "\<forall>x \<in> set (o_Lnk B) - {q}. data_safe B x" using okB(1) by (auto simp: oob_ok_def)
        have "excess {q} B = excess {} B" using excess_remove [OF q] nodata by (simp add: held_len_def)
        with set_and_cache [OF r(2) eB q safe, of d] show ?thesis using okB(2,3) r(1) at nodata b(2) by auto
      qed
    qed
  qed
qed

lemma Remove_books:
  assumes ok: "oob_ok A" and q: "q \<in> set (o_Lnk A)"
  shows "oob_ok (OutOfBandRemove q A) \<and> excess {} (OutOfBandRemove q A) = excess {} A
    \<and> entry_at (OutOfBandRemove q A) = (\<lambda>k. if entry_at A k = Some q then None else entry_at A k)"
proof -
  define B where "B = OutOfBandRemove q A"
  let ?k = "o_Id (out A q)"
  have e: "entries_ok A" using ok by (simp add: oob_ok_def)
  then have tab: "keyed_table AcceptorHashOutOfBandCode AcceptorHashOutOfBandCompare (o_Hash A)"
    and hq: "\<And>a. hash_queue (o_Hash A) a = (case entry_at A a of None \<Rightarrow> [] | Some q \<Rightarrow> [q])"
    and at: "\<And>a x. entry_at A a = Some x \<longleftrightarrow> entry_of A a x" by (simp_all add: entries_ok_def)
  have B: "o_Lnk B = remove1 q (o_Lnk A)" "o_Hash B = snd (HashRemove (o_Hash A) ?k)" "o_Cnt B = o_Cnt A - 1"
    "o_Next B = o_Next A" "\<And>x. x \<noteq> q \<Longrightarrow> out B x = out A x" "o_Id (out B q) = ?k"
    "o_MemUsed B = o_MemUsed A - held_len A q"
    by (auto simp: B_def OutOfBandRemove_def Let_def set_out_def sfx_emit_def held_len_def split: option.splits)
  have dist: "distinct (o_Lnk A)" using e by (simp add: entries_ok_def)
  have lnk: "set (o_Lnk B) = set (o_Lnk A) - {q}" using dist by (simp add: B(1))
  note laws = outofband_key.remove_laws [OF tab, of ?k]
  have cls: "entry_at A a = Some q \<longleftrightarrow> AcceptorHashOutOfBandCompare ?k a = 0" for a
    using q by (simp add: at entry_of_def)
  have queue: "hash_queue (o_Hash B) a = (if entry_at A a = Some q then [] else hash_queue (o_Hash A) a)" for a
    using laws(2) [of a] hq [of a] cls [of a] by (cases "entry_at A a = Some q") (simp_all add: B(2))
  have atB: "entry_at B = (\<lambda>a. if entry_at A a = Some q then None else entry_at A a)"
    by (rule ext) (simp add: entry_at_def [of B] queue entry_at_def [of A, symmetric])
  have "entries_ok B"
    unfolding entries_ok_def
  proof (intro conjI allI ballI)
    show "keyed_table AcceptorHashOutOfBandCode AcceptorHashOutOfBandCompare (o_Hash B)" using laws(1) by (simp add: B(2))
    show "distinct (o_Lnk B)" using dist by (simp add: B(1))
    show "o_Cnt B = int (length (o_Lnk B))"
      using e q length_pos_if_in_set [OF q] by (simp add: entries_ok_def B(1,3) length_remove1 of_nat_diff Suc_le_eq del: length_greater_0_conv)
    show "x < o_Next B" if "x \<in> set (o_Lnk B)" for x using that e by (auto simp: lnk B(4) entries_ok_def)
    show "hash_queue (o_Hash B) a = (case entry_at B a of None \<Rightarrow> [] | Some q \<Rightarrow> [q])" for a
      using hq [of a] by (simp add: atB queue)
    show "entry_at B a = Some x \<longleftrightarrow> entry_of B a x" for a x
      using at [of a x] B(5) [of x] by (auto simp: atB entry_of_def lnk)
  qed
  moreover have "data_safe B x" if "x \<in> set (o_Lnk B)" for x
    using that ok B(5) [of x] by (auto simp: lnk oob_ok_def data_safe_def)
  moreover have "(\<Sum>x \<in> set (o_Lnk A) - {q}. held_len B x) = (\<Sum>x \<in> set (o_Lnk A) - {q}. held_len A x)"
    by (rule sum.cong) (auto simp: held_len_def B(5))
  then have "excess {} B = excess {} A"
    using q by (simp add: excess_def lnk B(7) sum.remove [of _ q])
  ultimately show ?thesis using atB by (simp add: oob_ok_def B_def)
qed

lemma mset_insert_after: "mset (insert_after p q l) = add_mset q (mset l)"
  by (induction l) auto

lemma order_books:
  assumes r: "outofband_order seq q A = Some A'" and q: "q \<in> set (o_Lnk A)" and ok: "oob_ok A"
  shows "oob_ok A' \<and> excess {} A' = excess {} A \<and> entry_at A' = entry_at A \<and> mset (o_Lnk A') = mset (o_Lnk A)
    \<and> o_bValidate (out A' q) \<and> o_Seq (out A' q) = seq"
proof (cases "o_bValidate (out A q) \<and> o_Seq (out A q) = seq")
  case True
  then show ?thesis using r ok by (simp add: outofband_order_def)
next
  case False
  obtain l where A': "A' = (set_out q (\<lambda>b. b\<lparr>o_bValidate := True, o_Seq := seq\<rparr>) (A\<lparr>o_Lnk := remove1 q (o_Lnk A)\<rparr>))\<lparr>o_Lnk := l\<rparr>"
    and "l = q # remove1 q (o_Lnk A) \<or> (\<exists>p. l = insert_after p q (remove1 q (o_Lnk A)))"
    using r False by (auto simp: outofband_order_def Let_def bind_eq_Some_conv set_out_def split: option.splits)
  then have l: "mset l = mset (o_Lnk A)" using q by (auto simp: mset_insert_after)
  have sets: "set l = set (o_Lnk A)" "length l = length (o_Lnk A)" "distinct l = distinct (o_Lnk A)"
    using l by (metis set_mset_mset, metis size_mset, metis mset_eq_imp_distinct_iff)
  have out: "out A' x = (if x = q then (out A q)\<lparr>o_bValidate := True, o_Seq := seq\<rparr> else out A x)" for x
    by (simp add: A' set_out_def)
  have f: "o_Lnk A' = l" "o_Hash A' = o_Hash A" "o_Cnt A' = o_Cnt A" "o_Next A' = o_Next A" "o_MemUsed A' = o_MemUsed A"
    by (simp_all add: A' set_out_def)
  have at: "entry_at A' = entry_at A" by (simp add: entry_at_def f fun_eq_iff)
  have of: "entry_of A' = entry_of A" by (intro ext) (simp add: entry_of_def f sets out)
  have h: "held_len A' = held_len A" by (rule ext) (simp add: held_len_def out)
  have "entries_ok A'" using ok by (simp add: oob_ok_def entries_ok_def at of f sets)
  moreover have "\<forall>x \<in> set l. data_safe A' x" using ok by (simp add: oob_ok_def data_safe_def out sets)
  ultimately show ?thesis using l by (simp add: oob_ok_def at f excess_def sets h out)
qed

lemma init_books: "PaxosAcceptorInitUsec E n co ex lim ck v ps cell us = Some A \<Longrightarrow> oob_ok A \<and> excess {} A = 0 \<and> entry_at A k = None"
  by (auto simp: PaxosAcceptorInitUsec_def bind_eq_Some_conv oob_ok_def entries_ok_def entry_at_def entry_of_def excess_def
      keyed_table_Init keyed_queue_Init)

end
