(* ===== verification/Session_Books.thy ===== *)
theory Session_Books
  imports Session_Ledger
begin

text \<open>
  The bound on the memory of the out-of-band data: over any run of the operations on it, the bytes in
  memory are at most the bytes counted as used, and these stay below the limit.
\<close>

definition lens_ok :: "PaxosAcceptor_t \<Rightarrow> bool" where
  "lens_ok A \<longleftrightarrow> (\<forall>q d. o_pData (out A q) = Some d \<longrightarrow> 0 \<le> h_Len d)"

definition books_ok :: "PaxosAcceptor_t \<Rightarrow> bool" where
  "books_ok A \<longleftrightarrow> oob_ok A \<and> lens_ok A \<and> 0 \<le> excess {} A \<and> o_MemUsed A < o_MemLimit A"

definition loads_ok :: "app \<Rightarrow> bool" where
  "loads_ok AP \<longleftrightarrow> (\<forall>tr k d. if_fOutOfBandLoad AP tr k = Some d \<longrightarrow> 0 \<le> h_Len d)"

lemma held_len_pos: "lens_ok A \<Longrightarrow> 0 \<le> held_len A q"
  by (auto simp: lens_ok_def held_len_def split: option.splits)

lemma lens_out: "o_Out B = o_Out A \<Longrightarrow> lens_ok B = lens_ok A"
  by (simp add: lens_ok_def)

lemma lens_set_out: "lens_ok A \<Longrightarrow> (\<And>d. o_pData (f (out A q)) = Some d \<Longrightarrow> 0 \<le> h_Len d) \<Longrightarrow> lens_ok (set_out q f A)"
  by (auto simp: lens_ok_def set_out_def)

lemma lens_evict: "outofband_evict AP q len ls A = Some A' \<Longrightarrow> lens_ok A \<Longrightarrow> lens_ok A'"
proof (induction ls arbitrary: A)
  case (Cons l ls)
  have save: "lens_ok (set_out l (\<lambda>b. b\<lparr>o_pData := None\<rparr>) (B\<lparr>o_MemUsed := x\<rparr>))"
    if "outofband_save AP l d A = Some B" for B d x
    using that Cons.prems(2) by (auto simp: outofband_save_def bind_eq_Some_conv lens_ok_def set_out_def sfx_emit_def split: if_splits)
  show ?case using Cons.prems save by (auto simp: bind_eq_Some_conv split: if_splits option.splits intro: Cons.IH)
qed simp

lemma lens_Cache: "AcceptorOutOfBandCache AP q A = Some A' \<Longrightarrow> lens_ok A \<Longrightarrow> lens_ok A'"
  using lens_evict by (auto simp: AcceptorOutOfBandCache_def bind_eq_Some_conv Let_def lens_ok_def)

lemma lens_new: "outofband_new E k A = (q, B) \<Longrightarrow> lens_ok A \<Longrightarrow> lens_ok B"
  by (auto simp: outofband_new_def Let_def lens_ok_def OUTOFBAND_ALLOC_def split: if_splits)

lemma lens_set_cache:
  "AcceptorOutOfBandCache AP q (set_out q f A) = Some A' \<Longrightarrow> lens_ok A \<Longrightarrow> (\<And>b. o_pData (f b) = Some d) \<Longrightarrow> 0 \<le> h_Len d
    \<Longrightarrow> lens_ok A'"
  by (erule lens_Cache, rule lens_set_out) auto

section \<open>The operations\<close>

lemma cut_len: "outofband_cut AP A m = Some m' \<Longrightarrow> 0 \<le> h_Len m \<Longrightarrow> 0 \<le> h_Len m'"
  by (auto simp: outofband_cut_def bind_eq_Some_conv Let_def SIZEOF_HEAD_def split: if_splits)

lemma Push_ok:
  assumes p: "PaxosAcceptorOutOfBandPush E AP m A = Some (q, A')" and ok: "books_ok A" and m: "0 \<le> h_Len m"
  shows "books_ok A'"
proof -
  obtain m' where cut: "outofband_cut AP A m = Some m'" using p by (auto simp: PaxosAcceptorOutOfBandPush_def bind_eq_Some_conv)
  obtain po B where B: "outofband_find (h_Id m') A = (po, B)" by (cases "outofband_find (h_Id m') A")
  have lB: "lens_ok B" using ok lens_out [OF find_fields(2) [OF B]] by (simp add: books_ok_def)
  obtain C f where c: "AcceptorOutOfBandCache AP q (set_out q f C) = Some A'" "lens_ok C" "\<And>b. o_pData (f b) = Some m'"
  proof (cases po)
    case None
    then show ?thesis using that [of "\<lambda>b. b\<lparr>o_pData := Some m', o_Last := time0 E +
             cdiv (PaxosDecidedTimeout (c_pPaxos (snd (outofband_new E (h_Id m') B))) +
               PaxosMasterElectionTimeout (c_pPaxos (snd (outofband_new E (h_Id m') B)))) 1000000\<rparr>"
        "snd (outofband_new E (h_Id m') B)"] p cut B lB lens_new
      by (cases "outofband_new E (h_Id m') B") (auto simp: PaxosAcceptorOutOfBandPush_def bind_eq_Some_conv Let_def)
  next
    case (Some r)
    define C where "C = (if o_bSaved (out B r)
        then set_out r (\<lambda>b. b\<lparr>o_bSaved := False\<rparr>) (sfx_emit (SxRemove (o_Id (out B r))) B) else B)"
    have "lens_ok C" using lB by (auto simp: C_def lens_ok_def set_out_def sfx_emit_def)
    then show ?thesis using that [of "\<lambda>b. b\<lparr>o_pData := Some m', o_Last := time0 E +
             cdiv (PaxosDecidedTimeout (c_pPaxos C) + PaxosMasterElectionTimeout (c_pPaxos C)) 1000000\<rparr>" C] p cut B Some
      by (auto simp: PaxosAcceptorOutOfBandPush_def bind_eq_Some_conv Let_def C_def)
  qed
  have "lens_ok A'" using lens_set_cache [OF c(1,2), of m'] c(3) cut_len [OF cut m] by simp
  moreover have "0 \<le> held_len A x" for x using held_len_pos ok by (simp add: books_ok_def)
  ultimately show ?thesis using Push_books [OF p] ok by (auto simp: books_ok_def split: option.splits)
qed

lemma Get_ok:
  assumes g: "PaxosAcceptorOutOfBandGet E AP k A = Some (r, A')" and ok: "books_ok A" and l: "loads_ok AP"
  shows "books_ok A'"
proof -
  obtain po B where B: "outofband_find k A = (po, B)" by (cases "outofband_find k A")
  note b = find_fields [OF B]
  have lB: "lens_ok B" using ok lens_out [OF b(2)] by (simp add: books_ok_def)
  consider (same) "A' = B" | (load) C f q d where "AcceptorOutOfBandCache AP q (set_out q f C) = Some A'" "lens_ok C"
      "\<And>b. o_pData (f b) = Some d" "0 \<le> h_Len d" "q \<in> set (o_Lnk C)"
  proof (cases "(\<exists>q d. po = Some q \<and> o_pData (out B q) = Some d) \<or> if_fOutOfBandLoad AP (c_Sfx B) k = None")
    case True
    then have "A' = B" using g B by (auto simp: PaxosAcceptorOutOfBandGet_def split: option.splits prod.splits)
    then show ?thesis by (rule same)
  next
    case False
    then obtain d where d: "if_fOutOfBandLoad AP (c_Sfx B) k = Some d" by blast
    then have len: "0 \<le> h_Len d" using l by (simp add: loads_ok_def)
    show ?thesis
    proof (cases po)
      case None
      obtain q C where C: "outofband_new E k B = (q, C)" by (cases "outofband_new E k B")
      have "q \<in> set (o_Lnk C)" using C by (auto simp: outofband_new_def Let_def)
      then show ?thesis using load [of q "\<lambda>b. b\<lparr>o_pData := Some d\<rparr>" C d] g B None d C lens_new [OF C lB] len
        by (auto simp: PaxosAcceptorOutOfBandGet_def bind_eq_Some_conv)
    next
      case (Some q)
      then have "entry_at A k = Some q" using b(4) by simp
      then have "q \<in> set (o_Lnk A)" using ok by (simp add: books_ok_def oob_ok_def entries_ok_def entry_of_def)
      then have "q \<in> set (o_Lnk B)" using b(1) by (simp add: same_entries_def)
      then show ?thesis using load [of q "\<lambda>b. b\<lparr>o_pData := Some d\<rparr>" B d] g B Some d False lB len
        by (auto simp: PaxosAcceptorOutOfBandGet_def bind_eq_Some_conv)
    qed
  qed
  then have "lens_ok A' \<and> o_MemUsed A' < o_MemLimit A'"
  proof cases
    case same
    then show ?thesis using lB ok b(3,7) by (simp add: books_ok_def)
  next
    case load
    have "q \<in> set (o_Lnk (set_out q f C))" using load(5) by (simp add: set_out_def)
    from Cache_books(4) [OF load(1) this] lens_set_cache [OF load(1,2), of d] load(3,4) show ?thesis by simp
  qed
  then show ?thesis using Get_books [OF g] ok by (simp add: books_ok_def)
qed

lemma Remove_ok:
  assumes ok: "books_ok A" and q: "q \<in> set (o_Lnk A)"
  shows "books_ok (OutOfBandRemove q A)"
proof -
  have "lens_ok (OutOfBandRemove q A) \<and> o_MemUsed (OutOfBandRemove q A) = o_MemUsed A - held_len A q
      \<and> o_MemLimit (OutOfBandRemove q A) = o_MemLimit A"
    using ok by (auto simp: books_ok_def lens_ok_def OutOfBandRemove_def Let_def set_out_def sfx_emit_def held_len_def
        split: option.splits)
  moreover have "0 \<le> held_len A q" using held_len_pos ok by (simp add: books_ok_def)
  ultimately show ?thesis using Remove_books [OF _ q] ok by (simp add: books_ok_def)
qed

lemma order_ok:
  assumes r: "outofband_order seq q A = Some A'" and q: "q \<in> set (o_Lnk A)" and ok: "books_ok A"
  shows "books_ok A'"
proof -
  have "lens_ok A' \<and> o_MemUsed A' = o_MemUsed A \<and> o_MemLimit A' = o_MemLimit A"
    using r ok by (auto simp: outofband_order_def Let_def bind_eq_Some_conv books_ok_def lens_ok_def set_out_def split: if_splits)
  then show ?thesis using order_books [OF r q] ok by (simp add: books_ok_def)
qed

lemma find_ok:
  assumes f: "outofband_find k A = (po, B)" and ok: "books_ok A"
  shows "books_ok B" and "po = Some q \<Longrightarrow> q \<in> set (o_Lnk B)"
proof -
  note b = find_fields [OF f]
  show "books_ok B" using ok oob_ok_same [OF b(1)] lens_out [OF b(2)] b(1,2,3,7)
    by (simp add: books_ok_def excess_def held_len_def same_entries_def)
  show "q \<in> set (o_Lnk B)" if "po = Some q"
  proof -
    have "entry_at A k = Some q" using b(4) that by simp
    then have "entry_of A k q" using ok by (simp add: books_ok_def oob_ok_def entries_ok_def)
    then show ?thesis using b(1) by (simp add: entry_of_def same_entries_def)
  qed
qed

lemma Validate_ok:
  assumes v: "PaxosAcceptorOutOfBandValidate E AP got seq m j A = Some (r, A')" and ok: "books_ok A"
    and len: "\<And>g. got = Some g \<Longrightarrow> 0 \<le> h_Len g"
  shows "books_ok A'"
proof -
  obtain po B where B: "outofband_find (h_Id m) A = (po, B)" by (cases "outofband_find (h_Id m) A")
  note b = find_ok [OF B ok]
  show ?thesis
  proof (cases po)
    case (Some q)
    then have "outofband_order seq q B = Some A'" using v B by (auto simp: PaxosAcceptorOutOfBandValidate_def)
    then show ?thesis using order_ok b Some by blast
  next
    case None
    then consider "A' = B" | g q C where "got = Some g" "PaxosAcceptorOutOfBandPush E AP g B = Some (q, C)" "outofband_order seq q C = Some A'"
      using v B by (auto simp: PaxosAcceptorOutOfBandValidate_def bind_eq_Some_conv split: if_splits option.splits)
    then show ?thesis
    proof cases
      case 1
      then show ?thesis using b(1) by simp
    next
      case 2
      have "oob_ok C" "entry_at C (h_Id g) = Some q" using Push_books [OF 2(2)] b(1) by (simp_all add: books_ok_def)
      then have "q \<in> set (o_Lnk C)" by (simp add: oob_ok_def entries_ok_def entry_of_def)
      then show ?thesis using order_ok [OF 2(3)] Push_ok [OF 2(2) b(1)] len 2(1) by simp
    qed
  qed
qed

lemma Pull_ok:
  assumes p: "PaxosAcceptorOutOfBandPull E AP m fd A = Some (r, A')" and ok: "books_ok A" and l: "loads_ok AP"
  shows "books_ok A'"
proof -
  obtain g B where B: "PaxosAcceptorOutOfBandGet E AP (h_Id m) A = Some (g, B)"
    using p by (auto simp: PaxosAcceptorOutOfBandPull_def bind_eq_Some_conv)
  note okB = Get_ok [OF B ok l]
  have emit: "books_ok (sfx_emit x C)" if "books_ok C" for x C
    using that by (simp add: books_ok_def oob_ok_def entries_ok_def entry_of_def entry_at_def data_safe_def lens_ok_def
        excess_def held_len_def sfx_emit_def)
  show ?thesis
  proof (cases g)
    case None
    then show ?thesis using p B emit [OF okB] by (auto simp: PaxosAcceptorOutOfBandPull_def)
  next
    case (Some d)
    obtain q where q: "entry_at B (h_Id m) = Some q" "o_pData (out B q) = Some d"
      using Get_books [OF B] ok Some by (auto simp: books_ok_def)
    have find: "fst (outofband_find (h_Id m) B) = Some q"
      using find_fields(4) [of "h_Id m" B] q(1) by (cases "outofband_find (h_Id m) B") auto
    obtain ck where A': "A' = (let d' = d\<lparr>h_Cksum64 := ck, h_From := int (c_MyId B)\<rparr>
        in sfx_emit (SxStream fd [d']) (set_out q (\<lambda>b. b\<lparr>o_pData := Some d'\<rparr>) B))"
      using p B Some find by (auto simp: PaxosAcceptorOutOfBandPull_def bind_eq_Some_conv SendStream_def Let_def)
    define d' where "d' = d\<lparr>h_Cksum64 := ck, h_From := int (c_MyId B)\<rparr>"
    have d': "h_Len d' = h_Len d" "A' = sfx_emit (SxStream fd [d']) (set_out q (\<lambda>b. b\<lparr>o_pData := Some d'\<rparr>) B)"
      using A' by (simp_all add: d'_def Let_def)
    define C where "C = set_out q (\<lambda>b. b\<lparr>o_pData := Some d'\<rparr>) B"
    have same: "same_entries B C" unfolding C_def by (rule set_data_same(1)) simp_all
    have h: "held_len C x = held_len B x" for x using q(2) d'(1) by (simp add: C_def held_len_def set_out_def)
    have "lens_ok C" using okB q(2) d'(1) by (auto simp: books_ok_def lens_ok_def C_def set_out_def)
    then have "books_ok C" using okB oob_ok_same [OF same] h same
      by (simp add: books_ok_def excess_def same_entries_def) (simp add: C_def set_out_def)
    then show ?thesis using emit d'(2) by (simp add: C_def)
  qed
qed

section \<open>Runs\<close>

datatype oob_event =
    Pushes env PaxosSessionHead_t
  | Gets env PaxosClientId_t
  | Pulls env PaxosSessionHead_t nat
  | Validates env "PaxosSessionHead_t option" u32 PaxosSessionHead_t int
  | Removes nat

fun oob_step :: "app \<Rightarrow> oob_event \<Rightarrow> PaxosAcceptor_t \<Rightarrow> PaxosAcceptor_t option" where
  "oob_step AP (Pushes E m) A = map_option snd (PaxosAcceptorOutOfBandPush E AP m A)"
| "oob_step AP (Gets E k) A = map_option snd (PaxosAcceptorOutOfBandGet E AP k A)"
| "oob_step AP (Pulls E m fd) A = map_option snd (PaxosAcceptorOutOfBandPull E AP m fd A)"
| "oob_step AP (Validates E got seq m j) A = map_option snd (PaxosAcceptorOutOfBandValidate E AP got seq m j A)"
| "oob_step AP (Removes q) A = (if q \<in> set (o_Lnk A) then Some (OutOfBandRemove q A) else None)"

text \<open>The lengths of the messages that come from outside are not negative.\<close>

fun event_ok :: "oob_event \<Rightarrow> bool" where
  "event_ok (Pushes E m) \<longleftrightarrow> 0 \<le> h_Len m"
| "event_ok (Validates E got seq m j) \<longleftrightarrow> (case got of Some g \<Rightarrow> 0 \<le> h_Len g | None \<Rightarrow> True)"
| "event_ok ev \<longleftrightarrow> True"

lemma step_ok: "oob_step AP ev A = Some A' \<Longrightarrow> event_ok ev \<Longrightarrow> loads_ok AP \<Longrightarrow> books_ok A \<Longrightarrow> books_ok A'"
  by (cases ev) (auto split: if_splits intro: Push_ok Get_ok Pull_ok Validate_ok Remove_ok)

lemma run_ok:
  assumes "for_each (oob_step AP) evs A = Some A'" and "\<And>ev. ev \<in> set evs \<Longrightarrow> event_ok ev" and "loads_ok AP" and "books_ok A"
  shows "books_ok A'"
  using assms by (induction evs arbitrary: A) (auto simp: bind_eq_Some_conv dest: step_ok)

lemma memory_bound:
  assumes "books_ok A"
  shows "(\<Sum>q \<in> set (o_Lnk A). held_len A q) \<le> o_MemUsed A \<and> o_MemUsed A < o_MemLimit A"
  using assms by (simp add: books_ok_def excess_def)

lemma init_ok:
  assumes "PaxosAcceptorInitUsec E n co ex lim ck v ps cell us = Some A" and "0 < lim"
  shows "books_ok A" and "o_MemUsed A = 0" and "o_MemLimit A = lim"
proof -
  show *: "o_MemUsed A = 0" "o_MemLimit A = lim" using assms(1) by (auto simp: PaxosAcceptorInitUsec_def bind_eq_Some_conv)
  have "lens_ok A"
    using assms(1) by (auto simp: PaxosAcceptorInitUsec_def bind_eq_Some_conv lens_ok_def OUTOFBAND_ALLOC_def)
  then show "books_ok A" using init_books [OF assms(1)] assms(2) * by (simp add: books_ok_def)
qed

text \<open>Where there is room, a push needs no file.\<close>

lemma cache_room:
  assumes "o_pData (out A q) = Some d" and "o_MemUsed A + h_Len d < o_MemLimit A"
  shows "AcceptorOutOfBandCache AP q A = Some (A\<lparr>o_MemUsed := o_MemUsed A + h_Len d\<rparr>)"
proof -
  have "outofband_evict AP q (h_Len d) (o_Lnk A) A = Some A" using assms(2) by (cases "o_Lnk A") simp_all
  then show ?thesis using assms by (simp add: AcceptorOutOfBandCache_def ASSERT_def)
qed

lemma push_room:
  assumes "h_Cksum64 m = 0" and "h_Len m < o_MemLimit A" and "o_MemUsed A + h_Len m < o_MemLimit A"
  shows "\<exists>q A'. PaxosAcceptorOutOfBandPush E AP m A = Some (q, A') \<and> o_MemUsed A' = o_MemUsed A + h_Len m
    \<and> o_MemLimit A' = o_MemLimit A"
proof -
  have cut: "cksum_ok AP m" "outofband_cut AP A m = Some m" using assms by (simp_all add: cksum_ok_def outofband_cut_def)
  obtain po B where B: "outofband_find (h_Id m) A = (po, B)" by (cases "outofband_find (h_Id m) A")
  note b = find_fields [OF B]
  define x where "x = (case po of None \<Rightarrow> outofband_new E (h_Id m) B
      | Some q \<Rightarrow> (q, if o_bSaved (out B q)
          then set_out q (\<lambda>b. b\<lparr>o_bSaved := False\<rparr>) (sfx_emit (SxRemove (o_Id (out B q))) B) else B))"
  obtain q C where x: "x = (q, C)" by (cases x)
  have C: "o_MemUsed C = o_MemUsed A" "o_MemLimit C = o_MemLimit A"
    using x b(3,7) by (auto simp: x_def outofband_new_def Let_def set_out_def sfx_emit_def split: option.splits if_splits)
  define D where "D = set_out q (\<lambda>b. b\<lparr>o_pData := Some m, o_Last := time0 E +
        cdiv (PaxosDecidedTimeout (c_pPaxos C) + PaxosMasterElectionTimeout (c_pPaxos C)) 1000000\<rparr>) C"
  have "AcceptorOutOfBandCache AP q D = Some (D\<lparr>o_MemUsed := o_MemUsed D + h_Len m\<rparr>)"
    by (rule cache_room) (use assms(3) C in \<open>simp_all add: D_def set_out_def\<close>)
  then have "PaxosAcceptorOutOfBandPush E AP m A = Some (q, D\<lparr>o_MemUsed := o_MemUsed D + h_Len m\<rparr>)"
    using x by (cases po) (simp_all add: PaxosAcceptorOutOfBandPush_def ASSERT_def cut B Let_def x_def D_def)
  then show ?thesis using C by (simp add: D_def set_out_def)
qed

lemma push_again:
  assumes p: "PaxosAcceptorOutOfBandPush E AP m A = Some (q', A')" and at: "entry_at A (h_Id m) = Some q"
  shows "q' = q"
proof -
  obtain m' where cut: "outofband_cut AP A m = Some m'" using p by (auto simp: PaxosAcceptorOutOfBandPush_def bind_eq_Some_conv)
  obtain po B where B: "outofband_find (h_Id m) A = (po, B)" by (cases "outofband_find (h_Id m) A")
  have "po = Some q" using find_fields(4) [OF B] at by simp
  then show ?thesis using p B cut cut_id [OF cut] by (auto simp: PaxosAcceptorOutOfBandPush_def bind_eq_Some_conv Let_def)
qed

end
