(* ===== verification/Session_Examples.thy ===== *)
theory Session_Examples
  imports Session_Restore Session_Books Paxos_Examples
begin

text \<open>
  An acceptor as the code sets it up, and a small application above it, on which the properties of the
  session server are applied. A command is three bytes: what to do, the client, and its number.
\<close>

lemma init_sessions:
  assumes "PaxosAcceptorInitUsec E n co ex lim ck v ps cell us = Some A"
  shows "sessions_ok A \<and> session_at A = Map.empty \<and> ge_Cnt (c_Accept A) = 0 \<and> ge_MaxCnt (c_Accept A) = 20000
    \<and> delivered k A = [] \<and> c_Sfx A = []"
proof -
  have A: "c_Accept A = GElmCtrlInit 20000 1009 HashSessionCode HashSessionCompare (AcceptAlloc E)" "c_Sfx A = []"
    using assms by (auto simp: PaxosAcceptorInitUsec_def bind_eq_Some_conv)
  show ?thesis using sessions.ok_Init [of "1009 :: u32" 20000 "AcceptAlloc E"]
    by (simp add: A delivered_def) (simp add: GElmCtrlInit_def)
qed

definition ex_parse :: "u8 list \<Rightarrow> PaxosSessionHead_t" where
  "ex_parse bs = (case bs of
     [c, n, s] \<Rightarrow> (SESSION_MSGINIT (if c = 0 then PAXOS_SESSION_OPEN else PAXOS_APPLICATION (unat c)) 0 0 8)
        \<lparr>h_Id := client_zero\<lparr>i_No := uint n, i_Seq := ucast s\<rparr>\<rparr>
   | _ \<Rightarrow> SESSION_MSGINIT PAXOS_SESSION_ANY 0 0 8)"

definition ex_app :: app where
  "ex_app = \<lparr>if_fSessionOpen = (\<lambda>_ _. (0, [])), if_fSessionClose = (\<lambda>_ _. (0, [])),
     if_fAccepted = (\<lambda>_ m. (0, [AcReply True m])), if_fRequest = (\<lambda>_ _. AqPropose False), if_fRejected = (\<lambda>_ _. 0),
     if_fValidate = (\<lambda>_ _ _ _. 0), if_fOutOfBandSave = (\<lambda>_ _. 0), if_fOutOfBandLoad = (\<lambda>_ _. None),
     if_fLock = (\<lambda>_. 0), if_fAdaptorMarshal = None, if_fAdaptorUnmarshal = False,
     ap_image = (\<lambda>_. replicate 8 0), ap_parse = ex_parse, ap_send = (\<lambda>_ _. 0), ap_ofs_From = 0,
     ap_member = (\<lambda>_. (0, addr_zero)), ap_cell = (\<lambda>_ _. [])\<rparr>"

lemma ex_app_obliging: "obliging ex_app"
  by (auto simp: obliging_def answers_def answers_at_def ex_app_def)

definition ex_acceptor :: PaxosAcceptor_t where
  "ex_acceptor = the (PaxosAcceptorInitUsec ex_env 0 1 0 1000 False 0 (\<lambda>_. addr_zero) (ex_cell 1) 100000)"

lemma ex_acceptor_init:
  "PaxosAcceptorInitUsec ex_env 0 1 0 1000 False 0 (\<lambda>_. addr_zero) (ex_cell 1) 100000 = Some ex_acceptor"
  by (simp add: ex_acceptor_def PaxosAcceptorInitUsec_def ex_init_ok)

lemmas ex_acceptor_sessions = init_sessions [OF ex_acceptor_init]

definition ex_entry :: "u32 \<Rightarrow> u8 list \<Rightarrow> PaxosExecute_t" where
  "ex_entry seq c = \<lparr>e_Seq = seq, e_Validate = False, e_BackSeq = seq, e_Notify = PAXOS_ACCEPTED, e_Cmd = c\<rparr>"

abbreviation ex_client :: PaxosClientId_t where "ex_client \<equiv> h_Id (ex_parse [0, 7, 1])"

lemma ex_client_data:
  "ex_parse [0, 7, 1] = (SESSION_MSGINIT PAXOS_SESSION_OPEN 0 0 8)\<lparr>h_Id := ex_client\<rparr>"
  "ap_parse ex_app = ex_parse" "i_Seq ex_client = 1" "i_SeqWait ex_client = 0" "h_Cmd (ex_parse [0, 7, 1]) = PAXOS_SESSION_OPEN"
  "e_Cmd (ex_entry n c) = c" "entry_ok (ex_entry n c)" "e_Notify (ex_entry n c) = PAXOS_ACCEPTED"
  by (simp_all add: ex_parse_def SESSION_MSGINIT_def client_zero_def ex_app_def ex_entry_def entry_ok_def)

lemma ex_first: "0 < CMP 1 (0 :: u32)"
  by code_simp

text \<open>The session of the client after it was opened.\<close>

lemma ex_opened:
  "\<exists>A p. execute_one ex_env ex_app [] (ex_entry 1 [0, 7, 1]) ex_acceptor = Some (Goes A) \<and> done_to ex_client p 1 A
    \<and> delivered ex_client A = []"
proof -
  have "follow ex_app ex_client 1 []" by simp
  from replica_run [OF ex_app_obliging ex_client_data(7) refl, of 1 "[0, 7, 1]" ex_acceptor "[]" ex_env] this
  show ?thesis using ex_acceptor_sessions [of ex_client]
    by (auto simp: ex_client_data(2-6) ex_first numbers_def went_Some bind_eq_Some_conv)
qed

lemma ex_second_new: "done_to ex_client p 1 A \<Longrightarrow> is_new A p (ex_parse [1, 7, 2])"
proof -
  assume "done_to ex_client p 1 A"
  moreover have "0 < CMP (i_Seq (h_Id (ex_parse [1, 7, 2]))) 1" "CMP (i_SeqWait (h_Id (ex_parse [1, 7, 2]))) 1 \<le> 0"
    "i_Seq (h_Id (ex_parse [1, 7, 2])) \<noteq> 1" by code_simp+
  ultimately show ?thesis by (simp add: is_new_def done_to_def)
qed

lemma ex_second:
  assumes "done_to ex_client p 1 A"
  shows "\<exists>A'. execute_one ex_env ex_app [] (ex_entry 2 [1, 7, 2]) A = Some (Goes A')"
proof -
  have "follow ex_app ex_client 1 [(ex_env, ex_entry 2 [1, 7, 2])]" by code_simp
  from replica_data [OF this ex_app_obliging assms] show ?thesis by (auto simp: went_Some bind_eq_Some_conv)
qed

lemma ex_second_done:
  assumes e: "execute_one ex_env ex_app [] (ex_entry 2 [1, 7, 2]) A = Some (Goes A')" and A: "done_to ex_client p 1 A"
    "delivered ex_client A = []"
  shows "sessions_ok A'" "session_at A' ex_client = Some p" "is_open A' p" "a_Cmd (acc A' p) = Some (PAXOS_APPLICATION 1)"
    "delivered ex_client A' = [2]"
proof -
  have d: "sessions_ok A" "session_at A ex_client = Some p" "is_open A p" using A(1) by (simp_all add: done_to_def)
  have m: "HashSessionCompare (h_Id (ex_parse [1, 7, 2])) ex_client = 0" "is_data (h_Cmd (ex_parse [1, 7, 2]))"
    "i_Seq (h_Id (ex_parse [1, 7, 2])) = 2" "h_Cmd (ex_parse [1, 7, 2]) = PAXOS_APPLICATION 1" by code_simp+
  have "answers_at ex_app (ex_parse [1, 7, 2])" using ex_app_obliging by (simp add: obliging_def answers_def)
  with data_request [OF e refl d] m ex_second_new [OF A(1)] A(2)
  show "sessions_ok A'" "session_at A' ex_client = Some p" "is_open A' p" "a_Cmd (acc A' p) = Some (PAXOS_APPLICATION 1)"
    "delivered ex_client A' = [2]"
    by (simp_all add: ex_client_data(2,6))
qed

text \<open>The application when it takes the requests but does not answer them yet.\<close>

definition ex_late :: app where
  "ex_late = ex_app\<lparr>if_fAccepted := (\<lambda>_ _. (0, []))\<rparr>"

lemma ex_late_twice:
  assumes "done_to ex_client p 1 A" and "delivered ex_client A = []"
  shows "\<exists>B C. execute_one ex_env ex_late [] (ex_entry 2 [1, 7, 2]) A = Some (Goes B)
    \<and> execute_one ex_env ex_late [] (ex_entry 3 [1, 7, 2]) B = Some (Goes C)
    \<and> a_Start (acc B p) = 2 \<and> a_Cmd (acc B p) = Some (PAXOS_APPLICATION 1) \<and> delivered ex_client C = [2]"
proof -
  let ?m = "ex_parse [1, 7, 2]"
  have m: "HashSessionCompare (h_Id ?m) ex_client = 0" "is_data (h_Cmd ?m)"
    "i_Seq (h_Id ?m) = 2" "h_Cmd ?m = PAXOS_APPLICATION 1" by code_simp+
  have parse: "?m = ap_parse ex_late (e_Cmd (ex_entry n [1, 7, 2]))" for n by (simp add: ex_late_def ex_client_data)
  have d: "sessions_ok A" "session_at A ex_client = Some p" "is_open A p" "a_pFd (acc A p) = None"
    using assms(1) by (simp_all add: done_to_def)
  note new = ex_second_new [OF assms(1)]
  have entry: "e_Notify (ex_entry n c) = PAXOS_ACCEPTED" "\<not> e_Validate (ex_entry n c)" for n c by (simp_all add: ex_entry_def)
  obtain B where B: "execute_one ex_env ex_late [] (ex_entry 2 [1, 7, 2]) A = Some (Goes B)" "a_pFd (acc B p) = None"
  proof -
    have "\<exists>A'. execute_one ex_env ex_late [] (ex_entry 2 [1, 7, 2]) A = Some (Goes A') \<and> a_pFd (acc A' p) = None"
      by (rule data_silent [OF entry(1) parse d m(1,2) new]) (use entry(2) in \<open>simp_all add: ex_late_def\<close>)
    then show thesis using that by blast
  qed
  have b: "sessions_ok B" "session_at B ex_client = Some p" "is_open B p" "a_Start (acc B p) = i_Seq (h_Id ?m)"
    "a_Cmd (acc B p) = Some (h_Cmd ?m)" "delivered ex_client B = [2]"
    using data_request [OF B(1) parse d(1-3) m(1,2)] new assms(2) m(3) by simp_all
  obtain C where C: "execute_one ex_env ex_late [] (ex_entry 3 [1, 7, 2]) B = Some (Goes C)"
    using repeat_silent [OF entry(1) parse b(1-3) B(2) m(1,2) b(4,5)] by blast
  have "\<not> is_new B p ?m" using b(4,5) by (simp add: is_new_def)
  then have "delivered ex_client C = [2]" using data_request [OF C parse b(1-3) m(1,2)] b(6) by simp
  then show ?thesis using B(1) C b m(3,4) by auto
qed

definition ex_big :: PaxosSessionHead_t where
  "ex_big = (SESSION_MSGINIT (PAXOS_APPLICATION 1) 0 0 8)\<lparr>h_Id := ex_client\<rparr>"

lemma ex_big_data: "h_Cksum64 ex_big = 0" "h_Len ex_big = 8" "h_Id ex_big = ex_client"
  by (simp_all add: ex_big_def SESSION_MSGINIT_def)

lemma ex_acceptor_books: "books_ok ex_acceptor" "o_MemUsed ex_acceptor = 0" "o_MemLimit ex_acceptor = 1000"
  "oob_ok ex_acceptor" "excess {} ex_acceptor = 0" "entry_at ex_acceptor k = None"
  using init_ok [OF ex_acceptor_init] init_books [OF ex_acceptor_init] by simp_all

text \<open>A session with a reply kept for its client and an event raised for it.\<close>

lemma ex_kept_session:
  "\<exists>p A. sessions_ok A \<and> session_at A = (\<lambda>k. if HashSessionCompare ex_client k = 0 then Some p else None)
    \<and> ge_Cnt (c_Accept A) = 1 \<and> acc A p = (AcceptAlloc ex_env)\<lparr>a_Id := ex_client, a_Master := True, r_Msg := [[ex_big]],
      r_Cnt := 1, ev_pRaised := Some [ex_big], ev_Cnt := 1\<rparr>"
proof -
  obtain p A1 where A1: "PaxosAcceptGet ex_env ex_client True ex_acceptor = Some (Goes (Some p, A1))" "ge_Cnt (c_Accept A1) = 1"
    using get_new_held [of ex_acceptor ex_client ex_env] ex_acceptor_sessions [of ex_client] by auto
  have g: "sessions_ok A1" "session_at A1 = (\<lambda>k. if HashSessionCompare ex_client k = 0 then Some p else None)"
    "acc A1 p = (AcceptAlloc ex_env)\<lparr>a_Id := ex_client\<rparr>"
    using get_new_session [OF A1(1), of ex_client] get_new_others [OF A1(1)] ex_acceptor_sessions [of ex_client] by auto
  define f :: "PaxosAccept_t \<Rightarrow> PaxosAccept_t" where
    "f = (\<lambda>a. a\<lparr>a_Master := True, a_Reply := a_Start a, r_Msg := [[ex_big]], r_Cnt := 1\<rparr>)"
  define h :: "PaxosAccept_t \<Rightarrow> PaxosAccept_t" where "h = (\<lambda>a. a\<lparr>ev_pRaised := Some [ex_big], ev_Cnt := 1\<rparr>)"
  have r: "do_appcall ex_app p (AcReply True ex_big) A1 = Some (set_acc p f A1)"
    by (simp add: PaxosAcceptReplyByMsg_def PaxosAcceptReplyByMsg1_def PaxosAcceptFreeReply_def PaxosAcceptRelease1_def
        acc_set_acc g(3) AcceptAlloc_def Let_def) (simp add: set_acc_def set_elm_def f_def)
  have e: "do_appcall ex_app p (AcRaise p ex_big) (set_acc p f A1) = Some (set_acc p h (set_acc p f A1))"
    by (simp add: PaxosAcceptEventRaise_def acc_set_acc g(3) f_def AcceptAlloc_def Let_def) (simp add: set_acc_def set_elm_def h_def g(3) AcceptAlloc_def)
  have k: "session_holds ex_client {} A1 (set_acc p h (set_acc p f A1))"
    using keeping.trans [OF keeps_appcall [OF r] keeps_appcall [OF e]] .
  moreover have "ge_Cnt (c_Accept (set_acc p h (set_acc p f A1))) = 1" by (simp add: set_acc_def set_elm_def A1(2))
  moreover have "acc (set_acc p h (set_acc p f A1)) p = (AcceptAlloc ex_env)\<lparr>a_Id := ex_client, a_Master := True, r_Msg := [[ex_big]],
      r_Cnt := 1, ev_pRaised := Some [ex_big], ev_Cnt := 1\<rparr>"
    by (simp add: acc_set_acc g(3) f_def h_def AcceptAlloc_def)
  ultimately show ?thesis using g by (intro exI [of _ p] exI [of _ "set_acc p h (set_acc p f A1)"]) (simp add: session_holds_def)
qed

lemma ex_pushed:
  "\<exists>q A. PaxosAcceptorOutOfBandPush ex_env ex_app ex_big ex_acceptor = Some (q, A) \<and> o_MemUsed A = 8 \<and> o_MemLimit A = 1000"
  using push_room [of ex_big ex_acceptor ex_env ex_app] by (simp add: ex_big_data ex_acceptor_books)

end
