(* ===== verification/Session_Properties.thy ===== *)
theory Session_Properties
  imports Session_Examples
begin

text \<open>
  The properties of the session server, each with a concrete application of it.
\<close>





text \<open>
  C19: (functional) The execution of a request for data of an open session, when it comes to its end,
  hands the request to the application exactly when its number is above the last one answered, it is not
  the one started last with the same command, and the request it waits for has ended. The request is
  then the last one started and ended, and the session stays open; the number answered last is that of
  the request or stays as it was, and it is that of the request when the application answers it before
  \<open>if_fAccepted\<close> returns.
\<close>

theorem request_delivered_iff_new:
  assumes "execute_one E AP [] e A = Some (Goes A')" and "m = ap_parse AP (e_Cmd e)"
    and "sessions_ok A" and "session_at A k = Some p" and "is_open A p"
    and "HashSessionCompare (h_Id m) k = 0" and "is_data (h_Cmd m)"
  shows "delivered k A' = delivered k A @ (if is_new A p m then [i_Seq (h_Id m)] else [])
    \<and> (is_new A p m \<longrightarrow> sessions_ok A' \<and> session_at A' k = Some p \<and> is_open A' p \<and>
      a_Start (acc A' p) = i_Seq (h_Id m) \<and> a_End (acc A' p) = i_Seq (h_Id m) \<and> a_Cmd (acc A' p) = Some (h_Cmd m) \<and>
      a_Reply (acc A' p) \<in> {a_Reply (acc A p), i_Seq (h_Id m)} \<and>
      (answers_at AP m \<longrightarrow> a_Reply (acc A' p) = i_Seq (h_Id m)))"
  using assms by (rule data_request)

lemma request_delivered_iff_new_witness:
  "\<exists>A A' p. done_to ex_client p 1 A \<and> execute_one ex_env ex_app [] (ex_entry 2 [1, 7, 2]) A = Some (Goes A') \<and>
    delivered ex_client A' = [2] \<and> a_Reply (acc A' p) = 2 \<and> a_Cmd (acc A' p) = Some (PAXOS_APPLICATION 1)"
proof -
  obtain A p where A: "done_to ex_client p 1 A" "delivered ex_client A = []" using ex_opened by blast
  obtain A' where A': "execute_one ex_env ex_app [] (ex_entry 2 [1, 7, 2]) A = Some (Goes A')"
    using ex_second [OF A(1)] by blast
  have d: "sessions_ok A" "session_at A ex_client = Some p" "is_open A p" using A(1) by (simp_all add: done_to_def)
  have m: "HashSessionCompare (h_Id (ex_parse [1, 7, 2])) ex_client = 0" "is_data (h_Cmd (ex_parse [1, 7, 2]))"
    "i_Seq (h_Id (ex_parse [1, 7, 2])) = 2" "h_Cmd (ex_parse [1, 7, 2]) = PAXOS_APPLICATION 1" by code_simp+
  have n: "is_new A p (ex_parse [1, 7, 2])" by (rule ex_second_new [OF A(1)])
  have ans: "answers_at ex_app (ex_parse [1, 7, 2])" using ex_app_obliging by (simp add: obliging_def answers_def)
  from request_delivered_iff_new [OF A' refl d] m n ans A(2)
  have "delivered ex_client A' = [2] \<and> a_Reply (acc A' p) = 2 \<and> a_Cmd (acc A' p) = Some (PAXOS_APPLICATION 1)"
    by (simp add: ex_client_data(2,6))
  with A(1) A' show ?thesis by blast
qed

text \<open>
  C37: (error) A client that opens its session again under the same identity, while the session is
  open and its last request was not the opening, is never served: whatever the other threads of the
  server do meanwhile, the thread that executes waits, and with it every other client.
\<close>

theorem stale_open_waits_for_ever:
  assumes "e_Notify e = PAXOS_ACCEPTED" and "m = ap_parse AP (e_Cmd e)" and "h_Cmd m = PAXOS_SESSION_OPEN"
    and "sessions_ok A" and "session_at A (h_Id m) = Some p" and "is_open A p"
    and "a_Cmd (acc A p) \<noteq> None" and "a_Cmd (acc A p) \<noteq> Some PAXOS_SESSION_OPEN"
    and "PaxosAcceptGet E (h_Id m) True A = Some (Goes (Some p, B))"
    and "\<And>C. C \<in> set ws \<Longrightarrow> \<exists>evs. (\<forall>ev \<in> set evs. own_request AP (h_Id m) ev = None) \<and> for_each (session_step AP) evs B = Some C"
  shows "\<exists>C. execute_one E AP ws e A = Some (Waits C)"
  using assms by (rule stale_open)

lemma stale_open_waits_for_ever_witness:
  "\<exists>A C. execute_one ex_env ex_app [] (ex_entry 3 [0, 7, 1]) A = Some (Waits C) \<and> delivered ex_client A = [2]"
proof -
  obtain A1 p where A1: "done_to ex_client p 1 A1" "delivered ex_client A1 = []" using ex_opened by blast
  obtain A where run: "execute_one ex_env ex_app [] (ex_entry 2 [1, 7, 2]) A1 = Some (Goes A)"
    using ex_second [OF A1(1)] by blast
  note A = ex_second_done [OF run A1]
  obtain B where B: "PaxosAcceptGet ex_env ex_client True A = Some (Goes (Some p, B))"
    using get_held [of A ex_client p ex_client ex_env True] A by (auto simp: session_key.cmp_refl)
  have "\<exists>C. execute_one ex_env ex_app [] (ex_entry 3 [0, 7, 1]) A = Some (Waits C)"
    by (rule stale_open_waits_for_ever [OF _ refl, where p = p and B = B]) (use A B in \<open>simp_all add: ex_client_data(2,5,6,8)\<close>)
  with A show ?thesis by blast
qed

text \<open>
  (functional) Out-of-band data that is pushed is kept, cut to its head when it is as large as the
  memory allowed, under its identity and no other; the entries stay in order and those without data in
  memory are saved. When data in memory is replaced, its bytes remain counted as used.
\<close>

theorem outofband_push:
  assumes "PaxosAcceptorOutOfBandPush E AP m A = Some (q, A')" and "oob_ok A"
  shows "oob_ok A' \<and> o_MemUsed A' < o_MemLimit A' \<and> entry_at A' (h_Id m) = Some q
    \<and> o_pData (out A' q) = outofband_cut AP A m
    \<and> (\<forall>k. AcceptorHashOutOfBandCompare (h_Id m) k \<noteq> 0 \<longrightarrow> entry_at A' k = entry_at A k)
    \<and> excess {} A' = excess {} A + (case entry_at A (h_Id m) of Some q \<Rightarrow> held_len A q | None \<Rightarrow> 0)"
  using assms by (rule Push_books)

lemma outofband_push_witness:
  "\<exists>q A A'. PaxosAcceptorOutOfBandPush ex_env ex_app ex_big ex_acceptor = Some (q, A) \<and>
     PaxosAcceptorOutOfBandPush ex_env ex_app ex_big A = Some (q, A') \<and> excess {} A = 0 \<and> excess {} A' = 8"
proof -
  obtain q A where A: "PaxosAcceptorOutOfBandPush ex_env ex_app ex_big ex_acceptor = Some (q, A)" "o_MemUsed A = 8" "o_MemLimit A = 1000"
    using ex_pushed by blast
  note 1 = outofband_push [OF A(1) ex_acceptor_books(4)]
  have cut: "outofband_cut ex_app ex_acceptor ex_big = Some ex_big"
    by (simp add: outofband_cut_def ex_big_data ex_acceptor_books)
  have a: "oob_ok A" "entry_at A (h_Id ex_big) = Some q" "held_len A q = 8" "excess {} A = 0"
    using 1 by (simp_all add: cut held_len_def ex_big_data ex_acceptor_books)
  obtain q' A' where A': "PaxosAcceptorOutOfBandPush ex_env ex_app ex_big A = Some (q', A')"
    using push_room [of ex_big A ex_env ex_app] A(2,3) by (auto simp: ex_big_data)
  have "q' = q" by (rule push_again [OF A' a(2)])
  with outofband_push [OF A' a(1)] a A A' show ?thesis by auto
qed

text \<open>
  C20: (bounds) Over any run of the operations on the out-of-band data of an acceptor, with messages and
  loaded data whose lengths are not negative, the bytes kept in memory are at most those counted as used,
  which stay below the limit, and every entry without data in memory is saved.
\<close>

theorem outofband_memory_bounded:
  assumes "PaxosAcceptorInitUsec E n co ex lim ck v ps cell us = Some A" and "0 < lim" and "loads_ok AP"
    and "for_each (oob_step AP) evs A = Some A'" and "\<And>ev. ev \<in> set evs \<Longrightarrow> event_ok ev"
  shows "oob_ok A' \<and> (\<Sum>q \<in> set (o_Lnk A'). held_len A' q) \<le> o_MemUsed A' \<and> o_MemUsed A' < o_MemLimit A'"
proof -
  have "books_ok A'" using run_ok [OF assms(4,5,3) init_ok(1) [OF assms(1,2)]] by blast
  then show ?thesis using memory_bound by (simp add: books_ok_def)
qed

lemma outofband_memory_bounded_witness:
  "\<exists>A. for_each (oob_step ex_app) [Pushes ex_env ex_big, Pushes ex_env ex_big] ex_acceptor = Some A \<and>
     (\<Sum>q \<in> set (o_Lnk A). held_len A q) \<le> o_MemUsed A \<and> o_MemUsed A < 1000"
proof -
  obtain q A where A: "PaxosAcceptorOutOfBandPush ex_env ex_app ex_big ex_acceptor = Some (q, A)" "o_MemUsed A = 8" "o_MemLimit A = 1000"
    using ex_pushed by blast
  obtain q' A' where A': "PaxosAcceptorOutOfBandPush ex_env ex_app ex_big A = Some (q', A')" "o_MemLimit A' = 1000"
    using push_room [of ex_big A ex_env ex_app] A(2,3) by (auto simp: ex_big_data)
  have run: "for_each (oob_step ex_app) [Pushes ex_env ex_big, Pushes ex_env ex_big] ex_acceptor = Some A'"
    using A A' by simp
  have "loads_ok ex_app" by (simp add: loads_ok_def ex_app_def)
  from outofband_memory_bounded [OF ex_acceptor_init _ this run] have
    "(\<Sum>q \<in> set (o_Lnk A'). held_len A' q) \<le> o_MemUsed A' \<and> o_MemUsed A' < o_MemLimit A'" by (auto simp: ex_big_data)
  then show ?thesis using run A'(2) by auto
qed

text \<open>
  C21: (roundtrip) The sessions of an acceptor written to a snapshot and read into an acceptor without
  sessions and with room for them are there again, with the same numbers, replies and events but without
  a connection; those whose last request was to close are not written. The counts of replies and events
  kept in every session agree with the replies and events themselves, as they do after every call that
  changes them and as they do not after the reset of a session used again
  (\<open>counted_appcall\<close>, \<open>reset_breaks_the_counts\<close>), and the application has both functions for its
  own part of the snapshot or neither.
\<close>

theorem sessions_snapshot_roundtrip:
  assumes "sessions_ok A" and "sessions_ok B" and "session_at B = Map.empty"
    and "ge_Cnt (c_Accept B) + ge_Cnt (c_Accept A) \<le> ge_MaxCnt (c_Accept B)" and "adaptor_fits AP"
    and "\<And>k p. session_at A k = Some p \<Longrightarrow> counts_fit (acc A p)"
  shows "\<exists>B'. PaxosAcceptorUnmarshal E AP (PaxosAcceptorMarshal AP A) B = Some (Goes B') \<and> sessions_ok B'
    \<and> (\<forall>k. case session_at A k of
          None \<Rightarrow> session_at B' k = None
        | Some p \<Rightarrow> if in_snapshot (acc A p) then \<exists>q. session_at B' k = Some q \<and> acc B' q = restored E (acc A p)
                   else session_at B' k = None)"
  using assms by (rule restore)

lemma sessions_snapshot_roundtrip_witness:
  "\<exists>A B' q. session_at A ex_client \<noteq> None \<and>
     PaxosAcceptorUnmarshal ex_env ex_app (PaxosAcceptorMarshal ex_app A) ex_acceptor = Some (Goes B') \<and>
     session_at B' ex_client = Some q \<and> r_Msg (acc B' q) = [[ex_big]] \<and> r_Cnt (acc B' q) = 1 \<and>
     ev_pRaised (acc B' q) = Some [ex_big] \<and> ev_Cnt (acc B' q) = 1"
proof -
  obtain p A where A: "sessions_ok A" "session_at A = (\<lambda>k. if HashSessionCompare ex_client k = 0 then Some p else None)"
    "ge_Cnt (c_Accept A) = 1" "acc A p = (AcceptAlloc ex_env)\<lparr>a_Id := ex_client, a_Master := True, r_Msg := [[ex_big]],
      r_Cnt := 1, ev_pRaised := Some [ex_big], ev_Cnt := 1\<rparr>" using ex_kept_session by blast
  have fit: "counts_fit (acc A p)" "in_snapshot (acc A p)" by (simp_all add: A(4) counts_fit_def in_snapshot_def AcceptAlloc_def)
  have at: "session_at A ex_client = Some p" by (simp add: A(2) session_key.cmp_refl)
  have "\<exists>B'. PaxosAcceptorUnmarshal ex_env ex_app (PaxosAcceptorMarshal ex_app A) ex_acceptor = Some (Goes B') \<and> sessions_ok B'
    \<and> (\<forall>k. case session_at A k of
          None \<Rightarrow> session_at B' k = None
        | Some p \<Rightarrow> if in_snapshot (acc A p) then \<exists>q. session_at B' k = Some q \<and> acc B' q = restored ex_env (acc A p)
                   else session_at B' k = None)"
    by (intro sessions_snapshot_roundtrip)
      (use fit A(1-3) ex_acceptor_sessions [of ex_client] in \<open>auto simp: adaptor_fits_def ex_app_def split: if_splits\<close>)
  then obtain B' where B': "PaxosAcceptorUnmarshal ex_env ex_app (PaxosAcceptorMarshal ex_app A) ex_acceptor = Some (Goes B')"
    "case session_at A ex_client of None \<Rightarrow> session_at B' ex_client = None
        | Some p \<Rightarrow> if in_snapshot (acc A p) then \<exists>q. session_at B' ex_client = Some q \<and> acc B' q = restored ex_env (acc A p)
                   else session_at B' ex_client = None" by blast
  obtain q where "session_at B' ex_client = Some q" "acc B' q = restored ex_env (acc A p)" using B'(2) at fit(2) by auto
  then show ?thesis using at B'(1) by (intro exI [of _ A] exI [of _ B'] exI [of _ q]) (simp add: A(4) restored_def)
qed

end
