(* ===== verification/Session_Client.thy ===== *)
theory Session_Client
  imports Session_OutOfBand
begin

text \<open>
  The client of a cell, from \<^verbatim>\<open>session/src/PaxosSessionClient.c\<close>: its connections to the servers, the
  search for the master, the threads that receive, and the request that is sent again, to whatever
  server is the master, until its reply comes. The thread with a request is a state machine, since it
  gives up the lock while it waits; every other function is one step.
\<close>

section \<open>Data\<close>

text \<open>
  A connection (\<open>Server_t\<close>) with the descriptor of its \<open>s_pEvent\<close>; the bits of \<open>s_Status\<close>; the part of the
  cell's configuration that is used; a piece of a request (\<open>MsgVec_t\<close>): one with \<open>VEC_HEAD\<close> begins with a
  head and may carry \<open>VEC_REPLY\<close>, and any piece may be disabled.
\<close>

record Connection_t =
  sv_Binded :: bool
  sv_CheckLast :: int
  sv_MyAddr :: sockaddr_in
  sv_Fd :: "nat option"

datatype status_bit = SB_INIT | SB_ACTIVE | SB_ISSUED | SB_CLOSED | SB_WAIT

record PaxosSessionCell_t =
  cl_Version :: u32
  cl_Maximum :: nat
  cl_aPeerAddr :: "nat \<Rightarrow> sockaddr_in"

datatype cvec = CHead bool bool PaxosSessionHead_t | CData bool "u8 list"

text \<open>
  The thread that holds \<open>s_Serialize\<close>: its request, the number and the command of the reply it waits for,
  and where it is: about to send, waiting for the election with so many connections left to try, waiting
  for the reply of a server, or back with its result.
\<close>

datatype phase = RqAgain | RqElect nat | RqWait int | RqDone "PaxosSessionHead_t option"

record creq_t =
  rq_Vecs :: "cvec list"
  rq_Seq :: u32
  rq_Cmd :: "PaxosCmd option"
  rq_Update :: bool
  rq_Phase :: phase

text \<open>What a client does to the outside.\<close>

datatype cfx =
    CxConnect nat "nat option"
  | CxSend nat cvec
  | CxClose nat
  | CxHealth
  | CxUnlist

record Session_t =
  s_Err :: int
  s_Status :: "status_bit set"
  s_Master :: int
  s_NewMaster :: nat
  s_Reader :: int
  s_Id :: PaxosClientId_t
  s_Update :: u32
  s_MasterElectionUsec :: int
  s_UnitUsec :: int
  s_Max :: nat
  s_Maximum :: nat
  s_pServer :: "nat \<Rightarrow> Connection_t"
  s_pJeopard :: "nat \<Rightarrow> int"
  s_Post :: "PaxosSessionHead_t Queue"
  s_Recv :: "PaxosSessionHead_t Queue"
  s_Data :: "PaxosSessionHead_t Queue"
  s_pCell :: PaxosSessionCell_t
  s_Sync :: bool
  s_NoMaster :: int
  s_Health :: bool
  s_Req :: "creq_t option"
  s_Cx :: "cfx list"

text \<open>
  The functions a client is given: a connection to a server, the result of a send, the address of a
  connection, and the configuration a \<open>GET_MEMBER\<close> reply carries.
\<close>

record client_io =
  ci_Connect :: "cfx list \<Rightarrow> nat \<Rightarrow> nat option"
  ci_SendTo :: "cfx list \<Rightarrow> nat \<Rightarrow> int"
  ci_MyAddr :: "nat \<Rightarrow> sockaddr_in"
  ci_Cell :: "PaxosSessionHead_t \<Rightarrow> PaxosSessionCell_t"

definition set_conn :: "nat \<Rightarrow> (Connection_t \<Rightarrow> Connection_t) \<Rightarrow> Session_t \<Rightarrow> Session_t" where
  "set_conn j f S = S\<lparr>s_pServer := (s_pServer S)(j := f (s_pServer S j))\<rparr>"

definition cx_emit :: "cfx \<Rightarrow> Session_t \<Rightarrow> Session_t" where
  "cx_emit x S = S\<lparr>s_Cx := s_Cx S @ [x]\<rparr>"

definition fSendTo :: "client_io \<Rightarrow> nat \<Rightarrow> cvec \<Rightarrow> Session_t \<Rightarrow> int \<times> Session_t" where
  "fSendTo IO fd v S = (ci_SendTo IO (s_Cx S) fd, cx_emit (CxSend fd v) S)"

text \<open>The servers are numbered below \<open>s_Maximum\<close>; a number outside indexes past the array.\<close>

definition server_ix :: "Session_t \<Rightarrow> int \<Rightarrow> nat option" where
  "server_ix S j = (if 0 \<le> j \<and> j < int (s_Maximum S) then Some (nat j) else None)"

definition J_IND :: "Session_t \<Rightarrow> int \<Rightarrow> nat" where
  "J_IND S j = (if j < 0 then s_Max S else nat j)"

definition jeopard_inc :: "nat \<Rightarrow> Session_t \<Rightarrow> Session_t option" where
  "jeopard_inc i S =
     (if i \<le> s_Maximum S then Some (S\<lparr>s_pJeopard := (s_pJeopard S)(i := s_pJeopard S i + 1)\<rparr>) else None)"

definition J_SET :: "int \<Rightarrow> Session_t \<Rightarrow> Session_t option" where
  "J_SET j S = jeopard_inc (J_IND S j) S"

definition CLEAR_JEOPARD :: "Session_t \<Rightarrow> Session_t" where
  "CLEAR_JEOPARD S =
     S\<lparr>s_pServer := (\<lambda>j. if j < s_Max S then (s_pServer S j)\<lparr>sv_CheckLast := 0\<rparr> else s_pServer S j),
       s_pJeopard := (\<lambda>j. if j < s_Max S + 1 then 0 else s_pJeopard S j)\<rparr>"

section \<open>Connections and the master\<close>

text \<open>The next server after \<open>s_NewMaster\<close> whose last attempt is over; none makes the master unknown.\<close>

fun new_master_loop :: "env \<Rightarrow> nat \<Rightarrow> Session_t \<Rightarrow> Session_t" where
  "new_master_loop E 0 S = S\<lparr>s_Master := -1\<rparr>"
| "new_master_loop E (Suc n) S =
     (let nm = (if s_NewMaster S + 1 \<ge> s_Max S then 0 else s_NewMaster S + 1);
          S = S\<lparr>s_NewMaster := nm\<rparr>
      in if sv_CheckLast (s_pServer S nm) \<noteq> 0 \<and> sv_CheckLast (s_pServer S nm) \<le> time0 E
         then S\<lparr>s_Master := int nm\<rparr>
         else new_master_loop E n S)"

definition NEW_MASTER :: "env \<Rightarrow> Session_t \<Rightarrow> Session_t" where
  "NEW_MASTER E S = new_master_loop E (s_Max S) S"

definition IsConnectedToCell :: "Session_t \<Rightarrow> bool" where
  "IsConnectedToCell S \<longleftrightarrow> (\<exists>j \<in> set [0..<s_Max S]. sv_Binded (s_pServer S j))"

definition own_id :: "client_io \<Rightarrow> nat \<Rightarrow> Session_t \<Rightarrow> PaxosClientId_t" where
  "own_id IO fd S = (s_Id S)\<lparr>i_Addr := ci_MyAddr IO fd\<rparr>"

text \<open>A head alone, with its checksum, as the bindings and the health messages are sent.\<close>

definition sealed_head :: "app \<Rightarrow> PaxosSessionHead_t \<Rightarrow> cvec option" where
  "sealed_head AP pH = map_option (\<lambda>ck. CHead False False (pH\<lparr>h_Cksum64 := ck\<rparr>)) (in_cksum64 (msg_image AP pH) 0)"

text \<open>A new connection: bound by its message, watched by the event loop, and by the health thread.\<close>

definition connection_made :: "client_io \<Rightarrow> nat \<Rightarrow> nat \<Rightarrow> cvec \<Rightarrow> Session_t \<Rightarrow> Session_t" where
  "connection_made IO n fd Bind S =
     (let S = snd (fSendTo IO fd Bind S);
          S = set_conn n (\<lambda>c. c\<lparr>sv_Binded := True, sv_MyAddr := ci_MyAddr IO fd\<rparr>) S;
          S = S\<lparr>s_Id := own_id IO fd S\<rparr>;
          S = set_conn n (\<lambda>c. c\<lparr>sv_Fd := Some fd\<rparr>) S
      in if s_Health S then S else (cx_emit CxHealth S)\<lparr>s_Health := True\<rparr>)"

definition ConnectToServer ::
  "env \<Rightarrow> app \<Rightarrow> client_io \<Rightarrow> int \<Rightarrow> Session_t \<Rightarrow> (nat option \<times> Session_t) option" where
  "ConnectToServer E AP IO j S =
     do {
       n \<leftarrow> server_ix S j;
       if sv_Binded (s_pServer S n) then do { fd \<leftarrow> sv_Fd (s_pServer S n); Some (Some fd, S) }
       else
         let S = set_conn n (\<lambda>c. c\<lparr>sv_CheckLast := time0 E + 10\<rparr>) S;
             pH = ci_Connect IO (s_Cx S) n;
             S = cx_emit (CxConnect n pH) S
         in case pH of
           None \<Rightarrow> do { S \<leftarrow> J_SET (-1) S; Some (None, S) }
         | Some fd \<Rightarrow> do {
             Bind \<leftarrow> sealed_head AP ((SESSION_MSGINIT PAXOS_SESSION_BIND 0 0 (SIZEOF_HEAD AP))\<lparr>h_Id := own_id IO fd S\<rparr>);
             Some (Some fd, connection_made IO n fd Bind S)
           }
     }"

text \<open>
  \<open>_ConnectToCell\<close> up to its end or its wait: a connection to the master, else to the next server in
  question, at most \<open>n\<close> more.
\<close>

datatype connected = Connected nat int | Unconnected | Elects nat

fun connect_loop ::
  "nat \<Rightarrow> env \<Rightarrow> app \<Rightarrow> client_io \<Rightarrow> Session_t \<Rightarrow> (connected \<times> Session_t) option" where
  "connect_loop n E AP IO S =
     (if SB_ACTIVE \<notin> s_Status S then Some (Unconnected, S)
      else if s_Master S \<ge> 0 then do {
        (r, S) \<leftarrow> ConnectToServer E AP IO (s_Master S) S;
        case r of
          Some fd \<Rightarrow> Some (Connected fd (s_Master S), S)
        | None \<Rightarrow>
            let S = NEW_MASTER E S
            in (case n of 0 \<Rightarrow> Some (Unconnected, S) | Suc m \<Rightarrow> connect_loop m E AP IO S)
      }
      else if \<not> IsConnectedToCell S then Some (Unconnected, S)
      else Some (Elects n, S\<lparr>s_Status := insert SB_WAIT (s_Status S)\<rparr>))"

declare connect_loop.simps [simp del]

text \<open>The end of the wait for an election; after a timeout the next server is asked.\<close>

definition election_end :: "env \<Rightarrow> bool \<Rightarrow> Session_t \<Rightarrow> Session_t" where
  "election_end E timeout S =
     (let S = S\<lparr>s_Status := s_Status S - {SB_WAIT}\<rparr>
      in if timeout then NEW_MASTER E (CLEAR_JEOPARD S) else S)"

section \<open>The threads that receive\<close>

definition close_conn :: "nat \<Rightarrow> nat \<Rightarrow> Session_t \<Rightarrow> Session_t" where
  "close_conn j fd S = set_conn j (\<lambda>c. c\<lparr>sv_Binded := False, sv_Fd := None\<rparr>) (cx_emit (CxClose fd) S)"

definition post :: "PaxosSessionHead_t \<Rightarrow> Session_t \<Rightarrow> Session_t" where
  "post pM S = S\<lparr>s_Post := snd (QueuePost (s_Post S) pM)\<rparr>"

text \<open>The connection to server \<open>j\<close> is lost: all others are tried when it was the master.\<close>

definition server_lost :: "env \<Rightarrow> app \<Rightarrow> client_io \<Rightarrow> nat \<Rightarrow> nat \<Rightarrow> Session_t \<Rightarrow> Session_t option" where
  "server_lost E AP IO j fd S =
     (if \<not> sv_Binded (s_pServer S j) then Some S
      else
        let S = close_conn j fd S
        in if s_Master S \<noteq> int j then Some S
           else do {
             S \<leftarrow> J_SET (int j) S;
             let S = NEW_MASTER E S;
             S \<leftarrow> for_each (\<lambda>jj S. if jj = j then Some S else map_option snd (ConnectToServer E AP IO (int jj) S))
                   [0..<s_Max S] S;
             if SB_WAIT \<in> s_Status S then Some S
             else if SB_ISSUED \<in> s_Status S then
               Some (post ((SESSION_MSGINIT PAXOS_SESSION_EVENT (notify_code PAXOS_Im_NOT_MASTER) 0 (SIZEOF_HEAD AP))
                       \<lparr>h_Id := s_Id S, h_From := int j, h_Master := -1\<rparr>) S)
             else Some S
           })"

definition RecvMsgFromServerHandler ::
  "env \<Rightarrow> app \<Rightarrow> client_io \<Rightarrow> nat \<Rightarrow> nat \<Rightarrow> PaxosSessionHead_t option \<Rightarrow> Session_t \<Rightarrow> Session_t option" where
  "RecvMsgFromServerHandler E AP IO j fd r S =
     (case r of
        None \<Rightarrow> server_lost E AP IO j fd S
      | Some pM \<Rightarrow> do {
          ASSERT (cksum_ok AP pM);
          let S = (if SEQ_CMP (h_Ver pM) (cl_Version (s_pCell S)) > 0
                then snd (fSendTo IO fd (CHead False False
                  ((SESSION_MSGINIT PAXOS_SESSION_GET_MEMBER 0 0 (SIZEOF_HEAD AP))\<lparr>h_Id := own_id IO fd S\<rparr>)) S)
                else S);
          Some (case h_Cmd pM of
              PAXOS_SESSION_GET_MEMBER \<Rightarrow> S\<lparr>s_pCell := ci_Cell IO pM\<rparr>
            | PAXOS_SESSION_DATA \<Rightarrow> S\<lparr>s_Data := snd (QueuePost (s_Data S) pM)\<rparr>
            | _ \<Rightarrow> S\<lparr>s_Recv := snd (QueuePost (s_Recv S) pM)\<rparr>)
        })"

text \<open>News of an election: what becomes of the master, and whether it changed.\<close>

definition is_news :: "int \<Rightarrow> bool" where
  "is_news code \<longleftrightarrow> code = notify_code PAXOS_MASTER_ELECTED \<or> code = notify_code PAXOS_MASTER_CANCELED \<or>
     code = notify_code PAXOS_Im_NOT_MASTER \<or> code = notify_code PAXOS_Im_MASTER"

definition master_news :: "PaxosSessionHead_t \<Rightarrow> Session_t \<Rightarrow> (bool \<times> Session_t) option" where
  "master_news pM S =
     (if h_From pM = h_Master pM then
        let S = CLEAR_JEOPARD S in Some (s_Master S \<noteq> h_Master pM, S\<lparr>s_Master := h_Master pM\<rparr>)
      else if h_Master pM = s_Master S then Some (False, S)
      else
        let j1 = J_IND S (h_Master pM)
        in if j1 < s_Max S \<and> s_pJeopard S j1 > 0 then Some (s_Master S \<noteq> -1, S\<lparr>s_Master := -1\<rparr>)
           else do { S \<leftarrow> jeopard_inc j1 S; Some (True, S\<lparr>s_Master := h_Master pM\<rparr>) })"

definition cell_message :: "env \<Rightarrow> app \<Rightarrow> client_io \<Rightarrow> PaxosSessionHead_t \<Rightarrow> Session_t \<Rightarrow> Session_t option" where
  "cell_message E AP IO pM S =
     (let S = (if s_Reader S < 0 then S\<lparr>s_Reader := h_Reader pM\<rparr> else S);
          S = (if h_TimeoutUsec pM \<noteq> 0
               then S\<lparr>s_MasterElectionUsec := h_TimeoutUsec pM, s_UnitUsec := h_UnitUsec pM\<rparr> else S)
      in if is_news (h_Code pM) then do {
           (bChange, S) \<leftarrow> master_news pM S;
           if bChange then do {
             S \<leftarrow> (if s_Master S \<ge> 0 then map_option snd (ConnectToServer E AP IO (s_Master S) S) else Some S);
             if SB_WAIT \<in> s_Status S then Some S
             else if SB_ISSUED \<in> s_Status S then Some (post pM S)
             else Some S
           }
           else Some S
         }
         else
           let S = (if h_Cmd pM = PAXOS_SESSION_CLOSE \<and> h_Code pM = 0
                    then S\<lparr>s_Status := insert SB_CLOSED (s_Status S)\<rparr> else S)
           in Some (post pM S))"

text \<open>One turn of the thread; it waits while the queue is empty, and ends when the queue is aborted.\<close>

definition RecvMsgFromCellThread :: "env \<Rightarrow> app \<Rightarrow> client_io \<Rightarrow> Session_t \<Rightarrow> Session_t option" where
  "RecvMsgFromCellThread E AP IO S =
     (case QueueTimedWait (s_Recv S) [] of
        None \<Rightarrow> Some S
      | Some (r, None, q) \<Rightarrow> Some (S\<lparr>s_Recv := q\<rparr>)
      | Some (r, Some pM, q) \<Rightarrow> cell_message E AP IO pM (S\<lparr>s_Recv := q\<rparr>))"

section \<open>Health\<close>

definition session_abort :: "Session_t \<Rightarrow> Session_t option" where
  "session_abort S =
     for_each (\<lambda>j S. if sv_Binded (s_pServer S j) then do { fd \<leftarrow> sv_Fd (s_pServer S j); Some (close_conn j fd S) } else Some S)
       [0..<s_Maximum S] S"

text \<open>
  A turn of the health thread for one session: a message to every server, and the end of a session that
  has had no master for longer than an election may take.
\<close>

definition health_send :: "app \<Rightarrow> client_io \<Rightarrow> nat \<Rightarrow> Session_t \<Rightarrow> Session_t option" where
  "health_send AP IO j S =
     (if sv_Binded (s_pServer S j) then do {
        fd \<leftarrow> sv_Fd (s_pServer S j);
        Health \<leftarrow> sealed_head AP ((SESSION_MSGINIT PAXOS_SESSION_HEALTH 0 0 (SIZEOF_HEAD AP))\<lparr>h_Id := own_id IO fd S\<rparr>);
        Some (snd (fSendTo IO fd Health S))
      }
      else Some S)"

abbreviation ERR_SESSION_MINORITY :: int where "ERR_SESSION_MINORITY \<equiv> 3"

definition HealthSend :: "env \<Rightarrow> app \<Rightarrow> client_io \<Rightarrow> Session_t \<Rightarrow> Session_t option" where
  "HealthSend E AP IO S =
     do {
       S \<leftarrow> for_each (health_send AP IO) [0..<s_Maximum S] S;
       if s_Master S \<ge> 0 then Some (S\<lparr>s_NoMaster := 0\<rparr>)
       else if s_NoMaster S \<noteq> 0 then
         (if s_NoMaster S + cdiv (s_MasterElectionUsec S) 1000000 < time0 E
          then do { S \<leftarrow> session_abort S; Some ((cx_emit CxUnlist S)\<lparr>s_Err := ERR_SESSION_MINORITY\<rparr>) }
          else Some S)
       else Some (S\<lparr>s_NoMaster := time0 E\<rparr>)
     }"

section \<open>Requests\<close>

text \<open>\<open>SET_HEAD\<close>, and the checksum of each head over the pieces up to the next one.\<close>

definition SET_HEAD :: "Session_t \<Rightarrow> nat \<Rightarrow> PaxosSessionHead_t \<Rightarrow> PaxosSessionHead_t" where
  "SET_HEAD S j p = p\<lparr>h_Cksum64 := 0,
     h_Id := (s_Id S)\<lparr>i_SeqWait := s_Update S, i_Addr := sv_MyAddr (s_pServer S j)\<rparr>\<rparr>"

fun is_head :: "cvec \<Rightarrow> bool" where
  "is_head (CHead rpl dis h) = True"
| "is_head (CData dis bs) = False"

fun cvec_vec :: "app \<Rightarrow> cvec \<Rightarrow> MsgVec_t" where
  "cvec_vec AP (CHead rpl dis h) = \<lparr>v_Disabled = dis, v_Data = msg_image AP h\<rparr>"
| "cvec_vec AP (CData dis bs) = \<lparr>v_Disabled = dis, v_Data = bs\<rparr>"

fun PaxosSessionMsgCksum64 :: "app \<Rightarrow> Session_t \<Rightarrow> nat \<Rightarrow> cvec list \<Rightarrow> cvec list option" where
  "PaxosSessionMsgCksum64 AP S j [] = Some []"
| "PaxosSessionMsgCksum64 AP S j (CData dis bs # vs) = map_option ((#) (CData dis bs)) (PaxosSessionMsgCksum64 AP S j vs)"
| "PaxosSessionMsgCksum64 AP S j (CHead rpl dis h # vs) =
     (let h = SET_HEAD S j h; seg = CHead rpl dis h # takeWhile (\<lambda>v. \<not> is_head v) vs in do {
        (ck, r) \<leftarrow> MsgCksum64 (map (cvec_vec AP) seg) 0 (int (length seg)) 0;
        map_option ((#) (CHead rpl dis (h\<lparr>h_Cksum64 := ck\<rparr>))) (PaxosSessionMsgCksum64 AP S j vs)
      })"

text \<open>The pieces that are enabled and not empty are sent; the first send that fails ends it.\<close>

fun send_vecs :: "app \<Rightarrow> client_io \<Rightarrow> nat \<Rightarrow> cvec list \<Rightarrow> Session_t \<Rightarrow> bool \<times> Session_t" where
  "send_vecs AP IO fd [] S = (True, S)"
| "send_vecs AP IO fd (v # vs) S =
     (if v_Disabled (cvec_vec AP v) \<or> v_Data (cvec_vec AP v) = [] then send_vecs AP IO fd vs S
      else case fSendTo IO fd v S of
        (Ret, S) \<Rightarrow> if Ret < 0 then (False, S) else send_vecs AP IO fd vs S)"

text \<open>
  \<open>PaxosSessionSendToCellByMsg\<close> up to its end or its wait, with \<open>left\<close> connections to try first. It goes on
  to the next server as long as sends fail; \<open>n\<close> bounds its turns, and \<open>None\<close> also stands for more turns.
\<close>

datatype sent = Sent int | Unsent | Waiting nat

fun send_cell ::
  "nat \<Rightarrow> env \<Rightarrow> app \<Rightarrow> client_io \<Rightarrow> nat \<Rightarrow> cvec list \<Rightarrow> Session_t \<Rightarrow> (sent \<times> cvec list \<times> Session_t) option" where
  "send_cell 0 E AP IO left req S = None"
| "send_cell (Suc n) E AP IO left req S =
     do {
       (r, S) \<leftarrow> connect_loop left E AP IO S;
       case r of
         Unconnected \<Rightarrow> Some (Unsent, req, S)
       | Elects left \<Rightarrow> Some (Waiting left, req, S)
       | Connected fd j \<Rightarrow> do {
           req \<leftarrow> PaxosSessionMsgCksum64 AP S (nat j) req;
           case send_vecs AP IO fd req S of
             (True, S) \<Rightarrow> Some (Sent j, req, S)
           | (False, S) \<Rightarrow> let S = NEW_MASTER E S in send_cell n E AP IO (s_Max S) req S
         }
     }"

definition PaxosSendToReaderByMsg ::
  "env \<Rightarrow> app \<Rightarrow> client_io \<Rightarrow> cvec list \<Rightarrow> Session_t \<Rightarrow> (int \<times> cvec list \<times> Session_t) option" where
  "PaxosSendToReaderByMsg E AP IO req S =
     (let j = s_Reader S in
      if j < 0 then Some (j, req, S)
      else do {
        (pH, S) \<leftarrow> ConnectToServer E AP IO j S;
        case pH of
          None \<Rightarrow> Some (-1, req, S\<lparr>s_Reader := -1\<rparr>)
        | Some fd \<Rightarrow> do {
            req \<leftarrow> PaxosSessionMsgCksum64 AP S (nat j) req;
            Some (case send_vecs AP IO fd req S of
                (True, S) \<Rightarrow> (j, req, S)
              | (False, S) \<Rightarrow> (-1, req, S\<lparr>s_Reader := -1\<rparr>))
          }
      })"

text \<open>The command of the reply: that of the last piece with \<open>VEC_REPLY\<close>.\<close>

fun reply_cmd :: "cvec list \<Rightarrow> PaxosCmd option \<Rightarrow> PaxosCmd option" where
  "reply_cmd [] c = c"
| "reply_cmd (CHead True dis h # vs) c = reply_cmd vs (Some (h_Cmd h))"
| "reply_cmd (v # vs) c = reply_cmd vs c"

text \<open>
  \<open>PaxosSessionReqAndRplByMsg\<close>. It begins when no other thread holds \<open>s_Serialize\<close>; a session that is
  not active refuses it.
\<close>

definition busy :: "Session_t \<Rightarrow> bool" where
  "busy S \<longleftrightarrow> (case s_Req S of None \<Rightarrow> False | Some rq \<Rightarrow> (case rq_Phase rq of RqDone r \<Rightarrow> False | _ \<Rightarrow> True))"

definition req_begin :: "cvec list \<Rightarrow> bool \<Rightarrow> Session_t \<Rightarrow> Session_t" where
  "req_begin pReq Update S =
     (if SB_ACTIVE \<notin> s_Status S
      then S\<lparr>s_Req := Some \<lparr>rq_Vecs = pReq, rq_Seq = i_Seq (s_Id S), rq_Cmd = None, rq_Update = Update, rq_Phase = RqDone None\<rparr>\<rparr>
      else
        let S = S\<lparr>s_Id := (s_Id S)\<lparr>i_Seq := i_Seq (s_Id S) + 1, i_Try := 0\<rparr>, s_Status := insert SB_ISSUED (s_Status S)\<rparr>
        in S\<lparr>s_Req := Some \<lparr>rq_Vecs = pReq, rq_Seq = i_Seq (s_Id S), rq_Cmd = reply_cmd pReq None,
               rq_Update = Update, rq_Phase = RqAgain\<rparr>\<rparr>)"

definition to_phase :: "creq_t \<Rightarrow> phase \<Rightarrow> Session_t \<Rightarrow> Session_t" where
  "to_phase rq ph S = S\<lparr>s_Req := Some (rq\<lparr>rq_Phase := ph\<rparr>)\<rparr>"

definition req_fail :: "creq_t \<Rightarrow> Session_t \<Rightarrow> Session_t" where
  "req_fail rq S = to_phase rq (RqDone None) (S\<lparr>s_Status := s_Status S - {SB_ISSUED}\<rparr>)"

definition req_sent :: "creq_t \<Rightarrow> sent \<times> cvec list \<times> Session_t \<Rightarrow> Session_t" where
  "req_sent rq x =
     (case x of (r, req, S) \<Rightarrow>
        let rq = rq\<lparr>rq_Vecs := req\<rparr>
        in case r of
          Sent j \<Rightarrow> to_phase rq (RqWait j) S
        | Unsent \<Rightarrow> req_fail rq S
        | Waiting left \<Rightarrow> to_phase rq (RqElect left) S)"

definition req_again :: "nat \<Rightarrow> env \<Rightarrow> app \<Rightarrow> client_io \<Rightarrow> creq_t \<Rightarrow> Session_t \<Rightarrow> Session_t option" where
  "req_again n E AP IO rq S =
     (let S = S\<lparr>s_Id := (s_Id S)\<lparr>i_Try := i_Try (s_Id S) + 1\<rparr>\<rparr>
      in if rq_Update rq \<or> s_Sync S then map_option (req_sent rq) (send_cell n E AP IO (s_Max S) (rq_Vecs rq) S)
         else do {
           (j, req, S) \<leftarrow> PaxosSendToReaderByMsg E AP IO (rq_Vecs rq) S;
           if j < 0 then map_option (req_sent rq) (send_cell n E AP IO (s_Max S) req S)
           else Some (req_sent rq (Sent j, req, S))
         })"

text \<open>A message of the cell for the waiting request, sent to server \<open>j\<close>.\<close>

definition req_message :: "creq_t \<Rightarrow> int \<Rightarrow> PaxosSessionHead_t \<Rightarrow> Session_t \<Rightarrow> Session_t option" where
  "req_message rq j pM S =
     (if is_news (h_Code pM) \<or> h_Code pM = notify_code PAXOS_REJECTED then
        (if j = h_Master pM \<and> h_Code pM \<noteq> notify_code PAXOS_Im_MASTER then Some S
         else Some (to_phase rq RqAgain S))
      else if h_Code pM = 0 then
        (if Some (h_Cmd pM) \<noteq> rq_Cmd rq \<or> i_Seq (h_Id pM) \<noteq> rq_Seq rq then Some S
         else
           let S = S\<lparr>s_Status := s_Status S - {SB_ISSUED}\<rparr>;
               S = (if rq_Update rq then S\<lparr>s_Update := rq_Seq rq\<rparr> else S)
           in Some (to_phase rq (RqDone (Some pM)) S))
      else None)"

abbreviation ETIMEDOUT :: int where "ETIMEDOUT \<equiv> 110"

text \<open>One wait for a message: it takes the first of the queue, or times out, or finds the queue aborted.\<close>

definition req_wait :: "creq_t \<Rightarrow> int \<Rightarrow> bool \<Rightarrow> Session_t \<Rightarrow> Session_t option" where
  "req_wait rq j timeout S =
     (case QueueTimedWait (s_Post S) (if timeout then [WaitErr ETIMEDOUT] else []) of
        None \<Rightarrow> Some S
      | Some (r, None, q) \<Rightarrow>
          if r \<noteq> 0 \<and> r \<noteq> ETIMEDOUT then Some (req_fail rq (S\<lparr>s_Post := q\<rparr>))
          else Some (to_phase rq RqAgain (S\<lparr>s_Post := q\<rparr>))
      | Some (r, Some pM, q) \<Rightarrow> req_message rq j pM (S\<lparr>s_Post := q\<rparr>))"

section \<open>The life of a session\<close>

definition PaxosSessionAlloc :: "int \<Rightarrow> PaxosSessionCell_t \<Rightarrow> bool \<Rightarrow> Session_t" where
  "PaxosSessionAlloc pid pCell health =
     \<lparr>s_Err = 0, s_Status = {SB_INIT}, s_Master = 0, s_NewMaster = 0, s_Reader = 0,
      s_Id = client_zero\<lparr>i_Pid := pid\<rparr>, s_Update = 0, s_MasterElectionUsec = 0, s_UnitUsec = 0,
      s_Max = cl_Maximum pCell, s_Maximum = cl_Maximum pCell,
      s_pServer = (\<lambda>_. \<lparr>sv_Binded = False, sv_CheckLast = 0, sv_MyAddr = addr_zero, sv_Fd = None\<rparr>),
      s_pJeopard = (\<lambda>_. 0), s_Post = QueueInit, s_Recv = QueueInit, s_Data = QueueInit, s_pCell = pCell,
      s_Sync = False, s_NoMaster = 0, s_Health = health, s_Req = None, s_Cx = []\<rparr>"

text \<open>\<open>PaxosRecvFromCellDiscard\<close> empties the queue of an opened session.\<close>

fun discard_loop :: "nat \<Rightarrow> PaxosSessionHead_t Queue \<Rightarrow> PaxosSessionHead_t Queue option" where
  "discard_loop 0 q = None"
| "discard_loop (Suc n) q =
     (case QueueTimedWait q [WaitErr ETIMEDOUT] of
        None \<Rightarrow> None
      | Some (r, None, q) \<Rightarrow> Some q
      | Some (r, Some pM, q) \<Rightarrow> discard_loop n q)"

definition PaxosRecvFromCellDiscard :: "Session_t \<Rightarrow> Session_t option" where
  "PaxosRecvFromCellDiscard S =
     map_option (\<lambda>q. S\<lparr>s_Post := q\<rparr>) (discard_loop (Suc (length (q_entry (s_Post S)))) (s_Post S))"

text \<open>\<open>PaxosSessionOpen\<close> before its request, the request, and what follows its reply.\<close>

definition open_start :: "env \<Rightarrow> int \<Rightarrow> bool \<Rightarrow> Session_t \<Rightarrow> Session_t option" where
  "open_start E No Sync S =
     do {
       ASSERT (SB_ACTIVE \<notin> s_Status S);
       let S = S\<lparr>s_Post := (s_Post S)\<lparr>q_abrt := 0\<rparr>, s_Recv := (s_Recv S)\<lparr>q_abrt := 0\<rparr>, s_NoMaster := 0, s_Err := 0\<rparr>;
       S \<leftarrow> PaxosRecvFromCellDiscard S;
       let S = S\<lparr>s_Id := (s_Id S)\<lparr>i_Time := time0 E, i_No := No, i_Seq := 0, i_SeqWait := 0, i_Reuse := i_Reuse (s_Id S) + 1\<rparr>,
             s_MasterElectionUsec := 30000000, s_Status := {SB_ACTIVE, SB_INIT}, s_Update := 0, s_Sync := Sync\<rparr>;
       let S = (CLEAR_JEOPARD S)\<lparr>s_Master := 0, s_Reader := -1\<rparr>;
       Some (S\<lparr>s_pServer := (\<lambda>j. if j < s_Max S
           then (s_pServer S j)\<lparr>sv_Binded := False, sv_CheckLast := time0 E, sv_Fd := None\<rparr> else s_pServer S j)\<rparr>)
     }"

definition head_request :: "app \<Rightarrow> PaxosCmd \<Rightarrow> cvec list" where
  "head_request AP cmd = [CHead True False (SESSION_MSGINIT cmd 0 0 (SIZEOF_HEAD AP))]"

definition PaxosSessionOpen :: "env \<Rightarrow> app \<Rightarrow> int \<Rightarrow> bool \<Rightarrow> Session_t \<Rightarrow> Session_t option" where
  "PaxosSessionOpen E AP No Sync S =
     (if SB_INIT \<notin> s_Status S then Some S
      else map_option (req_begin (head_request AP PAXOS_SESSION_OPEN) True) (open_start E No Sync S))"

definition reply_error :: "PaxosSessionHead_t option \<Rightarrow> int" where
  "reply_error r = (case r of Some pRpl \<Rightarrow> h_Error pRpl | None \<Rightarrow> -1)"

definition open_end :: "PaxosSessionHead_t option \<Rightarrow> Session_t \<Rightarrow> int \<times> Session_t" where
  "open_end r S = (reply_error r, if reply_error r \<noteq> 0 then S\<lparr>s_Status := s_Status S - {SB_ACTIVE}\<rparr> else S)"

definition PaxosSessionAbort :: "Session_t \<Rightarrow> Session_t option" where
  "PaxosSessionAbort S =
     (let S = S\<lparr>s_Status := s_Status S - {SB_ACTIVE}, s_Post := snd (QueueAbort (s_Post S) 9),
            s_Recv := snd (QueueAbort (s_Recv S) 9)\<rparr>
      in map_option (cx_emit CxUnlist) (session_abort S))"

text \<open>\<open>PaxosSessionClose\<close> is the request to close, and the abort after its reply.\<close>

definition PaxosSessionClose :: "app \<Rightarrow> Session_t \<Rightarrow> Session_t" where
  "PaxosSessionClose AP S = req_begin (head_request AP PAXOS_SESSION_CLOSE) True S"

definition close_end :: "PaxosSessionHead_t option \<Rightarrow> Session_t \<Rightarrow> (int \<times> Session_t) option" where
  "close_end r S = map_option (\<lambda>S. (reply_error r, S)) (PaxosSessionAbort S)"

definition PaxosSessionGetReader :: "Session_t \<Rightarrow> int" where
  "PaxosSessionGetReader S = (if s_Reader S \<ge> 0 then s_Reader S else s_Master S)"

section \<open>Steps\<close>

text \<open>One step of the thread with the request, with \<open>n\<close> turns where it sends.\<close>

definition req_step :: "nat \<Rightarrow> env \<Rightarrow> app \<Rightarrow> client_io \<Rightarrow> bool \<Rightarrow> Session_t \<Rightarrow> Session_t option" where
  "req_step n E AP IO timeout S =
     (case s_Req S of
        None \<Rightarrow> Some S
      | Some rq \<Rightarrow> (case rq_Phase rq of
            RqAgain \<Rightarrow> req_again n E AP IO rq S
          | RqElect left \<Rightarrow> map_option (req_sent rq) (send_cell n E AP IO left (rq_Vecs rq) (election_end E timeout S))
          | RqWait j \<Rightarrow> req_wait rq j timeout S
          | RqDone r \<Rightarrow> Some S))"

text \<open>
  What the threads of a client do: it opens or aborts its session, issues a request when none is under
  way, and the thread with the request, the event loop with a message of server \<open>j\<close> on descriptor \<open>fd\<close> or
  its loss, the thread of the cell and the health thread each do a step.
\<close>

datatype client_event =
    COpen env int bool
  | CBegin "cvec list" bool
  | CStep nat env bool
  | CHandler env nat nat "PaxosSessionHead_t option"
  | CCell env
  | CHealth env
  | CAbort

fun client_step :: "app \<Rightarrow> client_io \<Rightarrow> client_event \<Rightarrow> Session_t \<Rightarrow> Session_t option" where
  "client_step AP IO (COpen E No Sync) S = (if busy S then None else PaxosSessionOpen E AP No Sync S)"
| "client_step AP IO (CBegin req Update) S = (if busy S then None else Some (req_begin req Update S))"
| "client_step AP IO (CStep n E timeout) S = req_step n E AP IO timeout S"
| "client_step AP IO (CHandler E j fd r) S = RecvMsgFromServerHandler E AP IO j fd r S"
| "client_step AP IO (CCell E) S = RecvMsgFromCellThread E AP IO S"
| "client_step AP IO (CHealth E) S = HealthSend E AP IO S"
| "client_step AP IO CAbort S = PaxosSessionAbort S"

end
