(* ===== verification/Client_Frame.thy ===== *)
theory Client_Frame
  imports Session_Client
begin

text \<open>
  What the operations of a client leave as it is: connecting, looking for a master and sending change
  neither the request under way nor the messages that arrived.
\<close>

definition still :: "Session_t \<Rightarrow> Session_t \<Rightarrow> bool" where
  "still S S' \<longleftrightarrow> s_Post S' = s_Post S \<and> s_Recv S' = s_Recv S \<and> s_Req S' = s_Req S \<and> s_Update S' = s_Update S \<and>
     i_Seq (s_Id S') = i_Seq (s_Id S) \<and> s_Max S' = s_Max S \<and> s_Maximum S' = s_Maximum S \<and>
     s_Status S' - {SB_WAIT} = s_Status S - {SB_WAIT} \<and> length (s_Cx S) \<le> length (s_Cx S')"

interpretation still: evolution still
  by unfold_locales (auto simp: still_def)

lemma still_set_conn [simp]: "still S (set_conn j f S)"
  by (simp add: still_def set_conn_def)

lemma still_emit [simp]: "still S (cx_emit x S)"
  by (simp add: still_def cx_emit_def)

lemma still_send: "still S (snd (fSendTo IO fd v S))"
  by (simp add: fSendTo_def)

lemma still_fields [simp]:
  "still S (S\<lparr>s_Master := m\<rparr>)" "still S (S\<lparr>s_NewMaster := n\<rparr>)" "still S (S\<lparr>s_Reader := m\<rparr>)"
  "still S (S\<lparr>s_Health := b\<rparr>)" "still S (S\<lparr>s_pJeopard := jp\<rparr>)" "still S (S\<lparr>s_NoMaster := m\<rparr>)"
  "still S (S\<lparr>s_Err := m\<rparr>)" "still S (S\<lparr>s_MasterElectionUsec := m, s_UnitUsec := n'\<rparr>)"
  "still S (S\<lparr>s_Data := d\<rparr>)" "still S (S\<lparr>s_pCell := c\<rparr>)"
  by (simp_all add: still_def)

lemma still_jeopard: "jeopard_inc i S = Some S' \<Longrightarrow> still S S'"
  by (auto simp: jeopard_inc_def split: if_splits)

lemma still_J_SET: "J_SET j S = Some S' \<Longrightarrow> still S S'"
  by (auto simp: J_SET_def intro: still_jeopard)

lemma still_CLEAR [simp]: "still S (CLEAR_JEOPARD S)"
  by (simp add: still_def CLEAR_JEOPARD_def)

text \<open>The search for a master changes two numbers only.\<close>

lemma NEW_MASTER_fields: "NEW_MASTER E S = S\<lparr>s_NewMaster := s_NewMaster (NEW_MASTER E S), s_Master := s_Master (NEW_MASTER E S)\<rparr>"
proof -
  have "\<exists>a b. new_master_loop E n (S\<lparr>s_NewMaster := x\<rparr>) = S\<lparr>s_NewMaster := a, s_Master := b\<rparr>" for n x
    by (induction n arbitrary: x) (auto simp: Let_def)
  from this [of "s_Max S" "s_NewMaster S"] show ?thesis by (auto simp: NEW_MASTER_def)
qed

lemma still_NEW_MASTER [simp]: "still S (NEW_MASTER E S)"
  by (subst NEW_MASTER_fields) (simp add: still_def)

text \<open>A connection that is tried, the head that binds it, and the ways to end.\<close>

definition connect_tried :: "env \<Rightarrow> client_io \<Rightarrow> nat \<Rightarrow> Session_t \<Rightarrow> Session_t" where
  "connect_tried E IO n S =
     cx_emit (CxConnect n (ci_Connect IO (s_Cx S) n)) (set_conn n (\<lambda>c. c\<lparr>sv_CheckLast := time0 E + 10\<rparr>) S)"

definition bind_head :: "app \<Rightarrow> client_io \<Rightarrow> nat \<Rightarrow> Session_t \<Rightarrow> cvec option" where
  "bind_head AP IO fd S =
     sealed_head AP ((SESSION_MSGINIT PAXOS_SESSION_BIND 0 0 (SIZEOF_HEAD AP))\<lparr>h_Id := own_id IO fd S\<rparr>)"

lemma Connect_eq:
  assumes "server_ix S j = Some n"
  shows "ConnectToServer E AP IO j S =
    (if sv_Binded (s_pServer S n) then map_option (\<lambda>fd. (Some fd, S)) (sv_Fd (s_pServer S n))
     else case ci_Connect IO (s_Cx S) n of
       None \<Rightarrow> map_option (\<lambda>S. (None, S)) (J_SET (-1) (connect_tried E IO n S))
     | Some fd \<Rightarrow> map_option (\<lambda>b. (Some fd, connection_made IO n fd b (connect_tried E IO n S)))
         (bind_head AP IO fd (connect_tried E IO n S)))"
proof -
  have cx: "s_Cx (set_conn n f S) = s_Cx S" for f by (simp add: set_conn_def)
  show ?thesis using assms
    by (auto simp: ConnectToServer_def connect_tried_def bind_head_def Let_def cx map_option_case split: option.splits bind_splits)
qed

lemma Connect_cases:
  assumes "ConnectToServer E AP IO j S = Some (r, S')"
  obtains (bound) n fd where "server_ix S j = Some n" "sv_Binded (s_pServer S n)" "sv_Fd (s_pServer S n) = Some fd"
      "r = Some fd" "S' = S"
  | (fails) n where "server_ix S j = Some n" "J_SET (-1) (connect_tried E IO n S) = Some S'" "r = None"
  | (made) n fd b where "server_ix S j = Some n" "r = Some fd" "S' = connection_made IO n fd b (connect_tried E IO n S)"
proof -
  obtain n where "server_ix S j = Some n" using assms by (auto simp: ConnectToServer_def bind_eq_Some_conv)
  then show thesis using assms bound fails made by (auto simp: Connect_eq split: if_splits option.splits)
qed

lemma still_tried [simp]: "still S (connect_tried E IO n S)"
  by (simp add: connect_tried_def still_def cx_emit_def set_conn_def)

lemma still_made [simp]: "still S (connection_made IO n fd b S)"
  by (simp add: connection_made_def Let_def fSendTo_def still_def set_conn_def cx_emit_def own_id_def)

lemma still_Connect:
  assumes "ConnectToServer E AP IO j S = Some (r, S')"
  shows "still S S'"
  using assms
proof (cases rule: Connect_cases)
  case (fails n)
  then show ?thesis using still_J_SET still_tried still.trans by blast
next
  case (made n fd b)
  then show ?thesis using still.trans [OF still_tried still_made] by simp
qed (simp add: still.refl)

lemma connect_loop_cases:
  assumes "connect_loop n E AP IO S = Some (r, S')"
  obtains (no) "r = Unconnected" "S' = S"
  | (master) fd where "0 \<le> s_Master S" "ConnectToServer E AP IO (s_Master S) S = Some (Some fd, S')"
      "r = Connected fd (s_Master S')"
  | (last) B where "0 \<le> s_Master S" "ConnectToServer E AP IO (s_Master S) S = Some (None, B)" "n = 0" "r = Unconnected" "S' = NEW_MASTER E B"
  | (next_server) B m where "0 \<le> s_Master S" "ConnectToServer E AP IO (s_Master S) S = Some (None, B)" "n = Suc m"
      "connect_loop m E AP IO (NEW_MASTER E B) = Some (r, S')"
  | (elects) "r = Elects n" "S' = S\<lparr>s_Status := insert SB_WAIT (s_Status S)\<rparr>" "s_Master S < 0" "SB_ACTIVE \<in> s_Status S"
proof -
  note a = assms [unfolded connect_loop.simps [of n]]
  show thesis
  proof (cases "SB_ACTIVE \<in> s_Status S \<and> 0 \<le> s_Master S")
    case True
    then obtain pH B where c: "ConnectToServer E AP IO (s_Master S) S = Some (pH, B)"
      using a by (auto simp: bind_eq_Some_conv)
    show thesis
    proof (cases pH)
      case None
      then show thesis using a c True last next_server by (cases n) (auto simp: Let_def)
    next
      case (Some fd)
      then show thesis using a c True master by auto
    qed
  next
    case False
    then show thesis using a no elects by (auto split: if_splits)
  qed
qed

lemma still_connect_loop: "connect_loop n E AP IO S = Some (r, S') \<Longrightarrow> still S S'"
proof (induction n arbitrary: S)
  case 0
  from 0 show ?case
    by (cases rule: connect_loop_cases)
      (auto simp: still.refl still_def [of S "S\<lparr>s_Status := x\<rparr>" for x] intro: still_Connect still.trans [OF still_Connect still_NEW_MASTER])
next
  case (Suc n)
  from Suc.prems show ?case
  proof (cases rule: connect_loop_cases)
    case (next_server B m)
    then have "still (NEW_MASTER E B) S'" using Suc.IH by simp
    then show ?thesis using still_Connect [OF next_server(2)] still_NEW_MASTER still.trans by blast
  qed (auto simp: still.refl still_def [of S "S\<lparr>s_Status := x\<rparr>" for x] intro: still_Connect)
qed

lemma still_send_vecs: "send_vecs AP IO fd vs S = (b, S') \<Longrightarrow> still S S'"
proof (induction vs arbitrary: S)
  case (Cons v vs)
  have "still S S'" if "send_vecs AP IO fd vs (snd (fSendTo IO fd v S)) = (b, S')"
    using Cons.IH [OF that] still_send still.trans by blast
  then show ?case using Cons still_send [of S IO fd v] by (auto simp: fSendTo_def split: if_splits)
qed (simp add: still.refl)

lemma send_cell_cases:
  assumes "send_cell n E AP IO left req S = Some (r, req', S')"
  obtains (stops) m c where "n = Suc m" "connect_loop left E AP IO S = Some (c, S')" "req' = req"
      "c = Unconnected \<and> r = Unsent \<or> (\<exists>l. c = Elects l \<and> r = Waiting l)"
  | (sent) m fd j B where "n = Suc m" "connect_loop left E AP IO S = Some (Connected fd j, B)"
      "PaxosSessionMsgCksum64 AP B (nat j) req = Some req'" "send_vecs AP IO fd req' B = (True, S')" "r = Sent j"
  | (failed) m fd j B q C where "n = Suc m" "connect_loop left E AP IO S = Some (Connected fd j, B)"
      "PaxosSessionMsgCksum64 AP B (nat j) req = Some q" "send_vecs AP IO fd q B = (False, C)"
      "send_cell m E AP IO (s_Max (NEW_MASTER E C)) q (NEW_MASTER E C) = Some (r, req', S')"
proof -
  obtain m where n: "n = Suc m" using assms by (cases n) auto
  obtain c B where c: "connect_loop left E AP IO S = Some (c, B)" using assms n by (auto simp: bind_eq_Some_conv)
  show thesis
  proof (cases c)
    case (Connected fd j)
    then obtain q where q: "PaxosSessionMsgCksum64 AP B (nat j) req = Some q" using assms n c by (auto simp: bind_eq_Some_conv)
    obtain b C where v: "send_vecs AP IO fd q B = (b, C)" by (cases "send_vecs AP IO fd q B")
    show thesis using assms n c q v Connected sent failed by (cases b) (auto simp: Let_def)
  qed (use assms n c stops in auto)
qed

lemma still_send_cell: "send_cell n E AP IO left req S = Some (r, req', S') \<Longrightarrow> still S S'"
proof (induction n arbitrary: left req S)
  case (Suc n)
  from Suc.prems show ?case
  proof (cases rule: send_cell_cases)
    case (stops m c)
    then show ?thesis using still_connect_loop by blast
  next
    case (sent m fd j B)
    then show ?thesis using still_connect_loop still_send_vecs still.trans by blast
  next
    case (failed m fd j B q C)
    then have "still (NEW_MASTER E C) S'" using Suc.IH by simp
    moreover have "still S C" using failed(2,4) still_connect_loop still_send_vecs still.trans by blast
    ultimately show ?thesis using still_NEW_MASTER still.trans by blast
  qed
qed simp

lemma still_Reader:
  assumes "PaxosSendToReaderByMsg E AP IO req S = Some (j, req', S')"
  shows "still S S'"
proof (cases "s_Reader S < 0")
  case True
  then show ?thesis using assms by (simp add: PaxosSendToReaderByMsg_def still.refl)
next
  case False
  then obtain pH B where B: "ConnectToServer E AP IO (s_Reader S) S = Some (pH, B)"
    using assms by (auto simp: PaxosSendToReaderByMsg_def bind_eq_Some_conv Let_def)
  show ?thesis
  proof (cases pH)
    case None
    then show ?thesis using assms False B still.trans [OF still_Connect [OF B]] by (auto simp: PaxosSendToReaderByMsg_def Let_def)
  next
    case (Some fd)
    then obtain q where q: "PaxosSessionMsgCksum64 AP B (nat (s_Reader S)) req = Some q"
      using assms False B by (auto simp: PaxosSendToReaderByMsg_def bind_eq_Some_conv Let_def)
    obtain b C where v: "send_vecs AP IO fd q B = (b, C)" by (cases "send_vecs AP IO fd q B")
    have "S' = C \<or> S' = C\<lparr>s_Reader := -1\<rparr>"
      using assms False B Some q v by (cases b) (auto simp: PaxosSendToReaderByMsg_def Let_def)
    then show ?thesis using still.trans [OF still_Connect [OF B] still_send_vecs [OF v]] still.trans still_fields(3) by blast
  qed
qed

section \<open>The other threads\<close>

lemma still_abort: "session_abort S = Some S' \<Longrightarrow> still S S'"
  unfolding session_abort_def
  by (erule still.for_each_ev [rotated]) (auto simp: close_conn_def still.refl bind_eq_Some_conv still_def set_conn_def cx_emit_def split: if_splits)

lemma still_health: "health_send AP IO j S = Some S' \<Longrightarrow> still S S'"
  by (auto simp: health_send_def still.refl bind_eq_Some_conv intro: still_send split: if_splits)

lemma still_Health:
  assumes "HealthSend E AP IO S = Some S'"
  shows "still S S'"
proof -
  obtain B where B: "for_each (health_send AP IO) [0..<s_Maximum S] S = Some B"
    using assms by (auto simp: HealthSend_def bind_eq_Some_conv)
  have 1: "still S B" by (rule still.for_each_ev [OF _ B]) (rule still_health)
  have "still B S'"
  proof (cases "s_Master B \<ge> 0 \<or> s_NoMaster B = 0")
    case True
    then show ?thesis using assms B by (cases "0 \<le> s_Master B") (auto simp: HealthSend_def)
  next
    case False
    show ?thesis
    proof (cases "s_NoMaster B + cdiv (s_MasterElectionUsec B) 1000000 < time0 E")
      case True
      then have "do { S \<leftarrow> session_abort B; Some ((cx_emit CxUnlist S)\<lparr>s_Err := ERR_SESSION_MINORITY\<rparr>) } = Some S'"
        using assms B False by (simp add: HealthSend_def)
      then obtain C where C: "session_abort B = Some C" "S' = (cx_emit CxUnlist C)\<lparr>s_Err := ERR_SESSION_MINORITY\<rparr>"
        by (cases "session_abort B") simp_all
      show ?thesis unfolding C(2) by (rule still.trans [OF still.trans [OF still_abort [OF C(1)] still_emit] still_fields(7)])
    next
      case 2: False
      then show ?thesis using assms B False by (auto simp: HealthSend_def still.refl)
    qed
  qed
  with 1 show ?thesis by (rule still.trans)
qed

text \<open>A lost connection posts at most the news that the master is gone.\<close>

lemma server_lost_cases:
  assumes "server_lost E AP IO j fd S = Some S'"
  obtains (quiet) "still S S'"
  | (posted) B m where "still S B" "is_news (h_Code m)" "S' = post m B"
proof (cases "sv_Binded (s_pServer S j) \<and> s_Master S = int j")
  case False
  have "still S (close_conn j fd S)" by (simp add: close_conn_def still_def set_conn_def cx_emit_def)
  then show thesis using assms False quiet
    by (auto simp: server_lost_def Let_def still.refl split: if_splits) (simp add: close_conn_def set_conn_def cx_emit_def)
next
  case True
  have 1: "still S (close_conn j fd S)" "s_Master (close_conn j fd S) = int j"
    using True by (simp_all add: close_conn_def still_def set_conn_def cx_emit_def)
  then obtain B C where B: "J_SET (int j) (close_conn j fd S) = Some B"
    and C: "for_each (\<lambda>jj S. if jj = j then Some S else map_option snd (ConnectToServer E AP IO (int jj) S))
        [0..<s_Max (NEW_MASTER E B)] (NEW_MASTER E B) = Some C"
    and S': "S' = (if SB_WAIT \<in> s_Status C then C else if SB_ISSUED \<in> s_Status C then
       post ((SESSION_MSGINIT PAXOS_SESSION_EVENT (notify_code PAXOS_Im_NOT_MASTER) 0 (SIZEOF_HEAD AP))
             \<lparr>h_Id := s_Id C, h_From := int j, h_Master := -1\<rparr>) C else C)"
    using assms True by (auto simp: server_lost_def Let_def bind_eq_Some_conv split: if_splits)
  have "still (NEW_MASTER E B) C"
    by (rule still.for_each_ev [OF _ C]) (auto intro: still_Connect split: if_splits simp: still.refl)
  then have sC: "still S C" using 1(1) still_J_SET [OF B] still_NEW_MASTER still.trans by blast
  define m where "m = (SESSION_MSGINIT PAXOS_SESSION_EVENT (notify_code PAXOS_Im_NOT_MASTER) 0 (SIZEOF_HEAD AP))
             \<lparr>h_Id := s_Id C, h_From := int j, h_Master := -1\<rparr>"
  have m: "is_news (h_Code m)" by (simp add: m_def SESSION_MSGINIT_def is_news_def)
  show thesis
  proof (cases "SB_WAIT \<notin> s_Status C \<and> SB_ISSUED \<in> s_Status C")
    case True
    then show thesis using S' posted [OF sC m] by (simp add: m_def)
  next
    case False
    then show thesis using S' quiet sC by (auto split: if_splits)
  qed
qed

lemma still_news: "master_news m S = Some (b, S') \<Longrightarrow> still S S'"
  by (auto simp: master_news_def Let_def bind_eq_Some_conv intro: still.trans [OF still_jeopard] still.trans [OF still_CLEAR]
      split: if_splits simp: still.refl)

lemma cell_message_cases:
  assumes "cell_message E AP IO m S = Some S'"
  obtains (quiet) "still S S'"
  | (posted) B where "still S B" "S' = post m (B\<lparr>s_Status := s_Status S'\<rparr>)"
proof -
  define B where "B = (let S = (if s_Reader S < 0 then S\<lparr>s_Reader := h_Reader m\<rparr> else S)
      in if h_TimeoutUsec m \<noteq> 0 then S\<lparr>s_MasterElectionUsec := h_TimeoutUsec m, s_UnitUsec := h_UnitUsec m\<rparr> else S)"
  have B: "still S B" by (simp add: B_def Let_def still_def)
  show thesis
  proof (cases "is_news (h_Code m)")
    case False
    then have "S' = post m (B\<lparr>s_Status := s_Status S'\<rparr>)"
      using assms by (auto simp: cell_message_def B_def Let_def post_def)
    with B show thesis by (rule posted)
  next
    case True
    then obtain b C where C: "master_news m B = Some (b, C)"
      and rest: "(if b then do {
             S \<leftarrow> (if s_Master C \<ge> 0 then map_option snd (ConnectToServer E AP IO (s_Master C) C) else Some C);
             if SB_WAIT \<in> s_Status S then Some S
             else if SB_ISSUED \<in> s_Status S then Some (post m S)
             else Some S } else Some C) = Some S'"
      using assms by (auto simp: cell_message_def B_def Let_def bind_eq_Some_conv)
    have sC: "still S C" using B still_news [OF C] still.trans by blast
    show thesis
    proof (cases b)
      case False
      then show thesis using rest sC quiet by simp
    next
      case True
      then obtain D where D: "(if s_Master C \<ge> 0 then map_option snd (ConnectToServer E AP IO (s_Master C) C) else Some C) = Some D"
        and r: "(if SB_WAIT \<in> s_Status D then Some D else if SB_ISSUED \<in> s_Status D then Some (post m D) else Some D) = Some S'"
        using rest by (auto simp: bind_eq_Some_conv)
      have "still C D" using D still_Connect by (auto split: if_splits simp: still.refl)
      then have "still S D" using sC still.trans by blast
      moreover have "S' = D \<or> S' = post m D" using r by (auto split: if_splits)
      moreover have "post m D = post m (D\<lparr>s_Status := s_Status (post m D)\<rparr>)" by (simp add: post_def)
      ultimately show thesis using quiet posted by metis
    qed
  qed
qed

end
