(* ===== verification/Client_Replies.thy ===== *)
theory Client_Replies
  imports Client_Frame
begin

text \<open>
  The numbers and the replies of a client, over all interleavings of its threads: the request under way
  has the last number given, waits for updates that came before it, and ends with a reply of its own.
\<close>

section \<open>The invariant\<close>

definition answer_to :: "creq_t \<Rightarrow> PaxosSessionHead_t \<Rightarrow> bool" where
  "answer_to rq m \<longleftrightarrow> Some (h_Cmd m) = rq_Cmd rq \<and> i_Seq (h_Id m) = rq_Seq rq \<and> h_Code m = 0"

definition arrived :: "PaxosSessionHead_t set \<Rightarrow> PaxosSessionHead_t list \<Rightarrow> bool" where
  "arrived R ms \<longleftrightarrow> (\<forall>m \<in> set ms. is_news (h_Code m) \<or> m \<in> R)"

fun under_way :: "phase \<Rightarrow> bool" where
  "under_way (RqDone r) = False"
| "under_way ph = True"

definition request_ok :: "PaxosSessionHead_t set \<Rightarrow> Session_t \<Rightarrow> creq_t \<Rightarrow> bool" where
  "request_ok R S rq \<longleftrightarrow> (if under_way (rq_Phase rq) then rq_Seq rq = i_Seq (s_Id S) \<and> s_Update S < i_Seq (s_Id S)
     else \<forall>m. rq_Phase rq = RqDone (Some m) \<longrightarrow> answer_to rq m \<and> m \<in> R)"

definition client_ok :: "PaxosSessionHead_t set \<Rightarrow> nat \<Rightarrow> Session_t \<Rightarrow> bool" where
  "client_ok R n S \<longleftrightarrow> arrived R (q_entry (s_Post S)) \<and> arrived R (q_entry (s_Recv S)) \<and>
     unat (i_Seq (s_Id S)) \<le> n \<and> s_Update S \<le> i_Seq (s_Id S) \<and> (\<forall>rq. s_Req S = Some rq \<longrightarrow> request_ok R S rq)"

lemma request_ok_still: "still S S' \<Longrightarrow> request_ok R S rq = request_ok R S' rq"
  by (auto simp: request_ok_def still_def)

lemma client_ok_still: "still S S' \<Longrightarrow> client_ok R n S \<Longrightarrow> client_ok R n S'"
  by (simp add: client_ok_def still_def request_ok_def)

lemma client_ok_status [simp]: "client_ok R n (S\<lparr>s_Status := st\<rparr>) = client_ok R n S"
  by (simp add: client_ok_def request_ok_def)

lemma client_ok_mono:
  assumes "client_ok R n S" and "R \<subseteq> R'" and "n \<le> n'"
  shows "client_ok R' n' S"
  using assms by (auto simp: client_ok_def arrived_def request_ok_def)

lemma client_ok_post:
  assumes "client_ok R n S" and "is_news (h_Code m) \<or> m \<in> R"
  shows "client_ok R n (post m S)"
  using assms by (auto simp: client_ok_def arrived_def request_ok_def post_def QueuePost_def if_splits)

lemma client_ok_to_phase:
  assumes "client_ok R n S" and "request_ok R S (rq\<lparr>rq_Phase := ph\<rparr>)"
  shows "client_ok R n (to_phase rq ph S)"
  using assms by (auto simp: client_ok_def to_phase_def request_ok_def)

text \<open>A wait takes the first entry of a queue, or leaves the entries.\<close>

lemma QueueTimedWait_entry:
  assumes "QueueTimedWait q ws = Some (r, x, q')" and "ws = [] \<or> ws = [WaitErr e]"
  shows "case x of Some m \<Rightarrow> q_entry q = m # q_entry q' | None \<Rightarrow> q_entry q' = q_entry q"
  using assms
  by (auto simp: QueueTimedWait_def QueueWaitLoop.simps [of _ "[]"] QueueWaitLoop.simps [of _ "[WaitErr e]"] neq_Nil_conv split: if_splits)

section \<open>Every step keeps it\<close>

lemma ok_under_way:
  assumes "client_ok R n S" and "s_Req S = Some rq" and "under_way (rq_Phase rq)"
  shows "rq_Seq rq = i_Seq (s_Id S)" and "s_Update S < i_Seq (s_Id S)"
  using assms by (auto simp: client_ok_def request_ok_def)

lemma req_sent_ok:
  assumes ok: "client_ok R n S" and rq: "rq_Seq rq = i_Seq (s_Id S)" "s_Update S < i_Seq (s_Id S)"
  shows "client_ok R n (req_sent rq (r, req, S))"
proof -
  have p: "client_ok R n (to_phase (rq\<lparr>rq_Vecs := req\<rparr>) ph S)" if "under_way ph" for ph
    by (rule client_ok_to_phase [OF ok]) (use rq that in \<open>simp add: request_ok_def\<close>)
  have "client_ok R n (to_phase (rq\<lparr>rq_Vecs := req\<rparr>) (RqDone None) (S\<lparr>s_Status := x\<rparr>))" for x
    by (rule client_ok_to_phase) (use ok in \<open>auto simp: request_ok_def\<close>)
  with p show ?thesis by (cases r) (simp_all add: req_sent_def Let_def req_fail_def)
qed

lemma req_again_ok:
  assumes a: "req_again n E AP IO rq S = Some S'" and ok: "client_ok R k S"
    and rq: "rq_Seq rq = i_Seq (s_Id S)" "s_Update S < i_Seq (s_Id S)"
  shows "client_ok R k S'"
proof -
  define T where "T = S\<lparr>s_Id := (s_Id S)\<lparr>i_Try := i_Try (s_Id S) + 1\<rparr>\<rparr>"
  have T: "still S T" by (simp add: T_def still_def)
  have go: "client_ok R k (req_sent rq (r, q, U))" if "still S U" for r q U
    by (rule req_sent_ok [OF client_ok_still [OF that ok]]) (use that rq in \<open>simp_all add: still_def\<close>)
  have cell: "client_ok R k S'" if run: "map_option (req_sent rq) (send_cell n E AP IO l q U) = Some S'" and u: "still S U" for l q U
  proof -
    obtain x where x: "send_cell n E AP IO l q U = Some x" "S' = req_sent rq x" using run by auto
    obtain r q' V where x': "x = (r, q', V)" by (cases x)
    show ?thesis using go [OF still.trans [OF u still_send_cell [OF x(1) [unfolded x']]]] x(2) by (simp add: x')
  qed
  show ?thesis
  proof (cases "rq_Update rq \<or> s_Sync S")
    case True
    then show ?thesis using a cell T by (simp add: req_again_def Let_def T_def)
  next
    case False
    then obtain j q U where U: "PaxosSendToReaderByMsg E AP IO (rq_Vecs rq) T = Some (j, q, U)"
      and rest: "(if j < 0 then map_option (req_sent rq) (send_cell n E AP IO (s_Max U) q U)
           else Some (req_sent rq (Sent j, q, U))) = Some S'"
      using a by (auto simp: req_again_def Let_def T_def bind_eq_Some_conv)
    have "still S U" using still.trans [OF T still_Reader [OF U]] .
    then show ?thesis using rest cell go by (auto split: if_splits)
  qed
qed

lemma req_message_ok:
  assumes a: "req_message rq j m S = Some S'" and ok: "client_ok R n S" and m: "is_news (h_Code m) \<or> m \<in> R"
    and rq: "s_Req S = Some rq" "under_way (rq_Phase rq)"
  shows "client_ok R n S'"
proof -
  note u = ok_under_way [OF ok rq]
  consider (wait) "S' = S" | (again) "S' = to_phase rq RqAgain S"
    | (got) "answer_to rq m" "\<not> is_news (h_Code m)" "S' = to_phase rq (RqDone (Some m))
        (if rq_Update rq then S\<lparr>s_Status := s_Status S - {SB_ISSUED}, s_Update := rq_Seq rq\<rparr>
         else S\<lparr>s_Status := s_Status S - {SB_ISSUED}\<rparr>)"
    using a by (auto simp: req_message_def answer_to_def Let_def split: if_splits)
  then show ?thesis
  proof cases
    case wait
    then show ?thesis using ok by simp
  next
    case again
    have "request_ok R S (rq\<lparr>rq_Phase := RqAgain\<rparr>)" using u by (simp add: request_ok_def)
    then show ?thesis using client_ok_to_phase [OF ok] again by simp
  next
    case got
    have "request_ok R T (rq\<lparr>rq_Phase := RqDone (Some m)\<rparr>)" for T
      using got(1,2) m by (simp add: request_ok_def answer_to_def)
    moreover have "client_ok R n (S\<lparr>s_Status := x, s_Update := rq_Seq rq, s_Req := y\<rparr>)"
      if "\<And>r. y = Some r \<Longrightarrow> request_ok R S r \<and> rq_Phase r = RqDone (Some m)" for x y
      using ok u that by (auto simp: client_ok_def request_ok_def)
    ultimately show ?thesis
      using got(3) ok by (auto simp: to_phase_def client_ok_def request_ok_def u split: if_splits)
  qed
qed

lemma req_wait_ok:
  assumes a: "req_wait rq j timeout S = Some S'" and ok: "client_ok R n S"
    and rq: "s_Req S = Some rq" "under_way (rq_Phase rq)"
  shows "client_ok R n S'"
proof (cases "QueueTimedWait (s_Post S) (if timeout then [WaitErr ETIMEDOUT] else [])")
  case None
  then show ?thesis using a ok by (simp add: req_wait_def)
next
  case (Some x)
  then obtain r y q where q: "QueueTimedWait (s_Post S) (if timeout then [WaitErr ETIMEDOUT] else []) = Some (r, y, q)"
    by (cases x) auto
  note e = QueueTimedWait_entry [OF q, of ETIMEDOUT]
  have sub: "set (q_entry q) \<subseteq> set (q_entry (s_Post S))" using e by (cases y) (auto split: if_splits)
  then have okq: "client_ok R n (S\<lparr>s_Post := q\<rparr>)" using ok by (auto simp: client_ok_def arrived_def request_ok_def)
  note u = ok_under_way [OF ok rq]
  show ?thesis
  proof (cases y)
    case None
    have "client_ok R n (to_phase rq ph (S\<lparr>s_Post := q, s_Status := st\<rparr>))" if "under_way ph \<or> ph = RqDone None" for ph st
      by (rule client_ok_to_phase) (use okq u that in \<open>auto simp: request_ok_def\<close>)
    from this [of "RqDone None"] this [of RqAgain "s_Status S"] show ?thesis
      using a q None by (auto simp: req_wait_def req_fail_def split: if_splits)
  next
    case (Some m)
    then have "is_news (h_Code m) \<or> m \<in> R" using e ok by (auto simp: client_ok_def arrived_def split: if_splits)
    moreover have "req_message rq j m (S\<lparr>s_Post := q\<rparr>) = Some S'" using a q Some by (simp add: req_wait_def)
    ultimately show ?thesis using req_message_ok [OF _ okq] rq by simp
  qed
qed

lemma req_step_ok:
  assumes a: "req_step n E AP IO timeout S = Some S'" and ok: "client_ok R k S"
  shows "client_ok R k S'"
proof (cases "s_Req S")
  case None
  then show ?thesis using a ok by (simp add: req_step_def)
next
  case (Some rq)
  show ?thesis
  proof (cases "rq_Phase rq")
    case RqAgain
    then have "under_way (rq_Phase rq)" by simp
    from req_again_ok [OF _ ok ok_under_way [OF ok Some this]] show ?thesis using a Some RqAgain by (simp add: req_step_def)
  next
    case (RqElect l)
    then have u: "under_way (rq_Phase rq)" by simp
    define T where "T = election_end E timeout S"
    have okT: "client_ok R k T"
      using ok client_ok_still [OF still.trans [OF still_CLEAR still_NEW_MASTER]] by (simp add: T_def election_end_def Let_def)
    have id: "i_Seq (s_Id T) = i_Seq (s_Id S)" "s_Update T = s_Update S"
      using still.trans [OF still_CLEAR still_NEW_MASTER, of "S\<lparr>s_Status := s_Status S - {SB_WAIT}\<rparr>" E]
      by (simp_all add: T_def election_end_def Let_def still_def)
    obtain x where x: "send_cell n E AP IO l (rq_Vecs rq) T = Some x" "S' = req_sent rq x"
      using a Some RqElect by (auto simp: req_step_def T_def)
    obtain r q V where x': "x = (r, q, V)" by (cases x)
    have V: "still T V" using x(1) unfolding x' by (rule still_send_cell)
    show ?thesis unfolding x(2) x'
      by (rule req_sent_ok [OF client_ok_still [OF V okT]]) (use V id ok_under_way [OF ok Some u] in \<open>simp_all add: still_def\<close>)
  next
    case (RqWait j)
    then show ?thesis using req_wait_ok [OF _ ok Some, of j timeout S'] a Some by (simp add: req_step_def)
  next
    case (RqDone r)
    then show ?thesis using a ok Some by (simp add: req_step_def)
  qed
qed

text \<open>A new request gets the next number.\<close>

lemma req_begin_ok:
  assumes ok: "client_ok R n S" and free: "\<not> busy S" and n: "Suc n < 2 ^ 32"
  shows "client_ok R (Suc n) (req_begin req Update S)"
proof -
  have "unat (i_Seq (s_Id S)) < 2 ^ 32 - 1" using ok n by (simp add: client_ok_def)
  then have inc: "unat (i_Seq (s_Id S) + 1) = Suc (unat (i_Seq (s_Id S)))"
    by (simp add: unat_word_ariths)
  then have "s_Update S < i_Seq (s_Id S) + 1" using ok by (simp add: client_ok_def word_less_nat_alt word_le_nat_alt)
  then show ?thesis using ok inc
    by (auto simp: req_begin_def Let_def client_ok_def request_ok_def word_le_nat_alt word_less_nat_alt)
qed

lemma discard_sub: "discard_loop n q = Some q' \<Longrightarrow> set (q_entry q') \<subseteq> set (q_entry q)"
proof (induction n arbitrary: q)
  case (Suc n)
  obtain r y q1 where q1: "QueueTimedWait q [WaitErr ETIMEDOUT] = Some (r, y, q1)"
    using Suc.prems by (cases "QueueTimedWait q [WaitErr ETIMEDOUT]") auto
  note e = QueueTimedWait_entry [OF q1, of ETIMEDOUT]
  show ?case
  proof (cases y)
    case None
    then show ?thesis using Suc.prems q1 e by simp
  next
    case (Some m)
    then have "set (q_entry q') \<subseteq> set (q_entry q1)" using Suc.IH Suc.prems q1 by simp
    then show ?thesis using e Some by auto
  qed
qed simp

lemma open_start_cases:
  assumes "open_start E No Sync S = Some S'"
  obtains n q where "discard_loop n ((s_Post S)\<lparr>q_abrt := 0\<rparr>) = Some q"
    and "s_Post S' = q" "s_Recv S' = (s_Recv S)\<lparr>q_abrt := 0\<rparr>" "i_Seq (s_Id S') = 0" "s_Update S' = 0" "s_Req S' = s_Req S"
proof -
  define T where "T = S\<lparr>s_Post := (s_Post S)\<lparr>q_abrt := 0\<rparr>, s_Recv := (s_Recv S)\<lparr>q_abrt := 0\<rparr>, s_NoMaster := 0, s_Err := 0\<rparr>"
  obtain D where D: "PaxosRecvFromCellDiscard T = Some D"
    using assms by (cases "PaxosRecvFromCellDiscard T") (simp_all add: open_start_def T_def [symmetric] split: if_splits)
  obtain q where q: "discard_loop (Suc (length (q_entry (s_Post T)))) (s_Post T) = Some q" and Dq: "D = T\<lparr>s_Post := q\<rparr>"
    using D by (auto simp: PaxosRecvFromCellDiscard_def)
  have q': "discard_loop (Suc (length (q_entry (s_Post T)))) ((s_Post S)\<lparr>q_abrt := 0\<rparr>) = Some q"
    using q by (simp add: T_def)
  have act: "SB_ACTIVE \<notin> s_Status S" using assms by (auto simp: open_start_def ASSERT_def split: if_splits)
  then have S': "S' = (let S = D\<lparr>s_Id := (s_Id D)\<lparr>i_Time := time0 E, i_No := No, i_Seq := 0, i_SeqWait := 0, i_Reuse := i_Reuse (s_Id D) + 1\<rparr>,
             s_MasterElectionUsec := 30000000, s_Status := {SB_ACTIVE, SB_INIT}, s_Update := 0, s_Sync := Sync\<rparr>;
           S = (CLEAR_JEOPARD S)\<lparr>s_Master := 0, s_Reader := -1\<rparr>
       in S\<lparr>s_pServer := (\<lambda>j. if j < s_Max S
           then (s_pServer S j)\<lparr>sv_Binded := False, sv_CheckLast := time0 E, sv_Fd := None\<rparr> else s_pServer S j)\<rparr>)"
    using assms D act by (simp add: open_start_def ASSERT_def T_def [symmetric] Let_def)
  show ?thesis by (rule that [OF q']) (simp_all add: S' Let_def CLEAR_JEOPARD_def Dq T_def)
qed

lemma open_start_ok:
  assumes a: "open_start E No Sync S = Some S'" and ok: "client_ok R n S" and free: "\<not> busy S"
  shows "client_ok R n S' \<and> \<not> busy S'"
  using a
proof (cases rule: open_start_cases)
  case (1 k q)
  have q: "set (q_entry q) \<subseteq> set (q_entry (s_Post S))" using discard_sub [OF 1(1)] by simp
  have "\<not> under_way (rq_Phase rq)" if "s_Req S = Some rq" for rq
    using free that by (cases "rq_Phase rq") (auto simp: busy_def)
  then show ?thesis using 1 q ok free by (auto simp: client_ok_def arrived_def request_ok_def busy_def)
qed

definition received :: "client_event \<Rightarrow> PaxosSessionHead_t set" where
  "received ev = (case ev of CHandler E j fd (Some m) \<Rightarrow> {m} | _ \<Rightarrow> {})"

lemma handler_ok:
  assumes a: "RecvMsgFromServerHandler E AP IO j fd r S = Some S'" and ok: "client_ok R n S"
  shows "client_ok (R \<union> received (CHandler E j fd r)) n S'"
proof (cases r)
  case None
  then have "server_lost E AP IO j fd S = Some S'" using a by (simp add: RecvMsgFromServerHandler_def)
  then show ?thesis
  proof (cases rule: server_lost_cases)
    case quiet
    then show ?thesis using client_ok_mono [OF client_ok_still [OF quiet ok]] by auto
  next
    case (posted B m)
    then show ?thesis using client_ok_mono [OF client_ok_post [OF client_ok_still [OF posted(1) ok]]] by auto
  qed
next
  case (Some m)
  have ok': "client_ok (insert m R) n S" by (rule client_ok_mono [OF ok]) auto
  have sent: "client_ok (insert m R) n (snd (fSendTo IO fd v S))" for v
    by (rule client_ok_still [OF still_send ok'])
  obtain B where B: "client_ok (insert m R) n B" and S': "S' = (case h_Cmd m of
              PAXOS_SESSION_GET_MEMBER \<Rightarrow> B\<lparr>s_pCell := ci_Cell IO m\<rparr>
            | PAXOS_SESSION_DATA \<Rightarrow> B\<lparr>s_Data := snd (QueuePost (s_Data B) m)\<rparr>
            | _ \<Rightarrow> B\<lparr>s_Recv := snd (QueuePost (s_Recv B) m)\<rparr>)"
    using a Some ok' sent by (auto simp: RecvMsgFromServerHandler_def bind_eq_Some_conv Let_def split: if_splits)
  have "client_ok (insert m R) n (B\<lparr>s_pCell := c\<rparr>)" "client_ok (insert m R) n (B\<lparr>s_Data := d\<rparr>)" for c d
    using client_ok_still [OF still_fields(10) B] client_ok_still [OF still_fields(9) B] by simp_all
  moreover have "client_ok (insert m R) n (B\<lparr>s_Recv := snd (QueuePost (s_Recv B) m)\<rparr>)"
    using B by (auto simp: client_ok_def arrived_def request_ok_def QueuePost_def)
  ultimately have "client_ok (insert m R) n S'" unfolding S' by (cases "h_Cmd m") simp_all
  then show ?thesis by (simp add: received_def Some)
qed

lemma cell_thread_ok:
  assumes a: "RecvMsgFromCellThread E AP IO S = Some S'" and ok: "client_ok R n S"
  shows "client_ok R n S'"
proof (cases "QueueTimedWait (s_Recv S) []")
  case None
  then show ?thesis using a ok by (simp add: RecvMsgFromCellThread_def)
next
  case (Some x)
  then obtain r y q where q: "QueueTimedWait (s_Recv S) [] = Some (r, y, q)" by (cases x) auto
  note e = QueueTimedWait_entry [OF q disjI1 [OF refl]]
  have "set (q_entry q) \<subseteq> set (q_entry (s_Recv S))" using e by (cases y) auto
  then have okq: "client_ok R n (S\<lparr>s_Recv := q\<rparr>)" using ok by (auto simp: client_ok_def arrived_def request_ok_def)
  show ?thesis
  proof (cases y)
    case None
    then show ?thesis using a q okq by (simp add: RecvMsgFromCellThread_def)
  next
    case (Some m)
    then have m: "is_news (h_Code m) \<or> m \<in> R" using e ok by (auto simp: client_ok_def arrived_def)
    have "cell_message E AP IO m (S\<lparr>s_Recv := q\<rparr>) = Some S'" using a q Some by (simp add: RecvMsgFromCellThread_def)
    then show ?thesis
    proof (cases rule: cell_message_cases)
      case quiet
      then show ?thesis using client_ok_still okq by blast
    next
      case (posted B)
      have "client_ok R n (B\<lparr>s_Status := s_Status S'\<rparr>)" using client_ok_still [OF posted(1) okq] by simp
      then show ?thesis using client_ok_post m posted(2) by metis
    qed
  qed
qed

lemma abort_ok:
  assumes a: "PaxosSessionAbort S = Some S'" and ok: "client_ok R n S"
  shows "client_ok R n S'"
proof -
  define T where "T = S\<lparr>s_Status := s_Status S - {SB_ACTIVE}, s_Post := snd (QueueAbort (s_Post S) 9),
            s_Recv := snd (QueueAbort (s_Recv S) 9)\<rparr>"
  have okT: "client_ok R n T" using ok by (simp add: T_def client_ok_def request_ok_def QueueAbort_def)
  obtain B where "session_abort T = Some B" "S' = cx_emit CxUnlist B" using a by (auto simp: PaxosSessionAbort_def T_def Let_def)
  then show ?thesis using client_ok_still [OF still_emit client_ok_still [OF still_abort okT]] by simp
qed

definition begins :: "client_event \<Rightarrow> nat" where
  "begins ev = (case ev of COpen E No Sync \<Rightarrow> 1 | CBegin req Update \<Rightarrow> 1 | _ \<Rightarrow> 0)"

lemma client_step_ok:
  assumes a: "client_step AP IO ev S = Some S'" and ok: "client_ok R n S" and n: "n + begins ev < 2 ^ 32"
  shows "client_ok (R \<union> received ev) (n + begins ev) S'"
proof (cases ev)
  case (COpen E No Sync)
  then have free: "\<not> busy S" and o: "PaxosSessionOpen E AP No Sync S = Some S'" using a by (auto split: if_splits)
  show ?thesis
  proof (cases "SB_INIT \<in> s_Status S")
    case True
    then obtain T where "open_start E No Sync S = Some T" "S' = req_begin (head_request AP PAXOS_SESSION_OPEN) True T"
      using o by (auto simp: PaxosSessionOpen_def)
    with open_start_ok [OF _ ok free] req_begin_ok n show ?thesis by (fastforce simp: COpen begins_def received_def)
  next
    case False
    then show ?thesis using o client_ok_mono [OF ok] by (simp add: PaxosSessionOpen_def COpen begins_def received_def)
  qed
next
  case (CBegin req Update)
  then have "\<not> busy S" "S' = req_begin req Update S" using a by (auto split: if_splits)
  then show ?thesis using req_begin_ok [OF ok] n by (simp add: CBegin begins_def received_def)
next
  case (CStep k E timeout)
  then show ?thesis using req_step_ok [OF _ ok] a by (simp add: begins_def received_def)
next
  case (CHandler E j fd r)
  then show ?thesis using handler_ok [OF _ ok] a by (simp add: begins_def)
next
  case (CCell E)
  then show ?thesis using cell_thread_ok [OF _ ok] a by (simp add: begins_def received_def)
next
  case (CHealth E)
  then show ?thesis using client_ok_still [OF still_Health ok] a by (simp add: begins_def received_def)
next
  case CAbort
  then show ?thesis using abort_ok [OF _ ok] a by (simp add: begins_def received_def)
qed

lemma client_run_ok:
  assumes "for_each (client_step AP IO) evs S = Some S'" and "client_ok R n S" and "n + sum_list (map begins evs) < 2 ^ 32"
  shows "client_ok (R \<union> (\<Union>ev \<in> set evs. received ev)) (n + sum_list (map begins evs)) S'"
  using assms
proof (induction evs arbitrary: S R n)
  case (Cons ev evs)
  then obtain B where B: "client_step AP IO ev S = Some B" "for_each (client_step AP IO) evs B = Some S'"
    by (auto simp: bind_eq_Some_conv)
  have "client_ok (R \<union> received ev) (n + begins ev) B" using client_step_ok [OF B(1) Cons.prems(2)] Cons.prems(3) by simp
  from Cons.IH [OF B(2) this] Cons.prems(3) show ?case by (simp add: Un_assoc add.assoc)
qed simp

lemma alloc_ok: "client_ok {} 0 (PaxosSessionAlloc pid cell health)"
  by (simp add: client_ok_def PaxosSessionAlloc_def arrived_def QueueInit_def client_zero_def)

end
