(* ===== verification/Client_Sending.thy ===== *)
theory Client_Sending
  imports Client_Frame
begin

text \<open>
  The sending of a request: it comes to an end when sends succeed in the end, the whole request is then
  on one connection, and when it cannot come to an end.
\<close>

section \<open>The table of connections\<close>

text \<open>A bound server has a descriptor, and the master, when there is one, is a server of the cell.\<close>

definition conn_ok :: "Session_t \<Rightarrow> bool" where
  "conn_ok S \<longleftrightarrow> s_Max S \<le> s_Maximum S \<and> s_Master S < int (s_Max S) \<and>
     (\<forall>n < s_Maximum S. sv_Binded (s_pServer S n) \<longrightarrow> sv_Fd (s_pServer S n) \<noteq> None)"

lemma NEW_MASTER_range: "s_Master (NEW_MASTER E S) < int (s_Max S)"
proof -
  have "s_Master (new_master_loop E n T) < int m" if "s_Max T = m" "n = 0 \<or> 0 < m" for n m T
    using that by (induction n arbitrary: T) (auto simp: Let_def)
  then show ?thesis by (cases "s_Max S = 0") (simp_all add: NEW_MASTER_def)
qed

lemma conn_ok_NEW_MASTER [simp]: "conn_ok S \<Longrightarrow> conn_ok (NEW_MASTER E S)"
  using NEW_MASTER_range [of E S] by (subst NEW_MASTER_fields) (simp add: conn_ok_def)

lemma sealed_head_total: "\<exists>v. sealed_head AP h = Some v"
  using in_sum64_total [of 0 "msg_image AP h"] by (auto simp: sealed_head_def in_cksum64_def)

lemma Connect_total:
  assumes ok: "conn_ok S" and m: "0 \<le> j" "j < int (s_Maximum S)"
  shows "\<exists>r S'. ConnectToServer E AP IO j S = Some (r, S') \<and> conn_ok S'"
proof -
  define n where "n = nat j"
  have n: "server_ix S j = Some n" "n < s_Maximum S" using m by (auto simp: server_ix_def n_def)
  define T where "T = connect_tried E IO n S"
  have T: "conn_ok T" using ok by (simp add: T_def connect_tried_def conn_ok_def set_conn_def cx_emit_def)
  then have "J_SET (-1) T = Some (T\<lparr>s_pJeopard := (s_pJeopard T)(s_Max T := s_pJeopard T (s_Max T) + 1)\<rparr>)"
    by (simp add: conn_ok_def J_SET_def J_IND_def jeopard_inc_def)
  moreover have "conn_ok (T\<lparr>s_pJeopard := x\<rparr>)" for x using T by (simp add: conn_ok_def)
  moreover have "conn_ok (connection_made IO n fd b T)" for fd b
    using T by (simp add: connection_made_def Let_def fSendTo_def conn_ok_def set_conn_def cx_emit_def)
  moreover have "\<forall>fd. \<exists>b. bind_head AP IO fd T = Some b" using sealed_head_total by (simp add: bind_head_def)
  then obtain b where "\<And>fd. bind_head AP IO fd T = Some (b fd)" by metis
  moreover note this
  moreover have "sv_Binded (s_pServer S n) \<longrightarrow> (\<exists>fd. sv_Fd (s_pServer S n) = Some fd)" using ok n by (auto simp: conn_ok_def)
  ultimately show ?thesis using ok by (auto simp: Connect_eq [OF n(1)] T_def split: option.splits)
qed

lemma connect_loop_total:
  assumes "conn_ok S"
  shows "\<exists>r S'. connect_loop n E AP IO S = Some (r, S') \<and> conn_ok S'"
  using assms
proof (induction n arbitrary: S)
  case 0
  show ?case
  proof (cases "SB_ACTIVE \<in> s_Status S \<and> 0 \<le> s_Master S")
    case True
    moreover have "s_Master S < int (s_Maximum S)" using 0 by (auto simp: conn_ok_def)
    ultimately obtain r S' where c: "ConnectToServer E AP IO (s_Master S) S = Some (r, S')" "conn_ok S'"
      using Connect_total [OF 0] by blast
    show ?thesis using c True by (cases r) (simp_all add: connect_loop.simps [of 0] Let_def)
  next
    case False
    moreover have "conn_ok (S\<lparr>s_Status := x\<rparr>)" for x using 0 by (simp add: conn_ok_def)
    ultimately show ?thesis using 0 by (simp add: connect_loop.simps [of 0])
  qed
next
  case (Suc n)
  show ?case
  proof (cases "SB_ACTIVE \<in> s_Status S \<and> 0 \<le> s_Master S")
    case True
    moreover have "s_Master S < int (s_Maximum S)" using Suc.prems by (auto simp: conn_ok_def)
    ultimately obtain r S' where c: "ConnectToServer E AP IO (s_Master S) S = Some (r, S')" "conn_ok S'"
      using Connect_total [OF Suc.prems] by blast
    show ?thesis using c True Suc.IH [of "NEW_MASTER E S'"] by (cases r) (simp_all add: connect_loop.simps [of "Suc n"] Let_def)
  next
    case False
    moreover have "conn_ok (S\<lparr>s_Status := x\<rparr>)" for x using Suc.prems by (simp add: conn_ok_def)
    ultimately show ?thesis using Suc.prems by (simp add: connect_loop.simps [of "Suc n"])
  qed
qed

lemma Connect_bound:
  assumes "ConnectToServer E AP IO j S = Some (Some fd, S')"
  shows "0 \<le> j \<and> s_Master S' = s_Master S \<and> sv_Fd (s_pServer S' (nat j)) = Some fd"
  using assms
proof (cases rule: Connect_cases)
  case (made n fd' b)
  then show ?thesis
    by (simp add: connection_made_def Let_def fSendTo_def set_conn_def cx_emit_def connect_tried_def server_ix_def split: if_splits)
qed (auto simp: server_ix_def split: if_splits)

lemma connect_loop_bound:
  assumes "connect_loop n E AP IO S = Some (Connected fd j, S')"
  shows "0 \<le> j \<and> s_Master S' = j \<and> sv_Fd (s_pServer S' (nat j)) = Some fd"
  using assms
proof (induction n arbitrary: S)
  case 0
  from 0 show ?case
  proof (cases rule: connect_loop_cases)
    case (master fd')
    then show ?thesis using Connect_bound [OF master(2)] by simp
  qed simp_all
next
  case (Suc n)
  from Suc.prems show ?case
  proof (cases rule: connect_loop_cases)
    case (master fd')
    then show ?thesis using Connect_bound [OF master(2)] by simp
  next
    case (next_server B m)
    then show ?thesis using Suc.IH by simp
  qed simp_all
qed

section \<open>The request on a connection\<close>

lemma MsgCksum64_total: "r < 8 \<Longrightarrow> \<exists>ck r'. MsgCksum64 vs s n r = Some (ck, r')"
proof -
  have "\<exists>w r'. MsgCksum64_loop vs sum r = Some (w, r')" if "r < 8" for vs sum r
    using that
  proof (induction vs arbitrary: sum r)
    case (Cons v vs)
    obtain w where "in_sum64 (v_Data v) r = Some w" using in_sum64_total [OF Cons.prems] by blast
    then show ?case using Cons by simp
  qed simp
  then show "r < 8 \<Longrightarrow> ?thesis" by (fastforce simp: MsgCksum64_def Let_def)
qed

lemma SessionCksum_total: "\<exists>q. PaxosSessionMsgCksum64 AP S j req = Some q"
proof (induction AP S j req rule: PaxosSessionMsgCksum64.induct)
  case (3 AP S j rpl dis h vs)
  define seg where "seg = CHead rpl dis (SET_HEAD S j h) # takeWhile (\<lambda>v. \<not> is_head v) vs"
  obtain ck r where "MsgCksum64 (map (cvec_vec AP) seg) 0 (int (length seg)) 0 = Some (ck, r)"
    using MsgCksum64_total [of 0] by fastforce
  then show ?case using 3 by (fastforce simp: Let_def seg_def)
qed auto

text \<open>The pieces that go out.\<close>

definition goes_out :: "app \<Rightarrow> cvec \<Rightarrow> bool" where
  "goes_out AP v \<longleftrightarrow> \<not> v_Disabled (cvec_vec AP v) \<and> v_Data (cvec_vec AP v) \<noteq> []"

lemma send_vecs_sent:
  assumes "send_vecs AP IO fd vs S = (True, S')"
  shows "s_Cx S' = s_Cx S @ map (CxSend fd) (filter (goes_out AP) vs) \<and> s_pServer S' = s_pServer S \<and> s_Master S' = s_Master S"
  using assms
  by (induction vs arbitrary: S) (auto simp: goes_out_def fSendTo_def cx_emit_def split: if_splits)

lemma send_vecs_failed:
  assumes "send_vecs AP IO fd vs S = (False, S')"
  shows "\<exists>tr. length (s_Cx S) \<le> length tr \<and> ci_SendTo IO tr fd < 0 \<and> length tr < length (s_Cx S')"
  using assms
proof (induction vs arbitrary: S)
  case (Cons v vs)
  show ?case
  proof (cases "goes_out AP v \<and> ci_SendTo IO (s_Cx S) fd < 0")
    case True
    then show ?thesis using Cons.prems by (intro exI [of _ "s_Cx S"]) (auto simp: goes_out_def fSendTo_def cx_emit_def)
  next
    case False
    then have "send_vecs AP IO fd vs (if goes_out AP v then cx_emit (CxSend fd v) S else S) = (False, S')"
      using Cons.prems by (auto simp: goes_out_def fSendTo_def split: if_splits)
    from Cons.IH [OF this] obtain tr where tr: "length (s_Cx (if goes_out AP v then cx_emit (CxSend fd v) S else S)) \<le> length tr"
      "ci_SendTo IO tr fd < 0" "length tr < length (s_Cx S')" by blast
    moreover have "length (s_Cx S) \<le> length tr" using tr(1) by (simp add: cx_emit_def split: if_splits)
    ultimately show ?thesis by blast
  qed
qed simp

lemma conn_ok_send_vecs: "send_vecs AP IO fd vs S = (b, S') \<Longrightarrow> conn_ok S \<Longrightarrow> conn_ok S'"
proof (induction vs arbitrary: S)
  case (Cons v vs)
  have "conn_ok (snd (fSendTo IO fd v S))" using Cons.prems(2) by (simp add: fSendTo_def cx_emit_def conn_ok_def)
  then show ?case using Cons by (auto simp: fSendTo_def split: if_splits)
qed simp

section \<open>The end of sending\<close>

definition sent_whole :: "app \<Rightarrow> int \<Rightarrow> cvec list \<Rightarrow> Session_t \<Rightarrow> bool" where
  "sent_whole AP j req S \<longleftrightarrow> 0 \<le> j \<and> s_Master S = j \<and>
     (\<exists>fd tr. sv_Fd (s_pServer S (nat j)) = Some fd \<and> s_Cx S = tr @ map (CxSend fd) (filter (goes_out AP) req))"

lemma send_cell_sent_whole:
  "send_cell n E AP IO left req S = Some (Sent j, req', S') \<Longrightarrow> sent_whole AP j req' S'"
proof (induction n arbitrary: left req S)
  case (Suc n)
  from Suc.prems show ?case
  proof (cases rule: send_cell_cases)
    case (sent m fd j' B)
    then show ?thesis using connect_loop_bound [OF sent(2)] send_vecs_sent [OF sent(4)] by (auto simp: sent_whole_def)
  next
    case (failed m fd j' B q C)
    then show ?thesis using Suc.IH by simp
  qed auto
qed simp

lemma send_cell_total:
  assumes good: "\<And>tr fd. N \<le> length tr \<Longrightarrow> 0 \<le> ci_SendTo IO tr fd" and "conn_ok S" and "N - length (s_Cx S) < n"
  shows "\<exists>x. send_cell n E AP IO left req S = Some x"
  using assms(2,3)
proof (induction n arbitrary: left req S)
  case (Suc n)
  obtain c B where c: "connect_loop left E AP IO S = Some (c, B)" and B: "conn_ok B"
    using connect_loop_total [OF Suc.prems(1)] by blast
  have len: "length (s_Cx S) \<le> length (s_Cx B)" using still_connect_loop [OF c] by (simp add: still_def)
  show ?case
  proof (cases c)
    case (Connected fd j)
    obtain q where q: "PaxosSessionMsgCksum64 AP B (nat j) req = Some q" using SessionCksum_total by blast
    obtain b C where v: "send_vecs AP IO fd q B = (b, C)" by (cases "send_vecs AP IO fd q B")
    show ?thesis
    proof (cases b)
      case True
      then show ?thesis using c Connected q v by simp
    next
      case False
      obtain tr where tr: "length (s_Cx B) \<le> length tr" "ci_SendTo IO tr fd < 0" "length tr < length (s_Cx C)"
        using send_vecs_failed [of AP IO fd q B C] v False by auto
      have "length tr < N" using good [of tr fd] tr(2) by (meson not_le)
      then have "N - length (s_Cx (NEW_MASTER E C)) < n"
        using tr len Suc.prems(2) by (subst NEW_MASTER_fields) auto
      moreover have "conn_ok (NEW_MASTER E C)" using conn_ok_send_vecs [OF v B] by simp
      ultimately show ?thesis using Suc.IH c Connected q v False by (simp add: Let_def)
    qed
  qed (use c in auto)
qed simp

section \<open>Where it does not end\<close>

text \<open>
  While the mutex is held no other thread marks a broken connection. When every server is bound, was
  checked long enough ago, and every send fails, the sender goes round the servers for ever.
\<close>

definition all_broken :: "env \<Rightarrow> Session_t \<Rightarrow> bool" where
  "all_broken E S \<longleftrightarrow> SB_ACTIVE \<in> s_Status S \<and> 0 \<le> s_Master S \<and> s_Master S < int (s_Max S) \<and> s_Max S \<le> s_Maximum S \<and>
     (\<forall>j < s_Max S. sv_Binded (s_pServer S j) \<and> sv_Fd (s_pServer S j) \<noteq> None \<and>
        sv_CheckLast (s_pServer S j) \<noteq> 0 \<and> sv_CheckLast (s_pServer S j) \<le> time0 E)"

lemma all_broken_NEW_MASTER:
  assumes "all_broken E S"
  shows "all_broken E (NEW_MASTER E S)"
proof -
  obtain n where "s_Max S = Suc n" using assms by (cases "s_Max S") (auto simp: all_broken_def)
  then have "NEW_MASTER E S = S\<lparr>s_NewMaster := if s_NewMaster S + 1 \<ge> s_Max S then 0 else s_NewMaster S + 1,
      s_Master := int (if s_NewMaster S + 1 \<ge> s_Max S then 0 else s_NewMaster S + 1)\<rparr>"
    using assms by (auto simp: NEW_MASTER_def Let_def all_broken_def)
  then show ?thesis using assms by (auto simp: all_broken_def)
qed

lemma all_broken_connects:
  assumes "all_broken E S"
  shows "\<exists>fd. connect_loop n E AP IO S = Some (Connected fd (s_Master S), S)"
proof -
  have "server_ix S (s_Master S) = Some (nat (s_Master S))" "nat (s_Master S) < s_Max S"
    using assms by (auto simp: all_broken_def server_ix_def)
  moreover from this obtain fd where "sv_Fd (s_pServer S (nat (s_Master S))) = Some fd" "sv_Binded (s_pServer S (nat (s_Master S)))"
    using assms by (auto simp: all_broken_def)
  ultimately show ?thesis using assms by (simp add: connect_loop.simps [of n] Connect_eq all_broken_def)
qed

lemma SessionCksum_keeps_head:
  "PaxosSessionMsgCksum64 AP S j req = Some q \<Longrightarrow> CHead r False h \<in> set req \<Longrightarrow> \<exists>h'. CHead r False h' \<in> set q"
proof (induction req arbitrary: q)
  case (Cons v vs)
  obtain v' z where z: "PaxosSessionMsgCksum64 AP S j vs = Some z" "q = v' # z"
    and v': "v = CHead r False h \<Longrightarrow> \<exists>h'. v' = CHead r False h'"
    using Cons.prems(1) by (cases v) (auto simp: Let_def bind_eq_Some_conv)
  show ?case using Cons.IH [OF z(1)] Cons.prems(2) z(2) v' by auto
qed simp

lemma send_vecs_breaks:
  assumes "\<And>tr fd. ci_SendTo IO tr fd < 0" and "\<exists>v \<in> set vs. goes_out AP v"
  shows "\<exists>x. send_vecs AP IO fd vs S = (False, S\<lparr>s_Cx := x\<rparr>)"
  using assms(2) by (induction vs arbitrary: S) (auto simp: goes_out_def fSendTo_def cx_emit_def assms(1))

lemma broken_connections_spin:
  assumes bad: "\<And>tr fd. ci_SendTo IO tr fd < 0" and img: "\<And>h. msg_image AP h \<noteq> []"
    and "CHead r False h \<in> set req" and "all_broken E S"
  shows "send_cell n E AP IO left req S = None"
  using assms(3,4)
proof (induction n arbitrary: left req h S)
  case (Suc n)
  obtain fd where c: "connect_loop left E AP IO S = Some (Connected fd (s_Master S), S)"
    using all_broken_connects [OF Suc.prems(2)] by blast
  obtain q where q: "PaxosSessionMsgCksum64 AP S (nat (s_Master S)) req = Some q" using SessionCksum_total by blast
  then obtain h' where h': "CHead r False h' \<in> set q" using SessionCksum_keeps_head Suc.prems(1) by blast
  then have "\<exists>v \<in> set q. goes_out AP v" by (intro bexI [OF _ h']) (simp add: goes_out_def img)
  then obtain x where v: "send_vecs AP IO fd q S = (False, S\<lparr>s_Cx := x\<rparr>)" using send_vecs_breaks [OF bad] by blast
  have "all_broken E (NEW_MASTER E (S\<lparr>s_Cx := x\<rparr>))"
    by (rule all_broken_NEW_MASTER) (use Suc.prems(2) in \<open>simp add: all_broken_def\<close>)
  then show ?case using Suc.IH [OF h'] c q v by (simp add: Let_def)
qed simp

text \<open>
  After an election that timed out the next server should be asked. But \<open>CLEAR_JEOPARD\<close> makes every
  \<open>s_CheckLast\<close> zero just before, and \<open>NEW_MASTER\<close> passes over such servers.
\<close>

lemma new_master_unchecked:
  assumes "\<And>j. j < s_Max S \<Longrightarrow> sv_CheckLast (s_pServer S j) = 0" and "n = 0 \<or> 0 < s_Max S"
  shows "s_Master (new_master_loop E n S) = -1"
  using assms
proof (induction n arbitrary: S)
  case (Suc n)
  define m where "m = (if s_Max S \<le> s_NewMaster S + 1 then 0 else s_NewMaster S + 1)"
  have "sv_CheckLast (s_pServer S m) = 0" using Suc.prems by (simp add: m_def)
  moreover have "s_Master (new_master_loop E n (S\<lparr>s_NewMaster := m\<rparr>)) = -1" by (rule Suc.IH) (use Suc.prems in auto)
  ultimately show ?case by (auto simp: Let_def m_def split: if_splits)
qed simp

definition unguided :: "nat \<Rightarrow> Session_t \<Rightarrow> bool" where
  "unguided left S \<longleftrightarrow> SB_ACTIVE \<in> s_Status S \<and> IsConnectedToCell S \<and>
     (\<exists>rq. s_Req S = Some rq \<and> rq_Phase rq = RqElect left)"

lemma election_timeout:
  assumes "unguided left S"
  shows "\<exists>S'. req_step (Suc n) E AP IO True S = Some S' \<and> unguided left S' \<and> s_Master S' = -1 \<and> s_Cx S' = s_Cx S
    \<and> map_option rq_Seq (s_Req S') = map_option rq_Seq (s_Req S)"
proof -
  obtain rq where rq: "s_Req S = Some rq" "rq_Phase rq = RqElect left" using assms by (auto simp: unguided_def)
  define T where "T = CLEAR_JEOPARD (S\<lparr>s_Status := s_Status S - {SB_WAIT}\<rparr>)"
  have ends: "election_end E True S = NEW_MASTER E T" by (simp add: election_end_def Let_def T_def)
  have "s_Master (NEW_MASTER E T) = -1" unfolding NEW_MASTER_def
    by (rule new_master_unchecked) (auto simp: T_def CLEAR_JEOPARD_def)
  then obtain k where nm: "NEW_MASTER E T = T\<lparr>s_NewMaster := k, s_Master := -1\<rparr>" using NEW_MASTER_fields [of E T] by metis
  have T: "s_Status T = s_Status S - {SB_WAIT}" "s_Max T = s_Max S" "s_Cx T = s_Cx S" "s_Req T = s_Req S"
    "\<And>j. sv_Binded (s_pServer T j) = sv_Binded (s_pServer S j)"
    by (simp_all add: T_def CLEAR_JEOPARD_def)
  define U where "U = T\<lparr>s_NewMaster := k, s_Master := -1, s_Status := insert SB_WAIT (s_Status T)\<rparr>"
  have "connect_loop left E AP IO (NEW_MASTER E T) = Some (Elects left, U)"
    using assms T by (simp add: connect_loop.simps [of left] nm unguided_def IsConnectedToCell_def U_def)
  then have "req_step (Suc n) E AP IO True S = Some (to_phase rq (RqElect left) U)"
    using rq by (simp add: req_step_def ends req_sent_def Let_def)
  moreover have "unguided left (to_phase rq (RqElect left) U) \<and> s_Master (to_phase rq (RqElect left) U) = -1 \<and>
      s_Cx (to_phase rq (RqElect left) U) = s_Cx S"
    using assms T by (simp add: unguided_def to_phase_def U_def IsConnectedToCell_def)
  ultimately show ?thesis using rq by (simp add: to_phase_def)
qed

end
