(* ===== verification/Client_Properties.thy ===== *)
theory Client_Properties
  imports Client_Replies Client_Sending Session_Examples
begin

text \<open>
  The properties of the client, each with a concrete application of it.
\<close>

section \<open>Composition\<close>

text \<open>A free queue: nothing in it, not aborted, and not suspended.\<close>

definition fresh_queue :: "'a Queue \<Rightarrow> bool" where
  "fresh_queue q \<longleftrightarrow> q_entry q = [] \<and> q_max q = 0 \<and> \<not> q_flg q"

lemma fresh_post: "fresh_queue q \<Longrightarrow> \<exists>q'. QueueTimedWait (snd (QueuePost q x)) ws = Some (0, Some x, q') \<and> fresh_queue q'"
  by (auto simp: fresh_queue_def QueuePost_def QueueTimedWait_def QueueWaitLoop.simps [of _ ws])

lemma handler_queues:
  assumes "cksum_ok AP m" and "h_Cmd m \<noteq> PAXOS_SESSION_GET_MEMBER" and "h_Cmd m \<noteq> PAXOS_SESSION_DATA"
  shows "\<exists>B. RecvMsgFromServerHandler E AP IO k fd (Some m) S = Some (B\<lparr>s_Recv := snd (QueuePost (s_Recv S) m)\<rparr>) \<and> still S B"
proof -
  define B where "B = (if SEQ_CMP (h_Ver m) (cl_Version (s_pCell S)) > 0
                then snd (fSendTo IO fd (CHead False False
                  ((SESSION_MSGINIT PAXOS_SESSION_GET_MEMBER 0 0 (SIZEOF_HEAD AP))\<lparr>h_Id := own_id IO fd S\<rparr>)) S)
                else S)"
  have B: "still S B" using still_send by (simp add: B_def still.refl)
  then have "s_Recv B = s_Recv S" by (simp add: still_def)
  moreover have "RecvMsgFromServerHandler E AP IO k fd (Some m) S = Some (case h_Cmd m of
              PAXOS_SESSION_GET_MEMBER \<Rightarrow> B\<lparr>s_pCell := ci_Cell IO m\<rparr>
            | PAXOS_SESSION_DATA \<Rightarrow> B\<lparr>s_Data := snd (QueuePost (s_Data B) m)\<rparr>
            | _ \<Rightarrow> B\<lparr>s_Recv := snd (QueuePost (s_Recv B) m)\<rparr>)"
    using assms(1) by (simp only: RecvMsgFromServerHandler_def option.case ASSERT_def if_True B_def Let_def bind.bind_lunit)
  moreover have "(case h_Cmd m of PAXOS_SESSION_GET_MEMBER \<Rightarrow> x | PAXOS_SESSION_DATA \<Rightarrow> y | _ \<Rightarrow> z) = z" for x y z :: Session_t
    using assms(2,3) by (cases "h_Cmd m") simp_all
  ultimately show ?thesis using B by auto
qed

lemma no_news: "\<not> is_news 0"
  by (simp add: is_news_def)

lemma cell_posts:
  assumes "h_Code m = 0"
  shows "\<exists>B. cell_message E AP IO m S = Some (B\<lparr>s_Post := snd (QueuePost (s_Post S) m)\<rparr>) \<and> s_Req B = s_Req S \<and>
    s_Post B = s_Post S"
  by (rule exI [of _ "(if h_Cmd m = PAXOS_SESSION_CLOSE then (\<lambda>S. S\<lparr>s_Status := insert SB_CLOSED (s_Status S)\<rparr>) else id)
      ((if h_TimeoutUsec m \<noteq> 0 then (\<lambda>S. S\<lparr>s_MasterElectionUsec := h_TimeoutUsec m, s_UnitUsec := h_UnitUsec m\<rparr>) else id)
        (if s_Reader S < 0 then S\<lparr>s_Reader := h_Reader m\<rparr> else S))"])
    (simp add: cell_message_def Let_def assms no_news post_def)

lemma reply_completes:
  assumes rq: "s_Req S = Some rq" "rq_Phase rq = RqWait j" and m: "answer_to rq m" "cksum_ok AP m"
    "h_Cmd m \<noteq> PAXOS_SESSION_GET_MEMBER" "h_Cmd m \<noteq> PAXOS_SESSION_DATA" and q: "fresh_queue (s_Recv S)" "fresh_queue (s_Post S)"
  shows "\<exists>S' rq'. for_each (client_step AP IO) [CHandler E1 k fd (Some m), CCell E2, CStep n E3 timeout] S = Some S' \<and>
    s_Req S' = Some rq' \<and> rq_Phase rq' = RqDone (Some m) \<and> SB_ISSUED \<notin> s_Status S' \<and> (rq_Update rq \<longrightarrow> s_Update S' = rq_Seq rq)"
proof -
  obtain B where B: "RecvMsgFromServerHandler E1 AP IO k fd (Some m) S = Some (B\<lparr>s_Recv := snd (QueuePost (s_Recv S) m)\<rparr>)" "still S B"
    using handler_queues [OF m(2-4)] by blast
  obtain r where r: "QueueTimedWait (snd (QueuePost (s_Recv S) m)) [] = Some (0, Some m, r)" using fresh_post [OF q(1)] by blast
  define T where "T = B\<lparr>s_Recv := r\<rparr>"
  have T: "s_Req T = Some rq" "s_Post T = s_Post S" using B(2) rq by (simp_all add: T_def still_def)
  have code: "h_Code m = 0" "Some (h_Cmd m) = rq_Cmd rq" "i_Seq (h_Id m) = rq_Seq rq" using m(1) by (simp_all add: answer_to_def)
  obtain C where C: "cell_message E2 AP IO m T = Some (C\<lparr>s_Post := snd (QueuePost (s_Post T) m)\<rparr>)" "s_Req C = s_Req T"
    using cell_posts [OF code(1)] by blast
  obtain p where p: "QueueTimedWait (snd (QueuePost (s_Post S) m)) (if timeout then [WaitErr ETIMEDOUT] else []) = Some (0, Some m, p)"
    using fresh_post [OF q(2)] by blast
  define U where "U = C\<lparr>s_Post := p, s_Status := s_Status C - {SB_ISSUED}, s_Update := if rq_Update rq then rq_Seq rq else s_Update C\<rparr>"
  have "req_message rq j m (C\<lparr>s_Post := p\<rparr>) = Some (to_phase rq (RqDone (Some m)) U)"
    using code no_news by (simp add: req_message_def U_def Let_def)
  then have 3: "client_step AP IO (CStep n E3 timeout) (C\<lparr>s_Post := snd (QueuePost (s_Post T) m)\<rparr>) = Some (to_phase rq (RqDone (Some m)) U)"
    using C(2) T rq p by (simp add: req_step_def req_wait_def)
  have "client_step AP IO (CCell E2) (B\<lparr>s_Recv := snd (QueuePost (s_Recv S) m)\<rparr>) = Some (C\<lparr>s_Post := snd (QueuePost (s_Post T) m)\<rparr>)"
    using C r by (simp add: RecvMsgFromCellThread_def T_def)
  with 3 B(1) have "for_each (client_step AP IO) [CHandler E1 k fd (Some m), CCell E2, CStep n E3 timeout] S
      = Some (to_phase rq (RqDone (Some m)) U)" by simp
  then show ?thesis by (auto simp: to_phase_def U_def)
qed

lemma requests_are_executed:
  assumes run: "for_each (client_step AP IO) evs (PaxosSessionAlloc pid cell health) = Some S"
    and few: "sum_list (map begins evs) < 2 ^ 31" and rq: "s_Req S = Some rq" "under_way (rq_Phase rq)"
    and m_def: "m = (SET_HEAD S j h)\<lparr>h_Cksum64 := ck\<rparr>" and d: "is_data (h_Cmd h)"
    and e: "entry_ok e" "ap_parse AP' (e_Cmd e) = m" and ob: "keeps_to_itself AP' m"
    and A: "ended_at k p q A" "a_Reply (acc A p) \<le> q" "HashSessionCompare (h_Id m) k = 0" "s_Update S \<le> q" "q < rq_Seq rq"
  shows "\<exists>A'. execute_all AP' [(E, e)] A = Some A' \<and> ended_at k p (rq_Seq rq) A' \<and>
    delivered k A' = delivered k A @ [rq_Seq rq] \<and> (answers_at AP' m \<longrightarrow> a_Reply (acc A' p) = rq_Seq rq)"
proof -
  have ok: "client_ok ({} \<union> (\<Union>ev \<in> set evs. received ev)) (0 + sum_list (map begins evs)) S"
    by (rule client_run_ok [OF run alloc_ok]) (use few in simp)
  note seq = ok_under_way(1) [OF ok rq]
  have "rq_Seq rq < 2 ^ 31" using ok few by (simp add: client_ok_def word_less_nat_alt seq)
  then have small: "rq_Seq rq < 2 ^ 31" "q < 2 ^ 31" "s_Update S < 2 ^ 31" "a_Reply (acc A p) < 2 ^ 31"
    using A(2,4,5) by (auto intro: le_less_trans less_trans)
  have m: "i_Seq (h_Id m) = rq_Seq rq" "i_SeqWait (h_Id m) = s_Update S" "is_data (h_Cmd m)"
    using d by (simp_all add: m_def SET_HEAD_def seq)
  have cmp: "0 < CMP (rq_Seq rq) (a_Reply (acc A p))" "CMP (s_Update S) q \<le> 0"
    using A(2,4,5) CMP_small [OF small(1,4)] CMP_small [OF small(3,2)] by (simp_all add: word_less_def word_le_def)
  have "rq_Seq rq \<noteq> q" using A(5) by simp
  then obtain B where "execute_one E AP' [] e A = Some (Goes B)" "ended_at k p (rq_Seq rq) B"
    "delivered k B = delivered k A @ [rq_Seq rq]" "answers_at AP' m \<longrightarrow> a_Reply (acc B p) = rq_Seq rq"
    using replica_request [OF e(1) e(2) [symmetric] A(3) m(3) _ _ _ A(1) ob, of E] cmp m by auto
  then show ?thesis by (auto simp: went_def)
qed

lemma received_from: "m \<in> received ev \<Longrightarrow> \<exists>E j fd. ev = CHandler E j fd (Some m)"
  by (cases ev) (auto simp: received_def split: option.splits)

section \<open>A client of three servers\<close>

text \<open>It opens its session, gets the reply, and issues a request; or it hears that the master is gone.\<close>

definition ex_config :: PaxosSessionCell_t where
  "ex_config = \<lparr>cl_Version = 0, cl_Maximum = 3, cl_aPeerAddr = (\<lambda>_. addr_zero)\<rparr>"

definition ex_io :: client_io where
  "ex_io = \<lparr>ci_Connect = (\<lambda>_ n. Some (n + 3)), ci_SendTo = (\<lambda>tr _. if length tr < 4 then -1 else 8),
     ci_MyAddr = (\<lambda>_. addr_zero), ci_Cell = (\<lambda>_. ex_config)\<rparr>"

definition ex_rpl :: "PaxosCmd \<Rightarrow> u32 \<Rightarrow> PaxosSessionHead_t" where
  "ex_rpl c n = (SESSION_MSGINIT c 0 0 8)\<lparr>h_Id := client_zero\<lparr>i_Seq := n\<rparr>\<rparr>"

definition ex_gone :: PaxosSessionHead_t where
  "ex_gone = (SESSION_MSGINIT PAXOS_SESSION_EVENT (notify_code PAXOS_MASTER_CANCELED) 0 8)\<lparr>h_From := 0, h_Master := -1\<rparr>"

definition ex_opening :: "client_event list" where
  "ex_opening = [COpen ex_env 7 False, CStep 3 ex_env False]"

definition ex_opened_evs :: "client_event list" where
  "ex_opened_evs = ex_opening @ [CHandler ex_env 1 4 (Some (ex_rpl PAXOS_SESSION_OPEN 1)), CCell ex_env, CStep 3 ex_env False]"

definition ex_data_evs :: "client_event list" where
  "ex_data_evs = ex_opened_evs @ [CBegin [CHead True False (SESSION_MSGINIT (PAXOS_APPLICATION 1) 0 0 8)] True]"

definition ex_gone_evs :: "client_event list" where
  "ex_gone_evs = ex_opening @ [CHandler ex_env 1 4 (Some ex_gone), CCell ex_env, CStep 3 ex_env False, CStep 3 ex_env False]"

definition ex_run :: "client_event list \<Rightarrow> Session_t option" where
  "ex_run evs = for_each (client_step ex_app ex_io) evs (PaxosSessionAlloc 5 ex_config False)"

fun holds_in :: "(Session_t \<Rightarrow> creq_t \<Rightarrow> bool) \<Rightarrow> Session_t option \<Rightarrow> bool" where
  "holds_in P None = False"
| "holds_in P (Some S) = (case s_Req S of None \<Rightarrow> False | Some rq \<Rightarrow> P S rq)"

lemma holds_in_run: "holds_in P x \<Longrightarrow> \<exists>S rq. x = Some S \<and> s_Req S = Some rq \<and> P S rq"
  by (cases x) (auto split: option.splits)

lemma ex_first_run: "holds_in (\<lambda>S rq. s_Max S = s_Maximum S \<and> s_Master S < int (s_Max S) \<and>
    list_all (\<lambda>n. \<not> sv_Binded (s_pServer S n)) [0..<s_Maximum S] \<and> length (s_Cx S) = 0) (ex_run [COpen ex_env 7 False])"
  by code_simp

lemma ex_opening_run: "holds_in (\<lambda>S rq. rq_Phase rq = RqWait 1 \<and> rq_Seq rq = 1 \<and> rq_Cmd rq = Some PAXOS_SESSION_OPEN \<and> rq_Update rq
    \<and> q_entry (s_Recv S) = [] \<and> q_entry (s_Post S) = [] \<and> q_max (s_Recv S) = 0 \<and> q_max (s_Post S) = 0
    \<and> \<not> q_flg (s_Recv S) \<and> \<not> q_flg (s_Post S)) (ex_run ex_opening)"
  by code_simp

lemma ex_opened_run: "holds_in (\<lambda>S rq. rq_Phase rq = RqDone (Some (ex_rpl PAXOS_SESSION_OPEN 1))) (ex_run ex_opened_evs)"
  by code_simp

lemma ex_data_run: "holds_in (\<lambda>S rq. under_way (rq_Phase rq) \<and> rq_Seq rq = 2 \<and> s_Update S = 1) (ex_run ex_data_evs)"
  by code_simp

lemma ex_gone_run: "holds_in (\<lambda>S rq. SB_ACTIVE \<in> s_Status S \<and> IsConnectedToCell S \<and> rq_Phase rq = RqElect 3) (ex_run ex_gone_evs)"
  by code_simp

section \<open>The properties\<close>

text \<open>
  C5: (safety) Whatever the threads of a client do, in whatever order, from the allocation of its session
  on, as long as it has begun fewer than \<open>2 ^ 32\<close> requests: a request that comes back with a message comes back with a reply of its own command, its own
  number and code 0, and one that a server sent; never with the answer to an earlier request, with a
  message left from before, or with news of an election.
\<close>

theorem client_takes_only_its_reply:
  assumes "for_each (client_step AP IO) evs (PaxosSessionAlloc pid cell health) = Some S"
    and "sum_list (map begins evs) < 2 ^ 32" and "s_Req S = Some rq" and "rq_Phase rq = RqDone (Some m)"
  shows "Some (h_Cmd m) = rq_Cmd rq \<and> i_Seq (h_Id m) = rq_Seq rq \<and> h_Code m = 0 \<and>
    (\<exists>E j fd. CHandler E j fd (Some m) \<in> set evs)"
proof -
  have "client_ok ({} \<union> (\<Union>ev \<in> set evs. received ev)) (0 + sum_list (map begins evs)) S"
    by (rule client_run_ok [OF assms(1) alloc_ok]) (use assms(2) in simp)
  then have a: "answer_to rq m" and "\<exists>ev \<in> set evs. m \<in> received ev"
    using assms(3,4) by (auto simp: client_ok_def request_ok_def)
  then obtain ev where "ev \<in> set evs" "m \<in> received ev" by blast
  then show ?thesis using a received_from [of m ev] by (auto simp: answer_to_def)
qed

lemma client_takes_only_its_reply_witness:
  "\<exists>S rq m. ex_run ex_opened_evs = Some S \<and> s_Req S = Some rq \<and> rq_Phase rq = RqDone (Some m) \<and>
    i_Seq (h_Id m) = rq_Seq rq \<and> (\<exists>E j fd. CHandler E j fd (Some m) \<in> set ex_opened_evs)"
proof -
  obtain S rq where S: "ex_run ex_opened_evs = Some S" "s_Req S = Some rq"
    "rq_Phase rq = RqDone (Some (ex_rpl PAXOS_SESSION_OPEN 1))" using holds_in_run [OF ex_opened_run] by blast
  have "sum_list (map begins ex_opened_evs) < 2 ^ 32" by (simp add: ex_opened_evs_def ex_opening_def begins_def)
  note r = client_takes_only_its_reply [OF S(1) [unfolded ex_run_def] this S(2,3)]
  show ?thesis
    by (rule exI [of _ S], rule exI [of _ rq], rule exI [of _ "ex_rpl PAXOS_SESSION_OPEN 1"]) (intro conjI S r [THEN conjunct2, THEN conjunct1]
        r [THEN conjunct2, THEN conjunct2, THEN conjunct2])
qed

text \<open>
  C6: (liveness) The request for data a client has under way, sent to the cell and decided there, is
  executed by every server where the session of the client is open without a connection and that has
  executed the last update of the client and nothing after the request: no step waits or fails, the
  application gets it once, under the number the client waits for, and the session has then started and
  ended that number, and answered it when the application answers before \<open>if_fAccepted\<close> returns. The
  client has begun fewer than \<open>2 ^ 31\<close> requests, and the application makes no call on another session
  while it handles this request.
\<close>

theorem client_request_is_executed:
  assumes "for_each (client_step AP IO) evs (PaxosSessionAlloc pid cell health) = Some S"
    and "sum_list (map begins evs) < 2 ^ 31" and "s_Req S = Some rq" and "under_way (rq_Phase rq)"
    and "m = (SET_HEAD S j h)\<lparr>h_Cksum64 := ck\<rparr>" and "is_data (h_Cmd h)"
    and "entry_ok e" and "ap_parse AP' (e_Cmd e) = m" and "keeps_to_itself AP' m"
    and "ended_at k p q A" and "a_Reply (acc A p) \<le> q" and "HashSessionCompare (h_Id m) k = 0"
    and "s_Update S \<le> q" and "q < rq_Seq rq"
  shows "\<exists>A'. execute_all AP' [(E, e)] A = Some A' \<and> ended_at k p (rq_Seq rq) A' \<and>
    delivered k A' = delivered k A @ [rq_Seq rq] \<and> (answers_at AP' m \<longrightarrow> a_Reply (acc A' p) = rq_Seq rq)"
  using assms by (rule requests_are_executed)

definition ex_client_state :: Session_t where
  "ex_client_state = the (ex_run ex_data_evs)"

definition ex_sent_head :: PaxosSessionHead_t where
  "ex_sent_head = SET_HEAD ex_client_state 1 (SESSION_MSGINIT (PAXOS_APPLICATION 1) 0 0 8)"

definition ex_open_head :: PaxosSessionHead_t where
  "ex_open_head = (SESSION_MSGINIT PAXOS_SESSION_OPEN 0 0 8)\<lparr>h_Id := (h_Id ex_sent_head)\<lparr>i_Seq := 1, i_SeqWait := 0\<rparr>\<rparr>"

definition ex_client_app :: app where
  "ex_client_app = ex_app\<lparr>ap_parse := (\<lambda>bs. if bs = [] then ex_open_head else ex_sent_head)\<rparr>"

lemma client_request_is_executed_witness:
  "\<exists>A A' p. execute_all ex_client_app [(ex_env, ex_entry 1 [])] ex_acceptor = Some A \<and>
    execute_all ex_client_app [(ex_env, ex_entry 2 [1])] A = Some A' \<and> done_to (h_Id ex_open_head) p 2 A' \<and>
    delivered (h_Id ex_open_head) A' = [2]"
proof -
  have ob: "obliging ex_client_app" using ex_app_obliging by (simp add: ex_client_app_def obliging_def answers_def answers_at_def)
  have parse: "ap_parse ex_client_app (e_Cmd (ex_entry n c)) = (if c = [] then ex_open_head else ex_sent_head)" for n c
    by (simp add: ex_client_app_def ex_client_data(6))
  have o: "h_Cmd ex_open_head = PAXOS_SESSION_OPEN" "i_Seq (h_Id ex_open_head) = 1" "i_SeqWait (h_Id ex_open_head) = 0"
    by (simp_all add: ex_open_head_def SESSION_MSGINIT_def)
  obtain A p where A: "execute_all ex_client_app [(ex_env, ex_entry 1 [])] ex_acceptor = Some A" "done_to (h_Id ex_open_head) p 1 A"
      "delivered (h_Id ex_open_head) A = []"
    using replica_run [OF ob ex_client_data(7) refl, of 1 "[]" ex_acceptor "[]" ex_env] ex_acceptor_sessions [of "h_Id ex_open_head"]
    by (auto simp: parse o ex_first numbers_def)
  obtain S rq where S: "ex_run ex_data_evs = Some S" "s_Req S = Some rq" "under_way (rq_Phase rq)" "rq_Seq rq = 2" "s_Update S = 1"
    using holds_in_run [OF ex_data_run] by blast
  have S': "S = ex_client_state" by (simp add: ex_client_state_def S(1))
  have d: "is_data (h_Cmd (SESSION_MSGINIT (PAXOS_APPLICATION 1) 0 0 8))" by (simp add: is_data_def SESSION_MSGINIT_def)
  have m: "ap_parse ex_client_app (e_Cmd (ex_entry 2 [1])) =
      (SET_HEAD S 1 (SESSION_MSGINIT (PAXOS_APPLICATION 1) 0 0 8))\<lparr>h_Cksum64 := 0\<rparr>"
    by (simp add: parse ex_sent_head_def S' SET_HEAD_def)
  have same: "HashSessionCompare (h_Id ((SET_HEAD S 1 (SESSION_MSGINIT (PAXOS_APPLICATION 1) 0 0 8))\<lparr>h_Cksum64 := 0\<rparr>))
      (h_Id ex_open_head) = 0"
    by (simp add: S' ex_open_head_def ex_sent_head_def HashSessionCompare_def)
  have few: "sum_list (map begins ex_data_evs) < 2 ^ 31"
    by (simp add: ex_data_evs_def ex_opened_evs_def ex_opening_def begins_def)
  have "s_Update S \<le> 1" "1 < rq_Seq rq" using S(4,5) by simp_all
  moreover have "ended_at (h_Id ex_open_head) p 1 A" "a_Reply (acc A p) \<le> 1" using A(2) by (simp_all add: done_ended)
  moreover have "keeps_to_itself ex_client_app m" "answers_at ex_client_app m" for m
    using ob by (simp_all add: obliging_def keeps_to_itself_def answers_def)
  ultimately obtain A' where "execute_all ex_client_app [(ex_env, ex_entry 2 [1])] A = Some A'"
      "done_to (h_Id ex_open_head) p (rq_Seq rq) A'"
      "delivered (h_Id ex_open_head) A' = delivered (h_Id ex_open_head) A @ [rq_Seq rq]"
    using client_request_is_executed [OF S(1) [unfolded ex_run_def] few S(2,3) refl d ex_client_data(7) m _ _ _ same, of p 1 A ex_env]
    by (auto simp: done_ended simp del: for_each.simps)
  then show ?thesis using A(1,3) S(4) by (intro exI [of _ A] exI [of _ A'] exI [of _ p]) (simp del: for_each.simps)
qed

text \<open>
  C34: (termination) When sends succeed after at most \<open>N\<close> effects and the table of connections is in
  order (\<open>conn_ok\<close>: the indices of the master and of the servers lie in the cell, and a bound server has
  a connection; a received \<open>h_Master\<close> is stored unchecked, so the network can break it), sending a
  request to the cell comes to an end within as many turns: the request is sent, the caller waits for an
  election, or it has failed.
  When it is sent, the last effects are its pieces, all of them and in order, on the connection to the
  master, whatever sends of it broke off before.
\<close>

theorem sending_ends:
  assumes "conn_ok S" and "\<And>tr fd. N \<le> length tr \<Longrightarrow> 0 \<le> ci_SendTo IO tr fd"
  shows "\<exists>r req' S'. send_cell (Suc (N - length (s_Cx S))) E AP IO left req S = Some (r, req', S') \<and>
    (\<forall>j. r = Sent j \<longrightarrow> 0 \<le> j \<and> s_Master S' = j \<and> (\<exists>fd tr. sv_Fd (s_pServer S' (nat j)) = Some fd \<and>
       s_Cx S' = tr @ map (CxSend fd) (filter (goes_out AP) req')))"
proof -
  obtain r req' S' where x: "send_cell (Suc (N - length (s_Cx S))) E AP IO left req S = Some (r, req', S')"
    using send_cell_total [OF assms(2,1) lessI, where E = E and AP = AP and left = left and req = req] by (metis prod.collapse)
  then have "\<forall>j. r = Sent j \<longrightarrow> sent_whole AP j req' S'" using send_cell_sent_whole by blast
  with x show ?thesis unfolding sent_whole_def by blast
qed

lemma sending_ends_witness:
  "\<exists>S r q S'. ex_run [COpen ex_env 7 False] = Some S \<and>
    send_cell 5 ex_env ex_app ex_io 3 (head_request ex_app PAXOS_SESSION_OPEN) S = Some (r, q, S') \<and>
    (\<forall>j. r = Sent j \<longrightarrow> s_Master S' = j)"
proof -
  obtain S where S: "ex_run [COpen ex_env 7 False] = Some S" "conn_ok S" "s_Cx S = []"
    using holds_in_run [OF ex_first_run] by (auto simp: conn_ok_def list_all_iff)
  have send: "0 \<le> ci_SendTo ex_io tr fd" if "4 \<le> length tr" for tr fd using that by (simp add: ex_io_def)
  have n: "Suc (4 - length (s_Cx S)) = 5" by (simp add: S(3))
  from sending_ends [OF S(2), where N = 4 and IO = ex_io, OF send, where E = ex_env and AP = ex_app and left = 3 and req = "head_request ex_app PAXOS_SESSION_OPEN", unfolded n]
  show ?thesis using S(1) by blast
qed

text \<open>
  C38: (error) A client that waits for an election and times out never asks another server, although it is
  connected and that is what the timeout is for: however often it times out, it is still waiting,
  has sent nothing and knows no master.
\<close>

theorem election_timeout_asks_no_one:
  assumes "unguided left S"
  shows "\<exists>S'. for_each (\<lambda>(n, E). req_step (Suc n) E AP IO True) ts S = Some S' \<and> unguided left S' \<and> s_Cx S' = s_Cx S \<and>
    (ts \<noteq> [] \<longrightarrow> s_Master S' = -1)"
  using assms
proof (induction ts arbitrary: S)
  case (Cons t ts)
  obtain n E where t: "t = (n, E)" by (cases t)
  obtain B where B: "req_step (Suc n) E AP IO True S = Some B" "unguided left B" "s_Master B = -1" "s_Cx B = s_Cx S"
    using election_timeout [OF Cons.prems] by blast
  from Cons.IH [OF B(2)] obtain S' where "for_each (\<lambda>(n, E). req_step (Suc n) E AP IO True) ts B = Some S'"
    "unguided left S'" "s_Cx S' = s_Cx B" "ts \<noteq> [] \<longrightarrow> s_Master S' = -1" by blast
  then show ?case using B t by (cases ts) auto
qed simp

lemma election_timeout_asks_no_one_witness:
  "\<exists>S S'. ex_run ex_gone_evs = Some S \<and> for_each (\<lambda>(n, E). req_step (Suc n) E ex_app ex_io True) [(0, ex_env), (0, ex_env)] S = Some S' \<and>
    unguided 3 S' \<and> s_Cx S' = s_Cx S \<and> s_Master S' = -1"
proof -
  obtain S rq where S: "ex_run ex_gone_evs = Some S" "s_Req S = Some rq" "SB_ACTIVE \<in> s_Status S" "IsConnectedToCell S" "rq_Phase rq = RqElect 3"
    using holds_in_run [OF ex_gone_run] by blast
  then have "unguided 3 S" by (simp add: unguided_def)
  from election_timeout_asks_no_one [OF this, of ex_app ex_io "[(0, ex_env), (0, ex_env)]"] S(1) show ?thesis
    by (simp del: for_each.simps)
qed

text \<open>
  (liveness) A request that waits for its reply gets it: when the event loop receives a reply of the
  request's command and number with code 0, and the thread of the cell and the waiting thread each do a
  step, the request is back with that very message, is no longer issued, and the session waits for an
  update with its number from then on.
\<close>

theorem reply_completes_request:
  assumes "s_Req S = Some rq" and "rq_Phase rq = RqWait j" and "answer_to rq m" and "cksum_ok AP m"
    and "h_Cmd m \<noteq> PAXOS_SESSION_GET_MEMBER" and "h_Cmd m \<noteq> PAXOS_SESSION_DATA"
    and "fresh_queue (s_Recv S)" and "fresh_queue (s_Post S)"
  shows "\<exists>S' rq'. for_each (client_step AP IO) [CHandler E1 k fd (Some m), CCell E2, CStep n E3 timeout] S = Some S' \<and>
    s_Req S' = Some rq' \<and> rq_Phase rq' = RqDone (Some m) \<and> SB_ISSUED \<notin> s_Status S' \<and> (rq_Update rq \<longrightarrow> s_Update S' = rq_Seq rq)"
  using assms by (rule reply_completes)

lemma reply_completes_request_witness:
  "\<exists>S S'. ex_run ex_opening = Some S \<and>
    for_each (client_step ex_app ex_io) [CHandler ex_env 1 4 (Some (ex_rpl PAXOS_SESSION_OPEN 1)), CCell ex_env, CStep 3 ex_env False] S = Some S' \<and>
    SB_ISSUED \<notin> s_Status S' \<and> s_Update S' = 1"
proof -
  obtain S rq where S: "ex_run ex_opening = Some S" "s_Req S = Some rq" "rq_Phase rq = RqWait 1" "rq_Seq rq = 1"
    "rq_Cmd rq = Some PAXOS_SESSION_OPEN" "rq_Update rq" "fresh_queue (s_Recv S)" "fresh_queue (s_Post S)"
    using holds_in_run [OF ex_opening_run] by (auto simp: fresh_queue_def)
  have m: "answer_to rq (ex_rpl PAXOS_SESSION_OPEN 1)" "cksum_ok ex_app (ex_rpl PAXOS_SESSION_OPEN 1)"
    "h_Cmd (ex_rpl PAXOS_SESSION_OPEN 1) = PAXOS_SESSION_OPEN"
    using S(4,5) by (simp_all add: answer_to_def ex_rpl_def SESSION_MSGINIT_def cksum_ok_def)
  have "h_Cmd (ex_rpl PAXOS_SESSION_OPEN 1) \<noteq> PAXOS_SESSION_GET_MEMBER" "h_Cmd (ex_rpl PAXOS_SESSION_OPEN 1) \<noteq> PAXOS_SESSION_DATA"
    by (simp_all add: m(3))
  from reply_completes_request [OF S(2,3) m(1,2) this S(7,8), of ex_io ex_env 1 4 ex_env 3 ex_env False] S(1,4,6)
  show ?thesis by (auto simp del: for_each.simps)
qed

end
