(* ===== verification/Gadget_BTree.thy ===== *)
theory Gadget_BTree
  imports Gadget_Base
begin

text \<open>
  The B-tree of \<^verbatim>\<open>NWGadget/src/NWGadget.c\<close>: pages of \<open>n\<close> to \<open>2 * n\<close> items with the pages between them.
  A page pointer is a page or \<open>NULL\<close>, so a leaf has \<open>NULL\<close> in every slot. The number \<open>p_M\<close> of items is the
  length of the list, and the slots past it, which the code leaves stale, are not kept. The parent of
  a page and its index there are its place: the path of slots from the root. \<open>None\<close> as a result is an access
  through \<open>NULL\<close> or outside an array.
\<close>

section \<open>Pages\<close>

datatype 'k BTPage_t = BTPage (p_aItems: "'k list") (p_apPages: "'k BTPage_t option list")

record 'k BTree_t =
  b_N :: nat
  b_pRoot :: "'k BTPage_t option"
  b_Cnt :: u64

definition BTreeInit :: "nat \<Rightarrow> 'k BTree_t" where
  "BTreeInit n = \<lparr>b_N = n, b_pRoot = None, b_Cnt = 0\<rparr>"

definition BTreeCount :: "'k BTree_t \<Rightarrow> u64" where
  "BTreeCount T = b_Cnt T"

abbreviation p_M :: "'k BTPage_t \<Rightarrow> nat" where
  "p_M p \<equiv> length (p_aItems p)"

definition child :: "nat \<Rightarrow> 'k BTPage_t \<Rightarrow> 'k BTPage_t option" where
  "child R p = (if R < length (p_apPages p) then p_apPages p ! R else None)"

text \<open>\<open>BTI_CMP\<close>: the comparison given, or the difference of the addresses.\<close>

definition BTI_CMP :: "(nat \<Rightarrow> nat \<Rightarrow> int) option \<Rightarrow> nat \<Rightarrow> nat \<Rightarrow> int" where
  "BTI_CMP b_fCompare pL pR = (case b_fCompare of None \<Rightarrow> int pL - int pR | Some f \<Rightarrow> f pL pR)"

text \<open>\<open>BTIND\<close>: the binary search for the number of items before a key.\<close>

function BTIND_loop :: "('k \<Rightarrow> bool) \<Rightarrow> 'k list \<Rightarrow> nat \<Rightarrow> nat \<Rightarrow> nat" where
  "BTIND_loop lt items L R =
     (if L < R then
        let i = (L + R) div 2
        in if lt (items ! (i - 1)) then BTIND_loop lt items (i + 1) R else BTIND_loop lt items L i
      else R)"
  by pat_completeness auto
termination by (relation "measure (\<lambda>(lt, items, L, R). R - L)") auto

declare BTIND_loop.simps [simp del]

definition BTIND :: "('k \<Rightarrow> bool) \<Rightarrow> 'k BTPage_t \<Rightarrow> nat" where
  "BTIND lt pPage = BTIND_loop lt (p_aItems pPage) 1 (p_M pPage + 1) - 1"

section \<open>Insertion\<close>

text \<open>
  \<open>split\<close> of a full page into which \<open>V\<close> goes at slot \<open>R\<close>, with \<open>pL\<close> and \<open>pR\<close> on its sides: the page, the item
  that goes up, and the new page to the right of it.
\<close>

definition split :: "nat \<Rightarrow> 'k BTPage_t \<Rightarrow> nat \<Rightarrow> 'k \<Rightarrow> 'k BTPage_t option \<Rightarrow> 'k BTPage_t option \<Rightarrow> 'k BTPage_t \<times> 'k \<times> 'k BTPage_t" where
  "split n pPage R V pR pL =
     (let is = p_aItems pPage; cs = p_apPages pPage
      in if R \<le> n then
           (if R \<noteq> n then
              (BTPage (take R is @ V # drop R (take (n - 1) is)) (take R cs @ pL # pR # drop (R + 1) (take n cs)),
               is ! (n - 1),
               BTPage (drop n is) (drop n cs))
            else
              (BTPage (take n is) (take n cs @ [pL]), V, BTPage (drop n is) (pR # drop (n + 1) cs)))
         else
           (BTPage (take n is) (take (n + 1) cs),
            is ! n,
            BTPage (drop (n + 1) (take R is) @ V # drop R is) (drop (n + 1) (take R cs) @ pL # pR # drop (R + 1) cs)))"

text \<open>An insertion ends in its page, or the page is full and splits.\<close>

datatype 'k inserted = Fits "'k BTPage_t" | Splits "'k BTPage_t" 'k "'k BTPage_t"

definition bt_place :: "nat \<Rightarrow> nat \<Rightarrow> 'k \<Rightarrow> 'k BTPage_t option \<Rightarrow> 'k BTPage_t option \<Rightarrow> 'k BTPage_t \<Rightarrow> 'k inserted" where
  "bt_place n R V pNewPage pP pPage =
     (if p_M pPage = 2 * n
      then (case split n pPage R V pNewPage pP of (pL, UP, pNew) \<Rightarrow> Splits pL UP pNew)
      else Fits (BTPage (take R (p_aItems pPage) @ V # drop R (p_aItems pPage))
             (take R (p_apPages pPage) @ pP # pNewPage # drop (R + 1) (p_apPages pPage))))"

lemma size_child [termination_simp]: "child R p = Some q \<Longrightarrow> size q < size p"
proof -
  assume "child R p = Some q"
  then have "Some q \<in> set (p_apPages p)" by (metis child_def nth_mem option.distinct(1))
  then have "size_option size (Some q) \<le> size_list (size_option size) (p_apPages p)" by (rule size_list_estimation') simp
  then show ?thesis by (cases p) simp
qed

text \<open>\<open>BTInsert\<close> goes down to a leaf and comes up as far as pages split.\<close>

function bt_insert :: "nat \<Rightarrow> ('k \<Rightarrow> 'k \<Rightarrow> int) \<Rightarrow> 'k \<Rightarrow> 'k BTPage_t \<Rightarrow> 'k inserted" where
  "bt_insert n cmp pKey pPage =
     (let R = BTIND (\<lambda>x. cmp x pKey < 0) pPage
      in case child R pPage of
           None \<Rightarrow> bt_place n R pKey None None pPage
         | Some pP \<Rightarrow> (case bt_insert n cmp pKey pP of
               Fits pP \<Rightarrow> Fits (BTPage (p_aItems pPage) ((p_apPages pPage)[R := Some pP]))
             | Splits pP V pNewPage \<Rightarrow> bt_place n R V (Some pNewPage) (Some pP) pPage))"
  by pat_completeness auto
termination by (relation "measure (\<lambda>(n, cmp, k, p). size p)") (auto intro: size_child)

declare bt_insert.simps [simp del]

definition BTInsert :: "('k \<Rightarrow> 'k \<Rightarrow> int) \<Rightarrow> 'k \<Rightarrow> 'k BTree_t \<Rightarrow> 'k BTree_t" where
  "BTInsert cmp pKey pBTree =
     (let pBTree = pBTree\<lparr>b_Cnt := b_Cnt pBTree + 1\<rparr>
      in pBTree\<lparr>b_pRoot := Some (case b_pRoot pBTree of
             None \<Rightarrow> BTPage [pKey] [None, None]
           | Some pPage \<Rightarrow> (case bt_insert (b_N pBTree) cmp pKey pPage of
               Fits pPage \<Rightarrow> pPage
             | Splits pP V pNewPage \<Rightarrow> BTPage [V] [Some pP, Some pNewPage]))\<rparr>)"

section \<open>Deletion\<close>

text \<open>
  \<open>underflow\<close> of the page at slot \<open>s\<close> of \<open>pC\<close>, which has one item too few: it gets items of the page on its
  right, or on its left when it is the last, or the two are put together. The second result tells whether
  \<open>pC\<close> in turn has too few.
\<close>

definition underflow_right :: "'k BTPage_t \<Rightarrow> nat \<Rightarrow> 'k BTPage_t \<Rightarrow> 'k BTPage_t \<Rightarrow> 'k BTPage_t \<times> bool" where
  "underflow_right pC s pA pB =
     (let n = p_M pA + 1; mc = p_M pC; mb = p_M pB; k = (mb + 1 - n) div 2; V = p_aItems pC ! s
      in if k > 0 then
           (BTPage ((p_aItems pC)[s := p_aItems pB ! (k - 1)])
              ((p_apPages pC)[s := Some (BTPage (p_aItems pA @ V # take (k - 1) (p_aItems pB)) (p_apPages pA @ take k (p_apPages pB))),
                 s + 1 := Some (BTPage (drop k (p_aItems pB)) (drop k (p_apPages pB)))]), False)
         else
           (BTPage (take s (p_aItems pC) @ drop (s + 1) (p_aItems pC))
              (take s (p_apPages pC) @ Some (BTPage (p_aItems pA @ V # take n (p_aItems pB)) (p_apPages pA @ take (n + 1) (p_apPages pB)))
                 # drop (s + 2) (p_apPages pC)), mc \<le> n))"

definition underflow_left :: "'k BTPage_t \<Rightarrow> nat \<Rightarrow> 'k BTPage_t \<Rightarrow> 'k BTPage_t \<Rightarrow> 'k BTPage_t \<times> bool" where
  "underflow_left pC s pA pB =
     (let n = p_M pA + 1; mc = p_M pC; mb = p_M pB + 1; k = (mb - n) div 2; V = p_aItems pC ! (s - 1)
      in if k > 0 then
           let mb = mb - k
           in (BTPage ((p_aItems pC)[s - 1 := p_aItems pB ! (mb - 1)])
                ((p_apPages pC)[s - 1 := Some (BTPage (take (mb - 1) (p_aItems pB)) (take mb (p_apPages pB))),
                   s := Some (BTPage (drop mb (p_aItems pB) @ V # p_aItems pA) (drop mb (p_apPages pB) @ p_apPages pA))]), False)
         else
           (BTPage (butlast (p_aItems pC))
              (butlast ((p_apPages pC)[s - 1 := Some (BTPage (p_aItems pB @ V # p_aItems pA) (p_apPages pB @ p_apPages pA))])), mc \<le> n))"

definition underflow :: "'k BTPage_t \<Rightarrow> nat \<Rightarrow> ('k BTPage_t \<times> bool) option" where
  "underflow pC s =
     do {
       pA \<leftarrow> child s pC;
       if s < p_M pC then map_option (underflow_right pC s pA) (child (s + 1) pC)
       else if s = 0 then None
       else map_option (underflow_left pC s pA) (child (s - 1) pC)
     }"

text \<open>The page at slot \<open>s\<close> has changed, and underflows when it has too few items.\<close>

definition bt_child_changed :: "nat \<Rightarrow> 'k BTPage_t \<Rightarrow> 'k BTPage_t \<times> bool \<Rightarrow> ('k BTPage_t \<times> bool) option" where
  "bt_child_changed s pPage x =
     (case x of (pP, few) \<Rightarrow>
        let pPage = BTPage (p_aItems pPage) ((p_apPages pPage)[s := Some pP])
        in if few then underflow pPage s else Some (pPage, False))"

text \<open>The largest item below a page, which takes the place of a deleted one, leaves its leaf.\<close>

function bt_take_max :: "nat \<Rightarrow> 'k BTPage_t \<Rightarrow> ('k \<times> 'k BTPage_t \<times> bool) option" where
  "bt_take_max n pP =
     (case child (p_M pP) pP of
        None \<Rightarrow> (if p_aItems pP = [] then None
          else Some (last (p_aItems pP), BTPage (butlast (p_aItems pP)) (butlast (p_apPages pP)), p_M pP - 1 < n))
      | Some q \<Rightarrow> do {
          (k, q, few) \<leftarrow> bt_take_max n q;
          x \<leftarrow> bt_child_changed (p_M pP) pP (q, few);
          Some (k, x)
        })"
  by pat_completeness auto
termination by (relation "measure (\<lambda>(n, p). size p)") (auto intro: size_child)

declare bt_take_max.simps [simp del]

definition bt_delete_here :: "nat \<Rightarrow> nat \<Rightarrow> 'k BTPage_t \<Rightarrow> ('k BTPage_t \<times> bool) option" where
  "bt_delete_here n zIndex pA =
     (case child zIndex pA of
        Some pP \<Rightarrow> do {
          (k, pP, few) \<leftarrow> bt_take_max n pP;
          bt_child_changed zIndex (BTPage ((p_aItems pA)[zIndex := k]) (p_apPages pA)) (pP, few)
        }
      | None \<Rightarrow>
          if zIndex < p_M pA
          then Some (BTPage (take zIndex (p_aItems pA) @ drop (zIndex + 1) (p_aItems pA))
                 (take (zIndex + 1) (p_apPages pA) @ drop (zIndex + 2) (p_apPages pA)), p_M pA - 1 < n)
          else None)"

fun bt_delete_at :: "nat \<Rightarrow> nat list \<Rightarrow> nat \<Rightarrow> 'k BTPage_t \<Rightarrow> ('k BTPage_t \<times> bool) option" where
  "bt_delete_at n [] zIndex pPage = bt_delete_here n zIndex pPage"
| "bt_delete_at n (s # path) zIndex pPage =
     do {
       pP \<leftarrow> child s pPage;
       x \<leftarrow> bt_delete_at n path zIndex pP;
       bt_child_changed s pPage x
     }"

section \<open>Cursors\<close>

text \<open>A cursor with the place of its page and of the next one; a key is \<open>None\<close> before it was first set.\<close>

record 'k BTCursor_t =
  c_pPage :: "nat list option"
  c_zIndex :: int
  c_pKey :: "'k option"
  c_pNextPage :: "nat list option"
  c_NextIndex :: int
  c_pNextKey :: "'k option"

definition BTCursorOpen :: "'k BTCursor_t" where
  "BTCursorOpen = \<lparr>c_pPage = None, c_zIndex = 0, c_pKey = None, c_pNextPage = None, c_NextIndex = 0, c_pNextKey = None\<rparr>"

fun page_at :: "nat list \<Rightarrow> 'k BTPage_t \<Rightarrow> 'k BTPage_t option" where
  "page_at [] p = Some p"
| "page_at (s # path) p = Option.bind (child s p) (page_at path)"

definition item_at :: "'k BTPage_t \<Rightarrow> nat list \<Rightarrow> nat \<Rightarrow> 'k option" where
  "item_at root path i = do { p \<leftarrow> page_at path root; if i < p_M p then Some (p_aItems p ! i) else None }"

text \<open>The leftmost leaf below a page.\<close>

function leftmost :: "'k BTPage_t \<Rightarrow> nat list" where
  "leftmost p = (case child 0 p of None \<Rightarrow> [] | Some q \<Rightarrow> 0 # leftmost q)"
  by pat_completeness auto
termination by (relation "measure size") (auto intro: size_child)

declare leftmost.simps [simp del]

text \<open>Up to the first page in which the page is not the last.\<close>

fun go_up :: "'k BTPage_t \<Rightarrow> nat list \<Rightarrow> (nat list \<times> nat) option" where
  "go_up p [] = None"
| "go_up p (s # path) =
     (case Option.bind (child s p) (\<lambda>q. go_up q path) of
        Some (pth, i) \<Rightarrow> Some (s # pth, i)
      | None \<Rightarrow> if s \<ge> p_M p then None else Some ([], s))"

definition next_place :: "'k BTPage_t \<Rightarrow> nat list \<Rightarrow> nat \<Rightarrow> (nat list \<times> nat) option option" where
  "next_place root path i =
     do {
       p \<leftarrow> page_at path root;
       Some (case child (i + 1) p of
           Some q \<Rightarrow> Some (path @ (i + 1) # leftmost q, 0)
         | None \<Rightarrow> if i + 1 < p_M p then Some (path, i + 1) else go_up root path)
     }"

text \<open>\<open>_BTCNext\<close> sets the next place of a cursor at slot \<open>i\<close> of the page at \<open>path\<close>.\<close>

definition BTC_next :: "'k BTPage_t \<Rightarrow> nat list \<Rightarrow> nat \<Rightarrow> 'k BTCursor_t \<Rightarrow> 'k BTCursor_t option" where
  "BTC_next root path i C =
     do {
       x \<leftarrow> next_place root path i;
       case x of
         None \<Rightarrow> Some (C\<lparr>c_pNextPage := None, c_NextIndex := -1\<rparr>)
       | Some (path, i) \<Rightarrow> do {
           k \<leftarrow> item_at root path i;
           Some (C\<lparr>c_pNextPage := Some path, c_NextIndex := int i, c_pNextKey := Some k\<rparr>)
         }
     }"

text \<open>A cursor set to a place, with the next one.\<close>

definition BTC_set :: "'k BTPage_t \<Rightarrow> nat list \<times> nat \<Rightarrow> 'k BTCursor_t \<Rightarrow> 'k BTCursor_t option" where
  "BTC_set root pl C =
     (case pl of (path, i) \<Rightarrow> do {
        k \<leftarrow> item_at root path i;
        BTC_next root path i (C\<lparr>c_pPage := Some path, c_zIndex := int i, c_pKey := Some k\<rparr>)
      })"

definition BTCHead :: "'k BTree_t \<Rightarrow> 'k BTCursor_t \<Rightarrow> (int \<times> 'k BTCursor_t) option" where
  "BTCHead T C =
     (case b_pRoot T of
        None \<Rightarrow> Some (-1, C\<lparr>c_pPage := None, c_zIndex := 0\<rparr>)
      | Some root \<Rightarrow> map_option (\<lambda>C. (0, C)) (BTC_set root (leftmost root, 0) C))"

definition BTCNext :: "'k BTree_t \<Rightarrow> 'k BTCursor_t \<Rightarrow> (int \<times> 'k BTCursor_t) option" where
  "BTCNext T C =
     (let C = C\<lparr>c_pPage := c_pNextPage C, c_zIndex := c_NextIndex C, c_pKey := c_pNextKey C\<rparr>
      in case c_pPage C of
           None \<Rightarrow> Some (-1, C)
         | Some path \<Rightarrow> do { root \<leftarrow> b_pRoot T; C \<leftarrow> BTC_next root path (nat (c_zIndex C)) C; Some (0, C) })"

function rightmost :: "'k BTPage_t \<Rightarrow> nat list" where
  "rightmost p = (case child (p_M p) p of None \<Rightarrow> [] | Some q \<Rightarrow> p_M p # rightmost q)"
  by pat_completeness auto
termination by (relation "measure size") (auto intro: size_child)

declare rightmost.simps [simp del]

text \<open>Up to the first page in which the page is not the first.\<close>

fun go_up_left :: "'k BTPage_t \<Rightarrow> nat list \<Rightarrow> (nat list \<times> nat) option" where
  "go_up_left p [] = None"
| "go_up_left p (s # path) =
     (case Option.bind (child s p) (\<lambda>q. go_up_left q path) of
        Some (pth, i) \<Rightarrow> Some (s # pth, i)
      | None \<Rightarrow> if s = 0 then None else Some ([], s - 1))"

definition prev_place :: "'k BTPage_t \<Rightarrow> nat list \<Rightarrow> nat \<Rightarrow> (nat list \<times> nat) option option" where
  "prev_place root path i =
     do {
       p \<leftarrow> page_at path root;
       case child i p of
         Some q \<Rightarrow> do { l \<leftarrow> page_at (rightmost q) q; Some (Some (path @ i # rightmost q, p_M l - 1)) }
       | None \<Rightarrow> Some (if i > 0 then Some (path, i - 1) else go_up_left root path)
     }"

definition BTCPrev :: "'k BTree_t \<Rightarrow> 'k BTCursor_t \<Rightarrow> (int \<times> 'k BTCursor_t) option" where
  "BTCPrev T C =
     (case c_pPage C of
        None \<Rightarrow> Some (-1, C)
      | Some path \<Rightarrow> do {
          root \<leftarrow> b_pRoot T;
          x \<leftarrow> prev_place root path (nat (c_zIndex C));
          Some (case x of
              None \<Rightarrow> (-1, C)
            | Some (path', i) \<Rightarrow> (0, C\<lparr>c_pNextPage := c_pPage C, c_NextIndex := c_zIndex C, c_pPage := Some path', c_zIndex := int i\<rparr>))
        })"

text \<open>
  The place of the first item that is not below a key, and that of the last not above it. A page on the way
  is passed, or is where the cursor is for now.
\<close>

fun step_back :: "('k \<Rightarrow> bool) \<Rightarrow> 'k list \<Rightarrow> nat \<Rightarrow> nat" where
  "step_back lt items 0 = 0"
| "step_back lt items (Suc R) = (if lt (items ! R) then Suc R else step_back lt items R)"

definition deeper :: "nat \<Rightarrow> (nat list \<times> nat) option \<Rightarrow> (nat list \<times> nat) option" where
  "deeper R x = map_option (\<lambda>(path, i). (R # path, i)) x"

function lower_place :: "('k \<Rightarrow> 'k \<Rightarrow> int) \<Rightarrow> 'k \<Rightarrow> 'k BTPage_t \<Rightarrow> (nat list \<times> nat) option" where
  "lower_place cmp pKey pPage =
     (let R = BTIND (\<lambda>x. cmp x pKey \<le> 0) pPage
      in if R = p_M pPage \<and> cmp (p_aItems pPage ! (R - 1)) pKey < 0
         then (case child R pPage of None \<Rightarrow> None | Some q \<Rightarrow> deeper R (lower_place cmp pKey q))
         else
           let R = step_back (\<lambda>x. cmp x pKey < 0) (p_aItems pPage) (if R = p_M pPage then R - 1 else R)
           in case child R pPage of
                None \<Rightarrow> Some ([], R)
              | Some q \<Rightarrow> (case lower_place cmp pKey q of None \<Rightarrow> Some ([], R) | Some pl \<Rightarrow> deeper R (Some pl)))"
  by pat_completeness auto
termination by (relation "measure (\<lambda>(cmp, k, p). size p)") (auto intro: size_child)

declare lower_place.simps [simp del]

function upper_place :: "('k \<Rightarrow> 'k \<Rightarrow> int) \<Rightarrow> 'k \<Rightarrow> 'k BTPage_t \<Rightarrow> (nat list \<times> nat) option" where
  "upper_place cmp pKey pPage =
     (let L = BTIND (\<lambda>x. cmp x pKey \<le> 0) pPage
      in if L = 0 \<and> cmp (p_aItems pPage ! 0) pKey > 0
         then (case child 0 pPage of None \<Rightarrow> None | Some q \<Rightarrow> deeper 0 (upper_place cmp pKey q))
         else
           (case child L pPage of
              None \<Rightarrow> Some ([], L - 1)
            | Some q \<Rightarrow> (case upper_place cmp pKey q of None \<Rightarrow> Some ([], L - 1) | Some pl \<Rightarrow> deeper L (Some pl))))"
  by pat_completeness auto
termination by (relation "measure (\<lambda>(cmp, k, p). size p)") (auto intro: size_child)

declare upper_place.simps [simp del]

definition BTC_found :: "'k BTree_t \<Rightarrow> (nat list \<times> nat) option \<Rightarrow> 'k BTCursor_t \<Rightarrow> (int \<times> 'k BTCursor_t) option" where
  "BTC_found T x C =
     (case x of
        None \<Rightarrow> Some (-1, C\<lparr>c_pPage := None\<rparr>)
      | Some pl \<Rightarrow> do { root \<leftarrow> b_pRoot T; C \<leftarrow> BTC_set root pl C; Some (0, C) })"

definition BTCFindLower :: "('k \<Rightarrow> 'k \<Rightarrow> int) \<Rightarrow> 'k \<Rightarrow> 'k BTree_t \<Rightarrow> 'k BTCursor_t \<Rightarrow> (int \<times> 'k BTCursor_t) option" where
  "BTCFindLower cmp pKey T C = BTC_found T (Option.bind (b_pRoot T) (lower_place cmp pKey)) C"

definition BTCFindUpper :: "('k \<Rightarrow> 'k \<Rightarrow> int) \<Rightarrow> 'k \<Rightarrow> 'k BTree_t \<Rightarrow> 'k BTCursor_t \<Rightarrow> (int \<times> 'k BTCursor_t) option" where
  "BTCFindUpper cmp pKey T C = BTC_found T (Option.bind (b_pRoot T) (upper_place cmp pKey)) C"

text \<open>
  \<open>BTCFind\<close> compares from the lower bound on, with the comparison cut to an \<open>int\<close>; it goes on past a greater
  key, up to \<open>n\<close> keys.
\<close>

fun BTCFind_loop :: "nat \<Rightarrow> ('k \<Rightarrow> 'k \<Rightarrow> int) \<Rightarrow> 'k \<Rightarrow> 'k BTree_t \<Rightarrow> 'k BTCursor_t \<Rightarrow> (int \<times> 'k BTCursor_t) option" where
  "BTCFind_loop 0 cmp pKey T C = None"
| "BTCFind_loop (Suc n) cmp pKey T C =
     do {
       k \<leftarrow> c_pKey C;
       let c = int32 (cmp k pKey);
       if c = 0 then Some (0, C)
       else if c < 0 then Some (-1, C)
       else do {
         (r, C) \<leftarrow> BTCNext T C;
         if r = 0 then BTCFind_loop n cmp pKey T C else Some (-1, C)
       }
     }"

fun page_size :: "'k BTPage_t \<Rightarrow> nat" where
  "page_size (BTPage is cs) = length is + sum_list (map (\<lambda>c. case c of None \<Rightarrow> 0 | Some q \<Rightarrow> page_size q) cs)"

definition tree_size :: "'k BTree_t \<Rightarrow> nat" where
  "tree_size T = (case b_pRoot T of None \<Rightarrow> 0 | Some p \<Rightarrow> page_size p)"

definition BTCFind :: "('k \<Rightarrow> 'k \<Rightarrow> int) \<Rightarrow> 'k \<Rightarrow> 'k BTree_t \<Rightarrow> 'k BTCursor_t \<Rightarrow> (int \<times> 'k BTCursor_t) option" where
  "BTCFind cmp pKey T C =
     do {
       (r, C) \<leftarrow> BTCFindLower cmp pKey T C;
       if r \<noteq> 0 then Some (-1, C) else BTCFind_loop (Suc (tree_size T)) cmp pKey T C
     }"

text \<open>\<open>BTCDelete\<close>: the item goes, a root without items gives way to its page, and the next place is found again.\<close>

definition BTCDelete :: "('k \<Rightarrow> 'k \<Rightarrow> int) \<Rightarrow> 'k BTree_t \<Rightarrow> 'k BTCursor_t \<Rightarrow> (int \<times> 'k BTree_t \<times> 'k BTCursor_t) option" where
  "BTCDelete cmp T C =
     (case c_pPage C of
        None \<Rightarrow> Some (-1, T, C)
      | Some path \<Rightarrow> do {
          root \<leftarrow> b_pRoot T;
          (root, few) \<leftarrow> bt_delete_at (b_N T) path (nat (c_zIndex C)) root;
          let T = T\<lparr>b_Cnt := b_Cnt T - 1, b_pRoot := (if p_M root = 0 then child 0 root else Some root)\<rparr>;
          if c_pNextPage C = None then Some (0, T, C)
          else do {
            k \<leftarrow> c_pNextKey C;
            (r, C) \<leftarrow> BTCFind cmp k T C;
            Some (0, T, C\<lparr>c_pNextPage := c_pPage C, c_NextIndex := c_zIndex C, c_pNextKey := c_pKey C\<rparr>)
          }
        })"

definition BTDelete :: "('k \<Rightarrow> 'k \<Rightarrow> int) \<Rightarrow> 'k \<Rightarrow> 'k BTree_t \<Rightarrow> (int \<times> 'k BTree_t) option" where
  "BTDelete cmp pKey T =
     do {
       (r, C) \<leftarrow> BTCFind cmp pKey T BTCursorOpen;
       if r = 0 then map_option (\<lambda>(r, T, C). (r, T)) (BTCDelete cmp T C) else Some (r, T)
     }"

text \<open>\<open>BTreeDestroy\<close> hands each key to \<open>b_fDestroy\<close> and deletes it. The keys handed over are the second result.\<close>

fun BTreeDestroy_loop ::
  "nat \<Rightarrow> ('k \<Rightarrow> 'k \<Rightarrow> int) \<Rightarrow> ('k \<Rightarrow> int) option \<Rightarrow> 'k BTree_t \<Rightarrow> 'k BTCursor_t \<Rightarrow> (int \<times> 'k list \<times> 'k BTree_t) option" where
  "BTreeDestroy_loop 0 cmp b_fDestroy T C = None"
| "BTreeDestroy_loop (Suc n) cmp b_fDestroy T C =
     do {
       k \<leftarrow> c_pKey C;
       if (case b_fDestroy of None \<Rightarrow> False | Some f \<Rightarrow> f k < 0) then Some (-1, [k], T)
       else do {
         (_, T, C) \<leftarrow> BTCDelete cmp T C;
         (r, C) \<leftarrow> BTCNext T C;
         if r \<ge> 0 then map_option (\<lambda>(r, ks, T). (r, k # ks, T)) (BTreeDestroy_loop n cmp b_fDestroy T C) else Some (0, [k], T)
       }
     }"

definition BTreeDestroy :: "('k \<Rightarrow> 'k \<Rightarrow> int) \<Rightarrow> ('k \<Rightarrow> int) option \<Rightarrow> 'k BTree_t \<Rightarrow> (int \<times> 'k list \<times> 'k BTree_t) option" where
  "BTreeDestroy cmp b_fDestroy T =
     do {
       (r, C) \<leftarrow> BTCHead T BTCursorOpen;
       if r < 0 then Some (-1, [], T) else BTreeDestroy_loop (tree_size T) cmp b_fDestroy T C
     }"

end
