(* ===== verification/BTree_Keys.thy ===== *)
theory BTree_Keys
  imports Gadget_BTree
begin

text \<open>
  The keys of a tree in their order, its shape, and what insertion does to both.
\<close>

section \<open>Keys in order\<close>

fun weave :: "'k list list \<Rightarrow> 'k list \<Rightarrow> 'k list" where
  "weave [] is = is"
| "weave (x # xs) [] = x"
| "weave (x # xs) (i # is) = x @ i # weave xs is"

fun keys :: "'k BTPage_t \<Rightarrow> 'k list" where
  "keys (BTPage is cs) = weave (map (\<lambda>c. case c of None \<Rightarrow> [] | Some q \<Rightarrow> keys q) cs) is"

definition keys_o :: "'k BTPage_t option \<Rightarrow> 'k list" where
  "keys_o c = (case c of None \<Rightarrow> [] | Some q \<Rightarrow> keys q)"

lemma keys_o_simps [simp]: "keys_o None = []" "keys_o (Some q) = keys q"
  by (simp_all add: keys_o_def)

lemma keys_Page: "keys (BTPage is cs) = weave (map keys_o cs) is"
  by (simp only: keys.simps keys_o_def [abs_def])

declare keys.simps [simp del]

text \<open>The keys before and after the page at a slot.\<close>

fun ahead :: "'k list list \<Rightarrow> 'k list \<Rightarrow> 'k list" where
  "ahead (x # xs) (i # is) = x @ i # ahead xs is"
| "ahead xs is = []"

definition behind :: "'k list list \<Rightarrow> 'k list \<Rightarrow> 'k list" where
  "behind xs is = (case is of [] \<Rightarrow> [] | i # is \<Rightarrow> i # weave xs is)"

lemma weave_Cons: "weave (x # xs) is = x @ behind xs is"
  by (cases "is") (simp_all add: behind_def)

lemma behind_simps [simp]: "behind xs [] = []" "behind xs (i # is) = i # weave xs is"
  by (simp_all add: behind_def)

lemma weave_append: "length xs = length is \<Longrightarrow> weave (xs @ ys) (is @ js) = ahead xs is @ weave ys js"
  by (induction xs "is" rule: list_induct2) auto

lemma ahead_append: "length xs = length is \<Longrightarrow> ahead (xs @ ys) (is @ js) = ahead xs is @ ahead ys js"
  by (induction xs "is" rule: list_induct2) auto

lemma behind_append: "length xs = length is \<Longrightarrow> is \<noteq> [] \<Longrightarrow> behind (xs @ ys) (is @ js) = hd is # weave (xs @ ys) (tl is @ js)"
  by (cases "is") (simp_all add: behind_def)

definition keys_before :: "nat \<Rightarrow> 'k BTPage_t \<Rightarrow> 'k list" where
  "keys_before R p = ahead (map keys_o (take R (p_apPages p))) (take R (p_aItems p))"

definition keys_after :: "nat \<Rightarrow> 'k BTPage_t \<Rightarrow> 'k list" where
  "keys_after R p = behind (map keys_o (drop (Suc R) (p_apPages p))) (drop R (p_aItems p))"

text \<open>A page with one page more than items.\<close>

definition fits_items :: "'k BTPage_t \<Rightarrow> bool" where
  "fits_items p \<longleftrightarrow> length (p_apPages p) = Suc (p_M p)"

lemma fits_items_Page [simp]: "fits_items (BTPage is cs) \<longleftrightarrow> length cs = Suc (length is)"
  by (simp add: fits_items_def)

lemma child_nth: "fits_items p \<Longrightarrow> R \<le> p_M p \<Longrightarrow> child R p = p_apPages p ! R"
  by (simp add: child_def fits_items_def)

lemma keys_at:
  assumes f: "fits_items p" and R: "R \<le> p_M p"
  shows "keys p = keys_before R p @ keys_o (child R p) @ keys_after R p"
proof -
  obtain "is" cs where p: "p = BTPage is cs" by (cases p)
  have len: "length cs = Suc (length is)" "R \<le> length is" using f R p by simp_all
  have "cs = take R cs @ cs ! R # drop (Suc R) cs" using len by (simp add: id_take_nth_drop)
  then have "map keys_o cs = map keys_o (take R cs) @ keys_o (cs ! R) # map keys_o (drop (Suc R) cs)"
    by (metis list.map(2) map_append)
  moreover have "is = take R is @ drop R is" by simp
  ultimately have "keys p = ahead (map keys_o (take R cs)) (take R is) @ weave (keys_o (cs ! R) # map keys_o (drop (Suc R) cs)) (drop R is)"
    using weave_append [of "map keys_o (take R cs)" "take R is"] len by (metis keys_Page length_map length_take min.absorb2 le_SucI p)
  then show ?thesis using len f R by (simp add: p weave_Cons keys_before_def keys_after_def child_nth)
qed

lemma fits_items_length: "fits_items p \<longleftrightarrow> length (p_apPages p) = Suc (p_M p)"
  by (simp add: fits_items_def)

text \<open>The keys before the next slot, and those after the one before it.\<close>

lemma keys_before_0 [simp]: "keys_before 0 p = []"
  by (simp add: keys_before_def)

lemma keys_before_Suc:
  assumes f: "fits_items p" and r: "r < p_M p"
  shows "keys_before (Suc r) p = keys_before r p @ keys_o (child r p) @ [p_aItems p ! r]"
proof -
  have "length (p_apPages p) = Suc (p_M p)" using f by (simp add: fits_items_length)
  then show ?thesis
    using r ahead_append [of "map keys_o (take r (p_apPages p))" "take r (p_aItems p)" "[keys_o (p_apPages p ! r)]" "[p_aItems p ! r]"]
    by (simp add: keys_before_def take_Suc_conv_app_nth child_nth [OF f])
qed

lemma keys_after_last [simp]: "keys_after (p_M p) p = []"
  by (simp add: keys_after_def)

lemma keys_after_Cons:
  assumes f: "fits_items p" and r: "r < p_M p"
  shows "keys_after r p = p_aItems p ! r # keys_o (child (Suc r) p) @ keys_after (Suc r) p"
proof -
  have l: "length (p_apPages p) = Suc (p_M p)" using f by (simp add: fits_items_length)
  have "drop r (p_aItems p) = p_aItems p ! r # drop (Suc r) (p_aItems p)" using r by (simp add: Cons_nth_drop_Suc)
  moreover have "drop (Suc r) (p_apPages p) = p_apPages p ! Suc r # drop (Suc (Suc r)) (p_apPages p)"
    using r l by (simp add: Cons_nth_drop_Suc)
  ultimately show ?thesis using r by (simp add: keys_after_def weave_Cons child_nth [OF f])
qed

text \<open>A page put at a slot.\<close>

lemma keys_update:
  assumes f: "fits_items p" and R: "R \<le> p_M p"
  shows "keys (BTPage (p_aItems p) ((p_apPages p)[R := c])) = keys_before R p @ keys_o c @ keys_after R p"
  using keys_at [of "BTPage (p_aItems p) ((p_apPages p)[R := c])" R] assms
  by (simp add: fits_items_def keys_before_def keys_after_def child_def)

section \<open>The binary search\<close>

text \<open>A list is parted by a test when the items that pass come first.\<close>

definition parted :: "('k \<Rightarrow> bool) \<Rightarrow> 'k list \<Rightarrow> bool" where
  "parted lt xs \<longleftrightarrow> sorted_wrt (\<lambda>x y. lt y \<longrightarrow> lt x) xs"

lemma parted_append: "parted lt (xs @ ys) \<longleftrightarrow> parted lt xs \<and> parted lt ys \<and> (\<forall>x \<in> set xs. \<forall>y \<in> set ys. lt y \<longrightarrow> lt x)"
  by (simp add: parted_def sorted_wrt_append)

lemma parted_Cons: "parted lt (x # xs) \<longleftrightarrow> (\<forall>y \<in> set xs. lt y \<longrightarrow> lt x) \<and> parted lt xs"
  by (auto simp: parted_def)

lemma parted_upto: "parted lt ((xs @ [x]) @ ys) \<Longrightarrow> lt x \<Longrightarrow> \<forall>y \<in> set (xs @ [x]). lt y"
  by (simp add: parted_append)

lemma parted_from: "parted lt (xs @ x # ys) \<Longrightarrow> \<not> lt x \<Longrightarrow> \<forall>y \<in> set (x # ys). \<not> lt y"
  by (simp add: parted_append parted_Cons)

lemma parted_mid: "parted lt (xs @ ys @ zs) \<Longrightarrow> parted lt ys"
  unfolding parted_append by blast

lemma parted_nth: "parted lt xs \<Longrightarrow> i < length xs \<Longrightarrow> lt (xs ! i) \<longleftrightarrow> i < length (takeWhile lt xs)"
proof (induction xs arbitrary: i)
  case (Cons x xs)
  then show ?case by (cases i) (auto simp: parted_Cons)
qed simp

lemma BTIND_loop_count:
  assumes "parted lt xs" and "0 < L" and "L \<le> R" and "R \<le> length xs + 1"
    and "L - 1 \<le> length (takeWhile lt xs)" and "length (takeWhile lt xs) \<le> R - 1"
  shows "BTIND_loop lt xs L R = length (takeWhile lt xs) + 1"
  using assms(2-)
proof (induction "R - L" arbitrary: L R rule: less_induct)
  case less
  let ?m = "length (takeWhile lt xs)"
  show ?case
  proof (cases "L < R")
    case True
    define i where "i = (L + R) div 2"
    have i: "L \<le> i" "i < R" "i - 1 < length xs" using True less.prems by (simp_all add: i_def)
    have lt: "lt (xs ! (i - 1)) \<longleftrightarrow> i - 1 < ?m" by (rule parted_nth [OF assms(1) i(3)])
    show ?thesis
    proof (cases "lt (xs ! (i - 1))")
      case t: True
      then have "BTIND_loop lt xs (i + 1) R = ?m + 1" using lt i less.prems by (intro less.hyps) auto
      then show ?thesis using t True by (simp add: BTIND_loop.simps [of lt xs L] i_def)
    next
      case False
      then have "BTIND_loop lt xs L i = ?m + 1" using lt i less.prems by (intro less.hyps) auto
      then show ?thesis using False True by (simp add: BTIND_loop.simps [of lt xs L] i_def)
    qed
  next
    case False
    then show ?thesis using less.prems by (simp add: BTIND_loop.simps)
  qed
qed

lemma BTIND_count: "parted lt (p_aItems p) \<Longrightarrow> BTIND lt p = length (takeWhile lt (p_aItems p))"
  using BTIND_loop_count [of lt "p_aItems p" 1 "p_M p + 1"] length_takeWhile_le [of lt "p_aItems p"]
  by (simp add: BTIND_def)

text \<open>The items of a page are among its keys, so what parts the keys parts the items.\<close>

lemma weave_set: "length xs = Suc (length is) \<Longrightarrow> set is \<subseteq> set (weave xs is)"
  by (induction xs "is" rule: weave.induct) auto

lemma weave_items: "length xs = Suc (length is) \<Longrightarrow> parted lt (weave xs is) \<Longrightarrow> parted lt is"
proof (induction xs "is" rule: weave.induct)
  case (3 x xs i "is")
  then show ?case using weave_set [of xs "is"] by (auto simp: parted_append parted_Cons)
qed (simp_all add: parted_def)

lemma parted_items: "fits_items p \<Longrightarrow> parted lt (keys p) \<Longrightarrow> parted lt (p_aItems p)"
  using weave_items [of "map keys_o (p_apPages p)" "p_aItems p" lt] by (cases p) (simp add: keys_Page)

text \<open>The search of a page finds the slot: the keys before it pass, the keys after it do not.\<close>

lemma slot_of_key:
  assumes f: "fits_items p" and pt: "parted lt (keys p)"
  shows "BTIND lt p \<le> p_M p" and "\<forall>x \<in> set (keys_before (BTIND lt p) p). lt x" and "\<forall>x \<in> set (keys_after (BTIND lt p) p). \<not> lt x"
    and "parted lt (keys_o (child (BTIND lt p) p))"
proof -
  define R where "R = BTIND lt p"
  have R: "R = length (takeWhile lt (p_aItems p))" using BTIND_count parted_items [OF assms] by (simp add: R_def)
  then show le: "BTIND lt p \<le> p_M p" using length_takeWhile_le by (metis R_def)
  note k = keys_at [OF f le, folded R_def]
  have pt': "parted lt (keys_before R p @ keys_o (child R p) @ keys_after R p)" using pt k by simp
  then show "parted lt (keys_o (child (BTIND lt p) p))" by (simp add: parted_append R_def)
  show "\<forall>x \<in> set (keys_before (BTIND lt p) p). lt x"
  proof (cases "R = 0")
    case True
    then show ?thesis by (simp add: keys_before_def R_def)
  next
    case False
    then obtain r where r: "R = Suc r" by (cases R) auto
    have "lt (p_aItems p ! r)" using R by (metis lessI nth_mem r set_takeWhileD takeWhile_nth)
    moreover have "keys_before R p = (keys_before r p @ keys_o (child r p)) @ [p_aItems p ! r]"
      using keys_before_Suc [OF f] le by (simp add: r R_def [symmetric])
    ultimately show ?thesis
      using parted_upto [of lt "keys_before r p @ keys_o (child r p)" _ "keys_o (child R p) @ keys_after R p"] pt' by (simp add: R_def)
  qed
  show "\<forall>x \<in> set (keys_after (BTIND lt p) p). \<not> lt x"
  proof (cases "R < p_M p")
    case True
    then have "\<not> lt (p_aItems p ! R)" using R nth_length_takeWhile [of lt "p_aItems p"] by simp
    then show ?thesis
      using parted_from [of lt "keys_before R p @ keys_o (child R p)"] pt' keys_after_Cons [OF f True] by (simp add: R_def)
  next
    case False
    then have "R = p_M p" using le by (simp add: R_def)
    then show ?thesis by (simp add: R_def)
  qed
qed

end
