(* ===== verification/BTree_Insert.thy ===== *)
theory BTree_Insert
  imports BTree_Keys
begin

text \<open>
  Insertion: a split cuts the overfull page in its middle, the new key goes in before the keys that are not
  less, and all leaves stay at one height.
\<close>

section \<open>Splitting\<close>

text \<open>The page with the new item and its two pages in place, which may have one item too many.\<close>

definition widened :: "nat \<Rightarrow> 'k \<Rightarrow> 'k BTPage_t option \<Rightarrow> 'k BTPage_t option \<Rightarrow> 'k BTPage_t \<Rightarrow> 'k BTPage_t" where
  "widened R V pL pR p = BTPage (take R (p_aItems p) @ V # drop R (p_aItems p))
     (take R (p_apPages p) @ pL # pR # drop (R + 1) (p_apPages p))"

definition cut_page :: "nat \<Rightarrow> 'k BTPage_t \<Rightarrow> 'k BTPage_t \<times> 'k \<times> 'k BTPage_t" where
  "cut_page n p = (BTPage (take n (p_aItems p)) (take (n + 1) (p_apPages p)), p_aItems p ! n,
     BTPage (drop (n + 1) (p_aItems p)) (drop (n + 1) (p_apPages p)))"

lemma split_cuts:
  assumes f: "fits_items p" and full: "p_M p = 2 * n" and n: "0 < n" and R: "R \<le> 2 * n"
  shows "split n p R V pR pL = cut_page n (widened R V pL pR p)"
proof -
  obtain "is" cs where p: "p = BTPage is cs" by (cases p)
  have len: "length is = 2 * n" "length cs = Suc (2 * n)" using f full by (simp_all add: p)
  consider "R < n" | "R = n" | "n < R" by linarith
  then show ?thesis
  proof cases
    case 1
    then obtain d where d: "n = R + Suc d" using less_iff_Suc_add [of R n] by auto
    show ?thesis using len
      by (simp add: p split_def cut_page_def widened_def Let_def nth_append d drop_take add.commute)
  next
    case 2
    then show ?thesis using len by (simp add: p split_def cut_page_def widened_def Let_def nth_append)
  next
    case 3
    show ?thesis using 3 len R by (simp add: p split_def cut_page_def widened_def Let_def nth_append drop_take)
  qed
qed

lemma keys_widened:
  assumes f: "fits_items p" and R: "R \<le> p_M p"
  shows "keys (widened R V pL pR p) = keys_before R p @ keys_o pL @ V # keys_o pR @ keys_after R p"
    and "fits_items (widened R V pL pR p)" and "p_M (widened R V pL pR p) = Suc (p_M p)"
    and "set (p_apPages (widened R V pL pR p)) \<subseteq> {pL, pR} \<union> set (p_apPages p)"
proof -
  have len: "length (p_apPages p) = Suc (p_M p)" using f by (simp add: fits_items_def)
  have "keys (widened R V pL pR p) = ahead (map keys_o (take R (p_apPages p))) (take R (p_aItems p)) @
      weave (keys_o pL # keys_o pR # map keys_o (drop (Suc R) (p_apPages p))) (V # drop R (p_aItems p))"
    using weave_append [of "map keys_o (take R (p_apPages p))" "take R (p_aItems p)"] len R
    by (simp add: widened_def keys_Page)
  then show "keys (widened R V pL pR p) = keys_before R p @ keys_o pL @ V # keys_o pR @ keys_after R p"
    by (simp add: weave_Cons keys_before_def keys_after_def)
  show "fits_items (widened R V pL pR p)" "p_M (widened R V pL pR p) = Suc (p_M p)"
    using len R by (simp_all add: widened_def)
  show "set (p_apPages (widened R V pL pR p)) \<subseteq> {pL, pR} \<union> set (p_apPages p)"
    using set_take_subset [of R "p_apPages p"] set_drop_subset [of "R + 1" "p_apPages p"] by (auto simp: widened_def)
qed

lemma keys_cut:
  assumes "cut_page n p = (l, V, r)" and f: "fits_items p" and n: "n < p_M p"
  shows "keys p = keys l @ V # keys r" and "fits_items l" and "fits_items r" and "p_M l = n" and "p_M r = p_M p - Suc n"
    and "set (p_apPages l) \<subseteq> set (p_apPages p)" and "set (p_apPages r) \<subseteq> set (p_apPages p)"
proof -
  obtain "is" cs where p: "p = BTPage is cs" by (cases p)
  have len: "length cs = Suc (length is)" "n < length is" using f n by (simp_all add: p)
  have lr: "l = BTPage (take n is) (take (n + 1) cs)" "V = is ! n" "r = BTPage (drop (n + 1) is) (drop (n + 1) cs)"
    using assms(1) by (simp_all add: cut_page_def p)
  have k: "keys p = keys_before (Suc n) p @ weave (map keys_o (drop (Suc n) cs)) (drop (Suc n) is)"
    using weave_append [of "map keys_o (take (Suc n) cs)" "take (Suc n) is" "map keys_o (drop (Suc n) cs)" "drop (Suc n) is"] len
    by (simp add: p keys_Page keys_before_def flip: map_append)
  have b: "keys_before (Suc n) p = ahead (map keys_o (take n cs)) (take n is) @ keys_o (cs ! n) @ [is ! n]"
    using ahead_append [of "map keys_o (take n cs)" "take n is" "[keys_o (cs ! n)]" "[is ! n]"] len
    by (simp add: p keys_before_def take_Suc_conv_app_nth)
  have l: "keys l = ahead (map keys_o (take n cs)) (take n is) @ keys_o (cs ! n)"
    using weave_append [of "map keys_o (take n cs)" "take n is" "[keys_o (cs ! n)]" "[]"] len
    by (simp add: lr keys_Page take_Suc_conv_app_nth)
  show "keys p = keys l @ V # keys r" using k b l by (simp add: lr keys_Page)
  show "fits_items l" "fits_items r" "p_M l = n" "p_M r = p_M p - Suc n" using len by (simp_all add: lr p)
  show "set (p_apPages l) \<subseteq> set (p_apPages p)" "set (p_apPages r) \<subseteq> set (p_apPages p)"
    by (simp_all add: lr p set_take_subset set_drop_subset)
qed

section \<open>Insertion\<close>

text \<open>All leaves are at height \<open>h\<close>, and every page but the topmost has at least \<open>n\<close> items, none more than \<open>2 * n\<close>.\<close>

definition filled :: "nat \<Rightarrow> 'k BTPage_t option \<Rightarrow> bool" where
  "filled n c \<longleftrightarrow> (case c of None \<Rightarrow> True | Some p \<Rightarrow> n \<le> p_M p)"

fun bal :: "nat \<Rightarrow> nat \<Rightarrow> 'k BTPage_t option \<Rightarrow> bool" where
  "bal n 0 c = (c = None)"
| "bal n (Suc h) c = (case c of None \<Rightarrow> False
     | Some p \<Rightarrow> fits_items p \<and> p_M p \<le> 2 * n \<and> (\<forall>q \<in> set (p_apPages p). bal n h q \<and> filled n q))"

lemma filled_simps [simp]: "filled n None" "filled n (Some p) \<longleftrightarrow> n \<le> p_M p"
  by (simp_all add: filled_def)

lemma bal_child: "bal n (Suc h) (Some p) \<Longrightarrow> R \<le> p_M p \<Longrightarrow> bal n h (child R p) \<and> filled n (child R p)"
  by (auto simp: child_nth) (metis fits_items_def lessI less_Suc_eq_le nth_mem order_le_less_trans)+

lemma bal_put:
  assumes "bal n (Suc h) (Some p)" and "bal n h c" and "filled n c"
  shows "bal n (Suc h) (Some (BTPage (p_aItems p) ((p_apPages p)[R := c])))"
  using assms set_update_subset_insert [of "p_apPages p" R c] by (auto simp: fits_items_def)

definition inserted_ok :: "nat \<Rightarrow> nat \<Rightarrow> nat \<Rightarrow> 'k list \<Rightarrow> 'k inserted \<Rightarrow> bool" where
  "inserted_ok n h m ks x \<longleftrightarrow> (case x of
       Fits p \<Rightarrow> bal n h (Some p) \<and> m \<le> p_M p \<and> keys p = ks
     | Splits l V r \<Rightarrow> bal n h (Some l) \<and> bal n h (Some r) \<and> p_M l = n \<and> p_M r = n \<and> keys l @ V # keys r = ks)"

lemma place_ok:
  assumes b: "bal n (Suc h) (Some p)" and n: "0 < n" and R: "R \<le> p_M p"
    and c: "bal n h pL" "filled n pL" "bal n h pR" "filled n pR"
  shows "inserted_ok n (Suc h) (p_M p) (keys_before R p @ keys_o pL @ V # keys_o pR @ keys_after R p) (bt_place n R V pR pL p)"
proof -
  have f: "fits_items p" and M: "p_M p \<le> 2 * n" using b by auto
  define W where "W = widened R V pL pR p"
  note w = keys_widened [OF f R, of V pL pR, folded W_def]
  have ch: "\<forall>q \<in> set (p_apPages W). bal n h q \<and> filled n q" using w(4) b c by auto
  show ?thesis
  proof (cases "p_M p = 2 * n")
    case True
    obtain l u r where cut: "cut_page n W = (l, u, r)" by (cases "cut_page n W")
    have "split n p R V pR pL = (l, u, r)" using split_cuts [OF f True n] R True cut by (simp add: W_def)
    then have "bt_place n R V pR pL p = Splits l u r" using True by (simp add: bt_place_def)
    moreover have "n < p_M W" using w(3) True n by simp
    note k = keys_cut [OF cut w(2) this]
    ultimately show ?thesis using k w(1,3) ch True by (auto simp: inserted_ok_def)
  next
    case False
    then have "bt_place n R V pR pL p = Fits W" by (simp add: bt_place_def W_def widened_def)
    then show ?thesis using w ch M False by (simp add: inserted_ok_def)
  qed
qed

text \<open>The list with a key before the first that is not less.\<close>

definition put_key :: "('k \<Rightarrow> bool) \<Rightarrow> 'k \<Rightarrow> 'k list \<Rightarrow> 'k list" where
  "put_key lt k ks = takeWhile lt ks @ k # dropWhile lt ks"

lemma put_key_mid:
  assumes "\<forall>x \<in> set xs. lt x" and "\<forall>x \<in> set zs. \<not> lt x"
  shows "put_key lt k (xs @ ys @ zs) = xs @ put_key lt k ys @ zs"
proof -
  have z: "takeWhile lt zs = []" "dropWhile lt zs = zs" using assms(2) by (cases zs; simp)+
  show ?thesis
  proof (cases "\<forall>y \<in> set ys. lt y")
    case True
    then show ?thesis using assms(1) z by (simp add: put_key_def takeWhile_append dropWhile_append takeWhile_eq_all_conv [THEN iffD2])
  next
    case False
    then show ?thesis using assms(1) by (auto simp: put_key_def takeWhile_append dropWhile_append)
  qed
qed

lemma insert_ok:
  assumes "bal n (Suc h) (Some p)" and n: "0 < n" and "parted (\<lambda>x. cmp x k < 0) (keys p)"
  shows "inserted_ok n (Suc h) (p_M p) (put_key (\<lambda>x. cmp x k < 0) k (keys p)) (bt_insert n cmp k p)"
  using assms(1,3)
proof (induction h arbitrary: p)
  case 0
  define R where "R = BTIND (\<lambda>x. cmp x k < 0) p"
  have f: "fits_items p" using 0 by simp
  note s = slot_of_key [OF f 0(2), folded R_def]
  have "child R p = None" using bal_child [OF 0(1) s(1)] by simp
  then have "put_key (\<lambda>x. cmp x k < 0) k (keys p) = keys_before R p @ keys_o None @ k # keys_o None @ keys_after R p"
    and "bt_insert n cmp k p = bt_place n R k None None p"
    using keys_at [OF f s(1)] put_key_mid [OF s(2,3), of k "[]"]
    by (simp_all add: put_key_def [of _ _ "[]"] bt_insert.simps [of n cmp k p] R_def)
  then show ?case using place_ok [OF 0(1) n s(1), of None None k] by simp
next
  case (Suc h)
  define R where "R = BTIND (\<lambda>x. cmp x k < 0) p"
  have f: "fits_items p" using Suc.prems by simp
  note s = slot_of_key [OF f Suc.prems(2), folded R_def]
  note c = bal_child [OF Suc.prems(1) s(1)]
  then obtain q where q: "child R p = Some q" by (cases "child R p") auto
  then have bq: "bal n (Suc h) (Some q)" "parted (\<lambda>x. cmp x k < 0) (keys q)" "n \<le> p_M q" using c s(4) by auto
  note IH = Suc.IH [OF bq(1,2)]
  have pk: "put_key (\<lambda>x. cmp x k < 0) k (keys p) = keys_before R p @ put_key (\<lambda>x. cmp x k < 0) k (keys q) @ keys_after R p"
    using keys_at [OF f s(1)] put_key_mid [OF s(2,3)] q by simp
  show ?case
  proof (cases "bt_insert n cmp k q")
    case (Fits q')
    then have q': "bal n (Suc h) (Some q')" "p_M q \<le> p_M q'" "keys q' = put_key (\<lambda>x. cmp x k < 0) k (keys q)"
      using IH by (simp_all add: inserted_ok_def)
    define p' where "p' = BTPage (p_aItems p) ((p_apPages p)[R := Some q'])"
    have "bt_insert n cmp k p = Fits p'" using q Fits by (simp add: bt_insert.simps [of n cmp k p] R_def p'_def)
    moreover have "keys p' = put_key (\<lambda>x. cmp x k < 0) k (keys p)"
      using keys_update [OF f s(1), of "Some q'"] q'(3) pk by (simp add: p'_def)
    moreover have "bal n (Suc (Suc h)) (Some p')"
      unfolding p'_def using bal_put [OF Suc.prems(1), of "Some q'" R] q'(1,2) bq(3) by simp
    ultimately show ?thesis by (simp add: inserted_ok_def p'_def)
  next
    case (Splits l V r)
    then have lr: "bal n (Suc h) (Some l)" "bal n (Suc h) (Some r)" "p_M l = n" "p_M r = n"
      "keys l @ V # keys r = put_key (\<lambda>x. cmp x k < 0) k (keys q)"
      using IH by (simp_all add: inserted_ok_def)
    have "bt_insert n cmp k p = bt_place n R V (Some r) (Some l) p"
      using q Splits by (simp add: bt_insert.simps [of n cmp k p] R_def)
    then show ?thesis using place_ok [OF Suc.prems(1) n s(1) lr(1) _ lr(2), of V] lr pk
      by (simp del: bal.simps add: flip: lr(5))
  qed
qed

text \<open>A tree: its root has an item, and is otherwise as any page.\<close>

definition tree_ok :: "'k BTree_t \<Rightarrow> bool" where
  "tree_ok T \<longleftrightarrow> 0 < b_N T \<and> (\<exists>h. bal (b_N T) h (b_pRoot T)) \<and> (\<forall>p. b_pRoot T = Some p \<longrightarrow> 0 < p_M p) \<and>
     b_Cnt T = of_nat (length (keys_o (b_pRoot T)))"

definition tree_keys :: "'k BTree_t \<Rightarrow> 'k list" where
  "tree_keys T = keys_o (b_pRoot T)"

lemma tree_ok_Init: "0 < n \<Longrightarrow> tree_ok (BTreeInit n :: 'k BTree_t) \<and> tree_keys (BTreeInit n :: 'k BTree_t) = []"
  by (auto simp: tree_ok_def tree_keys_def BTreeInit_def intro: exI [of _ 0])

lemma length_put_key [simp]: "length (put_key lt k ks) = Suc (length ks)"
  using takeWhile_dropWhile_id [of lt ks] by (metis add_Suc_right length_Cons length_append put_key_def)

lemma tree_okI: "0 < b_N T \<Longrightarrow> bal (b_N T) h (b_pRoot T) \<Longrightarrow> filled 1 (b_pRoot T) \<Longrightarrow>
    b_Cnt T = of_nat (length (keys_o (b_pRoot T))) \<Longrightarrow> tree_ok T"
  unfolding tree_ok_def by (cases "b_pRoot T") auto

lemma tree_ok_root:
  assumes "tree_ok T" and "b_pRoot T = Some p"
  shows "\<exists>h. bal (b_N T) (Suc h) (Some p) \<and> 0 < p_M p"
proof -
  obtain h where h: "bal (b_N T) h (Some p)" and p: "0 < p_M p" using assms unfolding tree_ok_def by metis
  show ?thesis
  proof (cases h)
    case 0
    then show ?thesis using h by simp
  next
    case (Suc h')
    then show ?thesis using h p by blast
  qed
qed

lemma BTInsert_root: "b_pRoot (BTInsert cmp k T) = Some p' \<Longrightarrow> 0 < b_N T \<Longrightarrow> bal (b_N T) h (Some p') \<Longrightarrow> 1 \<le> p_M p' \<Longrightarrow>
    b_Cnt T = of_nat (length (tree_keys T)) \<Longrightarrow> keys p' = put_key lt k (tree_keys T) \<Longrightarrow>
    tree_ok (BTInsert cmp k T) \<and> tree_keys (BTInsert cmp k T) = put_key lt k (tree_keys T)"
  by (auto intro!: tree_okI simp: tree_keys_def BTInsert_def Let_def)

lemma BTInsert_ok:
  assumes ok: "tree_ok T" and pt: "parted (\<lambda>x. cmp x k < 0) (tree_keys T)"
  shows "tree_ok (BTInsert cmp k T) \<and> tree_keys (BTInsert cmp k T) = put_key (\<lambda>x. cmp x k < 0) k (tree_keys T)"
proof -
  have n: "0 < b_N T" and cnt: "b_Cnt T = of_nat (length (tree_keys T))" using ok by (simp_all add: tree_ok_def tree_keys_def)
  show ?thesis
  proof (cases "b_pRoot T")
    case None
    have "bal (b_N T) 1 (Some (BTPage [k] [None, None]))" using n by simp
    then show ?thesis
      by (intro BTInsert_root [OF _ n _ _ cnt, where p' = "BTPage [k] [None, None]" and h = 1])
        (use None in \<open>simp_all add: BTInsert_def tree_keys_def put_key_def keys_Page del: bal.simps\<close>)
  next
    case (Some p)
    obtain h where h: "bal (b_N T) (Suc h) (Some p)" "0 < p_M p" using tree_ok_root [OF ok Some] by blast
    have i: "inserted_ok (b_N T) (Suc h) (p_M p) (put_key (\<lambda>x. cmp x k < 0) k (tree_keys T)) (bt_insert (b_N T) cmp k p)"
      using insert_ok [OF h(1) n] pt Some by (simp add: tree_keys_def)
    show ?thesis
    proof (cases "bt_insert (b_N T) cmp k p")
      case (Fits q)
      then have "p_M p \<le> p_M q" using i by (simp add: inserted_ok_def del: bal.simps)
      then have "1 \<le> p_M q" using h(2) by linarith
      then show ?thesis
        by (intro BTInsert_root [OF _ n _ _ cnt, where p' = q and h = "Suc h"])
          (use i Fits Some in \<open>simp_all add: inserted_ok_def BTInsert_def del: bal.simps\<close>)
    next
      case (Splits l V r)
      then have lr: "bal (b_N T) (Suc h) (Some l)" "bal (b_N T) (Suc h) (Some r)" "p_M l = b_N T" "p_M r = b_N T"
        "keys l @ V # keys r = put_key (\<lambda>x. cmp x k < 0) k (tree_keys T)" using i by (simp_all add: inserted_ok_def del: bal.simps)
      have "bal (b_N T) (Suc (Suc h)) (Some (BTPage [V] [Some l, Some r]))" using lr n by (simp add: bal.simps(2) [of _ "Suc h"] del: bal.simps)
      then show ?thesis
        by (intro BTInsert_root [OF _ n _ _ cnt, where p' = "BTPage [V] [Some l, Some r]" and h = "Suc (Suc h)"])
          (use lr Splits Some in \<open>simp_all add: BTInsert_def keys_Page del: bal.simps\<close>)
    qed
  qed
qed

end
