(* ===== verification/BTree_Delete.thy ===== *)
theory BTree_Delete
  imports BTree_Insert
begin

text \<open>
  Deletion: an underflow joins a page with its neighbour and the item between them, and cuts the joined page
  again when it has too many items. The keys before and after the deleted one stay as they are.
\<close>

section \<open>Joining and cutting two neighbours\<close>

definition joined :: "'k BTPage_t \<Rightarrow> 'k \<Rightarrow> 'k BTPage_t \<Rightarrow> 'k BTPage_t" where
  "joined l V r = BTPage (p_aItems l @ V # p_aItems r) (p_apPages l @ p_apPages r)"

lemma keys_joined:
  assumes "fits_items l" and "fits_items r"
  shows "keys (joined l V r) = keys l @ V # keys r" and "fits_items (joined l V r)" and "p_M (joined l V r) = Suc (p_M l + p_M r)"
proof -
  have "weave (xs @ ys) (is @ V # js) = weave xs is @ V # weave ys js" if "length xs = Suc (length is)" for xs ys :: "'a list list" and "is" js
    using that by (induction xs "is" rule: weave.induct) (auto simp: Suc_length_conv)
  then show "keys (joined l V r) = keys l @ V # keys r"
    using assms by (cases l; cases r) (simp add: joined_def keys_Page)
qed (use assms in \<open>simp_all add: joined_def fits_items_length\<close>)

text \<open>The pages at \<open>s\<close> and \<open>s + 1\<close> replaced by two pages, or by one.\<close>

definition put_pair :: "nat \<Rightarrow> 'k BTPage_t \<Rightarrow> 'k BTPage_t \<times> 'k \<times> 'k BTPage_t \<Rightarrow> 'k BTPage_t" where
  "put_pair s p x = (case x of (l, V, r) \<Rightarrow> BTPage ((p_aItems p)[s := V]) ((p_apPages p)[s := Some l, s + 1 := Some r]))"

definition put_joined :: "nat \<Rightarrow> 'k BTPage_t \<Rightarrow> 'k BTPage_t option \<Rightarrow> 'k BTPage_t" where
  "put_joined s p c = BTPage (take s (p_aItems p) @ drop (s + 1) (p_aItems p)) (take s (p_apPages p) @ c # drop (s + 2) (p_apPages p))"

lemma keys_put_pair:
  assumes f: "fits_items p" and s: "s < p_M p"
  shows "keys (put_pair s p (l, V, r)) = keys_before s p @ keys l @ V # keys r @ keys_after (Suc s) p"
    and "fits_items (put_pair s p (l, V, r))" and "p_M (put_pair s p (l, V, r)) = p_M p"
    and "set (p_apPages (put_pair s p (l, V, r))) \<subseteq> {Some l, Some r} \<union> set (p_apPages p)"
proof -
  define q where "q = put_pair s p (l, V, r)"
  have q: "p_aItems q = (p_aItems p)[s := V]" "p_apPages q = (p_apPages p)[s := Some l, s + 1 := Some r]"
    by (simp_all add: q_def put_pair_def)
  have len: "length (p_apPages p) = Suc (p_M p)" using f by (simp add: fits_items_length)
  then have fq: "fits_items q" "s < p_M q" using s by (simp_all add: q fits_items_length)
  have c: "child s q = Some l" "child (Suc s) q = Some r" using len s by (simp_all add: child_def q)
  have "keys q = keys_before s q @ keys_o (child s q) @ keys_after s q" using keys_at [OF fq(1), of s] fq(2) by simp
  then have "keys q = keys_before s q @ keys l @ V # keys r @ keys_after (Suc s) q"
    using keys_after_Cons [OF fq] s by (simp add: c q(1))
  moreover have "keys_before s q = keys_before s p" "keys_after (Suc s) q = keys_after (Suc s) p"
    by (simp_all add: keys_before_def keys_after_def q)
  ultimately show "keys (put_pair s p (l, V, r)) = keys_before s p @ keys l @ V # keys r @ keys_after (Suc s) p"
    by (simp add: q_def)
  show "fits_items (put_pair s p (l, V, r))" "p_M (put_pair s p (l, V, r)) = p_M p" using fq(1) by (simp_all add: q_def put_pair_def)
  show "set (p_apPages (put_pair s p (l, V, r))) \<subseteq> {Some l, Some r} \<union> set (p_apPages p)"
    using set_update_subset_insert [of "(p_apPages p)[s := Some l]" "s + 1" "Some r"] set_update_subset_insert [of "p_apPages p" s "Some l"]
    by (auto simp: put_pair_def)
qed

lemma keys_put_joined:
  assumes f: "fits_items p" and s: "s < p_M p"
  shows "keys (put_joined s p c) = keys_before s p @ keys_o c @ keys_after (Suc s) p"
    and "fits_items (put_joined s p c)" and "p_M (put_joined s p c) = p_M p - 1"
    and "set (p_apPages (put_joined s p c)) \<subseteq> insert c (set (p_apPages p))"
proof -
  define q where "q = put_joined s p c"
  have q: "p_aItems q = take s (p_aItems p) @ drop (s + 1) (p_aItems p)" "p_apPages q = take s (p_apPages p) @ c # drop (s + 2) (p_apPages p)"
    by (simp_all add: q_def put_joined_def)
  have len: "length (p_apPages p) = Suc (p_M p)" using f by (simp add: fits_items_length)
  then have fq: "fits_items q" "s \<le> p_M q" using s by (simp_all add: q fits_items_length)
  have c: "child s q = c" using len s child_nth [OF fq] by (simp add: q nth_append)
  have "keys q = keys_before s q @ keys_o c @ keys_after s q" using keys_at [OF fq] by (simp add: c)
  moreover have "keys_before s q = keys_before s p" "keys_after s q = keys_after (Suc s) p"
    using len s by (simp_all add: keys_before_def keys_after_def q)
  ultimately show "keys (put_joined s p c) = keys_before s p @ keys_o c @ keys_after (Suc s) p" by (simp add: q_def)
  show "fits_items (put_joined s p c)" "p_M (put_joined s p c) = p_M p - 1" using fq(1) s by (simp_all add: q_def put_joined_def)
  show "set (p_apPages (put_joined s p c)) \<subseteq> insert c (set (p_apPages p))"
    using set_take_subset [of s "p_apPages p"] set_drop_subset [of "s + 2" "p_apPages p"] by (auto simp: put_joined_def)
qed

text \<open>What \<open>underflow\<close> does, in these terms: it moves half of the excess of the neighbour, or puts the two together.\<close>

definition rebalanced :: "nat \<Rightarrow> nat \<Rightarrow> nat \<Rightarrow> nat \<Rightarrow> 'k BTPage_t \<Rightarrow> 'k BTPage_t \<Rightarrow> 'k BTPage_t \<times> bool" where
  "rebalanced n k m s pC J = (if 0 < k then (put_pair s pC (cut_page m J), False) else (put_joined s pC (Some J), p_M pC \<le> n))"

lemma underflow_right_rebalances:
  assumes f: "fits_items pA" "fits_items pB" and n: "p_M pA + 1 = n" and m: "n \<le> p_M pB"
    and k: "k = (p_M pB + 1 - n) div 2"
  shows "underflow_right pC s pA pB = rebalanced n k (p_M pA + k) s pC (joined pA (p_aItems pC ! s) pB)"
proof (cases k)
  case (Suc k')
  have c: "cut_page (p_M pA + k) (joined pA V pB) =
      (BTPage (p_aItems pA @ V # take (k - 1) (p_aItems pB)) (p_apPages pA @ take k (p_apPages pB)), p_aItems pB ! (k - 1),
       BTPage (drop k (p_aItems pB)) (drop k (p_apPages pB)))" for V
    using f by (simp add: cut_page_def joined_def fits_items_length Suc nth_append)
  have "(Suc (p_M pB) - n) div 2 = Suc k'" using k Suc by simp
  then show ?thesis using c Suc n by (simp add: underflow_right_def rebalanced_def Let_def put_pair_def)
next
  case 0
  then have "p_M pB = n" using m k by simp
  then show ?thesis using n f 0
    by (simp add: underflow_right_def rebalanced_def Let_def put_joined_def joined_def fits_items_length)
qed

lemma underflow_left_rebalances:
  assumes f: "fits_items pA" "fits_items pB" "fits_items pC" and n: "p_M pA + 1 = n" and m: "n \<le> p_M pB"
    and k: "k = (p_M pB + 1 - n) div 2" and s: "Suc s = p_M pC"
  shows "underflow_left pC (Suc s) pA pB = rebalanced n k (p_M pB - k) s pC (joined pB (p_aItems pC ! s) pA)"
proof (cases k)
  case (Suc k')
  have le: "Suc k' \<le> p_M pB" using k Suc m by linarith
  then obtain d where d: "p_M pB = d + Suc k'" by (metis add.commute le_iff_add)
  have c: "cut_page d (joined pB V pA) =
      (BTPage (take d (p_aItems pB)) (take (Suc d) (p_apPages pB)), p_aItems pB ! d,
       BTPage (drop (Suc d) (p_aItems pB) @ V # p_aItems pA) (drop (Suc d) (p_apPages pB) @ p_apPages pA))" for V
    using f d by (simp add: cut_page_def joined_def fits_items_length nth_append)
  have "(Suc (Suc (d + k')) - n) div 2 = Suc k'" using k Suc d by simp
  then show ?thesis using c Suc n d
    by (simp add: underflow_left_def rebalanced_def Let_def put_pair_def)
next
  case 0
  then have B: "p_M pB = n" using m k by simp
  have C: "p_M pC = Suc s" "length (p_apPages pC) = Suc (Suc s)" using s f(3) by (simp_all add: fits_items_length)
  have "butlast (p_aItems pC) = take s (p_aItems pC)" using C by (simp add: butlast_conv_take)
  moreover have "butlast ((p_apPages pC)[s := x]) = take s (p_apPages pC) @ [x]" for x
    using C by (simp add: butlast_conv_take take_Suc_conv_app_nth)
  ultimately show ?thesis using n f C B
    by (simp add: underflow_left_def rebalanced_def Let_def put_joined_def joined_def fits_items_length 0)
qed

section \<open>The shape after a deletion below\<close>

definition deleted_ok :: "nat \<Rightarrow> nat \<Rightarrow> nat \<Rightarrow> 'k list \<Rightarrow> 'k BTPage_t \<times> bool \<Rightarrow> bool" where
  "deleted_ok n h m ks x \<longleftrightarrow> (case x of (p, few) \<Rightarrow>
     bal n h (Some p) \<and> m \<le> Suc (p_M p) \<and> (n \<le> m \<longrightarrow> (few \<longleftrightarrow> p_M p < n)) \<and> keys p = ks)"

lemma bal_joined:
  assumes "bal n (Suc h) (Some l)" and "bal n (Suc h) (Some r)"
  shows "\<forall>q \<in> set (p_apPages (joined l V r)). bal n h q \<and> filled n q" and "fits_items l" and "fits_items r"
  using assms by (auto simp: joined_def)

lemma rebalanced_ok:
  assumes b: "bal n (Suc (Suc h)) (Some p)" and s: "s < p_M p"
    and l: "bal n (Suc h) (Some l)" and r: "bal n (Suc h) (Some r)"
    and cut: "0 < k \<Longrightarrow> n \<le> m \<and> m \<le> 2 * n \<and> m + n \<le> p_M l + p_M r \<and> p_M l + p_M r \<le> m + 2 * n"
    and join: "k = 0 \<Longrightarrow> Suc (p_M l + p_M r) = 2 * n"
  shows "deleted_ok n (Suc (Suc h)) (p_M p) (keys_before s p @ keys l @ V # keys r @ keys_after (Suc s) p)
    (rebalanced n k m s p (joined l V r))"
proof -
  have f: "fits_items p" and M: "p_M p \<le> 2 * n" and cs: "\<forall>q \<in> set (p_apPages p). bal n (Suc h) q \<and> filled n q"
    using b by (simp_all add: bal.simps(2) [of n "Suc h"] del: bal.simps)
  note lr = bal_joined [OF l r]
  note J = keys_joined [OF lr(2,3), of V]
  show ?thesis
  proof (cases "0 < k")
    case True
    note c = cut [OF True]
    obtain l' u r' where cp: "cut_page m (joined l V r) = (l', u, r')" by (cases "cut_page m (joined l V r)")
    have m: "m < p_M (joined l V r)" using c J(3) by simp
    note k = keys_cut [OF cp J(2) m]
    have ok: "bal n (Suc h) (Some l')" "bal n (Suc h) (Some r')" "n \<le> p_M l'" "n \<le> p_M r'" using k c J(3) lr(1) by auto
    note P = keys_put_pair [OF f s, of l' u r']
    define p' where "p' = put_pair s p (l', u, r')"
    have "bal n (Suc (Suc h)) (Some p')"
      using P cs ok M by (auto simp: bal.simps(2) [of n "Suc h"] p'_def simp del: bal.simps)
    moreover have "rebalanced n k m s p (joined l V r) = (p', False)" using True cp by (simp add: rebalanced_def p'_def)
    moreover have "keys p' = keys_before s p @ keys l @ V # keys r @ keys_after (Suc s) p" "p_M p' = p_M p"
      using P(1,3) k(1) J(1) by (simp_all add: p'_def)
    ultimately show ?thesis by (simp add: deleted_ok_def del: bal.simps)
  next
    case False
    define p' where "p' = put_joined s p (Some (joined l V r))"
    note P = keys_put_joined [OF f s, of "Some (joined l V r)", folded p'_def]
    have "bal n (Suc h) (Some (joined l V r))" "filled n (Some (joined l V r))" using lr J join False by simp_all
    then have "bal n (Suc (Suc h)) (Some p')"
      using P cs M by (auto simp: bal.simps(2) [of n "Suc h"] simp del: bal.simps)
    moreover have "rebalanced n k m s p (joined l V r) = (p', p_M p \<le> n)" using False by (simp add: rebalanced_def p'_def)
    moreover have "p_M p \<le> n \<longleftrightarrow> p_M p' < n" "p_M p \<le> Suc (p_M p')" using P(3) s by auto
    ultimately show ?thesis using P(1) J(1) by (simp add: deleted_ok_def del: bal.simps)
  qed
qed

lemma rebalanced_update:
  assumes "t = s \<or> t = Suc s"
  shows "rebalanced n k m s (BTPage (p_aItems p) ((p_apPages p)[t := x])) J = rebalanced n k m s p J"
proof -
  have "put_pair s (BTPage (p_aItems p) ((p_apPages p)[t := x])) y = put_pair s p y" for y
    using assms by (cases y) (auto simp: put_pair_def list_update_swap)
  moreover have "put_joined s (BTPage (p_aItems p) ((p_apPages p)[t := x])) y = put_joined s p y" for y
    using assms by (auto simp: put_joined_def)
  ultimately show ?thesis by (simp add: rebalanced_def)
qed

lemma child_changed_ok:
  assumes b: "bal n (Suc (Suc h)) (Some p)" and n: "0 < n" and M: "0 < p_M p" and t: "t \<le> p_M p" and q: "child t p = Some q"
    and d: "deleted_ok n (Suc h) (p_M q) ks (q', few)"
  shows "\<exists>x. bt_child_changed t p (q', few) = Some x \<and>
    deleted_ok n (Suc (Suc h)) (p_M p) (keys_before t p @ ks @ keys_after t p) x"
proof -
  have f: "fits_items p" using b by simp
  have len: "length (p_apPages p) = Suc (p_M p)" using f by (simp add: fits_items_length)
  note c = bal_child [OF b]
  have nq: "n \<le> p_M q" using c [OF t] q by simp
  have q': "bal n (Suc h) (Some q')" "p_M q \<le> Suc (p_M q')" "few \<longleftrightarrow> p_M q' < n" "keys q' = ks"
    using d nq by (simp_all add: deleted_ok_def del: bal.simps)
  define p' where "p' = BTPage (p_aItems p) ((p_apPages p)[t := Some q'])"
  show ?thesis
  proof (cases few)
    case False
    then have "bal n (Suc (Suc h)) (Some p')" using bal_put [OF b q'(1)] q'(3) by (simp add: p'_def del: bal.simps)
    moreover have "keys p' = keys_before t p @ ks @ keys_after t p" using keys_update [OF f t, of "Some q'"] q'(4) by (simp add: p'_def)
    ultimately show ?thesis using False by (simp add: bt_child_changed_def deleted_ok_def p'_def del: bal.simps)
  next
    case True
    then have qn: "p_M q' + 1 = n" using q'(2,3) nq by simp
    have ct: "child t p' = Some q'" "\<And>u. u \<noteq> t \<Longrightarrow> child u p' = child u p" using t len by (simp_all add: child_def p'_def)
    have fq': "fits_items q'" using q'(1) by simp
    show ?thesis
    proof (cases "t < p_M p")
      case lt: True
      have "bal n (Suc h) (child (Suc t) p) \<and> filled n (child (Suc t) p)" using c [of "Suc t"] lt by simp
      then obtain r where r: "child (Suc t) p = Some r" "bal n (Suc h) (Some r)" "n \<le> p_M r" by (cases "child (Suc t) p") auto
      define k where "k = (p_M r + 1 - n) div 2"
      have mr: "p_M r \<le> 2 * n" "fits_items r" using r(2) by simp_all
      have "underflow p' t = Some (underflow_right p' t q' r)"
        using lt ct r(1) by (simp add: underflow_def p'_def)
      also have "underflow_right p' t q' r = rebalanced n k (p_M q' + k) t p (joined q' (p_aItems p ! t) r)"
        using underflow_right_rebalances [OF fq' mr(2) qn r(3) k_def, of p' t] by (simp add: p'_def rebalanced_update)
      finally have u: "bt_child_changed t p (q', few) = Some (rebalanced n k (p_M q' + k) t p (joined q' (p_aItems p ! t) r))"
        using True by (simp add: bt_child_changed_def p'_def)
      have "deleted_ok n (Suc (Suc h)) (p_M p) (keys_before t p @ keys q' @ p_aItems p ! t # keys r @ keys_after (Suc t) p)
          (rebalanced n k (p_M q' + k) t p (joined q' (p_aItems p ! t) r))"
        by (rule rebalanced_ok [OF b lt q'(1) r(2)]) (use qn r(3) mr(1) k_def in auto)
      then show ?thesis using u keys_after_Cons [OF f lt] r(1) q'(4) by simp
    next
      case False
      then obtain s where s: "t = Suc s" "p_M p = Suc s" using t M by (cases "p_M p") auto
      have "bal n (Suc h) (child s p) \<and> filled n (child s p)" using c [of s] s by simp
      then obtain l where l: "child s p = Some l" "bal n (Suc h) (Some l)" "n \<le> p_M l" by (cases "child s p") auto
      define k where "k = (p_M l + 1 - n) div 2"
      have ml: "p_M l \<le> 2 * n" "fits_items l" using l(2) by simp_all
      have "fits_items p'" "Suc s = p_M p'" using f s by (simp_all add: p'_def fits_items_length)
      note ul = underflow_left_rebalances [OF fq' ml(2) this(1) qn l(3) k_def this(2)]
      have "underflow p' t = Some (underflow_left p' (Suc s) q' l)"
        using ct l(1) s by (simp add: underflow_def p'_def)
      also have "underflow_left p' (Suc s) q' l = rebalanced n k (p_M l - k) s p (joined l (p_aItems p ! s) q')"
        using ul s(1) by (simp add: p'_def rebalanced_update)
      finally have u: "bt_child_changed t p (q', few) = Some (rebalanced n k (p_M l - k) s p (joined l (p_aItems p ! s) q'))"
        using True by (simp add: bt_child_changed_def p'_def)
      have "deleted_ok n (Suc (Suc h)) (p_M p) (keys_before s p @ keys l @ p_aItems p ! s # keys q' @ keys_after (Suc s) p)
          (rebalanced n k (p_M l - k) s p (joined l (p_aItems p ! s) q'))"
        by (rule rebalanced_ok [OF b _ l(2) q'(1)]) (use s qn l(3) ml(1) k_def in auto)
      moreover have "keys_before t p = keys_before s p @ keys l @ [p_aItems p ! s]" using keys_before_Suc [OF f] s l(1) by simp
      ultimately show ?thesis using u q'(4) s by simp
    qed
  qed
qed

section \<open>Deletion at a place\<close>

lemma bal_None_leaf: "bal n (Suc h) (Some p) \<Longrightarrow> R \<le> p_M p \<Longrightarrow> child R p = None \<Longrightarrow> h = 0"
  using bal_child [of n h p R] by (cases h) auto

lemma leaf_removed:
  assumes b: "bal n (Suc 0) (Some p)" and i: "i < p_M p"
  shows "deleted_ok n (Suc 0) (p_M p) (keys_before i p @ keys_after (Suc i) p) (put_joined i p None, p_M p - 1 < n)"
proof -
  have f: "fits_items p" using b by simp
  show ?thesis using keys_put_joined [OF f i, of None] b i by (auto simp: deleted_ok_def)
qed

lemma leaf_children: "bal n (Suc 0) (Some p) \<Longrightarrow> i \<le> p_M p \<Longrightarrow> p_apPages p ! i = None"
  using bal_child [of n 0 p i] child_nth [of p i] by simp

lemma take_max_ok:
  assumes "bal n (Suc h) (Some p)" and n: "0 < n" and "0 < p_M p"
  shows "\<exists>k ks x. bt_take_max n p = Some (k, x) \<and> keys p = ks @ [k] \<and> deleted_ok n (Suc h) (p_M p) ks x"
  using assms(1,3)
proof (induction h arbitrary: p)
  case 0
  obtain r where r: "p_M p = Suc r" using 0(2) by (cases "p_M p") auto
  have f: "fits_items p" using 0(1) by simp
  have c: "child r p = None" "child (Suc r) p = None" using bal_child [OF 0(1)] r by simp_all
  have "p_aItems p \<noteq> []" using r by auto
  moreover from this have "last (p_aItems p) = p_aItems p ! r" using r by (simp add: last_conv_nth)
  moreover have "BTPage (butlast (p_aItems p)) (butlast (p_apPages p)) = put_joined r p None"
    using r f leaf_children [OF 0(1), of r] by (simp add: put_joined_def butlast_conv_take fits_items_length take_Suc_conv_app_nth)
  ultimately have "bt_take_max n p = Some (p_aItems p ! r, put_joined r p None, p_M p - 1 < n)"
    using c(2) r by (simp add: bt_take_max.simps [of n p])
  moreover have "keys p = keys_before r p @ [p_aItems p ! r]"
    using keys_at [OF f, of "Suc r"] keys_before_Suc [OF f, of r] r c keys_after_last [of p] by simp
  moreover have "keys_after (Suc r) p = []" using keys_after_last [of p] r by simp
  ultimately show ?case using leaf_removed [OF 0(1), of r] r by simp
next
  case (Suc h)
  have f: "fits_items p" using Suc.prems(1) by simp
  obtain q where q: "child (p_M p) p = Some q" "bal n (Suc h) (Some q)" "n \<le> p_M q"
    using bal_child [OF Suc.prems(1), of "p_M p"] by (cases "child (p_M p) p") auto
  have "0 < p_M q" using q(3) n by linarith
  then obtain k ks q' few where mx: "bt_take_max n q = Some (k, q', few)" "keys q = ks @ [k]" "deleted_ok n (Suc h) (p_M q) ks (q', few)"
    using Suc.IH [OF q(2)] by auto
  obtain x where x: "bt_child_changed (p_M p) p (q', few) = Some x"
    "deleted_ok n (Suc (Suc h)) (p_M p) (keys_before (p_M p) p @ ks @ keys_after (p_M p) p) x"
    using child_changed_ok [OF Suc.prems(1) n Suc.prems(2) _ q(1) mx(3)] by auto
  have "bt_take_max n p = Some (k, x)" using q(1) mx(1) x(1) by (simp add: bt_take_max.simps [of n p])
  moreover have "keys p = (keys_before (p_M p) p @ ks) @ [k]" using keys_at [OF f, of "p_M p"] q(1) mx(2) by simp
  ultimately show ?case using x(2) by auto
qed

text \<open>The keys before and after a place.\<close>

fun before_place :: "nat list \<Rightarrow> nat \<Rightarrow> 'k BTPage_t \<Rightarrow> 'k list" where
  "before_place [] i p = keys_before i p @ keys_o (child i p)"
| "before_place (s # path) i p = keys_before s p @ (case child s p of None \<Rightarrow> [] | Some q \<Rightarrow> before_place path i q)"

fun after_place :: "nat list \<Rightarrow> nat \<Rightarrow> 'k BTPage_t \<Rightarrow> 'k list" where
  "after_place [] i p = keys_o (child (Suc i) p) @ keys_after (Suc i) p"
| "after_place (s # path) i p = (case child s p of None \<Rightarrow> [] | Some q \<Rightarrow> after_place path i q) @ keys_after s p"

lemma item_at_Nil: "item_at p [] i = Some k \<longleftrightarrow> i < p_M p \<and> k = p_aItems p ! i"
  by (auto simp: item_at_def)

lemma item_at_Cons: "item_at p (s # path) i = Some k \<longleftrightarrow> (\<exists>q. child s p = Some q \<and> item_at q path i = Some k)"
  by (cases "child s p") (simp_all add: item_at_def)

lemma child_slot: "fits_items p \<Longrightarrow> child s p = Some q \<Longrightarrow> s \<le> p_M p"
  by (simp add: child_def fits_items_length split: if_splits)

lemma bal_root: "bal n h (Some p) \<Longrightarrow> \<exists>h'. h = Suc h' \<and> fits_items p"
  by (cases h) auto

lemma keys_place:
  assumes "bal n h (Some p)" and "item_at p path i = Some k"
  shows "keys p = before_place path i p @ k # after_place path i p"
  using assms
proof (induction path arbitrary: p h)
  case Nil
  have f: "fits_items p" using bal_root [OF Nil(1)] by blast
  have i: "i < p_M p" "k = p_aItems p ! i" using Nil(2) by (simp_all add: item_at_Nil)
  show ?case using keys_at [OF f, of i] keys_after_Cons [OF f i(1)] i by simp
next
  case (Cons s path)
  obtain q where q: "child s p = Some q" "item_at q path i = Some k" using Cons.prems(2) by (auto simp: item_at_Cons)
  obtain h' where h': "h = Suc h'" "fits_items p" using bal_root [OF Cons.prems(1)] by blast
  have s: "s \<le> p_M p" by (rule child_slot [OF h'(2) q(1)])
  have "bal n h' (Some q)" using bal_child [of n h' p s] Cons.prems(1) h'(1) s q(1) by simp
  then have "keys q = before_place path i q @ k # after_place path i q" using Cons.IH q(2) by blast
  then show ?case using keys_at [OF h'(2) s] q(1) by simp
qed

lemma delete_here_ok:
  assumes b: "bal n (Suc h) (Some p)" and n: "0 < n" and i: "i < p_M p"
  shows "\<exists>x. bt_delete_here n i p = Some x \<and> deleted_ok n (Suc h) (p_M p) (before_place [] i p @ after_place [] i p) x"
proof (cases "child i p")
  case None
  then have h: "h = 0" using bal_None_leaf [OF b, of i] i by simp
  have b0: "bal n (Suc 0) (Some p)" using b h by simp
  have f: "fits_items p" using b by simp
  have "take (i + 1) (p_apPages p) = take i (p_apPages p) @ [None]"
    using f i leaf_children [OF b0, of i] by (simp add: fits_items_length take_Suc_conv_app_nth)
  then have "bt_delete_here n i p = Some (put_joined i p None, p_M p - 1 < n)"
    using None i by (simp add: bt_delete_here_def put_joined_def)
  moreover have "child (Suc i) p = None" using bal_child [OF b0, of "Suc i"] i by simp
  ultimately show ?thesis using leaf_removed [OF b0 i] None h by simp
next
  case (Some q)
  have "bal n h (Some q)" "n \<le> p_M q" using bal_child [OF b, of i] i Some by simp_all
  then obtain h' where h': "h = Suc h'" "bal n (Suc h') (Some q)" using bal_root by metis
  have "0 < p_M q" using \<open>n \<le> p_M q\<close> n by linarith
  then obtain k ks q' few where mx: "bt_take_max n q = Some (k, q', few)" "keys q = ks @ [k]" "deleted_ok n (Suc h') (p_M q) ks (q', few)"
    using take_max_ok [OF h'(2) n] by auto
  define p' where "p' = BTPage ((p_aItems p)[i := k]) (p_apPages p)"
  have f: "fits_items p" using b by simp
  have b': "bal n (Suc (Suc h')) (Some p')" using b h' by (simp add: p'_def bal.simps(2) [of n "Suc h'"] fits_items_length del: bal.simps)
  have p': "0 < p_M p'" "i \<le> p_M p'" "child i p' = Some q" "fits_items p'" "i < p_M p'"
    using i Some f by (auto simp: p'_def child_def fits_items_length)
  obtain x where x: "bt_child_changed i p' (q', few) = Some x"
    "deleted_ok n (Suc (Suc h')) (p_M p') (keys_before i p' @ ks @ keys_after i p') x"
    using child_changed_ok [OF b' n p'(1,2,3) mx(3)] by auto
  have "keys_before i p' = keys_before i p" by (simp add: keys_before_def p'_def)
  moreover have "keys_after i p' = k # keys_o (child (Suc i) p) @ keys_after (Suc i) p"
    using keys_after_Cons [OF p'(4,5)] i by (simp add: p'_def child_def keys_after_def)
  moreover have "bt_delete_here n i p = Some x" using Some mx(1) x(1) by (simp add: bt_delete_here_def p'_def)
  ultimately show ?thesis using x(2) mx(2) Some h'(1) by (simp add: p'_def)
qed

lemma delete_at_ok:
  assumes "bal n h (Some p)" and n: "0 < n" and "0 < p_M p" and "item_at p path i = Some k"
  shows "\<exists>x. bt_delete_at n path i p = Some x \<and> deleted_ok n h (p_M p) (before_place path i p @ after_place path i p) x"
  using assms(1,3,4)
proof (induction path arbitrary: p h)
  case Nil
  then obtain h' where "h = Suc h'" using bal_root by blast
  then show ?case using delete_here_ok [of n h' p i] Nil n by (simp add: item_at_Nil del: bal.simps)
next
  case (Cons s path)
  obtain q where q: "child s p = Some q" "item_at q path i = Some k" using Cons.prems(3) by (auto simp: item_at_Cons)
  obtain h' where h': "h = Suc h'" "fits_items p" using bal_root [OF Cons.prems(1)] by blast
  have s: "s \<le> p_M p" by (rule child_slot [OF h'(2) q(1)])
  have bq: "bal n h' (Some q)" "n \<le> p_M q" using bal_child [of n h' p s] Cons.prems(1) h'(1) s q(1) by simp_all
  obtain h'' where h'': "h' = Suc h''" using bal_root [OF bq(1)] by blast
  have "0 < p_M q" using bq(2) n by linarith
  then obtain q' few where d: "bt_delete_at n path i q = Some (q', few)"
    "deleted_ok n (Suc h'') (p_M q) (before_place path i q @ after_place path i q) (q', few)"
    using Cons.IH [OF bq(1) _ q(2)] h'' by auto
  have b: "bal n (Suc (Suc h'')) (Some p)" using Cons.prems(1) h'(1) h'' by simp
  obtain x where x: "bt_child_changed s p (q', few) = Some x"
    "deleted_ok n (Suc (Suc h'')) (p_M p) (keys_before s p @ (before_place path i q @ after_place path i q) @ keys_after s p) x"
    using child_changed_ok [OF b n Cons.prems(2) s q(1) d(2)] by auto
  have "bt_delete_at n (s # path) i p = Some x" using q(1) d(1) x(1) by simp
  then show ?case using x(2) q(1) h'(1) h'' by simp
qed

end
