(* ===== verification/BTree_Cursor.thy ===== *)
theory BTree_Cursor
  imports BTree_Delete
begin

text \<open>
  Cursors: the place of a cursor stands for the number of keys before it, its rank, and the cursor operations
  move the rank.
\<close>

section \<open>Places\<close>

text \<open>The keys before and after the whole page at a place.\<close>

fun page_front :: "nat list \<Rightarrow> 'k BTPage_t \<Rightarrow> 'k list" where
  "page_front [] p = []"
| "page_front (s # path) p = keys_before s p @ (case child s p of None \<Rightarrow> [] | Some q \<Rightarrow> page_front path q)"

fun page_rear :: "nat list \<Rightarrow> 'k BTPage_t \<Rightarrow> 'k list" where
  "page_rear [] p = []"
| "page_rear (s # path) p = (case child s p of None \<Rightarrow> [] | Some q \<Rightarrow> page_rear path q) @ keys_after s p"

lemma page_at_append: "page_at (path @ path') p = Option.bind (page_at path p) (page_at path')"
  by (induction path arbitrary: p) (simp_all split: bind_split)

lemma place_below:
  assumes "page_at path p = Some g"
  shows "before_place (path @ path') i p = page_front path p @ before_place path' i g"
    and "after_place (path @ path') i p = after_place path' i g @ page_rear path p"
    and "item_at p (path @ path') i = item_at g path' i"
proof -
  show "before_place (path @ path') i p = page_front path p @ before_place path' i g"
    using assms by (induction path arbitrary: p) (auto split: option.splits bind_splits)
  show "after_place (path @ path') i p = after_place path' i g @ page_rear path p"
    using assms by (induction path arbitrary: p) (auto split: option.splits bind_splits)
  show "item_at p (path @ path') i = item_at g path' i"
    using assms by (simp add: item_at_def page_at_append)
qed

lemma item_page: "item_at p path i = Some k \<Longrightarrow> \<exists>g. page_at path p = Some g \<and> i < p_M g \<and> k = p_aItems g ! i"
  by (auto simp: item_at_def split: bind_splits if_splits)

lemma bal_page_at:
  assumes "bal n h (Some p)" and "page_at path p = Some g"
  shows "\<exists>h'. bal n (Suc h') (Some g)"
  using assms
proof (induction path arbitrary: p h)
  case Nil
  then show ?case using bal_root [OF Nil(1)] by (metis option.inject page_at.simps(1))
next
  case (Cons s path)
  obtain q where q: "child s p = Some q" "page_at path q = Some g" using Cons.prems(2) by (auto split: bind_splits)
  obtain h' where h': "h = Suc h'" "fits_items p" using bal_root [OF Cons.prems(1)] by blast
  have "bal n h' (Some q)" using bal_child [of n h' p s] Cons.prems(1) h'(1) child_slot [OF h'(2) q(1)] q(1) by simp
  then show ?case using Cons.IH q(2) by blast
qed

lemma keys_page: "bal n h (Some p) \<Longrightarrow> page_at path p = Some g \<Longrightarrow> keys p = page_front path p @ keys g @ page_rear path p"
proof (induction path arbitrary: p h)
  case (Cons s path)
  obtain q where q: "child s p = Some q" "page_at path q = Some g" using Cons.prems(2) by (auto split: bind_splits)
  obtain h' where h': "h = Suc h'" "fits_items p" using bal_root [OF Cons.prems(1)] by blast
  have s: "s \<le> p_M p" by (rule child_slot [OF h'(2) q(1)])
  have "bal n h' (Some q)" using bal_child [of n h' p s] Cons.prems(1) h'(1) s q(1) by simp
  then show ?case using Cons.IH q keys_at [OF h'(2) s] by simp
qed simp

text \<open>The first and the last place of a page.\<close>

lemma leftmost_place:
  assumes "bal n (Suc h) (Some p)" and n: "0 < n" and "0 < p_M p"
  shows "\<exists>k. item_at p (leftmost p) 0 = Some k \<and> before_place (leftmost p) 0 p = []"
  using assms(1,3)
proof (induction h arbitrary: p)
  case 0
  have "child 0 p = None" using bal_child [OF 0(1), of 0] by simp
  then show ?case using 0(2) by (simp add: leftmost.simps [of p] item_at_def)
next
  case (Suc h)
  obtain q where q: "child 0 p = Some q" "bal n (Suc h) (Some q)" "n \<le> p_M q"
    using bal_child [OF Suc.prems(1), of 0] by (cases "child 0 p") auto
  have "0 < p_M q" using q(3) n by linarith
  then show ?case using Suc.IH [OF q(2)] q(1) by (simp add: leftmost.simps [of p] item_at_def)
qed

lemma rightmost_place:
  assumes "bal n (Suc h) (Some p)" and n: "0 < n" and "0 < p_M p"
  shows "\<exists>k g. page_at (rightmost p) p = Some g \<and> item_at p (rightmost p) (p_M g - 1) = Some k \<and> 0 < p_M g \<and>
    after_place (rightmost p) (p_M g - 1) p = []"
  using assms(1,3)
proof (induction h arbitrary: p)
  case 0
  have c: "child (p_M p) p = None" using bal_child [OF 0(1), of "p_M p"] by simp
  then show ?case using 0(2) keys_after_last [of p] by (simp add: rightmost.simps [of p] item_at_def)
next
  case (Suc h)
  obtain q where q: "child (p_M p) p = Some q" "bal n (Suc h) (Some q)" "n \<le> p_M q"
    using bal_child [OF Suc.prems(1), of "p_M p"] by (cases "child (p_M p) p") auto
  have "0 < p_M q" using q(3) n by linarith
  then show ?case using Suc.IH [OF q(2)] q(1) keys_after_last [of p] by (auto simp: rightmost.simps [of p] item_at_Cons)
qed

text \<open>Upwards: the item after the page at a place, or before it.\<close>

lemma go_up_place:
  assumes "bal n h (Some p)" and "page_at path p = Some g"
  shows "case go_up p path of
      None \<Rightarrow> page_rear path p = []
    | Some (pth, j) \<Rightarrow> (\<exists>k. item_at p pth j = Some k) \<and> before_place pth j p = page_front path p @ keys g"
  using assms
proof (induction path arbitrary: p h)
  case (Cons s path)
  obtain q where q: "child s p = Some q" "page_at path q = Some g" using Cons.prems(2) by (auto split: bind_splits)
  obtain h' where h': "h = Suc h'" "fits_items p" using bal_root [OF Cons.prems(1)] by blast
  have s: "s \<le> p_M p" by (rule child_slot [OF h'(2) q(1)])
  have bq: "bal n h' (Some q)" using bal_child [of n h' p s] Cons.prems(1) h'(1) s q(1) by simp
  note IH = Cons.IH [OF bq q(2)]
  show ?case
  proof (cases "go_up q path")
    case (Some x)
    then show ?thesis using IH q(1) by (cases x) (auto simp: item_at_Cons)
  next
    case None
    then have r: "page_rear path q = []" using IH by simp
    have "keys q = page_front path q @ keys g @ page_rear path q" by (rule keys_page [OF bq q(2)])
    then show ?thesis using None q(1) r s keys_after_last [of p] by (auto simp: item_at_Nil split: if_splits)
  qed
qed simp

lemma go_up_left_place:
  assumes "bal n h (Some p)" and "page_at path p = Some g"
  shows "case go_up_left p path of
      None \<Rightarrow> page_front path p = []
    | Some (pth, j) \<Rightarrow> (\<exists>k. item_at p pth j = Some k) \<and> after_place pth j p = keys g @ page_rear path p"
  using assms
proof (induction path arbitrary: p h)
  case (Cons s path)
  obtain q where q: "child s p = Some q" "page_at path q = Some g" using Cons.prems(2) by (auto split: bind_splits)
  obtain h' where h': "h = Suc h'" "fits_items p" using bal_root [OF Cons.prems(1)] by blast
  have s: "s \<le> p_M p" by (rule child_slot [OF h'(2) q(1)])
  have bq: "bal n h' (Some q)" using bal_child [of n h' p s] Cons.prems(1) h'(1) s q(1) by simp
  note IH = Cons.IH [OF bq q(2)]
  show ?case
  proof (cases "go_up_left q path")
    case (Some x)
    then show ?thesis using IH q(1) by (cases x) (auto simp: item_at_Cons)
  next
    case None
    then have r: "page_front path q = []" using IH by simp
    have "keys q = page_front path q @ keys g @ page_rear path q" by (rule keys_page [OF bq q(2)])
    then show ?thesis using None q(1) r s by (cases s) (auto simp: item_at_Nil)
  qed
qed simp

section \<open>The next and the previous place\<close>

lemma before_place_next: "fits_items g \<Longrightarrow> i < p_M g \<Longrightarrow>
    keys_before (Suc i) g = before_place [] i g @ [p_aItems g ! i]"
  using keys_before_Suc [of g i] by simp

text \<open>Where a cursor at a place goes: the place with one more key before it, if there is one.\<close>

lemma next_place_ok:
  assumes b: "bal n h (Some p)" and n: "0 < n" and it: "item_at p path i = Some k"
  shows "\<exists>x. next_place p path i = Some x \<and> (case x of
      None \<Rightarrow> after_place path i p = []
    | Some (path', i') \<Rightarrow> (\<exists>k'. item_at p path' i' = Some k') \<and> before_place path' i' p = before_place path i p @ [k])"
proof -
  obtain g where g: "page_at path p = Some g" "i < p_M g" "k = p_aItems g ! i" using item_page [OF it] by auto
  obtain h' where bg: "bal n (Suc h') (Some g)" using bal_page_at [OF b g(1)] by blast
  then have f: "fits_items g" by simp
  have bp: "before_place path i p = page_front path p @ before_place [] i g" "after_place path i p = after_place [] i g @ page_rear path p"
    using place_below [OF g(1), of "[]"] by simp_all
  note nx = before_place_next [OF f g(2)]
  show ?thesis
  proof (cases "child (i + 1) g")
    case (Some q)
    have q: "bal n h' (Some q)" "n \<le> p_M q" using bal_child [OF bg, of "i + 1"] g(2) Some by simp_all
    have "0 < p_M q" using q(2) n by linarith
    obtain h'' where "h' = Suc h''" using bal_root [OF q(1)] by blast
    then obtain k' where l: "item_at q (leftmost q) 0 = Some k'" "before_place (leftmost q) 0 q = []"
      using leftmost_place [of n h'' q] q(1) n \<open>0 < p_M q\<close> by blast
    have "item_at p (path @ (i + 1) # leftmost q) 0 = Some k'"
      using place_below(3) [OF g(1)] Some l(1) by (simp add: item_at_Cons)
    moreover have "before_place (path @ (i + 1) # leftmost q) 0 p = before_place path i p @ [k]"
      using place_below(1) [OF g(1)] Some l(2) nx bp(1) g(3) by simp
    ultimately show ?thesis using Some g(1) by (simp add: next_place_def)
  next
    case None
    show ?thesis
    proof (cases "i + 1 < p_M g")
      case True
      have "item_at p path (i + 1) = Some (p_aItems g ! (i + 1))" using True g(1) by (simp add: item_at_def)
      moreover have "before_place path (i + 1) p = before_place path i p @ [k]"
        using place_below(1) [OF g(1), of "[]"] None nx bp(1) g(3) by simp
      ultimately show ?thesis using None g(1) True by (simp add: next_place_def)
    next
      case False
      then have i: "Suc i = p_M g" using g(2) by simp
      have last: "after_place [] i g = []" "keys g = before_place [] i g @ [k]"
        using None i keys_after_last [of g] keys_at [OF f, of "Suc i"] nx g(3) by simp_all
      show ?thesis using go_up_place [OF b g(1)] None False g(1) bp last
        by (auto simp: next_place_def split: option.splits)
    qed
  qed
qed

lemma prev_place_ok:
  assumes b: "bal n h (Some p)" and n: "0 < n" and it: "item_at p path i = Some k"
  shows "\<exists>x. prev_place p path i = Some x \<and> (case x of
      None \<Rightarrow> before_place path i p = []
    | Some (path', i') \<Rightarrow> (\<exists>k'. item_at p path' i' = Some k') \<and> after_place path' i' p = k # after_place path i p)"
proof -
  obtain g where g: "page_at path p = Some g" "i < p_M g" "k = p_aItems g ! i" using item_page [OF it] by auto
  obtain h' where bg: "bal n (Suc h') (Some g)" using bal_page_at [OF b g(1)] by blast
  then have f: "fits_items g" by simp
  have bp: "before_place path i p = page_front path p @ before_place [] i g" "after_place path i p = after_place [] i g @ page_rear path p"
    using place_below [OF g(1), of "[]"] by simp_all
  have nx: "keys_after i g = k # after_place [] i g" using keys_after_Cons [OF f g(2)] g(3) by simp
  show ?thesis
  proof (cases "child i g")
    case (Some q)
    have q: "bal n h' (Some q)" "n \<le> p_M q" using bal_child [OF bg, of i] g(2) Some by simp_all
    have "0 < p_M q" using q(2) n by linarith
    obtain h'' where "h' = Suc h''" using bal_root [OF q(1)] by blast
    then obtain k' l where l: "page_at (rightmost q) q = Some l" "item_at q (rightmost q) (p_M l - 1) = Some k'"
      "after_place (rightmost q) (p_M l - 1) q = []"
      using rightmost_place [of n h'' q] q(1) n \<open>0 < p_M q\<close> by blast
    have "item_at p (path @ i # rightmost q) (p_M l - 1) = Some k'"
      using place_below(3) [OF g(1)] Some l(2) by (simp add: item_at_Cons)
    moreover have "after_place (path @ i # rightmost q) (p_M l - 1) p = k # after_place path i p"
      using place_below(2) [OF g(1)] Some l(3) nx bp(2) by simp
    ultimately show ?thesis using Some g(1) l(1) by (simp add: prev_place_def)
  next
    case None
    show ?thesis
    proof (cases "i > 0")
      case True
      then obtain j where j: "i = Suc j" by (cases i) auto
      have "item_at p path j = Some (p_aItems g ! j)" using j g by (simp add: item_at_def)
      moreover have "after_place path j p = k # after_place path i p"
        using place_below(2) [OF g(1), of "[]"] None nx bp(2) j by simp
      ultimately show ?thesis using None g(1) j by (simp add: prev_place_def)
    next
      case False
      have first: "before_place [] i g = []" "keys g = k # after_place [] i g"
        using None False nx keys_at [OF f, of i] by simp_all
      show ?thesis using go_up_left_place [OF b g(1)] None False g(1) bp first
        by (auto simp: prev_place_def split: option.splits)
    qed
  qed
qed

section \<open>Cursors at a rank\<close>

text \<open>The place of the key with \<open>r\<close> keys before it; a cursor there, which knows the next place.\<close>

definition place_of :: "'k BTree_t \<Rightarrow> nat \<Rightarrow> nat list \<Rightarrow> nat \<Rightarrow> bool" where
  "place_of T r path i \<longleftrightarrow> (\<exists>root. b_pRoot T = Some root \<and> item_at root path i = Some (tree_keys T ! r) \<and>
     length (before_place path i root) = r)"

definition next_at :: "'k BTree_t \<Rightarrow> nat \<Rightarrow> 'k BTCursor_t \<Rightarrow> bool" where
  "next_at T r C \<longleftrightarrow> (if r < length (tree_keys T)
     then \<exists>path i. c_pNextPage C = Some path \<and> c_NextIndex C = int i \<and> place_of T r path i \<and> c_pNextKey C = Some (tree_keys T ! r)
     else c_pNextPage C = None)"

definition cursor_at :: "'k BTree_t \<Rightarrow> nat \<Rightarrow> 'k BTCursor_t \<Rightarrow> bool" where
  "cursor_at T r C \<longleftrightarrow> (\<exists>path i. c_pPage C = Some path \<and> c_zIndex C = int i \<and> place_of T r path i) \<and>
     c_pKey C = Some (tree_keys T ! r) \<and> next_at T (Suc r) C"

lemma place_ofI:
  assumes "tree_ok T" and "b_pRoot T = Some root" and it: "item_at root path i = Some k"
  shows "place_of T (length (before_place path i root)) path i" and "k = tree_keys T ! length (before_place path i root)"
    and "tree_keys T = before_place path i root @ k # after_place path i root"
proof -
  obtain h where "bal (b_N T) (Suc h) (Some root)" using tree_ok_root [OF assms(1,2)] by blast
  note kp = keys_place [OF this it]
  show k: "tree_keys T = before_place path i root @ k # after_place path i root"
    using kp assms(2) by (simp add: tree_keys_def)
  then show "k = tree_keys T ! length (before_place path i root)" by simp
  then show "place_of T (length (before_place path i root)) path i" using assms(2) it by (simp add: place_of_def)
qed

lemma place_of_keys:
  assumes "tree_ok T" and "place_of T r path i" and "b_pRoot T = Some root"
  shows "before_place path i root = take r (tree_keys T)" and "after_place path i root = drop (Suc r) (tree_keys T)"
    and "item_at root path i = Some (tree_keys T ! r)" and "r < length (tree_keys T)"
proof -
  show it: "item_at root path i = Some (tree_keys T ! r)" using assms(2,3) by (simp add: place_of_def)
  have r: "length (before_place path i root) = r" using assms(2,3) by (simp add: place_of_def)
  have k: "tree_keys T = before_place path i root @ tree_keys T ! r # after_place path i root"
    using place_ofI(3) [OF assms(1,3) it] .
  show "before_place path i root = take r (tree_keys T)"
    using arg_cong [OF k, of "take r"] r by simp
  show "after_place path i root = drop (Suc r) (tree_keys T)"
    using arg_cong [OF k, of "drop (Suc r)"] r by simp
  show "r < length (tree_keys T)" using arg_cong [OF k, of length] r by simp
qed

lemma BTC_next_ok:
  assumes ok: "tree_ok T" and root: "b_pRoot T = Some root" and pl: "place_of T r path i"
  shows "\<exists>C'. BTC_next root path i C = Some C' \<and> next_at T (Suc r) C' \<and>
    c_pPage C' = c_pPage C \<and> c_zIndex C' = c_zIndex C \<and> c_pKey C' = c_pKey C"
proof -
  obtain h where b: "bal (b_N T) (Suc h) (Some root)" using tree_ok_root [OF ok root] by blast
  have n: "0 < b_N T" using ok by (simp add: tree_ok_def)
  note k = place_of_keys [OF ok pl root]
  obtain x where x: "next_place root path i = Some x" "case x of
      None \<Rightarrow> after_place path i root = []
    | Some (path', i') \<Rightarrow> (\<exists>k'. item_at root path' i' = Some k') \<and>
        before_place path' i' root = before_place path i root @ [tree_keys T ! r]"
    using next_place_ok [OF b n k(3)] by blast
  show ?thesis
  proof (cases x)
    case None
    then have "\<not> Suc r < length (tree_keys T)" using x(2) k(2) by simp
    then show ?thesis using x(1) None by (simp add: BTC_next_def next_at_def)
  next
    case (Some y)
    obtain path' i' where y: "y = (path', i')" by (cases y)
    obtain k' where it: "item_at root path' i' = Some k'" and bp: "before_place path' i' root = before_place path i root @ [tree_keys T ! r]"
      using x(2) Some y by auto
    have len: "length (before_place path' i' root) = Suc r" using bp k(1,4) by simp
    note p' = place_ofI [OF ok root it, unfolded len]
    have "Suc r < length (tree_keys T)" using arg_cong [OF p'(3), of length] len by simp
    then show ?thesis using x(1) Some y it p'(1,2) by (auto simp: BTC_next_def next_at_def)
  qed
qed

lemma BTC_set_ok:
  assumes ok: "tree_ok T" and root: "b_pRoot T = Some root" and pl: "place_of T r path i"
  shows "\<exists>C'. BTC_set root (path, i) C = Some C' \<and> cursor_at T r C'"
proof -
  define C1 where "C1 = C\<lparr>c_pPage := Some path, c_zIndex := int i, c_pKey := Some (tree_keys T ! r)\<rparr>"
  obtain C' where C': "BTC_next root path i C1 = Some C'" "next_at T (Suc r) C'"
    "c_pPage C' = c_pPage C1" "c_zIndex C' = c_zIndex C1" "c_pKey C' = c_pKey C1"
    using BTC_next_ok [OF ok root pl] by blast
  have "BTC_set root (path, i) C = Some C'" using C'(1) place_of_keys(3) [OF ok pl root] by (simp add: BTC_set_def C1_def)
  moreover have "cursor_at T r C'" using C'(2-) pl by (simp add: cursor_at_def C1_def)
  ultimately show ?thesis by blast
qed

lemma tree_empty: "tree_ok T \<Longrightarrow> tree_keys T = [] \<longleftrightarrow> b_pRoot T = None"
proof (cases "b_pRoot T")
  case (Some root)
  assume "tree_ok T"
  then obtain h where b: "bal (b_N T) (Suc h) (Some root)" "0 < p_M root" using tree_ok_root Some by blast
  have n: "0 < b_N T" using \<open>tree_ok T\<close> by (simp add: tree_ok_def)
  obtain k where "item_at root (leftmost root) 0 = Some k" using leftmost_place [OF b(1) n b(2)] by blast
  then show ?thesis using place_ofI(3) [OF \<open>tree_ok T\<close> Some] Some by simp
qed (simp add: tree_keys_def)

lemma BTCHead_ok:
  assumes ok: "tree_ok T"
  shows "if tree_keys T = [] then BTCHead T C = Some (-1, C\<lparr>c_pPage := None, c_zIndex := 0\<rparr>)
    else \<exists>C'. BTCHead T C = Some (0, C') \<and> cursor_at T 0 C'"
proof (cases "b_pRoot T")
  case None
  then show ?thesis by (simp add: BTCHead_def tree_keys_def)
next
  case (Some root)
  obtain h where b: "bal (b_N T) (Suc h) (Some root)" "0 < p_M root" using tree_ok_root [OF ok Some] by blast
  have n: "0 < b_N T" using ok by (simp add: tree_ok_def)
  obtain k where l: "item_at root (leftmost root) 0 = Some k" "before_place (leftmost root) 0 root = []"
    using leftmost_place [OF b(1) n b(2)] by blast
  have "place_of T 0 (leftmost root) 0" using place_ofI(1) [OF ok Some l(1)] l(2) by simp
  then obtain C' where "BTC_set root (leftmost root, 0) C = Some C'" "cursor_at T 0 C'" using BTC_set_ok [OF ok Some] by blast
  moreover have "tree_keys T \<noteq> []" using tree_empty [OF ok] Some by simp
  ultimately show ?thesis using Some by (simp add: BTCHead_def)
qed

lemma BTCNext_next:
  assumes ok: "tree_ok T" and nx: "next_at T r C"
  shows "if r < length (tree_keys T) then \<exists>C'. BTCNext T C = Some (0, C') \<and> cursor_at T r C'
    else \<exists>C'. BTCNext T C = Some (-1, C') \<and> c_pPage C' = None"
proof (cases "r < length (tree_keys T)")
  case True
  obtain path i where nx: "c_pNextPage C = Some path" "c_NextIndex C = int i" "place_of T r path i" "c_pNextKey C = Some (tree_keys T ! r)"
    using nx True by (auto simp: next_at_def)
  obtain root where root: "b_pRoot T = Some root" using nx(3) by (auto simp: place_of_def)
  define C1 where "C1 = C\<lparr>c_pPage := c_pNextPage C, c_zIndex := c_NextIndex C, c_pKey := c_pNextKey C\<rparr>"
  obtain C' where C': "BTC_next root path i C1 = Some C'" "next_at T (Suc r) C'"
    "c_pPage C' = c_pPage C1" "c_zIndex C' = c_zIndex C1" "c_pKey C' = c_pKey C1"
    using BTC_next_ok [OF ok root nx(3)] by blast
  have "BTCNext T C = Some (0, C')" using C'(1) nx root by (simp add: BTCNext_def C1_def)
  moreover have "cursor_at T r C'" using C'(2-) nx by (simp add: cursor_at_def C1_def)
  ultimately show ?thesis using True by auto
next
  case False
  then have "c_pNextPage C = None" using nx by (auto simp: next_at_def)
  then show ?thesis using False by (simp add: BTCNext_def)
qed

lemma cursor_next: "cursor_at T r C \<Longrightarrow> next_at T (Suc r) C"
  by (simp add: cursor_at_def)

lemmas BTCNext_ok = BTCNext_next [OF _ cursor_next]

text \<open>\<open>BTCPrev\<close> moves to the place before, but the key of the cursor stays.\<close>

lemma BTCPrev_ok:
  assumes ok: "tree_ok T" and C: "cursor_at T r C"
  shows "if r = 0 then BTCPrev T C = Some (-1, C)
    else \<exists>path i C'. BTCPrev T C = Some (0, C') \<and> c_pPage C' = Some path \<and> c_zIndex C' = int i \<and> place_of T (r - 1) path i \<and>
      c_pNextPage C' = c_pPage C \<and> c_NextIndex C' = c_zIndex C \<and> c_pKey C' = c_pKey C \<and> c_pNextKey C' = c_pNextKey C"
proof -
  obtain path i where pl: "c_pPage C = Some path" "c_zIndex C = int i" "place_of T r path i" using C by (auto simp: cursor_at_def)
  obtain root where root: "b_pRoot T = Some root" using pl(3) by (auto simp: place_of_def)
  obtain h where b: "bal (b_N T) (Suc h) (Some root)" using tree_ok_root [OF ok root] by blast
  have n: "0 < b_N T" using ok by (simp add: tree_ok_def)
  note k = place_of_keys [OF ok pl(3) root]
  obtain x where x: "prev_place root path i = Some x" "case x of
      None \<Rightarrow> before_place path i root = []
    | Some (path', i') \<Rightarrow> (\<exists>k'. item_at root path' i' = Some k') \<and> after_place path' i' root = tree_keys T ! r # after_place path i root"
    using prev_place_ok [OF b n k(3)] by blast
  show ?thesis
  proof (cases x)
    case None
    then have "r = 0" using x(2) k(1,4) by (cases "tree_keys T") auto
    then show ?thesis using x(1) None pl root by (simp add: BTCPrev_def)
  next
    case (Some y)
    obtain path' i' where y: "y = (path', i')" by (cases y)
    obtain k' where it: "item_at root path' i' = Some k'" and ap: "after_place path' i' root = tree_keys T ! r # after_place path i root"
      using x(2) Some y by auto
    note p' = place_ofI [OF ok root it]
    have len: "Suc (length (before_place path' i' root)) = r"
      using arg_cong [OF p'(3), of length] ap k(2,4) by simp
    then have "place_of T (r - 1) path' i'" "r \<noteq> 0" using p'(1) by auto
    then show ?thesis using x(1) Some y pl root by (simp add: BTCPrev_def)
  qed
qed

end
