(* ===== verification/BTree_Find.thy ===== *)
theory BTree_Find
  imports BTree_Cursor
begin

text \<open>
  The searches find the first key that is not less, and the last that is not greater, when the comparison is an
  order; deletion by a cursor and by a key.
\<close>

section \<open>The lower bound\<close>

lemma takeWhile_mid:
  assumes "\<forall>x \<in> set xs. lt x" and "\<forall>x \<in> set zs. \<not> lt x"
  shows "takeWhile lt (xs @ ys @ zs) = xs @ takeWhile lt ys"
proof -
  have "takeWhile lt zs = []" using assms(2) by (cases zs) simp_all
  then show ?thesis using assms(1) by (cases "\<forall>y \<in> set ys. lt y") (auto simp: takeWhile_append takeWhile_eq_all_conv [THEN iffD2])
qed

lemma step_back_count:
  assumes "parted lt xs" and "R \<le> length xs" and "length (takeWhile lt xs) \<le> R"
  shows "step_back lt xs R = length (takeWhile lt xs)"
  using assms(2,3)
proof (induction R)
  case (Suc R)
  have "lt (xs ! R) \<longleftrightarrow> R < length (takeWhile lt xs)" using parted_nth [OF assms(1)] Suc.prems(1) by simp
  then show ?case using Suc by (cases "lt (xs ! R)") auto
qed simp

lemma step_back_le: "step_back lt xs R \<le> R"
  by (induction R) auto

lemma BTIND_le: "BTIND lt p \<le> p_M p"
proof -
  have "BTIND_loop lt xs L R \<le> max L R" if "L \<le> R" for L R xs
    using that by (induction lt xs L R rule: BTIND_loop.induct) (subst BTIND_loop.simps, force simp: Let_def)
  from this [of 1 "p_M p + 1" "p_aItems p"] show ?thesis by (simp add: BTIND_def)
qed

text \<open>The slot at which \<open>BTCFindLower\<close> looks below a page, and whether it may stay there.\<close>

definition lower_slot :: "('k \<Rightarrow> 'k \<Rightarrow> int) \<Rightarrow> 'k \<Rightarrow> 'k BTPage_t \<Rightarrow> nat" where
  "lower_slot cmp pKey p = (let R = BTIND (\<lambda>x. cmp x pKey \<le> 0) p
     in if R = p_M p \<and> cmp (p_aItems p ! (R - 1)) pKey < 0 then R
        else step_back (\<lambda>x. cmp x pKey < 0) (p_aItems p) (if R = p_M p then R - 1 else R))"

lemma lower_slot_over:
  "BTIND (\<lambda>x. cmp x k \<le> 0) p = p_M p \<Longrightarrow> cmp (p_aItems p ! (p_M p - 1)) k < 0 \<Longrightarrow> lower_slot cmp k p = p_M p"
  by (simp add: lower_slot_def)

lemma lower_place_slot:
  assumes "0 < p_M p"
  shows "lower_place cmp k p = (let R = lower_slot cmp k p in
     case Option.bind (child R p) (lower_place cmp k) of
       Some pl \<Rightarrow> deeper R (Some pl)
     | None \<Rightarrow> if R < p_M p then Some ([], R) else None)"
proof -
  define R where "R = BTIND (\<lambda>x. cmp x k \<le> 0) p"
  define R' where "R' = step_back (\<lambda>x. cmp x k < 0) (p_aItems p) (if R = p_M p then R - 1 else R)"
  note simps = lower_place.simps [of cmp k p] lower_slot_def [of cmp k p]
  show ?thesis
  proof (cases "R = p_M p \<and> cmp (p_aItems p ! (R - 1)) k < 0")
    case True
    then have "lower_slot cmp k p = R" using lower_slot_over [of cmp k p] by (metis R_def)
    moreover have "BTIND (\<lambda>x. cmp x k \<le> 0) p = p_M p" "cmp (p_aItems p ! (p_M p - 1)) k < 0" "R = p_M p" using True R_def by auto
    then have "lower_place cmp k p = (case child R p of None \<Rightarrow> None | Some q \<Rightarrow> deeper R (lower_place cmp k q))"
      by (subst simps(1)) (simp add: Let_def split: option.split)
    ultimately show ?thesis using True by (auto simp: deeper_def Let_def split: option.split)
  next
    case False
    then have "lower_slot cmp k p = R'" by (simp only: simps(2) R'_def Let_def if_False flip: R_def)
    moreover have "lower_place cmp k p = (case child R' p of None \<Rightarrow> Some ([], R')
        | Some q \<Rightarrow> (case lower_place cmp k q of None \<Rightarrow> Some ([], R') | Some pl \<Rightarrow> deeper R' (Some pl)))"
      using False by (subst simps(1)) (simp only: Let_def R'_def if_False flip: R_def)
    moreover have "R \<le> p_M p" unfolding R_def by (rule BTIND_le)
    then have "(if R = p_M p then R - 1 else R) < p_M p" using assms by (cases "R = p_M p") (simp_all add: diff_less)
    then have "R' < p_M p" unfolding R'_def by (rule le_less_trans [OF step_back_le])
    ultimately show ?thesis by (auto simp: deeper_def split: option.split)
  qed
qed

lemma lower_slot_count:
  assumes lt: "parted (\<lambda>x. cmp x k < 0) (p_aItems p)" and le: "parted (\<lambda>x. cmp x k \<le> 0) (p_aItems p)" and M: "0 < p_M p"
  shows "lower_slot cmp k p = BTIND (\<lambda>x. cmp x k < 0) p"
proof -
  let ?lt = "\<lambda>x. cmp x k < 0" and ?le = "\<lambda>x. cmp x k \<le> 0" and ?is = "p_aItems p"
  define m where "m = length (takeWhile ?lt ?is)"
  define R where "R = BTIND ?le p"
  have R: "R = length (takeWhile ?le ?is)" "BTIND ?lt p = m" using BTIND_count lt le by (auto simp: R_def m_def)
  then have RM: "R \<le> p_M p" by (simp add: length_takeWhile_le)
  have last: "?lt (?is ! (p_M p - 1)) \<longleftrightarrow> m = p_M p"
    using parted_nth [OF lt, of "p_M p - 1"] M length_takeWhile_le [of ?lt ?is] by (auto simp: m_def)
  show ?thesis
  proof (cases "R = p_M p \<and> ?lt (?is ! (R - 1))")
    case True
    then have "lower_slot cmp k p = R" using lower_slot_over [of cmp k p] by (metis R_def)
    then show ?thesis using True last R(2) by auto
  next
    case False
    define R' where "R' = (if R = p_M p then R - 1 else R)"
    have R': "R' < p_M p" using RM M by (auto simp: R'_def)
    have "\<not> ?lt (?is ! R')"
    proof (cases "R = p_M p")
      case True
      then show ?thesis using False by (simp add: R'_def)
    next
      case neq: False
      then have "\<not> ?le (?is ! R)" using nth_length_takeWhile [of ?le ?is] R(1) RM by simp
      then show ?thesis using neq by (simp add: R'_def)
    qed
    then have "m \<le> R'" using parted_nth [OF lt R'] by (simp add: m_def)
    then have "step_back ?lt ?is R' = m" using step_back_count [OF lt] R' by (simp add: m_def)
    moreover have "lower_slot cmp k p = step_back ?lt ?is R'" using False by (simp only: lower_slot_def Let_def R'_def if_False flip: R_def)
    ultimately show ?thesis using R(2) by simp
  qed
qed

lemma lower_place_ok:
  assumes "bal n (Suc h) (Some p)" and n: "0 < n" and "0 < p_M p"
    and "parted (\<lambda>x. cmp x k < 0) (keys p)" and "parted (\<lambda>x. cmp x k \<le> 0) (keys p)"
  shows "case lower_place cmp k p of
      None \<Rightarrow> \<forall>x \<in> set (keys p). cmp x k < 0
    | Some (path, i) \<Rightarrow> (\<exists>k'. item_at p path i = Some k') \<and> before_place path i p = takeWhile (\<lambda>x. cmp x k < 0) (keys p)"
  using assms(1,3-)
proof (induction h arbitrary: p)
  case (0 p)
  let ?lt = "\<lambda>x. cmp x k < 0"
  define R where "R = lower_slot cmp k p"
  have f: "fits_items p" using 0(1) by simp
  have R: "R = BTIND ?lt p" unfolding R_def by (rule lower_slot_count [of cmp k p, OF parted_items [OF f 0(3)] parted_items [OF f 0(4)] 0(2)])
  note s = slot_of_key [OF f 0(3), folded R]
  have c: "child R p = None" using bal_child [OF 0(1) s(1)] by simp
  then have lp: "lower_place cmp k p = (if R < p_M p then Some ([], R) else None)"
    using lower_place_slot [OF 0(2), of cmp k] by (simp add: R_def)
  have ks: "keys p = keys_before R p @ [] @ keys_after R p" using keys_at [OF f s(1)] c by simp
  show ?case
  proof (cases "R < p_M p")
    case True
    then show ?thesis using lp c takeWhile_mid [OF s(2,3), of "[]"] ks by (auto simp: item_at_Nil)
  next
    case False
    then have "R = p_M p" using s(1) by simp
    then show ?thesis using lp ks s(2) keys_after_last [of p] by simp
  qed
next
  case (Suc h p)
  let ?lt = "\<lambda>x. cmp x k < 0"
  define R where "R = lower_slot cmp k p"
  have f: "fits_items p" using Suc.prems(1) by simp
  have R: "R = BTIND ?lt p" unfolding R_def
    by (rule lower_slot_count [of cmp k p, OF parted_items [OF f Suc.prems(3)] parted_items [OF f Suc.prems(4)] Suc.prems(2)])
  note s = slot_of_key [OF f Suc.prems(3), folded R]
  obtain q where q: "child R p = Some q" "bal n (Suc h) (Some q)" "n \<le> p_M q"
    using bal_child [OF Suc.prems(1) s(1)] by (cases "child R p") auto
  have ks: "keys p = keys_before R p @ keys q @ keys_after R p" using keys_at [OF f s(1)] q(1) by simp
  have "0 < p_M q" using q(3) n by linarith
  moreover have "parted ?lt (keys q)" "parted (\<lambda>x. cmp x k \<le> 0) (keys q)" by (rule parted_mid [OF Suc.prems(3) [unfolded ks]], rule parted_mid [OF Suc.prems(4) [unfolded ks]])
  ultimately have IH: "case lower_place cmp k q of
      None \<Rightarrow> \<forall>x \<in> set (keys q). ?lt x
    | Some (path, i) \<Rightarrow> (\<exists>k'. item_at q path i = Some k') \<and> before_place path i q = takeWhile ?lt (keys q)"
    by (rule Suc.IH [OF q(2)])
  have tw: "takeWhile ?lt (keys p) = keys_before R p @ takeWhile ?lt (keys q)" using takeWhile_mid [OF s(2,3)] ks by simp
  note lp = lower_place_slot [OF Suc.prems(2), of cmp k, folded R_def, unfolded Let_def]
  show ?case
  proof (cases "lower_place cmp k q")
    case (Some pl)
    obtain path i where pl: "pl = (path, i)" by (cases pl)
    have "lower_place cmp k p = Some (R # path, i)" using lp q(1) Some pl by (simp add: deeper_def)
    then show ?thesis using q(1) IH tw Some pl by (simp add: item_at_Cons)
  next
    case None
    then have all: "\<forall>x \<in> set (keys q). ?lt x" using IH by simp
    show ?thesis
    proof (cases "R < p_M p")
      case True
      have "keys q = takeWhile ?lt (keys q)" using all by (simp add: takeWhile_eq_all_conv [THEN iffD2])
      moreover have "lower_place cmp k p = Some ([], R)" using lp q(1) None True by simp
      ultimately show ?thesis using q(1) True tw by (simp add: item_at_Nil del: takeWhile_eq_all_conv)
    next
      case False
      then have "R = p_M p" using s(1) by simp
      then have "lower_place cmp k p = None" "keys_after R p = []" using lp q(1) None keys_after_last [of p] by simp_all
      then show ?thesis using ks s(2) all by auto
    qed
  qed
qed

section \<open>The upper bound\<close>

lemma upper_place_slot:
  assumes pt: "parted (\<lambda>x. cmp x k \<le> 0) (p_aItems p)" and M: "0 < p_M p" and L: "L = BTIND (\<lambda>x. cmp x k \<le> 0) p"
  shows "upper_place cmp k p = (case Option.bind (child L p) (upper_place cmp k) of
      Some pl \<Rightarrow> deeper L (Some pl)
    | None \<Rightarrow> if L = 0 then None else Some ([], L - 1))"
proof (cases "L = 0")
  case True
  then have "\<not> cmp (p_aItems p ! 0) k \<le> 0" using parted_nth [OF pt M] BTIND_count [OF pt] L by simp
  then have "upper_place cmp k p = (case child 0 p of None \<Rightarrow> None | Some q \<Rightarrow> deeper 0 (upper_place cmp k q))"
    using L True by (subst upper_place.simps) (simp add: Let_def)
  then show ?thesis using True by (auto simp: deeper_def split: option.split)
next
  case False
  then have "upper_place cmp k p = (case child L p of None \<Rightarrow> Some ([], L - 1)
      | Some q \<Rightarrow> (case upper_place cmp k q of None \<Rightarrow> Some ([], L - 1) | Some pl \<Rightarrow> deeper L (Some pl)))"
    by (subst upper_place.simps) (simp add: Let_def flip: L)
  then show ?thesis using False by (auto split: option.split)
qed

lemma upper_place_ok:
  assumes "bal n (Suc h) (Some p)" and n: "0 < n" and "0 < p_M p" and "parted (\<lambda>x. cmp x k \<le> 0) (keys p)"
  shows "case upper_place cmp k p of
      None \<Rightarrow> \<forall>x \<in> set (keys p). \<not> cmp x k \<le> 0
    | Some (path, i) \<Rightarrow> (\<exists>k'. item_at p path i = Some k' \<and> before_place path i p @ [k'] = takeWhile (\<lambda>x. cmp x k \<le> 0) (keys p))"
  using assms(1,3-)
proof (induction h arbitrary: p)
  case (0 p)
  let ?le = "\<lambda>x. cmp x k \<le> 0"
  define L where "L = BTIND ?le p"
  have f: "fits_items p" using 0(1) by simp
  note s = slot_of_key [OF f 0(3), folded L_def]
  have c: "\<And>R. R \<le> p_M p \<Longrightarrow> child R p = None" using bal_child [OF 0(1)] by simp
  have ks: "keys p = keys_before L p @ [] @ keys_after L p" using keys_at [OF f s(1)] c [OF s(1)] by simp
  note up = upper_place_slot [of cmp k p L, OF parted_items [OF f 0(3)] 0(2) L_def]
  have tw: "takeWhile ?le (keys p) = keys_before L p" using takeWhile_mid [OF s(2,3), of "[]"] ks by simp
  show ?case
  proof (cases L)
    case 0
    then have "upper_place cmp k p = None" using up c [OF s(1)] by simp
    then show ?thesis using s(3) ks 0 by simp
  next
    case (Suc j)
    then have "upper_place cmp k p = Some ([], j)" using up c [OF s(1)] by simp
    then show ?thesis using tw keys_before_Suc [OF f, of j] Suc s(1) by (simp add: item_at_Nil)
  qed
next
  case (Suc h p)
  let ?le = "\<lambda>x. cmp x k \<le> 0"
  define L where "L = BTIND ?le p"
  have f: "fits_items p" using Suc.prems(1) by simp
  note s = slot_of_key [OF f Suc.prems(3), folded L_def]
  obtain q where q: "child L p = Some q" "bal n (Suc h) (Some q)" "n \<le> p_M q"
    using bal_child [OF Suc.prems(1) s(1)] by (cases "child L p") auto
  have ks: "keys p = keys_before L p @ keys q @ keys_after L p" using keys_at [OF f s(1)] q(1) by simp
  have "0 < p_M q" using q(3) n by linarith
  then have IH: "case upper_place cmp k q of
      None \<Rightarrow> \<forall>x \<in> set (keys q). \<not> ?le x
    | Some (path, i) \<Rightarrow> (\<exists>k'. item_at q path i = Some k' \<and> before_place path i q @ [k'] = takeWhile ?le (keys q))"
    by (rule Suc.IH [OF q(2) _ parted_mid [OF Suc.prems(3) [unfolded ks]]])
  have tw: "takeWhile ?le (keys p) = keys_before L p @ takeWhile ?le (keys q)" using takeWhile_mid [OF s(2,3)] ks by simp
  note up = upper_place_slot [of cmp k p L, OF parted_items [OF f Suc.prems(3)] Suc.prems(2) L_def]
  show ?case
  proof (cases "upper_place cmp k q")
    case (Some pl)
    obtain path i where pl: "pl = (path, i)" by (cases pl)
    have "upper_place cmp k p = Some (L # path, i)" using up q(1) Some pl by (simp add: deeper_def)
    then show ?thesis using q(1) IH tw Some pl by (auto simp: item_at_Cons)
  next
    case None
    then have all: "\<forall>x \<in> set (keys q). \<not> ?le x" using IH by simp
    show ?thesis
    proof (cases L)
      case 0
      then have "upper_place cmp k p = None" using up q(1) None by simp
      then show ?thesis using ks s(3) all 0 by auto
    next
      case (Suc j)
      have "takeWhile ?le (keys q) = []" using all by (cases "keys q") simp_all
      moreover have "upper_place cmp k p = Some ([], j)" using up q(1) None Suc by simp
      ultimately show ?thesis using tw keys_before_Suc [OF f, of j] Suc s(1) by (simp add: item_at_Nil)
    qed
  qed
qed

section \<open>Searches of a tree\<close>

lemma BTC_found_ok:
  assumes ok: "tree_ok T" and root: "b_pRoot T = Some root" and it: "item_at root path i = Some k"
  shows "\<exists>C'. BTC_found T (Some (path, i)) C = Some (0, C') \<and> cursor_at T (length (before_place path i root)) C'"
  using BTC_set_ok [OF ok root place_ofI(1) [OF ok root it], of C] root by (auto simp: BTC_found_def)

lemma BTCFindLower_ok:
  assumes ok: "tree_ok T" and lt: "parted (\<lambda>x. cmp x k < 0) (tree_keys T)" and le: "parted (\<lambda>x. cmp x k \<le> 0) (tree_keys T)"
    and r: "r = length (takeWhile (\<lambda>x. cmp x k < 0) (tree_keys T))"
  shows "if r < length (tree_keys T) then \<exists>C'. BTCFindLower cmp k T C = Some (0, C') \<and> cursor_at T r C'
    else BTCFindLower cmp k T C = Some (-1, C\<lparr>c_pPage := None\<rparr>)"
proof (cases "b_pRoot T")
  case None
  then show ?thesis by (simp add: BTCFindLower_def BTC_found_def tree_keys_def)
next
  case (Some root)
  have n: "0 < b_N T" using ok by (simp add: tree_ok_def)
  obtain h where b: "bal (b_N T) (Suc h) (Some root)" "0 < p_M root" using tree_ok_root [OF ok Some] by blast
  have ks: "tree_keys T = keys root" using Some by (simp add: tree_keys_def)
  note lp = lower_place_ok [where cmp = cmp and k = k, OF b(1) n b(2) lt [unfolded ks] le [unfolded ks]]
  show ?thesis
  proof (cases "lower_place cmp k root")
    case None
    then have "takeWhile (\<lambda>x. cmp x k < 0) (keys root) = keys root" using lp by (simp add: takeWhile_eq_all_conv)
    then have "r = length (tree_keys T)" unfolding r ks by (rule arg_cong)
    then show ?thesis using None Some by (simp add: BTCFindLower_def BTC_found_def)
  next
    case (Some pl)
    obtain path i where pl: "pl = (path, i)" by (cases pl)
    then obtain k' where it: "item_at root path i = Some k'" and bp: "before_place path i root = takeWhile (\<lambda>x. cmp x k < 0) (keys root)"
      using lp Some by auto
    have rr: "length (before_place path i root) = r" using bp r ks by simp
    obtain C' where C': "BTC_found T (Some (path, i)) C = Some (0, C')" "cursor_at T r C'"
      using BTC_found_ok [OF ok \<open>b_pRoot T = Some root\<close> it] unfolding rr by blast
    have "r < length (tree_keys T)" using arg_cong [OF place_ofI(3) [OF ok \<open>b_pRoot T = Some root\<close> it], of length] rr by simp
    moreover have "BTCFindLower cmp k T C = Some (0, C')" using C'(1) Some pl \<open>b_pRoot T = Some root\<close> by (simp add: BTCFindLower_def)
    ultimately show ?thesis using C'(2) by simp
  qed
qed

lemma BTCFindUpper_ok:
  assumes ok: "tree_ok T" and le: "parted (\<lambda>x. cmp x k \<le> 0) (tree_keys T)"
    and r: "r = length (takeWhile (\<lambda>x. cmp x k \<le> 0) (tree_keys T))"
  shows "if 0 < r then \<exists>C'. BTCFindUpper cmp k T C = Some (0, C') \<and> cursor_at T (r - 1) C'
    else BTCFindUpper cmp k T C = Some (-1, C\<lparr>c_pPage := None\<rparr>)"
proof (cases "b_pRoot T")
  case None
  then show ?thesis using r by (simp add: BTCFindUpper_def BTC_found_def tree_keys_def)
next
  case (Some root)
  have n: "0 < b_N T" using ok by (simp add: tree_ok_def)
  obtain h where b: "bal (b_N T) (Suc h) (Some root)" "0 < p_M root" using tree_ok_root [OF ok Some] by blast
  have ks: "tree_keys T = keys root" using Some by (simp add: tree_keys_def)
  note up = upper_place_ok [where cmp = cmp and k = k, OF b(1) n b(2) le [unfolded ks]]
  show ?thesis
  proof (cases "upper_place cmp k root")
    case None
    then have "takeWhile (\<lambda>x. cmp x k \<le> 0) (keys root) = []" using up by (cases "keys root") simp_all
    then have "r = 0" using r ks by simp
    then show ?thesis using None Some by (simp add: BTCFindUpper_def BTC_found_def)
  next
    case (Some pl)
    obtain path i where pl: "pl = (path, i)" by (cases pl)
    then obtain k' where it: "item_at root path i = Some k'"
      and bp: "before_place path i root @ [k'] = takeWhile (\<lambda>x. cmp x k \<le> 0) (keys root)" using up Some by auto
    have rr: "r = Suc (length (before_place path i root))" using arg_cong [OF bp, of length] r ks by simp
    obtain C' where C': "BTC_found T (Some (path, i)) C = Some (0, C')" "cursor_at T (r - 1) C'"
      using BTC_found_ok [OF ok \<open>b_pRoot T = Some root\<close> it] rr by fastforce
    have "BTCFindUpper cmp k T C = Some (0, C')" using C'(1) Some pl \<open>b_pRoot T = Some root\<close> by (simp add: BTCFindUpper_def)
    then show ?thesis using C'(2) rr by auto
  qed
qed

text \<open>The fuel of \<open>BTCFind\<close> is enough: it is more than the keys of the tree.\<close>

lemma page_size_keys: "bal n h (Some p) \<Longrightarrow> page_size p = length (keys p)"
proof (induction p arbitrary: h rule: page_size.induct)
  case (1 "is" cs)
  obtain h' where h': "h = Suc h'" "length cs = Suc (length is)" using bal_root [OF 1(2)] by auto
  have c: "(case c of None \<Rightarrow> 0 | Some q \<Rightarrow> page_size q) = length (keys_o c)" if "c \<in> set cs" for c
    using 1(1) [OF that] 1(2) that h'(1) by (cases c) auto
  have "length (weave xs js) = sum_list (map length xs) + length js" if "length xs = Suc (length js)" for xs :: "'a list list" and js
    using that by (induction xs js rule: weave.induct) auto
  then show ?case using h'(2) c by (simp add: keys_Page comp_def cong: map_cong)
qed

lemma tree_size_keys: "tree_ok T \<Longrightarrow> tree_size T = length (tree_keys T)"
  using tree_ok_root [of T] page_size_keys by (cases "b_pRoot T") (fastforce simp: tree_size_def tree_keys_def)+

text \<open>Where \<open>BTCFind\<close> ends up: the comparison it makes is cut to an \<open>int\<close>.\<close>

definition found_rank :: "('k \<Rightarrow> 'k \<Rightarrow> int) \<Rightarrow> 'k \<Rightarrow> 'k list \<Rightarrow> nat \<Rightarrow> nat option" where
  "found_rank cmp k ks r = (let j = r + length (takeWhile (\<lambda>x. 0 < int32 (cmp x k)) (drop r ks))
     in if j < length ks \<and> int32 (cmp (ks ! j) k) = 0 then Some j else None)"

lemma cursor_at_key: "cursor_at T r C \<Longrightarrow> tree_ok T \<Longrightarrow> r < length (tree_keys T) \<and> c_pKey C = Some (tree_keys T ! r)"
  unfolding cursor_at_def by (metis place_of_def place_of_keys(4))

lemma BTCFind_loop_ok:
  assumes ok: "tree_ok T"
  shows "cursor_at T r C \<Longrightarrow> length (tree_keys T) - r \<le> n \<Longrightarrow> case found_rank cmp k (tree_keys T) r of
      Some j \<Rightarrow> \<exists>C'. BTCFind_loop n cmp k T C = Some (0, C') \<and> cursor_at T j C'
    | None \<Rightarrow> \<exists>C'. BTCFind_loop n cmp k T C = Some (-1, C')"
proof (induction n arbitrary: r C)
  case 0
  then show ?case using cursor_at_key [OF 0(1) ok] by simp
next
  case (Suc n)
  note ck = cursor_at_key [OF Suc.prems(1) ok]
  define c where "c = int32 (cmp (tree_keys T ! r) k)"
  have d: "drop r (tree_keys T) = tree_keys T ! r # drop (Suc r) (tree_keys T)" using ck by (simp add: Cons_nth_drop_Suc)
  show ?case
  proof (cases "0 < c")
    case False
    then show ?thesis using ck d Suc.prems(1) by (auto simp: found_rank_def c_def Let_def)
  next
    case True
    then have fr: "found_rank cmp k (tree_keys T) r = found_rank cmp k (tree_keys T) (Suc r)"
      using d by (simp add: found_rank_def c_def)
    note nx = BTCNext_ok [OF ok Suc.prems(1)]
    show ?thesis
    proof (cases "Suc r < length (tree_keys T)")
      case lt: True
      then obtain C' where C': "BTCNext T C = Some (0, C')" "cursor_at T (Suc r) C'" using nx by auto
      have E: "BTCFind_loop (Suc n) cmp k T C = BTCFind_loop n cmp k T C'" using ck True C'(1) by (simp add: c_def Let_def)
      have "length (tree_keys T) - Suc r \<le> n" using Suc.prems(2) by simp
      from Suc.IH [OF C'(2) this] show ?thesis unfolding fr E .
    next
      case False
      then have "found_rank cmp k (tree_keys T) (Suc r) = None" by (simp add: found_rank_def)
      moreover obtain C' where "BTCNext T C = Some (-1, C')" using nx False by auto
      ultimately show ?thesis using fr ck True by (simp add: c_def Let_def)
    qed
  qed
qed

lemma BTCFind_ok:
  assumes ok: "tree_ok T" and lt: "parted (\<lambda>x. cmp x k < 0) (tree_keys T)" and le: "parted (\<lambda>x. cmp x k \<le> 0) (tree_keys T)"
  shows "case found_rank cmp k (tree_keys T) (length (takeWhile (\<lambda>x. cmp x k < 0) (tree_keys T))) of
      Some j \<Rightarrow> \<exists>C'. BTCFind cmp k T C = Some (0, C') \<and> cursor_at T j C'
    | None \<Rightarrow> \<exists>C'. BTCFind cmp k T C = Some (-1, C')"
proof -
  define r where "r = length (takeWhile (\<lambda>x. cmp x k < 0) (tree_keys T))"
  note lo = BTCFindLower_ok [where cmp = cmp and k = k and C = C, OF ok lt le r_def]
  show ?thesis
  proof (cases "r < length (tree_keys T)")
    case True
    then obtain C' where C': "BTCFindLower cmp k T C = Some (0, C')" "cursor_at T r C'" using lo by auto
    have E: "BTCFind cmp k T C = BTCFind_loop (Suc (tree_size T)) cmp k T C'" using C'(1) by (simp add: BTCFind_def)
    have "length (tree_keys T) - r \<le> Suc (tree_size T)" using tree_size_keys [OF ok] by simp
    from BTCFind_loop_ok [OF ok C'(2) this, of cmp k] show ?thesis unfolding E r_def .
  next
    case False
    then show ?thesis using lo by (simp add: found_rank_def BTCFind_def flip: r_def)
  qed
qed

end
