(* ===== verification/BTree_Order.thy ===== *)
theory BTree_Order
  imports BTree_Find
begin

text \<open>
  What a tree asks of its comparison, and what the operations do when it has it: the keys stay in order,
  insertion puts a key before its equals, deletion takes away one key. The comparison of addresses, which the
  trees without a function of their own use, has it.
\<close>

section \<open>The comparison\<close>

definition ordered :: "('k \<Rightarrow> 'k \<Rightarrow> int) \<Rightarrow> 'k list \<Rightarrow> bool" where
  "ordered cmp ks \<longleftrightarrow> sorted_wrt (\<lambda>x y. cmp x y \<le> 0) ks"

lemma ordered_simps [simp]: "ordered cmp []" "ordered cmp (x # xs) \<longleftrightarrow> (\<forall>y \<in> set xs. cmp x y \<le> 0) \<and> ordered cmp xs"
  by (simp_all add: ordered_def)

lemma ordered_append: "ordered cmp (xs @ ys) \<longleftrightarrow> ordered cmp xs \<and> ordered cmp ys \<and> (\<forall>x \<in> set xs. \<forall>y \<in> set ys. cmp x y \<le> 0)"
  by (simp add: ordered_def sorted_wrt_append)

lemma ordered_drop:
  assumes "ordered cmp ks"
  shows "ordered cmp (take r ks @ drop (Suc r) ks)"
proof (cases "r < length ks")
  case True
  then have "ks = take r ks @ ks ! r # drop (Suc r) ks" by (rule id_take_nth_drop)
  then have "ordered cmp (take r ks @ ks ! r # drop (Suc r) ks)" using assms by simp
  then show ?thesis unfolding ordered_append ordered_simps by auto
qed (use assms in simp)

section \<open>The tree after a deletion\<close>

text \<open>A root without items gives way to the page below it.\<close>

lemma root_gives_way:
  assumes "bal n (Suc h) (Some p)" and n: "0 < n"
  shows "\<exists>h'. bal n h' (if p_M p = 0 then child 0 p else Some p)" and "filled 1 (if p_M p = 0 then child 0 p else Some p)"
    and "keys_o (if p_M p = 0 then child 0 p else Some p) = keys p"
proof -
  have f: "fits_items p" using assms(1) by simp
  have c: "bal n h (child 0 p)" "filled n (child 0 p)" using bal_child [OF assms(1), of 0] by simp_all
  then show "\<exists>h'. bal n h' (if p_M p = 0 then child 0 p else Some p)" using assms(1) by metis
  show "filled 1 (if p_M p = 0 then child 0 p else Some p)" using c(2) n
    by (cases "child 0 p") (auto simp: Suc_le_eq)
  have "keys p = keys_o (child 0 p)" if "p_M p = 0" using keys_at [OF f, of 0] keys_after_last [of p] that by simp
  then show "keys_o (if p_M p = 0 then child 0 p else Some p) = keys p" by auto
qed

lemma deleted_tree:
  assumes ok: "tree_ok T" and pl: "place_of T r path i"
  shows "\<exists>root root' few T'. b_pRoot T = Some root \<and> bt_delete_at (b_N T) path i root = Some (root', few) \<and>
    T' = T\<lparr>b_Cnt := b_Cnt T - 1, b_pRoot := (if p_M root' = 0 then child 0 root' else Some root')\<rparr> \<and>
    tree_ok T' \<and> b_N T' = b_N T \<and> tree_keys T' = take r (tree_keys T) @ drop (Suc r) (tree_keys T)"
proof -
  obtain root where root: "b_pRoot T = Some root" using pl by (auto simp: place_of_def)
  have n: "0 < b_N T" and cnt: "b_Cnt T = of_nat (length (tree_keys T))" using ok by (simp_all add: tree_ok_def tree_keys_def)
  obtain h where b: "bal (b_N T) (Suc h) (Some root)" "0 < p_M root" using tree_ok_root [OF ok root] by blast
  note k = place_of_keys [OF ok pl root]
  obtain root' few where d: "bt_delete_at (b_N T) path i root = Some (root', few)"
    "deleted_ok (b_N T) (Suc h) (p_M root) (take r (tree_keys T) @ drop (Suc r) (tree_keys T)) (root', few)"
    using delete_at_ok [OF b(1) n b(2) k(3)] k(1,2) by auto
  have b': "bal (b_N T) (Suc h) (Some root')" and k': "keys root' = take r (tree_keys T) @ drop (Suc r) (tree_keys T)"
    using d(2) by (simp_all add: deleted_ok_def del: bal.simps)
  define T' where "T' = T\<lparr>b_Cnt := b_Cnt T - 1, b_pRoot := (if p_M root' = 0 then child 0 root' else Some root')\<rparr>"
  note w = root_gives_way [OF b' n]
  have ks: "tree_keys T' = take r (tree_keys T) @ drop (Suc r) (tree_keys T)" using w(3) k' by (simp add: tree_keys_def T'_def)
  obtain h' where h': "bal (b_N T') h' (b_pRoot T')" using w(1) by (auto simp: T'_def)
  have "b_Cnt T' = of_nat (length (tree_keys T'))"
  proof -
    have "length (tree_keys T) = Suc (length (tree_keys T'))" using ks k(4) by simp
    moreover have "b_Cnt T' = b_Cnt T - 1" by (simp add: T'_def)
    ultimately show ?thesis using cnt by simp
  qed
  then have "tree_ok T'" using h' n w(2) by (intro tree_okI [OF _ h']) (simp_all add: T'_def tree_keys_def)
  moreover have "b_N T' = b_N T" by (simp add: T'_def)
  ultimately show ?thesis using root d(1) ks T'_def by blast
qed

section \<open>Orders\<close>

locale compare =
  fixes cmp :: "'k \<Rightarrow> 'k \<Rightarrow> int"
  assumes turned: "cmp x y < 0 \<longleftrightarrow> 0 < cmp y x"
    and through: "cmp x y \<le> 0 \<Longrightarrow> cmp y z \<le> 0 \<Longrightarrow> cmp x z \<le> 0"
begin

lemma same [simp]: "cmp x x = 0"
  using turned [of x x] by linarith

lemma total: "cmp x y \<le> 0 \<or> cmp y x \<le> 0"
  using turned [of y x] by linarith

lemma less_through: "cmp x y \<le> 0 \<Longrightarrow> cmp y z < 0 \<Longrightarrow> cmp x z < 0"
  using through [of x y z] through [of z x y] turned [of x z] turned [of y z] by linarith

lemma parted_less: "ordered cmp ks \<Longrightarrow> parted (\<lambda>x. cmp x k < 0) ks"
  unfolding ordered_def parted_def by (rule sorted_wrt_mono_rel) (auto intro: less_through)

lemma parted_not_more: "ordered cmp ks \<Longrightarrow> parted (\<lambda>x. cmp x k \<le> 0) ks"
  unfolding ordered_def parted_def by (rule sorted_wrt_mono_rel) (auto intro: through)

lemma ordered_put:
  assumes o: "ordered cmp ks"
  shows "ordered cmp (put_key (\<lambda>x. cmp x k < 0) k ks)"
proof -
  let ?lt = "\<lambda>x. cmp x k < 0"
  have "ordered cmp (takeWhile ?lt ks @ dropWhile ?lt ks)" using o by simp
  then have td: "ordered cmp (takeWhile ?lt ks)" "ordered cmp (dropWhile ?lt ks)"
    "\<And>x y. x \<in> set (takeWhile ?lt ks) \<Longrightarrow> y \<in> set (dropWhile ?lt ks) \<Longrightarrow> cmp x y \<le> 0"
    unfolding ordered_append by blast+
  have "\<forall>x \<in> set (takeWhile ?lt ks). cmp x k \<le> 0" by (auto dest: set_takeWhileD)
  moreover have "\<forall>y \<in> set (dropWhile ?lt ks). cmp k y \<le> 0"
  proof (cases "dropWhile ?lt ks")
    case (Cons z zs)
    then have "\<not> ?lt z" by (simp add: dropWhile_eq_Cons_conv)
    then have z: "cmp k z \<le> 0" using turned [of k z] turned [of z k] by linarith
    have "\<forall>y \<in> set zs. cmp z y \<le> 0" using td(2) Cons by simp
    then show ?thesis using z Cons by (auto intro: through)
  next
    case Nil
    show ?thesis unfolding Nil by simp
  qed
  ultimately show ?thesis using td by (auto simp: put_key_def ordered_append)
qed

text \<open>A tree in order stays in order.\<close>

lemma insert_keeps:
  assumes "tree_ok T" and "ordered cmp (tree_keys T)"
  shows "tree_ok (BTInsert cmp k T)" and "ordered cmp (tree_keys (BTInsert cmp k T))"
    and "tree_keys (BTInsert cmp k T) = put_key (\<lambda>x. cmp x k < 0) k (tree_keys T)"
  using BTInsert_ok [OF assms(1) parted_less [OF assms(2)]] ordered_put [OF assms(2)] by simp_all

lemma finds_key:
  assumes "tree_ok T" and "ordered cmp (tree_keys T)"
  shows "case found_rank cmp k (tree_keys T) (length (takeWhile (\<lambda>x. cmp x k < 0) (tree_keys T))) of
      Some j \<Rightarrow> \<exists>C'. BTCFind cmp k T C = Some (0, C') \<and> cursor_at T j C'
    | None \<Rightarrow> \<exists>C'. BTCFind cmp k T C = Some (-1, C')"
  by (rule BTCFind_ok [OF assms(1) parted_less [OF assms(2)] parted_not_more [OF assms(2)]])

text \<open>The search for a key that has an equal finds the first of them.\<close>

lemma equal_rank:
  assumes o: "ordered cmp ks" and k: "x \<in> set ks" "cmp x k = 0"
  shows "length (takeWhile (\<lambda>x. cmp x k < 0) ks) < length ks"
    and "cmp (ks ! length (takeWhile (\<lambda>x. cmp x k < 0) ks)) k = 0"
    and "found_rank cmp k ks (length (takeWhile (\<lambda>x. cmp x k < 0) ks)) = Some (length (takeWhile (\<lambda>x. cmp x k < 0) ks))"
proof -
  let ?lt = "\<lambda>x. cmp x k < 0"
  define r where "r = length (takeWhile ?lt ks)"
  have "takeWhile ?lt ks \<noteq> ks" using k by (force simp: takeWhile_eq_all_conv)
  then have r: "r < length ks"
    unfolding r_def by (metis length_takeWhile_le order_le_less take_all_iff takeWhile_eq_take)
  then have nlt: "\<not> ?lt (ks ! r)" unfolding r_def by (rule nth_length_takeWhile)
  have "cmp (ks ! r) k \<le> 0"
  proof -
    obtain j where j: "j < length ks" "ks ! j = x" using k(1) by (auto simp: in_set_conv_nth)
    have "\<not> j < r" using parted_nth [OF parted_less [OF o] j(1), of k] j(2) k(2) by (simp add: r_def)
    then have "cmp (ks ! r) x \<le> 0"
      using o j r by (cases "r = j") (auto simp: ordered_def sorted_wrt_iff_nth_less)
    then show ?thesis using through [of "ks ! r" x k] k(2) by simp
  qed
  then have z: "cmp (ks ! r) k = 0" using nlt by simp
  then have "found_rank cmp k ks r = Some r"
    using r by (simp add: found_rank_def Let_def int32_id flip: Cons_nth_drop_Suc)
  then show "length (takeWhile ?lt ks) < length ks" "cmp (ks ! length (takeWhile ?lt ks)) k = 0"
    "found_rank cmp k ks (length (takeWhile ?lt ks)) = Some (length (takeWhile ?lt ks))"
    using r z by (simp_all add: r_def)
qed

lemma finds_equal:
  assumes "tree_ok T" and o: "ordered cmp (tree_keys T)" and k: "x \<in> set (tree_keys T)" "cmp x k = 0"
  shows "\<exists>C'. BTCFind cmp k T C = Some (0, C') \<and> cursor_at T (length (takeWhile (\<lambda>x. cmp x k < 0) (tree_keys T))) C'"
  using finds_key [OF assms(1) o, of k C] equal_rank(3) [OF o k] by simp

text \<open>
  Deletion at a cursor takes away its key. The next place of the cursor is found again by its key, so that it is
  that of the first key equal to it.
\<close>

lemma deletes_at:
  assumes ok: "tree_ok T" and o: "ordered cmp (tree_keys T)" and C: "cursor_at T r C"
  shows "\<exists>T' C'. BTCDelete cmp T C = Some (0, T', C') \<and> tree_ok T' \<and> b_N T' = b_N T \<and>
    tree_keys T' = take r (tree_keys T) @ drop (Suc r) (tree_keys T) \<and>
    next_at T' (if Suc r < length (tree_keys T)
      then length (takeWhile (\<lambda>x. cmp x (tree_keys T ! Suc r) < 0) (tree_keys T')) else r) C'"
proof -
  let ?ks = "tree_keys T"
  obtain path i where pl: "c_pPage C = Some path" "c_zIndex C = int i" "place_of T r path i" using C by (auto simp: cursor_at_def)
  obtain T' where T': "tree_ok T'" "b_N T' = b_N T" "tree_keys T' = take r ?ks @ drop (Suc r) ?ks"
    and del: "\<exists>root root' few. b_pRoot T = Some root \<and> bt_delete_at (b_N T) path i root = Some (root', few) \<and>
      T' = T\<lparr>b_Cnt := b_Cnt T - 1, b_pRoot := (if p_M root' = 0 then child 0 root' else Some root')\<rparr>"
    using deleted_tree [OF ok pl(3)] by blast
  have r: "r < length ?ks" using cursor_at_key [OF C ok] by simp
  have o': "ordered cmp (tree_keys T')" using ordered_drop [OF o] T'(3) by simp
  show ?thesis
  proof (cases "Suc r < length ?ks")
    case False
    then have nx: "c_pNextPage C = None" using C by (auto simp: cursor_at_def next_at_def)
    then have "BTCDelete cmp T C = Some (0, T', C)" using del pl by (auto simp: BTCDelete_def Let_def)
    moreover have "next_at T' r C" using nx T'(3) r False by (simp add: next_at_def)
    ultimately show ?thesis using T' False by auto
  next
    case True
    define k where "k = ?ks ! Suc r"
    obtain np where nx: "c_pNextPage C = Some np" "c_pNextKey C = Some k" using C True by (auto simp: cursor_at_def next_at_def k_def)
    have "k \<in> set (tree_keys T')" using T'(3) True by (metis k_def Un_iff Cons_nth_drop_Suc list.set_intros(1) set_append)
    then obtain C1 where C1: "BTCFind cmp k T' C = Some (0, C1)" "cursor_at T' (length (takeWhile (\<lambda>x. cmp x k < 0) (tree_keys T'))) C1"
      using finds_equal [OF T'(1) o', of k k] by auto
    define C' where "C' = C1\<lparr>c_pNextPage := c_pPage C1, c_NextIndex := c_zIndex C1, c_pNextKey := c_pKey C1\<rparr>"
    have "BTCDelete cmp T C = Some (0, T', C')" using del pl nx C1(1) by (auto simp: BTCDelete_def Let_def C'_def)
    moreover have "next_at T' (length (takeWhile (\<lambda>x. cmp x k < 0) (tree_keys T'))) C'"
      using C1(2) cursor_at_key [OF C1(2) T'(1)] by (auto simp: next_at_def cursor_at_def C'_def)
    ultimately show ?thesis using T' True by (auto simp flip: k_def)
  qed
qed

lemma deletes_key:
  assumes ok: "tree_ok T" and o: "ordered cmp (tree_keys T)"
  shows "case found_rank cmp k (tree_keys T) (length (takeWhile (\<lambda>x. cmp x k < 0) (tree_keys T))) of
      Some j \<Rightarrow> \<exists>T'. BTDelete cmp k T = Some (0, T') \<and> tree_ok T' \<and> tree_keys T' = take j (tree_keys T) @ drop (Suc j) (tree_keys T)
    | None \<Rightarrow> BTDelete cmp k T = Some (-1, T)"
proof -
  note f = finds_key [OF ok o, of k BTCursorOpen]
  show ?thesis
  proof (cases "found_rank cmp k (tree_keys T) (length (takeWhile (\<lambda>x. cmp x k < 0) (tree_keys T)))")
    case None
    then show ?thesis using f by (auto simp: BTDelete_def)
  next
    case (Some j)
    then obtain C where C: "BTCFind cmp k T BTCursorOpen = Some (0, C)" "cursor_at T j C" using f by auto
    obtain T' C' where "BTCDelete cmp T C = Some (0, T', C')" "tree_ok T'" "tree_keys T' = take j (tree_keys T) @ drop (Suc j) (tree_keys T)"
      using deletes_at [OF ok o C(2)] by blast
    then show ?thesis using C(1) Some by (simp add: BTDelete_def)
  qed
qed

text \<open>\<open>BTreeDestroy\<close> hands over the keys in order, up to the first that is refused.\<close>

lemma destroys:
  assumes "tree_ok T" and "ordered cmp (tree_keys T)" and "cursor_at T 0 C" and "length (tree_keys T) = n"
    and "\<forall>f k. fd = Some f \<longrightarrow> k \<in> set (tree_keys T) \<longrightarrow> 0 \<le> f k"
  shows "\<exists>T'. BTreeDestroy_loop n cmp fd T C = Some (0, tree_keys T, T') \<and> tree_ok T' \<and> tree_keys T' = []"
  using assms
proof (induction n arbitrary: T C)
  case 0
  then show ?case using cursor_at_key [OF 0(3,1)] by simp
next
  case (Suc n)
  obtain k ks where kk: "tree_keys T = k # ks" using Suc.prems(4) by (cases "tree_keys T") auto
  have C: "c_pKey C = Some k" using cursor_at_key [OF Suc.prems(3,1)] kk by simp
  have go: "\<not> (case fd of None \<Rightarrow> False | Some f \<Rightarrow> f k < 0)" using Suc.prems(5) kk by (auto split: option.split)
  obtain T1 C1 where d: "BTCDelete cmp T C = Some (0, T1, C1)" "tree_ok T1" "tree_keys T1 = ks"
    "next_at T1 (if Suc 0 < length (tree_keys T) then length (takeWhile (\<lambda>x. cmp x (tree_keys T ! Suc 0) < 0) ks) else 0) C1"
    using deletes_at [OF Suc.prems(1-3)] kk by auto
  have "next_at T1 0 C1" using d(4) kk by (cases ks) auto
  note nx = BTCNext_next [OF d(2) this]
  show ?case
  proof (cases ks)
    case Nil
    then obtain C2 where "BTCNext T1 C1 = Some (-1, C2)" using nx d(3) by auto
    then show ?thesis using C go d(1-3) kk Nil by simp
  next
    case (Cons k' ks')
    then obtain C2 where C2: "BTCNext T1 C1 = Some (0, C2)" "cursor_at T1 0 C2" using nx d(3) by auto
    have "ordered cmp (tree_keys T1)" using Suc.prems(2) kk d(3) by simp
    moreover have "length (tree_keys T1) = n" using Suc.prems(4) kk d(3) by simp
    moreover have "\<forall>f k. fd = Some f \<longrightarrow> k \<in> set (tree_keys T1) \<longrightarrow> 0 \<le> f k" using Suc.prems(5) kk d(3) by simp
    ultimately obtain T' where "BTreeDestroy_loop n cmp fd T1 C2 = Some (0, ks, T')" "tree_ok T'" "tree_keys T' = []"
      using Suc.IH [OF d(2) _ C2(2)] d(3) by auto
    then show ?thesis using C go d(1) C2(1) kk by simp
  qed
qed

end

section \<open>Addresses\<close>

interpretation addresses: compare "BTI_CMP None"
  by unfold_locales (auto simp: BTI_CMP_def)

end
