(* ===== verification/Gadget_Timer.thy ===== *)
theory Gadget_Timer
  imports BTree_Order Gadget_Table
begin

text \<open>
  The timer of \<^verbatim>\<open>NWGadget/src/NWGadget.c\<close>. Its events wait in a list or, with \<open>TIMER_BTREE\<close>, in a B-tree, and
  go to the queue of the performer thread when their time is over. Events are addresses; \<open>t_Mem\<close> is what is stored at them
  and \<open>t_Live\<close> those that are allocated. Every function holds \<open>t_Mtx\<close> and is one step, and so is each stretch of \<open>TimerThread\<close>
  between two waits. \<open>None\<close> is an access that goes wrong in the B-tree.
\<close>

section \<open>Events and timers\<close>

datatype TEMode_t = TE_TIMER | TE_HEAD | TE_PERFORMER

record TimerEvent_t =
  e_Mode :: TEMode_t
  e_MS :: int
  e_fEvent :: u64
  e_pArg :: u64
  e_Registered :: timespec
  e_Fired :: timespec
  e_Exec :: timespec
  e_Timeout :: timespec

record Timer_t =
  t_BTREE :: bool
  t_Active :: bool
  t_OnOff :: bool
  t_Timeout :: timespec
  t_Events :: "u64 list"
  t_Execs :: "u64 Queue"
  t_BTree :: "u64 BTree_t"
  t_Hash :: "(u64, u64) Hash"
  t_Mem :: "u64 \<Rightarrow> TimerEvent_t"
  t_Live :: "u64 list"

definition TimerEventCompare :: "(u64 \<Rightarrow> TimerEvent_t) \<Rightarrow> u64 \<Rightarrow> u64 \<Rightarrow> int" where
  "TimerEventCompare mem pA pB = TIMESPECCOMPARE (e_Timeout (mem pA)) (e_Timeout (mem pB))"

abbreviation t_cmp :: "Timer_t \<Rightarrow> u64 \<Rightarrow> u64 \<Rightarrow> int" where
  "t_cmp T \<equiv> TimerEventCompare (t_Mem T)"

text \<open>The table is of \<open>PRIMARY_101\<close> chains and has addresses as its keys.\<close>

definition TimerInit :: "bool \<Rightarrow> nat \<Rightarrow> (u64 \<Rightarrow> TimerEvent_t) \<Rightarrow> Timer_t" where
  "TimerInit btree BTreeN mem =
     \<lparr>t_BTREE = btree, t_Active = False, t_OnOff = False, t_Timeout = timespec_zero, t_Events = [], t_Execs = QueueInit,
      t_BTree = BTreeInit BTreeN, t_Hash = HashInit 101 (HashCode_FN ucast) HashCompare_PNT, t_Mem = mem, t_Live = []\<rparr>"

definition TimerEnable :: "Timer_t \<Rightarrow> Timer_t" where
  "TimerEnable T = T\<lparr>t_Active := True\<rparr>"

definition TimerDisable :: "Timer_t \<Rightarrow> Timer_t" where
  "TimerDisable T = T\<lparr>t_Active := False\<rparr>"

definition set_event :: "u64 \<Rightarrow> (TimerEvent_t \<Rightarrow> TimerEvent_t) \<Rightarrow> Timer_t \<Rightarrow> Timer_t" where
  "set_event p f T = T\<lparr>t_Mem := (t_Mem T)(p := f (t_Mem T p))\<rparr>"

text \<open>\<open>p\<close> is the address the allocator returns.\<close>

definition TimerEventAlloc :: "u64 \<Rightarrow> int \<Rightarrow> u64 \<Rightarrow> u64 \<Rightarrow> Timer_t \<Rightarrow> Timer_t" where
  "TimerEventAlloc p ms fEvent pArg T =
     set_event p (\<lambda>e. e\<lparr>e_fEvent := fEvent, e_pArg := pArg, e_MS := ms\<rparr>) (T\<lparr>t_Live := p # t_Live T\<rparr>)"

definition TimerEventFree :: "u64 \<Rightarrow> Timer_t \<Rightarrow> Timer_t" where
  "TimerEventFree p T = T\<lparr>t_Live := remove1 p (t_Live T)\<rparr>"

section \<open>Setting and cancelling\<close>

fun list_place :: "(u64 \<Rightarrow> u64 \<Rightarrow> int) \<Rightarrow> u64 \<Rightarrow> u64 list \<Rightarrow> u64 list" where
  "list_place cmp p [] = [p]"
| "list_place cmp p (pE # es) = (if cmp p pE > 0 then pE # list_place cmp p es else p # pE # es)"

text \<open>\<open>TimerAdd\<close>; the first result tells whether the timer thread is signalled.\<close>

definition TimerAdd :: "timespec \<Rightarrow> u64 \<Rightarrow> Timer_t \<Rightarrow> bool \<times> Timer_t" where
  "TimerAdd Now p T =
     (let T = set_event p (\<lambda>e. e\<lparr>e_Registered := Now, e_Timeout := TIMEOUT Now (e_MS e)\<rparr>) T;
          T = (if t_BTREE T then T\<lparr>t_BTree := BTInsert (t_cmp T) p (t_BTree T)\<rparr>
               else T\<lparr>t_Events := list_place (t_cmp T) p (t_Events T)\<rparr>);
          T = set_event p (\<lambda>e. e\<lparr>e_Mode := TE_TIMER\<rparr>) T;
          T = T\<lparr>t_Hash := HashPut (t_Hash T) p p\<rparr>
      in (\<not> t_OnOff T \<or> TIMESPECCOMPARE (e_Timeout (t_Mem T p)) (t_Timeout T) < 0, T))"

definition TimerSet :: "timespec \<Rightarrow> u64 \<Rightarrow> int \<Rightarrow> u64 \<Rightarrow> u64 \<Rightarrow> Timer_t \<Rightarrow> bool \<times> Timer_t" where
  "TimerSet Now p ms fEvent pArg T = TimerAdd Now p (TimerEventAlloc p ms fEvent pArg T)"

text \<open>\<open>_TimerCancel\<close> returns the argument of the event, or \<open>NULL\<close> when it is not waiting; the second result is the signal.\<close>

definition TimerCancel :: "u64 \<Rightarrow> Timer_t \<Rightarrow> (u64 \<times> bool \<times> Timer_t) option" where
  "TimerCancel p T =
     (case HashGet (t_Hash T) p of (v, h) \<Rightarrow>
        let T = T\<lparr>t_Hash := h\<rparr>; e = t_Mem T p
        in if v \<noteq> None \<and> (e_Mode e = TE_TIMER \<or> e_Mode e = TE_HEAD) then
             do {
               T \<leftarrow> (if t_BTREE T then map_option (\<lambda>(_, tree). T\<lparr>t_BTree := tree\<rparr>) (BTDelete (t_cmp T) p (t_BTree T))
                    else Some (T\<lparr>t_Events := remove1 p (t_Events T)\<rparr>));
               let T = T\<lparr>t_Hash := snd (HashRemove (t_Hash T) p)\<rparr>;
               Some (e_pArg e, e_Mode e = TE_HEAD, TimerEventFree p T)
             }
           else Some (0, False, T))"

text \<open>
  \<open>TimerStop\<close> cancels what the table holds, event by event; as many turns as events are allocated are enough.
\<close>

fun TimerPurge :: "nat \<Rightarrow> Timer_t \<Rightarrow> Timer_t option" where
  "TimerPurge n T =
     (case HashIsExist (t_Hash T) of
        None \<Rightarrow> Some T
      | Some it \<Rightarrow> (case n of 0 \<Rightarrow> None
          | Suc n \<Rightarrow> do { (_, _, T) \<leftarrow> TimerCancel (HASH_VALUE (t_Hash T) it) T; TimerPurge n T }))"

declare TimerPurge.simps [simp del]

definition TimerStop :: "Timer_t \<Rightarrow> Timer_t option" where
  "TimerStop T =
     do {
       T \<leftarrow> TimerPurge (length (t_Live T)) (TimerDisable T);
       Some (T\<lparr>t_Execs := snd (QueueAbort (t_Execs T) (-9))\<rparr>)
     }"

text \<open>\<open>TimerDestroy\<close> frees what waits in the B-tree; what waits in the list stays allocated.\<close>

definition TimerDestroy :: "Timer_t \<Rightarrow> Timer_t option" where
  "TimerDestroy T =
     do {
       T \<leftarrow> (if t_BTREE T
            then map_option (\<lambda>(_, ps, tree). (fold TimerEventFree ps T)\<lparr>t_BTree := tree\<rparr>) (BTreeDestroy (t_cmp T) (Some (\<lambda>_. 0)) (t_BTree T))
            else Some T);
       Some (T\<lparr>t_Hash := snd (HashClear (t_Hash T))\<rparr>)
     }"

section \<open>The timer thread\<close>

definition timer_first :: "Timer_t \<Rightarrow> u64 option option" where
  "timer_first T =
     (if t_BTREE T
      then do { (r, C) \<leftarrow> BTCHead (t_BTree T) BTCursorOpen; if r = 0 then map_option Some (c_pKey C) else Some None }
      else Some (case t_Events T of [] \<Rightarrow> None | p # ps \<Rightarrow> Some p))"

text \<open>Before it waits: for a signal, or until the time of the first event.\<close>

definition timer_waits :: "Timer_t \<Rightarrow> (u64 option \<times> Timer_t) option" where
  "timer_waits T =
     do {
       x \<leftarrow> timer_first T;
       Some (case x of
           None \<Rightarrow> (None, T\<lparr>t_OnOff := False\<rparr>)
         | Some p \<Rightarrow> (Some p, set_event p (\<lambda>e. e\<lparr>e_Mode := TE_HEAD\<rparr>) (T\<lparr>t_OnOff := True, t_Timeout := e_Timeout (t_Mem T p)\<rparr>)))
     }"

text \<open>After the wait for the event at \<open>p\<close> has ended early.\<close>

definition timer_woken :: "u64 \<Rightarrow> Timer_t \<Rightarrow> Timer_t" where
  "timer_woken p T =
     (case HashGet (t_Hash T) p of (v, h) \<Rightarrow>
        let T = T\<lparr>t_Hash := h\<rparr>
        in if v \<noteq> None then set_event p (\<lambda>e. e\<lparr>e_Mode := TE_TIMER\<rparr>) T else T)"

text \<open>When the time of the first event is over, those whose time is over go to the performer.\<close>

definition fire :: "timespec \<Rightarrow> u64 \<Rightarrow> Timer_t \<Rightarrow> Timer_t" where
  "fire Now p T =
     (let T = T\<lparr>t_Hash := snd (HashRemove (t_Hash T) p)\<rparr>;
          T = set_event p (\<lambda>e. e\<lparr>e_Fired := Now, e_Mode := TE_PERFORMER\<rparr>) T
      in T\<lparr>t_Execs := snd (QueuePost (t_Execs T) p)\<rparr>)"

fun fire_list :: "timespec \<Rightarrow> u64 list \<Rightarrow> Timer_t \<Rightarrow> Timer_t" where
  "fire_list Now [] T = T"
| "fire_list Now (p # ps) T =
     (if TIMESPECCOMPARE (e_Timeout (t_Mem T p)) Now < 0
      then fire_list Now ps (fire Now p (T\<lparr>t_Events := remove1 p (t_Events T)\<rparr>)) else T)"

fun fire_tree :: "nat \<Rightarrow> timespec \<Rightarrow> u64 BTCursor_t \<Rightarrow> Timer_t \<Rightarrow> Timer_t option" where
  "fire_tree n Now C T =
     do {
       (r, C) \<leftarrow> BTCHead (t_BTree T) C;
       if r \<noteq> 0 then Some T
       else do {
         p \<leftarrow> c_pKey C;
         if TIMESPECCOMPARE (e_Timeout (t_Mem T p)) Now < 0 then
           (case n of 0 \<Rightarrow> None
            | Suc n \<Rightarrow> do { (_, tree, C) \<leftarrow> BTCDelete (t_cmp T) (t_BTree T) C; fire_tree n Now C (fire Now p (T\<lparr>t_BTree := tree\<rparr>)) })
         else Some T
       }
     }"

declare fire_tree.simps [simp del]

definition timer_expires :: "timespec \<Rightarrow> Timer_t \<Rightarrow> Timer_t option" where
  "timer_expires Now T =
     (if t_BTREE T then fire_tree (tree_size (t_BTree T)) Now BTCursorOpen T else Some (fire_list Now (t_Events T) T))"

text \<open>
  The performer takes an event, calls its function without \<open>t_Mtx\<close>, so that other steps come in between, and then frees it.
\<close>

definition performer_takes :: "timespec \<Rightarrow> Timer_t \<Rightarrow> (u64 \<times> Timer_t) option" where
  "performer_takes Now T =
     (case q_entry (t_Execs T) of
        [] \<Rightarrow> None
      | p # ps \<Rightarrow> Some (p, set_event p (\<lambda>e. e\<lparr>e_Exec := Now\<rparr>)
          (T\<lparr>t_Execs := (t_Execs T)\<lparr>q_entry := ps, q_cnt := q_cnt (t_Execs T) - 1\<rparr>\<rparr>)))"

section \<open>All steps\<close>

text \<open>Beside the timer, the event the performer is busy with. An allocated address is not allocated again.\<close>

inductive timer_step :: "Timer_t \<times> u64 option \<Rightarrow> Timer_t \<times> u64 option \<Rightarrow> bool" where
  t_set: "p \<notin> set (t_Live T) \<Longrightarrow> TimerSet Now p ms f a T = (sig, T') \<Longrightarrow> timer_step (T, w) (T', w)"
| t_cancel: "TimerCancel p T = Some (a, sig, T') \<Longrightarrow> timer_step (T, w) (T', w)"
| t_stop: "TimerStop T = Some T' \<Longrightarrow> timer_step (T, w) (T', w)"
| t_waits: "timer_waits T = Some (x, T') \<Longrightarrow> timer_step (T, w) (T', w)"
| t_woken: "timer_step (T, w) (timer_woken p T, w)"
| t_expires: "timer_expires Now T = Some T' \<Longrightarrow> timer_step (T, w) (T', w)"
| t_takes: "performer_takes Now T = Some (p, T') \<Longrightarrow> timer_step (T, None) (T', Some p)"
| t_frees: "timer_step (T, Some p) (TimerEventFree p T, None)"
| t_enable: "timer_step (T, w) (TimerEnable T, w)"

inductive_cases timer_stepE: "timer_step (T, w) (T', w')"

end
