(* ===== verification/Timer_Events.thy ===== *)
theory Timer_Events
  imports Gadget_Timer
begin

text \<open>
  The timer keeps its waiting events in the order of their times, each in the table, allocated and not yet with the
  performer, whether they are in the list or in the B-tree. Cancelling in the B-tree needs that no other event has the
  same time.
\<close>

section \<open>The orders and the table\<close>

interpretation timeouts: compare "TimerEventCompare mem" for mem
  by unfold_locales (auto simp: TimerEventCompare_def TIMESPECCOMPARE_def split: if_splits)

lemma HashCompare_PNT_zero [simp]: "HashCompare_PNT a b = 0 \<longleftrightarrow> a = b"
  by (simp add: HashCompare_PNT_def)

interpretation event_table: key_kind "ucast :: u64 \<Rightarrow> u32" HashCompare_PNT
  by unfold_locales simp_all

lemma list_place_put: "list_place (TimerEventCompare mem) p ps = put_key (\<lambda>x. TimerEventCompare mem x p < 0) p ps"
  by (induction ps) (simp_all add: put_key_def timeouts.turned [of mem _ p])

lemma put_key_set [simp]: "set (put_key lt k ks) = insert k (set ks)"
proof -
  have "set ks = set (takeWhile lt ks) \<union> set (dropWhile lt ks)" by (metis set_append takeWhile_dropWhile_id)
  then show ?thesis by (auto simp: put_key_def)
qed

lemma put_key_distinct: "distinct ks \<Longrightarrow> k \<notin> set ks \<Longrightarrow> distinct (put_key lt k ks)"
proof -
  assume "distinct ks" "k \<notin> set ks"
  moreover have "distinct (takeWhile lt ks @ dropWhile lt ks) = distinct ks" "set (takeWhile lt ks @ dropWhile lt ks) = set ks" by simp_all
  ultimately show ?thesis unfolding put_key_def distinct_append set_append by auto
qed

lemma remove1_rank: "r < length ks \<Longrightarrow> distinct ks \<Longrightarrow> take r ks @ drop (Suc r) ks = remove1 (ks ! r) ks"
proof (induction ks arbitrary: r)
  case (Cons k ks)
  then show ?case by (cases r) auto
qed simp

section \<open>The state of a timer\<close>

definition t_ids :: "Timer_t \<Rightarrow> u64 list" where
  "t_ids T = (if t_BTREE T then tree_keys (t_BTree T) else t_Events T)"

lemma t_ids_same [simp]:
  "t_ids (T\<lparr>t_Mem := m\<rparr>) = t_ids T" "t_ids (T\<lparr>t_Hash := h\<rparr>) = t_ids T" "t_ids (T\<lparr>t_Live := l\<rparr>) = t_ids T"
  "t_ids (T\<lparr>t_Execs := q\<rparr>) = t_ids T" "t_ids (T\<lparr>t_Active := a\<rparr>) = t_ids T"
  "t_ids (T\<lparr>t_OnOff := a\<rparr>) = t_ids T" "t_ids (T\<lparr>t_Timeout := w\<rparr>) = t_ids T"
  by (simp_all add: t_ids_def)

definition timer_ok :: "Timer_t \<Rightarrow> bool" where
  "timer_ok T \<longleftrightarrow>
     distinct (t_ids T) \<and> ordered (t_cmp T) (t_ids T) \<and> (t_BTREE T \<longrightarrow> tree_ok (t_BTree T)) \<and>
     keyed_table ucast HashCompare_PNT (t_Hash T) \<and>
     (\<forall>p. hash_queue (t_Hash T) p = (if p \<in> set (t_ids T) then [p] else [])) \<and>
     (\<forall>p \<in> set (t_ids T). e_Mode (t_Mem T p) \<noteq> TE_PERFORMER) \<and>
     distinct (q_entry (t_Execs T)) \<and> q_max (t_Execs T) = 0 \<and> set (t_ids T) \<inter> set (q_entry (t_Execs T)) = {} \<and>
     distinct (t_Live T) \<and> set (t_ids T) \<subseteq> set (t_Live T) \<and> set (q_entry (t_Execs T)) \<subseteq> set (t_Live T)"

lemma timer_ok_Init: "0 < n \<Longrightarrow> timer_ok (TimerInit b n mem)"
  using tree_ok_Init [of n] keyed_table_Init [of 101 ucast HashCompare_PNT] keyed_queue_Init [of 101 ucast HashCompare_PNT]
  by (auto simp: timer_ok_def t_ids_def TimerInit_def QueueInit_def)

lemma ordered_cong: "(\<And>x y. x \<in> set ks \<Longrightarrow> y \<in> set ks \<Longrightarrow> cmp x y = cmp' x y) \<Longrightarrow> ordered cmp ks \<Longrightarrow> ordered cmp' ks"
  unfolding ordered_def by (rule sorted_wrt_mono_rel) auto

lemma TimerEventCompare_cong:
  "e_Timeout (m x) = e_Timeout (m' x) \<Longrightarrow> e_Timeout (m y) = e_Timeout (m' y) \<Longrightarrow> TimerEventCompare m x y = TimerEventCompare m' x y"
  by (simp add: TimerEventCompare_def)

text \<open>What leaves the state in order: other memory, a lookup, an event taken out, one freed, one given to the performer.\<close>

lemma timer_ok_mem:
  assumes ok: "timer_ok T"
    and m: "\<And>q. q \<in> set (t_ids T) \<Longrightarrow> e_Timeout (m q) = e_Timeout (t_Mem T q) \<and> e_Mode (m q) \<noteq> TE_PERFORMER"
  shows "timer_ok (T\<lparr>t_Mem := m\<rparr>)"
proof -
  have "ordered (TimerEventCompare m) (t_ids T)"
    by (rule ordered_cong [of _ "t_cmp T"]) (use ok m in \<open>auto simp: timer_ok_def intro: TimerEventCompare_cong\<close>)
  then show ?thesis using ok m by (simp add: timer_ok_def)
qed

lemma timer_ok_get: "timer_ok T \<Longrightarrow> timer_ok (T\<lparr>t_Hash := snd (HashGet (t_Hash T) p)\<rparr>)"
  using event_table.get_laws [of "t_Hash T" p] by (simp add: timer_ok_def)

lemma HashGet_event: "timer_ok T \<Longrightarrow> fst (HashGet (t_Hash T) p) = (if p \<in> set (t_ids T) then Some p else None)"
  by (simp add: timer_ok_def HashGet_value)

lemma timer_ok_taken:
  assumes ok: "timer_ok T" and p: "p \<in> set (t_ids T)"
    and ids: "t_ids T' = remove1 p (t_ids T)" and b: "t_BTREE T' = t_BTREE T" "t_BTREE T \<Longrightarrow> tree_ok (t_BTree T')"
    and h: "t_Hash T' = snd (HashRemove (t_Hash T) p)"
    and same: "t_Live T' = t_Live T" "t_Execs T' = t_Execs T" "t_Mem T' = t_Mem T"
  shows "timer_ok T'" and "p \<notin> set (t_ids T')" and "p \<notin> set (q_entry (t_Execs T'))" and "p \<in> set (t_Live T')"
proof -
  have d: "distinct (t_ids T)" "ordered (t_cmp T) (t_ids T)" using ok by (simp_all add: timer_ok_def)
  have s: "set (t_ids T') = set (t_ids T) - {p}" using d(1) ids by simp
  obtain r where r: "r < length (t_ids T)" "t_ids T ! r = p" using p by (auto simp: in_set_conv_nth)
  have "ordered (t_cmp T) (remove1 p (t_ids T))" using ordered_drop [OF d(2), of r] remove1_rank [OF r(1) d(1)] r(2) by simp
  moreover have k: "keyed_table ucast HashCompare_PNT (t_Hash T)" using ok by (simp add: timer_ok_def)
  ultimately show "timer_ok T'"
    using ok s ids b h same event_table.remove_laws(1,2) [OF k, of p] by (auto simp: timer_ok_def)
  show "p \<notin> set (t_ids T')" "p \<notin> set (q_entry (t_Execs T'))" "p \<in> set (t_Live T')"
    using ok s p same by (auto simp: timer_ok_def)
qed

lemma timer_ok_free: "timer_ok T \<Longrightarrow> p \<notin> set (t_ids T) \<Longrightarrow> p \<notin> set (q_entry (t_Execs T)) \<Longrightarrow> timer_ok (TimerEventFree p T)"
  by (auto simp: timer_ok_def TimerEventFree_def)

lemma timer_ok_post:
  "timer_ok T \<Longrightarrow> p \<notin> set (t_ids T) \<Longrightarrow> p \<notin> set (q_entry (t_Execs T)) \<Longrightarrow> p \<in> set (t_Live T) \<Longrightarrow>
    timer_ok (T\<lparr>t_Execs := snd (QueuePost (t_Execs T) p)\<rparr>)"
  by (auto simp: timer_ok_def QueuePost_def)

section \<open>Setting an event\<close>

lemma TimerSet_state:
  assumes "TimerSet Now p ms f a T = (sig, T')"
  defines "m \<equiv> (t_Mem T)(p := (t_Mem T p)\<lparr>e_fEvent := f, e_pArg := a, e_MS := ms, e_Registered := Now, e_Timeout := TIMEOUT Now ms\<rparr>)"
  shows "t_Mem T' = m(p := (m p)\<lparr>e_Mode := TE_TIMER\<rparr>)" and "t_cmp T' = TimerEventCompare m"
    and "t_Live T' = p # t_Live T" and "t_BTREE T' = t_BTREE T" and "t_Execs T' = t_Execs T" and "t_Hash T' = HashPut (t_Hash T) p p"
    and "t_BTree T' = (if t_BTREE T then BTInsert (TimerEventCompare m) p (t_BTree T) else t_BTree T)"
    and "t_Events T' = (if t_BTREE T then t_Events T else list_place (TimerEventCompare m) p (t_Events T))"
proof -
  note d = TimerSet_def TimerAdd_def Let_def TimerEventAlloc_def set_event_def
  have T': "T' = snd (TimerSet Now p ms f a T)" using assms(1) by simp
  show mem: "t_Mem T' = m(p := (m p)\<lparr>e_Mode := TE_TIMER\<rparr>)"
    unfolding T' by (cases "t_BTREE T") (simp_all add: d m_def)
  show "t_Live T' = p # t_Live T" "t_BTREE T' = t_BTREE T" "t_Execs T' = t_Execs T" "t_Hash T' = HashPut (t_Hash T) p p"
    unfolding T' by (cases "t_BTREE T"; simp add: d)+
  show "t_BTree T' = (if t_BTREE T then BTInsert (TimerEventCompare m) p (t_BTree T) else t_BTree T)"
    "t_Events T' = (if t_BTREE T then t_Events T else list_place (TimerEventCompare m) p (t_Events T))"
    unfolding T' by (cases "t_BTREE T"; simp add: d m_def)+
  show "t_cmp T' = TimerEventCompare m" unfolding mem by (auto simp: fun_eq_iff TimerEventCompare_def)
qed

lemma TimerSet_ok:
  assumes ok: "timer_ok T" and p: "p \<notin> set (t_Live T)" and T': "TimerSet Now p ms f a T = (sig, T')"
  shows "timer_ok T'" and "t_ids T' = put_key (\<lambda>x. t_cmp T' x p < 0) p (t_ids T)"
proof -
  have np: "p \<notin> set (t_ids T)" "p \<notin> set (q_entry (t_Execs T))" using ok p by (auto simp: timer_ok_def)
  note mem = TimerSet_state(1) [OF T'] and cmp = TimerSet_state(2) [OF T'] and same = TimerSet_state(3-6) [OF T']
    and b = TimerSet_state(7,8) [OF T', folded cmp]
  have o: "ordered (t_cmp T') (t_ids T)"
    by (rule ordered_cong [of _ "t_cmp T"]) (use ok np in \<open>auto simp: timer_ok_def mem intro!: TimerEventCompare_cong\<close>)
  have ids: "t_ids T' = put_key (\<lambda>x. t_cmp T' x p < 0) p (t_ids T) \<and> (t_BTREE T \<longrightarrow> tree_ok (t_BTree T'))"
  proof (cases "t_BTREE T")
    case True
    then have "tree_ok (t_BTree T)" "ordered (t_cmp T') (tree_keys (t_BTree T))" using ok o by (simp_all add: timer_ok_def t_ids_def)
    then show ?thesis using timeouts.insert_keeps [of "t_BTree T" "t_Mem T'" p] True b(1) same(2) by (simp add: t_ids_def)
  next
    case False
    then show ?thesis using b(2) same(2) list_place_put by (simp add: t_ids_def)
  qed
  then show "t_ids T' = put_key (\<lambda>x. t_cmp T' x p < 0) p (t_ids T)" by simp
  have kt: "keyed_table ucast HashCompare_PNT (t_Hash T)" using ok by (simp add: timer_ok_def)
  have q: "keyed_table ucast HashCompare_PNT (t_Hash T')" "\<And>k. hash_queue (t_Hash T') k = hash_queue (t_Hash T) k @ (if p = k then [p] else [])"
    using event_table.put_ok [OF kt] event_table.put_queue [OF kt] same(4) by simp_all
  show "timer_ok T'"
    using ok np p ids q same timeouts.ordered_put [OF o] put_key_distinct [of "t_ids T" p]
    by (auto simp: timer_ok_def mem)
qed

section \<open>Cancelling an event\<close>

lemma TimerCancel_absent:
  assumes ok: "timer_ok T" and p: "p \<notin> set (t_ids T)"
  shows "TimerCancel p T = Some (0, False, T\<lparr>t_Hash := snd (HashGet (t_Hash T) p)\<rparr>)"
  using HashGet_event [OF ok, of p] p by (cases "HashGet (t_Hash T) p") (simp add: TimerCancel_def Let_def)

text \<open>The B-tree deletes the first of the events with the time of the given one.\<close>

definition same_time :: "Timer_t \<Rightarrow> u64 \<Rightarrow> u64" where
  "same_time T p = t_ids T ! length (takeWhile (\<lambda>x. t_cmp T x p < 0) (t_ids T))"

lemma BTDelete_event:
  assumes ok: "timer_ok T" and b: "t_BTREE T" and p: "p \<in> set (t_ids T)"
  shows "\<exists>tree. BTDelete (t_cmp T) p (t_BTree T) = Some (0, tree) \<and> tree_ok tree \<and> tree_keys tree = remove1 (same_time T p) (t_ids T)"
    and "same_time T p \<in> set (t_ids T)" and "t_cmp T (same_time T p) p = 0"
proof -
  have ids: "t_ids T = tree_keys (t_BTree T)" using b by (simp add: t_ids_def)
  have t: "tree_ok (t_BTree T)" "ordered (t_cmp T) (tree_keys (t_BTree T))" "distinct (tree_keys (t_BTree T))"
    using ok b ids by (simp_all add: timer_ok_def)
  define r where "r = length (takeWhile (\<lambda>x. t_cmp T x p < 0) (t_ids T))"
  note f = timeouts.equal_rank [OF t(2), of p p, folded ids, folded r_def, OF p timeouts.same]
  then show "same_time T p \<in> set (t_ids T)" "t_cmp T (same_time T p) p = 0" by (simp_all add: same_time_def r_def)
  obtain tree where "BTDelete (t_cmp T) p (t_BTree T) = Some (0, tree)" "tree_ok tree" "tree_keys tree = take r (t_ids T) @ drop (Suc r) (t_ids T)"
    using timeouts.deletes_key [OF t(1,2), of p] f(3) ids by (auto simp: r_def)
  moreover have "take r (t_ids T) @ drop (Suc r) (t_ids T) = remove1 (same_time T p) (t_ids T)"
    using remove1_rank f(1) t(3) ids by (simp add: same_time_def r_def)
  ultimately show "\<exists>tree. BTDelete (t_cmp T) p (t_BTree T) = Some (0, tree) \<and> tree_ok tree \<and>
      tree_keys tree = remove1 (same_time T p) (t_ids T)" by simp
qed

text \<open>What a cancel takes out of the waiting events, and what it frees.\<close>

definition taken_out :: "Timer_t \<Rightarrow> u64 \<Rightarrow> u64" where
  "taken_out T p = (if t_BTREE T then same_time T p else p)"

lemma TimerCancel_waiting:
  assumes ok: "timer_ok T" and p: "p \<in> set (t_ids T)"
  shows "\<exists>T'. TimerCancel p T = Some (e_pArg (t_Mem T p), e_Mode (t_Mem T p) = TE_HEAD, TimerEventFree p T') \<and>
    t_ids T' = remove1 (taken_out T p) (t_ids T) \<and> (t_BTREE T \<longrightarrow> tree_ok (t_BTree T')) \<and> t_BTREE T' = t_BTREE T \<and>
    t_Hash T' = snd (HashRemove (snd (HashGet (t_Hash T) p)) p) \<and>
    t_Live T' = t_Live T \<and> t_Execs T' = t_Execs T \<and> t_Mem T' = t_Mem T"
proof -
  have m: "e_Mode (t_Mem T p) = TE_TIMER \<or> e_Mode (t_Mem T p) = TE_HEAD"
    using ok p by (cases "e_Mode (t_Mem T p)") (auto simp: timer_ok_def)
  obtain h where h: "HashGet (t_Hash T) p = (Some p, h)" using HashGet_event [OF ok, of p] p by (metis prod.collapse)
  define T1 where "T1 = T\<lparr>t_Hash := h\<rparr>"
  have same: "t_cmp T1 = t_cmp T" "t_BTREE T1 = t_BTREE T" by (simp_all add: T1_def)
  show ?thesis
  proof (cases "t_BTREE T")
    case True
    obtain tree where tree: "BTDelete (t_cmp T) p (t_BTree T) = Some (0, tree)" "tree_ok tree"
      "tree_keys tree = remove1 (same_time T p) (t_ids T)" using BTDelete_event(1) [OF ok True p] by blast
    then show ?thesis using True m h
      by (intro exI [of _ "T\<lparr>t_BTree := tree, t_Hash := snd (HashRemove h p)\<rparr>"])
        (simp add: TimerCancel_def Let_def t_ids_def taken_out_def)
  next
    case False
    then show ?thesis using m h
      by (intro exI [of _ "T\<lparr>t_Events := remove1 p (t_Events T), t_Hash := snd (HashRemove h p)\<rparr>"])
        (simp add: TimerCancel_def Let_def t_ids_def taken_out_def)
  qed
qed

lemma TimerCancel_ok:
  assumes ok: "timer_ok T" and p: "p \<in> set (t_ids T)" and alone: "taken_out T p = p"
  shows "\<exists>T'. TimerCancel p T = Some (e_pArg (t_Mem T p), e_Mode (t_Mem T p) = TE_HEAD, T') \<and> timer_ok T' \<and>
    t_ids T' = remove1 p (t_ids T) \<and> t_Live T' = remove1 p (t_Live T) \<and> t_Execs T' = t_Execs T \<and> t_Mem T' = t_Mem T \<and> t_BTREE T' = t_BTREE T"
proof -
  obtain T' where T': "TimerCancel p T = Some (e_pArg (t_Mem T p), e_Mode (t_Mem T p) = TE_HEAD, TimerEventFree p T')"
    "t_ids T' = remove1 p (t_ids T)" "t_BTREE T \<longrightarrow> tree_ok (t_BTree T')" "t_BTREE T' = t_BTREE T"
    "t_Hash T' = snd (HashRemove (snd (HashGet (t_Hash T) p)) p)" "t_Live T' = t_Live T" "t_Execs T' = t_Execs T" "t_Mem T' = t_Mem T"
    using TimerCancel_waiting [OF ok p] alone by auto
  define T1 where "T1 = T\<lparr>t_Hash := snd (HashGet (t_Hash T) p)\<rparr>"
  have T1: "timer_ok T1" "p \<in> set (t_ids T1)" using timer_ok_get [OF ok, of p] p by (simp_all add: T1_def)
  have "timer_ok T'" "p \<notin> set (t_ids T')" "p \<notin> set (q_entry (t_Execs T'))"
    using timer_ok_taken [OF T1, of T'] T' by (simp_all add: T1_def)
  then have "timer_ok (TimerEventFree p T')" by (rule timer_ok_free)
  then show ?thesis using T' by (intro exI [of _ "TimerEventFree p T'"]) (simp add: TimerEventFree_def)
qed

text \<open>With another event of the same time before it, the cancelled event is freed and stays in the B-tree.\<close>

lemma TimerCancel_other:
  assumes ok: "timer_ok T" and b: "t_BTREE T" and p: "p \<in> set (t_ids T)" and other: "same_time T p \<noteq> p"
  shows "\<exists>T'. TimerCancel p T = Some (e_pArg (t_Mem T p), e_Mode (t_Mem T p) = TE_HEAD, T') \<and>
    p \<in> set (t_ids T') \<and> p \<notin> set (t_Live T') \<and> same_time T p \<notin> set (t_ids T') \<and> same_time T p \<in> set (t_Live T')"
proof -
  obtain T' where T': "TimerCancel p T = Some (e_pArg (t_Mem T p), e_Mode (t_Mem T p) = TE_HEAD, TimerEventFree p T')"
    "t_ids T' = remove1 (same_time T p) (t_ids T)" "t_BTREE T' = t_BTREE T" "t_Live T' = t_Live T"
    using TimerCancel_waiting [OF ok p] b by (auto simp: taken_out_def)
  have d: "distinct (t_ids T)" "distinct (t_Live T)" "set (t_ids T) \<subseteq> set (t_Live T)" using ok by (simp_all add: timer_ok_def)
  show ?thesis using T' d p other BTDelete_event(2) [OF ok b p]
    by (intro exI [of _ "TimerEventFree p T'"]) (auto simp: TimerEventFree_def)
qed

end
