(* ===== verification/Timer_Fires.thy ===== *)
theory Timer_Fires
  imports Timer_Events
begin

text \<open>
  What is over goes to the performer: all events whose time is over and no other, in the order of their times, from the
  list as from the B-tree; then each is performed and freed.
\<close>

section \<open>Events whose time is over\<close>

definition due :: "timespec \<Rightarrow> Timer_t \<Rightarrow> u64 \<Rightarrow> bool" where
  "due Now T p \<longleftrightarrow> TIMESPECCOMPARE (e_Timeout (t_Mem T p)) Now < 0"

interpretation times: compare TIMESPECCOMPARE
  by unfold_locales (auto simp: TIMESPECCOMPARE_def split: if_splits)

lemma parted_filter: "parted lt ks \<Longrightarrow> takeWhile lt ks = filter lt ks \<and> dropWhile lt ks = filter (\<lambda>x. \<not> lt x) ks"
proof (induction ks)
  case (Cons k ks)
  show ?case
  proof (cases "lt k")
    case False
    then have "\<forall>x \<in> set ks. \<not> lt x" using Cons.prems by (auto simp: parted_Cons)
    then show ?thesis using False by simp
  qed (use Cons in \<open>simp add: parted_Cons\<close>)
qed simp

lemma due_parted: "timer_ok T \<Longrightarrow> parted (due Now T) (t_ids T)"
proof -
  assume "timer_ok T"
  then have "sorted_wrt (\<lambda>x y. t_cmp T x y \<le> 0) (t_ids T)" by (simp add: timer_ok_def ordered_def)
  then show ?thesis
    unfolding parted_def by (rule sorted_wrt_mono_rel [rotated]) (auto simp: due_def TimerEventCompare_def intro: times.less_through)
qed

lemma fire_ok:
  assumes ok: "timer_ok T" and ids: "t_ids T = p # ps" "t_ids T1 = ps"
    and b: "t_BTREE T1 = t_BTREE T" "t_BTREE T \<Longrightarrow> tree_ok (t_BTree T1)"
    and same: "t_Hash T1 = t_Hash T" "t_Live T1 = t_Live T" "t_Execs T1 = t_Execs T" "t_Mem T1 = t_Mem T"
  shows "timer_ok (fire Now p T1)" and "t_ids (fire Now p T1) = ps"
    and "q_entry (t_Execs (fire Now p T1)) = q_entry (t_Execs T) @ [p]" and "t_Live (fire Now p T1) = t_Live T"
    and "t_BTREE (fire Now p T1) = t_BTREE T" and "due N (fire Now p T1) = due N T" and "t_Events (fire Now p T1) = t_Events T1"
    and "t_BTree (fire Now p T1) = t_BTree T1"
    and "t_Mem (fire Now p T1) = (t_Mem T)(p := (t_Mem T p)\<lparr>e_Fired := Now, e_Mode := TE_PERFORMER\<rparr>)"
proof -
  define T2 where "T2 = T1\<lparr>t_Hash := snd (HashRemove (t_Hash T1) p)\<rparr>"
  have t: "timer_ok T2" "p \<notin> set (t_ids T2)" "p \<notin> set (q_entry (t_Execs T2))" "p \<in> set (t_Live T2)"
    using timer_ok_taken [OF ok, of p T2] ids b same by (simp_all add: T2_def)
  define m where "m = (t_Mem T2)(p := (t_Mem T2 p)\<lparr>e_Fired := Now, e_Mode := TE_PERFORMER\<rparr>)"
  have f: "fire Now p T1 = (T2\<lparr>t_Mem := m\<rparr>)\<lparr>t_Execs := snd (QueuePost (t_Execs T2) p)\<rparr>"
    by (simp add: fire_def Let_def set_event_def m_def T2_def)
  have "timer_ok (T2\<lparr>t_Mem := m\<rparr>)"
    by (rule timer_ok_mem [OF t(1)]) (use t(1,2) in \<open>auto simp: m_def timer_ok_def\<close>)
  then have "timer_ok ((T2\<lparr>t_Mem := m\<rparr>)\<lparr>t_Execs := snd (QueuePost (t_Execs (T2\<lparr>t_Mem := m\<rparr>)) p)\<rparr>)"
    by (rule timer_ok_post) (use t in simp_all)
  then show "timer_ok (fire Now p T1)" using f by simp
  have "q_max (t_Execs T) = 0" using ok by (simp add: timer_ok_def)
  then show "t_ids (fire Now p T1) = ps" "q_entry (t_Execs (fire Now p T1)) = q_entry (t_Execs T) @ [p]"
    "t_Live (fire Now p T1) = t_Live T" "t_BTREE (fire Now p T1) = t_BTREE T" "due N (fire Now p T1) = due N T"
    "t_Events (fire Now p T1) = t_Events T1" "t_BTree (fire Now p T1) = t_BTree T1"
    "t_Mem (fire Now p T1) = (t_Mem T)(p := (t_Mem T p)\<lparr>e_Fired := Now, e_Mode := TE_PERFORMER\<rparr>)"
    using ids b same by (auto simp: f T2_def m_def QueuePost_unbounded due_def fun_eq_iff)
qed

text \<open>The events that are due and come first, and what becomes of them.\<close>

definition fired :: "timespec \<Rightarrow> u64 list \<Rightarrow> u64 list \<Rightarrow> Timer_t \<Rightarrow> Timer_t \<Rightarrow> bool" where
  "fired Now ps qs T T' \<longleftrightarrow> timer_ok T' \<and> t_ids T' = qs \<and> q_entry (t_Execs T') = q_entry (t_Execs T) @ ps \<and>
     t_Live T' = t_Live T \<and> t_BTREE T' = t_BTREE T \<and>
     t_Mem T' = (\<lambda>p. if p \<in> set ps then (t_Mem T p)\<lparr>e_Fired := Now, e_Mode := TE_PERFORMER\<rparr> else t_Mem T p)"

lemma fired_none: "timer_ok T \<Longrightarrow> fired Now [] (t_ids T) T T"
  by (simp add: fired_def)

lemma fired_next:
  assumes "fired Now ps qs T1 T'" and "q_entry (t_Execs T1) = q_entry (t_Execs T) @ [p]" and "t_Live T1 = t_Live T" and "t_BTREE T1 = t_BTREE T"
    and "t_Mem T1 = (t_Mem T)(p := (t_Mem T p)\<lparr>e_Fired := Now, e_Mode := TE_PERFORMER\<rparr>)"
  shows "fired Now (p # ps) qs T T'"
  using assms by (auto simp: fired_def fun_eq_iff)

lemma fire_list_ok:
  assumes "timer_ok T" and "\<not> t_BTREE T" and "t_Events T = ps"
  shows "fired Now (takeWhile (due Now T) ps) (dropWhile (due Now T) ps) T (fire_list Now ps T)"
  using assms
proof (induction ps arbitrary: T)
  case Nil
  then show ?case using fired_none [OF Nil(1), of Now] by (simp add: t_ids_def)
next
  case (Cons p ps)
  show ?case
  proof (cases "due Now T p")
    case True
    define T1 where "T1 = T\<lparr>t_Events := remove1 p (t_Events T)\<rparr>"
    have ids: "t_ids T = p # ps" "t_ids T1 = ps" using Cons.prems by (simp_all add: t_ids_def T1_def)
    have "t_BTREE T1 = t_BTREE T" "t_Hash T1 = t_Hash T" "t_Live T1 = t_Live T" "t_Execs T1 = t_Execs T" "t_Mem T1 = t_Mem T"
      by (simp_all add: T1_def)
    note f = fire_ok [OF Cons.prems(1) ids this(1) _ this(2-), of Now]
    have nb: "\<not> t_BTREE T" by (rule Cons.prems(2))
    have ev: "t_Events (fire Now p T1) = ps" using f(7) nb Cons.prems(3) by (simp add: T1_def)
    have "fired Now (takeWhile (due Now (fire Now p T1)) ps) (dropWhile (due Now (fire Now p T1)) ps) (fire Now p T1) (fire_list Now ps (fire Now p T1))"
      by (rule Cons.IH) (use f nb ev in simp_all)
    then have "fired Now (p # takeWhile (due Now T) ps) (dropWhile (due Now T) ps) T (fire_list Now ps (fire Now p T1))"
      using fired_next f nb by simp
    moreover have "fire_list Now (p # ps) T = fire_list Now ps (fire Now p T1)" using True by (simp add: due_def T1_def)
    ultimately show ?thesis using True by simp
  next
    case False
    then show ?thesis using fired_none [OF Cons.prems(1), of Now] Cons.prems(2,3) by (simp add: t_ids_def due_def)
  qed
qed

lemma fire_tree_ok:
  assumes "timer_ok T" and "t_BTREE T" and "length (t_ids T) \<le> n"
  shows "\<exists>T'. fire_tree n Now C T = Some T' \<and> fired Now (takeWhile (due Now T) (t_ids T)) (dropWhile (due Now T) (t_ids T)) T T'"
  using assms
proof (induction n arbitrary: T C)
  case (0 T C)
  have t: "tree_ok (t_BTree T)" "tree_keys (t_BTree T) = []" using 0 by (simp_all add: timer_ok_def t_ids_def)
  have "BTCHead (t_BTree T) C = Some (-1, C\<lparr>c_pPage := None, c_zIndex := 0\<rparr>)" using BTCHead_ok [OF t(1), of C] t(2) by simp
  then show ?case using fired_none [OF 0(1), of Now] 0(3) by (simp add: fire_tree.simps [of 0])
next
  case (Suc n T C)
  have ids: "tree_keys (t_BTree T) = t_ids T" using Suc.prems(2) by (simp add: t_ids_def)
  have t: "tree_ok (t_BTree T)" "ordered (t_cmp T) (tree_keys (t_BTree T))" using Suc.prems(1,2) ids by (simp_all add: timer_ok_def)
  note hd = BTCHead_ok [OF t(1), of C]
  show ?case
  proof (cases "t_ids T")
    case Nil
    then have "BTCHead (t_BTree T) C = Some (-1, C\<lparr>c_pPage := None, c_zIndex := 0\<rparr>)" using hd ids by simp
    then show ?thesis using fired_none [OF Suc.prems(1), of Now] Nil by (simp add: fire_tree.simps [of "Suc n"])
  next
    case (Cons p ps)
    then obtain C1 where C1: "BTCHead (t_BTree T) C = Some (0, C1)" "cursor_at (t_BTree T) 0 C1" using hd ids by auto
    have k: "c_pKey C1 = Some p" using cursor_at_key [OF C1(2) t(1)] ids Cons by simp
    show ?thesis
    proof (cases "due Now T p")
      case False
      then have "fire_tree (Suc n) Now C T = Some T" using C1(1) k by (simp add: fire_tree.simps [of "Suc n"] due_def)
      then show ?thesis using fired_none [OF Suc.prems(1), of Now] Cons False by simp
    next
      case True
      obtain tree C2 where d: "BTCDelete (t_cmp T) (t_BTree T) C1 = Some (0, tree, C2)" "tree_ok tree" "tree_keys tree = ps"
        using timeouts.deletes_at [OF t C1(2)] ids Cons by auto
      define T1 where "T1 = T\<lparr>t_BTree := tree\<rparr>"
      have i: "t_ids T1 = ps" using Suc.prems(2) d(3) by (simp add: t_ids_def T1_def)
      have b: "t_BTREE T1 = t_BTREE T" "tree_ok (t_BTree T1)" "t_Hash T1 = t_Hash T" "t_Live T1 = t_Live T" "t_Execs T1 = t_Execs T" "t_Mem T1 = t_Mem T"
        using d(2) by (simp_all add: T1_def)
      note f = fire_ok [OF Suc.prems(1) Cons i b, of Now]
      obtain T' where T': "fire_tree n Now C2 (fire Now p T1) = Some T'"
        "fired Now (takeWhile (due Now T) ps) (dropWhile (due Now T) ps) (fire Now p T1) T'"
        using Suc.IH [OF f(1), of C2] f(2,5,6) Suc.prems(2,3) Cons by auto
      have "fire_tree (Suc n) Now C T = Some T'" using C1(1) k True d(1) T'(1) by (simp add: fire_tree.simps [of "Suc n"] due_def T1_def)
      moreover have "fired Now (p # takeWhile (due Now T) ps) (dropWhile (due Now T) ps) T T'" using fired_next [OF T'(2) f(3,4,5,9)] .
      ultimately show ?thesis using Cons True by simp
    qed
  qed
qed

lemma timer_expires_ok:
  assumes ok: "timer_ok T"
  shows "\<exists>T'. timer_expires Now T = Some T' \<and> fired Now (filter (due Now T) (t_ids T)) (filter (\<lambda>p. \<not> due Now T p) (t_ids T)) T T'"
proof -
  note p = parted_filter [OF due_parted [OF ok, of Now]]
  show ?thesis
  proof (cases "t_BTREE T")
    case True
    then have "length (t_ids T) \<le> tree_size (t_BTree T)" using ok tree_size_keys [of "t_BTree T"] by (auto simp: timer_ok_def t_ids_def)
    from fire_tree_ok [OF ok True this, of Now BTCursorOpen] show ?thesis using True p by (simp add: timer_expires_def)
  next
    case False
    then show ?thesis using fire_list_ok [OF ok False refl, of Now] p by (simp add: timer_expires_def t_ids_def)
  qed
qed

section \<open>The other steps\<close>

lemma timer_first_ok: "timer_ok T \<Longrightarrow> timer_first T = Some (case t_ids T of [] \<Rightarrow> None | p # ps \<Rightarrow> Some p)"
proof (cases "t_BTREE T")
  case True
  assume ok: "timer_ok T"
  have ids: "tree_keys (t_BTree T) = t_ids T" using True by (simp add: t_ids_def)
  have t: "tree_ok (t_BTree T)" using ok True by (simp add: timer_ok_def)
  note hd = BTCHead_ok [OF t, of BTCursorOpen]
  show ?thesis
  proof (cases "t_ids T")
    case Nil
    then show ?thesis using hd ids True by (simp add: timer_first_def)
  next
    case (Cons p ps)
    then obtain C1 where "BTCHead (t_BTree T) BTCursorOpen = Some (0, C1)" "cursor_at (t_BTree T) 0 C1" using hd ids by auto
    then show ?thesis using cursor_at_key [OF _ t] ids Cons True by (simp add: timer_first_def)
  qed
qed (simp add: timer_first_def t_ids_def)

lemma timer_waits_ok:
  assumes ok: "timer_ok T"
  shows "\<exists>x T'. timer_waits T = Some (x, T') \<and> timer_ok T' \<and> t_ids T' = t_ids T \<and> x = (case t_ids T of [] \<Rightarrow> None | p # ps \<Rightarrow> Some p) \<and>
    t_OnOff T' = (t_ids T \<noteq> []) \<and> (\<forall>p. x = Some p \<longrightarrow> t_Timeout T' = e_Timeout (t_Mem T' p) \<and> (\<forall>q \<in> set (t_ids T'). t_cmp T' p q \<le> 0))"
proof (cases "t_ids T")
  case Nil
  have "timer_ok (T\<lparr>t_OnOff := False\<rparr>)" using ok by (simp add: timer_ok_def)
  then show ?thesis using timer_first_ok [OF ok] Nil by (simp add: timer_waits_def)
next
  case (Cons p ps)
  define T1 where "T1 = T\<lparr>t_OnOff := True, t_Timeout := e_Timeout (t_Mem T p)\<rparr>"
  define m where "m = (t_Mem T1)(p := (t_Mem T1 p)\<lparr>e_Mode := TE_HEAD\<rparr>)"
  have T1: "timer_ok T1" "t_ids T1 = t_ids T" using ok by (simp_all add: timer_ok_def T1_def)
  have "timer_ok (T1\<lparr>t_Mem := m\<rparr>)" by (rule timer_ok_mem [OF T1(1)]) (use T1(1) in \<open>auto simp: m_def timer_ok_def\<close>)
  moreover have "timer_waits T = Some (Some p, T1\<lparr>t_Mem := m\<rparr>)"
    using timer_first_ok [OF ok] Cons by (simp add: timer_waits_def set_event_def T1_def m_def)
  moreover have "\<forall>q \<in> set (t_ids T). t_cmp (T1\<lparr>t_Mem := m\<rparr>) p q \<le> 0"
    using \<open>timer_ok (T1\<lparr>t_Mem := m\<rparr>)\<close> Cons T1(2) timeouts.same [of m p] by (auto simp: timer_ok_def)
  ultimately show ?thesis using Cons T1(2) by (simp add: T1_def m_def)
qed

lemma timer_woken_ok:
  assumes ok: "timer_ok T"
  shows "timer_ok (timer_woken p T)" and "t_ids (timer_woken p T) = t_ids T"
proof -
  define T1 where "T1 = T\<lparr>t_Hash := snd (HashGet (t_Hash T) p)\<rparr>"
  have T1: "timer_ok T1" using timer_ok_get [OF ok] by (simp add: T1_def)
  have "timer_woken p T = (if p \<in> set (t_ids T) then T1\<lparr>t_Mem := (t_Mem T1)(p := (t_Mem T1 p)\<lparr>e_Mode := TE_TIMER\<rparr>)\<rparr> else T1)"
    using HashGet_event [OF ok, of p] by (cases "HashGet (t_Hash T) p") (auto simp: timer_woken_def Let_def set_event_def T1_def)
  moreover have "timer_ok (T1\<lparr>t_Mem := (t_Mem T1)(p := (t_Mem T1 p)\<lparr>e_Mode := TE_TIMER\<rparr>)\<rparr>)"
    by (rule timer_ok_mem [OF T1]) (use T1 in \<open>auto simp: timer_ok_def\<close>)
  ultimately show "timer_ok (timer_woken p T)" "t_ids (timer_woken p T) = t_ids T" using T1 by (auto simp: T1_def)
qed

section \<open>Stopping\<close>

lemma TimerCancel_active: "TimerCancel p T = Some (a, sig, T') \<Longrightarrow> t_Active T' = t_Active T"
  by (auto simp: TimerCancel_def Let_def TimerEventFree_def split: prod.splits if_splits bind_splits)

definition times_apart :: "Timer_t \<Rightarrow> bool" where
  "times_apart T \<longleftrightarrow> (t_BTREE T \<longrightarrow> (\<forall>p \<in> set (t_ids T). \<forall>q \<in> set (t_ids T). t_cmp T p q = 0 \<longrightarrow> p = q))"

lemma taken_out_apart: "timer_ok T \<Longrightarrow> times_apart T \<Longrightarrow> p \<in> set (t_ids T) \<Longrightarrow> taken_out T p = p"
  using BTDelete_event(2,3) [of T p] by (auto simp: taken_out_def times_apart_def)

lemma HashIsExist_from_item:
  "case HashIsExist_from i cs of
     None \<Rightarrow> \<forall>c \<in> set cs. c = []
   | Some it \<Rightarrow> \<exists>j < length cs. it = (i + j, 0) \<and> cs ! j \<noteq> []"
proof (induction i cs rule: HashIsExist_from.induct)
  case (2 i c cs)
  show ?case
  proof (cases "c = []")
    case True
    then show ?thesis using 2 by (auto split: option.splits intro: exI [of _ "Suc _"])
  qed (auto intro: exI [of _ 0])
qed simp

lemma table_item:
  assumes ok: "timer_ok T"
  shows "case HashIsExist (t_Hash T) of None \<Rightarrow> t_ids T = [] | Some it \<Rightarrow> HASH_VALUE (t_Hash T) it \<in> set (t_ids T)"
proof (cases "HashIsExist (t_Hash T)")
  case None
  then have e: "\<forall>c \<in> set (h_aHeads (t_Hash T)). c = []" using HashIsExist_from_item [of "h_aHeads (t_Hash T)" 0] by (simp add: HashIsExist_def)
  have k: "keyed_table ucast HashCompare_PNT (t_Hash T)" using ok by (simp add: timer_ok_def)
  have "hash_queue (t_Hash T) p = []" for p using e nth_mem [OF event_table.bound [OF k, of p]] by (auto simp: hash_queue_def)
  then have "t_ids T = []" using ok unfolding timer_ok_def by (metis list.set_intros(1) neq_Nil_conv)
  then show ?thesis using None by simp
next
  case (Some it)
  then obtain i where i: "i < length (h_aHeads (t_Hash T))" "it = (i, 0)" "h_aHeads (t_Hash T) ! i \<noteq> []"
    using HashIsExist_from_item [of "h_aHeads (t_Hash T)" 0] by (auto simp: HashIsExist_def)
  obtain k v kvs where kv: "h_aHeads (t_Hash T) ! i = (k, v) # kvs" using i(3) by (metis list.exhaust surj_pair)
  have t: "keyed_table ucast HashCompare_PNT (t_Hash T)" using ok by (simp add: timer_ok_def)
  then have "HashCode (t_Hash T) k = i" using i(1) kv by (force simp: keyed_table_def chained_def)
  then have "v \<in> set (hash_queue (t_Hash T) k)" using kv t by (simp add: hash_queue_def keyed_table_def)
  then have "v \<in> set (t_ids T)" using ok by (auto simp: timer_ok_def split: if_splits)
  then show ?thesis using Some i(2) kv by (simp add: HASH_VALUE_def)
qed

lemma TimerPurge_ok:
  assumes "timer_ok T" and "times_apart T" and "length (t_ids T) \<le> n"
  shows "\<exists>T'. TimerPurge n T = Some T' \<and> timer_ok T' \<and> t_ids T' = [] \<and> set (t_Live T') = set (t_Live T) - set (t_ids T) \<and>
    t_Execs T' = t_Execs T \<and> t_Active T' = t_Active T \<and> t_BTREE T' = t_BTREE T"
  using assms
proof (induction n arbitrary: T)
  case 0
  have "HashIsExist (t_Hash T) = None" using table_item [OF 0(1)] 0(3) by (auto split: option.splits)
  then show ?case using 0 by (simp add: TimerPurge.simps [of 0])
next
  case (Suc n)
  show ?case
  proof (cases "HashIsExist (t_Hash T)")
    case None
    then have "t_ids T = []" using table_item [OF Suc.prems(1)] by simp
    then show ?thesis using None Suc.prems(1) by (simp add: TimerPurge.simps [of "Suc n"])
  next
    case (Some it)
    define p where "p = HASH_VALUE (t_Hash T) it"
    have p: "p \<in> set (t_ids T)" using table_item [OF Suc.prems(1)] Some by (simp add: p_def)
    obtain T1 where T1: "TimerCancel p T = Some (e_pArg (t_Mem T p), e_Mode (t_Mem T p) = TE_HEAD, T1)" "timer_ok T1"
      "t_ids T1 = remove1 p (t_ids T)" "t_Live T1 = remove1 p (t_Live T)" "t_Execs T1 = t_Execs T" "t_Mem T1 = t_Mem T" "t_BTREE T1 = t_BTREE T"
      using TimerCancel_ok [OF Suc.prems(1) p taken_out_apart [OF Suc.prems(1,2) p]] by blast
    have d: "distinct (t_ids T)" "distinct (t_Live T)" using Suc.prems(1) by (simp_all add: timer_ok_def)
    have "times_apart T1" using Suc.prems(2) d T1(3,6,7) by (simp add: times_apart_def)
    moreover have "length (t_ids T1) \<le> n" using Suc.prems(3) p T1(3) by (simp add: length_remove1)
    ultimately obtain T' where T': "TimerPurge n T1 = Some T'" "timer_ok T'" "t_ids T' = []" "set (t_Live T') = set (t_Live T1) - set (t_ids T1)"
      "t_Execs T' = t_Execs T1" "t_Active T' = t_Active T1" "t_BTREE T' = t_BTREE T1" using Suc.IH [OF T1(2)] by blast
    have "t_Active T1 = t_Active T" using TimerCancel_active [OF T1(1)] .
    moreover have "set (t_Live T1) - set (t_ids T1) = set (t_Live T) - set (t_ids T)"
      using d p T1(3,4) by auto
    ultimately show ?thesis using Some T1(1,5,7) T' by (simp add: TimerPurge.simps [of "Suc n"] flip: p_def)
  qed
qed

lemma TimerStop_ok:
  assumes ok: "timer_ok T" and "times_apart T"
  shows "\<exists>T'. TimerStop T = Some T' \<and> timer_ok T' \<and> t_ids T' = [] \<and> set (t_Live T') = set (t_Live T) - set (t_ids T) \<and>
    q_entry (t_Execs T') = q_entry (t_Execs T) \<and> q_abrt (t_Execs T') = -9 \<and> \<not> t_Active T' \<and> t_BTREE T' = t_BTREE T"
proof -
  have "timer_ok (TimerDisable T)" "times_apart (TimerDisable T)" "t_ids (TimerDisable T) = t_ids T"
    using assms by (simp_all add: TimerDisable_def timer_ok_def times_apart_def)
  moreover have "length (t_ids T) \<le> length (t_Live T)" using ok unfolding timer_ok_def by (metis card_mono distinct_card finite_set)
  ultimately obtain T' where T': "TimerPurge (length (t_Live T)) (TimerDisable T) = Some T'" "timer_ok T'" "t_ids T' = []"
    "set (t_Live T') = set (t_Live (TimerDisable T)) - set (t_ids T)" "t_Execs T' = t_Execs (TimerDisable T)" "t_Active T' = t_Active (TimerDisable T)"
    "t_BTREE T' = t_BTREE (TimerDisable T)"
    using TimerPurge_ok by metis
  then show ?thesis by (simp add: TimerStop_def QueueAbort_def TimerDisable_def timer_ok_def)
qed

section \<open>Runs of a timer with a list\<close>

definition busy_ok :: "Timer_t \<Rightarrow> u64 option \<Rightarrow> bool" where
  "busy_ok T w \<longleftrightarrow> (\<forall>p. w = Some p \<longrightarrow> p \<in> set (t_Live T) \<and> p \<notin> set (t_ids T) \<and> p \<notin> set (q_entry (t_Execs T)))"

lemma performer_takes_ok:
  assumes ok: "timer_ok T" and t: "performer_takes Now T = Some (p, T')"
  shows "timer_ok T'" and "busy_ok T' (Some p)" and "t_BTREE T' = t_BTREE T"
proof -
  obtain ps where ps: "q_entry (t_Execs T) = p # ps" using t by (auto simp: performer_takes_def split: list.splits)
  define T1 where "T1 = T\<lparr>t_Execs := (t_Execs T)\<lparr>q_entry := ps, q_cnt := q_cnt (t_Execs T) - 1\<rparr>\<rparr>"
  have np: "p \<notin> set (t_ids T)" "p \<notin> set ps" "p \<in> set (t_Live T)" using ok ps by (auto simp: timer_ok_def)
  have T': "T' = T1\<lparr>t_Mem := (t_Mem T1)(p := (t_Mem T1 p)\<lparr>e_Exec := Now\<rparr>)\<rparr>"
    using t ps by (simp add: performer_takes_def set_event_def T1_def)
  have "timer_ok T1" using ok ps by (auto simp: timer_ok_def T1_def)
  then show "timer_ok T'" unfolding T' by (rule timer_ok_mem) (use np ok in \<open>auto simp: timer_ok_def T1_def\<close>)
  show "busy_ok T' (Some p)" "t_BTREE T' = t_BTREE T" using np by (simp_all add: busy_ok_def T' T1_def)
qed

lemma list_apart: "\<not> t_BTREE T \<Longrightarrow> times_apart T" "\<not> t_BTREE T \<Longrightarrow> taken_out T p = p"
  by (simp_all add: times_apart_def taken_out_def)

lemma cancel_step:
  assumes ok: "timer_ok T" and l: "\<not> t_BTREE T" and w: "busy_ok T w" and c: "TimerCancel p T = Some (a, sig, T')"
  shows "timer_ok T' \<and> \<not> t_BTREE T' \<and> busy_ok T' w"
proof (cases "p \<in> set (t_ids T)")
  case True
  have "distinct (t_ids T)" "distinct (t_Live T)" using ok by (simp_all add: timer_ok_def)
  then show ?thesis using TimerCancel_ok [OF ok True list_apart(2) [OF l]] c l w True by (auto simp: busy_ok_def)
next
  case False
  then have "T' = T\<lparr>t_Hash := snd (HashGet (t_Hash T) p)\<rparr>" using TimerCancel_absent [OF ok False] c by simp
  then show ?thesis using timer_ok_get [OF ok] l w by (simp add: busy_ok_def)
qed

lemma timer_waits_fields:
  assumes "timer_waits T = Some (x, T')"
  shows "t_BTREE T' = t_BTREE T" and "t_Live T' = t_Live T" and "t_Execs T' = t_Execs T"
  using assms by (auto simp: timer_waits_def set_event_def split: bind_splits option.splits)

lemma timer_woken_fields:
  "t_BTREE (timer_woken p T) = t_BTREE T" "t_Live (timer_woken p T) = t_Live T" "t_Execs (timer_woken p T) = t_Execs T"
  by (simp_all add: timer_woken_def Let_def set_event_def split: prod.split)

lemma timer_step_ok:
  assumes "timer_step (T, w) (T', w')" and ok: "timer_ok T" and l: "\<not> t_BTREE T" and w: "busy_ok T w"
  shows "timer_ok T' \<and> \<not> t_BTREE T' \<and> busy_ok T' w'"
  using assms(1)
proof (rule timer_stepE)
  fix p Now ms f a sig
  assume s: "w' = w" "p \<notin> set (t_Live T)" "TimerSet Now p ms f a T = (sig, T')"
  show ?thesis using TimerSet_ok [OF ok s(2,3)] TimerSet_state(3-5) [OF s(3)] s(1,2) l w by (auto simp: busy_ok_def)
next
  fix p a sig
  assume "w' = w" "TimerCancel p T = Some (a, sig, T')"
  then show ?thesis using cancel_step [OF ok l w] by simp
next
  assume "w' = w" "TimerStop T = Some T'"
  then show ?thesis using TimerStop_ok [OF ok list_apart(1) [OF l]] l w by (auto simp: busy_ok_def)
next
  fix x
  assume "w' = w" "timer_waits T = Some (x, T')"
  then show ?thesis using timer_waits_ok [OF ok] timer_waits_fields l w by (auto simp: busy_ok_def)
next
  fix p
  assume "T' = timer_woken p T" "w' = w"
  then show ?thesis using timer_woken_ok [OF ok, of p] timer_woken_fields [of p T] l w by (auto simp: busy_ok_def)
next
  fix Now
  assume "w' = w" "timer_expires Now T = Some T'"
  then show ?thesis using timer_expires_ok [OF ok, of Now] l w by (auto simp: busy_ok_def fired_def)
next
  fix Now p
  assume "w = None" "w' = Some p" "performer_takes Now T = Some (p, T')"
  then show ?thesis using performer_takes_ok [OF ok] l by simp
next
  fix p
  assume "w = Some p" "T' = TimerEventFree p T" "w' = None"
  then show ?thesis using timer_ok_free [OF ok, of p] l w by (auto simp: busy_ok_def TimerEventFree_def)
next
  assume "T' = TimerEnable T" "w' = w"
  then show ?thesis using ok l w by (auto simp: busy_ok_def TimerEnable_def timer_ok_def)
qed

lemma timer_run_ok:
  assumes "timer_step\<^sup>*\<^sup>* (TimerInit False n mem, None) (T, w)" and n: "0 < n"
  shows "timer_ok T \<and> \<not> t_BTREE T \<and> busy_ok T w"
proof -
  have "case x of (T, w) \<Rightarrow> timer_ok T \<and> \<not> t_BTREE T \<and> busy_ok T w" if "timer_step\<^sup>*\<^sup>* (TimerInit False n mem, None) x" for x
    using that
  proof (induction rule: rtranclp_induct)
    case base
    then show ?case using timer_ok_Init [OF n, of False mem] by (simp add: busy_ok_def TimerInit_def)
  next
    case (step y z)
    then show ?case using timer_step_ok by (cases y; cases z) fastforce
  qed
  from this [OF assms(1)] show ?thesis by simp
qed

end
