(* ===== verification/Tree_Properties.thy ===== *)
theory Tree_Properties
  imports Timer_Fires
begin

text \<open>
  What the B-tree and the timer promise, with examples: trees of addresses, and timers with two events.
\<close>

section \<open>Examples\<close>

abbreviation address_cmp :: "nat \<Rightarrow> nat \<Rightarrow> int" where
  "address_cmp \<equiv> BTI_CMP None"

definition address_tree :: "nat list \<Rightarrow> nat BTree_t" where
  "address_tree ks = fold (BTInsert address_cmp) ks (BTreeInit 1)"

lemma address_tree_ok: "tree_ok (address_tree ks)" "ordered address_cmp (tree_keys (address_tree ks))"
  "tree_keys (address_tree ks) = fold (\<lambda>k. put_key (\<lambda>x. x < k) k) ks []"
proof -
  have "tree_ok (fold (BTInsert address_cmp) ks T) \<and> ordered address_cmp (tree_keys (fold (BTInsert address_cmp) ks T)) \<and>
      tree_keys (fold (BTInsert address_cmp) ks T) = fold (\<lambda>k. put_key (\<lambda>x. x < k) k) ks (tree_keys T)"
    if "tree_ok T" "ordered address_cmp (tree_keys T)" for T
    using that
  proof (induction ks arbitrary: T)
    case (Cons k ks)
    have E: "tree_keys (BTInsert address_cmp k T) = put_key (\<lambda>x. x < k) k (tree_keys T)"
      using addresses.insert_keeps(3) [OF Cons.prems, of k] by (simp add: BTI_CMP_def)
    show ?case unfolding fold_Cons o_apply E [symmetric] by (rule Cons.IH [OF addresses.insert_keeps(1,2) [OF Cons.prems]])
  qed simp
  note fold_ok = this
  have init: "tree_ok (BTreeInit 1 :: nat BTree_t)" "tree_keys (BTreeInit 1 :: nat BTree_t) = []" using tree_ok_Init [of 1, where 'k = nat] by simp_all
  have "ordered address_cmp (tree_keys (BTreeInit 1))" unfolding init by simp
  note P = fold_ok [OF init(1) this, folded address_tree_def, unfolded init(2)]
  show "tree_ok (address_tree ks)" "ordered address_cmp (tree_keys (address_tree ks))"
    "tree_keys (address_tree ks) = fold (\<lambda>k. put_key (\<lambda>x. x < k) k) ks []"
    using P by blast+
qed

abbreviation clock :: "int \<Rightarrow> timespec" where
  "clock s \<equiv> \<lparr>tv_sec = s, tv_nsec = 0\<rparr>"

definition no_event :: "u64 \<Rightarrow> TimerEvent_t" where
  "no_event p = \<lparr>e_Mode = TE_TIMER, e_MS = 0, e_fEvent = 0, e_pArg = 0, e_Registered = timespec_zero, e_Fired = timespec_zero,
     e_Exec = timespec_zero, e_Timeout = timespec_zero\<rparr>"

text \<open>Two events of one second each, set at the same time.\<close>

definition timer_one :: "bool \<Rightarrow> Timer_t" where
  "timer_one b = snd (TimerSet (clock 5) 16 1000 1 7 (TimerInit b 2 no_event))"

definition timer_two :: "bool \<Rightarrow> Timer_t" where
  "timer_two b = snd (TimerSet (clock 5) 32 1000 1 9 (timer_one b))"

lemma timer_one_state: "timer_ok (timer_one b)" "t_ids (timer_one b) = [16]" "t_Live (timer_one b) = [16]" "t_BTREE (timer_one b) = b"
  "t_Mem (timer_one b) = no_event(16 := (no_event 16)\<lparr>e_fEvent := 1, e_pArg := 7, e_MS := 1000, e_Registered := clock 5, e_Timeout := clock 6\<rparr>)"
  "q_entry (t_Execs (timer_one b)) = []"
proof -
  obtain s where s: "TimerSet (clock 5) 16 1000 1 7 (TimerInit b 2 no_event) = (s, timer_one b)" by (metis timer_one_def prod.collapse)
  have ok: "timer_ok (TimerInit b 2 no_event)" by (rule timer_ok_Init) simp
  have i: "t_ids (TimerInit b 2 no_event) = []" by (simp add: t_ids_def TimerInit_def tree_keys_def BTreeInit_def)
  show "timer_ok (timer_one b)" "t_ids (timer_one b) = [16]"
    using TimerSet_ok [OF ok _ s] i by (simp_all add: TimerInit_def put_key_def)
  show "t_Live (timer_one b) = [16]" "t_BTREE (timer_one b) = b" "q_entry (t_Execs (timer_one b)) = []"
    "t_Mem (timer_one b) = no_event(16 := (no_event 16)\<lparr>e_fEvent := 1, e_pArg := 7, e_MS := 1000, e_Registered := clock 5, e_Timeout := clock 6\<rparr>)"
    using TimerSet_state [OF s] by (simp_all add: TimerInit_def QueueInit_def no_event_def TIMEOUT_def Let_def fun_eq_iff)
qed

lemma timer_two_state: "timer_ok (timer_two b)" "t_ids (timer_two b) = [32, 16]" "t_BTREE (timer_two b) = b"
  "t_cmp (timer_two b) 32 16 = 0" "e_Timeout (t_Mem (timer_two b) 16) = clock 6" "e_Timeout (t_Mem (timer_two b) 32) = clock 6"
  "q_entry (t_Execs (timer_two b)) = []"
proof -
  obtain s where s: "TimerSet (clock 5) 32 1000 1 9 (timer_one b) = (s, timer_two b)" by (metis timer_two_def prod.collapse)
  note one = timer_one_state [of b]
  show mem: "e_Timeout (t_Mem (timer_two b) 16) = clock 6" "e_Timeout (t_Mem (timer_two b) 32) = clock 6"
    using TimerSet_state(1) [OF s] one(5) by (simp_all add: TIMEOUT_def Let_def)
  show "timer_ok (timer_two b)" using TimerSet_ok(1) [OF one(1) _ s] one(3) by simp
  show "t_cmp (timer_two b) 32 16 = 0" by (simp add: TimerEventCompare_def mem TIMESPECCOMPARE_def)
  have "t_cmp (timer_two b) 16 32 = 0" by (simp add: TimerEventCompare_def mem TIMESPECCOMPARE_def)
  then show "t_ids (timer_two b) = [32, 16]" using TimerSet_ok(2) [OF one(1) _ s] one(2,3) by (simp add: put_key_def)
  show "t_BTREE (timer_two b) = b" "q_entry (t_Execs (timer_two b)) = []" using TimerSet_state(4,5) [OF s] one(4,6) by simp_all
qed

section \<open>The B-tree\<close>

text \<open>
  C23: insertion into a tree in order keeps the tree balanced and in order, and puts the key behind all keys that are
  less and before the others, its equals included.
\<close>

theorem BTInsert_keeps_the_order:
  assumes "compare cmp" and "tree_ok T" and "ordered cmp (tree_keys T)"
  shows "tree_ok (BTInsert cmp k T) \<and> ordered cmp (tree_keys (BTInsert cmp k T)) \<and>
    tree_keys (BTInsert cmp k T) = takeWhile (\<lambda>x. cmp x k < 0) (tree_keys T) @ k # dropWhile (\<lambda>x. cmp x k < 0) (tree_keys T)"
  using compare.insert_keeps [OF assms, of k] by (simp add: put_key_def)

theorem BTInsert_keeps_the_order_witness:
  "tree_keys (BTInsert address_cmp 25 (address_tree [20, 40, 10, 30])) = [10, 20, 25, 30, 40]"
  using BTInsert_keeps_the_order [OF addresses.compare_axioms address_tree_ok(1,2), of 25 "[20, 40, 10, 30]"]
  by (simp add: address_tree_ok(3) put_key_def BTI_CMP_def)

text \<open>
  C29: a split of a full page is the page with the new item in it, cut in its middle: \<open>n\<close> items on each side and the one
  between them, with their pages, in the same order.
\<close>

theorem split_is_a_cut:
  assumes "length (p_apPages p) = Suc (p_M p)" and "p_M p = 2 * n" and "0 < n" and "R \<le> 2 * n"
    and "is = take R (p_aItems p) @ V # drop R (p_aItems p)" and "cs = take R (p_apPages p) @ pL # pR # drop (R + 1) (p_apPages p)"
  shows "split n p R V pR pL = (BTPage (take n is) (take (n + 1) cs), is ! n, BTPage (drop (n + 1) is) (drop (n + 1) cs))"
  using split_cuts [of p n R V pR pL] assms by (simp add: fits_items_length cut_page_def widened_def)

theorem split_is_a_cut_witness:
  "split 1 (BTPage [10, 30 :: nat] [None, None, None]) 1 20 None None = (BTPage [10] [None, None], 20, BTPage [30] [None, None])"
  using split_is_a_cut [of "BTPage [10, 30 :: nat] [None, None, None]" 1 1 "[10, 20, 30]" 20 "[None, None, None, None]" None None]
  by simp

text \<open>
  C24: deletion at a cursor takes exactly the key at the cursor out of the tree, which stays balanced; the cursor then
  stands before the first key that is equal to the one that was next.
\<close>

theorem BTCDelete_takes_the_key:
  assumes "compare cmp" and "tree_ok T" and "ordered cmp (tree_keys T)" and "cursor_at T r C"
  shows "\<exists>T' C'. BTCDelete cmp T C = Some (0, T', C') \<and> tree_ok T' \<and>
    tree_keys T' = take r (tree_keys T) @ drop (Suc r) (tree_keys T) \<and>
    next_at T' (if Suc r < length (tree_keys T)
      then length (takeWhile (\<lambda>x. cmp x (tree_keys T ! Suc r) < 0) (tree_keys T')) else r) C'"
  using compare.deletes_at [OF assms] by blast

theorem BTCDelete_takes_the_key_witness:
  "\<exists>C T' C'. BTCHead (address_tree [20, 40, 10, 30]) BTCursorOpen = Some (0, C) \<and>
    BTCDelete address_cmp (address_tree [20, 40, 10, 30]) C = Some (0, T', C') \<and> tree_ok T' \<and> tree_keys T' = [20, 30, 40] \<and> next_at T' 0 C'"
proof -
  let ?T = "address_tree [20, 40, 10, 30]"
  have ks: "tree_keys ?T = [10, 20, 30, 40]" by (simp add: address_tree_ok(3) put_key_def)
  obtain C where C: "BTCHead ?T BTCursorOpen = Some (0, C)" "cursor_at ?T 0 C"
    using BTCHead_ok [OF address_tree_ok(1), of "[20, 40, 10, 30]" BTCursorOpen] ks by auto
  show ?thesis
    using BTCDelete_takes_the_key [OF addresses.compare_axioms address_tree_ok(1,2) C(2)] C(1) ks by (auto simp: BTI_CMP_def)
qed

text \<open>
  C28: the searches for the bounds of a key put the cursor on the first key that is not less, and on the last that is not
  greater, and find nothing exactly when there is no such key.
\<close>

theorem find_bounds:
  assumes "compare cmp" and "tree_ok T" and "ordered cmp (tree_keys T)"
    and "lo = length (filter (\<lambda>x. cmp x k < 0) (tree_keys T))" and "hi = length (filter (\<lambda>x. cmp x k \<le> 0) (tree_keys T))"
  shows "(if lo < length (tree_keys T) then \<exists>C'. BTCFindLower cmp k T C = Some (0, C') \<and> cursor_at T lo C'
      else BTCFindLower cmp k T C = Some (-1, C\<lparr>c_pPage := None\<rparr>)) \<and>
    (if 0 < hi then \<exists>C'. BTCFindUpper cmp k T C = Some (0, C') \<and> cursor_at T (hi - 1) C'
      else BTCFindUpper cmp k T C = Some (-1, C\<lparr>c_pPage := None\<rparr>))"
proof -
  note lt = compare.parted_less [OF assms(1,3), of k] and le = compare.parted_not_more [OF assms(1,3), of k]
  have "lo = length (takeWhile (\<lambda>x. cmp x k < 0) (tree_keys T))" "hi = length (takeWhile (\<lambda>x. cmp x k \<le> 0) (tree_keys T))"
    using parted_filter [OF lt] parted_filter [OF le] assms(4,5) by simp_all
  then show ?thesis
    using BTCFindLower_ok [where cmp = cmp and k = k and C = C, OF assms(2) lt le] BTCFindUpper_ok [where cmp = cmp and k = k and C = C, OF assms(2) le]
    by blast
qed

theorem find_bounds_witness:
  "\<exists>C1 C2. BTCFindLower address_cmp 25 (address_tree [20, 40, 10, 30]) BTCursorOpen = Some (0, C1) \<and> c_pKey C1 = Some 30 \<and>
    BTCFindUpper address_cmp 25 (address_tree [20, 40, 10, 30]) BTCursorOpen = Some (0, C2) \<and> c_pKey C2 = Some 20"
proof -
  let ?T = "address_tree [20, 40, 10, 30]"
  have ks: "tree_keys ?T = [10, 20, 30, 40]" by (simp add: address_tree_ok(3) put_key_def)
  show ?thesis
    using find_bounds [OF addresses.compare_axioms address_tree_ok(1,2) [of "[20, 40, 10, 30]"] refl refl, where k = 25 and C = BTCursorOpen] ks
    by (auto simp: BTI_CMP_def cursor_at_def)
qed

text \<open>
  C40: deletion of a key that is not in the tree, but whose successor is greater by a multiple of \<open>2 ^ 32\<close>, succeeds and
  takes the successor out of the tree.
\<close>

theorem BTDelete_takes_another_key:
  assumes "tree_ok T" and "ordered address_cmp (tree_keys T)" and "k \<notin> set (tree_keys T)"
    and "tree_keys T = xs @ (k + m * 4294967296) # ys" and "\<forall>x \<in> set xs. x < k"
  shows "\<exists>T'. BTDelete address_cmp k T = Some (0, T') \<and> tree_ok T' \<and> tree_keys T' = xs @ ys"
proof -
  have "takeWhile (\<lambda>x. address_cmp x k < 0) (tree_keys T) = xs"
    using assms(4,5) by (auto simp: BTI_CMP_def takeWhile_append)
  moreover have "int32 (address_cmp (k + m * 4294967296) k) = 0"
  proof -
    have "(int m * 4294967296) mod 2 ^ 32 = 0" by simp
    then show ?thesis by (simp add: BTI_CMP_def int32_def signed_take_bit_eq_take_bit_shift take_bit_eq_mod mod_add_left_eq [symmetric])
  qed
  ultimately have "found_rank address_cmp k (tree_keys T) (length (takeWhile (\<lambda>x. address_cmp x k < 0) (tree_keys T))) = Some (length xs)"
    using assms(4) by (simp add: found_rank_def)
  then show ?thesis using addresses.deletes_key [OF assms(1,2), of k] assms(4) by simp
qed

theorem BTDelete_takes_another_key_witness:
  "\<exists>T'. BTDelete address_cmp 4096 (address_tree [64, 4294971392, 4294971456]) = Some (0, T') \<and> tree_ok T' \<and> tree_keys T' = [64, 4294971456]"
  using BTDelete_takes_another_key [OF address_tree_ok(1,2), of 4096 "[64, 4294971392, 4294971456]" "[64]" 1 "[4294971456]"]
  by (simp add: address_tree_ok(3) put_key_def)

section \<open>The timer\<close>

text \<open>
  C22: whatever its callers, its two threads and the functions of its events do, and in whatever order, a timer with a list keeps
  its waiting events in the order of their times; every event that waits, is queued for the performer or is being performed is
  allocated and only one of these, and the table holds exactly the waiting ones.
\<close>

theorem timer_events_stay_allocated:
  assumes "timer_step\<^sup>*\<^sup>* (TimerInit False n mem, None) (T, w)" and "0 < n"
  shows "distinct (t_Events T @ q_entry (t_Execs T) @ (case w of None \<Rightarrow> [] | Some p \<Rightarrow> [p])) \<and>
    set (t_Events T @ q_entry (t_Execs T) @ (case w of None \<Rightarrow> [] | Some p \<Rightarrow> [p])) \<subseteq> set (t_Live T) \<and>
    ordered (t_cmp T) (t_Events T) \<and> (\<forall>p. fst (HashGet (t_Hash T) p) = (if p \<in> set (t_Events T) then Some p else None))"
proof -
  have r: "timer_ok T" "\<not> t_BTREE T" "busy_ok T w" using timer_run_ok [OF assms] by simp_all
  then show ?thesis using HashGet_event [OF r(1)] by (auto simp: timer_ok_def t_ids_def busy_ok_def split: option.split)
qed

theorem timer_events_stay_allocated_witness:
  "timer_step\<^sup>*\<^sup>* (TimerInit False 2 no_event, None) (timer_two False, None) \<and> t_Events (timer_two False) = [32, 16] \<and>
    {16, 32} \<subseteq> set (t_Live (timer_two False))"
proof -
  obtain s where "TimerSet (clock 5) 16 1000 1 7 (TimerInit False 2 no_event) = (s, timer_one False)" by (metis timer_one_def prod.collapse)
  then have 1: "timer_step (TimerInit False 2 no_event, None) (timer_one False, None)" by (intro t_set) (simp_all add: TimerInit_def)
  obtain s' where "TimerSet (clock 5) 32 1000 1 9 (timer_one False) = (s', timer_two False)" by (metis timer_two_def prod.collapse)
  then have "timer_step (timer_one False, None) (timer_two False, None)" by (intro t_set) (simp_all add: timer_one_state(3))
  with 1 have run: "timer_step\<^sup>*\<^sup>* (TimerInit False 2 no_event, None) (timer_two False, None)" by simp
  have "t_Events (timer_two False) = [32, 16]" using timer_two_state(2,3) [of False] by (simp add: t_ids_def)
  then show ?thesis using timer_events_stay_allocated [OF run] run by simp
qed

text \<open>
  C25: when the timer wakes up, exactly the events whose time is over leave the list or the B-tree and go to the performer, in
  the order of their times, marked with the time they were fired.
\<close>

theorem timer_fires_what_is_over:
  assumes "timer_ok T"
  shows "\<exists>T'. timer_expires Now T = Some T' \<and> timer_ok T' \<and> t_ids T' = filter (\<lambda>p. \<not> due Now T p) (t_ids T) \<and>
    q_entry (t_Execs T') = q_entry (t_Execs T) @ filter (due Now T) (t_ids T) \<and> t_Live T' = t_Live T \<and>
    (\<forall>p. t_Mem T' p = (if p \<in> set (t_ids T) \<and> due Now T p then (t_Mem T p)\<lparr>e_Fired := Now, e_Mode := TE_PERFORMER\<rparr> else t_Mem T p))"
  using timer_expires_ok [OF assms, of Now] by (auto simp: fired_def)

theorem timer_fires_what_is_over_witness:
  "\<exists>T'. timer_expires (clock 7) (timer_two True) = Some T' \<and> t_ids T' = [] \<and> q_entry (t_Execs T') = [32, 16]"
proof -
  have "due (clock 7) (timer_two True) 32" "due (clock 7) (timer_two True) 16"
    by (simp_all add: due_def timer_two_state TIMESPECCOMPARE_def)
  then show ?thesis using timer_fires_what_is_over [OF timer_two_state(1), of "clock 7" True] timer_two_state(2,7) [of True] by auto
qed

text \<open>
  C39: cancelling an event of a timer with a B-tree, when an event with the same time was set later, returns the argument of the
  event and frees it, but takes the other event out of the tree: the freed one still waits, the other never fires.
\<close>

theorem TimerCancel_takes_the_other:
  assumes "timer_ok T" and "t_BTREE T" and "t_ids T = ps @ q # qs" and "p \<in> set qs" and "t_cmp T q p = 0" and "\<forall>x \<in> set ps. t_cmp T x p < 0"
  shows "\<exists>sig T'. TimerCancel p T = Some (e_pArg (t_Mem T p), sig, T') \<and>
    p \<in> set (t_ids T') \<and> p \<notin> set (t_Live T') \<and> q \<notin> set (t_ids T') \<and> q \<in> set (t_Live T')"
proof -
  have "takeWhile (\<lambda>x. t_cmp T x p < 0) (t_ids T) = ps" using assms(3,5,6) by (simp add: takeWhile_append)
  then have "same_time T p = q" using assms(3) by (simp add: same_time_def)
  moreover have "distinct (t_ids T)" using assms(1) by (simp add: timer_ok_def)
  then have "q \<noteq> p" using assms(3,4) by auto
  moreover have "p \<in> set (t_ids T)" using assms(3,4) by simp
  ultimately show ?thesis using TimerCancel_other [OF assms(1,2)] by blast
qed

theorem TimerCancel_takes_the_other_witness:
  "\<exists>sig T'. TimerCancel 16 (timer_two True) = Some (e_pArg (t_Mem (timer_two True) 16), sig, T') \<and>
    16 \<in> set (t_ids T') \<and> 16 \<notin> set (t_Live T') \<and> 32 \<notin> set (t_ids T') \<and> 32 \<in> set (t_Live T')"
  using TimerCancel_takes_the_other [OF timer_two_state(1), of True "[]" 32 "[16]" 16] timer_two_state(2,3,4) [of True] by simp

end
