(* ===== verification/Spec2Isabelle.thy ===== *)
theory Spec2Isabelle
  imports Paxos_Recovery Paxos_Requests Paxos_Voting Paxos_Snapshot Paxos_Messages Gadget_Properties Session_Properties Client_Properties Tree_Properties
begin

text \<open>
  \<^bold>\<open>A replicated log by Paxos, and the sessions served above it.\<close>

  The repository (directory \<^verbatim>\<open>src/\<close>) holds a family of services replicated by Paxos. This development
  models its core: the gadget library (\<^verbatim>\<open>NWGadget\<close>) as far as the core uses it, the Paxos library
  (\<^verbatim>\<open>Paxos_2_1/paxos\<close>), and the session layer (\<^verbatim>\<open>Paxos_2_1/session\<close>), server and client, that turns the
  log into services with clients.

  \<^bold>\<open>How the parts work together.\<close> An application hands a command to \<open>PaxosRequest\<close>. The leader of the
  cell proposes it for an instance of the current page of ten instances; rounds of collect, last, begin,
  accept and success messages decide it; each server executes the decided instances in the order of
  their numbers, posts them to the application, and archives a page when all its instances are executed.
  A server that fell behind catches up from another. Heartbeats elect the master. Above this, the session
  server keeps for each client a session with the numbers of the requests last started, ended and answered,
  executes each decided request at most once, keeps the last replies for a client that lost its connection,
  and carries large data out of band, beside the log. The client library numbers its requests, looks for
  the master, sends the request again until its reply comes, and tells the server up to which number
  the request must wait.

  \<^bold>\<open>Theories and code.\<close> Each model theory names the source file in its own header; definitions have the
  names of the functions.
  \<^item> \<open>Prelude\<close>: C integers and division, loops, and the locale \<open>evolution\<close>: a reflexive and transitive
    relation between states, lifted once over loops and folds; its interpretations are the frame relations
    of the components.
  \<^item> \<open>Gadget_Base\<close>, \<open>Gadget_Hash\<close>, \<open>Gadget_Table\<close>, \<open>Gadget_Cksum\<close>, \<open>Gadget_Cache\<close>
    (\<^verbatim>\<open>NWGadget/h/NWGadget.h\<close>, \<^verbatim>\<open>NWGadget/src/NWGadget.c\<close>): sequence numbers on the 32-bit circle, time,
    \<open>Queue_t\<close>, \<open>ChSend_t\<close>, \<open>Hash_t\<close> with the built-in keys and with keys of the caller, the checksums, and the
    reference-counted elements \<open>GElmCtrl_t\<close>. A table is a list of chains; a pointer to an item is its place.
  \<^item> \<open>Gadget_BTree\<close>, \<open>Gadget_Timer\<close> (\<^verbatim>\<open>NWGadget/src/NWGadget.c\<close>): the B-tree, with a page as a datatype and the
    place of a cursor as the path of slots from the root, and the timer on top of it or of a list; the events of a
    timer are addresses, with a record of which are allocated.
  \<^item> \<open>Paxos_Types\<close> (\<^verbatim>\<open>paxos/h/Paxos.h\<close>), \<open>Paxos_Exec\<close>, \<open>Paxos_Catchup\<close>, \<open>Paxos_Round\<close>, \<open>Paxos_Agent\<close>,
    \<open>Paxos_Election\<close>, \<open>Paxos_Heartbeat\<close>, \<open>Paxos_Api\<close>, \<open>Paxos_Dispatch\<close> (\<^verbatim>\<open>paxos/src/Paxos.c\<close>): the record
    \<open>Paxos_t\<close> is \<open>struct Paxos\<close>; a handler takes it and returns it changed. What leaves a server (datagrams,
    notifications, posts, logs of effects) is appended to its trace \<open>p_Fx\<close>. \<open>None\<close> is a failed \<open>ASSERT\<close>, an
    \<open>ABORT\<close> or an access out of bounds, that is, the death of the process.
  \<^item> \<open>Session_Types\<close>, \<open>Session_Accept\<close>, \<open>Session_OutOfBand\<close>, \<open>Session_Execute\<close>, \<open>Session_Worker\<close>,
    \<open>Session_Snapshot\<close> (\<^verbatim>\<open>session/h/PaxosSession.h\<close>, \<^verbatim>\<open>session/src/PaxosSessionServer.c\<close>): \<open>PaxosAcceptor_t\<close> is
    the acceptor with the Paxos server below it; \<open>app\<close> is the application above it, a record of functions of
    the trace so far; \<open>Waits\<close> is a call that blocks, with the state in which it does.
  \<^item> \<open>Session_Client\<close> (\<^verbatim>\<open>session/src/PaxosSessionClient.c\<close>): \<open>Session_t\<close> is the session of a client with its
    table of connections. The thread that holds \<open>s_Serialize\<close> gives up the lock while it waits, so it is a
    state machine (\<open>phase\<close>, one step is \<open>req_step\<close>); the event loop, the thread of the cell and the health
    thread are one step each.

  \<^bold>\<open>Lemmas.\<close>
  \<^item> \<open>Paxos_Order\<close>, \<open>Paxos_Steps\<close>, \<open>Paxos_Evolve\<close>, \<open>Paxos_Progress\<close>: the invariant of execution, its
    preservation by every handler and thread, and progress when the next instance is decided; \<open>reachable\<close>
    is the closure of the steps of \<open>Paxos_Dispatch\<close>.
  \<^item> \<open>Paxos_Quorum\<close>, \<open>Paxos_Rounds\<close>: quorums as sets, ballots, and the effect of each step of a round.
  \<^item> \<open>Paxos_Recovery\<close>, \<open>Paxos_Requests\<close>, \<open>Paxos_Voting\<close>, \<open>Paxos_Snapshot\<close>, \<open>Paxos_Messages\<close>: catch-up, the
    slots of requests, the election, snapshots and bounds, dispatch and seals.
  \<^item> \<open>Gadget_Properties\<close>: queues, tables and checksums against their specifications. The locales \<open>key_queues\<close>,
    \<open>key_kind\<close>, \<open>elm_owner\<close> and \<open>checksum\<close> state what their clients rely on, interpreted on the model's tables.
  \<^item> \<open>BTree_Keys\<close>, \<open>BTree_Insert\<close>, \<open>BTree_Delete\<close>, \<open>BTree_Cursor\<close>, \<open>BTree_Find\<close>, \<open>BTree_Order\<close>: the keys of a tree
    as a list, and each operation as one on that list that keeps the tree balanced; a split is a cut and an underflow a join
    of two pages. The locale \<open>compare\<close> states what a tree asks of its comparison; it is interpreted on addresses and on
    the times of events. \<open>Timer_Events\<close>, \<open>Timer_Fires\<close>: the invariant of a timer, what fires, and runs of all its threads;
    \<open>Tree_Properties\<close> states the properties.
  \<^item> \<open>Session_Frame\<close>, \<open>Session_Once\<close>, \<open>Session_Threads\<close>: what every operation keeps of a session, and at most one
    delivery of each request over all interleavings of the threads. \<open>Session_Requests\<close>, \<open>Session_Replica\<close>: the
    exact condition of delivery, and totality for sessions without a connection.
    \<open>Session_Ledger\<close>, \<open>Session_Books\<close>: the books of the out-of-band data. \<open>Session_Restore\<close>: snapshots.
  \<^item> \<open>Client_Frame\<close>, \<open>Client_Replies\<close>: what connecting and sending leave alone, and the invariant of the
    numbers and replies over all interleavings of the client's threads. \<open>Client_Sending\<close>: when sending ends.
    \<open>Client_Properties\<close> composes the client with the server.
  \<^item> \<open>Paxos_Examples\<close>, \<open>Session_Examples\<close>: the concrete states on which the properties are applied.

  \<^bold>\<open>Loops and bounds.\<close> Loops over arrays are folds over their indices. The loop that empties the table of
  gaps (\<open>drain_gaps\<close>) has the size of the table as fuel, plus one: each turn removes an item. Reading a
  snapshot (\<open>unmarshal_loop\<close>) has the length of the stream plus one: each turn reads an item. The loops over a B-tree (\<open>BTCFind\<close>, \<open>BTreeDestroy\<close>, \<open>fire_tree\<close>) have
  its number of keys, and \<open>TimerStop\<close> the number of allocated events. The retries
  of a client's send (\<open>send_cell\<close>) have a number of turns as an argument, since they may go on for ever:
  \<open>sending_ends\<close> says which number is enough, \<open>broken_connections_spin\<close> when none is. A loop that
  polls or waits on a condition gets the list of the states it finds at its wake-ups, and returns what it
  waits in when the list ends. Machine integers have their width (\<open>u8\<close>, \<open>u32\<close>, \<open>u64\<close>); an \<open>int\<close> or a
  \<open>time_t\<close> of the code is an integer, and where its overflow matters it is cut back to its width.

  \<^bold>\<open>Concurrency.\<close> A step is what a thread does under the lock of the state it works on. The steps
  interleave freely: \<open>node_step\<close> for the threads of the Paxos library, \<open>session_step\<close> for those of the
  session server, \<open>client_step\<close> for those of a client, \<open>timer_step\<close> for those of a timer. A run of the
  session server holds the commands of clients, executions, the garbage timer, elections, the disconnects of
  workers and the time-outs of their delayed aborts; a step whose thread would wait is not taken. A server of
  the Paxos library begins with \<open>PaxosStart\<close>, after \<open>PaxosInitUsec\<close> or after a snapshot was read, so that
  the runs of \<open>node_step\<close> begin in a started state.

  \<^bold>\<open>Parameters.\<close> The clock, the validation and the images of messages are fields of \<open>env\<close>; the application,
  the images of heads, the result of a send and the addresses of clients are fields of \<open>app\<close>; the
  connections of a client and the result of its sends are fields of \<open>client_io\<close>. What an application does
  in \<open>if_fRequest\<close> and \<open>if_fAccepted\<close> is data: the calls it makes of the session library, in order
  (\<open>app_request\<close>, \<open>appcall\<close>), among them the reply to a request of another session (\<open>AcReplyTo\<close>), as the
  file service answers a waiting lock from an unlock.

  \<^bold>\<open>Hypotheses.\<close> A property that relies on an application, a client or a state states it by name, and its text
  says so. Of the application: \<open>answers_at\<close> (it answers the request before \<open>if_fAccepted\<close> returns; no safety
  property asks for it), \<open>keeps_to_itself\<close> (it makes no call on another session while it handles the
  request), \<open>obliging\<close> (both, of every request), \<open>loads_ok\<close> (the length of loaded data is not negative),
  \<open>adaptor_fits\<close> (both functions for its part of a snapshot, or neither). Of a client: \<open>patient\<close> (one
  request after the other). Of a state: \<open>counts_fit\<close> (the counts of replies and events are those of their
  lists; every call keeps this but the reset of a session used again) and \<open>conn_ok\<close> (indices and
  connections of a client are in order; an unchecked \<open>h_Master\<close> breaks it).

  \<^bold>\<open>Not modelled.\<close> Sockets, ports, log and administration tools are input and output. The start and
  state transfer of an acceptor (threads, sockets and files) are not modelled, nor are the client's
  wrappers that build one command. The services above the sessions (memcache, PFS, the virtual volumes) and the caches are
  applications of the core; the rest of the gadget library (double hash, heap, event loops, streams, log) is not called by it; \<^verbatim>\<open>tgt-master\<close> and the converters are third-party
  code and glue.
\<close>

section \<open>Execution\<close>

text \<open>
  C1: A server executes the instances in the order of their sequence numbers, without gap or
  repetition: in every state it reaches from its start, the sequence numbers executed so far are
  \<open>start, start + 1, \<dots>\<close> and the next one is \<open>NextDecide\<close>.
\<close>

theorem execution_in_order:
  assumes "PaxosInitUsec E Ident core ext cell usec ck = Some s0"
    and "reachable (PaxosStart ok mode nextDecide s0) s"
    and "start = (if mode = PAXOS_SEQ then nextDecide else 0)"
  shows "executed s = map (\<lambda>i. start + of_nat i) [0..<length (executed s)]
    \<and> NextDecide s = start + of_nat (length (executed s))"
proof -
  have "exec_inv start (PaxosStart ok mode nextDecide s0)"
    using started_exec_inv [OF assms(1)] assms(3) by simp
  then have "exec_inv start s" using evolve_reachable [OF assms(2)] by (simp add: evolve_def)
  then show ?thesis by (simp add: exec_inv_def log_ok_def)
qed

theorem execution_in_order_witness:
  "\<exists>s. reachable (ex_node 1 0 4294967293) s \<and> executed s = [4294967293, 4294967294] \<and> NextDecide s = 4294967295"
proof -
  let ?run = "run_events ex_env [Clock, Request [1, 2, 3] False, Request [4] False] (ex_node 1 0 4294967293)"
  have "map_option (\<lambda>s. length (executed s)) ?run = Some 2" by code_simp
  then obtain s where s: "?run = Some s" "length (executed s) = 2" by auto
  have r: "reachable (ex_node 1 0 4294967293) s" by (rule run_events_reachable [OF s(1)])
  note x = execution_in_order [OF ex_init_ok r [unfolded ex_node_def] refl, unfolded s(2)]
  have "executed s = [4294967293, 4294967294] \<and> NextDecide s = 4294967295"
    using x by (simp add: numeral_2_eq_2)
  with r show ?thesis by blast
qed

text \<open>
  C2: A decision is final. Take an instance of the current page that is decided in a state the
  server reaches and not yet executed: in every later state either its turn in the log has come,
  and what was executed in that turn is the decided value and command at the decided sequence
  number, or the page is still the current one and the instance is decided as it was.
\<close>

theorem decisions_are_final:
  assumes "PaxosInitUsec E Ident core ext cell usec ck = Some s0"
    and "reachable (PaxosStart ok mode nextDecide s0) s" and "reachable s s'"
    and "decided s k = Some (v, c)" and "k < 10" and "0 \<le> CMP (Seq s k) (NextDecide s)"
    and "i = length (executed s) + nat (CMP (Seq s k) (NextDecide s))"
  shows "if i < length (executed s') then executes_as s (Seq s k) v c (exec_log s' ! i)
    else Page s' = Page s \<and> decided s' k = Some (v, c)"
proof -
  note inv = reachable_exec_inv [OF assms(1,2)]
  then obtain n where n: "n < 10" "exec_at s n" by (auto simp: exec_inv_def)
  have c: "CMP (Seq s k) (NextDecide s) = int k - int n" using n assms(5) by (simp add: exec_at_def CMP_TO_SEQ)
  then have k: "n \<le> k" and i: "i = length (executed s) + (k - n)" using assms(6,7) by simp_all
  have "keeps_page s s'" using evolve_reachable [OF assms(3)] inv by (simp add: evolve_def)
  note p = this [unfolded keeps_page_def, rule_format, OF n]
  show ?thesis
  proof (cases "i < length (executed s')")
    case True
    then show ?thesis using p k assms(4,5) i by simp
  next
    case False
    then have "length (executed s') < length (executed s) + (10 - n)" using i k assms(5) n by linarith
    then have "Page s' = Page s \<and> decided s' k = decided s k" using p assms(4) by (metis option.distinct(1))
    then show ?thesis using False assms(4) by simp
  qed
qed

theorem decisions_are_final_witness:
  "\<exists>s'. reachable ex_ahead s'
     \<and> executes_as ex_ahead 8 \<lparr>v_Flags = 5, v_Server = 0, v_Epoch = 1, v_From = 1\<rparr> \<lparr>c_len = 1, c_opaque = [5]\<rparr> (exec_log s' ! 1)"
proof -
  let ?evs = "[ex_datagram 0 1 (MSG_SUCCESS (ex_success 0 7 [9])), ReceiverPaxos]"
  have "map_option (\<lambda>s. length (executed s)) (run_events ex_env ?evs ex_ahead) = Some 2" by code_simp
  then obtain s' where s': "run_events ex_env ?evs ex_ahead = Some s'" "length (executed s') = 2" by auto
  have r: "reachable ex_ahead s'" by (rule run_events_reachable [OF s'(1)])
  have "Seq ex_ahead 8 = 8" "CMP (Seq ex_ahead 8) (NextDecide ex_ahead) = 1"
    by (simp_all add: ex_ahead_state TO_SEQ_def CMP_def)
  with decisions_are_final [OF ex_init_ok ex_ahead_reachable r ex_ahead_state(1) _ _ refl] r s'(2)
  show ?thesis by (auto simp: ex_ahead_state)
qed

text \<open>
  C11: In every state a server reaches, \<open>NextDecide\<close> names an instance of the current
  page that is not decided, the successes of the page are the instances before it and the decided
  ones after it, and the table of gaps holds, under their sequence numbers, the decided instances
  after it with their values and commands, and nothing else.
\<close>

theorem gaps_hold_the_pending:
  assumes "PaxosInitUsec E Ident core ext cell usec ck = Some s0"
    and "reachable (PaxosStart ok mode nextDecide s0) s"
  shows "\<exists>n < 10. NextDecide s = Seq s n \<and> PMode s n \<noteq> MODE_DECIDED
    \<and> SuccessCount s = n + card {k. n < k \<and> k < 10 \<and> PMode s k = MODE_DECIDED}
    \<and> (\<forall>k < 10. n < k \<and> PMode s k = MODE_DECIDED \<longrightarrow>
          fst (HashGet (p_Gaps s) (UINT32_PNT (Seq s k))) = Some (gap_of s k))
    \<and> (\<forall>u. (\<forall>k < 10. n < k \<and> PMode s k = MODE_DECIDED \<longrightarrow> u \<noteq> Seq s k) \<longrightarrow>
          fst (HashGet (p_Gaps s) (UINT32_PNT u)) = None)"
proof -
  obtain n where n: "n < 10" "exec_at s n" using reachable_exec_inv [OF assms] by (auto simp: exec_inv_def)
  have u: "PMode s n \<noteq> MODE_DECIDED" using n by (simp add: exec_at_def)
  have q: "hash_queue (p_Gaps s) (UINT32_PNT u) = map (gap_of s) (filter (\<lambda>k. Seq s k = u) (pending s n))" for u
    using n by (simp add: exec_at_def gaps_ok_def)
  have mem: "k \<in> set (pending s n) \<longleftrightarrow> n < k \<and> k < 10 \<and> PMode s k = MODE_DECIDED" for k
    using u by (auto simp: in_pending le_less)
  have "length (pending s n) = card {k. n < k \<and> k < 10 \<and> PMode s k = MODE_DECIDED}"
  proof -
    have "set (pending s n) = {k. n < k \<and> k < 10 \<and> PMode s k = MODE_DECIDED}" using mem by blast
    then show ?thesis using distinct_card [OF distinct_pending, of s n] by simp
  qed
  then have sc: "SuccessCount s = n + card {k. n < k \<and> k < 10 \<and> PMode s k = MODE_DECIDED}"
    using n by (simp add: exec_at_def)
  have hit: "fst (HashGet (p_Gaps s) (UINT32_PNT (Seq s k))) = Some (gap_of s k)"
    if k: "k < 10" "n < k" "PMode s k = MODE_DECIDED" for k
  proof -
    have "filter (\<lambda>i. Seq s i = Seq s k) (pending s n) = filter (\<lambda>i. i = k) (pending s n)"
      using k TO_SEQ_inject by (intro filter_cong) (auto simp: in_pending)
    also have "\<dots> = [k]" using mem k by (intro filter_single distinct_pending) simp
    finally show ?thesis using HashGet_value [of "p_Gaps s"] q by simp
  qed
  have miss: "fst (HashGet (p_Gaps s) (UINT32_PNT u)) = None"
    if "\<forall>k < 10. n < k \<and> PMode s k = MODE_DECIDED \<longrightarrow> u \<noteq> Seq s k" for u
  proof -
    have "filter (\<lambda>k. Seq s k = u) (pending s n) = []" using that mem by (auto simp: filter_empty_conv)
    then show ?thesis using HashGet_value [of "p_Gaps s"] q by simp
  qed
  have "NextDecide s = Seq s n" using n by (simp add: exec_at_def)
  then show ?thesis using n(1) u sc hit miss by blast
qed

theorem gaps_hold_the_pending_witness:
  "fst (HashGet (p_Gaps ex_ahead) (UINT32_PNT 8)) = Some (gap_of ex_ahead 8)"
proof -
  obtain n where n: "n < 10" "NextDecide ex_ahead = Seq ex_ahead n"
    and g: "\<forall>k < 10. n < k \<and> PMode ex_ahead k = MODE_DECIDED \<longrightarrow>
          fst (HashGet (p_Gaps ex_ahead) (UINT32_PNT (Seq ex_ahead k))) = Some (gap_of ex_ahead k)"
    using gaps_hold_the_pending [OF ex_init_ok ex_ahead_reachable] by blast
  have "TO_SEQ 0 n = TO_SEQ 0 7" using n(2) by (simp add: ex_ahead_state) (simp add: TO_SEQ_def)
  then have "n = 7" using TO_SEQ_inject [of n 7 0] n(1) by simp
  moreover have "Seq ex_ahead 8 = 8" by (simp add: ex_ahead_state TO_SEQ_def)
  ultimately show ?thesis using g [rule_format, of 8] ex_ahead_state(5) by simp
qed

text \<open>
  C3: A server that receives a success for its next instance, which it validates and whose command
  fits, returns: it executes this command under this number, then the decided instances that
  follow without a gap, and moves to the next page exactly when the last instance of the page was
  among them.
\<close>

theorem success_is_executed:
  assumes "PaxosInitUsec E0 Ident core ext cell usec ck = Some s0"
    and "reachable (PaxosStart ok mode nextDecide s0) s"
    and "srv_index s fr = Some j" and "sc_Page pS = Page s" and "k_index (sc_k pS) = Some k"
    and "NextDecide s = Seq s k"
    and "isSameValue (sc_Value pS) (RndValue s k)
      \<or> fst (PaxosValidate E PAXOS_MODE_SUCCESS (Seq s k) (sc_Value pS) (sc_MetaCmd pS) s) = 0"
    and "\<not> isEmpty (sc_MetaCmd pS)" and "cmd_fits (value_normal (sc_Value pS)) (sc_MetaCmd pS)"
    and "\<forall>i w d. k < i \<and> i < 10 \<and> decided s i = Some (w, d) \<longrightarrow> cmd_fits w d"
  shows "\<exists>s'. RecvSuccess E fr pS s = Some s'
    \<and> executed s' = executed s @ map (Seq s) (k # run s (Suc k))
    \<and> executes_as s (Seq s k) (value_normal (sc_Value pS)) (sc_MetaCmd pS) (exec_log s' ! length (executed s))
    \<and> Page s' = (if Suc k + length (run s (Suc k)) = 10 then Page s + 1 else Page s)"
  using RecvSuccess_executes [OF reachable_exec_inv [OF assms(1,2)]] assms(3-) by (simp add: success_due_def)

theorem success_is_executed_witness:
  "\<exists>s'. RecvSuccess ex_env 0 (ex_success 0 7 [9]) ex_ahead = Some s' \<and> executed s' = [7, 8] \<and> Page s' = 0"
proof -
  have "srv_index ex_ahead 0 = Some 0" "run ex_ahead 8 = [8]" "executed ex_ahead = []" by code_simp+
  moreover have "sc_Page (ex_success 0 7 [9]) = Page ex_ahead" "k_index (sc_k (ex_success 0 7 [9])) = Some 7"
    "NextDecide ex_ahead = Seq ex_ahead 7" "\<not> isEmpty (sc_MetaCmd (ex_success 0 7 [9]))"
    "fst (PaxosValidate ex_env PAXOS_MODE_SUCCESS (Seq ex_ahead 7) (sc_Value (ex_success 0 7 [9])) (sc_MetaCmd (ex_success 0 7 [9])) ex_ahead) = 0"
    "cmd_fits (value_normal (sc_Value (ex_success 0 7 [9]))) (sc_MetaCmd (ex_success 0 7 [9]))"
    by (simp_all add: ex_success_def ex_ahead_state k_index_def TO_SEQ_def isEmpty_def PaxosValidate_def cmd_fits_def)
  ultimately show ?thesis
    using success_is_executed [OF ex_init_ok ex_ahead_reachable _ _ _ _ _ _ _ ex_ahead_gaps, of 0 0 "ex_success 0 7 [9]" ex_env]
    by (simp add: ex_ahead_state) (auto simp: TO_SEQ_def)
qed

text \<open>
  C13: A positive answer to a catch-up request, for the next instance, executes the command of the
  answer under its number, marked as caught up, and then the decided instances that follow without
  a gap.
\<close>

theorem catchup_is_executed:
  assumes "PaxosInitUsec E0 Ident core ext cell usec ck = Some s0"
    and "reachable (PaxosStart ok mode nextDecide s0) s"
    and "c_True pRpl" and "c_Seq pRpl = NextDecide s" and "TO_PAGE (NextDecide s) = Page s"
    and "fst (PaxosValidate E PAXOS_MODE_CATCHUP (NextDecide s) (p_RndValue (c_PaxosI pRpl)) (c_MetaCmd pRpl) s) = 0"
    and "\<not> isEmpty (c_MetaCmd pRpl)" and "cmd_fits (p_RndValue (c_PaxosI pRpl)) (c_MetaCmd pRpl)"
    and "\<forall>i w d. TO_K (NextDecide s) < i \<and> i < 10 \<and> decided s i = Some (w, d) \<longrightarrow> cmd_fits w d"
    and "server_receive_catchup_rpl E fr pRpl s = Some s'"
  shows "executed s' = executed s @ map (Seq s) (TO_K (NextDecide s) # run s (Suc (TO_K (NextDecide s))))
    \<and> executes_as s (NextDecide s)
        (p_RndValue (c_PaxosI pRpl)\<lparr>v_Flags := v_Flags (p_RndValue (c_PaxosI pRpl)) OR VALUE_CATCHUP\<rparr>)
        (c_MetaCmd pRpl) (exec_log s' ! length (executed s))"
proof -
  note inv = reachable_exec_inv [OF assms(1,2)]
  let ?k = "TO_K (NextDecide s)" and ?v = "p_RndValue (c_PaxosI pRpl)" and ?s1 = "s\<lparr>p_CatchupPageLast := 0\<rparr>"
  let ?f = "\<lambda>p. p\<lparr>p_Mode := MODE_DECIDED,
      p_RndValue := ?v\<lparr>v_From := int (MyId s), v_Flags := v_Flags ?v OR VALUE_CATCHUP\<rparr>\<rparr>"
  have nd: "NextDecide s = Seq s ?k" using TO_SEQ_TO_PAGE [of "NextDecide s"] assms(5) by simp
  obtain Ret t where v: "PaxosValidate E PAXOS_MODE_CATCHUP (Seq ?s1 ?k) ?v (c_MetaCmd pRpl) ?s1 = (Ret, t)" by fastforce
  have "Ret = 0"
    using v assms(6) nd by (auto simp: PaxosValidate_def split: if_splits)
  have q: "quiet s t" by (rule quiet_Validate_eq [OF v]) (intro quiet_intro)
  then have id: "p_MyId t = p_MyId s" by (simp add: quiet_def same_config_def)
  have "(v_Flags ?v OR VALUE_CATCHUP) AND VALUE_NOOP = v_Flags ?v AND VALUE_NOOP"
    by (simp add: bit.conj_disj_distrib2)
  then have "cmd_fits (?v\<lparr>v_From := int (MyId s), v_Flags := v_Flags ?v OR VALUE_CATCHUP\<rparr>) (c_MetaCmd pRpl)"
    using assms(8) by (simp add: cmd_fits_def)
  note d = decide_next [OF inv q nd TO_K_less assms(7) this assms(9) _ _ refl, of ?f E, simplified]
  have "PMode s ?k \<noteq> MODE_DECIDED" using d PaxosValidate_PMode [OF v] by simp
  then obtain u where u: "catchup_install E ?k ?v (c_MetaCmd pRpl) t = Some u"
    and rest: "(if CMP (c_Seq pRpl) (p_CatchupNextDecide u - 1) \<ge> 0 then
            Some (fold (catchup_finish E) [0..<p_Max u] (u\<lparr>p_IssuedLast := 0\<rparr>))
          else if p_IssuedLast u \<noteq> 0 \<and> CMP (c_Seq pRpl) (p_IssuedSeq u) = 0 then CatchupFire E u
          else Some u) = Some s'"
    using assms(3,4,5,10) v \<open>Ret = 0\<close> by (auto simp: server_receive_catchup_rpl_def Let_def bind_eq_Some_conv)
  have "quiet u s'" by (rule quiet_catchup_tail [OF rest])
  then have same: "executed s' = executed u" "exec_log s' = exec_log u"
    using exec_log_same by (simp_all add: quiet_def)
  have "executes_as s q (?v\<lparr>v_From := int (MyId s), v_Flags := v_Flags ?v OR VALUE_CATCHUP\<rparr>) c x
      = executes_as s q (?v\<lparr>v_Flags := v_Flags ?v OR VALUE_CATCHUP\<rparr>) c x" for q c x
    by (rule executes_as_value_cong) simp_all
  then show ?thesis using d u nd by (simp add: same catchup_install_def Let_def id)
qed

definition ex_answer :: "u32 \<Rightarrow> u8 list \<Rightarrow> msg_catchup_rpl_t" where
  "ex_answer seq cmd = \<lparr>c_True = True, c_MyNextDecide = 9, c_Seq = seq,
     c_PaxosI = instance_zero\<lparr>p_Mode := MODE_DECIDED, p_RndValue := \<lparr>v_Flags = 5, v_Server = 2, v_Epoch = 1, v_From = 0\<rparr>\<rparr>,
     c_MetaCmd = \<lparr>c_len = of_nat (length cmd), c_opaque = cmd\<rparr>\<rparr>"

theorem catchup_is_executed_witness:
  "\<exists>s'. server_receive_catchup_rpl ex_env 0 (ex_answer 7 [9]) ex_ahead = Some s' \<and> executed s' = [7, 8]"
proof -
  have "\<not> Option.is_none (server_receive_catchup_rpl ex_env 0 (ex_answer 7 [9]) ex_ahead)" by code_simp
  then obtain s' where s': "server_receive_catchup_rpl ex_env 0 (ex_answer 7 [9]) ex_ahead = Some s'" using ex_some by blast
  have k: "TO_K (NextDecide ex_ahead) = 7" "TO_PAGE (NextDecide ex_ahead) = Page ex_ahead"
    by (simp_all add: ex_ahead_state TO_K_def TO_PAGE_def)
  have "run ex_ahead 8 = [8]" "executed ex_ahead = []" by code_simp+
  moreover have "c_True (ex_answer 7 [9])" "c_Seq (ex_answer 7 [9]) = NextDecide ex_ahead"
    "fst (PaxosValidate ex_env PAXOS_MODE_CATCHUP (NextDecide ex_ahead) (p_RndValue (c_PaxosI (ex_answer 7 [9]))) (c_MetaCmd (ex_answer 7 [9])) ex_ahead) = 0"
    "\<not> isEmpty (c_MetaCmd (ex_answer 7 [9]))" "cmd_fits (p_RndValue (c_PaxosI (ex_answer 7 [9]))) (c_MetaCmd (ex_answer 7 [9]))"
    by (simp_all add: ex_answer_def ex_ahead_state isEmpty_def PaxosValidate_def cmd_fits_def)
  ultimately show ?thesis
    using catchup_is_executed [OF ex_init_ok ex_ahead_reachable _ _ k(2) _ _ _ _ s', unfolded k(1)] ex_ahead_gaps s'
    by (simp add: ex_ahead_state TO_SEQ_def)
qed

end
